(* ===== verification/Prelude.thy ===== *)
theory Prelude imports
  Main
  "HOL-Library.Word"
  "HOL-Library.Finite_Map"
  "HOL-Library.Char_ord"
  "HOL-Library.List_Lexorder"
  "HOL-Library.Product_Lexorder"
begin

text \<open>
  What every component of the model shares.

  \<^item> Rust's fixed-width integers as words, and byte strings as lists of \<open>u8\<close>.
  \<^item> \<open>Result<T, E>\<close> as the sum type \<open>'e + 'a\<close> (\<open>Inl\<close> is \<open>Err\<close>), with \<open>rbind\<close> for the \<open>?\<close>
    operator and \<open>rfold\<close> for a \<open>for\<close> loop whose body uses \<open>?\<close>.
  \<^item> Code that writes to a store while it may fail as \<open>'s \<Rightarrow> ('e + 'a) \<times> 's\<close>: the store comes back
    on the error paths too, since Rust keeps whatever was written before an early return.
    \<open>preserves\<close> states that a computation keeps a reflexive and transitive relation between the
    store before and after, whatever its outcome.
  \<^item> \<open>BTreeMap\<close>, \<open>HashMap\<close> as finite maps, \<open>BTreeSet\<close>, \<open>HashSet\<close> as finite sets; the ascending
    iteration of the B-tree collections is \<open>sorted_list_of_fmap\<close> and \<open>sorted_list_of_set\<close>.
\<close>

named_theorems monad_simps \<open>unfolding of the result and store monads on their outcomes\<close>
named_theorems preserve_intros \<open>composition rules for computations that keep a store relation\<close>

type_synonym u8 = "8 word"
type_synonym u32 = "32 word"
type_synonym u64 = "64 word"
type_synonym bytes = "u8 list"

section \<open>Results\<close>

definition rbind :: "'e + 'a \<Rightarrow> ('a \<Rightarrow> 'e + 'b) \<Rightarrow> 'e + 'b" where
  "rbind r f = (case r of Inl e \<Rightarrow> Inl e | Inr x \<Rightarrow> f x)"

definition ok_or :: "'a option \<Rightarrow> 'e \<Rightarrow> 'e + 'a" where
  "ok_or x e = (case x of None \<Rightarrow> Inl e | Some y \<Rightarrow> Inr y)"

fun rfold :: "('a \<Rightarrow> 's \<Rightarrow> 'e + 's) \<Rightarrow> 'a list \<Rightarrow> 's \<Rightarrow> 'e + 's" where
  "rfold f [] s = Inr s"
| "rfold f (x # xs) s = rbind (f x s) (rfold f xs)"

definition map_err :: "('e \<Rightarrow> 'f) \<Rightarrow> 'e + 'a \<Rightarrow> 'f + 'a" where
  "map_err f r = (case r of Inl e \<Rightarrow> Inl (f e) | Inr x \<Rightarrow> Inr x)"

fun rmap :: "('a \<Rightarrow> 'e + 'b) \<Rightarrow> 'a list \<Rightarrow> 'e + 'b list" where
  "rmap f [] = Inr []"
| "rmap f (x # xs) = rbind (f x) (\<lambda>y. rbind (rmap f xs) (\<lambda>ys. Inr (y # ys)))"

text \<open>Evaluation unfolds the binds to their case distinctions, so that a continuation is evaluated only once its argument is.\<close>

declare rbind_def [code_unfold]

lemma rbind_simps [simp]:
  "rbind (Inl e) f = Inl e"
  "rbind (Inr x) f = f x"
  by (simp_all add: rbind_def)

lemma rbind_Inr_iff [monad_simps]:
  "rbind r f = Inr y \<longleftrightarrow> (\<exists>x. r = Inr x \<and> f x = Inr y)"
  by (cases r) auto

lemma rbind_Inl_iff [monad_simps]:
  "rbind r f = Inl e \<longleftrightarrow> r = Inl e \<or> (\<exists>x. r = Inr x \<and> f x = Inl e)"
  by (cases r) auto

lemma rbind_cong [fundef_cong]:
  assumes "r = r'" and "\<And>x. r' = Inr x \<Longrightarrow> f x = g x"
  shows "rbind r f = rbind r' g"
  using assms by (cases r') auto

lemma ok_or_simps [simp]:
  "ok_or None e = Inl e"
  "ok_or (Some x) e = Inr x"
  by (simp_all add: ok_or_def)

lemma ok_or_Inr_iff [monad_simps]: "ok_or x e = Inr y \<longleftrightarrow> x = Some y"
  by (cases x) auto

lemma rfold_append:
  "rfold f (xs @ ys) s = rbind (rfold f xs s) (rfold f ys)"
proof (induction xs arbitrary: s)
  case Nil
  show ?case by simp
next
  case (Cons x xs)
  then show ?case by (cases "f x s") simp_all
qed

lemma rfold_total:
  "rfold (\<lambda>x s. Inr (f x s)) xs s = Inr (fold f xs s)"
  by (induction xs arbitrary: s) simp_all

lemma map_err_Inr [simp]: "map_err f r = Inr x \<longleftrightarrow> r = Inr x" "map_err f (Inr x) = Inr x"
  by (auto simp: map_err_def split: sum.splits)

lemma rmap_Inr_iff:
  "rmap f xs = Inr ys \<longleftrightarrow> list_all2 (\<lambda>x y. f x = Inr y) xs ys"
proof (induction xs arbitrary: ys)
  case Nil
  show ?case by auto
next
  case (Cons x xs)
  show ?case by (cases ys) (auto simp: monad_simps Cons.IH)
qed

lemma rmap_map_Inr [simp]: "(\<And>x. x \<in> set xs \<Longrightarrow> f (g x) = Inr x) \<Longrightarrow> rmap f (map g xs) = Inr xs"
  by (induction xs) simp_all

section \<open>Computations over a store\<close>

type_synonym ('s, 'e, 'a) prog = "'s \<Rightarrow> ('e + 'a) \<times> 's"

definition sret :: "'a \<Rightarrow> ('s, 'e, 'a) prog" where
  "sret x = (\<lambda>s. (Inr x, s))"

definition slift :: "'e + 'a \<Rightarrow> ('s, 'e, 'a) prog" where
  "slift r = (\<lambda>s. (r, s))"

definition sread :: "('s \<Rightarrow> 'e + 'a) \<Rightarrow> ('s, 'e, 'a) prog" where
  "sread f = (\<lambda>s. (f s, s))"

definition sbind :: "('s, 'e, 'a) prog \<Rightarrow> ('a \<Rightarrow> ('s, 'e, 'b) prog) \<Rightarrow> ('s, 'e, 'b) prog" where
  "sbind m f = (\<lambda>s. case m s of (Inl e, s') \<Rightarrow> (Inl e, s') | (Inr x, s') \<Rightarrow> f x s')"

fun sfold :: "('a \<Rightarrow> 'acc \<Rightarrow> ('s, 'e, 'acc) prog) \<Rightarrow> 'a list \<Rightarrow> 'acc \<Rightarrow> ('s, 'e, 'acc) prog" where
  "sfold f [] acc = sret acc"
| "sfold f (x # xs) acc = sbind (f x acc) (sfold f xs)"

declare sbind_def [code_unfold]

lemma sret_apply [monad_simps]: "sret x s = (Inr x, s)"
  by (simp add: sret_def)

lemma slift_apply [monad_simps]: "slift r s = (r, s)"
  by (simp add: slift_def)

lemma sread_apply [monad_simps]: "sread f s = (f s, s)"
  by (simp add: sread_def)

lemma sbind_Inr_iff [monad_simps]:
  "sbind m f s = (Inr y, s') \<longleftrightarrow> (\<exists>x t. m s = (Inr x, t) \<and> f x t = (Inr y, s'))"
  by (auto simp: sbind_def split: prod.splits sum.splits)

lemma sbind_Inl_iff [monad_simps]:
  "sbind m f s = (Inl e, s') \<longleftrightarrow>
     m s = (Inl e, s') \<or> (\<exists>x t. m s = (Inr x, t) \<and> f x t = (Inl e, s'))"
  by (auto simp: sbind_def split: prod.splits sum.splits)

lemma sbind_run: "m s = (Inr x, t) \<Longrightarrow> sbind m f s = f x t"
  by (simp add: sbind_def)

lemma sbind_sret [simp]: "sbind (sret x) f = f x"
  by (simp add: sbind_def sret_def)

lemma sbind_sread: "sbind (sread f) g s = (case f s of Inl e \<Rightarrow> (Inl e, s) | Inr x \<Rightarrow> g x s)"
  by (simp add: sbind_def sread_def)

lemma sbind_slift_Inr [simp]: "sbind (slift (Inr x)) f = f x"
  by (simp add: sbind_def slift_def)

lemma sbind_sret_right [simp]: "sbind m sret = m"
  by (rule ext) (simp add: sbind_def sret_def split: prod.split sum.split)

lemma sbind_assoc: "sbind (sbind m f) g = sbind m (\<lambda>x. sbind (f x) g)"
  by (rule ext) (simp add: sbind_def split: prod.split sum.split)

lemma sfold_Nil [simp]: "sfold f [] = sret"
  by (rule ext) simp

lemma sfold_map: "sfold f (map h xs) = sfold (\<lambda>x. f (h x)) xs"
proof (induction xs)
  case (Cons x xs)
  then show ?case by (intro ext) simp
qed simp

lemma sbind_cong [fundef_cong]:
  assumes "m = m'" and "s = s'" and "\<And>x t. m' s' = (Inr x, t) \<Longrightarrow> f x t = g x t"
  shows "sbind m f s = sbind m' g s'"
  using assms by (auto simp: sbind_def split: prod.splits sum.splits)

text \<open>A computation whose outcome does not depend on the store, and one that never fails.\<close>

definition store_free :: "('s, 'e, 'a) prog \<Rightarrow> bool" where
  "store_free m \<longleftrightarrow> (\<forall>s t. fst (m s) = fst (m t))"

definition succeeds :: "('s, 'e, 'a) prog \<Rightarrow> bool" where
  "succeeds m \<longleftrightarrow> (\<forall>s. \<exists>x t. m s = (Inr x, t))"

lemma store_freeD: "store_free m \<Longrightarrow> m s = (r, t) \<Longrightarrow> m s' = (r', t') \<Longrightarrow> r = r'"
  unfolding store_free_def by (metis fst_conv)

lemma store_free_sret [preserve_intros]: "store_free (sret x)"
  by (simp add: store_free_def sret_def)

lemma store_free_slift [preserve_intros]: "store_free (slift r)"
  by (simp add: store_free_def slift_def)

lemma store_free_sbind:
  assumes "store_free m" and "\<And>s x t. m s = (Inr x, t) \<Longrightarrow> store_free (f x)"
  shows "store_free (sbind m f)"
  unfolding store_free_def
proof (intro allI)
  fix s t
  obtain r s' where s: "m s = (r, s')" by (cases "m s")
  obtain r' t' where t: "m t = (r', t')" by (cases "m t")
  have r: "r' = r" using assms(1) s t by (rule store_freeD [symmetric])
  show "fst (sbind m f s) = fst (sbind m f t)"
  proof (cases r)
    case (Inl e)
    with s t r show ?thesis by (simp add: sbind_def)
  next
    case (Inr x)
    then have "fst (f x s') = fst (f x t')" using assms(2) s by (simp add: store_free_def)
    with s t r Inr show ?thesis by (simp add: sbind_def)
  qed
qed

lemma store_free_sfold:
  assumes "\<And>x acc. x \<in> set xs \<Longrightarrow> store_free (f x acc)"
  shows "store_free (sfold f xs acc)"
  using assms by (induction xs arbitrary: acc) (auto intro!: store_free_sret store_free_sbind)

lemma succeeds_sret [preserve_intros]: "succeeds (sret x)"
  by (simp add: succeeds_def sret_def)

lemma succeeds_sbind:
  assumes "succeeds m" and "\<And>s x t. m s = (Inr x, t) \<Longrightarrow> succeeds (f x)"
  shows "succeeds (sbind m f)"
  unfolding succeeds_def
proof
  fix s
  obtain x t where "m s = (Inr x, t)" using assms(1) unfolding succeeds_def by blast
  with assms(2) [OF this] show "\<exists>x t. sbind m f s = (Inr x, t)"
    by (simp add: sbind_run succeeds_def)
qed

lemma succeeds_sfold:
  assumes "\<And>x acc. x \<in> set xs \<Longrightarrow> succeeds (f x acc)"
  shows "succeeds (sfold f xs acc)"
  using assms by (induction xs arbitrary: acc) (auto intro!: succeeds_sret succeeds_sbind)

text \<open>The outcome of a computation that does not depend on the store.\<close>

definition outcome :: "('s, 'e, 'a) prog \<Rightarrow> 'e + 'a" where
  "outcome m = fst (m undefined)"

lemma outcomeD: "store_free m \<Longrightarrow> m s = (r, t) \<Longrightarrow> r = outcome m"
  unfolding outcome_def store_free_def by (metis fst_conv)

lemma outcome_run: "store_free m \<Longrightarrow> fst (m s) = outcome m"
  unfolding outcome_def store_free_def by blast

lemma outcome_sret [simp]: "outcome (sret x) = Inr x"
  by (simp add: outcome_def sret_def)

lemma outcome_sbind:
  assumes "\<And>x. store_free (f x)"
  shows "outcome (sbind m f) = rbind (outcome m) (\<lambda>x. outcome (f x))"
proof -
  obtain r t where m: "m undefined = (r, t)" by fastforce
  show ?thesis
  proof (cases r)
    case (Inr x)
    with m outcome_run [OF assms, of x t] show ?thesis by (simp add: outcome_def sbind_def)
  qed (use m in \<open>simp add: outcome_def sbind_def\<close>)
qed

lemma outcome_sfold:
  assumes "\<And>x acc. store_free (f x acc)"
  shows "outcome (sfold f xs acc) = rfold (\<lambda>x acc. outcome (f x acc)) xs acc"
proof (induction xs arbitrary: acc)
  case (Cons x xs)
  have "\<And>acc. store_free (sfold f xs acc)" by (intro store_free_sfold assms)
  with Cons show ?case by (simp add: outcome_sbind del: sfold.simps) (simp add: outcome_sbind)
qed simp

definition preserves :: "('s \<Rightarrow> 's \<Rightarrow> bool) \<Rightarrow> ('s, 'e, 'a) prog \<Rightarrow> bool" where
  "preserves R m \<longleftrightarrow> (\<forall>s. R s (snd (m s)))"

lemma preservesD: "preserves R m \<Longrightarrow> m s = (r, t) \<Longrightarrow> R s t"
  by (auto simp: preserves_def dest: spec [where x = s])

lemma preserves_sret [preserve_intros]: "reflp R \<Longrightarrow> preserves R (sret x)"
  by (simp add: preserves_def reflp_def sret_def slift_def sread_def)

lemma preserves_slift [preserve_intros]: "reflp R \<Longrightarrow> preserves R (slift r)"
  by (simp add: preserves_def reflp_def sret_def slift_def sread_def)

lemma preserves_sread [preserve_intros]: "reflp R \<Longrightarrow> preserves R (sread f)"
  by (simp add: preserves_def reflp_def sret_def slift_def sread_def)

lemma preserves_sbind [preserve_intros]:
  assumes "transp R" and "preserves R m" and "\<And>x. preserves R (f x)"
  shows "preserves R (sbind m f)"
  unfolding preserves_def
proof
  fix s
  obtain r t where m: "m s = (r, t)" by (cases "m s")
  have st: "R s t" using assms(2) m by (rule preservesD)
  show "R s (snd (sbind m f s))"
  proof (cases r)
    case (Inl e)
    with m st show ?thesis by (simp add: sbind_def)
  next
    case (Inr x)
    have "R t (snd (f x t))"
      using assms(3) [of x] by (simp add: preserves_def)
    with m st Inr assms(1) show ?thesis
      by (auto simp: sbind_def dest: transpD)
  qed
qed

lemma preserves_sfold [preserve_intros]:
  assumes "reflp R" and "transp R" and "\<And>x acc. x \<in> set xs \<Longrightarrow> preserves R (f x acc)"
  shows "preserves R (sfold f xs acc)"
  using assms(3)
proof (induction xs arbitrary: acc)
  case Nil
  show ?case using assms(1) by (simp only: sfold.simps preserves_sret)
next
  case (Cons x xs)
  have "preserves R (f x acc)" by (rule Cons.prems) simp
  moreover have "preserves R (sfold f xs acc')" for acc' by (rule Cons.IH) (simp add: Cons.prems)
  ultimately show ?case using assms(2) by (simp only: sfold.simps preserves_sbind)
qed

section \<open>Finite maps and sets as ordered collections\<close>

abbreviation bt_iter :: "('k::linorder, 'v) fmap \<Rightarrow> ('k \<times> 'v) list" where
  "bt_iter \<equiv> sorted_list_of_fmap"

definition strict_keys :: "('k::linorder \<times> 'v) list \<Rightarrow> bool" where
  "strict_keys es \<longleftrightarrow> sorted_wrt (<) (map fst es)"

lemma strict_keys_Nil [simp]: "strict_keys []"
  by (simp add: strict_keys_def)

lemma strict_keys_Cons:
  "strict_keys ((k, v) # es) \<longleftrightarrow> (\<forall>k' \<in> fst ` set es. k < k') \<and> strict_keys es"
  by (auto simp: strict_keys_def)

lemma strict_keys_append:
  "strict_keys (xs @ ys) \<longleftrightarrow>
     strict_keys xs \<and> strict_keys ys \<and> (\<forall>x \<in> fst ` set xs. \<forall>y \<in> fst ` set ys. x < y)"
  by (auto simp: strict_keys_def sorted_wrt_append)

lemma strict_keys_distinct: "strict_keys es \<Longrightarrow> distinct (map fst es)"
  by (simp add: strict_keys_def strict_sorted_iff)

lemma strict_keys_bt_iter: "strict_keys (bt_iter m)"
proof -
  have "map fst (bt_iter m) = sorted_list_of_fset (fmdom m)"
    by (simp add: sorted_list_of_fmap_def comp_def)
  then show ?thesis
    unfolding strict_keys_def by (simp add: sorted_list_of_fset.rep_eq)
qed

lemma fmap_of_list_bt_iter [simp]: "fmap_of_list (bt_iter m) = m"
  by (rule fmap_ext) (simp add: fmlookup_of_list)

lemma strict_keys_map_of_eq:
  assumes "strict_keys xs" and "strict_keys ys" and "map_of xs = map_of ys"
  shows "xs = ys"
proof -
  have set: "set xs = set ys"
    using assms by (metis map_of_eqI map_of_inject_set strict_keys_distinct)
  then have "set (map fst xs) = set (map fst ys)" by simp
  then have fst: "map fst xs = map fst ys"
    using assms(1,2) unfolding strict_keys_def by (simp add: strict_sorted_equal)
  have "map snd xs = map snd ys"
  proof (rule nth_equalityI)
    show len: "length (map snd xs) = length (map snd ys)"
      using fst by (metis length_map)
    fix i assume i: "i < length (map snd xs)"
    with len have i': "i < length xs" "i < length ys" by simp_all
    have "map_of xs (fst (xs ! i)) = Some (snd (xs ! i))"
      using i' assms(1) by (simp add: strict_keys_distinct)
    moreover have "map_of ys (fst (ys ! i)) = Some (snd (ys ! i))"
      using i' assms(2) by (simp add: strict_keys_distinct)
    moreover have "fst (xs ! i) = fst (ys ! i)"
      using fst i' by (metis nth_map)
    ultimately show "map snd xs ! i = map snd ys ! i"
      using assms(3) i' by simp
  qed
  with fst show ?thesis by (metis zip_map_fst_snd)
qed

lemma bt_iter_fmap_of_list: "strict_keys es \<Longrightarrow> bt_iter (fmap_of_list es) = es"
  by (rule strict_keys_map_of_eq)
     (simp_all add: strict_keys_bt_iter fmlookup_of_list)

text \<open>Two facts on \<open>partition_point\<close>: over a sorted list it counts the elements that satisfy
  a downward-closed predicate.\<close>

definition partition_point :: "('a \<Rightarrow> bool) \<Rightarrow> 'a list \<Rightarrow> nat" where
  "partition_point p xs = length (takeWhile p xs)"

lemma partition_point_le [simp]: "partition_point p xs \<le> length xs"
  by (simp add: partition_point_def length_takeWhile_le)

lemma partition_point_before: "i < partition_point p xs \<Longrightarrow> p (xs ! i)"
  unfolding partition_point_def by (metis nth_mem set_takeWhileD takeWhile_nth)

lemma partition_point_after:
  assumes "sorted_wrt (<) (xs :: 'a::linorder list)"
    and "partition_point (\<lambda>b. b \<le> k) xs \<le> i" and "i < length xs"
  shows "k < xs ! i"
proof -
  let ?n = "partition_point (\<lambda>b. b \<le> k) xs"
  have n: "?n < length xs" using assms(2,3) by simp
  then have "\<not> xs ! ?n \<le> k"
    unfolding partition_point_def by (rule nth_length_takeWhile)
  moreover have "xs ! ?n \<le> xs ! i"
    using assms n by (metis order.order_iff_strict sorted_wrt_iff_nth_less)
  ultimately show ?thesis by simp
qed


section \<open>\<open>slice::binary_search_by_key\<close>\<close>

text \<open>The loop of the standard library: \<open>gt i\<close> says that element \<open>i\<close> is greater than the key.\<close>

function bsearch_loop :: "(nat \<Rightarrow> bool) \<Rightarrow> nat \<Rightarrow> nat \<Rightarrow> nat" where
  "bsearch_loop gt base len =
     (if 1 < len then
        let half = len div 2; mid = base + half in
        bsearch_loop gt (if gt mid then base else mid) (len - half)
      else base)"
  by pat_completeness auto
termination
  by (relation "measure (\<lambda>(gt, base, len). len)") auto

declare bsearch_loop.simps [simp del]

definition binary_search :: "'k::linorder \<Rightarrow> ('k \<times> 'v) list \<Rightarrow> nat option" where
  "binary_search key es =
     (if es = [] then None
      else let base = bsearch_loop (\<lambda>i. key < fst (es ! i)) 0 (length es) in
        if fst (es ! base) = key then Some base else None)"

lemma bsearch_loop_inv:
  assumes "0 < len" and "base + len \<le> n" and "base = 0 \<or> \<not> gt base"
    and "\<forall>i. base + len \<le> i \<and> i < n \<longrightarrow> gt i"
    and "\<And>i j. i \<le> j \<Longrightarrow> gt i \<Longrightarrow> gt j"
  shows "bsearch_loop gt base len < n \<and>
    (bsearch_loop gt base len = 0 \<or> \<not> gt (bsearch_loop gt base len)) \<and>
    (\<forall>i. bsearch_loop gt base len < i \<and> i < n \<longrightarrow> gt i)"
  using assms
proof (induction gt base len rule: bsearch_loop.induct)
  case (1 gt base len)
  show ?case
  proof (cases "1 < len")
    case False
    with 1(2-5) show ?thesis by (simp add: bsearch_loop.simps [of gt base])
  next
    case True
    let ?half = "len div 2" and ?mid = "base + len div 2"
    let ?base = "if gt ?mid then base else ?mid"
    have half: "0 < ?half" "?half < len" using True by auto
    have tail: "\<forall>i. ?base + (len - ?half) \<le> i \<and> i < n \<longrightarrow> gt i"
    proof (intro allI impI)
      fix i assume i: "?base + (len - ?half) \<le> i \<and> i < n"
      show "gt i"
      proof (cases "gt ?mid")
        case gtmid: True
        have "?mid \<le> i" using i gtmid by auto
        with gtmid 1(6) show ?thesis by blast
      next
        case False
        with i half 1(5) show ?thesis by auto
      qed
    qed
    have "0 < len - ?half" using half by simp
    moreover have "?base + (len - ?half) \<le> n" using 1(3) half by auto
    moreover have "?base = 0 \<or> \<not> gt ?base" using 1(4) by simp
    ultimately have "0 < len - ?half" "?base + (len - ?half) \<le> n" "?base = 0 \<or> \<not> gt ?base" .
    note IH = 1(1) [OF True refl refl this tail 1(6)]
    have eq: "bsearch_loop gt base len = bsearch_loop gt ?base (len - ?half)"
      by (subst bsearch_loop.simps) (simp only: True Let_def if_True)
    show ?thesis unfolding eq by (rule IH)
  qed
qed

lemma binary_search_map_of:
  assumes "strict_keys es"
  shows "map_option (\<lambda>i. snd (es ! i)) (binary_search key es) = map_of es key"
proof (cases "es = []")
  case True
  then show ?thesis by (simp add: binary_search_def)
next
  case False
  let ?A = "\<lambda>i. i < length es \<longrightarrow> key < fst (es ! i)"
  let ?b = "bsearch_loop (\<lambda>i. key < fst (es ! i)) 0 (length es)"
  have less: "fst (es ! i) < fst (es ! j)" if "i < j" "j < length es" for i j
    using assms that by (auto simp: strict_keys_def sorted_wrt_iff_nth_less)
  have cong: "bsearch_loop f base len = bsearch_loop g base len"
    if "\<And>i. i < n \<Longrightarrow> f i = g i" "base + len \<le> n" for f g base len n
    using that
  proof (induction f base len rule: bsearch_loop.induct)
    case (1 f base len)
    then show ?case
      by (cases "1 < len")
         (auto simp: bsearch_loop.simps [of f base len] bsearch_loop.simps [of g base len] Let_def)
  qed
  have eq: "?b = bsearch_loop ?A 0 (length es)"
    by (rule cong [of "length es"]) simp_all
  have "?A j" if "i \<le> j" "?A i" for i j
    using that less [of i j] by (cases "i = j") (auto dest: order.strict_trans)
  then have inv: "?b < length es \<and> (?b = 0 \<or> \<not> ?A ?b) \<and> (\<forall>i. ?b < i \<and> i < length es \<longrightarrow> ?A i)"
    unfolding eq using False by (intro bsearch_loop_inv) auto
  define b where "b = ?b"
  have b: "b < length es" and low: "b = 0 \<or> fst (es ! b) \<le> key"
    and high: "\<And>i. b < i \<Longrightarrow> i < length es \<Longrightarrow> key < fst (es ! i)"
    using inv by (auto simp: b_def)
  show ?thesis
  proof (cases "fst (es ! b) = key")
    case True
    then have "map_of es key = Some (snd (es ! b))"
      using b assms by (metis map_of_eq_Some_iff nth_mem prod.collapse strict_keys_distinct)
    with True False show ?thesis by (simp add: binary_search_def Let_def b_def)
  next
    case ne: False
    have "fst (es ! i) \<noteq> key" if i: "i < length es" for i
    proof (cases i b rule: linorder_cases)
      case le: less
      then have "fst (es ! b) \<le> key" using low by auto
      moreover have "fst (es ! i) < fst (es ! b)" using le b by (rule less)
      ultimately show ?thesis by auto
    next
      case equal
      with ne show ?thesis by simp
    next
      case greater
      with high [OF _ i] show ?thesis by auto
    qed
    then have "map_of es key = None"
      unfolding map_of_eq_None_iff by (metis fst_conv imageE in_set_conv_nth prod.collapse)
    with ne False show ?thesis by (simp add: binary_search_def Let_def b_def)
  qed
qed

end
