(* ===== verification/Ids.thy ===== *)
theory Ids imports Prelude begin

text \<open>
  The 16-byte identifiers of \<open>crates/mnem-core/src/id/stable.rs\<close> and the Prolly-tree key of
  \<open>crates/mnem-core/src/prolly/constants.rs\<close>.

  A \<open>[u8; 16]\<close> is a 128-bit word whose bytes, most significant first, are the array: the type
  then carries the length, and the derived \<open>Ord\<close> of the array is the numeric order of the word
  (\<open>key_bytes_less_iff\<close>). All stable ids and \<open>ProllyKey\<close> are newtypes over the same array, and the
  \<open>From\<close> conversions between them copy it, so they share the type.
\<close>

type_synonym prolly_key = "128 word"
type_synonym node_id = "128 word"
type_synonym edge_id = "128 word"
type_synonym change_id = "128 word"

definition be_value :: "bytes \<Rightarrow> nat" where
  "be_value bs = foldl (\<lambda>a b. a * 256 + unat b) 0 bs"

definition key_bytes :: "prolly_key \<Rightarrow> bytes" where
  "key_bytes k = map (\<lambda>i. ucast (drop_bit (8 * (15 - i)) k)) [0..<16]"

definition key_of_bytes :: "bytes \<Rightarrow> prolly_key option" where
  "key_of_bytes bs = (if length bs = 16 then Some (foldl (\<lambda>a b. a * 256 + ucast b) 0 bs) else None)"

lemma key_bytes_div: "key_bytes k = map (\<lambda>i. word_of_nat (unat k div 256 ^ (15 - i))) [0..<16]"
proof -
  have "ucast (drop_bit (8 * n) k) = (word_of_nat (unat k div 256 ^ n) :: u8)" for n
  proof -
    have "unat k < 2 ^ 128" using unsigned_less [of k] by simp
    then have "unat (drop_bit (8 * n) k) = unat k div 256 ^ n"
      by (simp only: unsigned_drop_bit_eq) (simp add: drop_bit_eq_div power_mult take_bit_nat_eq_self)
    then show ?thesis by (metis of_nat_unat)
  qed
  then show ?thesis by (simp add: key_bytes_def)
qed

lemma foldl_word: "foldl (\<lambda>a b. a * 256 + ucast (b :: u8)) (word_of_nat c) bs
    = (word_of_nat (foldl (\<lambda>a b. a * 256 + unat b) c bs) :: prolly_key)"
proof (induction bs arbitrary: c)
  case Nil
  show ?case by simp
next
  case (Cons b bs)
  have "word_of_nat c * 256 + ucast b = (word_of_nat (c * 256 + unat b) :: prolly_key)"
    by simp
  then show ?case by (simp only: foldl.simps Cons.IH)
qed

lemma key_of_bytes_value:
  "key_of_bytes bs = (if length bs = 16 then Some (word_of_nat (be_value bs)) else None)"
  using foldl_word [of 0 bs] by (simp add: key_of_bytes_def be_value_def)

section \<open>Big-endian digits\<close>

lemma be_value_Nil [simp]: "be_value [] = 0"
  by (simp add: be_value_def)

lemma be_value_snoc [simp]: "be_value (bs @ [b]) = be_value bs * 256 + unat b"
  by (simp add: be_value_def)

lemma be_value_foldl: "foldl (\<lambda>a (b::u8). a * 256 + unat b) c bs = c * 256 ^ length bs + be_value bs"
proof (induction bs rule: rev_induct)
  case Nil
  show ?case by simp
next
  case (snoc x xs)
  then show ?case
    by (simp add: distrib_right)
qed

lemma be_value_Cons: "be_value (b # bs) = unat b * 256 ^ length bs + be_value bs"
  using be_value_foldl [of "unat b" bs] by (simp add: be_value_def)

lemma unat_u8_less: "unat (b :: u8) < 256"
  using unsigned_less [of b] by simp

lemma be_value_bound: "be_value bs < 256 ^ length bs"
proof (induction bs rule: rev_induct)
  case Nil
  show ?case by simp
next
  case (snoc b bs)
  have "be_value bs * 256 + unat b < (be_value bs + 1) * 256"
    using unat_u8_less [of b] by simp
  also have "\<dots> \<le> 256 ^ length bs * 256"
    using snoc.IH by (intro mult_le_mono1) simp
  finally show ?case by simp
qed

lemma be_value_less_iff:
  "length xs = length ys \<Longrightarrow> be_value xs < be_value ys \<longleftrightarrow> xs < ys"
proof (induction xs ys rule: list_induct2)
  case Nil
  show ?case by simp
next
  case (Cons x xs y ys)
  let ?p = "256 ^ length xs :: nat"
  have bx: "be_value xs < ?p" by (rule be_value_bound)
  have "be_value ys < 256 ^ length ys" by (rule be_value_bound)
  then have by': "be_value ys < ?p" using Cons.hyps by simp
  consider "x < y" | "x = y" | "y < x" by fastforce
  then show ?case
  proof cases
    case 1
    then have "unat x + 1 \<le> unat y" by (simp add: word_less_nat_alt)
    then have "(unat x + 1) * ?p \<le> unat y * ?p" by (rule mult_le_mono1)
    then have "unat x * ?p + be_value xs < unat y * ?p + be_value ys"
      using bx by simp
    with 1 Cons.hyps show ?thesis by (simp add: be_value_Cons)
  next
    case 2
    with Cons show ?thesis by (simp add: be_value_Cons)
  next
    case 3
    then have "unat y + 1 \<le> unat x" by (simp add: word_less_nat_alt)
    then have "(unat y + 1) * ?p \<le> unat x * ?p" by (rule mult_le_mono1)
    then have "unat y * ?p + be_value ys < unat x * ?p + be_value xs"
      using by' by simp
    moreover have "\<not> x < y" "x \<noteq> y" using 3 by auto
    ultimately show ?thesis using Cons.hyps by (simp add: be_value_Cons)
  qed
qed

lemma digits_value:
  assumes "v < 256 ^ n"
  shows "be_value (map (\<lambda>i. word_of_nat (v div 256 ^ (n - 1 - i))) [0..<n]) = v"
  using assms
proof (induction n arbitrary: v)
  case 0
  then show ?case by simp
next
  case (Suc n)
  have "v div 256 < 256 ^ n" using Suc.prems by (simp add: div_less_iff_less_mult mult.commute)
  then have IH: "be_value (map (\<lambda>i. word_of_nat (v div 256 div 256 ^ (n - 1 - i))) [0..<n]) = v div 256"
    by (rule Suc.IH)
  have shift: "v div 256 ^ (n - i) = v div 256 div 256 ^ (n - 1 - i)" if "i < n" for i
  proof -
    have "n - i = Suc (n - 1 - i)" using that by simp
    then show ?thesis by (simp only: power_Suc div_mult2_eq)
  qed
  have "map (\<lambda>i. word_of_nat (v div 256 ^ (Suc n - 1 - i)) :: u8) [0..<Suc n]
      = map (\<lambda>i. word_of_nat (v div 256 div 256 ^ (n - 1 - i))) [0..<n] @ [word_of_nat v]"
    using shift by simp
  moreover have "unat (word_of_nat v :: u8) = v mod 256"
    by (simp add: unat_of_nat)
  ultimately show ?case by (simp only: be_value_snoc IH) simp
qed

lemma key_bytes_value: "be_value (key_bytes k) = unat k"
proof -
  have "unat k < 256 ^ 16" using unsigned_less [of k] by simp
  then have "be_value (map (\<lambda>i. word_of_nat (unat k div 256 ^ (16 - 1 - i))) [0..<16]) = unat k"
    by (rule digits_value)
  then show ?thesis unfolding key_bytes_div by simp
qed

section \<open>The byte form of a key\<close>

lemma length_key_bytes [simp]: "length (key_bytes k) = 16"
  by (simp add: key_bytes_def)

lemma key_of_bytes_key_bytes [simp]: "key_of_bytes (key_bytes k) = Some k"
  by (simp add: key_of_bytes_value key_bytes_value)

lemma key_bytes_inject [simp]: "key_bytes k = key_bytes l \<longleftrightarrow> k = l"
  by (metis key_of_bytes_key_bytes option.inject)

lemma key_of_bytes_Some:
  assumes "key_of_bytes bs = Some k"
  shows "key_bytes k = bs"
proof -
  from assms have len: "length bs = 16" and k: "k = word_of_nat (be_value bs)"
    by (auto simp: key_of_bytes_value split: if_splits)
  have "be_value bs < 2 ^ 128" using be_value_bound [of bs] len by simp
  then have "be_value (key_bytes k) = be_value bs"
    unfolding key_bytes_value k by (simp add: unat_of_nat)
  then have "\<not> key_bytes k < bs \<and> \<not> bs < key_bytes k"
    using be_value_less_iff [of "key_bytes k" bs] be_value_less_iff [of bs "key_bytes k"] len by simp
  then show ?thesis by auto
qed

lemma key_bytes_less_iff: "key_bytes k < key_bytes l \<longleftrightarrow> k < l"
  using be_value_less_iff [of "key_bytes k" "key_bytes l"]
  by (simp add: key_bytes_value word_less_nat_alt)

end
