(* ===== verification/Codec.thy ===== *)
theory Codec imports Ids begin

text \<open>
  The data model the objects are stored in, and \<open>crates/mnem-core/src/codec/dagcbor.rs\<close>.

  \<^item> \<open>ipld\<close> is \<open>ipld_core::ipld::Ipld\<close>: the tree of values every object is turned into by its
    \<open>Serialize\<close> impl and read back from by its \<open>Deserialize\<close> impl. An \<open>f64\<close> is kept as its 64 bits,
    an \<open>i128\<close> as an integer, a map with \<open>String\<close> keys as a finite map.
  \<^item> \<open>external\<close> collects what the program takes from other crates, as the parameter of every
    definition that uses it: the DAG-CBOR encoder and decoder (\<open>serde_ipld_dagcbor\<close>, which may fail
    either way), the digests, the constructor, accessors and text forms of \<open>cid::CidGeneric\<close>, and
    how \<open>serde\<close> widens an \<open>f32\<close> (its 32 bits) to the \<open>f64\<close> of the wire and narrows it again. The type
    \<open>'c\<close> is the CID, \<open>'h\<close> the multihash and \<open>'b\<close> the byte string of a block: nothing below looks
    inside them.
  \<^item> \<open>json\<close> is \<open>serde_json::Value\<close> as far as the program builds such values itself; \<open>JOther\<close> stands for the rest
    (numbers and arrays), which only \<open>props_json\<close>, the conversion of a property map, can return.
  \<^item> \<open>error\<close> is \<open>crates/mnem-core/src/error.rs\<close> without its message strings. \<open>Panic\<close> stands for an
    \<open>expect\<close>, an index out of range or an \<open>assert\<close> that fires, \<open>Diverge\<close> for a loop that has not
    returned within the fuel given to it.
\<close>

datatype 'c ipld =
    INull
  | IBool bool
  | IInteger int
  | IFloat u64
  | IString string
  | IBytes bytes
  | IList "'c ipld list"
  | IMap "(string, 'c ipld) fmap"
  | ILink 'c

type_synonym 'c ipld_map = "(string, 'c ipld) fmap"

datatype json =
    JNull
  | JBool bool
  | JString string
  | JObject "(string, json) fmap"
  | JOther string

datatype codec_error = Encode | Decode | NonCanonical

datatype 'c store_error = CidMismatch 'c 'c | NotFound 'c | Io | Corruption 'c

datatype 'c repo_error =
    Uninitialized
  | Stale
  | NoCommonAncestor
  | NotFoundMatch
  | AmbiguousMatch
  | IndexCorrupt 'c
  | VectorDimMismatch u32 nat
  | RetrievalEmpty
  | DanglingEdge node_id string

datatype object_error = WrongKind string string | EmbeddingSizeMismatch nat nat | InvalidInput

datatype 'c error =
    Id
  | Codec codec_error
  | Store "'c store_error"
  | Repo "'c repo_error"
  | Object object_error
  | Sign
  | Panic
  | Diverge

record ('c, 'h, 'b) external =
  enc :: "'c ipld \<Rightarrow> 'b option"
  dec :: "'b \<Rightarrow> 'c ipld option"
  sha2_256 :: "'b \<Rightarrow> 'h"
  blake3_256 :: "'b \<Rightarrow> 'h"
  mh_code :: "'h \<Rightarrow> u64"
  cid_new :: "u64 \<Rightarrow> 'h \<Rightarrow> 'c"
  cid_codec :: "'c \<Rightarrow> u64"
  cid_hash :: "'c \<Rightarrow> 'h"
  keyed_hash :: "bytes \<Rightarrow> bytes \<Rightarrow> bytes"
  blake3 :: "bytes \<Rightarrow> bytes"
  block_bytes :: "'b \<Rightarrow> bytes"
  cid_bytes :: "'c \<Rightarrow> bytes"
  cid_string :: "'c \<Rightarrow> string"
  uuid_string :: "node_id \<Rightarrow> string"
  props_json :: "'c ipld_map \<Rightarrow> json"
  f32_ipld :: "u32 \<Rightarrow> u64"
  ipld_f32 :: "u64 \<Rightarrow> u32"

section \<open>Constants of the CID format\<close>

definition CODEC_DAG_CBOR :: u64 where "CODEC_DAG_CBOR = 0x71"
definition CODEC_RAW :: u64 where "CODEC_RAW = 0x55"
definition HASH_SHA2_256 :: u64 where "HASH_SHA2_256 = 0x12"
definition HASH_BLAKE3_256 :: u64 where "HASH_BLAKE3_256 = 0x1e"

section \<open>Canonical bytes and content addresses\<close>

definition to_canonical_bytes :: "('c, 'h, 'b) external \<Rightarrow> 'c ipld \<Rightarrow> 'c error + 'b" where
  "to_canonical_bytes E v = ok_or (enc E v) (Codec Encode)"

definition from_canonical_bytes ::
    "('c, 'h, 'b) external \<Rightarrow> ('c ipld \<Rightarrow> codec_error + 'a) \<Rightarrow> 'b \<Rightarrow> 'c error + 'a" where
  "from_canonical_bytes E de bs =
     (case dec E bs of
        None \<Rightarrow> Inl (Codec Decode)
      | Some v \<Rightarrow> (case de v of Inl e \<Rightarrow> Inl (Codec e) | Inr x \<Rightarrow> Inr x))"

definition block_cid :: "('c, 'h, 'b) external \<Rightarrow> 'b \<Rightarrow> 'c" where
  "block_cid E bs = cid_new E CODEC_DAG_CBOR (sha2_256 E bs)"

definition hash_to_cid :: "('c, 'h, 'b) external \<Rightarrow> 'c ipld \<Rightarrow> 'c error + ('b \<times> 'c)" where
  "hash_to_cid E v = rbind (to_canonical_bytes E v) (\<lambda>bs. Inr (bs, block_cid E bs))"

lemma hash_to_cid_Inr:
  "hash_to_cid E v = Inr (bs, c) \<longleftrightarrow> enc E v = Some bs \<and> c = block_cid E bs"
  by (auto simp: hash_to_cid_def to_canonical_bytes_def monad_simps)

text \<open>
  The two facts about the other crates that the components rely on: decoding an encoded value
  gives the value back, and no two blocks share a SHA2-256 content address.
\<close>

definition codec_roundtrip :: "('c, 'h, 'b) external \<Rightarrow> bool" where
  "codec_roundtrip E \<longleftrightarrow> (\<forall>v bs. enc E v = Some bs \<longrightarrow> dec E bs = Some v)"

definition collision_free :: "('c, 'h, 'b) external \<Rightarrow> bool" where
  "collision_free E \<longleftrightarrow> inj (block_cid E)"

text \<open>
  The encoder rejects a float that is not finite (\<open>dagcbor.rs\<close>, the errors of \<open>to_canonical_bytes\<close>), and CBOR
  has no integer outside the range of its two 64-bit major types. A value with neither, whatever its
  depth, is encoded; the law says nothing about the others.
\<close>

primrec plain_value :: "'c ipld \<Rightarrow> bool" where
  "plain_value INull = True"
| "plain_value (IBool b) = True"
| "plain_value (IInteger i) = (- (2 ^ 64) \<le> i \<and> i < 2 ^ 64)"
| "plain_value (IFloat f) = False"
| "plain_value (IString s) = True"
| "plain_value (IBytes b) = True"
| "plain_value (IList xs) = list_all id (map plain_value xs)"
| "plain_value (IMap m) = fmpred (\<lambda>k b. b) (fmmap plain_value m)"
| "plain_value (ILink c) = True"

definition encodes_plain :: "('c, 'h, 'b) external \<Rightarrow> bool" where
  "encodes_plain E \<longleftrightarrow> (\<forall>v. plain_value v \<longrightarrow> enc E v \<noteq> None)"

lemma plain_value_map: "plain_value (IMap m) \<longleftrightarrow> (\<forall>k v. fmlookup m k = Some v \<longrightarrow> plain_value v)"
  by (auto simp: fmpred_iff)

section \<open>Links of a block\<close>

definition WALK_IPLD_MAX_DEPTH :: nat where "WALK_IPLD_MAX_DEPTH = 64"

function walk_ipld :: "'c ipld \<Rightarrow> 'c list \<Rightarrow> nat \<Rightarrow> codec_error + 'c list" where
  "walk_ipld node out depth =
     (if WALK_IPLD_MAX_DEPTH \<le> depth then Inl Decode
      else case node of
          INull \<Rightarrow> Inr out
        | IBool _ \<Rightarrow> Inr out
        | IInteger _ \<Rightarrow> Inr out
        | IFloat _ \<Rightarrow> Inr out
        | IString _ \<Rightarrow> Inr out
        | IBytes _ \<Rightarrow> Inr out
        | IList xs \<Rightarrow> rfold (\<lambda>x out. walk_ipld x out (depth + 1)) xs out
        | IMap m \<Rightarrow> rfold (\<lambda>(k, v) out. walk_ipld v out (depth + 1)) (bt_iter m) out
        | ILink c \<Rightarrow> Inr (out @ [c]))"
  by pat_completeness auto
termination
  by (relation "measure (\<lambda>(node, out, depth). WALK_IPLD_MAX_DEPTH - depth)") auto

declare walk_ipld.simps [simp del]

lemma walk_ipld_capped: "WALK_IPLD_MAX_DEPTH \<le> depth \<Longrightarrow> walk_ipld v out depth = Inl Decode"
  by (subst walk_ipld.simps) simp

lemma walk_ipld_below:
  assumes "\<not> WALK_IPLD_MAX_DEPTH \<le> depth"
  shows
    "walk_ipld INull out depth = Inr out"
    "walk_ipld (IBool b) out depth = Inr out"
    "walk_ipld (IInteger i) out depth = Inr out"
    "walk_ipld (IFloat f) out depth = Inr out"
    "walk_ipld (IString s) out depth = Inr out"
    "walk_ipld (IBytes bs) out depth = Inr out"
    "walk_ipld (IList xs) out depth = rfold (\<lambda>x out. walk_ipld x out (depth + 1)) xs out"
    "walk_ipld (IMap m) out depth = rfold (\<lambda>(k, v) out. walk_ipld v out (depth + 1)) (bt_iter m) out"
    "walk_ipld (ILink c) out depth = Inr (out @ [c])"
  using assms by (subst walk_ipld.simps, simp)+

definition extract_links :: "('c, 'h, 'b) external \<Rightarrow> 'b \<Rightarrow> 'c error + 'c list" where
  "extract_links E bs =
     from_canonical_bytes E (\<lambda>root. walk_ipld root [] 0) bs"

subsection \<open>What the walk returns\<close>

primrec links_of :: "'c ipld \<Rightarrow> 'c list" where
  "links_of INull = []"
| "links_of (IBool b) = []"
| "links_of (IInteger i) = []"
| "links_of (IFloat f) = []"
| "links_of (IString s) = []"
| "links_of (IBytes b) = []"
| "links_of (IList xs) = concat (map links_of xs)"
| "links_of (IMap m) = concat (map snd (bt_iter (fmmap links_of m)))"
| "links_of (ILink c) = [c]"

primrec nesting :: "'c ipld \<Rightarrow> nat" where
  "nesting INull = 1"
| "nesting (IBool b) = 1"
| "nesting (IInteger i) = 1"
| "nesting (IFloat f) = 1"
| "nesting (IString s) = 1"
| "nesting (IBytes b) = 1"
| "nesting (IList xs) = Suc (Max (insert 0 (set (map nesting xs))))"
| "nesting (IMap m) = Suc (Max (insert 0 (fset (fmran (fmmap nesting m)))))"
| "nesting (ILink c) = 1"

lemma bt_iter_fmmap: "bt_iter (fmmap f m) = map (\<lambda>(k, v). (k, f v)) (bt_iter m)"
proof -
  have "the (map_option f (fmlookup m k)) = f (the (fmlookup m k))"
    if "k \<in> set (sorted_list_of_fset (fmdom m))" for k
    using that by (auto simp: sorted_list_of_fset.rep_eq fmlookup_dom_iff)
  then show ?thesis by (simp add: sorted_list_of_fmap_def)
qed

lemma set_bt_iter: "(k, v) \<in> set (bt_iter m) \<longleftrightarrow> fmlookup m k = Some v"
  by (metis map_of_eq_Some_iff map_of_sorted_list strict_keys_bt_iter strict_keys_distinct)

lemma rfold_collect:
  assumes "\<And>x out. x \<in> set xs \<Longrightarrow> f x out = Inr (out @ g x)"
  shows "rfold f xs out = Inr (out @ concat (map g xs))"
  using assms by (induction xs arbitrary: out) simp_all

lemma rfold_fails:
  assumes "x \<in> set xs" and "\<And>out. \<exists>e. f x out = Inl (Decode)"
    and "\<And>y out. y \<in> set xs \<Longrightarrow> f y out = Inl Decode \<or> (\<exists>o'. f y out = Inr o')"
  shows "rfold f xs out = Inl Decode"
  using assms
proof (induction xs arbitrary: out)
  case Nil
  then show ?case by simp
next
  case (Cons y ys)
  show ?case
  proof (cases "f y out = Inl Decode")
    case True
    then show ?thesis by simp
  next
    case False
    with Cons.prems(3) [of y out] obtain o' where o': "f y out = Inr o'" by auto
    from False Cons.prems(1,2) have "x \<in> set ys" by auto
    then have "rfold f ys o' = Inl Decode"
      by (rule Cons.IH) (use Cons.prems(2,3) in auto)
    with o' show ?thesis by simp
  qed
qed

lemma nesting_pos: "0 < nesting v"
  by (cases v) auto

lemma nesting_list_le: "x \<in> set xs \<Longrightarrow> nesting x < nesting (IList xs)"
  by (simp add: less_Suc_eq_le)

lemma nesting_map_le:
  assumes "fmlookup m k = Some v"
  shows "nesting v < nesting (IMap m)"
proof -
  have "fmlookup (fmmap nesting m) k = Some (nesting v)" using assms by simp
  then have "nesting v \<in> fset (fmran (fmmap nesting m))" by (rule fmranI)
  then show ?thesis by (simp add: less_Suc_eq_le)
qed

lemma nesting_list_cases:
  assumes "n < nesting (IList xs)" and "0 < n"
  obtains x where "x \<in> set xs" and "n \<le> nesting x"
proof -
  let ?S = "insert 0 (set (map nesting xs))"
  have "Max ?S \<in> ?S" by (rule Max_in) auto
  moreover have "n \<le> Max ?S" using assms(1) by (simp add: less_Suc_eq_le)
  ultimately show ?thesis using assms(2) that by auto
qed

lemma nesting_map_cases:
  assumes "n < nesting (IMap m)" and "0 < n"
  obtains k v where "fmlookup m k = Some v" and "n \<le> nesting v"
proof -
  let ?S = "insert 0 (fset (fmran (fmmap nesting m)))"
  have "Max ?S \<in> ?S" by (rule Max_in) auto
  moreover have "n \<le> Max ?S" using assms(1) by (simp add: less_Suc_eq_le)
  ultimately obtain y where "y \<in> fset (fmran (fmmap nesting m))" "n \<le> y"
    using assms(2) by auto
  then show ?thesis using that by (auto elim!: fmranE)
qed

lemma walk_ipld_ok:
  "depth + nesting v \<le> WALK_IPLD_MAX_DEPTH \<Longrightarrow> walk_ipld v out depth = Inr (out @ links_of v)"
proof (induction v out depth rule: walk_ipld.induct)
  case (1 v out depth)
  have d: "\<not> WALK_IPLD_MAX_DEPTH \<le> depth" using 1(3) nesting_pos [of v] by simp
  show ?case
  proof (cases v)
    case (IList xs)
    have "walk_ipld x out' (depth + 1) = Inr (out' @ links_of x)" if "x \<in> set xs" for x out'
      using 1(1) [OF d IList, of x out'] 1(3) nesting_list_le [OF that] IList by simp
    then show ?thesis
      using d IList by (simp add: walk_ipld_below rfold_collect)
  next
    case (IMap m)
    have "walk_ipld x out' (depth + 1) = Inr (out' @ links_of x)" if "(k, x) \<in> set (bt_iter m)" for k x out'
    proof -
      have "nesting x < nesting v" using that IMap nesting_map_le by (metis set_bt_iter)
      then show ?thesis using 1(3) by (intro 1(2) [OF d IMap]) simp_all
    qed
    then have "rfold (\<lambda>(k, v) out. walk_ipld v out (depth + 1)) (bt_iter m) out
        = Inr (out @ concat (map (\<lambda>(k, v). links_of v) (bt_iter m)))"
      by (intro rfold_collect) auto
    then show ?thesis
      using d IMap by (simp add: walk_ipld_below bt_iter_fmmap comp_def case_prod_unfold)
  qed (use d in \<open>simp_all add: walk_ipld_below\<close>)
qed

lemma walk_ipld_outcome:
  "walk_ipld v out depth = Inl Decode \<or> (\<exists>out'. walk_ipld v out depth = Inr out')"
proof (induction v out depth rule: walk_ipld.induct)
  case (1 v out depth)
  have total: "rfold f xs o1 = Inl Decode \<or> (\<exists>o2. rfold f xs o1 = Inr o2)"
    if "\<And>x o1. f x o1 = Inl Decode \<or> (\<exists>o2. f x o1 = Inr o2)"
    for f :: "'x \<Rightarrow> 'a list \<Rightarrow> codec_error + 'a list" and xs o1
    using that by (induction xs arbitrary: o1) (auto, metis rbind_simps)
  show ?case
  proof (cases "WALK_IPLD_MAX_DEPTH \<le> depth")
    case True
    then show ?thesis by (simp add: walk_ipld_capped)
  next
    case False
    show ?thesis
    proof (cases v)
      case (IList xs)
      then show ?thesis
        using False 1(1) [OF False IList] by (simp add: walk_ipld_below total)
    next
      case (IMap m)
      then show ?thesis
        using False 1(2) [OF False IMap] by (simp add: walk_ipld_below total split: prod.split)
    qed (use False in \<open>simp_all add: walk_ipld_below\<close>)
  qed
qed

lemma walk_ipld_too_deep:
  "WALK_IPLD_MAX_DEPTH < depth + nesting v \<Longrightarrow> walk_ipld v out depth = Inl Decode"
proof (induction v out depth rule: walk_ipld.induct)
  case (1 v out depth)
  show ?case
  proof (cases "WALK_IPLD_MAX_DEPTH \<le> depth")
    case True
    then show ?thesis by (simp add: walk_ipld_capped)
  next
    case False
    let ?n = "WALK_IPLD_MAX_DEPTH - depth"
    have n: "?n < nesting v" "0 < ?n" using 1(3) False by simp_all
    show ?thesis
    proof (cases v)
      case (IList xs)
      with n obtain x where x: "x \<in> set xs" "?n \<le> nesting x" by (metis nesting_list_cases)
      have "walk_ipld x o' (depth + 1) = Inl Decode" for o'
        using 1(1) [OF False IList, of x o'] x(2) False by simp
      then have "rfold (\<lambda>x out. walk_ipld x out (depth + 1)) xs out = Inl Decode"
        using x(1) by (intro rfold_fails [of x]) (simp_all add: walk_ipld_outcome)
      then show ?thesis using False IList by (simp add: walk_ipld_below)
    next
      case (IMap m)
      with n obtain k x where x: "fmlookup m k = Some x" "?n \<le> nesting x" by (metis nesting_map_cases)
      have "walk_ipld x o' (depth + 1) = Inl Decode" for o'
        using x(2) False by (intro 1(2) [OF False IMap]) simp_all
      then have "rfold (\<lambda>(k, v) out. walk_ipld v out (depth + 1)) (bt_iter m) out = Inl Decode"
        using x(1) by (intro rfold_fails [of "(k, x)"]) (auto simp: set_bt_iter, metis walk_ipld_outcome)
      then show ?thesis using False IMap by (simp add: walk_ipld_below)
    qed (use n in simp_all)
  qed
qed

end
