(* ===== verification/Serde.thy ===== *)
theory Serde imports Codec begin

text \<open>
  What the \<open>#[derive(Serialize, Deserialize)]\<close> attributes of the wire structs mean over \<open>ipld\<close>.

  A struct is a map from its field names. \<open>wire_map\<close> builds one: a field given as \<open>None\<close> is left
  out (\<open>skip_serializing_if\<close>), and the entries of the \<open>#[serde(flatten)]\<close> map \<open>extra\<close> stand beside the
  fields. Reading takes a required field (\<open>req\<close>), an optional one (\<open>opt\<close>: absent or null is \<open>None\<close>), or
  one with a default (\<open>dflt\<close>), and leaves the keys that name no field in \<open>extra\<close> (\<open>rest_of\<close>). A key of
  \<open>extra\<close> that is also a field name would be emitted twice; \<open>extra_ok\<close> excludes it.
\<close>

type_synonym 'c field = "string \<times> 'c ipld option"

fun present :: "'c field list \<Rightarrow> (string \<times> 'c ipld) list" where
  "present [] = []"
| "present ((k, None) # fs) = present fs"
| "present ((k, Some v) # fs) = (k, v) # present fs"

definition wire_map :: "'c field list \<Rightarrow> 'c ipld_map \<Rightarrow> 'c ipld_map" where
  "wire_map fs extra = extra ++\<^sub>f fmap_of_list (present fs)"

definition rest_of :: "string list \<Rightarrow> 'c ipld_map \<Rightarrow> 'c ipld_map" where
  "rest_of names m = fmdrop_fset (fset_of_list names) m"

definition extra_ok :: "string list \<Rightarrow> 'c ipld_map \<Rightarrow> bool" where
  "extra_ok names extra \<longleftrightarrow> list_all (\<lambda>k. fmlookup extra k = None) names"

fun as_map :: "'c ipld \<Rightarrow> codec_error + 'c ipld_map" where
  "as_map (IMap m) = Inr m"
| "as_map _ = Inl Decode"

definition req :: "'c ipld_map \<Rightarrow> string \<Rightarrow> ('c ipld \<Rightarrow> codec_error + 'a) \<Rightarrow> codec_error + 'a" where
  "req m k de = (case fmlookup m k of None \<Rightarrow> Inl Decode | Some v \<Rightarrow> de v)"

definition opt :: "'c ipld_map \<Rightarrow> string \<Rightarrow> ('c ipld \<Rightarrow> codec_error + 'a) \<Rightarrow> codec_error + 'a option" where
  "opt m k de = (case fmlookup m k of
      None \<Rightarrow> Inr None
    | Some v \<Rightarrow> if v = INull then Inr None else rbind (de v) (\<lambda>x. Inr (Some x)))"

definition dflt :: "'c ipld_map \<Rightarrow> string \<Rightarrow> 'a \<Rightarrow> ('c ipld \<Rightarrow> codec_error + 'a) \<Rightarrow> codec_error + 'a" where
  "dflt m k d de = (case fmlookup m k of None \<Rightarrow> Inr d | Some v \<Rightarrow> de v)"

section \<open>Values\<close>

fun de_bool :: "'c ipld \<Rightarrow> codec_error + bool" where
  "de_bool (IBool b) = Inr b"
| "de_bool _ = Inl Decode"

fun de_string :: "'c ipld \<Rightarrow> codec_error + string" where
  "de_string (IString s) = Inr s"
| "de_string _ = Inl Decode"

fun de_bytes :: "'c ipld \<Rightarrow> codec_error + bytes" where
  "de_bytes (IBytes b) = Inr b"
| "de_bytes _ = Inl Decode"

fun de_cid :: "'c ipld \<Rightarrow> codec_error + 'c" where
  "de_cid (ILink c) = Inr c"
| "de_cid _ = Inl Decode"

fun de_u64 :: "'c ipld \<Rightarrow> codec_error + u64" where
  "de_u64 (IInteger i) = (if 0 \<le> i \<and> i < 2 ^ 64 then Inr (word_of_int i) else Inl Decode)"
| "de_u64 _ = Inl Decode"

text \<open>\<open>ProllyKey\<close> and the stable ids visit a byte string and insist on 16 bytes.\<close>

fun de_key :: "'c ipld \<Rightarrow> codec_error + prolly_key" where
  "de_key (IBytes b) = ok_or (key_of_bytes b) Decode"
| "de_key _ = Inl Decode"

fun de_list :: "('c ipld \<Rightarrow> codec_error + 'a) \<Rightarrow> 'c ipld \<Rightarrow> codec_error + 'a list" where
  "de_list de (IList xs) = rmap de xs"
| "de_list de _ = Inl Decode"

fun de_pair ::
    "('c ipld \<Rightarrow> codec_error + 'a) \<Rightarrow> ('c ipld \<Rightarrow> codec_error + 'd) \<Rightarrow> 'c ipld \<Rightarrow> codec_error + ('a \<times> 'd)" where
  "de_pair de de' (IList [x, y]) = rbind (de x) (\<lambda>a. rbind (de' y) (\<lambda>b. Inr (a, b)))"
| "de_pair de de' _ = Inl Decode"

definition de_strmap :: "('c ipld \<Rightarrow> codec_error + 'a) \<Rightarrow> 'c ipld \<Rightarrow> codec_error + (string, 'a) fmap" where
  "de_strmap de v = rbind (as_map v) (\<lambda>m.
     rbind (rmap (\<lambda>(k, x). rbind (de x) (\<lambda>y. Inr (k, y))) (bt_iter m)) (\<lambda>es. Inr (fmap_of_list es)))"

definition ser_u64 :: "u64 \<Rightarrow> 'c ipld" where
  "ser_u64 n = IInteger (uint n)"

definition ser_key :: "prolly_key \<Rightarrow> 'c ipld" where
  "ser_key k = IBytes (key_bytes k)"

definition ser_strmap :: "('a \<Rightarrow> 'c ipld) \<Rightarrow> (string, 'a) fmap \<Rightarrow> 'c ipld" where
  "ser_strmap ser m = IMap (fmmap ser m)"

section \<open>Reading back what was written\<close>

named_theorems serde_simps \<open>reading a field of a written struct\<close>

lemma map_of_present:
  "distinct (map fst fs) \<Longrightarrow>
   map_of (present fs) k = (case map_of fs k of Some (Some v) \<Rightarrow> Some v | _ \<Rightarrow> None)"
proof (induction fs rule: present.induct)
  case (2 k' fs)
  then have "map_of fs k' = None" by (simp add: map_of_eq_None_iff)
  with 2 show ?case by (auto split: option.splits)
qed auto

lemma fmlookup_add_case:
  "fmlookup (m ++\<^sub>f n) k = (case fmlookup n k of None \<Rightarrow> fmlookup m k | Some v \<Rightarrow> Some v)"
  by (auto simp: fmlookup_dom_iff split: option.splits)

lemma fmlookup_wire_map:
  "distinct (map fst fs) \<Longrightarrow>
   fmlookup (wire_map fs extra) k = (case map_of fs k of Some (Some v) \<Rightarrow> Some v | _ \<Rightarrow> fmlookup extra k)"
  by (simp add: wire_map_def fmlookup_add_case fmlookup_of_list map_of_present del: fmlookup_add split: option.split)

lemma rest_of_wire_map:
  assumes "distinct (map fst fs)" and "extra_ok (map fst fs) extra"
  shows "rest_of (map fst fs) (wire_map fs extra) = extra"
proof (rule fmap_ext)
  fix k
  show "fmlookup (rest_of (map fst fs) (wire_map fs extra)) k = fmlookup extra k"
  proof (cases "k \<in> set (map fst fs)")
    case True
    with assms(2) have "fmlookup extra k = None" by (auto simp: extra_ok_def list_all_iff)
    with True show ?thesis by (auto simp: rest_of_def fset_of_list_elem)
  next
    case False
    then have "map_of fs k = None" by (auto simp: map_of_eq_None_iff)
    with False assms(1) show ?thesis by (auto simp: rest_of_def fset_of_list_elem fmlookup_wire_map)
  qed
qed

lemma req_wire_map [serde_simps]:
  "distinct (map fst fs) \<Longrightarrow> map_of fs k = Some (Some v) \<Longrightarrow> req (wire_map fs extra) k de = de v"
  by (simp add: req_def fmlookup_wire_map)

lemma opt_wire_map [serde_simps]:
  assumes "distinct (map fst fs)" and "extra_ok (map fst fs) extra"
    and "map_of fs k = Some (map_option ser x)"
    and "\<And>y. de (ser y) = Inr y" and "\<And>y. ser y \<noteq> INull"
  shows "opt (wire_map fs extra) k de = Inr x"
proof (cases x)
  case None
  have "k \<in> set (map fst fs)" using assms(3) by (force dest: map_of_SomeD)
  then have "fmlookup extra k = None" using assms(2) by (auto simp: extra_ok_def list_all_iff)
  with None assms(1,3) show ?thesis by (simp add: opt_def fmlookup_wire_map)
next
  case (Some y)
  with assms show ?thesis by (simp add: opt_def fmlookup_wire_map)
qed

lemma dflt_wire_map [serde_simps]:
  assumes "distinct (map fst fs)" and "extra_ok (map fst fs) extra"
    and "map_of fs k = Some (if x = d then None else Some (ser x))" and "de (ser x) = Inr x"
  shows "dflt (wire_map fs extra) k d de = Inr x"
proof (cases "x = d")
  case True
  have "k \<in> set (map fst fs)" using assms(3) by (force dest: map_of_SomeD)
  then have "fmlookup extra k = None" using assms(2) by (auto simp: extra_ok_def list_all_iff)
  with True assms(1,3) show ?thesis by (simp add: dflt_def fmlookup_wire_map)
next
  case False
  with assms show ?thesis by (simp add: dflt_def fmlookup_wire_map)
qed

lemma de_u64_ser [simp]: "de_u64 (ser_u64 n) = Inr n"
proof -
  have "uint n < 2 ^ LENGTH(64)" by (rule unsigned_less)
  then show ?thesis by (simp add: ser_u64_def)
qed

lemma de_key_ser [simp]: "de_key (ser_key k) = Inr k"
  by (simp add: ser_key_def)

lemma ser_not_INull [simp]: "ser_u64 n \<noteq> INull" "ser_key k \<noteq> INull" "ser_strmap s m \<noteq> INull"
  by (simp_all add: ser_u64_def ser_key_def ser_strmap_def)

lemma de_list_ser [simp]: "(\<And>x. de (ser x) = Inr x) \<Longrightarrow> de_list de (IList (map ser xs)) = Inr xs"
  by (simp add: rmap_map_Inr)

lemma de_strmap_ser [simp]:
  assumes "\<And>x. de (ser x) = Inr x"
  shows "de_strmap de (ser_strmap ser m) = Inr m"
proof -
  have "rmap (\<lambda>(k, x). rbind (de x) (\<lambda>y. Inr (k, y))) (map (\<lambda>(k, v). (k, ser v)) (bt_iter m))
      = Inr (bt_iter m)"
    by (rule rmap_map_Inr) (auto simp: assms)
  then show ?thesis by (simp add: de_strmap_def ser_strmap_def bt_iter_fmmap)
qed

text \<open>
  A struct is read back field by field: \<open>wire_lookup\<close> gives the value of each field of the written map,
  and the rules of \<open>read_field\<close> what a reader makes of it.
\<close>

lemma wire_lookup:
  assumes "distinct (map fst fs)" and "extra_ok (map fst fs) extra" and "map_of fs k = Some x"
  shows "fmlookup (wire_map fs extra) k = x"
proof -
  have "k \<in> set (map fst fs)" using assms(3) by (force dest: map_of_SomeD)
  then have "fmlookup extra k = None" using assms(2) by (auto simp: extra_ok_def list_all_iff)
  with assms(1,3) show ?thesis by (cases x) (simp_all add: fmlookup_wire_map)
qed

lemma rest_of_written:
  assumes "names = map fst fs" and "distinct names" and "extra_ok names extra"
  shows "rest_of names (wire_map fs extra) = extra"
  using rest_of_wire_map [of fs extra] assms by simp

lemma req_field: "fmlookup m k = Some v \<Longrightarrow> req m k de = de v"
  by (simp add: req_def)

lemma opt_field:
  "fmlookup m k = map_option ser x \<Longrightarrow> (\<And>y. de (ser y) = Inr y) \<Longrightarrow> (\<And>y. ser y \<noteq> INull) \<Longrightarrow> opt m k de = Inr x"
  by (cases x) (simp_all add: opt_def)

lemma dflt_field:
  "fmlookup m k = (if x = d then None else Some (ser x)) \<Longrightarrow> de (ser x) = Inr x \<Longrightarrow> dflt m k d de = Inr x"
  by (cases "x = d") (simp_all add: dflt_def)

lemmas read_field = req_field opt_field

text \<open>Inserting the pairs of a sorted list one after the other.\<close>

definition insert_all :: "('k \<times> 'v) list \<Rightarrow> ('k, 'v) fmap" where
  "insert_all es = fold (\<lambda>(k, v) m. fmupd k v m) es fmempty"

lemma fmlookup_insert_all: "fmlookup (insert_all es) k = map_of (rev es) k"
proof -
  have "fmlookup (fold (\<lambda>(k, v) m. fmupd k v m) es m) k
      = (case map_of (rev es) k of None \<Rightarrow> fmlookup m k | Some v \<Rightarrow> Some v)" for m
    by (induction es arbitrary: m) (auto split: option.split)
  from this [of fmempty] show ?thesis by (simp add: insert_all_def split: option.split)
qed

lemma insert_all_bt_iter [simp]: "insert_all (bt_iter m) = m"
proof (rule fmap_ext)
  fix k
  have d: "distinct (map fst (bt_iter m))" by (rule strict_keys_distinct) (rule strict_keys_bt_iter)
  then have d': "distinct (map fst (rev (bt_iter m)))" by (simp add: rev_map [symmetric])
  have "map_of (rev (bt_iter m)) k = map_of (bt_iter m) k"
    using map_of_inject_set [OF d d'] by simp
  then show "fmlookup (insert_all (bt_iter m)) k = fmlookup m k"
    by (simp add: fmlookup_insert_all)
qed

lemma insert_all_strict: "strict_keys m \<Longrightarrow> insert_all m = fmap_of_list m"
  by (metis bt_iter_fmap_of_list insert_all_bt_iter)

end
