(* ===== verification/Store.thy ===== *)
theory Store imports Codec begin

text \<open>
  \<open>crates/mnem-core/src/store/blockstore.rs\<close>: the content-addressed block store, its in-memory
  implementation and the walk over everything reachable from a root.

  \<open>MemoryBlockstore\<close> is a \<open>HashMap<Cid, Bytes>\<close> behind a mutex, modelled by its content; the lock
  makes each operation atomic, so an operation is a function on the content. \<open>put\<close> checks that the
  bytes hash to the CID and \<open>put_trusted\<close> does not: \<open>content_addressed\<close> is the invariant the first
  keeps by itself and the second keeps only for callers that computed the CID from the bytes.
  \<open>trusted\<close> is the form of it the components above use, and \<open>grows\<close> the relation between the store
  before and after any of them: nothing that was readable changes.

  The locale \<open>block_store\<close> is the interface the rest of the program has to a store; it is
  interpreted below on the in-memory one. \<open>reachable_next\<close> is the iterator \<open>ReachableIter\<close>, one call
  of \<open>next\<close> at a time, and \<open>iter_from_root\<close> the loop over it.
\<close>

type_synonym ('c, 'b) store = "('c, 'b) fmap"

section \<open>The in-memory store\<close>

definition bs_new :: "('c, 'b) store" where
  "bs_new = fmempty"

definition bs_len :: "('c, 'b) store \<Rightarrow> nat" where
  "bs_len bs = fcard (fmdom bs)"

definition bs_has :: "('c, 'b) store \<Rightarrow> 'c \<Rightarrow> bool" where
  "bs_has bs cid \<longleftrightarrow> cid |\<in>| fmdom bs"

definition bs_get :: "('c, 'b) store \<Rightarrow> 'c \<Rightarrow> 'b option" where
  "bs_get bs cid = fmlookup bs cid"

definition recompute_cid :: "('c, 'h, 'b) external \<Rightarrow> 'c \<Rightarrow> 'b \<Rightarrow> 'c option" where
  "recompute_cid E claimed data =
     (let code = mh_code E (cid_hash E claimed) in
      if code = HASH_SHA2_256 then Some (cid_new E (cid_codec E claimed) (sha2_256 E data))
      else if code = HASH_BLAKE3_256 then Some (cid_new E (cid_codec E claimed) (blake3_256 E data))
      else None)"

definition bs_put :: "('c, 'h, 'b) external \<Rightarrow> 'c \<Rightarrow> 'b \<Rightarrow> (('c, 'b) store, 'c error, unit) prog" where
  "bs_put E cid data = (\<lambda>bs.
     case recompute_cid E cid data of
       Some computed \<Rightarrow>
         if computed \<noteq> cid then (Inl (Store (CidMismatch cid computed)), bs)
         else (Inr (), fmupd cid data bs)
     | None \<Rightarrow> (Inr (), fmupd cid data bs))"

definition bs_put_trusted :: "'c \<Rightarrow> 'b \<Rightarrow> (('c, 'b) store, 'c error, unit) prog" where
  "bs_put_trusted cid data = (\<lambda>bs. (Inr (), fmupd cid data bs))"

definition bs_delete :: "'c \<Rightarrow> ('c, 'b) store \<Rightarrow> ('c, 'b) store" where
  "bs_delete cid bs = fmdrop cid bs"

definition bs_all_cids :: "('c, 'b) store \<Rightarrow> 'c fset" where
  "bs_all_cids bs = fmdom bs"

definition bs_batch_put ::
    "('c, 'h, 'b) external \<Rightarrow> ('c \<times> 'b) list \<Rightarrow> (('c, 'b) store, 'c error, unit) prog" where
  "bs_batch_put E blocks = sfold (\<lambda>(cid, data) _. bs_put E cid data) blocks ()"

definition decode_from_store ::
    "('c, 'h, 'b) external \<Rightarrow> ('c ipld \<Rightarrow> codec_error + 'a) \<Rightarrow> ('c, 'b) store \<Rightarrow> 'c \<Rightarrow> 'c error + 'a" where
  "decode_from_store E de bs cid =
     (case bs_get bs cid of
        None \<Rightarrow> Inl (Store (NotFound cid))
      | Some data \<Rightarrow> from_canonical_bytes E de data)"

text \<open>The two lines every writer has: \<open>hash_to_cid\<close>, then \<open>put_trusted\<close> under the computed CID.\<close>

definition put_object ::
    "('c, 'h, 'b) external \<Rightarrow> 'c ipld \<Rightarrow> (('c, 'b) store, 'c error, 'c) prog" where
  "put_object E v =
     sbind (slift (hash_to_cid E v)) (\<lambda>(data, cid).
     sbind (bs_put_trusted cid data) (\<lambda>_. sret cid))"

section \<open>The interface\<close>

locale block_store =
  fixes look :: "'s \<Rightarrow> 'c \<Rightarrow> 'b option"
    and upd :: "'c \<Rightarrow> 'b \<Rightarrow> 's \<Rightarrow> 's"
    and del :: "'c \<Rightarrow> 's \<Rightarrow> 's"
  assumes look_upd: "look (upd c b s) d = (if d = c then Some b else look s d)"
    and look_del: "look (del c s) d = (if d = c then None else look s d)"
begin

lemma upd_idem: "look s c = Some b \<Longrightarrow> look (upd c b s) = look s"
  by (auto simp: look_upd)

lemma upd_other: "d \<noteq> c \<Longrightarrow> look (upd c b s) d = look s d"
  by (simp add: look_upd)

lemma look_writes:
  "look (fold (\<lambda>(c, b). upd c b) blocks s) d =
     (case map_of (rev blocks) d of Some b \<Rightarrow> Some b | None \<Rightarrow> look s d)"
  by (induction blocks rule: rev_induct) (auto simp: look_upd split: option.splits)

lemma writes_consistent:
  assumes "\<And>c b. (c, b) \<in> set blocks \<Longrightarrow> look s c \<noteq> None \<Longrightarrow> look s c = Some b"
    and "look s d = Some x"
  shows "look (fold (\<lambda>(c, b). upd c b) blocks s) d = Some x"
proof (cases "map_of (rev blocks) d")
  case None
  then show ?thesis using assms(2) by (simp add: look_writes)
next
  case (Some b)
  then have "(d, b) \<in> set blocks" by (metis map_of_SomeD set_rev)
  with assms have "look s d = Some b" by auto
  with Some assms(2) show ?thesis by (simp add: look_writes)
qed

end

interpretation mem: block_store bs_get fmupd bs_delete
  by unfold_locales (auto simp: bs_get_def bs_delete_def)

section \<open>Content addressing\<close>

definition content_addressed :: "('c, 'h, 'b) external \<Rightarrow> ('c, 'b) store \<Rightarrow> bool" where
  "content_addressed E bs \<longleftrightarrow>
     (\<forall>cid data computed. bs_get bs cid = Some data \<longrightarrow> recompute_cid E cid data = Some computed \<longrightarrow> computed = cid)"

definition trusted :: "('c, 'h, 'b) external \<Rightarrow> ('c, 'b) store \<Rightarrow> bool" where
  "trusted E bs \<longleftrightarrow> (\<forall>b b'. bs_get bs (block_cid E b) = Some b' \<longrightarrow> b' = b)"

definition grows :: "('c, 'h, 'b) external \<Rightarrow> ('c, 'b) store \<Rightarrow> ('c, 'b) store \<Rightarrow> bool" where
  "grows E s t \<longleftrightarrow> (trusted E s \<longrightarrow> trusted E t \<and> (\<forall>c b. bs_get s c = Some b \<longrightarrow> bs_get t c = Some b))"

text \<open>Documented behaviour of the \<open>cid\<close> and \<open>multihash\<close> crates: the accessors read back what the
  constructor was given, and a SHA2-256 digest carries its own algorithm code.\<close>

definition cid_accessors :: "('c, 'h, 'b) external \<Rightarrow> bool" where
  "cid_accessors E \<longleftrightarrow>
     (\<forall>codec h. cid_codec E (cid_new E codec h) = codec \<and> cid_hash E (cid_new E codec h) = h) \<and>
     (\<forall>b. mh_code E (sha2_256 E b) = HASH_SHA2_256)"

lemma recompute_block_cid: "cid_accessors E \<Longrightarrow> recompute_cid E (block_cid E b) d = Some (block_cid E d)"
  by (simp add: recompute_cid_def block_cid_def cid_accessors_def)

lemma content_addressed_trusted:
  assumes "content_addressed E bs" and "cid_accessors E" and "collision_free E"
  shows "trusted E bs"
  unfolding trusted_def
proof (intro allI impI)
  fix b b' assume "bs_get bs (block_cid E b) = Some b'"
  with assms(1,2) have "block_cid E b' = block_cid E b"
    by (auto simp: content_addressed_def recompute_block_cid)
  with assms(3) show "b' = b" by (auto simp: collision_free_def dest: injD)
qed

lemma content_addressed_put:
  assumes "content_addressed E bs" and "bs_put E cid data bs = (r, bs')"
  shows "content_addressed E bs'"
  using assms
  by (auto simp: content_addressed_def bs_put_def bs_get_def split: option.splits if_splits)

lemma content_addressed_delete: "content_addressed E bs \<Longrightarrow> content_addressed E (bs_delete cid bs)"
  by (auto simp: content_addressed_def mem.look_del split: if_splits)

lemma grows_refl [simp]: "grows E s s"
  by (simp add: grows_def)

lemma grows_trans: "grows E s t \<Longrightarrow> grows E t u \<Longrightarrow> grows E s u"
  by (auto simp: grows_def)

lemma reflp_grows [preserve_intros]: "reflp (grows E)"
  by (simp add: reflp_def)

lemma transp_grows [preserve_intros]: "transp (grows E)"
  by (rule transpI) (rule grows_trans)

lemma growsD: "grows E s t \<Longrightarrow> trusted E s \<Longrightarrow> bs_get s c = Some b \<Longrightarrow> bs_get t c = Some b"
  by (simp add: grows_def)

lemma grows_trusted: "grows E s t \<Longrightarrow> trusted E s \<Longrightarrow> trusted E t"
  by (simp add: grows_def)

lemma trusted_empty [simp]: "trusted E bs_new"
  by (simp add: trusted_def bs_get_def bs_new_def)

lemma content_addressed_empty [simp]: "content_addressed E bs_new"
  by (simp add: content_addressed_def bs_get_def bs_new_def)

lemma put_object_run:
  "put_object E v s = (case enc E v of
      None \<Rightarrow> (Inl (Codec Encode), s)
    | Some b \<Rightarrow> (Inr (block_cid E b), fmupd (block_cid E b) b s))"
  by (auto simp: put_object_def sbind_def hash_to_cid_def to_canonical_bytes_def bs_put_trusted_def
      slift_def sret_def split: option.splits)

lemma put_object_grows [preserve_intros]:
  assumes "collision_free E"
  shows "preserves (grows E) (put_object E v)"
  unfolding preserves_def
proof
  fix s
  show "grows E s (snd (put_object E v s))"
    using assms
    by (auto simp: put_object_run grows_def trusted_def bs_get_def collision_free_def
        split: option.splits dest: injD)
qed

lemma put_object_Inr:
  assumes "put_object E v s = (Inr c, t)"
  shows "\<exists>b. enc E v = Some b \<and> c = block_cid E b \<and> bs_get t c = Some b"
  using assms by (auto simp: put_object_run bs_get_def split: option.splits)

lemma decode_from_store_mono:
  assumes "decode_from_store E de s c = Inr x" and "grows E s t" and "trusted E s"
  shows "decode_from_store E de t c = Inr x"
  using assms by (auto simp: decode_from_store_def split: option.splits dest: growsD)

lemma decode_put_object:
  assumes "put_object E v s = (Inr c, t)" and "codec_roundtrip E" and "de v = Inr x"
  shows "decode_from_store E de t c = Inr x"
  using assms put_object_Inr [OF assms(1)]
  by (auto simp: decode_from_store_def from_canonical_bytes_def codec_roundtrip_def)

section \<open>The walk from a root\<close>

record 'c reachable_iter =
  ri_stack :: "'c list"
  ri_seen :: "'c set"
  ri_fused :: bool

definition reachable_new :: "'c \<Rightarrow> 'c reachable_iter" where
  "reachable_new root = \<lparr>ri_stack = [root], ri_seen = {root}, ri_fused = False\<rparr>"

text \<open>The loop \<open>for link in links.into_iter().rev()\<close>; the top of the stack is the head here.\<close>

fun push_unseen :: "'c list \<Rightarrow> 'c list \<Rightarrow> 'c set \<Rightarrow> 'c list \<times> 'c set" where
  "push_unseen [] stack seen = (stack, seen)"
| "push_unseen (link # links) stack seen =
     (if link \<in> seen then push_unseen links stack seen
      else push_unseen links (link # stack) (insert link seen))"

definition reachable_next ::
    "('c, 'h, 'b) external \<Rightarrow> ('c, 'b) store \<Rightarrow> 'c reachable_iter
       \<Rightarrow> ('c error + ('c \<times> 'b)) option \<times> 'c reachable_iter" where
  "reachable_next E bs it =
     (if ri_fused it then (None, it)
      else case ri_stack it of
        [] \<Rightarrow> (None, it)
      | cid # rest \<Rightarrow>
          let it = it\<lparr>ri_stack := rest\<rparr> in
          (case bs_get bs cid of
             None \<Rightarrow> (Some (Inl (Store (NotFound cid))), it\<lparr>ri_fused := True\<rparr>)
           | Some data \<Rightarrow>
               if cid_codec E cid = CODEC_DAG_CBOR then
                 (case extract_links E data of
                    Inr links \<Rightarrow>
                      let (stack, seen) = push_unseen (rev links) (ri_stack it) (ri_seen it) in
                      (Some (Inr (cid, data)), it\<lparr>ri_stack := stack, ri_seen := seen\<rparr>)
                  | Inl _ \<Rightarrow> (Some (Inl (Store Io)), it\<lparr>ri_fused := True\<rparr>))
               else (Some (Inr (cid, data)), it)))"

lemma push_unseen_props:
  "push_unseen links stack seen = (stack', seen') \<Longrightarrow>
     seen' = seen \<union> set links \<and>
     (\<exists>new. stack' = new @ stack \<and> set new = set links - seen \<and> distinct new)"
proof (induction links arbitrary: stack seen)
  case Nil
  then show ?case by auto
next
  case (Cons l ls)
  show ?case
  proof (cases "l \<in> seen")
    case True
    with Cons show ?thesis by fastforce
  next
    case False
    with Cons.prems have "push_unseen ls (l # stack) (insert l seen) = (stack', seen')" by simp
    from Cons.IH [OF this] obtain new where
      "seen' = insert l seen \<union> set ls" "stack' = new @ l # stack"
      "set new = set ls - insert l seen" "distinct new" by blast
    then show ?thesis using False
      by (intro conjI exI [of _ "new @ [l]"]) auto
  qed
qed

definition pending :: "('c, 'b) store \<Rightarrow> 'c reachable_iter \<Rightarrow> nat" where
  "pending bs it = card (fset (fmdom bs) - ri_seen it)
     + length (filter (\<lambda>c. c |\<in>| fmdom bs) (ri_stack it))"

lemma pending_decreases:
  assumes "reachable_next E bs it = (Some (Inr x), it')"
  shows "pending bs it' < pending bs it"
proof -
  from assms obtain cid rest where st: "ri_stack it = cid # rest"
    by (auto simp: reachable_next_def split: if_splits list.splits)
  with assms obtain data where d: "bs_get bs cid = Some data"
    by (auto simp: reachable_next_def Let_def split: if_splits option.splits)
  then have dom: "cid |\<in>| fmdom bs" by (simp add: bs_get_def fmdomI)
  show ?thesis
  proof (cases "cid_codec E cid = CODEC_DAG_CBOR")
    case False
    with assms st d dom show ?thesis
      by (auto simp: reachable_next_def Let_def pending_def split: if_splits)
  next
    case True
    with assms st d obtain links stack seen where
      l: "extract_links E data = Inr links"
      and p: "push_unseen (rev links) rest (ri_seen it) = (stack, seen)"
      and it': "it' = it\<lparr>ri_stack := stack, ri_seen := seen\<rparr>"
      by (auto simp: reachable_next_def Let_def split: if_splits sum.splits prod.splits)
    obtain new where new: "seen = ri_seen it \<union> set (rev links)" "stack = new @ rest"
        "set new = set (rev links) - ri_seen it" "distinct new"
      using push_unseen_props [OF p] by blast
    let ?D = "fset (fmdom bs)"
    let ?new = "filter (\<lambda>c. c |\<in>| fmdom bs) new"
    have "?D - ri_seen it = (?D - seen) \<union> set ?new" using new by auto
    moreover have "(?D - seen) \<inter> set ?new = {}" using new by auto
    moreover have "card (set ?new) = length ?new" using new(4) by (metis distinct_card distinct_filter)
    ultimately have "card (?D - ri_seen it) = card (?D - seen) + length ?new"
      by (simp add: card_Un_disjoint)
    then show ?thesis using dom st it' new(2) by (simp add: pending_def)
  qed
qed

function iter_collect ::
    "('c, 'h, 'b) external \<Rightarrow> ('c, 'b) store \<Rightarrow> 'c reachable_iter \<Rightarrow> ('c \<times> 'b) list
       \<Rightarrow> 'c error + ('c \<times> 'b) list" where
  "iter_collect E bs it out =
     (case reachable_next E bs it of
        (None, _) \<Rightarrow> Inr out
      | (Some (Inl e), _) \<Rightarrow> Inl e
      | (Some (Inr item), it') \<Rightarrow> iter_collect E bs it' (out @ [item]))"
  by pat_completeness auto
termination
  by (relation "measure (\<lambda>(E, bs, it, out). pending bs it)") (auto, metis pending_decreases)

declare iter_collect.simps [simp del]

definition iter_from_root ::
    "('c, 'h, 'b) external \<Rightarrow> ('c, 'b) store \<Rightarrow> 'c \<Rightarrow> 'c error + ('c \<times> 'b) list" where
  "iter_from_root E bs root = iter_collect E bs (reachable_new root) []"

subsection \<open>What the walk yields\<close>

definition links_to :: "('c, 'h, 'b) external \<Rightarrow> ('c, 'b) store \<Rightarrow> 'c \<Rightarrow> 'c \<Rightarrow> bool" where
  "links_to E bs c d \<longleftrightarrow>
     (\<exists>data links. bs_get bs c = Some data \<and> cid_codec E c = CODEC_DAG_CBOR \<and>
        extract_links E data = Inr links \<and> d \<in> set links)"

definition readable :: "('c, 'h, 'b) external \<Rightarrow> ('c, 'b) store \<Rightarrow> 'c \<Rightarrow> bool" where
  "readable E bs c \<longleftrightarrow>
     (\<exists>data. bs_get bs c = Some data \<and>
        (cid_codec E c = CODEC_DAG_CBOR \<longrightarrow> (\<exists>links. extract_links E data = Inr links)))"

definition walk_inv ::
    "('c, 'h, 'b) external \<Rightarrow> ('c, 'b) store \<Rightarrow> 'c \<Rightarrow> 'c reachable_iter \<Rightarrow> ('c \<times> 'b) list \<Rightarrow> bool" where
  "walk_inv E bs root it out \<longleftrightarrow>
     \<not> ri_fused it \<and>
     distinct (map fst out @ ri_stack it) \<and>
     ri_seen it = set (map fst out) \<union> set (ri_stack it) \<and>
     root \<in> ri_seen it \<and>
     (\<forall>c \<in> ri_seen it. (links_to E bs)\<^sup>*\<^sup>* root c) \<and>
     (\<forall>c \<in> set (map fst out). \<forall>d. links_to E bs c d \<longrightarrow> d \<in> ri_seen it) \<and>
     (\<forall>(c, data) \<in> set out. bs_get bs c = Some data)"

lemma walk_inv_new: "walk_inv E bs root (reachable_new root) []"
  by (simp add: walk_inv_def reachable_new_def)

lemma walk_inv_next:
  assumes inv: "walk_inv E bs root it out"
    and nxt: "reachable_next E bs it = (Some (Inr x), it')"
  shows "walk_inv E bs root it' (out @ [x])"
proof -
  from nxt obtain cid rest where st: "ri_stack it = cid # rest"
    by (auto simp: reachable_next_def split: if_splits list.splits)
  with nxt obtain data where d: "bs_get bs cid = Some data"
    by (auto simp: reachable_next_def Let_def split: if_splits option.splits)
  have x: "x = (cid, data)"
    using nxt st d by (auto simp: reachable_next_def Let_def split: if_splits sum.splits prod.splits)
  show ?thesis
  proof (cases "cid_codec E cid = CODEC_DAG_CBOR")
    case False
    then have "\<not> links_to E bs cid d" for d by (simp add: links_to_def)
    moreover have "it' = it\<lparr>ri_stack := rest\<rparr>"
      using nxt st d False by (auto simp: reachable_next_def Let_def split: if_splits)
    ultimately show ?thesis
      using inv st x d by (auto simp: walk_inv_def)
  next
    case True
    with nxt st d obtain links stack seen where
      l: "extract_links E data = Inr links"
      and p: "push_unseen (rev links) rest (ri_seen it) = (stack, seen)"
      and it': "it' = it\<lparr>ri_stack := stack, ri_seen := seen\<rparr>"
      by (auto simp: reachable_next_def Let_def split: if_splits sum.splits prod.splits)
    obtain new where new: "seen = ri_seen it \<union> set (rev links)" "stack = new @ rest"
        "set new = set (rev links) - ri_seen it" "distinct new"
      using push_unseen_props [OF p] by blast
    have edges: "links_to E bs cid c \<longleftrightarrow> c \<in> set links" for c
      using d l True by (auto simp: links_to_def)
    have "(links_to E bs)\<^sup>*\<^sup>* root cid" using inv st by (simp add: walk_inv_def)
    then have reach: "(links_to E bs)\<^sup>*\<^sup>* root c" if "c \<in> set links" for c
      using that edges by (meson rtranclp.rtrancl_into_rtrancl)
    show ?thesis
      using inv st x d it' new edges reach
      unfolding walk_inv_def by (auto simp: links_to_def)
  qed
qed

lemma iter_collect_sound:
  assumes "walk_inv E bs root it out" and "iter_collect E bs it out = Inr items"
  shows "\<exists>it'. walk_inv E bs root it' items \<and> ri_stack it' = []"
  using assms
proof (induction E bs it out rule: iter_collect.induct)
  case (1 E bs it out)
  obtain r it' where n: "reachable_next E bs it = (r, it')" by fastforce
  show ?case
  proof (cases r)
    case None
    with n 1(2) have "ri_stack it = []"
      by (auto simp: reachable_next_def Let_def walk_inv_def
          split: if_splits list.splits option.splits sum.splits prod.splits)
    moreover have "items = out" using 1(3) n None by (simp add: iter_collect.simps [of E bs it])
    ultimately show ?thesis using 1(2) by blast
  next
    case (Some y)
    show ?thesis
    proof (cases y)
      case (Inl e)
      with 1(3) n Some show ?thesis by (simp add: iter_collect.simps [of E bs it])
    next
      case (Inr x)
      with 1(3) n Some have "iter_collect E bs it' (out @ [x]) = Inr items"
        by (simp add: iter_collect.simps [of E bs it])
      moreover have "walk_inv E bs root it' (out @ [x])"
        using n Some Inr by (intro walk_inv_next [OF 1(2)]) simp
      ultimately show ?thesis by (intro 1(1) [OF n [symmetric] Some Inr])
    qed
  qed
qed

lemma reachable_next_readable:
  assumes "walk_inv E bs root it out"
    and "\<And>c. (links_to E bs)\<^sup>*\<^sup>* root c \<Longrightarrow> readable E bs c"
    and "reachable_next E bs it = (Some r, it')"
  shows "\<exists>x. r = Inr x"
proof -
  from assms(3) obtain cid rest where st: "ri_stack it = cid # rest"
    by (auto simp: reachable_next_def split: if_splits list.splits)
  then have "readable E bs cid" using assms(1,2) by (simp add: walk_inv_def)
  with assms(3) st show ?thesis
    by (auto simp: reachable_next_def readable_def Let_def split: if_splits prod.splits)
qed

lemma iter_collect_total:
  assumes "walk_inv E bs root it out"
    and "\<And>c. (links_to E bs)\<^sup>*\<^sup>* root c \<Longrightarrow> readable E bs c"
  shows "\<exists>items. iter_collect E bs it out = Inr items"
  using assms
proof (induction E bs it out rule: iter_collect.induct)
  case (1 E bs it out)
  obtain r it' where n: "reachable_next E bs it = (r, it')" by fastforce
  show ?case
  proof (cases r)
    case None
    with n show ?thesis by (simp add: iter_collect.simps [of E bs it])
  next
    case (Some y)
    with reachable_next_readable [OF 1(2,3)] n obtain x where x: "y = Inr x" by blast
    have "walk_inv E bs root it' (out @ [x])"
      using n Some x by (intro walk_inv_next [OF 1(2)]) simp
    then have "\<exists>items. iter_collect E bs it' (out @ [x]) = Inr items"
      by (rule 1(1) [OF n [symmetric] Some x]) (rule 1(3))
    with n Some x show ?thesis by (simp add: iter_collect.simps [of E bs it])
  qed
qed

lemma iter_from_root_yields:
  assumes "iter_from_root E bs root = Inr items"
  shows "distinct (map fst items)"
    and "set (map fst items) = {c. (links_to E bs)\<^sup>*\<^sup>* root c}"
    and "\<And>c data. (c, data) \<in> set items \<Longrightarrow> bs_get bs c = Some data"
proof -
  from assms have "iter_collect E bs (reachable_new root) [] = Inr items"
    by (simp add: iter_from_root_def)
  from iter_collect_sound [OF walk_inv_new this] obtain it where
    inv: "walk_inv E bs root it items" and st: "ri_stack it = []" by blast
  from inv show "distinct (map fst items)" by (simp add: walk_inv_def)
  from inv show "bs_get bs c = Some data" if "(c, data) \<in> set items" for c data
    using that by (auto simp: walk_inv_def)
  have seen: "set (map fst items) = ri_seen it" using inv st by (simp add: walk_inv_def)
  have "c \<in> ri_seen it" if "(links_to E bs)\<^sup>*\<^sup>* root c" for c
    using that
  proof (induction rule: rtranclp_induct)
    case base
    show ?case using inv unfolding walk_inv_def by blast
  next
    case (step c d)
    then show ?case using inv seen unfolding walk_inv_def by blast
  qed
  moreover have "(links_to E bs)\<^sup>*\<^sup>* root c" if "c \<in> ri_seen it" for c
    using that inv unfolding walk_inv_def by blast
  ultimately show "set (map fst items) = {c. (links_to E bs)\<^sup>*\<^sup>* root c}"
    using seen by blast
qed

end
