(* ===== verification/Prolly_Tree.thy ===== *)
theory Prolly_Tree imports Serde Store begin

text \<open>
  \<open>crates/mnem-core/src/prolly/tree.rs\<close>, the chunks: a leaf holds sorted \<open>(key, value)\<close> entries, an
  internal chunk separator keys and the CIDs of its children; both are written to the store as the
  wire struct \<open>TreeWire\<close>, whose \<open>leaf\<close> flag says which of the optional fields must be there.

  \<open>ptree\<close> is the tree a root CID stands for, and \<open>represents\<close> the relation between the two: every
  chunk from the root down is in the store and decodes. What the readers of theories \<open>Prolly_Read\<close> and
  \<open>Prolly_Diff\<close> compute over the store is stated on the \<open>ptree\<close>.
\<close>

record 'c leaf =
  lf_entries :: "(prolly_key \<times> 'c) list"
  lf_extra :: "'c ipld_map"

record 'c internal =
  in_boundaries :: "prolly_key list"
  in_children :: "'c list"
  in_extra :: "'c ipld_map"

datatype 'c tree_chunk = Leaf "'c leaf" | Internal "'c internal"

definition leaf_new :: "(prolly_key \<times> 'c) list \<Rightarrow> 'c leaf" where
  "leaf_new entries = \<lparr>lf_entries = entries, lf_extra = fmempty\<rparr>"

definition internal_new :: "prolly_key list \<Rightarrow> 'c list \<Rightarrow> 'c internal" where
  "internal_new boundaries children =
     \<lparr>in_boundaries = boundaries, in_children = children, in_extra = fmempty\<rparr>"

fun is_leaf :: "'c tree_chunk \<Rightarrow> bool" where
  "is_leaf (Leaf l) = True"
| "is_leaf (Internal i) = False"

fun chunk_len :: "'c tree_chunk \<Rightarrow> nat" where
  "chunk_len (Leaf l) = length (lf_entries l)"
| "chunk_len (Internal i) = length (in_children i)"

section \<open>The wire form\<close>

definition TREE_KIND :: string where "TREE_KIND = ''tree''"

definition ser_entry :: "prolly_key \<times> 'c \<Rightarrow> 'c ipld" where
  "ser_entry e = IList [ser_key (fst e), ILink (snd e)]"

definition tree_fields ::
    "bool \<Rightarrow> (prolly_key \<times> 'c) list option \<Rightarrow> prolly_key list option \<Rightarrow> 'c list option \<Rightarrow> 'c field list" where
  "tree_fields leaf entries boundaries children =
     [(''_kind'', Some (IString TREE_KIND)),
      (''leaf'', Some (IBool leaf)),
      (''entries'', map_option (\<lambda>es. IList (map ser_entry es)) entries),
      (''boundaries'', map_option (\<lambda>ks. IList (map ser_key ks)) boundaries),
      (''children'', map_option (\<lambda>cs. IList (map ILink cs)) children)]"

definition tree_names :: "string list" where
  "tree_names = [''_kind'', ''leaf'', ''entries'', ''boundaries'', ''children'']"

fun ser_tree :: "'c tree_chunk \<Rightarrow> 'c ipld" where
  "ser_tree (Leaf l) = IMap (wire_map (tree_fields True (Some (lf_entries l)) None None) (lf_extra l))"
| "ser_tree (Internal i) =
     IMap (wire_map (tree_fields False None (Some (in_boundaries i)) (Some (in_children i))) (in_extra i))"

definition de_tree :: "'c ipld \<Rightarrow> codec_error + 'c tree_chunk" where
  "de_tree v =
     rbind (as_map v) (\<lambda>m.
     rbind (req m ''_kind'' de_string) (\<lambda>kind.
     rbind (req m ''leaf'' de_bool) (\<lambda>leaf.
     rbind (opt m ''entries'' (de_list (de_pair de_key de_cid))) (\<lambda>w_entries.
     rbind (opt m ''boundaries'' (de_list de_key)) (\<lambda>w_boundaries.
     rbind (opt m ''children'' (de_list de_cid)) (\<lambda>w_children.
     let extra = rest_of tree_names m in
     if kind \<noteq> TREE_KIND then Inl Decode
     else if leaf then
       rbind (ok_or w_entries Decode) (\<lambda>entries.
       if w_boundaries \<noteq> None \<or> w_children \<noteq> None then Inl Decode
       else Inr (Leaf \<lparr>lf_entries = entries, lf_extra = extra\<rparr>))
     else
       rbind (ok_or w_boundaries Decode) (\<lambda>boundaries.
       rbind (ok_or w_children Decode) (\<lambda>children.
       if w_entries \<noteq> None then Inl Decode
       else if length boundaries + 1 \<noteq> length children then Inl Decode
       else Inr (Internal \<lparr>in_boundaries = boundaries, in_children = children, in_extra = extra\<rparr>)))))))))"

definition load_chunk :: "('c, 'h, 'b) external \<Rightarrow> 'b \<Rightarrow> 'c error + 'c tree_chunk" where
  "load_chunk E data = from_canonical_bytes E de_tree data"

definition load_tree_chunk ::
    "('c, 'h, 'b) external \<Rightarrow> ('c, 'b) store \<Rightarrow> 'c \<Rightarrow> 'c error + 'c tree_chunk" where
  "load_tree_chunk E bs cid =
     (case bs_get bs cid of
        None \<Rightarrow> Inl (Store (NotFound cid))
      | Some data \<Rightarrow> load_chunk E data)"

section \<open>Round trip and rejections\<close>

fun chunk_ok :: "'c tree_chunk \<Rightarrow> bool" where
  "chunk_ok (Leaf l) = extra_ok tree_names (lf_extra l)"
| "chunk_ok (Internal i) =
     (extra_ok tree_names (in_extra i) \<and> length (in_boundaries i) + 1 = length (in_children i))"

lemma tree_names_fields: "map fst (tree_fields l e b c) = tree_names"
  by (simp add: tree_fields_def tree_names_def)

lemma distinct_tree_names [simp]: "distinct tree_names"
  by (simp add: tree_names_def)

lemma de_pair_ser_entry [simp]: "de_pair de_key de_cid (ser_entry e) = Inr e"
  by (simp add: ser_entry_def)

text \<open>A chunk without extra fields holds no float and no number at all, so nothing the encoder rejects.\<close>

lemma plain_ser_tree:
  "lf_extra l = fmempty \<Longrightarrow> plain_value (ser_tree (Leaf l))"
  "in_extra i = fmempty \<Longrightarrow> plain_value (ser_tree (Internal i))"
  by (auto simp: plain_value_map fmlookup_wire_map tree_fields_def ser_entry_def ser_key_def list_all_iff
      simp del: plain_value.simps(8) split: if_splits)

lemma opt_tree_fields:
  assumes "extra_ok tree_names extra"
  shows
    "opt (wire_map (tree_fields l e b c) extra) ''entries'' (de_list (de_pair de_key de_cid)) = Inr e"
    "opt (wire_map (tree_fields l e b c) extra) ''boundaries'' (de_list de_key) = Inr b"
    "opt (wire_map (tree_fields l e b c) extra) ''children'' (de_list de_cid) = Inr c"
proof -
  let ?fs = "tree_fields l e b c"
  have d: "distinct (map fst ?fs)" and x: "extra_ok (map fst ?fs) extra"
    using assms by (simp_all only: tree_names_fields distinct_tree_names)
  show "opt (wire_map ?fs extra) ''entries'' (de_list (de_pair de_key de_cid)) = Inr e"
    by (rule opt_wire_map [OF d x, of _ "\<lambda>es. IList (map ser_entry es)"])
       (simp_all add: tree_fields_def)
  show "opt (wire_map ?fs extra) ''boundaries'' (de_list de_key) = Inr b"
    by (rule opt_wire_map [OF d x, of _ "\<lambda>ks. IList (map ser_key ks)"])
       (simp_all add: tree_fields_def)
  show "opt (wire_map ?fs extra) ''children'' (de_list de_cid) = Inr c"
    by (rule opt_wire_map [OF d x, of _ "\<lambda>cs. IList (map ILink cs)"])
       (simp_all add: tree_fields_def)
qed

lemma req_tree_fields:
  "req (wire_map (tree_fields l e b c) extra) ''_kind'' de_string = Inr TREE_KIND"
  "req (wire_map (tree_fields l e b c) extra) ''leaf'' de_bool = Inr l"
proof -
  have d: "distinct (map fst (tree_fields l e b c))"
    by (simp only: tree_names_fields distinct_tree_names)
  show "req (wire_map (tree_fields l e b c) extra) ''_kind'' de_string = Inr TREE_KIND"
    by (subst req_wire_map [OF d, where v = "IString TREE_KIND"]) (simp_all add: tree_fields_def)
  show "req (wire_map (tree_fields l e b c) extra) ''leaf'' de_bool = Inr l"
    by (subst req_wire_map [OF d, where v = "IBool l"]) (simp_all add: tree_fields_def)
qed

lemma rest_of_tree_fields:
  "extra_ok tree_names extra \<Longrightarrow> rest_of tree_names (wire_map (tree_fields l e b c) extra) = extra"
  using rest_of_wire_map [of "tree_fields l e b c" extra] by (simp add: tree_names_fields)

lemma de_ser_tree: "chunk_ok t \<Longrightarrow> de_tree (ser_tree t) = Inr t"
  by (cases t) (simp_all add: de_tree_def opt_tree_fields req_tree_fields rest_of_tree_fields)

lemma de_tree_internal:
  assumes "de_tree v = Inr (Internal i)"
  shows "length (in_children i) = length (in_boundaries i) + 1"
  using assms by (auto simp: de_tree_def monad_simps Let_def split: if_splits)

lemma load_tree_chunk_internal:
  assumes "load_tree_chunk E bs c = Inr (Internal i)"
  shows "length (in_children i) = length (in_boundaries i) + 1"
  using assms
  by (auto simp: load_tree_chunk_def load_chunk_def from_canonical_bytes_def
      split: option.splits sum.splits dest: de_tree_internal)

lemma load_tree_chunk_decode: "load_tree_chunk E = decode_from_store E de_tree"
  by (intro ext) (simp add: load_tree_chunk_def load_chunk_def decode_from_store_def split: option.split)

lemma load_tree_chunk_mono:
  "load_tree_chunk E s c = Inr x \<Longrightarrow> grows E s t \<Longrightarrow> trusted E s \<Longrightarrow> load_tree_chunk E t c = Inr x"
  unfolding load_tree_chunk_decode by (rule decode_from_store_mono)

section \<open>Trees\<close>

datatype 'c ptree = PLeaf "(prolly_key \<times> 'c) list" | PNode "prolly_key list" "'c ptree list"

fun entries :: "'c ptree \<Rightarrow> (prolly_key \<times> 'c) list" where
  "entries (PLeaf es) = es"
| "entries (PNode ks ts) = concat (map entries ts)"

fun height :: "'c ptree \<Rightarrow> nat" where
  "height (PLeaf es) = 0"
| "height (PNode ks ts) = Suc (Max (insert 0 (set (map height ts))))"

text \<open>Separator \<open>ks ! i\<close> is the inclusive lower bound of child \<open>i + 1\<close> and above everything before it.\<close>

fun well_formed :: "'c ptree \<Rightarrow> bool" where
  "well_formed (PLeaf es) = strict_keys es"
| "well_formed (PNode ks ts) =
     (length ts = length ks + 1 \<and> sorted_wrt (<) ks \<and>
      (\<forall>t \<in> set ts. well_formed t) \<and>
      (\<forall>i < length ts. \<forall>k \<in> fst ` set (entries (ts ! i)).
         (\<forall>j < i. ks ! j \<le> k) \<and> (\<forall>j. i \<le> j \<and> j < length ks \<longrightarrow> k < ks ! j)))"

inductive represents ::
    "('c, 'h, 'b) external \<Rightarrow> ('c, 'b) store \<Rightarrow> 'c \<Rightarrow> 'c ptree \<Rightarrow> bool"
  for E :: "('c, 'h, 'b) external" and bs :: "('c, 'b) store" where
  rep_leaf: "load_tree_chunk E bs cid = Inr (Leaf l) \<Longrightarrow> lf_entries l = es \<Longrightarrow>
     represents E bs cid (PLeaf es)"
| rep_node: "load_tree_chunk E bs cid = Inr (Internal i) \<Longrightarrow> in_boundaries i = ks \<Longrightarrow>
     list_all2 (represents E bs) (in_children i) ts \<Longrightarrow> represents E bs cid (PNode ks ts)"

inductive_simps represents_iff: "represents E bs cid t"
inductive_cases represents_leafE: "represents E bs cid (PLeaf es)"
inductive_cases represents_nodeE: "represents E bs cid (PNode ks ts)"

lemma represents_Leaf:
  "load_tree_chunk E bs cid = Inr (Leaf l) \<Longrightarrow> represents E bs cid t \<longleftrightarrow> t = PLeaf (lf_entries l)"
  by (subst represents_iff) simp

lemma represents_Internal:
  "load_tree_chunk E bs cid = Inr (Internal i) \<Longrightarrow>
   represents E bs cid t \<longleftrightarrow>
     (\<exists>ts. t = PNode (in_boundaries i) ts \<and> list_all2 (represents E bs) (in_children i) ts)"
  by (subst represents_iff) simp

lemma represents_mono:
  assumes "represents E s c t" and "grows E s s'" and "trusted E s"
  shows "represents E s' c t"
  using assms(1)
proof (induction rule: represents.induct)
  case (rep_leaf cid l es)
  then show ?case
    using assms(2,3) decode_from_store_mono by (metis load_tree_chunk_decode represents.rep_leaf)
next
  case (rep_node cid i ks ts)
  have "load_tree_chunk E s' cid = Inr (Internal i)"
    using rep_node.hyps(1) assms(2,3) decode_from_store_mono by (metis load_tree_chunk_decode)
  moreover have "list_all2 (represents E s') (in_children i) ts"
    using rep_node.IH by (rule list_all2_mono) blast
  ultimately show ?case using rep_node.hyps(2) by (auto intro: represents.rep_node)
qed

lemma represents_functional:
  assumes "represents E bs c t" and "represents E bs c t'"
  shows "t = t'"
  using assms
proof (induction arbitrary: t' rule: represents.induct)
  case (rep_leaf cid l es)
  then show ?case by (simp add: represents_Leaf)
next
  case (rep_node cid i ks ts)
  from rep_node.prems obtain ts' where
    t': "t' = PNode ks ts'" and l2: "list_all2 (represents E bs) (in_children i) ts'"
    unfolding represents_Internal [OF rep_node.hyps(1)] rep_node.hyps(2) by blast
  have "ts = ts'"
  proof (rule nth_equalityI)
    show "length ts = length ts'"
      by (simp only: list_all2_lengthD [OF rep_node.IH, symmetric] list_all2_lengthD [OF l2])
    fix j assume j: "j < length ts"
    then have i: "j < length (in_children i)" by (simp only: list_all2_lengthD [OF rep_node.IH])
    have "\<forall>t'. represents E bs (in_children i ! j) t' \<longrightarrow> ts ! j = t'"
      using list_all2_nthD [OF rep_node.IH i] by blast
    moreover have "represents E bs (in_children i ! j) (ts' ! j)"
      using l2 i by (rule list_all2_nthD)
    ultimately show "ts ! j = ts' ! j" by blast
  qed
  with t' show ?case by simp
qed

lemma height_child: "t \<in> set ts \<Longrightarrow> height t < height (PNode ks ts)"
  by (simp add: less_Suc_eq_le)

lemma strict_keys_concat:
  assumes "\<And>xs. xs \<in> set xss \<Longrightarrow> strict_keys xs"
    and "\<And>i j x y. i < j \<Longrightarrow> j < length xss \<Longrightarrow> x \<in> fst ` set (xss ! i) \<Longrightarrow> y \<in> fst ` set (xss ! j) \<Longrightarrow> x < y"
  shows "strict_keys (concat xss)"
  using assms
proof (induction xss)
  case Nil
  show ?case by simp
next
  case (Cons xs xss)
  have "strict_keys (concat xss)"
  proof (rule Cons.IH)
    show "strict_keys ys" if "ys \<in> set xss" for ys using Cons.prems(1) that by simp
    show "x < y" if "i < j" "j < length xss" "x \<in> fst ` set (xss ! i)" "y \<in> fst ` set (xss ! j)" for i j x y
      using Cons.prems(2) [of "Suc i" "Suc j" x y] that by simp
  qed
  moreover have "x < y" if "x \<in> fst ` set xs" "y \<in> fst ` set (concat xss)" for x y
  proof -
    from that(2) obtain ys where "ys \<in> set xss" "y \<in> fst ` set ys" by auto
    then obtain j where "j < length xss" "y \<in> fst ` set (xss ! j)" by (metis in_set_conv_nth)
    then show ?thesis using Cons.prems(2) [of 0 "Suc j" x y] that(1) by simp
  qed
  ultimately show ?case using Cons.prems(1) [of xs] by (simp add: strict_keys_append)
qed

lemma well_formed_strict: "well_formed t \<Longrightarrow> strict_keys (entries t)"
proof (induction t rule: ptree.induct)
  case (PLeaf es)
  then show ?case by simp
next
  case (PNode ks ts)
  have range: "\<And>j k. j < length ts \<Longrightarrow> k \<in> fst ` set (entries (ts ! j)) \<Longrightarrow>
       (\<forall>m < j. ks ! m \<le> k) \<and> (\<forall>m. j \<le> m \<and> m < length ks \<longrightarrow> k < ks ! m)"
    and len: "length ts = length ks + 1" and wf: "\<forall>t \<in> set ts. well_formed t"
    using PNode.prems unfolding well_formed.simps by blast+
  have "strict_keys (concat (map entries ts))"
  proof (rule strict_keys_concat)
    show "strict_keys xs" if "xs \<in> set (map entries ts)" for xs
      using that PNode.IH wf by auto
    fix i j x y assume ij: "i < j" "j < length (map entries ts)"
      and x: "x \<in> fst ` set (map entries ts ! i)" and y: "y \<in> fst ` set (map entries ts ! j)"
    have "x < ks ! i" using range [of i x] ij x len by simp
    moreover have "ks ! i \<le> y" using range [of j y] ij y by simp
    ultimately show "x < y" by simp
  qed
  then show ?case by simp
qed

end
