(* ===== verification/Prolly_Read.thy ===== *)
theory Prolly_Read imports Prolly_Tree begin

text \<open>
  \<open>crates/mnem-core/src/prolly/lookup.rs\<close> and \<open>cursor.rs\<close>: point lookup and in-order iteration.

  Both follow CIDs until they meet a leaf. The source's loops have no bound of their own (a store
  that is not content-addressed can hold a cycle), so they take fuel, and running out of it is
  \<open>Diverge\<close>; more fuel than the tree is high, and for the cursor than it has leaves, is always
  enough (\<open>lookup_entries\<close>, \<open>cursor_yields\<close>).

  A cursor is the struct \<open>Cursor\<close>: a stack of internal nodes with the index of the next child to
  visit, and the current leaf with the index of the next entry to yield. Its methods are programs
  over that struct, so it survives an error as the source's does.
\<close>

section \<open>Lookup\<close>

fun prolly_lookup ::
    "('c, 'h, 'b) external \<Rightarrow> ('c, 'b) store \<Rightarrow> nat \<Rightarrow> 'c \<Rightarrow> prolly_key \<Rightarrow> 'c error + 'c option" where
  "prolly_lookup E bs 0 cid key = Inl Diverge"
| "prolly_lookup E bs (Suc fuel) cid key =
     rbind (load_tree_chunk E bs cid) (\<lambda>chunk.
     case chunk of
       Leaf leaf \<Rightarrow>
         Inr (map_option (\<lambda>i. snd (lf_entries leaf ! i)) (binary_search key (lf_entries leaf)))
     | Internal internal \<Rightarrow>
         let child_idx = partition_point (\<lambda>b. b \<le> key) (in_boundaries internal) in
         if child_idx < length (in_children internal)
         then prolly_lookup E bs fuel (in_children internal ! child_idx) key
         else Inl Panic)"

lemma map_of_concat:
  assumes "i < length xss" and "\<And>j. j < length xss \<Longrightarrow> j \<noteq> i \<Longrightarrow> k \<notin> fst ` set (xss ! j)"
  shows "map_of (concat xss) k = map_of (xss ! i) k"
  using assms
proof (induction xss arbitrary: i)
  case Nil
  then show ?case by simp
next
  case (Cons xs xss)
  show ?case
  proof (cases i)
    case 0
    have "k \<notin> fst ` set (xss ! j)" if "j < length xss" for j
      using Cons.prems(2) [of "Suc j"] that 0 by simp
    then have "map_of (concat xss) k = None"
      unfolding map_of_eq_None_iff by (auto simp: set_conv_nth [of xss])
    then show ?thesis using 0 by (simp add: map_add_def split: option.split)
  next
    case (Suc i')
    have "map_of xs k = None"
      using Cons.prems(2) [of 0] Suc by (simp add: map_of_eq_None_iff)
    moreover have "map_of (concat xss) k = map_of (xss ! i') k"
    proof (rule Cons.IH)
      show "i' < length xss" using Cons.prems(1) Suc by simp
      show "k \<notin> fst ` set (xss ! j)" if "j < length xss" "j \<noteq> i'" for j
        using Cons.prems(2) [of "Suc j"] that Suc by simp
    qed
    ultimately show ?thesis using Suc by (simp add: map_add_def split: option.split)
  qed
qed

text \<open>The child the partition point selects is the only one that can hold the key.\<close>

lemma well_formed_child:
  assumes "well_formed (PNode ks ts)" and i_def: "i = partition_point (\<lambda>b. b \<le> k) ks"
  shows "i < length ts" and "map_of (entries (PNode ks ts)) k = map_of (entries (ts ! i)) k"
proof -
  have len: "length ts = length ks + 1" and sorted: "sorted_wrt (<) ks"
    and range: "\<And>j k. j < length ts \<Longrightarrow> k \<in> fst ` set (entries (ts ! j)) \<Longrightarrow>
       (\<forall>m < j. ks ! m \<le> k) \<and> (\<forall>m. j \<le> m \<and> m < length ks \<longrightarrow> k < ks ! m)"
    using assms(1) unfolding well_formed.simps by blast+
  have le: "i \<le> length ks" by (simp add: i_def)
  then show i: "i < length ts" by (simp add: len)
  have "k \<notin> fst ` set (entries (ts ! j))" if j: "j < length ts" "j \<noteq> i" for j
  proof
    assume k: "k \<in> fst ` set (entries (ts ! j))"
    show False
    proof (cases "j < i")
      case True
      then have "ks ! j \<le> k" unfolding i_def by (rule partition_point_before)
      moreover have "k < ks ! j" using range [OF j(1) k] True le by simp
      ultimately show False by simp
    next
      case False
      then have "i < j" using j(2) by simp
      then have "ks ! i \<le> k" using range [OF j(1) k] by simp
      moreover have "k < ks ! i"
        using sorted \<open>i < j\<close> j(1) len unfolding i_def by (intro partition_point_after) simp_all
      ultimately show False by simp
    qed
  qed
  then show "map_of (entries (PNode ks ts)) k = map_of (entries (ts ! i)) k"
    using map_of_concat [of i "map entries ts" k] i by simp
qed

lemma lookup_entries:
  assumes "represents E bs cid t" and "well_formed t" and "height t < fuel"
  shows "prolly_lookup E bs fuel cid key = Inr (map_of (entries t) key)"
  using assms
proof (induction t arbitrary: cid fuel rule: ptree.induct)
  case (PLeaf es)
  from PLeaf.prems(1) obtain l where "load_tree_chunk E bs cid = Inr (Leaf l)" "lf_entries l = es"
    by (auto elim: represents_leafE)
  with PLeaf.prems(2,3) show ?case
    by (cases fuel) (simp_all add: binary_search_map_of)
next
  case (PNode ks ts)
  let ?i = "partition_point (\<lambda>b. b \<le> key) ks"
  from PNode.prems(1) obtain n where n: "load_tree_chunk E bs cid = Inr (Internal n)"
    "in_boundaries n = ks" and reps: "list_all2 (represents E bs) (in_children n) ts"
    by (auto elim: represents_nodeE)
  obtain f where f: "fuel = Suc f" using PNode.prems(3) by (cases fuel) auto
  note child = well_formed_child [OF PNode.prems(2) refl, of key]
  have len: "length (in_children n) = length ts" using reps by (rule list_all2_lengthD)
  have "prolly_lookup E bs f (in_children n ! ?i) key = Inr (map_of (entries (ts ! ?i)) key)"
  proof (rule PNode.IH)
    show mem: "ts ! ?i \<in> set ts" using child(1) by simp
    show "represents E bs (in_children n ! ?i) (ts ! ?i)"
      by (rule list_all2_nthD [OF reps]) (simp only: len child(1))
    show "well_formed (ts ! ?i)" using PNode.prems(2) mem by simp
    show "height (ts ! ?i) < f"
      using height_child [OF mem, of ks] PNode.prems(3) f by linarith
  qed
  with n f child len show ?case by (simp add: Let_def del: entries.simps)
qed

section \<open>The cursor\<close>

record 'c cursor =
  cu_stack :: "('c internal \<times> nat) list"
  cu_current :: "('c leaf \<times> nat) option"

type_synonym ('c, 'a) cursor_op = "('c cursor, 'c error, 'a) prog"

fun descend ::
    "('c, 'h, 'b) external \<Rightarrow> ('c, 'b) store \<Rightarrow> nat \<Rightarrow> 'c \<Rightarrow> ('c, unit) cursor_op" where
  "descend E bs 0 cid cu = (Inl Diverge, cu)"
| "descend E bs (Suc fuel) cid cu =
     (case load_tree_chunk E bs cid of
        Inl e \<Rightarrow> (Inl e, cu)
      | Inr (Leaf leaf) \<Rightarrow> (Inr (), cu\<lparr>cu_current := Some (leaf, 0)\<rparr>)
      | Inr (Internal internal) \<Rightarrow>
          (case in_children internal of
             [] \<Rightarrow> (Inl Panic, cu)
           | next_cid # _ \<Rightarrow> descend E bs fuel next_cid (cu\<lparr>cu_stack := (internal, 1) # cu_stack cu\<rparr>)))"

definition cursor_new ::
    "('c, 'h, 'b) external \<Rightarrow> ('c, 'b) store \<Rightarrow> nat \<Rightarrow> 'c \<Rightarrow> 'c error + 'c cursor" where
  "cursor_new E bs fuel root =
     (case descend E bs fuel root \<lparr>cu_stack = [], cu_current = None\<rparr> of
        (Inl e, _) \<Rightarrow> Inl e
      | (Inr _, cu) \<Rightarrow> Inr cu)"

function advance_leaf ::
    "('c, 'h, 'b) external \<Rightarrow> ('c, 'b) store \<Rightarrow> nat \<Rightarrow> ('c, bool) cursor_op" where
  "advance_leaf E bs fuel cu =
     (case cu_stack cu of
        [] \<Rightarrow> (Inr False, cu)
      | (internal, next_idx) # rest \<Rightarrow>
          if next_idx < length (in_children internal) then
            (case descend E bs fuel (in_children internal ! next_idx)
                    (cu\<lparr>cu_stack := (internal, next_idx + 1) # rest\<rparr>) of
               (Inl e, cu) \<Rightarrow> (Inl e, cu)
             | (Inr _, cu) \<Rightarrow> (Inr True, cu))
          else advance_leaf E bs fuel (cu\<lparr>cu_stack := rest\<rparr>))"
  by pat_completeness auto
termination
  by (relation "measure (\<lambda>(E, bs, fuel, cu). length (cu_stack cu))") auto

declare advance_leaf.simps [simp del]

text \<open>\<open>Iterator::next\<close>: \<open>None\<close> ends the iteration, \<open>turns\<close> bounds its loop.\<close>

fun cursor_next ::
    "('c, 'h, 'b) external \<Rightarrow> ('c, 'b) store \<Rightarrow> nat \<Rightarrow> nat \<Rightarrow> 'c cursor
       \<Rightarrow> ('c error + (prolly_key \<times> 'c)) option \<times> 'c cursor" where
  "cursor_next E bs fuel 0 cu = (Some (Inl Diverge), cu)"
| "cursor_next E bs fuel (Suc turns) cu =
     (let leaf_done = (\<lambda>cu.
        case advance_leaf E bs fuel cu of
          (Inr True, cu) \<Rightarrow> cursor_next E bs fuel turns cu
        | (Inr False, cu) \<Rightarrow> (None, cu)
        | (Inl e, cu) \<Rightarrow> (Some (Inl e), cu)) in
      case cu_current cu of
        Some (leaf, idx) \<Rightarrow>
          if idx < length (lf_entries leaf)
          then (Some (Inr (lf_entries leaf ! idx)), cu\<lparr>cu_current := Some (leaf, idx + 1)\<rparr>)
          else leaf_done (cu\<lparr>cu_current := None\<rparr>)
      | None \<Rightarrow> leaf_done cu)"

text \<open>What the callers do with a cursor: \<open>for item in cursor \<open>{ let (k, v) = item?; ... }\<close>\<close>.\<close>

fun cursor_collect ::
    "('c, 'h, 'b) external \<Rightarrow> ('c, 'b) store \<Rightarrow> nat \<Rightarrow> nat \<Rightarrow> 'c cursor \<Rightarrow> (prolly_key \<times> 'c) list
       \<Rightarrow> 'c error + (prolly_key \<times> 'c) list" where
  "cursor_collect E bs fuel 0 cu out = Inl Diverge"
| "cursor_collect E bs fuel (Suc n) cu out =
     (case cursor_next E bs fuel fuel cu of
        (None, _) \<Rightarrow> Inr out
      | (Some (Inl e), _) \<Rightarrow> Inl e
      | (Some (Inr item), cu) \<Rightarrow> cursor_collect E bs fuel n cu (out @ [item]))"

definition read_tree ::
    "('c, 'h, 'b) external \<Rightarrow> ('c, 'b) store \<Rightarrow> nat \<Rightarrow> 'c \<Rightarrow> 'c error + (prolly_key \<times> 'c) list" where
  "read_tree E bs fuel root =
     rbind (cursor_new E bs fuel root) (\<lambda>cu. cursor_collect E bs fuel fuel cu [])"

text \<open>A loop body that may fail, run on each item as the cursor yields it.\<close>

fun cursor_for ::
    "('c, 'h, 'b) external \<Rightarrow> ('c, 'b) store \<Rightarrow> nat \<Rightarrow> nat
       \<Rightarrow> (prolly_key \<times> 'c \<Rightarrow> 'acc \<Rightarrow> 'c error + 'acc) \<Rightarrow> 'c cursor \<Rightarrow> 'acc \<Rightarrow> 'c error + 'acc" where
  "cursor_for E bs fuel 0 body cu acc = Inl Diverge"
| "cursor_for E bs fuel (Suc n) body cu acc =
     (case cursor_next E bs fuel fuel cu of
        (None, _) \<Rightarrow> Inr acc
      | (Some (Inl e), _) \<Rightarrow> Inl e
      | (Some (Inr item), cu) \<Rightarrow> rbind (body item acc) (cursor_for E bs fuel n body cu))"

definition for_entries ::
    "('c, 'h, 'b) external \<Rightarrow> ('c, 'b) store \<Rightarrow> nat \<Rightarrow> 'c
       \<Rightarrow> (prolly_key \<times> 'c \<Rightarrow> 'acc \<Rightarrow> 'c error + 'acc) \<Rightarrow> 'acc \<Rightarrow> 'c error + 'acc" where
  "for_entries E bs fuel root body acc =
     rbind (cursor_new E bs fuel root) (\<lambda>cu. cursor_for E bs fuel fuel body cu acc)"

lemma cursor_collect_prefix:
  "cursor_collect E bs fuel n cu out = Inr es \<Longrightarrow> \<exists>new. es = out @ new"
  by (induction n arbitrary: cu out) (fastforce split: prod.splits option.splits sum.splits)+

lemma cursor_for_collect:
  "cursor_collect E bs fuel n cu out = Inr (out @ es) \<Longrightarrow> cursor_for E bs fuel n body cu acc = rfold body es acc"
proof (induction n arbitrary: cu out es acc)
  case (Suc n)
  obtain r cu' where nx: "cursor_next E bs fuel fuel cu = (r, cu')" by fastforce
  show ?case
  proof (cases r)
    case None
    with Suc.prems nx show ?thesis by simp
  next
    case (Some q)
    with Suc.prems nx obtain item where q: "q = Inr item"
      and c: "cursor_collect E bs fuel n cu' (out @ [item]) = Inr (out @ es)"
      by (cases q) auto
    from cursor_collect_prefix [OF c] obtain es' where es: "es = item # es'" by auto
    with c have "cursor_collect E bs fuel n cu' ((out @ [item]) @ []) = Inr ((out @ [item]) @ es')" by simp
    then have "cursor_for E bs fuel n body cu' acc' = rfold body es' acc'" for acc'
      using Suc.IH [of cu' "out @ [item]" es'] by simp
    with nx Some q es show ?thesis by (cases "body item acc") simp_all
  qed
qed simp

lemma for_entries_rfold:
  assumes "read_tree E bs fuel root = Inr es"
  shows "for_entries E bs fuel root body acc = rfold body es acc"
proof -
  from assms obtain cu where cu: "cursor_new E bs fuel root = Inr cu"
    and c: "cursor_collect E bs fuel fuel cu [] = Inr es"
    by (auto simp: read_tree_def monad_simps)
  from c have "cursor_collect E bs fuel fuel cu [] = Inr ([] @ es)" by simp
  from cursor_for_collect [OF this] cu show ?thesis by (simp add: for_entries_def)
qed

section \<open>What is left to yield\<close>

fun leaf_count :: "'c ptree \<Rightarrow> nat" where
  "leaf_count (PLeaf es) = 1"
| "leaf_count (PNode ks ts) = sum_list (map leaf_count ts)"

text \<open>\<open>open_at E bs h cu us\<close>: the unvisited children of the cursor's frames, top first, are the trees
  \<open>us\<close>, all of height below \<open>h\<close>.\<close>

definition open_at ::
    "('c, 'h, 'b) external \<Rightarrow> ('c, 'b) store \<Rightarrow> nat \<Rightarrow> 'c cursor \<Rightarrow> 'c ptree list \<Rightarrow> bool" where
  "open_at E bs h cu us \<longleftrightarrow>
     list_all2 (represents E bs) (concat (map (\<lambda>(i, n). drop n (in_children i)) (cu_stack cu))) us \<and>
     (\<forall>u \<in> set us. height u < h)"

definition current_entries :: "'c cursor \<Rightarrow> (prolly_key \<times> 'c) list" where
  "current_entries cu = (case cu_current cu of None \<Rightarrow> [] | Some (l, i) \<Rightarrow> drop i (lf_entries l))"

definition entries_all :: "'c ptree list \<Rightarrow> (prolly_key \<times> 'c) list" where
  "entries_all us = concat (map entries us)"

definition leaves_all :: "'c ptree list \<Rightarrow> nat" where
  "leaves_all us = sum_list (map leaf_count us)"

lemma entries_all_simps [simp]:
  "entries_all [] = []" "entries_all (u # us) = entries u @ entries_all us"
  "entries_all (us @ vs) = entries_all us @ entries_all vs"
  by (simp_all add: entries_all_def)

lemma leaves_all_simps [simp]:
  "leaves_all [] = 0" "leaves_all (u # us) = leaf_count u + leaves_all us"
  "leaves_all (us @ vs) = leaves_all us + leaves_all vs"
  by (simp_all add: leaves_all_def)

lemma descend_opens:
  assumes "represents E bs cid t" and "height t < fuel" and "open_at E bs h cu us" and "height t \<le> h"
  shows "\<exists>cu' us'. descend E bs fuel cid cu = (Inr (), cu') \<and> open_at E bs h cu' us' \<and>
     current_entries cu' @ entries_all us' = entries t @ entries_all us \<and>
     Suc (leaves_all us') = leaf_count t + leaves_all us"
  using assms
proof (induction t arbitrary: cid fuel cu us rule: ptree.induct)
  case (PLeaf es)
  then obtain l f where "load_tree_chunk E bs cid = Inr (Leaf l)" "lf_entries l = es" "fuel = Suc f"
    by (cases fuel) (auto elim: represents_leafE)
  with PLeaf.prems(3) show ?case
    by (auto simp: open_at_def current_entries_def)
next
  case (PNode ks ts)
  from PNode.prems(1) obtain n where n: "load_tree_chunk E bs cid = Inr (Internal n)"
    and reps: "list_all2 (represents E bs) (in_children n) ts"
    by (auto elim: represents_nodeE)
  obtain f where f: "fuel = Suc f" using PNode.prems(2) by (cases fuel) auto
  obtain c cs where cs: "in_children n = c # cs"
    using load_tree_chunk_internal [OF n] by (cases "in_children n") auto
  with reps obtain t0 ts' where ts: "ts = t0 # ts'" and r0: "represents E bs c t0"
    and rs: "list_all2 (represents E bs) cs ts'" by (auto simp: list_all2_Cons1)
  let ?cu = "cu\<lparr>cu_stack := (n, 1) # cu_stack cu\<rparr>"
  have small: "height u < height (PNode ks ts)" if "u \<in> set ts" for u
    using that by (rule height_child)
  have "open_at E bs h ?cu (ts' @ us)"
    using PNode.prems(3,4) rs cs small ts
    by (auto simp: open_at_def list_all2_appendI dest: less_le_trans)
  moreover have "height t0 < f" "height t0 \<le> h"
    using small [of t0] ts PNode.prems(2,4) f by simp_all
  ultimately obtain cu' us' where "descend E bs f c ?cu = (Inr (), cu')" "open_at E bs h cu' us'"
    "current_entries cu' @ entries_all us' = entries t0 @ entries_all (ts' @ us)"
    "Suc (leaves_all us') = leaf_count t0 + leaves_all (ts' @ us)"
    using PNode.IH [of t0 c f ?cu "ts' @ us"] r0 ts by auto
  then show ?case
    using n f cs ts by (auto simp: entries_all_def leaves_all_def)
qed

lemma advance_leaf_opens:
  assumes "open_at E bs fuel cu us"
  shows "(us = [] \<and> (\<exists>cu'. advance_leaf E bs fuel cu = (Inr False, cu') \<and> cu_current cu' = cu_current cu)) \<or>
    (us \<noteq> [] \<and> (\<exists>cu' us'. advance_leaf E bs fuel cu = (Inr True, cu') \<and> open_at E bs fuel cu' us' \<and>
       current_entries cu' @ entries_all us' = entries_all us \<and>
       leaves_all us' < leaves_all us))"
  using assms
proof (induction E bs fuel cu rule: advance_leaf.induct)
  case (1 E bs fuel cu)
  show ?case
  proof (cases "cu_stack cu")
    case Nil
    with 1(2) show ?thesis by (auto simp: open_at_def advance_leaf.simps [of E bs fuel cu])
  next
    case (Cons frame rest)
    obtain i n where frame: "frame = (i, n)" by (cases frame)
    show ?thesis
    proof (cases "n < length (in_children i)")
      case False
      let ?cu = "cu\<lparr>cu_stack := rest\<rparr>"
      have "open_at E bs fuel ?cu us" using 1(2) Cons frame False by (simp add: open_at_def)
      from 1(1) [OF Cons frame [symmetric] False this] show ?thesis
        using Cons frame False by (simp add: advance_leaf.simps [of E bs fuel cu])
    next
      case True
      let ?cu = "cu\<lparr>cu_stack := (i, n + 1) # rest\<rparr>"
      have "drop n (in_children i) = in_children i ! n # drop (n + 1) (in_children i)"
        using True by (simp add: Cons_nth_drop_Suc)
      with 1(2) Cons frame obtain u us' where us: "us = u # us'"
        and u: "represents E bs (in_children i ! n) u" "height u < fuel"
        and op: "open_at E bs fuel ?cu us'"
        by (auto simp: open_at_def list_all2_Cons1)
      from descend_opens [OF u op] u(2) obtain cu' us'' where
        d: "descend E bs fuel (in_children i ! n) ?cu = (Inr (), cu')" "open_at E bs fuel cu' us''"
        "current_entries cu' @ entries_all us'' = entries u @ entries_all us'"
        "Suc (leaves_all us'') = leaf_count u + leaves_all us'" by auto
      have "advance_leaf E bs fuel cu = (Inr True, cu')"
        using Cons frame True d(1) by (simp add: advance_leaf.simps [of E bs fuel cu])
      with d(2-4) us show ?thesis by auto
    qed
  qed
qed

lemma cursor_next_yields:
  assumes "open_at E bs fuel cu us" and "leaves_all us < turns"
  shows "(current_entries cu @ entries_all us = [] \<and> (\<exists>cu'. cursor_next E bs fuel turns cu = (None, cu'))) \<or>
    (\<exists>x cu' us'. cursor_next E bs fuel turns cu = (Some (Inr x), cu') \<and> open_at E bs fuel cu' us' \<and>
       current_entries cu @ entries_all us = x # current_entries cu' @ entries_all us' \<and>
       leaves_all us' \<le> leaves_all us)"
  using assms
proof (induction turns arbitrary: cu us)
  case 0
  then show ?case by simp
next
  case (Suc turns)
  have step: ?case if cur: "current_entries cu = []"
    and next_eq: "cursor_next E bs fuel (Suc turns) cu =
      (case advance_leaf E bs fuel cu0 of
          (Inr True, cu) \<Rightarrow> cursor_next E bs fuel turns cu
        | (Inr False, cu) \<Rightarrow> (None, cu)
        | (Inl e, cu) \<Rightarrow> (Some (Inl e), cu))"
    and op: "open_at E bs fuel cu0 us" for cu0
    using advance_leaf_opens [OF op]
  proof (elim disjE conjE exE)
    fix cu' assume "us = []" "advance_leaf E bs fuel cu0 = (Inr False, cu')"
    with cur show ?case unfolding next_eq by simp
  next
    fix cu' us' assume a: "advance_leaf E bs fuel cu0 = (Inr True, cu')" "open_at E bs fuel cu' us'"
      "current_entries cu' @ entries_all us' = entries_all us" "leaves_all us' < leaves_all us"
    have "leaves_all us' < turns" using a(4) Suc.prems(2) by simp
    note IH = Suc.IH [OF a(2) this]
    have eq: "cursor_next E bs fuel (Suc turns) cu = cursor_next E bs fuel turns cu'"
      unfolding next_eq a(1) by simp
    have all: "current_entries cu @ entries_all us = current_entries cu' @ entries_all us'"
      using cur a(3) by simp
    from IH show ?case
    proof (elim disjE conjE exE)
      fix cu'' assume "current_entries cu' @ entries_all us' = []" "cursor_next E bs fuel turns cu' = (None, cu'')"
      then show ?case unfolding eq all by blast
    next
      fix x cu'' us'' assume "cursor_next E bs fuel turns cu' = (Some (Inr x), cu'')" "open_at E bs fuel cu'' us''"
        "current_entries cu' @ entries_all us' = x # current_entries cu'' @ entries_all us''"
        "leaves_all us'' \<le> leaves_all us'"
      moreover have "leaves_all us'' \<le> leaves_all us" using calculation(4) a(4) by simp
      ultimately show ?case unfolding eq all by blast
    qed
  qed
  show ?case
  proof (cases "cu_current cu")
    case None
    then show ?thesis using Suc.prems(1) by (intro step) (simp_all add: current_entries_def)
  next
    case (Some p)
    obtain l i where p: "p = (l, i)" by (cases p)
    show ?thesis
    proof (cases "i < length (lf_entries l)")
      case False
      then show ?thesis
        using Suc.prems(1) Some p
        by (intro step [of "cu\<lparr>cu_current := None\<rparr>"]) (simp_all add: current_entries_def open_at_def Let_def)
    next
      case True
      then have "drop i (lf_entries l) = lf_entries l ! i # drop (i + 1) (lf_entries l)"
        by (simp add: Cons_nth_drop_Suc)
      then show ?thesis
        using Suc.prems(1) Some p True
        by (intro disjI2 exI [of _ "lf_entries l ! i"] exI [of _ "cu\<lparr>cu_current := Some (l, i + 1)\<rparr>"] exI [of _ us])
           (simp add: current_entries_def open_at_def)
    qed
  qed
qed

lemma cursor_collect_yields:
  assumes "open_at E bs fuel cu us" and "leaves_all us < fuel"
    and "length (current_entries cu @ entries_all us) < n"
  shows "cursor_collect E bs fuel n cu out = Inr (out @ current_entries cu @ entries_all us)"
  using assms
proof (induction n arbitrary: cu us out)
  case 0
  then show ?case by simp
next
  case (Suc n)
  from cursor_next_yields [OF Suc.prems(1,2)] show ?case
  proof (elim disjE conjE exE)
    fix cu' assume "current_entries cu @ entries_all us = []" "cursor_next E bs fuel fuel cu = (None, cu')"
    then show ?case by simp
  next
    fix x cu' us' assume a: "cursor_next E bs fuel fuel cu = (Some (Inr x), cu')" "open_at E bs fuel cu' us'"
      "current_entries cu @ entries_all us = x # current_entries cu' @ entries_all us'"
      "leaves_all us' \<le> leaves_all us"
    have "cursor_collect E bs fuel n cu' (out @ [x]) = Inr ((out @ [x]) @ current_entries cu' @ entries_all us')"
      using a Suc.prems(2,3) by (intro Suc.IH) simp_all
    with a(1,3) show ?case by simp
  qed
qed

definition enough_fuel :: "'c ptree \<Rightarrow> nat \<Rightarrow> bool" where
  "enough_fuel t fuel \<longleftrightarrow> height t < fuel \<and> leaf_count t < fuel \<and> length (entries t) < fuel"

lemma cursor_yields:
  assumes "represents E bs root t" and "enough_fuel t fuel"
  shows "read_tree E bs fuel root = Inr (entries t)"
proof -
  let ?cu = "\<lparr>cu_stack = [], cu_current = None\<rparr> :: 'a cursor"
  have op: "open_at E bs fuel ?cu []" by (simp add: open_at_def)
  have h: "height t < fuel" "height t \<le> fuel" using assms(2) by (simp_all add: enough_fuel_def)
  from descend_opens [OF assms(1) h(1) op h(2)] obtain cu us where
    d: "descend E bs fuel root ?cu = (Inr (), cu)" and o: "open_at E bs fuel cu us"
    and e: "current_entries cu @ entries_all us = entries t" and l: "Suc (leaves_all us) = leaf_count t"
    by auto
  have "cursor_collect E bs fuel fuel cu [] = Inr ([] @ current_entries cu @ entries_all us)"
    using assms(2) e l by (intro cursor_collect_yields [OF o]) (simp_all add: enough_fuel_def)
  with d e show ?thesis by (simp add: read_tree_def cursor_new_def)
qed

end
