(* ===== verification/Chunker.thy ===== *)
theory Chunker imports Codec begin

text \<open>
  \<open>crates/mnem-core/src/prolly/chunker.rs\<close> and the constants of \<open>constants.rs\<close>: the rolling-hash
  rule that decides where a Prolly-tree chunk ends.

  The state is the struct \<open>Chunker\<close>: the last four keys as 64 bytes and the number of keys of the
  current chunk. \<open>chunk_boundaries\<close> is the source's loop; \<open>groups\<close> is what its boundaries mean, the
  list cut into chunks, and is also what the tree builder's two loops compute (theory
  \<open>Prolly_Build\<close>). The keyed BLAKE3 hash is a field of \<open>external\<close>, and no property here depends on
  what it computes.
\<close>

definition PROLLY_KEY_BYTES :: nat where "PROLLY_KEY_BYTES = 16"
definition ROLLING_WINDOW_BYTES :: nat where "ROLLING_WINDOW_BYTES = 64"
definition MIN_ENTRIES_PER_CHUNK :: nat where "MIN_ENTRIES_PER_CHUNK = 16"
definition MAX_ENTRIES_PER_CHUNK :: nat where "MAX_ENTRIES_PER_CHUNK = 512"
definition TARGET_AVG_ENTRIES_PER_CHUNK :: nat where "TARGET_AVG_ENTRIES_PER_CHUNK = 64"
definition THRESHOLD :: u64 where "THRESHOLD = (- 1) div 48"

definition ROLLING_KEY :: bytes where
  "ROLLING_KEY =
     [0x6d, 0x6e, 0x65, 0x6d, 0x2d, 0x70, 0x72, 0x6f,
      0x6c, 0x6c, 0x79, 0x2d, 0x72, 0x68, 0x2d, 0x31,
      0, 0, 0, 0, 0, 0, 0, 0, 0, 0, 0, 0, 0, 0, 0, 0]"

record chunker =
  window :: bytes
  n_keys :: nat

definition chunker_new :: chunker where
  "chunker_new = \<lparr>window = replicate ROLLING_WINDOW_BYTES 0, n_keys = 0\<rparr>"

definition chunker_reset :: "chunker \<Rightarrow> chunker" where
  "chunker_reset c = c\<lparr>window := replicate ROLLING_WINDOW_BYTES 0, n_keys := 0\<rparr>"

definition push_key :: "chunker \<Rightarrow> prolly_key \<Rightarrow> chunker" where
  "push_key c key =
     c\<lparr>window := drop PROLLY_KEY_BYTES (window c) @ key_bytes key, n_keys := n_keys c + 1\<rparr>"

definition u64_from_le_bytes :: "bytes \<Rightarrow> u64" where
  "u64_from_le_bytes bs = foldr (\<lambda>b a. a * 256 + ucast b) bs 0"

definition rolling_hash :: "('c, 'h, 'b) external \<Rightarrow> chunker \<Rightarrow> u64" where
  "rolling_hash E c = u64_from_le_bytes (take 8 (keyed_hash E ROLLING_KEY (window c)))"

definition should_split_at :: "('c, 'h, 'b) external \<Rightarrow> chunker \<Rightarrow> nat \<Rightarrow> bool" where
  "should_split_at E c entries_in_chunk =
     (if entries_in_chunk < MIN_ENTRIES_PER_CHUNK then False
      else if entries_in_chunk \<ge> MAX_ENTRIES_PER_CHUNK then True
      else rolling_hash E c < THRESHOLD)"

fun boundary_loop ::
    "('c, 'h, 'b) external \<Rightarrow> nat \<Rightarrow> prolly_key list \<Rightarrow> chunker \<Rightarrow> nat \<Rightarrow> nat list \<Rightarrow> nat list" where
  "boundary_loop E i [] c entries_in_chunk boundaries = boundaries"
| "boundary_loop E i (key # keys) c entries_in_chunk boundaries =
     (let c = push_key c key; entries_in_chunk = entries_in_chunk + 1 in
      if should_split_at E c entries_in_chunk
      then boundary_loop E (i + 1) keys (chunker_reset c) 0 (boundaries @ [i + 1])
      else boundary_loop E (i + 1) keys c entries_in_chunk boundaries)"

definition chunk_boundaries :: "('c, 'h, 'b) external \<Rightarrow> prolly_key list \<Rightarrow> nat list" where
  "chunk_boundaries E keys = boundary_loop E 0 keys chunker_new 0 []"

section \<open>The state\<close>

lemma chunker_reset [simp]: "chunker_reset c = chunker_new"
  by (simp add: chunker_reset_def chunker_new_def)

lemma length_window_push:
  "length (window c) = ROLLING_WINDOW_BYTES \<Longrightarrow> length (window (push_key c k)) = ROLLING_WINDOW_BYTES"
  by (simp add: push_key_def ROLLING_WINDOW_BYTES_def PROLLY_KEY_BYTES_def)

text \<open>The window is the last 64 bytes of the keys pushed since the reset, zero-padded on the left.\<close>

lemma window_fold:
  "length (window c) = ROLLING_WINDOW_BYTES \<Longrightarrow>
   window (fold (\<lambda>k c. push_key c k) ks c) =
     drop (PROLLY_KEY_BYTES * length ks) (window c @ concat (map key_bytes ks))"
proof (induction ks rule: rev_induct)
  case Nil
  then show ?case by simp
next
  case (snoc k ks)
  have len: "length (concat (map key_bytes ks)) = 16 * length ks"
    by (induction ks) simp_all
  have pos: "length ks * 16 - 64 + (16 - (64 - length ks * 16)) = length ks * 16 - 48"
    by arith
  from snoc show ?case
    by (simp add: push_key_def PROLLY_KEY_BYTES_def ROLLING_WINDOW_BYTES_def len pos ac_simps)
qed

lemma should_split_small: "should_split_at E c n \<Longrightarrow> MIN_ENTRIES_PER_CHUNK \<le> n"
  by (auto simp: should_split_at_def split: if_splits)

lemma should_split_large: "\<not> should_split_at E c n \<Longrightarrow> n < MAX_ENTRIES_PER_CHUNK"
  by (auto simp: should_split_at_def MIN_ENTRIES_PER_CHUNK_def MAX_ENTRIES_PER_CHUNK_def split: if_splits)

section \<open>The chunks a list is cut into\<close>

text \<open>\<open>cut_chunks\<close> gives the chunks that a boundary closed and the open rest; \<open>groups\<close> is all of them.\<close>

fun cut_chunks ::
    "('c, 'h, 'b) external \<Rightarrow> ('a \<Rightarrow> prolly_key) \<Rightarrow> chunker \<Rightarrow> 'a list \<Rightarrow> 'a list \<Rightarrow> 'a list list \<times> 'a list" where
  "cut_chunks E key c cur [] = ([], cur)"
| "cut_chunks E key c cur (x # xs) =
     (let c = push_key c (key x); cur = cur @ [x] in
      if should_split_at E c (length cur)
      then (cur # fst (cut_chunks E key chunker_new [] xs), snd (cut_chunks E key chunker_new [] xs))
      else cut_chunks E key c cur xs)"

definition groups ::
    "('c, 'h, 'b) external \<Rightarrow> ('a \<Rightarrow> prolly_key) \<Rightarrow> chunker \<Rightarrow> 'a list \<Rightarrow> 'a list \<Rightarrow> 'a list list" where
  "groups E key c cur xs =
     fst (cut_chunks E key c cur xs) @
     (if snd (cut_chunks E key c cur xs) = [] then [] else [snd (cut_chunks E key c cur xs)])"

lemma groups_Nil: "groups E key c cur [] = (if cur = [] then [] else [cur])"
  by (simp add: groups_def)

lemma groups_Cons:
  "groups E key c cur (x # xs) =
     (let c = push_key c (key x); cur = cur @ [x] in
      if should_split_at E c (length cur) then cur # groups E key chunker_new [] xs
      else groups E key c cur xs)"
  by (simp add: groups_def Let_def)

lemma concat_cut: "concat (fst (cut_chunks E key c cur xs)) @ snd (cut_chunks E key c cur xs) = cur @ xs"
  by (induction E key c cur xs rule: cut_chunks.induct) (auto simp: Let_def)

lemma concat_groups: "concat (groups E key c cur xs) = cur @ xs"
  using concat_cut [of E key c cur xs] by (auto simp: groups_def)

lemma cut_min: "g \<in> set (fst (cut_chunks E key c cur xs)) \<Longrightarrow> MIN_ENTRIES_PER_CHUNK \<le> length g"
  by (induction E key c cur xs rule: cut_chunks.induct)
     (auto simp: Let_def split: if_splits dest: should_split_small)

lemma cut_rest_max:
  "length cur < MAX_ENTRIES_PER_CHUNK \<Longrightarrow>
   length (snd (cut_chunks E key c cur xs)) < MAX_ENTRIES_PER_CHUNK"
proof (induction E key c cur xs rule: cut_chunks.induct)
  case (2 E key c cur x xs)
  have "length [] < MAX_ENTRIES_PER_CHUNK" by (simp add: MAX_ENTRIES_PER_CHUNK_def)
  with 2 should_split_large [of E "push_key c (key x)" "length (cur @ [x])"]
  show ?case by (simp add: Let_def)
qed simp

lemma cut_max:
  "length cur < MAX_ENTRIES_PER_CHUNK \<Longrightarrow> g \<in> set (fst (cut_chunks E key c cur xs)) \<Longrightarrow>
   length g \<le> MAX_ENTRIES_PER_CHUNK"
proof (induction E key c cur xs rule: cut_chunks.induct)
  case (2 E key c cur x xs)
  have "length [] < MAX_ENTRIES_PER_CHUNK" by (simp add: MAX_ENTRIES_PER_CHUNK_def)
  with 2 should_split_large [of E "push_key c (key x)" "length (cur @ [x])"]
  show ?case by (auto simp: Let_def split: if_splits)
qed simp

lemma cut_nonempty: "g \<in> set (fst (cut_chunks E key c cur xs)) \<Longrightarrow> g \<noteq> []"
  using cut_min [of g E key c cur xs] by (auto simp: MIN_ENTRIES_PER_CHUNK_def)

lemma groups_nonempty: "g \<in> set (groups E key c cur xs) \<Longrightarrow> g \<noteq> []"
  by (auto simp: groups_def dest: cut_nonempty split: if_splits)

lemma groups_max:
  "length cur < MAX_ENTRIES_PER_CHUNK \<Longrightarrow> g \<in> set (groups E key c cur xs) \<Longrightarrow>
     length g \<le> MAX_ENTRIES_PER_CHUNK"
  using cut_max [of cur g E key c xs] cut_rest_max [of cur E key c xs]
  by (auto simp: groups_def split: if_splits)

lemma groups_min: "g \<in> set (butlast (groups E key c cur xs)) \<Longrightarrow> MIN_ENTRIES_PER_CHUNK \<le> length g"
  by (auto simp: groups_def split: if_splits intro: cut_min dest: in_set_butlastD)

lemma sum_lengths_ge: "\<forall>g \<in> set gs. n \<le> length g \<Longrightarrow> n * length gs \<le> length (concat gs)"
  by (induction gs) auto

lemma length_groups_less:
  assumes "2 \<le> length xs"
  shows "length (groups E key c [] xs) < length xs"
proof -
  let ?gs = "fst (cut_chunks E key c [] xs)"
  have "MIN_ENTRIES_PER_CHUNK * length ?gs \<le> length (concat ?gs)"
    by (rule sum_lengths_ge) (simp add: cut_min)
  moreover have "length (concat ?gs) + length (snd (cut_chunks E key c [] xs)) = length xs"
    by (metis append_Nil concat_cut length_append)
  ultimately show ?thesis
    using assms by (auto simp: groups_def MIN_ENTRIES_PER_CHUNK_def)
qed

text \<open>The rule is local: what follows a boundary is cut as if it stood alone.\<close>

lemma cut_append:
  "snd (cut_chunks E key c cur xs) = [] \<Longrightarrow> xs \<noteq> [] \<Longrightarrow>
   cut_chunks E key c cur (xs @ ys) =
     (fst (cut_chunks E key c cur xs) @ fst (cut_chunks E key chunker_new [] ys), snd (cut_chunks E key chunker_new [] ys))"
proof (induction E key c cur xs rule: cut_chunks.induct)
  case (1 E key c cur)
  then show ?case by simp
next
  case (2 E key c cur x xs)
  show ?case
  proof (cases "xs = []")
    case True
    with 2(4) have "should_split_at E (push_key c (key x)) (length (cur @ [x]))"
      by (auto simp: Let_def split: if_splits)
    with True show ?thesis by (simp add: Let_def)
  next
    case False
    then show ?thesis
      using 2(1) [OF refl refl] 2(3) [OF refl refl] 2(4) by (auto simp: Let_def split: if_splits)
  qed
qed

section \<open>Boundaries are the ends of the chunks\<close>

fun ends :: "nat \<Rightarrow> 'a list list \<Rightarrow> nat list" where
  "ends i [] = []"
| "ends i (g # gs) = (i + length g) # ends (i + length g) gs"

lemma length_ends [simp]: "length (ends i gs) = length gs"
  by (induction gs arbitrary: i) simp_all

lemma ends_append: "ends i (gs @ hs) = ends i gs @ ends (i + length (concat gs)) hs"
  by (induction gs arbitrary: i) (simp_all add: add.assoc)

lemma ends_shift: "ends (i + j) gs = map ((+) i) (ends j gs)"
  by (induction gs arbitrary: j) (simp_all add: add.assoc)

lemma last_ends: "last (i # ends i gs) = i + length (concat gs)"
  by (induction gs arbitrary: i) (simp_all add: add.assoc)

lemma nth_ends: "j < length gs \<Longrightarrow> ends i gs ! j - (i # ends i gs) ! j = length (gs ! j)"
  by (induction gs arbitrary: i j) (auto simp: nth_Cons split: nat.splits)

lemma ends_sorted: "\<forall>g \<in> set gs. g \<noteq> [] \<Longrightarrow> sorted_wrt (<) (i # ends i gs)"
proof (induction gs arbitrary: i)
  case Nil
  show ?case by simp
next
  case (Cons g gs)
  then have "sorted_wrt (<) ((i + length g) # ends (i + length g) gs)" by simp
  moreover have "0 < length g" using Cons.prems by simp
  ultimately show ?case by fastforce
qed

lemma boundary_loop_ends:
  "length cur \<le> i \<Longrightarrow>
   boundary_loop E i keys c (length cur) bs = bs @ ends (i - length cur) (fst (cut_chunks E (\<lambda>k. k) c cur keys))"
proof (induction keys arbitrary: i c cur bs)
  case Nil
  show ?case by simp
next
  case (Cons k keys)
  have split: "boundary_loop E (i + 1) keys chunker_new 0 (bs @ [i + 1])
      = bs @ (i + 1) # ends (i + 1) (fst (cut_chunks E (\<lambda>k. k) chunker_new [] keys))"
    using Cons.IH [of "[]" "i + 1" chunker_new "bs @ [i + 1]"] by simp
  have go: "boundary_loop E (i + 1) keys (push_key c k) (length cur + 1) bs
      = bs @ ends (i - length cur) (fst (cut_chunks E (\<lambda>k. k) (push_key c k) (cur @ [k]) keys))"
    using Cons.IH [of "cur @ [k]" "i + 1" "push_key c k" bs] Cons.prems by simp
  show ?case using split go Cons.prems by (simp add: Let_def)
qed

lemma chunk_boundaries_ends: "chunk_boundaries E keys = ends 0 (fst (cut_chunks E (\<lambda>k. k) chunker_new [] keys))"
  using boundary_loop_ends [of "[]" 0 E keys chunker_new "[]"]
  by (simp add: chunk_boundaries_def)

lemma last_boundary:
  "last (0 # chunk_boundaries E keys) = length keys \<longleftrightarrow> snd (cut_chunks E (\<lambda>k. k) chunker_new [] keys) = []"
proof -
  have "length (concat (fst (cut_chunks E (\<lambda>k. k) chunker_new [] keys)))
      + length (snd (cut_chunks E (\<lambda>k. k) chunker_new [] keys)) = length keys"
    by (metis append_Nil concat_cut length_append)
  then show ?thesis
    using last_ends [of 0 "fst (cut_chunks E (\<lambda>k. k) chunker_new [] keys)"] by (auto simp: chunk_boundaries_ends)
qed

end
