(* ===== verification/Prolly_Build.thy ===== *)
theory Prolly_Build imports Prolly_Tree Chunker begin

text \<open>
  \<open>crates/mnem-core/src/prolly/tree.rs\<close>, the builder. \<open>leaf_loop\<close> and \<open>internal_loop\<close> are the two
  \<open>for\<close> loops over the input of a level, with the source's mutable locals (the chunker, the entries
  of the open chunk, the chunks emitted so far) as arguments; \<open>build_up\<close> is the \<open>while\<close> loop that
  builds level after level until one chunk is left.

  \<open>ptree_of\<close> is the specification: a function from the entries to a tree, with no store and no CID in
  it. \<open>build_tree_represents\<close> says that the root CID the builder returns stands for that tree.
\<close>

section \<open>The builder\<close>

definition emit_leaf ::
    "('c, 'h, 'b) external \<Rightarrow> (prolly_key \<times> 'c) list \<Rightarrow> (prolly_key \<times> 'c) list
       \<Rightarrow> (('c, 'b) store, 'c error, (prolly_key \<times> 'c) list) prog" where
  "emit_leaf E cur out =
     (case cur of
        [] \<Rightarrow> slift (Inl Panic)
      | e # _ \<Rightarrow>
          sbind (put_object E (ser_tree (Leaf (leaf_new cur)))) (\<lambda>cid.
          sret (out @ [(fst e, cid)])))"

fun leaf_loop ::
    "('c, 'h, 'b) external \<Rightarrow> chunker \<Rightarrow> (prolly_key \<times> 'c) list \<Rightarrow> (prolly_key \<times> 'c) list
       \<Rightarrow> (prolly_key \<times> 'c) list
       \<Rightarrow> (('c, 'b) store, 'c error, (prolly_key \<times> 'c) list \<times> (prolly_key \<times> 'c) list) prog" where
  "leaf_loop E chunker cur out [] = sret (cur, out)"
| "leaf_loop E chunker cur out ((k, v) # es) =
     (let chunker = push_key chunker k; cur = cur @ [(k, v)] in
      if should_split_at E chunker (length cur) then
        sbind (emit_leaf E cur out) (\<lambda>out. leaf_loop E (chunker_reset chunker) [] out es)
      else leaf_loop E chunker cur out es)"

definition build_leaf_level ::
    "('c, 'h, 'b) external \<Rightarrow> (prolly_key \<times> 'c) list
       \<Rightarrow> (('c, 'b) store, 'c error, (prolly_key \<times> 'c) list) prog" where
  "build_leaf_level E es =
     sbind (leaf_loop E chunker_new [] [] es) (\<lambda>(cur, out).
     sbind (if cur \<noteq> [] then emit_leaf E cur out else sret out) (\<lambda>out.
     if out = [] then
       sbind (put_object E (ser_tree (Leaf (leaf_new [])))) (\<lambda>cid. sret (out @ [(0, cid)]))
     else sret out))"

definition emit_internal ::
    "('c, 'h, 'b) external \<Rightarrow> prolly_key list \<Rightarrow> 'c list \<Rightarrow> prolly_key option \<Rightarrow> (prolly_key \<times> 'c) list
       \<Rightarrow> (('c, 'b) store, 'c error, (prolly_key \<times> 'c) list) prog" where
  "emit_internal E cur_boundaries cur_children cur_first out =
     sbind (put_object E (ser_tree (Internal (internal_new cur_boundaries cur_children)))) (\<lambda>cid.
     case cur_first of
       None \<Rightarrow> slift (Inl Panic)
     | Some k \<Rightarrow> sret (out @ [(k, cid)]))"

fun internal_loop ::
    "('c, 'h, 'b) external \<Rightarrow> chunker \<Rightarrow> (prolly_key \<times> 'c) list \<Rightarrow> 'c list \<Rightarrow> prolly_key list
       \<Rightarrow> prolly_key option \<Rightarrow> (prolly_key \<times> 'c) list
       \<Rightarrow> (('c, 'b) store, 'c error,
            (prolly_key \<times> 'c) list \<times> 'c list \<times> prolly_key list \<times> prolly_key option) prog" where
  "internal_loop E chunker out cur_children cur_boundaries cur_first [] =
     sret (out, cur_children, cur_boundaries, cur_first)"
| "internal_loop E chunker out cur_children cur_boundaries cur_first ((first_key, child_cid) # rest) =
     (let chunker = push_key chunker first_key;
          (cur_first, cur_boundaries) =
            (if cur_first = None then (Some first_key, cur_boundaries)
             else (cur_first, cur_boundaries @ [first_key]));
          cur_children = cur_children @ [child_cid] in
      if should_split_at E chunker (length cur_children) then
        sbind (emit_internal E cur_boundaries cur_children cur_first out) (\<lambda>out.
          internal_loop E (chunker_reset chunker) out [] [] None rest)
      else internal_loop E chunker out cur_children cur_boundaries cur_first rest)"

definition build_internal_level ::
    "('c, 'h, 'b) external \<Rightarrow> (prolly_key \<times> 'c) list
       \<Rightarrow> (('c, 'b) store, 'c error, (prolly_key \<times> 'c) list) prog" where
  "build_internal_level E children =
     sbind (internal_loop E chunker_new [] [] [] None children)
       (\<lambda>(out, cur_children, cur_boundaries, cur_first).
          if cur_children \<noteq> [] then emit_internal E cur_boundaries cur_children cur_first out
          else sret out)"

section \<open>The loops emit the chunks of \<open>groups\<close>\<close>

definition emit_internal_group ::
    "('c, 'h, 'b) external \<Rightarrow> (prolly_key \<times> 'c) list \<Rightarrow> (prolly_key \<times> 'c) list
       \<Rightarrow> (('c, 'b) store, 'c error, (prolly_key \<times> 'c) list) prog" where
  "emit_internal_group E g out =
     emit_internal E (map fst (tl g)) (map snd g) (case g of [] \<Rightarrow> None | e # _ \<Rightarrow> Some (fst e)) out"

lemma emit_internal_group_Cons:
  "emit_internal_group E (e # g) out = emit_internal E (map fst g) (snd e # map snd g) (Some (fst e)) out"
  by (simp add: emit_internal_group_def)

lemma leaf_loop_groups:
  "sbind (leaf_loop E c cur out es) (\<lambda>(cur, out). if cur \<noteq> [] then emit_leaf E cur out else sret out)
     = sfold (emit_leaf E) (groups E fst c cur es) out"
proof (induction E c cur out es rule: leaf_loop.induct)
  case (1 E c cur out)
  show ?case by (simp add: groups_Nil)
next
  case (2 E c cur out k v es)
  show ?case
  proof (cases "should_split_at E (push_key c k) (length (cur @ [(k, v)]))")
    case True
    then show ?thesis
      using 2(1) [OF refl refl] by (simp add: groups_Cons Let_def sbind_assoc)
  next
    case False
    then show ?thesis
      using 2(2) [OF refl refl] by (simp add: groups_Cons Let_def)
  qed
qed

lemma internal_loop_groups:
  "sbind (internal_loop E c out (map snd cur) (map fst (tl cur)) (case cur of [] \<Rightarrow> None | e # _ \<Rightarrow> Some (fst e)) es)
     (\<lambda>(out, cs, bs, f). if cs \<noteq> [] then emit_internal E bs cs f out else sret out)
     = sfold (emit_internal_group E) (groups E fst c cur es) out"
proof (induction es arbitrary: c cur out)
  case Nil
  show ?case by (cases cur) (simp_all add: groups_Nil emit_internal_group_Cons)
next
  case (Cons e es)
  obtain k v where e: "e = (k, v)" by (cases e)
  have acc: "(case cur @ [e] of [] \<Rightarrow> None | e # _ \<Rightarrow> Some (fst e))
      = (case cur of [] \<Rightarrow> Some k | e # _ \<Rightarrow> Some (fst e))"
    "map fst (tl (cur @ [e])) = (case cur of [] \<Rightarrow> [] | _ \<Rightarrow> map fst (tl cur) @ [k])"
    by (simp_all add: e split: list.split)
  show ?case
  proof (cases "should_split_at E (push_key c k) (Suc (length cur))")
    case True
    have "sbind (internal_loop E chunker_new out' [] [] None es)
        (\<lambda>(out, cs, bs, f). if cs \<noteq> [] then emit_internal E bs cs f out else sret out)
        = sfold (emit_internal_group E) (groups E fst chunker_new [] es) out'" for out'
      using Cons.IH [of chunker_new out' "[]"] by simp
    with True show ?thesis
      by (cases cur) (simp_all add: e groups_Cons Let_def sbind_assoc emit_internal_group_Cons)
  next
    case False
    then show ?thesis
      using Cons.IH [of "push_key c k" out "cur @ [e]"]
      by (cases cur) (simp_all add: e groups_Cons Let_def)
  qed
qed

lemma build_internal_level_groups:
  "build_internal_level E cs = sfold (emit_internal_group E) (groups E fst chunker_new [] cs) []"
  using internal_loop_groups [of E chunker_new "[]" "[]" cs] by (simp add: build_internal_level_def)

lemma build_leaf_level_groups:
  "build_leaf_level E es =
     sbind (sfold (emit_leaf E) (groups E fst chunker_new [] es) []) (\<lambda>out.
     if out = [] then
       sbind (put_object E (ser_tree (Leaf (leaf_new [])))) (\<lambda>cid. sret (out @ [(0, cid)]))
     else sret out)"
  unfolding leaf_loop_groups [symmetric] build_leaf_level_def sbind_assoc
  by (simp add: case_prod_unfold)

text \<open>Both emitters write one chunk and append its first key and CID.\<close>

definition emits ::
    "('c, 'h, 'b) external \<Rightarrow> ('g \<Rightarrow> (prolly_key \<times> 'c) list \<Rightarrow> (('c, 'b) store, 'c error, (prolly_key \<times> 'c) list) prog)
       \<Rightarrow> ('g \<Rightarrow> prolly_key) \<Rightarrow> ('g \<Rightarrow> 'c tree_chunk) \<Rightarrow> 'g \<Rightarrow> bool" where
  "emits E em key ch g \<longleftrightarrow>
     chunk_ok (ch g) \<and> plain_value (ser_tree (ch g)) \<and>
     (\<forall>out. em g out = sbind (put_object E (ser_tree (ch g))) (\<lambda>cid. sret (out @ [(key g, cid)])))"

lemma emits_leaf: "g \<noteq> [] \<Longrightarrow> emits E (emit_leaf E) (\<lambda>g. fst (hd g)) (\<lambda>g. Leaf (leaf_new g)) g"
  by (cases g)
     (auto simp: emits_def emit_leaf_def leaf_new_def extra_ok_def list_all_iff simp del: ser_tree.simps
       intro!: plain_ser_tree)

lemma emits_internal:
  "g \<noteq> [] \<Longrightarrow>
   emits E (emit_internal_group E) (\<lambda>g. fst (hd g)) (\<lambda>g. Internal (internal_new (map fst (tl g)) (map snd g))) g"
  by (cases g)
     (auto simp: emits_def emit_internal_group_def emit_internal_def internal_new_def extra_ok_def list_all_iff
       simp del: ser_tree.simps intro!: plain_ser_tree)

lemma sfold_emits_length:
  assumes "\<And>g. g \<in> set gs \<Longrightarrow> emits E em key ch g" and "sfold em gs out s = (Inr out', t)"
  shows "length out' = length out + length gs"
  using assms
proof (induction gs arbitrary: out s)
  case Nil
  then show ?case by (simp add: monad_simps)
next
  case (Cons g gs)
  then obtain cid s' where "sfold em gs (out @ [(key g, cid)]) s' = (Inr out', t)"
    by (auto simp: monad_simps emits_def)
  from Cons.IH [OF _ this] Cons.prems(1) show ?case by simp
qed

lemma build_internal_level_length:
  assumes "build_internal_level E cs s = (Inr cs', t)"
  shows "length cs' = length (groups E fst chunker_new [] cs)"
proof -
  have "sfold (emit_internal_group E) (groups E fst chunker_new [] cs) [] s = (Inr cs', t)"
    using assms by (simp only: build_internal_level_groups)
  from sfold_emits_length [OF emits_internal [OF groups_nonempty] this] show ?thesis by simp
qed

section \<open>Levels\<close>

function build_up ::
    "('c, 'h, 'b) external \<Rightarrow> (prolly_key \<times> 'c) list
       \<Rightarrow> (('c, 'b) store, 'c error, (prolly_key \<times> 'c) list) prog" where
  "build_up E current s =
     (if 1 < length current
      then sbind (build_internal_level E current) (\<lambda>next t. build_up E next t) s
      else sret current s)"
  by pat_completeness auto
termination
proof (relation "measure (\<lambda>(E, current, s). length current)", goal_cases)
  case (2 E current s x t)
  then show ?case
    using build_internal_level_length [of E current s x t] length_groups_less [of current E fst chunker_new]
    by simp
qed simp

declare build_up.simps [simp del]

definition build_tree ::
    "('c, 'h, 'b) external \<Rightarrow> (prolly_key \<times> 'c) list \<Rightarrow> (('c, 'b) store, 'c error, 'c) prog" where
  "build_tree E es =
     sbind (build_leaf_level E es) (\<lambda>level_zero.
     sbind (build_up E level_zero) (\<lambda>current.
     case current of [] \<Rightarrow> slift (Inl Panic) | e # _ \<Rightarrow> sret (snd e)))"

section \<open>Specification: the tree of a list of entries\<close>

definition first_key :: "'c ptree \<Rightarrow> prolly_key" where
  "first_key t = (case entries t of [] \<Rightarrow> 0 | e # _ \<Rightarrow> fst e)"

definition ptree_node :: "'c ptree list \<Rightarrow> 'c ptree" where
  "ptree_node ts = PNode (map first_key (tl ts)) ts"

definition leaf_trees :: "('c, 'h, 'b) external \<Rightarrow> (prolly_key \<times> 'c) list \<Rightarrow> 'c ptree list" where
  "leaf_trees E es = (if es = [] then [PLeaf []] else map PLeaf (groups E fst chunker_new [] es))"

function up_trees :: "('c, 'h, 'b) external \<Rightarrow> 'c ptree list \<Rightarrow> 'c ptree list" where
  "up_trees E ts =
     (if 1 < length ts then up_trees E (map ptree_node (groups E first_key chunker_new [] ts)) else ts)"
  by pat_completeness auto
termination
  by (relation "measure (\<lambda>(E, ts). length ts)") (simp_all add: length_groups_less)

declare up_trees.simps [simp del]

definition ptree_of :: "('c, 'h, 'b) external \<Rightarrow> (prolly_key \<times> 'c) list \<Rightarrow> 'c ptree" where
  "ptree_of E es = hd (up_trees E (leaf_trees E es))"

lemma groups_not_Nil: "xs \<noteq> [] \<Longrightarrow> groups E key c [] xs \<noteq> []"
  using concat_groups [of E key c "[]" xs] by auto

lemma concat_entries_groups:
  "concat (map entries (map ptree_node (groups E key c [] ts))) = concat (map entries ts)"
proof -
  have a: "map entries (map ptree_node gs) = map (\<lambda>g. concat (map entries g)) gs" for gs :: "'a ptree list list"
    by (simp add: ptree_node_def)
  have b: "concat (map (\<lambda>g. concat (map entries g)) gs) = concat (map entries (concat gs))"
    for gs :: "'a ptree list list"
    by (induction gs) simp_all
  show ?thesis by (simp only: a b concat_groups append_Nil)
qed

lemma up_trees_single:
  assumes "ts \<noteq> []"
  shows "\<exists>t. up_trees E ts = [t] \<and> entries t = concat (map entries ts)"
  using assms
proof (induction E ts rule: up_trees.induct)
  case (1 E ts)
  show ?case
  proof (cases "1 < length ts")
    case True
    let ?us = "map ptree_node (groups E first_key chunker_new [] ts)"
    have "?us \<noteq> []" using 1(2) by (simp add: groups_not_Nil)
    from 1(1) [OF True this] True show ?thesis
      by (simp add: up_trees.simps [of E ts] concat_entries_groups del: map_map)
  next
    case False
    with 1(2) obtain t where "ts = [t]" by (cases ts) auto
    then show ?thesis by (simp add: up_trees.simps [of E "[t]"])
  qed
qed

lemma leaf_trees_entries: "concat (map entries (leaf_trees E es)) = es"
proof -
  have "map entries (map PLeaf gs) = gs" for gs :: "(prolly_key \<times> 'a) list list"
    by (induction gs) simp_all
  then have "concat (map entries (map PLeaf (groups E fst chunker_new [] es))) = es"
    by (simp only: concat_groups append_Nil)
  then show ?thesis by (simp add: leaf_trees_def)
qed

lemma leaf_trees_not_Nil: "leaf_trees E es \<noteq> []"
  by (simp add: leaf_trees_def groups_not_Nil)

lemma entries_ptree_of: "entries (ptree_of E es) = es"
  using up_trees_single [OF leaf_trees_not_Nil, of E E es] by (auto simp: ptree_of_def leaf_trees_entries)

section \<open>The specification's trees are well-formed\<close>

lemma first_key_hd: "entries t \<noteq> [] \<Longrightarrow> first_key t \<in> fst ` set (entries t)"
  by (cases "entries t") (auto simp: first_key_def)

lemma first_key_le:
  assumes "strict_keys (entries t)" and "k \<in> fst ` set (entries t)"
  shows "first_key t \<le> k"
  using assms by (cases "entries t") (auto simp: first_key_def strict_keys_def)

lemma strict_concat_nth:
  assumes "strict_keys (concat xss)" and "i < j" and "j < length xss"
    and "x \<in> fst ` set (xss ! i)" and "y \<in> fst ` set (xss ! j)"
  shows "x < y"
proof -
  have "xss = take j xss @ xss ! j # drop (Suc j) xss" using assms(3) by (rule id_take_nth_drop)
  then have "strict_keys (concat (take j xss) @ xss ! j @ concat (drop (Suc j) xss))"
    using assms(1) by (metis concat.simps(2) concat_append)
  then have "\<forall>x \<in> fst ` set (concat (take j xss)). \<forall>y \<in> fst ` set (xss ! j). x < y"
    unfolding strict_keys_append [of "concat (take j xss)"] by (metis image_Un set_append UnI1)
  moreover have "x \<in> fst ` set (concat (take j xss))"
  proof -
    have "xss ! i = take j xss ! i" using assms(2) by simp
    moreover have "i < length (take j xss)" using assms(2,3) by simp
    ultimately have "xss ! i \<in> set (take j xss)" by (metis nth_mem)
    then show ?thesis using assms(4) by auto
  qed
  ultimately show ?thesis using assms(5) by blast
qed

lemma strict_concat_mem: "strict_keys (concat xss) \<Longrightarrow> xs \<in> set xss \<Longrightarrow> strict_keys xs"
  by (induction xss) (auto simp: strict_keys_append)

lemma well_formed_node:
  assumes strict: "strict_keys (concat (map entries ts))" and ne: "\<forall>t \<in> set ts. entries t \<noteq> []"
    and wf: "\<forall>t \<in> set ts. well_formed t" and "ts \<noteq> []"
  shows "well_formed (ptree_node ts)"
proof -
  from assms(4) obtain t0 us where ts: "ts = t0 # us" by (cases ts) auto
  let ?ks = "map first_key us"
  have fk: "first_key (ts ! j) \<in> fst ` set (entries (ts ! j))" if "j < length ts" for j
    using that ne by (simp add: first_key_hd)
  have less: "x < y" if "i < j" "j < length ts" "x \<in> fst ` set (entries (ts ! i))"
    "y \<in> fst ` set (entries (ts ! j))" for i j x y
    using strict_concat_nth [OF strict that(1), of x y] that by simp
  have s: "sorted_wrt (<) ?ks"
    unfolding sorted_wrt_iff_nth_less
  proof (intro allI impI)
    fix i j assume "i < j" "j < length ?ks"
    then show "?ks ! i < ?ks ! j"
      using less [of "Suc i" "Suc j", OF _ _ fk fk] by (simp add: ts)
  qed
  have b: "\<forall>i < length ts. \<forall>k \<in> fst ` set (entries (ts ! i)).
      (\<forall>j < i. ?ks ! j \<le> k) \<and> (\<forall>j. i \<le> j \<and> j < length ?ks \<longrightarrow> k < ?ks ! j)"
  proof (intro allI impI ballI conjI)
    fix i k j assume i: "i < length ts" and k: "k \<in> fst ` set (entries (ts ! i))" and j: "j < i"
    have "first_key (ts ! Suc j) \<le> k"
    proof (cases "Suc j = i")
      case True
      have "strict_keys (entries (ts ! i))"
        using strict_concat_mem [OF strict] i by simp
      then show ?thesis using k True by (simp add: first_key_le)
    next
      case False
      then have "Suc j < i" using j by simp
      then have "first_key (ts ! Suc j) < k" using i by (intro less [OF _ i fk k]) simp_all
      then show ?thesis by simp
    qed
    then show "?ks ! j \<le> k" using i j by (simp add: ts)
  next
    fix i k j assume i: "i < length ts" and k: "k \<in> fst ` set (entries (ts ! i))"
      and j: "i \<le> j \<and> j < length ?ks"
    from j have "Suc j < length ts" by (simp add: ts)
    then have "k < first_key (ts ! Suc j)" using j by (intro less [OF _ _ k fk]) simp_all
    then show "k < ?ks ! j" using j by (simp add: ts)
  qed
  have "well_formed (PNode ?ks ts)"
    by (subst well_formed.simps, intro conjI) (simp add: ts, rule s, rule wf, rule b)
  then show ?thesis by (simp only: ptree_node_def ts list.sel)
qed

definition level_ok :: "'c ptree list \<Rightarrow> bool" where
  "level_ok ts \<longleftrightarrow> ts \<noteq> [] \<and> strict_keys (concat (map entries ts)) \<and> (\<forall>t \<in> set ts. well_formed t) \<and>
     (1 < length ts \<longrightarrow> (\<forall>t \<in> set ts. entries t \<noteq> []))"

lemma level_ok_leaf_trees:
  assumes "strict_keys es"
  shows "level_ok (leaf_trees E es)"
proof -
  have "strict_keys g" if "g \<in> set (groups E fst chunker_new [] es)" for g
    using strict_concat_mem [of "groups E fst chunker_new [] es"] that assms by (simp add: concat_groups)
  then show ?thesis
    using assms leaf_trees_not_Nil [of E es] leaf_trees_entries [of E es]
    by (auto simp: level_ok_def leaf_trees_def groups_nonempty)
qed

lemma level_ok_step:
  assumes "level_ok ts" and "1 < length ts"
  shows "level_ok (map ptree_node (groups E first_key chunker_new [] ts))"
proof -
  let ?gs = "groups E first_key chunker_new [] ts"
  have cat: "concat ?gs = ts" by (simp add: concat_groups)
  have mem: "t \<in> set ts" if "g \<in> set ?gs" "t \<in> set g" for g t
    using that cat by (metis UN_I set_concat)
  have gs: "well_formed (ptree_node g) \<and> entries (ptree_node g) \<noteq> []" if g: "g \<in> set ?gs" for g
  proof -
    have "g \<noteq> []" using g by (rule groups_nonempty)
    moreover have "strict_keys (concat (map entries g))"
    proof -
      have "strict_keys (concat (map (\<lambda>g. concat (map entries g)) ?gs))"
        using assms(1) concat_entries_groups [of E first_key chunker_new ts]
        by (simp add: level_ok_def ptree_node_def comp_def)
      then show ?thesis by (rule strict_concat_mem) (use g in auto)
    qed
    moreover have ne: "\<forall>t \<in> set g. entries t \<noteq> []"
      using assms mem [OF g] by (auto simp: level_ok_def)
    ultimately have "well_formed (ptree_node g)"
      using assms(1) mem [OF g] by (intro well_formed_node) (auto simp: level_ok_def)
    moreover have "entries (ptree_node g) \<noteq> []"
      using ne \<open>g \<noteq> []\<close> by (cases g) (simp_all add: ptree_node_def)
    ultimately show ?thesis ..
  qed
  show ?thesis
    unfolding level_ok_def concat_entries_groups
    using assms gs by (auto simp: level_ok_def groups_not_Nil)
qed

lemma well_formed_up_trees: "level_ok ts \<Longrightarrow> level_ok (up_trees E ts)"
proof (induction E ts rule: up_trees.induct)
  case (1 E ts)
  then show ?case
    using level_ok_step [of ts E] by (cases "1 < length ts") (simp_all add: up_trees.simps [of E ts])
qed

lemma well_formed_ptree_of: "strict_keys es \<Longrightarrow> well_formed (ptree_of E es)"
proof -
  assume "strict_keys es"
  then have "level_ok (up_trees E (leaf_trees E es))"
    by (intro well_formed_up_trees level_ok_leaf_trees)
  then show ?thesis unfolding level_ok_def ptree_of_def by (metis list.set_sel(1))
qed

section \<open>The store after the build\<close>

text \<open>A written level is a list of first keys and CIDs, each standing for its tree.\<close>

definition written ::
    "('c, 'h, 'b) external \<Rightarrow> ('c, 'b) store \<Rightarrow> (prolly_key \<times> 'c) list \<Rightarrow> 'c ptree list \<Rightarrow> bool" where
  "written E bs cs ts \<longleftrightarrow> list_all2 (\<lambda>(k, c) t. k = first_key t \<and> represents E bs c t) cs ts"

lemma written_mono:
  assumes "written E s cs ts" and "grows E s t" and "trusted E s"
  shows "written E t cs ts"
  using assms(1) unfolding written_def
  by (rule list_all2_mono) (auto intro: represents_mono [OF _ assms(2,3)])

lemma put_chunk_load:
  assumes "put_object E (ser_tree ch) s = (Inr c, t)" and "chunk_ok ch" and "codec_roundtrip E"
  shows "load_tree_chunk E t c = Inr ch"
  unfolding load_tree_chunk_decode
  by (rule decode_put_object [where de = de_tree, OF assms(1,3) de_ser_tree [OF assms(2)]])

lemma put_object_grows_step:
  assumes "put_object E v s = (r, t)" and "collision_free E"
  shows "grows E s t"
  using preservesD [OF put_object_grows [OF assms(2)] assms(1)] .

lemma sfold_emits:
  assumes "\<And>g. g \<in> set gs \<Longrightarrow> emits E em key ch g"
    and "sfold em gs out s = (Inr out', t)"
    and "collision_free E" and "codec_roundtrip E" and "trusted E s"
  shows "grows E s t \<and>
    (\<exists>cs. out' = out @ zip (map key gs) cs \<and> list_all2 (\<lambda>g c. load_tree_chunk E t c = Inr (ch g)) gs cs)"
  using assms(1,2,5)
proof (induction gs arbitrary: out s)
  case Nil
  then show ?case by (auto simp: monad_simps)
next
  case (Cons g gs)
  have em: "em g out = sbind (put_object E (ser_tree (ch g))) (\<lambda>cid. sret (out @ [(key g, cid)]))"
    and ok: "chunk_ok (ch g)" using Cons.prems(1) [of g] by (simp_all add: emits_def)
  from Cons.prems(2) obtain c s' where
    put: "put_object E (ser_tree (ch g)) s = (Inr c, s')"
    and rest: "sfold em gs (out @ [(key g, c)]) s' = (Inr out', t)"
    by (auto simp: monad_simps em)
  have g1: "grows E s s'" using put assms(3) by (rule put_object_grows_step)
  then have tr: "trusted E s'" using Cons.prems(3) by (rule grows_trusted)
  from Cons.IH [OF _ rest tr] Cons.prems(1) obtain cs where
    g2: "grows E s' t" and out': "out' = (out @ [(key g, c)]) @ zip (map key gs) cs"
    and l2: "list_all2 (\<lambda>g c. load_tree_chunk E t c = Inr (ch g)) gs cs" by auto
  have "load_tree_chunk E t c = Inr (ch g)"
    using put_chunk_load [OF put ok assms(4)] g2 tr by (rule load_tree_chunk_mono)
  with out' l2 grows_trans [OF g1 g2] show ?case
    by (intro conjI exI [of _ "c # cs"]) simp_all
qed

lemma written_leaves:
  assumes "sfold (emit_leaf E) gs [] s = (Inr out, t)" and "\<forall>g \<in> set gs. g \<noteq> []"
    and "collision_free E" and "codec_roundtrip E" and "trusted E s"
  shows "grows E s t \<and> written E t out (map PLeaf gs)"
proof -
  from sfold_emits [OF emits_leaf assms(1,3-5)] assms(2) obtain cs where
    g: "grows E s t" and out: "out = zip (map (\<lambda>g. fst (hd g)) gs) cs"
    and l2: "list_all2 (\<lambda>g c. load_tree_chunk E t c = Inr (Leaf (leaf_new g))) gs cs" by auto
  from l2 assms(2) have "written E t (zip (map (\<lambda>g. fst (hd g)) gs) cs) (map PLeaf gs)"
  proof (induction gs cs rule: list_all2_induct)
    case Nil
    show ?case by (simp add: written_def)
  next
    case (Cons g gs c cs)
    have "first_key (PLeaf g) = fst (hd g)"
      using Cons.prems by (cases g) (simp_all add: first_key_def)
    moreover have "represents E t c (PLeaf g)"
      using Cons.hyps(1) by (simp add: represents_Leaf leaf_new_def)
    ultimately show ?case using Cons.IH Cons.prems by (simp add: written_def)
  qed
  with g out show ?thesis by simp
qed

lemma written_internals:
  assumes "sfold (emit_internal_group E) gs [] s = (Inr out, t)" and "\<forall>g \<in> set gs. g \<noteq> []"
    and "list_all2 (written E s) gs tss" and "\<forall>ts \<in> set tss. \<forall>u \<in> set ts. entries u \<noteq> []"
    and "collision_free E" and "codec_roundtrip E" and "trusted E s"
  shows "grows E s t \<and> written E t out (map ptree_node tss)"
proof -
  from sfold_emits [OF emits_internal assms(1,5-7)] assms(2) obtain cs where
    gr: "grows E s t" and out: "out = zip (map (\<lambda>g. fst (hd g)) gs) cs"
    and l2: "list_all2 (\<lambda>g c. load_tree_chunk E t c = Inr (Internal (internal_new (map fst (tl g)) (map snd g)))) gs cs"
    by auto
  from l2 assms(2-4) have "written E t (zip (map (\<lambda>g. fst (hd g)) gs) cs) (map ptree_node tss)"
  proof (induction gs cs arbitrary: tss rule: list_all2_induct)
    case Nil
    then show ?case by (simp add: written_def)
  next
    case (Cons g gs c cs)
    then obtain ts uss where tss: "tss = ts # uss" and w: "written E s g ts"
      and ws: "list_all2 (written E s) gs uss" by (auto simp: list_all2_Cons1)
    have wt: "written E t g ts" using w gr assms(7) by (rule written_mono)
    have keys: "map fst g = map first_key ts"
      using w unfolding written_def by (induction rule: list_all2_induct) auto
    have reps: "list_all2 (represents E t) (map snd g) ts"
      using wt unfolding written_def by (induction rule: list_all2_induct) auto
    have ne: "ts \<noteq> []" "g \<noteq> []" using Cons.prems w by (auto simp: written_def)
    then have ptree: "ptree_node ts = PNode (map fst (tl g)) ts"
      using keys by (cases g; cases ts) (simp_all add: ptree_node_def)
    have "represents E t c (ptree_node ts)"
      unfolding ptree represents_Internal [OF Cons.hyps(1)] using reps by (simp add: internal_new_def)
    moreover have "first_key (ptree_node ts) = fst (hd g)"
      using ne keys Cons.prems(3) tss
      by (cases g; cases ts; cases "entries (hd ts)") (simp_all add: first_key_def ptree_node_def)
    ultimately show ?case
      using Cons.IH [OF _ ws] Cons.prems(1,3) tss by (simp add: written_def)
  qed
  with gr out show ?thesis by simp
qed

lemma groups_rel:
  assumes "list_all2 R xs ys" and "list_all2 R cur cur'" and "\<And>x y. R x y \<Longrightarrow> key x = key' y"
  shows "list_all2 (list_all2 R) (groups E key c cur xs) (groups E key' c cur' ys)"
  using assms(1,2)
proof (induction xs ys arbitrary: c cur cur' rule: list_all2_induct)
  case Nil
  then show ?case by (auto simp: groups_Nil)
next
  case (Cons x xs y ys)
  have cur: "list_all2 R (cur @ [x]) (cur' @ [y])"
    using Cons.prems Cons.hyps(1) by (intro list_all2_appendI) simp_all
  then have "length cur = length cur'" by (auto dest: list_all2_lengthD)
  then show ?case
    using Cons.IH [OF cur] Cons.IH [of "[]" "[]"] cur assms(3) [OF Cons.hyps(1)]
    by (simp add: groups_Cons Let_def)
qed

lemma written_leaf_level:
  assumes "build_leaf_level E es s = (Inr out, t)"
    and "collision_free E" and "codec_roundtrip E" and "trusted E s"
  shows "grows E s t \<and> written E t out (leaf_trees E es)"
proof -
  from assms(1) obtain out1 s1 where
    f: "sfold (emit_leaf E) (groups E fst chunker_new [] es) [] s = (Inr out1, s1)"
    and r: "(if out1 = [] then
       sbind (put_object E (ser_tree (Leaf (leaf_new [])))) (\<lambda>cid. sret (out1 @ [(0, cid)]))
       else sret out1) s1 = (Inr out, t)"
    unfolding build_leaf_level_groups by (auto simp: monad_simps)
  from written_leaves [OF f _ assms(2-4)] have
    g: "grows E s s1" and w: "written E s1 out1 (map PLeaf (groups E fst chunker_new [] es))"
    by (auto simp: groups_nonempty)
  show ?thesis
  proof (cases "es = []")
    case True
    with w have "out1 = []" by (simp add: groups_Nil written_def)
    with r obtain c where put: "put_object E (ser_tree (Leaf (leaf_new []))) s1 = (Inr c, t)"
      and out: "out = [(0, c)]" by (auto simp: monad_simps)
    have "load_tree_chunk E t c = Inr (Leaf (leaf_new []))"
      using put_chunk_load [OF put _ assms(3)] by (simp add: leaf_new_def extra_ok_def list_all_iff)
    then have "written E t out (leaf_trees E es)"
      using True out by (simp add: written_def leaf_trees_def represents_Leaf leaf_new_def first_key_def)
    with grows_trans [OF g put_object_grows_step [OF put assms(2)]] show ?thesis by simp
  next
    case False
    with w have "out1 \<noteq> []" by (auto simp: written_def groups_not_Nil)
    with r w g False show ?thesis by (simp add: monad_simps leaf_trees_def)
  qed
qed

lemma written_step:
  assumes "build_internal_level E cs s = (Inr cs', t)" and "written E s cs ts"
    and "level_ok ts" and "1 < length ts"
    and "collision_free E" and "codec_roundtrip E" and "trusted E s"
  shows "grows E s t \<and> written E t cs' (map ptree_node (groups E first_key chunker_new [] ts))"
proof (rule written_internals [OF _ _ _ _ assms(5-7)])
  show "sfold (emit_internal_group E) (groups E fst chunker_new [] cs) [] s = (Inr cs', t)"
    using assms(1) by (simp only: build_internal_level_groups)
  show "list_all2 (written E s) (groups E fst chunker_new [] cs) (groups E first_key chunker_new [] ts)"
    using assms(2) unfolding written_def by (rule groups_rel) auto
  show "\<forall>us \<in> set (groups E first_key chunker_new [] ts). \<forall>u \<in> set us. entries u \<noteq> []"
    using assms(3,4) concat_groups [of E first_key chunker_new "[]" ts]
    unfolding level_ok_def by (metis UN_I append_Nil set_concat)
qed (simp add: groups_nonempty)

lemma written_up:
  assumes "build_up E cs s = (Inr cs', t)" and "written E s cs ts" and "level_ok ts"
    and "collision_free E" and "codec_roundtrip E" and "trusted E s"
  shows "grows E s t \<and> written E t cs' (up_trees E ts)"
  using assms
proof (induction E cs s arbitrary: ts rule: build_up.induct)
  case (1 E cs s)
  have len: "length cs = length ts" using 1(3) by (auto simp: written_def dest: list_all2_lengthD)
  show ?case
  proof (cases "1 < length ts")
    case False
    with 1(2,3) len show ?thesis
      by (simp add: build_up.simps [of E cs s] up_trees.simps [of E ts] monad_simps)
  next
    case True
    with 1(2) len obtain next_level s1 where
      l: "build_internal_level E cs s = (Inr next_level, s1)" and r: "build_up E next_level s1 = (Inr cs', t)"
      by (auto simp: build_up.simps [of E cs s] monad_simps)
    from written_step [OF l 1(3,4) True 1(5-7)] have g: "grows E s s1"
      and w: "written E s1 next_level (map ptree_node (groups E first_key chunker_new [] ts))" by simp_all
    have "grows E s1 t \<and> written E t cs' (up_trees E (map ptree_node (groups E first_key chunker_new [] ts)))"
      using True len 1(4)
      by (intro 1(1) [OF _ l r w _ 1(5,6)]) (simp_all add: level_ok_step grows_trusted [OF g 1(7)])
    with g True show ?thesis by (auto simp: up_trees.simps [of E ts] intro: grows_trans)
  qed
qed

lemma build_tree_represents:
  assumes "build_tree E es s = (Inr root, t)" and "strict_keys es"
    and "collision_free E" and "codec_roundtrip E" and "trusted E s"
  shows "grows E s t \<and> represents E t root (ptree_of E es)"
proof -
  from assms(1) obtain l0 s0 cur where
    l0: "build_leaf_level E es s = (Inr l0, s0)" and up: "build_up E l0 s0 = (Inr cur, t)"
    and root: "\<exists>e cur'. cur = e # cur' \<and> root = snd e"
  proof -
    from assms(1) obtain l0 s0 cur s1 where r: "build_leaf_level E es s = (Inr l0, s0)"
      "build_up E l0 s0 = (Inr cur, s1)"
      and fin: "(case cur of [] \<Rightarrow> slift (Inl (Panic :: 'a error)) | e # _ \<Rightarrow> sret (snd e)) s1 = (Inr root, t)"
      unfolding build_tree_def sbind_Inr_iff by blast
    from fin have "s1 = t \<and> (\<exists>e cur'. cur = e # cur' \<and> root = snd e)"
      by (cases cur) (simp_all add: monad_simps)
    then show thesis using r by (intro that) blast+
  qed
  from written_leaf_level [OF l0 assms(3-5)] have g: "grows E s s0" and w: "written E s0 l0 (leaf_trees E es)"
    by simp_all
  from written_up [OF up w level_ok_leaf_trees [OF assms(2)] assms(3,4) grows_trusted [OF g assms(5)]]
  have g': "grows E s0 t" and "written E t cur (up_trees E (leaf_trees E es))" by simp_all
  moreover obtain u where "up_trees E (leaf_trees E es) = [u]"
    using up_trees_single [OF leaf_trees_not_Nil, of E E es] by auto
  ultimately show ?thesis
    using root grows_trans [OF g g'] by (fastforce simp: written_def ptree_of_def list_all2_Cons2)
qed

section \<open>The builder never fails, and its root depends on the entries only\<close>

lemma store_free_put_object: "store_free (put_object E v)"
  by (simp add: store_free_def put_object_run split: option.split)

lemma succeeds_put_object: "encodes_plain E \<Longrightarrow> plain_value v \<Longrightarrow> succeeds (put_object E v)"
  unfolding succeeds_def put_object_run encodes_plain_def by (auto split: option.split)

lemma emits_store_free: "emits E em key ch g \<Longrightarrow> store_free (em g out)"
  by (simp add: emits_def store_free_sbind store_free_put_object store_free_sret)

lemma emits_succeeds: "encodes_plain E \<Longrightarrow> emits E em key ch g \<Longrightarrow> succeeds (em g out)"
  by (simp add: emits_def succeeds_sbind succeeds_put_object succeeds_sret)

lemma emitters_store_free:
  "g \<noteq> [] \<Longrightarrow> store_free (emit_leaf E g out)" "g \<noteq> [] \<Longrightarrow> store_free (emit_internal_group E g out)"
  by (rule emits_store_free [OF emits_leaf], assumption)
     (rule emits_store_free [OF emits_internal], assumption)

lemma emitters_succeed:
  assumes "encodes_plain E" and "g \<noteq> []"
  shows "succeeds (emit_leaf E g out)" and "succeeds (emit_internal_group E g out)"
  using emits_succeeds [OF assms(1) emits_leaf [OF assms(2)]]
    emits_succeeds [OF assms(1) emits_internal [OF assms(2)]] by blast+

lemma build_level_store_free:
  "store_free (build_leaf_level E es)" "store_free (build_internal_level E cs)"
  unfolding build_leaf_level_groups build_internal_level_groups
  by (auto intro!: store_free_sbind store_free_sfold store_free_sret store_free_put_object
      emitters_store_free dest: groups_nonempty)

lemma build_level_succeeds:
  assumes "encodes_plain E"
  shows "succeeds (build_leaf_level E es)" and "succeeds (build_internal_level E cs)"
  unfolding build_leaf_level_groups build_internal_level_groups
  by (auto simp: leaf_new_def simp del: ser_tree.simps
      intro!: succeeds_sbind succeeds_sfold succeeds_sret succeeds_put_object [OF assms] plain_ser_tree
      emitters_succeed [OF assms] dest: groups_nonempty)

lemma build_up_succeeds: "encodes_plain E \<Longrightarrow> cs \<noteq> [] \<Longrightarrow> \<exists>e t. build_up E cs s = (Inr [e], t)"
proof (induction E cs s rule: build_up.induct)
  case (1 E cs s)
  show ?case
  proof (cases "1 < length cs")
    case True
    obtain cs' t where l: "build_internal_level E cs s = (Inr cs', t)"
      using build_level_succeeds(2) [OF 1(2)] unfolding succeeds_def by blast
    then have "cs' \<noteq> []"
      using build_internal_level_length [OF l] groups_not_Nil [OF 1(3), of E fst chunker_new] by auto
    from 1(1) [OF True l 1(2) this] l True show ?thesis
      by (simp add: build_up.simps [of E cs s] sbind_run)
  next
    case False
    with 1(3) show ?thesis by (cases cs) (simp_all add: build_up.simps monad_simps)
  qed
qed

lemma build_up_store_free: "build_up E cs s = (r, t) \<Longrightarrow> build_up E cs s' = (r', t') \<Longrightarrow> r = r'"
proof (induction E cs s arbitrary: s' rule: build_up.induct)
  case (1 E cs s)
  show ?case
  proof (cases "1 < length cs")
    case False
    with 1(2,3) show ?thesis by (simp add: build_up.simps monad_simps)
  next
    case True
    obtain q u where l: "build_internal_level E cs s = (q, u)" by fastforce
    obtain q' u' where l': "build_internal_level E cs s' = (q', u')" by fastforce
    have q: "q' = q" using build_level_store_free(2) l' l by (rule store_freeD)
    show ?thesis
    proof (cases q)
      case (Inl e)
      with 1(2,3) True l l' q show ?thesis
        by (auto simp: build_up.simps [of E cs] sbind_def)
    next
      case (Inr x)
      have "build_up E x u = (r, t)" "build_up E x u' = (r', t')"
        using 1(2,3) True l l' q Inr by (simp_all add: build_up.simps [of E cs] sbind_def)
      then show ?thesis using l Inr by (intro 1(1) [OF True]) simp_all
    qed
  qed
qed

lemma build_leaf_level_nonempty: "build_leaf_level E es s = (Inr out, t) \<Longrightarrow> out \<noteq> []"
  unfolding build_leaf_level_groups by (auto simp: monad_simps split: if_splits)

lemma build_tree_total:
  assumes "encodes_plain E"
  shows "\<exists>root t. build_tree E es s = (Inr root, t)"
proof -
  obtain l0 s0 where l0: "build_leaf_level E es s = (Inr l0, s0)"
    using build_level_succeeds(1) [OF assms] unfolding succeeds_def by blast
  obtain e t where "build_up E l0 s0 = (Inr [e], t)"
    using build_up_succeeds [OF assms build_leaf_level_nonempty [OF l0]] by blast
  with l0 show ?thesis by (simp add: build_tree_def sbind_run monad_simps)
qed

lemma build_tree_store_free: "store_free (build_tree E es)"
  unfolding build_tree_def
proof (rule store_free_sbind [OF build_level_store_free(1)], rule store_free_sbind)
  fix l0
  show "store_free (build_up E l0)"
    unfolding store_free_def
  proof (intro allI)
    fix s t
    show "fst (build_up E l0 s) = fst (build_up E l0 t)"
      by (rule build_up_store_free [of E l0 s _ "snd (build_up E l0 s)" t _ "snd (build_up E l0 t)"]) simp_all
  qed
qed (auto split: list.split intro: store_free_slift store_free_sret)

text \<open>Whatever the outcome, the store only grows.\<close>

lemma emits_grows: "collision_free E \<Longrightarrow> emits E em key ch g \<Longrightarrow> preserves (grows E) (em g out)"
  by (simp add: emits_def preserves_sbind put_object_grows preserves_sret reflp_grows transp_grows)

lemma build_level_grows:
  assumes "collision_free E"
  shows "preserves (grows E) (build_leaf_level E es)" and "preserves (grows E) (build_internal_level E cs)"
proof -
  have leaf: "preserves (grows E) (sfold (emit_leaf E) (groups E fst chunker_new [] es) [])"
    by (intro preserves_sfold reflp_grows transp_grows emits_grows [OF assms emits_leaf]) (rule groups_nonempty)
  show "preserves (grows E) (build_leaf_level E es)"
    unfolding build_leaf_level_groups using leaf
    by (simp add: preserves_sbind preserves_sret put_object_grows assms reflp_grows transp_grows)
  show "preserves (grows E) (build_internal_level E cs)"
    unfolding build_internal_level_groups
    by (intro preserves_sfold reflp_grows transp_grows emits_grows [OF assms emits_internal]) (rule groups_nonempty)
qed

lemma build_up_grows: "collision_free E \<Longrightarrow> build_up E cs s = (r, t) \<Longrightarrow> grows E s t"
proof (induction E cs s arbitrary: r t rule: build_up.induct)
  case (1 E cs s)
  show ?case
  proof (cases "1 < length cs")
    case False
    with 1(3) show ?thesis by (simp add: build_up.simps monad_simps)
  next
    case True
    obtain r' s' where l: "build_internal_level E cs s = (r', s')" by fastforce
    have g: "grows E s s'" using build_level_grows(2) [OF 1(2)] l by (rule preservesD)
    show ?thesis
    proof (cases r')
      case (Inl e)
      with l g True 1(3) show ?thesis by (simp add: build_up.simps [of E cs s] sbind_def)
    next
      case (Inr cs')
      with l True 1(3) have "build_up E cs' s' = (r, t)" by (simp add: build_up.simps [of E cs s] sbind_def)
      then have "grows E s' t" using 1(1) [OF True l [unfolded Inr] 1(2)] by blast
      with g show ?thesis by (rule grows_trans)
    qed
  qed
qed

lemma build_tree_grows: "collision_free E \<Longrightarrow> preserves (grows E) (build_tree E es)"
  unfolding build_tree_def
proof (intro preserves_sbind transp_grows build_level_grows(1), assumption)
  fix l0 assume "collision_free E"
  then show "preserves (grows E) (build_up E l0)"
    unfolding preserves_def by (metis build_up_grows prod.collapse)
next
  fix cur
  show "preserves (grows E) (case cur of [] \<Rightarrow> slift (Inl Panic) | e # _ \<Rightarrow> sret (snd e))"
    by (cases cur) (simp_all add: preserves_slift preserves_sret reflp_grows)
qed

lemma build_tree_canonical:
  assumes "build_tree E es s = (Inr r, t)" and "build_tree E es' s' = (Inr r', t')"
    and "strict_keys es" and "strict_keys es'"
    and "collision_free E" and "codec_roundtrip E" and "trusted E s"
  shows "r = r' \<longleftrightarrow> es = es'"
proof
  assume "es = es'"
  then show "r = r'"
    using store_freeD [OF build_tree_store_free assms(1), of s' "Inr r'" t'] assms(2) by simp
next
  assume r: "r = r'"
  obtain q u where b: "build_tree E es' t = (q, u)" by fastforce
  then have "q = Inr r'"
    using store_freeD [OF build_tree_store_free assms(2), of t q u] by simp
  with b have b: "build_tree E es' t = (Inr r', u)" by simp
  from build_tree_represents [OF assms(1,3,5-7)] have g: "grows E s t"
    and p: "represents E t r (ptree_of E es)" by simp_all
  have tr: "trusted E t" using g assms(7) by (rule grows_trusted)
  from build_tree_represents [OF b assms(4-6) tr] have g': "grows E t u"
    and q: "represents E u r' (ptree_of E es')" by simp_all
  have "ptree_of E es = ptree_of E es'"
    using represents_functional [OF represents_mono [OF p g' tr]] q r by simp
  then show "es = es'" using entries_ptree_of by metis
qed

end
