(* ===== verification/Prolly_Diff.thy ===== *)
theory Prolly_Diff imports Prolly_Read Prolly_Build begin

text \<open>
  \<open>crates/mnem-core/src/prolly/diff.rs\<close>: the structural difference of two trees.

  \<open>diff_at\<close> is the specification, the difference of two maps at one key. For entry lists the merge
  \<open>diff_sorted_entries\<close> computes exactly that, in key order (\<open>diff_list_exact\<close>). For trees:

  \<^item> every difference is reported, and every report is backed by the side it names, whatever the
    shapes of the two trees (\<open>diff_covers\<close>);
  \<^item> the output is exactly the difference in key order when the two trees have the same separators
    (\<open>aligned\<close>), as trees over the same keys have (\<open>aligned_ptree_of\<close>).

  Without the second premise the output can hold entries for keys that did not change, since
  \<open>diff_internals\<close> compares whole children that overlap in only a part of their key ranges.
\<close>

datatype 'c diff_entry =
    Added prolly_key 'c
  | Removed prolly_key 'c
  | Changed prolly_key 'c 'c

fun diff_key :: "'c diff_entry \<Rightarrow> prolly_key" where
  "diff_key (Added key value) = key"
| "diff_key (Removed key value) = key"
| "diff_key (Changed key before after) = key"

section \<open>The code\<close>

text \<open>The two indices are the heads of the lists that are left.\<close>

fun diff_sorted_entries ::
    "(prolly_key \<times> 'c) list \<Rightarrow> (prolly_key \<times> 'c) list \<Rightarrow> 'c diff_entry list \<Rightarrow> 'c diff_entry list" where
  "diff_sorted_entries ((k, v) # a) ((l, w) # b) out =
     (if k < l then diff_sorted_entries a ((l, w) # b) (out @ [Removed k v])
      else if l < k then diff_sorted_entries ((k, v) # a) b (out @ [Added l w])
      else diff_sorted_entries a b (if v \<noteq> w then out @ [Changed k v w] else out))"
| "diff_sorted_entries ((k, v) # a) [] out = diff_sorted_entries a [] (out @ [Removed k v])"
| "diff_sorted_entries [] ((l, w) # b) out = diff_sorted_entries [] b (out @ [Added l w])"
| "diff_sorted_entries [] [] out = out"

fun collect_entries_internal ::
    "('c, 'h, 'b) external \<Rightarrow> ('c, 'b) store \<Rightarrow> nat \<Rightarrow> 'c internal \<Rightarrow> (prolly_key \<times> 'c) list
       \<Rightarrow> 'c error + (prolly_key \<times> 'c) list" where
  "collect_entries_internal E bs 0 internal out = Inl Diverge"
| "collect_entries_internal E bs (Suc fuel) internal out =
     rfold (\<lambda>child_cid out.
       rbind (load_tree_chunk E bs child_cid) (\<lambda>chunk.
       case chunk of
         Leaf l \<Rightarrow> Inr (out @ lf_entries l)
       | Internal i \<Rightarrow> collect_entries_internal E bs fuel i out))
     (in_children internal) out"

definition child_index_for :: "prolly_key list \<Rightarrow> prolly_key option \<Rightarrow> nat" where
  "child_index_for boundaries lower =
     (case lower of None \<Rightarrow> 0 | Some k \<Rightarrow> partition_point (\<lambda>b. b \<le> k) boundaries)"

definition nth_or_panic :: "'a list \<Rightarrow> nat \<Rightarrow> 'c error + 'a" where
  "nth_or_panic xs i = (if i < length xs then Inr (xs ! i) else Inl Panic)"

text \<open>\<open>diff_children\<close> is the recursive call to \<open>diff_cids\<close>.\<close>

definition diff_internals ::
    "('c \<Rightarrow> 'c \<Rightarrow> 'c diff_entry list \<Rightarrow> 'c error + 'c diff_entry list)
       \<Rightarrow> 'c internal \<Rightarrow> 'c internal \<Rightarrow> 'c diff_entry list \<Rightarrow> 'c error + 'c diff_entry list" where
  "diff_internals diff_children ia ib out =
     (let all_keys = remdups_adj (sort (in_boundaries ia @ in_boundaries ib));
          n_ranges = length all_keys + 1 in
      rbind
        (rfold (\<lambda>range_idx (last_pair, out).
           let lower = (if range_idx = 0 then None else Some (all_keys ! (range_idx - 1)));
               a_idx = child_index_for (in_boundaries ia) lower;
               b_idx = child_index_for (in_boundaries ib) lower in
           if Some (a_idx, b_idx) = last_pair then Inr (last_pair, out)
           else
             rbind (nth_or_panic (in_children ia) a_idx) (\<lambda>ca.
             rbind (nth_or_panic (in_children ib) b_idx) (\<lambda>cb.
             rbind (diff_children ca cb out) (\<lambda>out.
             Inr (Some (a_idx, b_idx), out)))))
         [0..<n_ranges] (None, out))
        (\<lambda>(last_pair, out). Inr out))"

fun diff_cids ::
    "('c, 'h, 'b) external \<Rightarrow> ('c, 'b) store \<Rightarrow> nat \<Rightarrow> 'c \<Rightarrow> 'c \<Rightarrow> 'c diff_entry list
       \<Rightarrow> 'c error + 'c diff_entry list" where
  "diff_cids E bs 0 a b out = Inl Diverge"
| "diff_cids E bs (Suc fuel) a b out =
     (if a = b then Inr out
      else
        rbind (load_tree_chunk E bs a) (\<lambda>chunk_a.
        rbind (load_tree_chunk E bs b) (\<lambda>chunk_b.
        case (chunk_a, chunk_b) of
          (Leaf la, Leaf lb) \<Rightarrow> Inr (diff_sorted_entries (lf_entries la) (lf_entries lb) out)
        | (Internal ia, Internal ib) \<Rightarrow> diff_internals (diff_cids E bs fuel) ia ib out
        | (Leaf la, Internal ib) \<Rightarrow>
            rbind (collect_entries_internal E bs fuel ib []) (\<lambda>flat.
            Inr (diff_sorted_entries (lf_entries la) flat out))
        | (Internal ia, Leaf lb) \<Rightarrow>
            rbind (collect_entries_internal E bs fuel ia []) (\<lambda>flat.
            Inr (diff_sorted_entries flat (lf_entries lb) out)))))"

definition prolly_diff ::
    "('c, 'h, 'b) external \<Rightarrow> ('c, 'b) store \<Rightarrow> nat \<Rightarrow> 'c \<Rightarrow> 'c \<Rightarrow> 'c error + 'c diff_entry list" where
  "prolly_diff E bs fuel root_a root_b = diff_cids E bs fuel root_a root_b []"

section \<open>The difference of two lists\<close>

definition diff_at :: "(prolly_key \<rightharpoonup> 'c) \<Rightarrow> (prolly_key \<rightharpoonup> 'c) \<Rightarrow> prolly_key \<Rightarrow> 'c diff_entry option" where
  "diff_at m n k =
     (case (m k, n k) of
        (None, None) \<Rightarrow> None
      | (Some v, None) \<Rightarrow> Some (Removed k v)
      | (None, Some w) \<Rightarrow> Some (Added k w)
      | (Some v, Some w) \<Rightarrow> if v = w then None else Some (Changed k v w))"

definition diff_list :: "(prolly_key \<times> 'c) list \<Rightarrow> (prolly_key \<times> 'c) list \<Rightarrow> 'c diff_entry list" where
  "diff_list a b = diff_sorted_entries a b []"

lemma diff_sorted_prefix: "diff_sorted_entries a b (p @ out) = p @ diff_sorted_entries a b out"
proof (induction a b out rule: diff_sorted_entries.induct)
  case (1 k v a l w b out)
  then show ?case by (cases "k < l"; cases "l < k"; cases "v = w") simp_all
qed simp_all

lemma diff_sorted_out: "diff_sorted_entries a b out = out @ diff_list a b"
  using diff_sorted_prefix [of a b out "[]"] by (simp add: diff_list_def)

lemma diff_list_simps [simp]:
  "diff_list ((k, v) # a) ((l, w) # b) =
     (if k < l then Removed k v # diff_list a ((l, w) # b)
      else if l < k then Added l w # diff_list ((k, v) # a) b
      else (if v \<noteq> w then [Changed k v w] else []) @ diff_list a b)"
  "diff_list ((k, v) # a) [] = Removed k v # diff_list a []"
  "diff_list [] ((l, w) # b) = Added l w # diff_list [] b"
  "diff_list [] [] = []"
  by (subst diff_list_def, subst diff_sorted_entries.simps,
      simp add: diff_sorted_out del: diff_sorted_entries.simps)+

lemma diff_list_induct [case_names both left right nil]:
  fixes a b :: "(prolly_key \<times> 'c) list"
  assumes "\<And>k v a l w b.
      (k < l \<Longrightarrow> P a ((l, w) # b)) \<Longrightarrow> (\<not> k < l \<Longrightarrow> l < k \<Longrightarrow> P ((k, v) # a) b) \<Longrightarrow>
      (\<not> k < l \<Longrightarrow> \<not> l < k \<Longrightarrow> P a b) \<Longrightarrow> P ((k, v) # a) ((l, w) # b)"
    and "\<And>k v a. P a [] \<Longrightarrow> P ((k, v) # a) []"
    and "\<And>l w b. P [] b \<Longrightarrow> P [] ((l, w) # b)"
    and "P [] []"
  shows "P a b"
  by (rule diff_sorted_entries.induct [of "\<lambda>a b out. P a b"]) (use assms in blast)+

lemma diff_list_keys: "diff_key ` set (diff_list a b) \<subseteq> fst ` set a \<union> fst ` set b"
  by (induction a b rule: diff_list_induct) (auto simp: image_subset_iff split: if_splits)

lemma diff_list_sorted:
  assumes "strict_keys a" and "strict_keys b"
  shows "sorted_wrt (<) (map diff_key (diff_list a b))"
  using assms
proof (induction a b rule: diff_list_induct)
  case (both k v a l w b)
  have r: "x \<in> fst ` set a \<union> fst ` set b \<or> x = k \<or> x = l"
    if "x \<in> diff_key ` set (diff_list a ((l, w) # b)) \<union> diff_key ` set (diff_list ((k, v) # a) b)
        \<union> diff_key ` set (diff_list a b)" for x
    using that diff_list_keys [of a "(l, w) # b"] diff_list_keys [of "(k, v) # a" b] diff_list_keys [of a b]
    by auto
  consider "k < l" | "l < k" | "k = l" by fastforce
  then show ?case
  proof cases
    case 1
    have "\<forall>x \<in> diff_key ` set (diff_list a ((l, w) # b)). k < x"
      using diff_list_keys [of a "(l, w) # b"] both.prems 1 by (fastforce simp: strict_keys_Cons)
    then show ?thesis using 1 both.IH(1) both.prems by (auto simp: strict_keys_Cons)
  next
    case 2
    have "\<forall>x \<in> diff_key ` set (diff_list ((k, v) # a) b). l < x"
      using diff_list_keys [of "(k, v) # a" b] both.prems 2 by (fastforce simp: strict_keys_Cons)
    then show ?thesis using 2 both.IH(2) both.prems by (auto simp: strict_keys_Cons)
  next
    case 3
    have "\<forall>x \<in> diff_key ` set (diff_list a b). k < x"
      using diff_list_keys [of a b] both.prems 3 by (fastforce simp: strict_keys_Cons)
    then show ?thesis using 3 both.IH(3) both.prems by (auto simp: strict_keys_Cons)
  qed
next
  case (left k v a)
  then show ?case using diff_list_keys [of a "[]"] by (fastforce simp: strict_keys_Cons)
next
  case (right l w b)
  then show ?case using diff_list_keys [of "[]" b] by (fastforce simp: strict_keys_Cons)
qed simp

lemma strict_keys_notin: "strict_keys ((k, v) # es) \<Longrightarrow> l \<le> k \<Longrightarrow> map_of es l = None"
  by (auto simp: strict_keys_Cons map_of_eq_None_iff)

lemma diff_list_exact:
  assumes "strict_keys a" and "strict_keys b"
  shows "e \<in> set (diff_list a b) \<longleftrightarrow> diff_at (map_of a) (map_of b) (diff_key e) = Some e"
  using assms
proof (induction a b rule: diff_list_induct)
  case (both k v a l w b)
  have tl: "strict_keys a" "strict_keys b" using both.prems by (simp_all add: strict_keys_Cons)
  consider "k < l" | "l < k" | "k = l" by fastforce
  then show ?case
  proof cases
    case 1
    have "map_of ((l, w) # b) k = None" "map_of a k = None"
      using 1 both.prems strict_keys_notin [of l w b k] strict_keys_notin [of k v a k] by auto
    then show ?thesis using 1 both.IH(1) [OF 1 tl(1) both.prems(2)]
      by (cases "diff_key e = k") (auto simp: diff_at_def)
  next
    case 2
    have "map_of ((k, v) # a) l = None" "map_of b l = None"
      using 2 both.prems strict_keys_notin [of k v a l] strict_keys_notin [of l w b l] by auto
    then show ?thesis using 2 both.IH(2) [OF _ 2 both.prems(1) tl(2)]
      by (cases "diff_key e = l") (auto simp: diff_at_def)
  next
    case 3
    have "map_of a k = None" "map_of b k = None"
      using 3 both.prems strict_keys_notin [of k v a k] strict_keys_notin [of l w b k] by auto
    then show ?thesis using 3 both.IH(3) [OF _ _ tl]
      by (cases "diff_key e = k") (auto simp: diff_at_def)
  qed
next
  case (left k v a)
  then have "strict_keys a" "map_of a k = None"
    using strict_keys_notin [of k v a k] by (simp_all add: strict_keys_Cons)
  then show ?case using left.IH by (cases "diff_key e = k") (auto simp: diff_at_def)
next
  case (right l w b)
  then have "strict_keys b" "map_of b l = None"
    using strict_keys_notin [of l w b l] by (simp_all add: strict_keys_Cons)
  then show ?case using right.IH by (cases "diff_key e = l") (auto simp: diff_at_def)
next
  case nil
  show ?case by (simp add: diff_at_def)
qed

text \<open>Two runs of entries whose keys do not interleave are compared one after the other.\<close>

lemma diff_list_append:
  assumes "\<forall>x \<in> fst ` (set a \<union> set b). \<forall>y \<in> fst ` (set a' \<union> set b'). x < y"
  shows "diff_list (a @ a') (b @ b') = diff_list a b @ diff_list a' b'"
  using assms
proof (induction a b rule: diff_list_induct)
  case (left k v a)
  then show ?case by (cases b') (auto split: prod.splits)
next
  case (right l w b)
  then show ?case by (cases a') auto
qed auto

lemma diff_list_same [simp]: "diff_list a a = []"
  by (induction a) auto

section \<open>The loop over the ranges\<close>

lemma collect_entries:
  assumes "represents E bs cid (PNode ks ts)" and "height (PNode ks ts) \<le> fuel"
    and "load_tree_chunk E bs cid = Inr (Internal i)"
  shows "collect_entries_internal E bs fuel i out = Inr (out @ entries (PNode ks ts))"
  using assms
proof (induction fuel arbitrary: cid ks ts i out)
  case 0
  then show ?case by simp
next
  case (Suc fuel)
  from Suc.prems(1,3) have reps: "list_all2 (represents E bs) (in_children i) ts"
    by (simp add: represents_Internal)
  have small: "height t \<le> fuel" if "t \<in> set ts" for t
    using height_child [OF that, of ks] Suc.prems(2) by linarith
  have "rfold (\<lambda>child_cid out. rbind (load_tree_chunk E bs child_cid) (\<lambda>chunk.
      case chunk of Leaf l \<Rightarrow> Inr (out @ lf_entries l)
      | Internal i \<Rightarrow> collect_entries_internal E bs fuel i out)) cs out = Inr (out @ concat (map entries us))"
    if "list_all2 (represents E bs) cs us" "\<forall>u \<in> set us. height u \<le> fuel" for cs us out
    using that
  proof (induction cs us arbitrary: out rule: list_all2_induct)
    case Nil
    then show ?case by simp
  next
    case (Cons c cs u us)
    have "rbind (load_tree_chunk E bs c) (\<lambda>chunk.
      case chunk of Leaf l \<Rightarrow> Inr (out @ lf_entries l)
      | Internal i \<Rightarrow> collect_entries_internal E bs fuel i out) = Inr (out @ entries u)"
    proof (cases u)
      case (PLeaf es)
      with Cons.hyps(1) show ?thesis by (auto elim: represents_leafE)
    next
      case (PNode ks' us')
      with Cons.hyps(1) obtain i' where i': "load_tree_chunk E bs c = Inr (Internal i')"
        by (auto elim: represents_nodeE)
      have "collect_entries_internal E bs fuel i' out = Inr (out @ entries u)"
        unfolding PNode
        by (rule Suc.IH [OF _ _ i']) (use Cons.hyps(1) Cons.prems PNode in simp_all)
      with i' show ?thesis by simp
    qed
    with Cons.IH Cons.prems show ?case by simp
  qed
  from this [OF reps] small show ?case by simp
qed

text \<open>Every pair of child indices that occurs is compared, and nothing else is added.\<close>

lemma range_loop:
  assumes step: "\<And>idx lp out. idx \<in> set is \<Longrightarrow>
      \<exists>part. body idx (lp, out) =
        Inr (Some (p idx), if Some (p idx) = lp then out else out @ part) \<and> Q (p idx) part"
  shows "\<exists>lp' parts. rfold body is (lp, out) = Inr (lp', out @ concat (map snd parts)) \<and>
    (\<forall>(q, part) \<in> set parts. Q q part \<and> (\<exists>idx \<in> set is. q = p idx)) \<and>
    (\<forall>idx \<in> set is. lp = Some (p idx) \<or> p idx \<in> fst ` set parts)"
  using assms
proof (induction "is" arbitrary: lp out)
  case Nil
  then show ?case by (intro exI [of _ lp] exI [of _ "[]"]) simp
next
  case (Cons idx is')
  obtain part where b: "body idx (lp, out) =
      Inr (Some (p idx), if Some (p idx) = lp then out else out @ part)" and q: "Q (p idx) part"
    using Cons.prems [of idx lp out] by auto
  let ?out = "if Some (p idx) = lp then out else out @ part"
  obtain lp' parts where r: "rfold body is' (Some (p idx), ?out) = Inr (lp', ?out @ concat (map snd parts))"
    and qs: "\<forall>(q, part) \<in> set parts. Q q part \<and> (\<exists>idx \<in> set is'. q = p idx)"
    and cov: "\<forall>idx' \<in> set is'. Some (p idx) = Some (p idx') \<or> p idx' \<in> fst ` set parts"
    using Cons.IH [of "Some (p idx)" ?out] Cons.prems by auto
  show ?case
  proof (cases "Some (p idx) = lp")
    case True
    with b r have "rfold body (idx # is') (lp, out) = Inr (lp', out @ concat (map snd parts))" by simp
    moreover have "\<forall>(q, part) \<in> set parts. Q q part \<and> (\<exists>idx \<in> set (idx # is'). q = p idx)"
      using qs by auto
    moreover have "\<forall>idx' \<in> set (idx # is'). lp = Some (p idx') \<or> p idx' \<in> fst ` set parts"
      using cov True by auto
    ultimately show ?thesis by blast
  next
    case False
    with b r have "rfold body (idx # is') (lp, out)
        = Inr (lp', out @ concat (map snd ((p idx, part) # parts)))" by simp
    moreover have "\<forall>(q, part) \<in> set ((p idx, part) # parts). Q q part \<and> (\<exists>idx \<in> set (idx # is'). q = p idx)"
      using qs q by auto
    moreover have "\<forall>idx' \<in> set (idx # is'). lp = Some (p idx') \<or> p idx' \<in> fst ` set ((p idx, part) # parts)"
      using cov by auto
    ultimately show ?thesis by blast
  qed
qed

lemma partition_point_mono_range:
  assumes "\<forall>b \<in> set bs. b \<le> k \<longleftrightarrow> b \<le> (k' :: 'a::linorder)"
  shows "partition_point (\<lambda>b. b \<le> k) bs = partition_point (\<lambda>b. b \<le> k') bs"
  unfolding partition_point_def using assms by (metis (mono_tags, lifting) takeWhile_cong)

text \<open>For every key there is a range whose two child indices are those of the key.\<close>

lemma range_of_key:
  assumes "sorted (all_keys :: prolly_key list)"
  obtains i where "i < length all_keys + 1"
    and "\<And>xs. set xs \<subseteq> set all_keys \<Longrightarrow>
      child_index_for xs (if i = 0 then None else Some (all_keys ! (i - 1))) = partition_point (\<lambda>b. b \<le> k) xs"
proof -
  let ?i = "partition_point (\<lambda>b. b \<le> k) all_keys"
  have after: "k < all_keys ! j" if j: "?i \<le> j" "j < length all_keys" for j
  proof -
    have "\<not> all_keys ! ?i \<le> k"
      unfolding partition_point_def
      by (rule nth_length_takeWhile) (use j in \<open>simp add: partition_point_def\<close>)
    moreover have "all_keys ! ?i \<le> all_keys ! j"
      using assms j by (simp add: sorted_nth_mono)
    ultimately show ?thesis by simp
  qed
  have "child_index_for xs (if ?i = 0 then None else Some (all_keys ! (?i - 1))) = partition_point (\<lambda>b. b \<le> k) xs"
    if xs: "set xs \<subseteq> set all_keys" for xs
  proof (cases "?i = 0")
    case True
    have "\<forall>b \<in> set xs. \<not> b \<le> k"
    proof
      fix b assume "b \<in> set xs"
      then obtain j where "j < length all_keys" "b = all_keys ! j" using xs by (metis in_set_conv_nth subsetD)
      then show "\<not> b \<le> k" using after [of j] True by auto
    qed
    then have "takeWhile (\<lambda>b. b \<le> k) xs = []" by (cases xs) auto
    then show ?thesis unfolding True by (simp add: child_index_for_def partition_point_def)
  next
    case False
    let ?l = "all_keys ! (?i - 1)"
    have "?i - 1 < ?i" using False by simp
    then have l: "?l \<le> k" by (rule partition_point_before)
    have "\<forall>b \<in> set xs. b \<le> ?l \<longleftrightarrow> b \<le> k"
    proof
      fix b assume "b \<in> set xs"
      then obtain j where j: "j < length all_keys" "b = all_keys ! j" using xs by (metis in_set_conv_nth subsetD)
      have "b \<le> ?l" if "b \<le> k"
      proof -
        have "j < ?i" using after [of j] j that by (meson leI not_less)
        moreover have "?i \<le> length all_keys" by simp
        ultimately have "j \<le> ?i - 1" "?i - 1 < length all_keys" using False by linarith+
        then show ?thesis using assms j(2) by (simp add: sorted_nth_mono)
      qed
      with l show "b \<le> ?l \<longleftrightarrow> b \<le> k" by auto
    qed
    then have "partition_point (\<lambda>b. b \<le> ?l) xs = partition_point (\<lambda>b. b \<le> k) xs"
      by (rule partition_point_mono_range)
    then show ?thesis unfolding child_index_for_def using False by simp
  qed
  moreover have "?i < length all_keys + 1" by (simp add: less_Suc_eq_le)
  ultimately show thesis using that by blast
qed

section \<open>Every difference is reported\<close>

definition backed :: "(prolly_key \<rightharpoonup> 'c) \<Rightarrow> (prolly_key \<rightharpoonup> 'c) \<Rightarrow> 'c diff_entry \<Rightarrow> bool" where
  "backed m n e =
     (case e of
        Added k w \<Rightarrow> n k = Some w
      | Removed k v \<Rightarrow> m k = Some v
      | Changed k v w \<Rightarrow> m k = Some v \<and> n k = Some w \<and> v \<noteq> w)"

definition covers :: "(prolly_key \<rightharpoonup> 'c) \<Rightarrow> (prolly_key \<rightharpoonup> 'c) \<Rightarrow> 'c diff_entry list \<Rightarrow> bool" where
  "covers m n d \<longleftrightarrow> (\<forall>k e. diff_at m n k = Some e \<longrightarrow> e \<in> set d) \<and> (\<forall>e \<in> set d. backed m n e)"

lemma diff_at_key: "diff_at m n k = Some e \<Longrightarrow> diff_key e = k"
  by (auto simp: diff_at_def split: option.splits if_splits)

lemma diff_at_backed: "diff_at m n k = Some e \<Longrightarrow> backed m n e"
  by (auto simp: diff_at_def backed_def split: option.splits if_splits)

lemma covers_diff_list:
  assumes "strict_keys a" and "strict_keys b"
  shows "covers (map_of a) (map_of b) (diff_list a b)"
  unfolding covers_def
proof (intro conjI allI ballI impI)
  fix k e assume "diff_at (map_of a) (map_of b) k = Some e"
  then show "e \<in> set (diff_list a b)" by (simp add: diff_list_exact [OF assms] diff_at_key)
next
  fix e assume "e \<in> set (diff_list a b)"
  then show "backed (map_of a) (map_of b) e"
    unfolding diff_list_exact [OF assms] by (rule diff_at_backed)
qed

lemma covers_same: "covers m m []"
  by (simp add: covers_def diff_at_def split: option.splits)

lemma child_entry:
  assumes "well_formed (PNode ks ts)" and "i < length ts" and "map_of (entries (ts ! i)) k = Some v"
  shows "map_of (entries (PNode ks ts)) k = Some v"
proof -
  have "(k, v) \<in> set (entries (PNode ks ts))"
    using assms(2) map_of_SomeD [OF assms(3)] by (auto intro: nth_mem)
  then show ?thesis
    using well_formed_strict [OF assms(1)] by (simp add: strict_keys_distinct del: entries.simps)
qed

lemma backed_child:
  assumes "well_formed (PNode ks ts)" and "well_formed (PNode ls us)" and "i < length ts" and "j < length us"
    and "backed (map_of (entries (ts ! i))) (map_of (entries (us ! j))) e"
  shows "backed (map_of (entries (PNode ks ts))) (map_of (entries (PNode ls us))) e"
  using assms child_entry [OF assms(1,3)] child_entry [OF assms(2,4)]
  by (cases e) (simp_all add: backed_def del: entries.simps well_formed.simps)

lemma child_index_le: "child_index_for ks lower \<le> length ks"
  by (simp add: child_index_for_def split: option.split)

lemma diff_internals_covers:
  assumes wf: "well_formed (PNode (in_boundaries ia) ts)" "well_formed (PNode (in_boundaries ib) us)"
    and len: "length (in_children ia) = length ts" "length (in_children ib) = length us"
    and sub: "\<And>i j out. i < length ts \<Longrightarrow> j < length us \<Longrightarrow>
      \<exists>d. diff_children (in_children ia ! i) (in_children ib ! j) out = Inr (out @ d) \<and>
        covers (map_of (entries (ts ! i))) (map_of (entries (us ! j))) d"
  shows "\<exists>d. diff_internals diff_children ia ib out = Inr (out @ d) \<and>
    covers (map_of (entries (PNode (in_boundaries ia) ts))) (map_of (entries (PNode (in_boundaries ib) us))) d"
proof -
  define all_keys where "all_keys = remdups_adj (sort (in_boundaries ia @ in_boundaries ib))"
  define lower where "lower idx = (if idx = 0 then None else Some (all_keys ! (idx - 1)))" for idx
  define p where "p idx = (child_index_for (in_boundaries ia) (lower idx), child_index_for (in_boundaries ib) (lower idx))" for idx
  define body where "body = (\<lambda>range_idx (last_pair, out).
           let lower = (if range_idx = 0 then None else Some (all_keys ! (range_idx - 1)));
               a_idx = child_index_for (in_boundaries ia) lower;
               b_idx = child_index_for (in_boundaries ib) lower in
           if Some (a_idx, b_idx) = last_pair then Inr (last_pair, out)
           else
             rbind (nth_or_panic (in_children ia) a_idx) (\<lambda>ca.
             rbind (nth_or_panic (in_children ib) b_idx) (\<lambda>cb.
             rbind (diff_children ca cb out) (\<lambda>out.
             Inr (Some (a_idx, b_idx), out)))))"
  have lens: "length ts = length (in_boundaries ia) + 1" "length us = length (in_boundaries ib) + 1"
    using wf by simp_all
  have bound: "fst (p idx) < length ts" "snd (p idx) < length us" for idx
    using child_index_le [of "in_boundaries ia" "lower idx"] child_index_le [of "in_boundaries ib" "lower idx"]
    by (simp_all add: p_def lens)
  let ?Q = "\<lambda>q part. covers (map_of (entries (ts ! fst q))) (map_of (entries (us ! snd q))) part"
  have step: "\<exists>part. body idx (lp, out) =
      Inr (Some (p idx), if Some (p idx) = lp then out else out @ part) \<and> ?Q (p idx) part" for idx lp out
    using sub [OF bound(1) [of idx] bound(2) [of idx], of out] bound [of idx] len
    by (auto simp: body_def p_def lower_def Let_def nth_or_panic_def)
  obtain lp parts where
    run: "rfold body [0..<length all_keys + 1] (None, out) = Inr (lp, out @ concat (map snd parts))"
    and qs: "\<forall>(q, part) \<in> set parts. ?Q q part \<and> (\<exists>idx \<in> set [0..<length all_keys + 1]. q = p idx)"
    and cov: "\<forall>idx \<in> set [0..<length all_keys + 1]. None = Some (p idx) \<or> p idx \<in> fst ` set parts"
    using range_loop [of "[0..<length all_keys + 1]" body p ?Q None out, OF step] by blast
  let ?m = "map_of (entries (PNode (in_boundaries ia) ts))" and ?n = "map_of (entries (PNode (in_boundaries ib) us))"
  have "covers ?m ?n (concat (map snd parts))"
    unfolding covers_def
  proof (intro conjI allI ballI impI)
    fix k e assume e: "diff_at ?m ?n k = Some e"
    have sub: "set (in_boundaries ia) \<subseteq> set all_keys" "set (in_boundaries ib) \<subseteq> set all_keys"
      by (auto simp: all_keys_def)
    obtain i where i: "i < length all_keys + 1"
      and idx: "\<And>xs. set xs \<subseteq> set all_keys \<Longrightarrow> child_index_for xs (lower i) = partition_point (\<lambda>b. b \<le> k) xs"
      using range_of_key [of all_keys k] by (auto simp: all_keys_def lower_def)
    have "i \<in> set [0..<length all_keys + 1]" using i by (auto simp: less_Suc_eq)
    then have "p i \<in> fst ` set parts" using cov by blast
    then obtain part where part: "(p i, part) \<in> set parts" by auto
    have "?m k = map_of (entries (ts ! fst (p i))) k" "?n k = map_of (entries (us ! snd (p i))) k"
      using well_formed_child(2) [OF wf(1) refl, of k] well_formed_child(2) [OF wf(2) refl, of k]
      by (simp_all only: p_def fst_conv snd_conv idx [OF sub(1)] idx [OF sub(2)])
    then have "diff_at (map_of (entries (ts ! fst (p i)))) (map_of (entries (us ! snd (p i)))) k = Some e"
      using e by (simp only: diff_at_def)
    then have "e \<in> set part" using qs part unfolding covers_def by blast
    then show "e \<in> set (concat (map snd parts))" using part by force
  next
    fix e assume "e \<in> set (concat (map snd parts))"
    then obtain q part where qp: "(q, part) \<in> set parts" "e \<in> set part" by auto
    from qs qp(1) obtain idx where "q = p idx" and "?Q q part" by auto
    then show "backed ?m ?n e"
      using qp(2) bound [of idx] unfolding covers_def by (intro backed_child [OF wf]) auto
  qed
  moreover have "diff_internals diff_children ia ib out = Inr (out @ concat (map snd parts))"
    using run unfolding diff_internals_def Let_def all_keys_def [symmetric] body_def [unfolded Let_def, symmetric]
    by simp
  ultimately show ?thesis by blast
qed

lemma diff_cids_covers:
  assumes "represents E bs a ta" and "represents E bs b tb" and "well_formed ta" and "well_formed tb"
    and "height ta < fuel" and "height tb < fuel"
  shows "\<exists>d. diff_cids E bs fuel a b out = Inr (out @ d) \<and> covers (map_of (entries ta)) (map_of (entries tb)) d"
  using assms
proof (induction fuel arbitrary: a b ta tb out)
  case 0
  then show ?case by simp
next
  case (Suc fuel)
  show ?case
  proof (cases "a = b")
    case True
    then have "ta = tb" using represents_functional [OF Suc.prems(1), of tb] Suc.prems(2) by simp
    with True covers_same show ?thesis by (intro exI [of _ "[]"]) simp
  next
    case ne: False
    have strict: "strict_keys (entries ta)" "strict_keys (entries tb)"
      using Suc.prems(3,4) by (simp_all add: well_formed_strict)
    consider es fs where "ta = PLeaf es" "tb = PLeaf fs" | es ls us where "ta = PLeaf es" "tb = PNode ls us"
      | ks ts fs where "ta = PNode ks ts" "tb = PLeaf fs" | ks ts ls us where "ta = PNode ks ts" "tb = PNode ls us"
      by (metis ptree.exhaust)
    then show ?thesis
    proof cases
      case 1
      with Suc.prems(1,2) obtain la lb where "load_tree_chunk E bs a = Inr (Leaf la)" "lf_entries la = es"
        "load_tree_chunk E bs b = Inr (Leaf lb)" "lf_entries lb = fs"
        by (auto elim!: represents_leafE)
      with ne 1 covers_diff_list [OF strict] show ?thesis by (simp add: diff_sorted_out)
    next
      case 2
      with Suc.prems(1,2) obtain la ib where la: "load_tree_chunk E bs a = Inr (Leaf la)" "lf_entries la = es"
        and ib: "load_tree_chunk E bs b = Inr (Internal ib)"
        by (auto elim!: represents_leafE represents_nodeE)
      have "collect_entries_internal E bs fuel ib [] = Inr ([] @ entries tb)"
        using Suc.prems(2,6) 2 by (intro collect_entries [OF _ _ ib, where ks = ls and ts = us, folded 2(2)]) (simp_all only: less_Suc_eq_le)
      with ne 2 la ib covers_diff_list [OF strict] show ?thesis
        by (simp add: diff_sorted_out del: entries.simps(2))
    next
      case 3
      with Suc.prems(1,2) obtain ia lb where lb: "load_tree_chunk E bs b = Inr (Leaf lb)" "lf_entries lb = fs"
        and ia: "load_tree_chunk E bs a = Inr (Internal ia)"
        by (auto elim!: represents_leafE represents_nodeE)
      have "collect_entries_internal E bs fuel ia [] = Inr ([] @ entries ta)"
        using Suc.prems(1,5) 3 by (intro collect_entries [OF _ _ ia, where ks = ks and ts = ts, folded 3(1)]) (simp_all only: less_Suc_eq_le)
      with ne 3 lb ia covers_diff_list [OF strict] show ?thesis
        by (simp add: diff_sorted_out del: entries.simps(2))
    next
      case 4
      with Suc.prems(1,2) obtain ia ib where
        ia: "load_tree_chunk E bs a = Inr (Internal ia)" "in_boundaries ia = ks"
          "list_all2 (represents E bs) (in_children ia) ts"
        and ib: "load_tree_chunk E bs b = Inr (Internal ib)" "in_boundaries ib = ls"
          "list_all2 (represents E bs) (in_children ib) us"
        by (auto elim!: represents_nodeE)
      have len: "length (in_children ia) = length ts" "length (in_children ib) = length us"
        using ia(3) ib(3) by (auto dest: list_all2_lengthD)
      have wf: "well_formed (PNode (in_boundaries ia) ts)" "well_formed (PNode (in_boundaries ib) us)"
        using Suc.prems(3,4) 4 ia(2) ib(2) by simp_all
      have "\<exists>d. diff_cids E bs fuel (in_children ia ! i) (in_children ib ! j) out = Inr (out @ d) \<and>
          covers (map_of (entries (ts ! i))) (map_of (entries (us ! j))) d"
        if "i < length ts" "j < length us" for i j out
      proof (rule Suc.IH)
        show "represents E bs (in_children ia ! i) (ts ! i)" "represents E bs (in_children ib ! j) (us ! j)"
          using list_all2_nthD [OF ia(3)] list_all2_nthD [OF ib(3)] that len by simp_all
        show "well_formed (ts ! i)" "well_formed (us ! j)" using wf that by simp_all
        show "height (ts ! i) < fuel" "height (us ! j) < fuel"
          using height_child [of "ts ! i" ts ks] height_child [of "us ! j" us ls] that Suc.prems(5,6) 4 by auto
      qed
      from diff_internals_covers [OF wf len this, of out] show ?thesis
        using ne 4 ia(1,2) ib(1,2) by (simp del: entries.simps)
    qed
  qed
qed

section \<open>Trees with the same separators\<close>

inductive aligned :: "'c ptree \<Rightarrow> 'c ptree \<Rightarrow> bool" where
  al_leaf: "aligned (PLeaf es) (PLeaf fs)"
| al_node: "list_all2 aligned ts us \<Longrightarrow> aligned (PNode ks ts) (PNode ks us)"

inductive_cases aligned_leafE: "aligned (PLeaf es) u"
inductive_cases aligned_nodeE: "aligned (PNode ks ts) u"

lemma strict_remdups_adj: "sorted xs \<Longrightarrow> sorted_wrt (<) (remdups_adj (xs :: 'a::linorder list))"
  by (induction xs rule: remdups_adj.induct) (auto simp: le_less_trans order.strict_iff_order)

lemma merged_boundaries: "sorted_wrt (<) ks \<Longrightarrow> remdups_adj (sort (ks @ ks)) = (ks :: prolly_key list)"
proof -
  assume ks: "sorted_wrt (<) ks"
  have "sorted_wrt (<) (remdups_adj (sort (ks @ ks)))"
    by (simp add: strict_remdups_adj)
  with ks show ?thesis by (intro strict_sorted_equal) simp_all
qed

lemma partition_point_nth:
  assumes "sorted_wrt (<) (ks :: prolly_key list)" and "i < length ks"
  shows "partition_point (\<lambda>b. b \<le> ks ! i) ks = Suc i"
proof -
  have less: "ks ! j < ks ! m" if "j < m" "m < length ks" for j m
    using assms(1) that by (simp add: sorted_wrt_iff_nth_less)
  have "takeWhile (\<lambda>b. b \<le> ks ! i) ks = take (Suc i) ks"
  proof (rule takeWhile_eq_take_P_nth)
    fix j assume "j < Suc i" "j < length ks"
    then show "ks ! j \<le> ks ! i" using less [of j i] assms(2) by (cases "j = i") auto
  next
    show "\<not> ks ! Suc i \<le> ks ! i" if "Suc i < length ks"
      using less [of i "Suc i"] that by simp
  qed
  then show ?thesis using assms(2) by (simp add: partition_point_def)
qed

lemma child_index_range:
  assumes "sorted_wrt (<) ks" and "i \<le> length ks"
  shows "child_index_for ks (if i = 0 then None else Some (ks ! (i - 1))) = i"
  using assms by (cases i) (simp_all add: child_index_for_def partition_point_nth)

lemma diff_list_children:
  assumes "well_formed (PNode ks ts)" and "well_formed (PNode ks us)" and "n \<le> length ts"
  shows "concat (map (\<lambda>i. diff_list (entries (ts ! i)) (entries (us ! i))) [0..<n])
    = diff_list (concat (map entries (take n ts))) (concat (map entries (take n us)))"
  using assms(3)
proof (induction n)
  case 0
  show ?case by simp
next
  case (Suc n)
  have len: "length ts = length ks + 1" "length us = length ks + 1"
    using assms(1,2) by simp_all
  have below: "x < ks ! (n - 1)" if "x \<in> fst ` set (concat (map entries (take n vs)))" "n \<noteq> 0"
    and wf: "well_formed (PNode ks vs)" for x vs
  proof -
    from that obtain t where t: "t \<in> set (take n vs)" "x \<in> fst ` set (entries t)" by auto
    then obtain j where "j < length (take n vs)" "t = take n vs ! j" by (metis in_set_conv_nth)
    with t have j: "j < n" "j < length vs" "x \<in> fst ` set (entries (vs ! j))" by simp_all
    have "n - 1 < length ks" using Suc.prems len that(2) by simp
    then show ?thesis
      using wf j unfolding well_formed.simps by (metis Suc_diff_1 bot_nat_0.not_eq_extremum less_Suc_eq_le that(2))
  qed
  have above: "ks ! (n - 1) \<le> y" if "y \<in> fst ` set (entries (vs ! n))" "n \<noteq> 0" "n < length vs"
    and wf: "well_formed (PNode ks vs)" for y vs
  proof -
    have "n - 1 < n" using that(2) by simp
    then show ?thesis using wf that unfolding well_formed.simps by blast
  qed
  have n: "n < length ts" "n < length us" using Suc.prems len by simp_all
  have "\<forall>x \<in> fst ` (set (concat (map entries (take n ts))) \<union> set (concat (map entries (take n us)))).
      \<forall>y \<in> fst ` (set (entries (ts ! n)) \<union> set (entries (us ! n))). x < y"
  proof (cases "n = 0")
    case False
    show ?thesis
    proof (intro ballI)
      fix x y assume x: "x \<in> fst ` (set (concat (map entries (take n ts))) \<union> set (concat (map entries (take n us))))"
        and y: "y \<in> fst ` (set (entries (ts ! n)) \<union> set (entries (us ! n)))"
      have "x < ks ! (n - 1)"
        using x below [OF _ False assms(1), of x] below [OF _ False assms(2), of x] by (auto simp: image_Un)
      moreover have "ks ! (n - 1) \<le> y"
        using y above [OF _ False n(1) assms(1), of y] above [OF _ False n(2) assms(2), of y] by (auto simp: image_Un)
      ultimately show "x < y" by simp
    qed
  qed simp
  from diff_list_append [OF this] Suc.IH Suc.prems n show ?case
    by (simp add: take_Suc_conv_app_nth)
qed

lemma diff_internals_aligned:
  assumes wf: "well_formed (PNode ks ts)" "well_formed (PNode ks us)"
    and ks: "in_boundaries ia = ks" "in_boundaries ib = ks"
    and len: "length (in_children ia) = length ts" "length (in_children ib) = length us"
    and sub: "\<And>i out. i < length ts \<Longrightarrow>
      diff_children (in_children ia ! i) (in_children ib ! i) out
        = Inr (out @ diff_list (entries (ts ! i)) (entries (us ! i)))"
  shows "diff_internals diff_children ia ib out
    = Inr (out @ diff_list (entries (PNode ks ts)) (entries (PNode ks us)))"
proof -
  define body where "body = (\<lambda>range_idx (last_pair, out).
           let lower = (if range_idx = 0 then None else Some (ks ! (range_idx - 1)));
               a_idx = child_index_for ks lower;
               b_idx = child_index_for ks lower in
           if Some (a_idx, b_idx) = last_pair then Inr (last_pair, out)
           else
             rbind (nth_or_panic (in_children ia) a_idx) (\<lambda>ca.
             rbind (nth_or_panic (in_children ib) b_idx) (\<lambda>cb.
             rbind (diff_children ca cb out) (\<lambda>out.
             Inr (Some (a_idx, b_idx), out)))))"
  have sorted: "sorted_wrt (<) ks" and lens: "length ts = length ks + 1" "length us = length ks + 1"
    using wf by simp_all
  have "rfold body [0..<n] (None, out) =
      Inr (if n = 0 then None else Some (n - 1, n - 1),
           out @ concat (map (\<lambda>i. diff_list (entries (ts ! i)) (entries (us ! i))) [0..<n]))"
    if "n \<le> length ks + 1" for n
    using that
  proof (induction n)
    case 0
    show ?case by simp
  next
    case (Suc n)
    have idx: "child_index_for ks (if n = 0 then None else Some (ks ! (n - 1))) = n"
      using sorted Suc.prems by (intro child_index_range) simp_all
    have "body n (if n = 0 then None else Some (n - 1, n - 1), out') =
        Inr (Some (n, n), out' @ diff_list (entries (ts ! n)) (entries (us ! n)))" for out'
      using sub [of n out'] Suc.prems len lens idx
      by (cases n) (simp_all add: body_def Let_def nth_or_panic_def)
    with Suc show ?case by (simp add: rfold_append)
  qed
  from this [of "length ks + 1"] have
    "rfold body [0..<length ks + 1] (None, out) =
      Inr (Some (length ks, length ks), out @ diff_list (entries (PNode ks ts)) (entries (PNode ks us)))"
    using diff_list_children [OF wf, of "length ks + 1"] lens by simp
  then show ?thesis
    unfolding diff_internals_def Let_def ks merged_boundaries [OF sorted] body_def [unfolded Let_def, symmetric]
    by simp
qed

lemma diff_cids_aligned:
  assumes "represents E bs a ta" and "represents E bs b tb" and "well_formed ta" and "well_formed tb"
    and "aligned ta tb" and "height ta < fuel"
  shows "diff_cids E bs fuel a b out = Inr (out @ diff_list (entries ta) (entries tb))"
  using assms
proof (induction fuel arbitrary: a b ta tb out)
  case 0
  then show ?case by simp
next
  case (Suc fuel)
  show ?case
  proof (cases "a = b")
    case True
    then have "ta = tb" using represents_functional [OF Suc.prems(1), of tb] Suc.prems(2) by simp
    with True show ?thesis by simp
  next
    case ne: False
    show ?thesis
    proof (cases ta)
      case (PLeaf es)
      with Suc.prems(5) obtain fs where tb: "tb = PLeaf fs" by (auto elim: aligned_leafE)
      with PLeaf Suc.prems(1,2) obtain la lb where "load_tree_chunk E bs a = Inr (Leaf la)" "lf_entries la = es"
        "load_tree_chunk E bs b = Inr (Leaf lb)" "lf_entries lb = fs"
        by (auto elim!: represents_leafE)
      with ne PLeaf tb show ?thesis by (simp add: diff_sorted_out)
    next
      case (PNode ks ts)
      with Suc.prems(5) obtain us where tb: "tb = PNode ks us" and al: "list_all2 aligned ts us"
        by (auto elim: aligned_nodeE)
      with PNode Suc.prems(1,2) obtain ia ib where
        ia: "load_tree_chunk E bs a = Inr (Internal ia)" "in_boundaries ia = ks"
          "list_all2 (represents E bs) (in_children ia) ts"
        and ib: "load_tree_chunk E bs b = Inr (Internal ib)" "in_boundaries ib = ks"
          "list_all2 (represents E bs) (in_children ib) us"
        by (auto elim!: represents_nodeE)
      have len: "length (in_children ia) = length ts" "length (in_children ib) = length us" "length ts = length us"
        using ia(3) ib(3) al by (auto dest: list_all2_lengthD)
      have wf: "well_formed (PNode ks ts)" "well_formed (PNode ks us)"
        using Suc.prems(3,4) PNode tb by simp_all
      have "diff_cids E bs fuel (in_children ia ! i) (in_children ib ! i) out
          = Inr (out @ diff_list (entries (ts ! i)) (entries (us ! i)))" if i: "i < length ts" for i out
      proof (rule Suc.IH)
        show "represents E bs (in_children ia ! i) (ts ! i)" "represents E bs (in_children ib ! i) (us ! i)"
          using list_all2_nthD [OF ia(3)] list_all2_nthD [OF ib(3)] i len by simp_all
        show "well_formed (ts ! i)" "well_formed (us ! i)" using wf i len by simp_all
        show "aligned (ts ! i) (us ! i)" using al i by (rule list_all2_nthD)
        show "height (ts ! i) < fuel"
          using height_child [of "ts ! i" ts ks] i Suc.prems(6) PNode by auto
      qed
      from diff_internals_aligned [OF wf ia(2) ib(2) len(1,2) this, of out] show ?thesis
        using ne PNode tb ia(1) ib(1) by (simp del: entries.simps)
    qed
  qed
qed

text \<open>Trees built from lists with the same keys have the same separators.\<close>

definition same_keys :: "'c ptree \<Rightarrow> 'c ptree \<Rightarrow> bool" where
  "same_keys t u \<longleftrightarrow> aligned t u \<and> map fst (entries t) = map fst (entries u)"

lemma same_keys_first: "same_keys t u \<Longrightarrow> first_key t = first_key u"
  by (cases "entries t"; cases "entries u") (auto simp: same_keys_def first_key_def)

lemma same_keys_node:
  assumes "list_all2 same_keys ts us"
  shows "same_keys (ptree_node ts) (ptree_node us)"
proof -
  have "list_all2 aligned ts us"
    using assms by (rule list_all2_mono) (simp add: same_keys_def)
  moreover have "map first_key ts = map first_key us"
    using assms by (induction rule: list_all2_induct) (auto simp: same_keys_first)
  then have "map first_key (tl ts) = map first_key (tl us)" by (simp only: map_tl)
  moreover have "map fst (concat (map entries ts)) = map fst (concat (map entries us))"
    using assms by (induction rule: list_all2_induct) (auto simp: same_keys_def)
  ultimately show ?thesis by (simp add: same_keys_def ptree_node_def aligned.intros)
qed

lemma same_keys_up: "list_all2 same_keys ts us \<Longrightarrow> list_all2 same_keys (up_trees E ts) (up_trees E us)"
proof (induction E ts arbitrary: us rule: up_trees.induct)
  case (1 E ts)
  have len: "length ts = length us" using 1(2) by (rule list_all2_lengthD)
  show ?case
  proof (cases "1 < length ts")
    case True
    have "list_all2 (list_all2 same_keys) (groups E first_key chunker_new [] ts) (groups E first_key chunker_new [] us)"
      using 1(2) by (rule groups_rel) (simp_all add: same_keys_first)
    then have "list_all2 same_keys (map ptree_node (groups E first_key chunker_new [] ts))
        (map ptree_node (groups E first_key chunker_new [] us))"
      unfolding list_all2_map1 list_all2_map2 by (rule list_all2_mono) (rule same_keys_node)
    from 1(1) [OF True this] True len show ?thesis
      by (simp add: up_trees.simps [of E ts] up_trees.simps [of E us])
  next
    case False
    with 1(2) len show ?thesis
      by (simp add: up_trees.simps [of E ts] up_trees.simps [of E us])
  qed
qed

lemma aligned_ptree_of:
  assumes "map fst es = map fst fs"
  shows "aligned (ptree_of E es) (ptree_of E fs)"
proof -
  have l2: "list_all2 (\<lambda>x y. fst x = fst y) es fs"
    using assms by (simp add: list_all2_conv_all_nth) (metis length_map nth_map)
  have "list_all2 (list_all2 (\<lambda>x y. fst x = fst y)) (groups E fst chunker_new [] es) (groups E fst chunker_new [] fs)"
    using l2 by (rule groups_rel) simp_all
  moreover have "same_keys (PLeaf g) (PLeaf h)" if "list_all2 (\<lambda>x y. fst x = fst y) g h"
    for g h :: "(prolly_key \<times> 'a) list"
    using that by (auto simp: same_keys_def aligned.intros elim: list_all2_induct)
  ultimately have "list_all2 same_keys (leaf_trees E es) (leaf_trees E fs)"
    using l2 unfolding leaf_trees_def
    by (auto simp: list_all2_map1 list_all2_map2 same_keys_def aligned.intros elim: list_all2_mono)
  then have "list_all2 same_keys (up_trees E (leaf_trees E es)) (up_trees E (leaf_trees E fs))"
    by (rule same_keys_up)
  moreover obtain t u where "up_trees E (leaf_trees E es) = [t]" "up_trees E (leaf_trees E fs) = [u]"
    using up_trees_single [OF leaf_trees_not_Nil, of E E es] up_trees_single [OF leaf_trees_not_Nil, of E E fs] by auto
  ultimately show ?thesis by (simp add: ptree_of_def same_keys_def)
qed

end
