(* ===== verification/Instance.thy ===== *)
theory Instance imports Codec begin

text \<open>
  A concrete \<open>external\<close>, on which the properties' hypotheses hold and their statements can be
  evaluated. A block is the value it encodes, a digest keeps the block it was computed from, and a
  CID is the pair the crate \<open>cid\<close> makes of a codec and a digest: a content address without
  collisions. The rolling hash is constantly 0, so that a chunk closes at the minimum size.
\<close>

datatype wcid = WCid u64 whash
  and whash = WHash u64 "wcid ipld"

fun wcid_codec :: "wcid \<Rightarrow> u64" where "wcid_codec (WCid codec h) = codec"
fun wcid_hash :: "wcid \<Rightarrow> whash" where "wcid_hash (WCid codec h) = h"
fun whash_code :: "whash \<Rightarrow> u64" where "whash_code (WHash code b) = code"

fun wbytes :: "'c ipld \<Rightarrow> bytes" where
  "wbytes (IString s) = map (\<lambda>c. of_char c) s"
| "wbytes (IInteger i) = [word_of_int i]"
| "wbytes v = []"

definition wE :: "(wcid, whash, wcid ipld) external" where
  "wE = \<lparr>enc = Some, dec = Some, sha2_256 = WHash 0x12, blake3_256 = WHash 0x1e,
     mh_code = whash_code, cid_new = WCid, cid_codec = wcid_codec, cid_hash = wcid_hash,
     keyed_hash = (\<lambda>k bs. replicate 32 0), blake3 = (\<lambda>bs. take 32 (bs @ replicate 32 0)),
     block_bytes = wbytes, cid_bytes = (\<lambda>c. []), cid_string = (\<lambda>c. []),
     uuid_string = (\<lambda>n. []), props_json = (\<lambda>m. JNull), f32_ipld = ucast, ipld_f32 = ucast\<rparr>"

definition wraw :: "string \<Rightarrow> wcid" where
  "wraw s = WCid CODEC_RAW (WHash HASH_SHA2_256 (IString s))"

lemma wE_laws [simp]:
  "codec_roundtrip wE" "collision_free wE" "encodes_plain wE"
  by (auto simp: codec_roundtrip_def collision_free_def encodes_plain_def inj_def block_cid_def wE_def)

lemma wraw_inject [simp]: "wraw s = wraw t \<longleftrightarrow> s = t"
  by (simp add: wraw_def)

text \<open>
  A second one whose CIDs are numbers, for the components that compare CIDs: a block is its number in
  a finite table of values, which is all the encoder can encode, and the CID of a block is its number.
\<close>

fun position :: "'a \<Rightarrow> 'a list \<Rightarrow> nat option" where
  "position x [] = None"
| "position x (y # ys) = (if x = y then Some 0 else map_option Suc (position x ys))"

lemma position_Some: "position x xs = Some n \<Longrightarrow> n < length xs \<and> xs ! n = x"
  by (induction xs arbitrary: n) (auto split: if_splits)

definition tE :: "nat ipld list \<Rightarrow> (nat, nat, nat) external" where
  "tE table = \<lparr>enc = (\<lambda>v. position v table), dec = (\<lambda>n. if n < length table then Some (table ! n) else None),
     sha2_256 = id, blake3_256 = id, mh_code = (\<lambda>h. HASH_SHA2_256), cid_new = (\<lambda>codec h. h),
     cid_codec = (\<lambda>c. CODEC_DAG_CBOR), cid_hash = id,
     keyed_hash = (\<lambda>k bs. replicate 32 0), blake3 = (\<lambda>bs. take 32 (bs @ replicate 32 0)),
     block_bytes = (\<lambda>n. if n < length table then wbytes (table ! n) else []),
     cid_bytes = (\<lambda>c. [word_of_nat c]), cid_string = (\<lambda>c. [char_of (c mod 256)]),
     uuid_string = (\<lambda>n. [char_of (unat n mod 256)]), props_json = (\<lambda>m. JNull), f32_ipld = ucast, ipld_f32 = ucast\<rparr>"

lemma tE_laws [simp]: "codec_roundtrip (tE table)" "collision_free (tE table)"
  by (auto simp: codec_roundtrip_def collision_free_def inj_def block_cid_def tE_def dest: position_Some)

end
