(* ===== verification/Prolly_Props.thy ===== *)
theory Prolly_Props imports Prolly_Diff Instance begin

text \<open>
  The properties of the Prolly tree as a whole, builder, readers and diff together, over the library
  of the theories \<open>Prolly_Build\<close>, \<open>Prolly_Read\<close> and \<open>Prolly_Diff\<close>.
\<close>

text \<open>C1 (\<open>prolly/tree.rs\<close>, \<open>build_tree\<close>). On input sorted by key the builder returns a root CID that stands,
  in the store it leaves, for the well-formed tree \<open>ptree_of\<close> of exactly these entries; every chunk from
  the root down is there and decodes, and no block that was in the store has changed.\<close>

theorem build_tree_refines:
  assumes "build_tree E es s = (Inr root, t)" and "strict_keys es"
    and "collision_free E" and "codec_roundtrip E" and "trusted E s"
  shows "represents E t root (ptree_of E es) \<and> well_formed (ptree_of E es) \<and>
    entries (ptree_of E es) = es \<and> grows E s t"
  using build_tree_represents [OF assms] well_formed_ptree_of [OF assms(2)] entries_ptree_of [of E es] by blast

definition wentries :: "nat \<Rightarrow> nat \<Rightarrow> (prolly_key \<times> wcid) list" where
  "wentries a b = map (\<lambda>i. (word_of_nat i, wraw ''v'')) [a..<b]"

lemma strict_keys_wentries: "strict_keys (wentries 0 17)" "strict_keys (wentries 1 18)"
  unfolding strict_keys_def by code_simp+

lemma height_wentries: "height (ptree_of wE (wentries 0 17)) < 2" "height (ptree_of wE (wentries 1 18)) < 2"
  by code_simp+

theorem build_tree_refines_witness:
  "\<exists>root t. build_tree wE (wentries 0 17) bs_new = (Inr root, t) \<and>
     represents wE t root (ptree_of wE (wentries 0 17)) \<and> entries (ptree_of wE (wentries 0 17)) = wentries 0 17"
proof -
  obtain root t where run: "build_tree wE (wentries 0 17) bs_new = (Inr root, t)"
    using build_tree_total wE_laws(3) by blast
  show ?thesis
    using build_tree_refines [OF run strict_keys_wentries(1) wE_laws(2,1) trusted_empty] run by blast
qed

text \<open>C2 (\<open>build_tree\<close>). The root CID is canonical: builds on any two stores, from any two sorted inputs,
  return the same root exactly when the inputs are equal.\<close>

theorem build_tree_history_independent:
  assumes "build_tree E es s = (Inr r, t)" and "build_tree E es' s' = (Inr r', t')"
    and "strict_keys es" and "strict_keys es'"
    and "collision_free E" and "codec_roundtrip E" and "trusted E s"
  shows "r = r' \<longleftrightarrow> es = es'"
  using assms by (rule build_tree_canonical)

theorem build_tree_history_independent_witness:
  "fst (build_tree wE (wentries 0 17) bs_new) \<noteq> fst (build_tree wE (wentries 1 18) bs_new)"
proof -
  obtain r t where r: "build_tree wE (wentries 0 17) bs_new = (Inr r, t)"
    using build_tree_total wE_laws(3) by blast
  obtain r' t' where r': "build_tree wE (wentries 1 18) bs_new = (Inr r', t')"
    using build_tree_total wE_laws(3) by blast
  have "wentries 0 17 \<noteq> wentries 1 18" by code_simp
  then show ?thesis
    using build_tree_history_independent [OF r r' strict_keys_wentries(1,2) wE_laws(2,1) trusted_empty] r r' by simp
qed

text \<open>C3 (\<open>build_tree\<close>). The builder returns a root for every input, sorted or not, on every store, given
  that the encoder accepts the values without floats and with 64-bit integers: the chunks the builder
  writes hold nothing else, so none of the encoder's documented errors (a float that is not finite, a key
  that is no string) can stop it, and the loop over the levels ends.\<close>

theorem build_tree_returns:
  assumes "encodes_plain E"
  shows "\<exists>root t. build_tree E es s = (Inr root, t)"
  using assms by (rule build_tree_total)

text \<open>An encoder that encodes the plain values and nothing else, so no NaN.\<close>

definition strict_wE :: "(wcid, whash, wcid ipld) external" where
  "strict_wE = wE\<lparr>enc := (\<lambda>v. if plain_value v then Some v else None)\<rparr>"

theorem build_tree_returns_witness:
  "enc strict_wE (IFloat 0x7ff8000000000000) = None \<and>
   (\<exists>root t. build_tree strict_wE (wentries 0 17) bs_new = (Inr root, t))"
proof (rule conjI)
  show "enc strict_wE (IFloat 0x7ff8000000000000) = None" by (simp add: strict_wE_def)
  show "\<exists>root t. build_tree strict_wE (wentries 0 17) bs_new = (Inr root, t)"
    by (rule build_tree_returns) (simp add: strict_wE_def encodes_plain_def)
qed

text \<open>C4 (\<open>prolly/lookup.rs\<close>). Looking a key up in a tree that was built from sorted entries returns the
  entry's value, or \<open>None\<close> when the key is not there; the loop is done after as many steps as the tree has
  levels.\<close>

theorem lookup_after_build:
  assumes "build_tree E es s = (Inr root, t)" and "strict_keys es"
    and "collision_free E" and "codec_roundtrip E" and "trusted E s"
    and "height (ptree_of E es) < fuel"
  shows "prolly_lookup E t fuel root key = Inr (map_of es key)"
  using lookup_entries [OF conjunct2 [OF build_tree_represents [OF assms(1-5)]]
      well_formed_ptree_of [OF assms(2)] assms(6)] by (simp add: entries_ptree_of)

theorem lookup_after_build_witness:
  "\<exists>root t. build_tree wE (wentries 0 17) bs_new = (Inr root, t) \<and>
     prolly_lookup wE t 2 root 16 = Inr (Some (wraw ''v'')) \<and> prolly_lookup wE t 2 root 17 = Inr None"
proof -
  obtain root t where run: "build_tree wE (wentries 0 17) bs_new = (Inr root, t)"
    using build_tree_total wE_laws(3) by blast
  note l = lookup_after_build [OF run strict_keys_wentries(1) wE_laws(2,1) trusted_empty height_wentries(1)]
  have "map_of (wentries 0 17) 16 = Some (wraw ''v'')" "map_of (wentries 0 17) 17 = None" by code_simp+
  with run l [of 16] l [of 17] show ?thesis by auto
qed

text \<open>Also (\<open>prolly/cursor.rs\<close>). A cursor opened on a tree that was built from sorted entries yields exactly
  these entries, in order, and then ends.\<close>

theorem cursor_after_build:
  assumes "build_tree E es s = (Inr root, t)" and "strict_keys es"
    and "collision_free E" and "codec_roundtrip E" and "trusted E s"
    and "enough_fuel (ptree_of E es) fuel"
  shows "read_tree E t fuel root = Inr es"
  using cursor_yields [of E t root "ptree_of E es" fuel] build_tree_represents [OF assms(1-5)] assms(6)
  by (simp add: entries_ptree_of)

theorem cursor_after_build_witness:
  "\<exists>root t. build_tree wE (wentries 0 17) bs_new = (Inr root, t) \<and> read_tree wE t 18 root = Inr (wentries 0 17)"
proof -
  obtain root t where run: "build_tree wE (wentries 0 17) bs_new = (Inr root, t)"
    using build_tree_total wE_laws(3) by blast
  have "enough_fuel (ptree_of wE (wentries 0 17)) 18" by code_simp
  from cursor_after_build [OF run strict_keys_wentries(1) wE_laws(2,1) trusted_empty this] run show ?thesis by blast
qed

text \<open>C5 (\<open>prolly/diff.rs\<close>). Whatever the shapes of two well-formed trees, the diff returns, reports every
  key on which they differ, with the right kind of change and the right values, and reports nothing that
  the side it names does not hold.\<close>

theorem diff_reports_all:
  assumes "represents E bs a ta" and "represents E bs b tb" and "well_formed ta" and "well_formed tb"
    and "height ta < fuel" and "height tb < fuel"
  shows "\<exists>d. prolly_diff E bs fuel a b = Inr d \<and> covers (map_of (entries ta)) (map_of (entries tb)) d"
  using diff_cids_covers [OF assms, of "[]"] by (simp add: prolly_diff_def)

definition wbuild2 where
  "wbuild2 es fs = sbind (build_tree wE es) (\<lambda>a. sbind (build_tree wE fs) (\<lambda>b. sret (a, b)))"

lemma wbuild2_represents:
  assumes "strict_keys es" and "strict_keys fs"
  obtains a b t where "wbuild2 es fs bs_new = (Inr (a, b), t)"
    and "represents wE t a (ptree_of wE es)" and "represents wE t b (ptree_of wE fs)"
proof -
  obtain a s where a: "build_tree wE es bs_new = (Inr a, s)"
    using build_tree_total wE_laws(3) by blast
  obtain b t where b: "build_tree wE fs s = (Inr b, t)"
    using build_tree_total wE_laws(3) by blast
  from build_tree_represents [OF a assms(1) wE_laws(2,1) trusted_empty]
  have g: "grows wE bs_new s" and ra: "represents wE s a (ptree_of wE es)" by simp_all
  have tr: "trusted wE s" using g trusted_empty by (rule grows_trusted)
  from build_tree_represents [OF b assms(2) wE_laws(2,1) tr]
  have g': "grows wE s t" and rb: "represents wE t b (ptree_of wE fs)" by simp_all
  show thesis
    using that [of a b t] a b rb represents_mono [OF ra g' tr] by (simp add: wbuild2_def sbind_run monad_simps)
qed

theorem diff_reports_all_witness:
  "\<exists>a b t d. wbuild2 (wentries 0 17) (wentries 1 18) bs_new = (Inr (a, b), t) \<and>
     prolly_diff wE t 2 a b = Inr d \<and> Removed 0 (wraw ''v'') \<in> set d"
proof -
  obtain a b t where w: "wbuild2 (wentries 0 17) (wentries 1 18) bs_new = (Inr (a, b), t)"
    "represents wE t a (ptree_of wE (wentries 0 17))" "represents wE t b (ptree_of wE (wentries 1 18))"
    by (rule wbuild2_represents [OF strict_keys_wentries(1,2)])
  obtain d where d: "prolly_diff wE t 2 a b = Inr d"
    "covers (map_of (wentries 0 17)) (map_of (wentries 1 18)) d"
    using diff_reports_all [OF w(2,3) well_formed_ptree_of well_formed_ptree_of height_wentries] strict_keys_wentries
    by (auto simp: entries_ptree_of)
  have "diff_at (map_of (wentries 0 17)) (map_of (wentries 1 18)) 0 = Some (Removed 0 (wraw ''v''))" by code_simp
  with d(2) have "Removed 0 (wraw ''v'') \<in> set d" by (auto simp: covers_def)
  with w(1) d(1) show ?thesis by blast
qed

text \<open>Also (\<open>prolly/diff.rs\<close>). Between two trees built from entries with the same keys, the diff is exact: the
  entries whose values differ, each once, in ascending key order, and nothing else.\<close>

theorem diff_exact_on_same_keys:
  assumes "represents E bs a (ptree_of E es)" and "represents E bs b (ptree_of E fs)"
    and "strict_keys es" and "strict_keys fs" and "map fst es = map fst fs"
    and "height (ptree_of E es) < fuel"
  shows "\<exists>d. prolly_diff E bs fuel a b = Inr d \<and> sorted_wrt (<) (map diff_key d) \<and>
    set d = {Changed k v w | k v w. map_of es k = Some v \<and> map_of fs k = Some w \<and> v \<noteq> w}"
proof -
  let ?d = "diff_list es fs"
  have "prolly_diff E bs fuel a b = Inr ?d"
    using diff_cids_aligned [OF assms(1,2) well_formed_ptree_of [OF assms(3)] well_formed_ptree_of [OF assms(4)]
        aligned_ptree_of [OF assms(5)] assms(6), of "[]"]
    by (simp add: prolly_diff_def entries_ptree_of)
  moreover have dom: "map_of es k = None \<longleftrightarrow> map_of fs k = None" for k
    using assms(5) by (metis map_of_eq_None_iff set_map)
  have "e \<in> set ?d \<longleftrightarrow> (\<exists>k v w. e = Changed k v w \<and> map_of es k = Some v \<and> map_of fs k = Some w \<and> v \<noteq> w)" for e
    unfolding diff_list_exact [OF assms(3,4)]
    using dom by (cases e) (auto simp: diff_at_def split: option.splits, (metis option.distinct(1))+)
  ultimately show ?thesis using diff_list_sorted [OF assms(3,4)] by blast
qed

definition wchanged :: "(prolly_key \<times> wcid) list" where
  "wchanged = (wentries 0 17)[10 := (10, wraw ''w'')]"

theorem diff_exact_on_same_keys_witness:
  "\<exists>a b t. wbuild2 (wentries 0 17) wchanged bs_new = (Inr (a, b), t) \<and>
     (\<exists>d. prolly_diff wE t 2 a b = Inr d \<and> set d = {Changed 10 (wraw ''v'') (wraw ''w'')})"
proof -
  have s: "strict_keys wchanged" unfolding strict_keys_def by code_simp
  obtain a b t where run: "wbuild2 (wentries 0 17) wchanged bs_new = (Inr (a, b), t)"
    and w: "represents wE t a (ptree_of wE (wentries 0 17))" "represents wE t b (ptree_of wE wchanged)"
    by (rule wbuild2_represents [OF strict_keys_wentries(1) s])
  have k: "map fst (wentries 0 17) = map fst wchanged" by code_simp
  obtain d where d: "prolly_diff wE t 2 a b = Inr d" and
    set_d: "set d = {Changed k v w | k v w. map_of (wentries 0 17) k = Some v \<and> map_of wchanged k = Some w \<and> v \<noteq> w}"
    using diff_exact_on_same_keys [OF w strict_keys_wentries(1) s k height_wentries(1)] by blast
  have only: "list_all (\<lambda>(k, v). map_of wchanged k = Some v \<or>
      (k = 10 \<and> v = wraw ''v'' \<and> map_of wchanged k = Some (wraw ''w''))) (wentries 0 17)"
    by code_simp
  have "e = Changed 10 (wraw ''v'') (wraw ''w'')" if e0: "e \<in> set d" for e
  proof -
    obtain k v w where e: "e = Changed k v w" "map_of (wentries 0 17) k = Some v" "map_of wchanged k = Some w" "v \<noteq> w"
      using e0 unfolding set_d by blast
    from only map_of_SomeD [OF e(2)] e(3,4) have "k = 10 \<and> v = wraw ''v'' \<and> w = wraw ''w''"
      unfolding list_all_iff by auto
    with e(1) show ?thesis by simp
  qed
  moreover have "map_of (wentries 0 17) 10 = Some (wraw ''v'')" "map_of wchanged 10 = Some (wraw ''w'')" by code_simp+
  then have "Changed 10 (wraw ''v'') (wraw ''w'') \<in> set d" unfolding set_d by simp
  ultimately have "set d = {Changed 10 (wraw ''v'') (wraw ''w'')}" by blast
  with run d show ?thesis by blast
qed

text \<open>Also (\<open>diff_internals\<close>). The two are not one: the builder cuts the keys 0 to 16 and the keys 1 to 17 at
  different places here, and their diff, besides the removed key 0 and the added key 17, reports key 16
  as removed (and as added again), which both trees hold with the same value. \<open>diff_internals\<close> compares a whole child of
  one side with every child of the other side that it overlaps.\<close>

theorem diff_spurious_entries:
  "\<exists>d. fst (sbind (wbuild2 (wentries 0 17) (wentries 1 18)) (\<lambda>(a, b). sread (\<lambda>bs. prolly_diff wE bs 2 a b)) bs_new)
       = Inr d \<and>
     map_of (wentries 0 17) 16 = map_of (wentries 1 18) 16 \<and>
     Removed 16 (wraw ''v'') \<in> set d \<and> Added 16 (wraw ''v'') \<in> set d \<and> \<not> sorted_wrt (<) (map diff_key d)"
proof -
  let ?r = "fst (sbind (wbuild2 (wentries 0 17) (wentries 1 18)) (\<lambda>(a, b). sread (\<lambda>bs. prolly_diff wE bs 2 a b)) bs_new)"
  have "case ?r of Inl e \<Rightarrow> False | Inr d \<Rightarrow>
      map_of (wentries 0 17) 16 = map_of (wentries 1 18) 16 \<and>
      Removed 16 (wraw ''v'') \<in> set d \<and> Added 16 (wraw ''v'') \<in> set d \<and> \<not> sorted_wrt (<) (map diff_key d)"
    by code_simp
  then show ?thesis by (cases ?r) simp_all
qed

end
