(* ===== verification/Objects.thy ===== *)
theory Objects imports Serde Store begin

text \<open>
  The stored objects of the repository layer, \<open>crates/mnem-core/src/objects/\<close>: tombstones, refs and
  views (\<open>view.rs\<close>, \<open>tombstone.rs\<close>), operations (\<open>operation.rs\<close>), commits (\<open>commit.rs\<close>) and edges
  (\<open>edge.rs\<close>). Each is a record with its constructors, the value it is written as (\<open>ser_x\<close>, the
  struct \<open>XWire\<close> behind its \<open>Serialize\<close>) and the reader (\<open>de_x\<close>). \<open>x_ok\<close> is the condition under
  which writing and reading back is the identity: the forward-compatibility map \<open>extra\<close> holds no key
  that is a field.
\<close>

section \<open>Signatures\<close>

record signature =
  sg_algo :: string
  sg_public_key :: bytes
  sg_sig :: bytes

definition ser_signature :: "signature \<Rightarrow> 'c ipld" where
  "ser_signature s = IMap (wire_map
     [(''algo'', Some (IString (sg_algo s))),
      (''public_key'', Some (IBytes (sg_public_key s))),
      (''sig'', Some (IBytes (sg_sig s)))] fmempty)"

definition de_signature :: "'c ipld \<Rightarrow> codec_error + signature" where
  "de_signature v =
     rbind (as_map v) (\<lambda>m.
     rbind (req m ''algo'' de_string) (\<lambda>algo.
     rbind (req m ''public_key'' de_bytes) (\<lambda>public_key.
     rbind (req m ''sig'' de_bytes) (\<lambda>sig.
     Inr \<lparr>sg_algo = algo, sg_public_key = public_key, sg_sig = sig\<rparr>))))"

lemma de_ser_signature [simp]: "de_signature (ser_signature s) = Inr s"
  by (simp add: de_signature_def ser_signature_def req_def fmlookup_wire_map)

lemma ser_signature_not_null [simp]: "ser_signature s \<noteq> INull"
  by (simp add: ser_signature_def)

section \<open>Tombstones\<close>

record 'c tombstone =
  ts_reason :: string
  ts_tombstoned_at :: u64
  ts_extra :: "'c ipld_map"

definition tombstone_new :: "string \<Rightarrow> u64 \<Rightarrow> 'c tombstone" where
  "tombstone_new reason tombstoned_at =
     \<lparr>ts_reason = reason, ts_tombstoned_at = tombstoned_at, ts_extra = fmempty\<rparr>"

definition TOMBSTONE_KIND :: string where "TOMBSTONE_KIND = ''tombstone''"

definition tombstone_names :: "string list" where
  "tombstone_names = [''_kind'', ''reason'', ''tombstoned_at'']"

definition tombstone_map :: "'c tombstone \<Rightarrow> 'c ipld_map" where
  "tombstone_map t = wire_map
     [(''_kind'', Some (IString TOMBSTONE_KIND)),
      (''reason'', Some (IString (ts_reason t))),
      (''tombstoned_at'', Some (ser_u64 (ts_tombstoned_at t)))] (ts_extra t)"

definition ser_tombstone :: "'c tombstone \<Rightarrow> 'c ipld" where
  "ser_tombstone t = IMap (tombstone_map t)"

definition de_tombstone :: "'c ipld \<Rightarrow> codec_error + 'c tombstone" where
  "de_tombstone v =
     rbind (as_map v) (\<lambda>m.
     rbind (req m ''_kind'' de_string) (\<lambda>kind.
     rbind (req m ''reason'' de_string) (\<lambda>reason.
     rbind (req m ''tombstoned_at'' de_u64) (\<lambda>tombstoned_at.
     let extra = rest_of tombstone_names m in
     if kind \<noteq> TOMBSTONE_KIND then Inl Decode
     else Inr \<lparr>ts_reason = reason, ts_tombstoned_at = tombstoned_at, ts_extra = extra\<rparr>))))"

definition tombstone_ok :: "'c tombstone \<Rightarrow> bool" where
  "tombstone_ok t \<longleftrightarrow> extra_ok (''node_id'' # tombstone_names) (ts_extra t)"

lemma rest_of_tombstone:
  "extra_ok tombstone_names (ts_extra t) \<Longrightarrow> rest_of tombstone_names (tombstone_map t) = ts_extra t"
  unfolding tombstone_map_def by (rule rest_of_written) (simp_all add: tombstone_names_def)

lemma de_ser_tombstone: "tombstone_ok t \<Longrightarrow> de_tombstone (ser_tombstone t) = Inr t"
proof -
  assume "tombstone_ok t"
  then have "rest_of tombstone_names (tombstone_map t) = ts_extra t"
    by (intro rest_of_tombstone) (simp add: tombstone_ok_def extra_ok_def)
  moreover have "fmlookup (tombstone_map t) ''_kind'' = Some (IString TOMBSTONE_KIND)"
    "fmlookup (tombstone_map t) ''reason'' = Some (IString (ts_reason t))"
    "fmlookup (tombstone_map t) ''tombstoned_at'' = Some (ser_u64 (ts_tombstoned_at t))"
    by (simp_all add: tombstone_map_def fmlookup_wire_map)
  ultimately show ?thesis by (simp add: de_tombstone_def ser_tombstone_def req_def Let_def)
qed

section \<open>Refs and views\<close>

datatype 'c ref_target = Normal 'c | Conflicted "'c list" "'c list"

definition ref_conflicted :: "'c::linorder list \<Rightarrow> 'c list \<Rightarrow> 'c ref_target" where
  "ref_conflicted adds removes = Conflicted (remdups_adj (sort adds)) (remdups_adj (sort removes))"

fun ser_ref_target :: "'c ref_target \<Rightarrow> 'c ipld" where
  "ser_ref_target (Normal target) = IMap (wire_map
     [(''kind'', Some (IString ''normal'')), (''target'', Some (ILink target))] fmempty)"
| "ser_ref_target (Conflicted adds removes) = IMap (wire_map
     [(''kind'', Some (IString ''conflicted'')),
      (''adds'', Some (IList (map ILink adds))),
      (''removes'', Some (IList (map ILink removes)))] fmempty)"

definition de_ref_target :: "'c ipld \<Rightarrow> codec_error + 'c ref_target" where
  "de_ref_target v =
     rbind (as_map v) (\<lambda>m.
     rbind (req m ''kind'' de_string) (\<lambda>kind.
     if kind = ''normal'' then rbind (req m ''target'' de_cid) (\<lambda>target. Inr (Normal target))
     else if kind = ''conflicted'' then
       rbind (req m ''adds'' (de_list de_cid)) (\<lambda>adds.
       rbind (req m ''removes'' (de_list de_cid)) (\<lambda>removes.
       Inr (Conflicted adds removes)))
     else Inl Decode))"

lemma de_ser_ref_target [simp]: "de_ref_target (ser_ref_target r) = Inr r"
  by (cases r) (simp_all add: de_ref_target_def req_def fmlookup_wire_map)

record 'c view =
  vw_heads :: "'c list"
  vw_refs :: "(string, 'c ref_target) fmap"
  vw_remote_refs :: "(string, (string, 'c ref_target) fmap) fmap option"
  vw_wc_commit :: "'c option"
  vw_tombstones :: "(node_id, 'c tombstone) fmap"
  vw_extra :: "'c ipld_map"

definition view_new :: "'c view" where
  "view_new = \<lparr>vw_heads = [], vw_refs = fmempty, vw_remote_refs = None, vw_wc_commit = None,
     vw_tombstones = fmempty, vw_extra = fmempty\<rparr>"

definition with_head :: "'c view \<Rightarrow> 'c \<Rightarrow> 'c view" where
  "with_head v head = v\<lparr>vw_heads := vw_heads v @ [head]\<rparr>"

definition with_ref :: "'c view \<Rightarrow> string \<Rightarrow> 'c ref_target \<Rightarrow> 'c view" where
  "with_ref v name target = v\<lparr>vw_refs := fmupd name target (vw_refs v)\<rparr>"

definition with_tracking_ref :: "'c view \<Rightarrow> string \<Rightarrow> string \<Rightarrow> 'c \<Rightarrow> 'c view" where
  "with_tracking_ref v remote ref_name target =
     (let map = (case vw_remote_refs v of None \<Rightarrow> fmempty | Some m \<Rightarrow> m);
          inner = (case fmlookup map remote of None \<Rightarrow> fmempty | Some m \<Rightarrow> m) in
      v\<lparr>vw_remote_refs := Some (fmupd remote (fmupd ref_name (Normal target) inner) map)\<rparr>)"

definition tracking_ref :: "'c view \<Rightarrow> string \<Rightarrow> string \<Rightarrow> 'c ref_target option" where
  "tracking_ref v remote ref_name =
     (case vw_remote_refs v of
        None \<Rightarrow> None
      | Some m \<Rightarrow> (case fmlookup m remote of None \<Rightarrow> None | Some inner \<Rightarrow> fmlookup inner ref_name))"

definition active_branch :: "'c view \<Rightarrow> string option" where
  "active_branch v =
     (case fmlookup (vw_extra v) ''active_branch'' of Some (IString s) \<Rightarrow> Some s | _ \<Rightarrow> None)"

definition with_active_branch :: "'c view \<Rightarrow> string \<Rightarrow> 'c view" where
  "with_active_branch v branch = v\<lparr>vw_extra := fmupd ''active_branch'' (IString branch) (vw_extra v)\<rparr>"

definition VIEW_KIND :: string where "VIEW_KIND = ''view''"

definition view_names :: "string list" where
  "view_names = [''_kind'', ''heads'', ''refs'', ''remote_refs'', ''wc_commit'', ''tombstones'']"

definition ser_tombstone_entry :: "node_id \<times> 'c tombstone \<Rightarrow> 'c ipld" where
  "ser_tombstone_entry e =
     IMap (wire_map [(''node_id'', Some (ser_key (fst e)))] (tombstone_map (snd e)))"

definition de_tombstone_entry :: "'c ipld \<Rightarrow> codec_error + (node_id \<times> 'c tombstone)" where
  "de_tombstone_entry v =
     rbind (as_map v) (\<lambda>m.
     rbind (req m ''node_id'' de_key) (\<lambda>node_id.
     rbind (de_tombstone (IMap (rest_of [''node_id''] m))) (\<lambda>tombstone.
     Inr (node_id, tombstone))))"

definition view_fields :: "'c view \<Rightarrow> 'c field list" where
  "view_fields v =
     [(''_kind'', Some (IString VIEW_KIND)),
      (''heads'', Some (IList (map ILink (vw_heads v)))),
      (''refs'', Some (ser_strmap ser_ref_target (vw_refs v))),
      (''remote_refs'', map_option (ser_strmap (ser_strmap ser_ref_target)) (vw_remote_refs v)),
      (''wc_commit'', map_option ILink (vw_wc_commit v)),
      (''tombstones'',
        if bt_iter (vw_tombstones v) = [] then None
        else Some (IList (map ser_tombstone_entry (bt_iter (vw_tombstones v)))))]"

definition ser_view :: "'c view \<Rightarrow> 'c ipld" where
  "ser_view v = IMap (wire_map (view_fields v) (vw_extra v))"

definition de_view :: "'c ipld \<Rightarrow> codec_error + 'c view" where
  "de_view v =
     rbind (as_map v) (\<lambda>m.
     rbind (req m ''_kind'' de_string) (\<lambda>kind.
     rbind (req m ''heads'' (de_list de_cid)) (\<lambda>heads.
     rbind (req m ''refs'' (de_strmap de_ref_target)) (\<lambda>refs.
     rbind (opt m ''remote_refs'' (de_strmap (de_strmap de_ref_target))) (\<lambda>remote_refs.
     rbind (opt m ''wc_commit'' de_cid) (\<lambda>wc_commit.
     rbind (dflt m ''tombstones'' [] (de_list de_tombstone_entry)) (\<lambda>entries.
     let extra = rest_of view_names m in
     if kind \<noteq> VIEW_KIND then Inl Decode
     else Inr \<lparr>vw_heads = heads, vw_refs = refs, vw_remote_refs = remote_refs, vw_wc_commit = wc_commit,
            vw_tombstones = insert_all entries, vw_extra = extra\<rparr>)))))))"

definition view_ok :: "'c view \<Rightarrow> bool" where
  "view_ok v \<longleftrightarrow> extra_ok view_names (vw_extra v) \<and> (\<forall>(k, t) \<in> set (bt_iter (vw_tombstones v)). tombstone_ok t)"

lemma de_ser_tombstone_entry: "tombstone_ok t \<Longrightarrow> de_tombstone_entry (ser_tombstone_entry (k, t)) = Inr (k, t)"
proof -
  assume ok: "tombstone_ok t"
  let ?m = "wire_map [(''node_id'', Some (ser_key k))] (tombstone_map t)"
  have "rest_of [''node_id''] ?m = tombstone_map t"
    using ok by (intro rest_of_written)
      (simp_all add: tombstone_map_def tombstone_ok_def extra_ok_def fmlookup_wire_map)
  moreover have "de_tombstone (IMap (tombstone_map t)) = Inr t"
    using de_ser_tombstone [OF ok] by (simp add: ser_tombstone_def)
  moreover have "fmlookup ?m ''node_id'' = Some (ser_key k)" by (simp add: fmlookup_wire_map)
  ultimately show ?thesis
    by (simp add: de_tombstone_entry_def ser_tombstone_entry_def req_def)
qed

lemma view_lookup:
  assumes "extra_ok view_names (vw_extra v)"
  defines "m \<equiv> wire_map (view_fields v) (vw_extra v)"
  shows
    "fmlookup m ''_kind'' = Some (IString VIEW_KIND)"
    "fmlookup m ''heads'' = Some (IList (map ILink (vw_heads v)))"
    "fmlookup m ''refs'' = Some (ser_strmap ser_ref_target (vw_refs v))"
    "fmlookup m ''remote_refs'' = map_option (ser_strmap (ser_strmap ser_ref_target)) (vw_remote_refs v)"
    "fmlookup m ''wc_commit'' = map_option ILink (vw_wc_commit v)"
    "fmlookup m ''tombstones'' = (if bt_iter (vw_tombstones v) = [] then None
        else Some (IList (map ser_tombstone_entry (bt_iter (vw_tombstones v)))))"
    "rest_of view_names m = vw_extra v"
proof -
  have d: "map fst (view_fields v) = view_names" "distinct view_names"
    by (simp_all add: view_fields_def view_names_def)
  note l = wire_lookup [of "view_fields v" "vw_extra v", unfolded d(1), OF d(2) assms(1)]
  show "fmlookup m ''_kind'' = Some (IString VIEW_KIND)"
    "fmlookup m ''heads'' = Some (IList (map ILink (vw_heads v)))"
    "fmlookup m ''refs'' = Some (ser_strmap ser_ref_target (vw_refs v))"
    "fmlookup m ''remote_refs'' = map_option (ser_strmap (ser_strmap ser_ref_target)) (vw_remote_refs v)"
    "fmlookup m ''wc_commit'' = map_option ILink (vw_wc_commit v)"
    "fmlookup m ''tombstones'' = (if bt_iter (vw_tombstones v) = [] then None
        else Some (IList (map ser_tombstone_entry (bt_iter (vw_tombstones v)))))"
    unfolding m_def by (rule l, simp add: view_fields_def)+
  show "rest_of view_names m = vw_extra v"
    unfolding m_def by (rule rest_of_written [OF d(1) [symmetric] d(2) assms(1)])
qed

lemma de_ser_view: "view_ok v \<Longrightarrow> de_view (ser_view v) = Inr v"
proof -
  assume ok: "view_ok v"
  let ?m = "wire_map (view_fields v) (vw_extra v)"
  have tombs: "rmap de_tombstone_entry (map ser_tombstone_entry (bt_iter (vw_tombstones v)))
      = Inr (bt_iter (vw_tombstones v))"
    using ok by (intro rmap_map_Inr) (auto simp: view_ok_def de_ser_tombstone_entry)
  have x: "extra_ok view_names (vw_extra v)" using ok by (simp add: view_ok_def)
  note look = view_lookup [OF x]
  have "dflt ?m ''tombstones'' [] (de_list de_tombstone_entry) = Inr (bt_iter (vw_tombstones v))"
    by (rule dflt_field [where ser = "\<lambda>es. IList (map ser_tombstone_entry es)"]) (simp_all add: look(6) tombs)
  moreover have "opt ?m ''remote_refs'' (de_strmap (de_strmap de_ref_target)) = Inr (vw_remote_refs v)"
    "opt ?m ''wc_commit'' de_cid = Inr (vw_wc_commit v)"
    by (rule opt_field, rule look, simp_all)+
  ultimately show ?thesis
    unfolding de_view_def ser_view_def by (simp add: req_field look Let_def)
qed

section \<open>Operations\<close>

record 'c operation =
  op_parents :: "'c list"
  op_view :: 'c
  op_predecessors :: "(string, change_id list) fmap option"
  op_author :: string
  op_agent_id :: "string option"
  op_task_id :: "string option"
  op_host :: "string option"
  op_time :: u64
  op_description :: string
  op_signature :: "signature option"
  op_extra :: "'c ipld_map"

definition operation_new :: "'c \<Rightarrow> string \<Rightarrow> u64 \<Rightarrow> string \<Rightarrow> 'c operation" where
  "operation_new view author time description =
     \<lparr>op_parents = [], op_view = view, op_predecessors = None, op_author = author, op_agent_id = None,
      op_task_id = None, op_host = None, op_time = time, op_description = description,
      op_signature = None, op_extra = fmempty\<rparr>"

definition op_with_parent :: "'c operation \<Rightarrow> 'c \<Rightarrow> 'c operation" where
  "op_with_parent o1 parent = o1\<lparr>op_parents := op_parents o1 @ [parent]\<rparr>"

definition OPERATION_KIND :: string where "OPERATION_KIND = ''operation''"

definition operation_names :: "string list" where
  "operation_names = [''_kind'', ''parents'', ''view'', ''predecessors'', ''author'', ''agent_id'', ''task_id'', ''host'', ''time'', ''description'', ''signature'']"

definition operation_fields :: "'c operation \<Rightarrow> 'c field list" where
  "operation_fields v =
     [(''_kind'', Some (IString OPERATION_KIND)),
      (''parents'', Some (IList (map ILink (op_parents v)))),
      (''view'', Some (ILink (op_view v))),
      (''predecessors'', map_option (ser_strmap (\<lambda>ids. IList (map ser_key ids))) (op_predecessors v)),
      (''author'', Some (IString (op_author v))),
      (''agent_id'', map_option IString (op_agent_id v)),
      (''task_id'', map_option IString (op_task_id v)),
      (''host'', map_option IString (op_host v)),
      (''time'', Some (ser_u64 (op_time v))),
      (''description'', Some (IString (op_description v))),
      (''signature'', map_option ser_signature (op_signature v))]"

definition ser_operation :: "'c operation \<Rightarrow> 'c ipld" where
  "ser_operation v = IMap (wire_map (operation_fields v) (op_extra v))"

definition de_operation :: "'c ipld \<Rightarrow> codec_error + 'c operation" where
  "de_operation v =
     rbind (as_map v) (\<lambda>m.
     rbind (req m ''_kind'' de_string) (\<lambda>kind.
     rbind (req m ''parents'' (de_list de_cid)) (\<lambda>parents.
     rbind (req m ''view'' de_cid) (\<lambda>view.
     rbind (opt m ''predecessors'' (de_strmap (de_list de_key))) (\<lambda>predecessors.
     rbind (req m ''author'' de_string) (\<lambda>author.
     rbind (opt m ''agent_id'' de_string) (\<lambda>agent_id.
     rbind (opt m ''task_id'' de_string) (\<lambda>task_id.
     rbind (opt m ''host'' de_string) (\<lambda>host.
     rbind (req m ''time'' de_u64) (\<lambda>time.
     rbind (req m ''description'' de_string) (\<lambda>description.
     rbind (opt m ''signature'' de_signature) (\<lambda>signature.
     if kind \<noteq> OPERATION_KIND then Inl Decode
     else Inr \<lparr>op_parents = parents, op_view = view, op_predecessors = predecessors, op_author = author,
          op_agent_id = agent_id, op_task_id = task_id, op_host = host, op_time = time, op_description =
          description, op_signature = signature, op_extra = rest_of operation_names m\<rparr>))))))))))))"

definition operation_ok :: "'c operation \<Rightarrow> bool" where
  "operation_ok v \<longleftrightarrow> extra_ok operation_names (op_extra v)"

lemma operation_lookup:
  assumes "operation_ok v"
  defines "m \<equiv> wire_map (operation_fields v) (op_extra v)"
  shows
    "fmlookup m ''_kind'' = Some (IString OPERATION_KIND)"
    "fmlookup m ''parents'' = Some (IList (map ILink (op_parents v)))"
    "fmlookup m ''view'' = Some (ILink (op_view v))"
    "fmlookup m ''predecessors'' = map_option (ser_strmap (\<lambda>ids. IList (map ser_key ids))) (op_predecessors v)"
    "fmlookup m ''author'' = Some (IString (op_author v))"
    "fmlookup m ''agent_id'' = map_option IString (op_agent_id v)"
    "fmlookup m ''task_id'' = map_option IString (op_task_id v)"
    "fmlookup m ''host'' = map_option IString (op_host v)"
    "fmlookup m ''time'' = Some (ser_u64 (op_time v))"
    "fmlookup m ''description'' = Some (IString (op_description v))"
    "fmlookup m ''signature'' = map_option ser_signature (op_signature v)"
    "rest_of operation_names m = op_extra v"
proof -
  have d: "map fst (operation_fields v) = operation_names" "distinct operation_names"
    by (simp_all add: operation_fields_def operation_names_def)
  have x: "extra_ok operation_names (op_extra v)" using assms(1) by (simp add: operation_ok_def)
  note l = wire_lookup [of "operation_fields v" "op_extra v", unfolded d(1), OF d(2) x]
  show
    "fmlookup m ''_kind'' = Some (IString OPERATION_KIND)"
    "fmlookup m ''parents'' = Some (IList (map ILink (op_parents v)))"
    "fmlookup m ''view'' = Some (ILink (op_view v))"
    "fmlookup m ''predecessors'' = map_option (ser_strmap (\<lambda>ids. IList (map ser_key ids))) (op_predecessors v)"
    "fmlookup m ''author'' = Some (IString (op_author v))"
    "fmlookup m ''agent_id'' = map_option IString (op_agent_id v)"
    "fmlookup m ''task_id'' = map_option IString (op_task_id v)"
    "fmlookup m ''host'' = map_option IString (op_host v)"
    "fmlookup m ''time'' = Some (ser_u64 (op_time v))"
    "fmlookup m ''description'' = Some (IString (op_description v))"
    "fmlookup m ''signature'' = map_option ser_signature (op_signature v)"
    unfolding m_def by (rule l, simp add: operation_fields_def)+
  show "rest_of operation_names m = op_extra v"
    unfolding m_def by (rule rest_of_written [OF d(1) [symmetric] d(2) x])
qed

lemma de_ser_operation: "operation_ok v \<Longrightarrow> de_operation (ser_operation v) = Inr v"
proof -
  assume ok: "operation_ok v"
  let ?m = "wire_map (operation_fields v) (op_extra v)"
  note look = operation_lookup [OF ok]
  have "opt ?m ''predecessors'' (de_strmap (de_list de_key)) = Inr (op_predecessors v)"
    "opt ?m ''agent_id'' de_string = Inr (op_agent_id v)"
    "opt ?m ''task_id'' de_string = Inr (op_task_id v)"
    "opt ?m ''host'' de_string = Inr (op_host v)"
    "opt ?m ''signature'' de_signature = Inr (op_signature v)"
    by (rule opt_field, rule look, simp_all)+
  then show ?thesis
    unfolding de_operation_def ser_operation_def by (simp add: req_field look)
qed

section \<open>Commits\<close>

record 'c commit =
  cm_change_id :: change_id
  cm_parents :: "'c list"
  cm_nodes :: 'c
  cm_edges :: 'c
  cm_schema :: 'c
  cm_delta :: "'c option"
  cm_indexes :: "'c option"
  cm_embeddings :: "'c option"
  cm_sparse :: "'c option"
  cm_author :: string
  cm_agent_id :: "string option"
  cm_task_id :: "string option"
  cm_time :: u64
  cm_message :: string
  cm_signature :: "signature option"
  cm_extra :: "'c ipld_map"

definition commit_new :: "change_id \<Rightarrow> 'c \<Rightarrow> 'c \<Rightarrow> 'c \<Rightarrow> string \<Rightarrow> u64 \<Rightarrow> string \<Rightarrow> 'c commit" where
  "commit_new change_id nodes edges schema author time message =
     \<lparr>cm_change_id = change_id, cm_parents = [], cm_nodes = nodes, cm_edges = edges, cm_schema = schema,
      cm_delta = None, cm_indexes = None, cm_embeddings = None, cm_sparse = None, cm_author = author,
      cm_agent_id = None, cm_task_id = None, cm_time = time, cm_message = message, cm_signature = None,
      cm_extra = fmempty\<rparr>"

definition cm_with_parent :: "'c commit \<Rightarrow> 'c \<Rightarrow> 'c commit" where
  "cm_with_parent c parent = c\<lparr>cm_parents := cm_parents c @ [parent]\<rparr>"

definition content_cid_payload :: "'c commit \<Rightarrow> 'c ipld" where
  "content_cid_payload c = IMap (wire_map
     [(''schema_version'', Some (IInteger 2)),
      (''nodes'', Some (ILink (cm_nodes c))),
      (''edges'', Some (ILink (cm_edges c))),
      (''schema'', Some (ILink (cm_schema c))),
      (''indexes'', map_option ILink (cm_indexes c))] fmempty)"

definition content_cid :: "('c, 'h, 'b) external \<Rightarrow> 'c commit \<Rightarrow> 'c error + 'c" where
  "content_cid E c = rbind (hash_to_cid E (content_cid_payload c)) (\<lambda>(bs, cid). Inr cid)"

definition COMMIT_KIND :: string where "COMMIT_KIND = ''commit''"

definition commit_names :: "string list" where
  "commit_names = [''_kind'', ''change_id'', ''parents'', ''nodes'', ''edges'', ''schema'', ''delta'', ''indexes'', ''embeddings'', ''sparse'', ''author'', ''agent_id'', ''task_id'', ''time'', ''message'', ''signature'']"

definition commit_fields :: "'c commit \<Rightarrow> 'c field list" where
  "commit_fields v =
     [(''_kind'', Some (IString COMMIT_KIND)),
      (''change_id'', Some (ser_key (cm_change_id v))),
      (''parents'', Some (IList (map ILink (cm_parents v)))),
      (''nodes'', Some (ILink (cm_nodes v))),
      (''edges'', Some (ILink (cm_edges v))),
      (''schema'', Some (ILink (cm_schema v))),
      (''delta'', map_option ILink (cm_delta v)),
      (''indexes'', map_option ILink (cm_indexes v)),
      (''embeddings'', map_option ILink (cm_embeddings v)),
      (''sparse'', map_option ILink (cm_sparse v)),
      (''author'', Some (IString (cm_author v))),
      (''agent_id'', map_option IString (cm_agent_id v)),
      (''task_id'', map_option IString (cm_task_id v)),
      (''time'', Some (ser_u64 (cm_time v))),
      (''message'', Some (IString (cm_message v))),
      (''signature'', map_option ser_signature (cm_signature v))]"

definition ser_commit :: "'c commit \<Rightarrow> 'c ipld" where
  "ser_commit v = IMap (wire_map (commit_fields v) (cm_extra v))"

definition de_commit :: "'c ipld \<Rightarrow> codec_error + 'c commit" where
  "de_commit v =
     rbind (as_map v) (\<lambda>m.
     rbind (req m ''_kind'' de_string) (\<lambda>kind.
     rbind (req m ''change_id'' de_key) (\<lambda>change_id.
     rbind (req m ''parents'' (de_list de_cid)) (\<lambda>parents.
     rbind (req m ''nodes'' de_cid) (\<lambda>nodes.
     rbind (req m ''edges'' de_cid) (\<lambda>edges.
     rbind (req m ''schema'' de_cid) (\<lambda>schema.
     rbind (opt m ''delta'' de_cid) (\<lambda>delta.
     rbind (opt m ''indexes'' de_cid) (\<lambda>indexes.
     rbind (opt m ''embeddings'' de_cid) (\<lambda>embeddings.
     rbind (opt m ''sparse'' de_cid) (\<lambda>sparse.
     rbind (req m ''author'' de_string) (\<lambda>author.
     rbind (opt m ''agent_id'' de_string) (\<lambda>agent_id.
     rbind (opt m ''task_id'' de_string) (\<lambda>task_id.
     rbind (req m ''time'' de_u64) (\<lambda>time.
     rbind (req m ''message'' de_string) (\<lambda>message.
     rbind (opt m ''signature'' de_signature) (\<lambda>signature.
     if kind \<noteq> COMMIT_KIND then Inl Decode
     else Inr \<lparr>cm_change_id = change_id, cm_parents = parents, cm_nodes = nodes, cm_edges = edges, cm_schema =
          schema, cm_delta = delta, cm_indexes = indexes, cm_embeddings = embeddings, cm_sparse = sparse,
          cm_author = author, cm_agent_id = agent_id, cm_task_id = task_id, cm_time = time, cm_message =
          message, cm_signature = signature, cm_extra = rest_of commit_names m\<rparr>)))))))))))))))))"

definition commit_ok :: "'c commit \<Rightarrow> bool" where
  "commit_ok v \<longleftrightarrow> extra_ok commit_names (cm_extra v)"

lemma commit_lookup:
  assumes "commit_ok v"
  defines "m \<equiv> wire_map (commit_fields v) (cm_extra v)"
  shows
    "fmlookup m ''_kind'' = Some (IString COMMIT_KIND)"
    "fmlookup m ''change_id'' = Some (ser_key (cm_change_id v))"
    "fmlookup m ''parents'' = Some (IList (map ILink (cm_parents v)))"
    "fmlookup m ''nodes'' = Some (ILink (cm_nodes v))"
    "fmlookup m ''edges'' = Some (ILink (cm_edges v))"
    "fmlookup m ''schema'' = Some (ILink (cm_schema v))"
    "fmlookup m ''delta'' = map_option ILink (cm_delta v)"
    "fmlookup m ''indexes'' = map_option ILink (cm_indexes v)"
    "fmlookup m ''embeddings'' = map_option ILink (cm_embeddings v)"
    "fmlookup m ''sparse'' = map_option ILink (cm_sparse v)"
    "fmlookup m ''author'' = Some (IString (cm_author v))"
    "fmlookup m ''agent_id'' = map_option IString (cm_agent_id v)"
    "fmlookup m ''task_id'' = map_option IString (cm_task_id v)"
    "fmlookup m ''time'' = Some (ser_u64 (cm_time v))"
    "fmlookup m ''message'' = Some (IString (cm_message v))"
    "fmlookup m ''signature'' = map_option ser_signature (cm_signature v)"
    "rest_of commit_names m = cm_extra v"
proof -
  have d: "map fst (commit_fields v) = commit_names" "distinct commit_names"
    by (simp_all add: commit_fields_def commit_names_def)
  have x: "extra_ok commit_names (cm_extra v)" using assms(1) by (simp add: commit_ok_def)
  note l = wire_lookup [of "commit_fields v" "cm_extra v", unfolded d(1), OF d(2) x]
  show
    "fmlookup m ''_kind'' = Some (IString COMMIT_KIND)"
    "fmlookup m ''change_id'' = Some (ser_key (cm_change_id v))"
    "fmlookup m ''parents'' = Some (IList (map ILink (cm_parents v)))"
    "fmlookup m ''nodes'' = Some (ILink (cm_nodes v))"
    "fmlookup m ''edges'' = Some (ILink (cm_edges v))"
    "fmlookup m ''schema'' = Some (ILink (cm_schema v))"
    "fmlookup m ''delta'' = map_option ILink (cm_delta v)"
    "fmlookup m ''indexes'' = map_option ILink (cm_indexes v)"
    "fmlookup m ''embeddings'' = map_option ILink (cm_embeddings v)"
    "fmlookup m ''sparse'' = map_option ILink (cm_sparse v)"
    "fmlookup m ''author'' = Some (IString (cm_author v))"
    "fmlookup m ''agent_id'' = map_option IString (cm_agent_id v)"
    "fmlookup m ''task_id'' = map_option IString (cm_task_id v)"
    "fmlookup m ''time'' = Some (ser_u64 (cm_time v))"
    "fmlookup m ''message'' = Some (IString (cm_message v))"
    "fmlookup m ''signature'' = map_option ser_signature (cm_signature v)"
    unfolding m_def by (rule l, simp add: commit_fields_def)+
  show "rest_of commit_names m = cm_extra v"
    unfolding m_def by (rule rest_of_written [OF d(1) [symmetric] d(2) x])
qed

lemma de_ser_commit: "commit_ok v \<Longrightarrow> de_commit (ser_commit v) = Inr v"
proof -
  assume ok: "commit_ok v"
  let ?m = "wire_map (commit_fields v) (cm_extra v)"
  note look = commit_lookup [OF ok]
  have "opt ?m ''delta'' de_cid = Inr (cm_delta v)"
    "opt ?m ''indexes'' de_cid = Inr (cm_indexes v)"
    "opt ?m ''embeddings'' de_cid = Inr (cm_embeddings v)"
    "opt ?m ''sparse'' de_cid = Inr (cm_sparse v)"
    "opt ?m ''agent_id'' de_string = Inr (cm_agent_id v)"
    "opt ?m ''task_id'' de_string = Inr (cm_task_id v)"
    "opt ?m ''signature'' de_signature = Inr (cm_signature v)"
    by (rule opt_field, rule look, simp_all)+
  then show ?thesis
    unfolding de_commit_def ser_commit_def by (simp add: req_field look)
qed

lemma content_cid_payload_eq:
  "content_cid_payload c = content_cid_payload d \<longleftrightarrow>
     cm_nodes c = cm_nodes d \<and> cm_edges c = cm_edges d \<and> cm_schema c = cm_schema d \<and> cm_indexes c = cm_indexes d"
proof
  assume eq: "content_cid_payload c = content_cid_payload d"
  let ?l = "\<lambda>c k. case content_cid_payload c of IMap m \<Rightarrow> fmlookup m k | _ \<Rightarrow> None"
  have l: "?l c ''nodes'' = Some (ILink (cm_nodes c))" "?l c ''edges'' = Some (ILink (cm_edges c))"
    "?l c ''schema'' = Some (ILink (cm_schema c))" "?l c ''indexes'' = map_option ILink (cm_indexes c)"
    for c :: "'a commit"
    by (simp_all add: content_cid_payload_def fmlookup_wire_map split: option.split)
  have "?l c k = ?l d k" for k using eq by (simp only:)
  from this [of "''nodes''"] this [of "''edges''"] this [of "''schema''"] this [of "''indexes''"]
  show "cm_nodes c = cm_nodes d \<and> cm_edges c = cm_edges d \<and> cm_schema c = cm_schema d \<and> cm_indexes c = cm_indexes d"
    by (simp add: l option.inj_map_strong) (cases "cm_indexes c"; cases "cm_indexes d"; simp)
qed (simp add: content_cid_payload_def)

section \<open>Edges\<close>

record 'c edge =
  ed_id :: edge_id
  ed_etype :: string
  ed_src :: node_id
  ed_dst :: node_id
  ed_props :: "'c ipld_map"
  ed_extra :: "'c ipld_map"

definition edge_new :: "edge_id \<Rightarrow> string \<Rightarrow> node_id \<Rightarrow> node_id \<Rightarrow> 'c edge" where
  "edge_new eid etype src dst =
     \<lparr>ed_id = eid, ed_etype = etype, ed_src = src, ed_dst = dst, ed_props = fmempty, ed_extra = fmempty\<rparr>"

definition edge_with_prop :: "'c edge \<Rightarrow> string \<Rightarrow> 'c ipld \<Rightarrow> 'c edge" where
  "edge_with_prop e key value = e\<lparr>ed_props := fmupd key value (ed_props e)\<rparr>"

definition EDGE_KIND :: string where "EDGE_KIND = ''edge''"

definition edge_names :: "string list" where
  "edge_names = [''_kind'', ''id'', ''etype'', ''src'', ''dst'', ''props'']"

definition edge_fields :: "'c edge \<Rightarrow> 'c field list" where
  "edge_fields v =
     [(''_kind'', Some (IString EDGE_KIND)),
      (''id'', Some (ser_key (ed_id v))),
      (''etype'', Some (IString (ed_etype v))),
      (''src'', Some (ser_key (ed_src v))),
      (''dst'', Some (ser_key (ed_dst v))),
      (''props'', Some (IMap (ed_props v)))]"

definition ser_edge :: "'c edge \<Rightarrow> 'c ipld" where
  "ser_edge v = IMap (wire_map (edge_fields v) (ed_extra v))"

definition de_edge :: "'c ipld \<Rightarrow> codec_error + 'c edge" where
  "de_edge v =
     rbind (as_map v) (\<lambda>m.
     rbind (req m ''_kind'' de_string) (\<lambda>kind.
     rbind (req m ''id'' de_key) (\<lambda>id.
     rbind (req m ''etype'' de_string) (\<lambda>etype.
     rbind (req m ''src'' de_key) (\<lambda>src.
     rbind (req m ''dst'' de_key) (\<lambda>dst.
     rbind (req m ''props'' as_map) (\<lambda>props.
     if kind \<noteq> EDGE_KIND then Inl Decode
     else Inr \<lparr>ed_id = id, ed_etype = etype, ed_src = src, ed_dst = dst, ed_props = props, ed_extra = rest_of
          edge_names m\<rparr>)))))))"

definition edge_ok :: "'c edge \<Rightarrow> bool" where
  "edge_ok v \<longleftrightarrow> extra_ok edge_names (ed_extra v)"

lemma edge_lookup:
  assumes "edge_ok v"
  defines "m \<equiv> wire_map (edge_fields v) (ed_extra v)"
  shows
    "fmlookup m ''_kind'' = Some (IString EDGE_KIND)"
    "fmlookup m ''id'' = Some (ser_key (ed_id v))"
    "fmlookup m ''etype'' = Some (IString (ed_etype v))"
    "fmlookup m ''src'' = Some (ser_key (ed_src v))"
    "fmlookup m ''dst'' = Some (ser_key (ed_dst v))"
    "fmlookup m ''props'' = Some (IMap (ed_props v))"
    "rest_of edge_names m = ed_extra v"
proof -
  have d: "map fst (edge_fields v) = edge_names" "distinct edge_names"
    by (simp_all add: edge_fields_def edge_names_def)
  have x: "extra_ok edge_names (ed_extra v)" using assms(1) by (simp add: edge_ok_def)
  note l = wire_lookup [of "edge_fields v" "ed_extra v", unfolded d(1), OF d(2) x]
  show
    "fmlookup m ''_kind'' = Some (IString EDGE_KIND)"
    "fmlookup m ''id'' = Some (ser_key (ed_id v))"
    "fmlookup m ''etype'' = Some (IString (ed_etype v))"
    "fmlookup m ''src'' = Some (ser_key (ed_src v))"
    "fmlookup m ''dst'' = Some (ser_key (ed_dst v))"
    "fmlookup m ''props'' = Some (IMap (ed_props v))"
    unfolding m_def by (rule l, simp add: edge_fields_def)+
  show "rest_of edge_names m = ed_extra v"
    unfolding m_def by (rule rest_of_written [OF d(1) [symmetric] d(2) x])
qed

lemma de_ser_edge: "edge_ok v \<Longrightarrow> de_edge (ser_edge v) = Inr v"
  unfolding de_edge_def ser_edge_def by (simp add: req_field edge_lookup)

end
