(* ===== verification/Index_Objects.thy ===== *)
theory Index_Objects imports Objects begin

text \<open>
  The objects of the secondary indexes: nodes (\<open>objects/node.rs\<close>), and the index set with the adjacency
  buckets of both directions (\<open>objects/index_set.rs\<close>), each with its wire form and reader as in theory
  \<open>Objects\<close>. The field \<open>outgoing\<close> of an index set has the serde alias \<open>adjacency\<close>: either name is read,
  both at once is an error, and only \<open>outgoing\<close> is written.
\<close>

section \<open>Nodes\<close>

record 'c node =
  nd_id :: node_id
  nd_ntype :: string
  nd_summary :: "string option"
  nd_props :: "'c ipld_map"
  nd_content :: "bytes option"
  nd_context_sentence :: "string option"
  nd_extra :: "'c ipld_map"

definition DEFAULT_NTYPE :: string where "DEFAULT_NTYPE = ''Node''"

definition node_new :: "node_id \<Rightarrow> string \<Rightarrow> 'c node" where
  "node_new nid ntype =
     \<lparr>nd_id = nid, nd_ntype = ntype, nd_summary = None, nd_props = fmempty, nd_content = None,
      nd_context_sentence = None, nd_extra = fmempty\<rparr>"

definition node_new_default :: "node_id \<Rightarrow> 'c node" where
  "node_new_default nid = node_new nid DEFAULT_NTYPE"

definition with_summary :: "'c node \<Rightarrow> string \<Rightarrow> 'c node" where
  "with_summary n summary = n\<lparr>nd_summary := Some summary\<rparr>"

definition node_with_prop :: "'c node \<Rightarrow> string \<Rightarrow> 'c ipld \<Rightarrow> 'c node" where
  "node_with_prop n key value = n\<lparr>nd_props := fmupd key value (nd_props n)\<rparr>"

definition with_content :: "'c node \<Rightarrow> bytes \<Rightarrow> 'c node" where
  "with_content n content = n\<lparr>nd_content := Some content\<rparr>"

definition with_context_sentence :: "'c node \<Rightarrow> string \<Rightarrow> 'c node" where
  "with_context_sentence n context_sentence = n\<lparr>nd_context_sentence := Some context_sentence\<rparr>"

definition get_str :: "'c node \<Rightarrow> string \<Rightarrow> string option" where
  "get_str n key = (case fmlookup (nd_props n) key of Some (IString s) \<Rightarrow> Some s | _ \<Rightarrow> None)"

definition get_int :: "'c node \<Rightarrow> string \<Rightarrow> int option" where
  "get_int n key = (case fmlookup (nd_props n) key of Some (IInteger i) \<Rightarrow> Some i | _ \<Rightarrow> None)"

definition get_bool :: "'c node \<Rightarrow> string \<Rightarrow> bool option" where
  "get_bool n key = (case fmlookup (nd_props n) key of Some (IBool b) \<Rightarrow> Some b | _ \<Rightarrow> None)"

definition get_float :: "'c node \<Rightarrow> string \<Rightarrow> u64 option" where
  "get_float n key = (case fmlookup (nd_props n) key of Some (IFloat f) \<Rightarrow> Some f | _ \<Rightarrow> None)"

definition get_bytes :: "'c node \<Rightarrow> string \<Rightarrow> bytes option" where
  "get_bytes n key = (case fmlookup (nd_props n) key of Some (IBytes b) \<Rightarrow> Some b | _ \<Rightarrow> None)"

definition NODE_KIND :: string where "NODE_KIND = ''node''"

definition node_names :: "string list" where
  "node_names = [''_kind'', ''id'', ''ntype'', ''summary'', ''props'', ''content'', ''context_sentence'']"

definition node_fields :: "'c node \<Rightarrow> 'c field list" where
  "node_fields v =
     [(''_kind'', Some (IString NODE_KIND)),
      (''id'', Some (ser_key (nd_id v))),
      (''ntype'', Some (IString (nd_ntype v))),
      (''summary'', map_option IString (nd_summary v)),
      (''props'', Some (IMap (nd_props v))),
      (''content'', map_option IBytes (nd_content v)),
      (''context_sentence'', map_option IString (nd_context_sentence v))]"

definition ser_node :: "'c node \<Rightarrow> 'c ipld" where
  "ser_node v = IMap (wire_map (node_fields v) (nd_extra v))"

definition de_node :: "'c ipld \<Rightarrow> codec_error + 'c node" where
  "de_node v =
     rbind (as_map v) (\<lambda>m.
     rbind (req m ''_kind'' de_string) (\<lambda>kind.
     rbind (req m ''id'' de_key) (\<lambda>id.
     rbind (req m ''ntype'' de_string) (\<lambda>ntype.
     rbind (opt m ''summary'' de_string) (\<lambda>summary.
     rbind (req m ''props'' as_map) (\<lambda>props.
     rbind (opt m ''content'' de_bytes) (\<lambda>content.
     rbind (opt m ''context_sentence'' de_string) (\<lambda>context_sentence.
     if kind \<noteq> NODE_KIND then Inl Decode
     else Inr \<lparr>nd_id = id, nd_ntype = ntype, nd_summary = summary, nd_props = props, nd_content = content, nd_context_sentence = context_sentence,
          nd_extra = rest_of node_names m\<rparr>))))))))"

definition node_ok :: "'c node \<Rightarrow> bool" where
  "node_ok v \<longleftrightarrow> extra_ok node_names (nd_extra v)"

lemma node_lookup:
  assumes "node_ok v"
  defines "m \<equiv> wire_map (node_fields v) (nd_extra v)"
  shows
    "fmlookup m ''_kind'' = Some (IString NODE_KIND)"
    "fmlookup m ''id'' = Some (ser_key (nd_id v))"
    "fmlookup m ''ntype'' = Some (IString (nd_ntype v))"
    "fmlookup m ''summary'' = map_option IString (nd_summary v)"
    "fmlookup m ''props'' = Some (IMap (nd_props v))"
    "fmlookup m ''content'' = map_option IBytes (nd_content v)"
    "fmlookup m ''context_sentence'' = map_option IString (nd_context_sentence v)"
    "rest_of node_names m = nd_extra v"
proof -
  have d: "map fst (node_fields v) = node_names" "distinct node_names"
    by (simp_all add: node_fields_def node_names_def)
  have x: "extra_ok node_names (nd_extra v)" using assms(1) by (simp add: node_ok_def)
  note l = wire_lookup [of "node_fields v" "nd_extra v", unfolded d(1), OF d(2) x]
  show
    "fmlookup m ''_kind'' = Some (IString NODE_KIND)"
    "fmlookup m ''id'' = Some (ser_key (nd_id v))"
    "fmlookup m ''ntype'' = Some (IString (nd_ntype v))"
    "fmlookup m ''summary'' = map_option IString (nd_summary v)"
    "fmlookup m ''props'' = Some (IMap (nd_props v))"
    "fmlookup m ''content'' = map_option IBytes (nd_content v)"
    "fmlookup m ''context_sentence'' = map_option IString (nd_context_sentence v)"
    unfolding m_def by (rule l, simp add: node_fields_def)+
  show "rest_of node_names m = nd_extra v"
    unfolding m_def by (rule rest_of_written [OF d(1) [symmetric] d(2) x])
qed

lemma de_ser_node: "node_ok v \<Longrightarrow> de_node (ser_node v) = Inr v"
proof -
  assume ok: "node_ok v"
  let ?m = "wire_map (node_fields v) (nd_extra v)"
  note look = node_lookup [OF ok]
  have "opt ?m ''summary'' de_string = Inr (nd_summary v)"
    "opt ?m ''content'' de_bytes = Inr (nd_content v)"
    "opt ?m ''context_sentence'' de_string = Inr (nd_context_sentence v)"
    by (rule opt_field, rule look, simp_all)+
  then show ?thesis
    unfolding de_node_def ser_node_def by (simp add: req_field look)
qed

section \<open>Adjacency buckets\<close>

record 'c adjacency_entry =
  ae_label :: string
  ae_edge :: 'c

record 'c adjacency_bucket =
  ab_edges :: "'c adjacency_entry list"
  ab_extra :: "'c ipld_map"

record 'c incoming_entry =
  ie_label :: string
  ie_src :: node_id
  ie_edge :: 'c

record 'c incoming_bucket =
  ib_edges :: "'c incoming_entry list"
  ib_extra :: "'c ipld_map"

definition ser_adjacency_entry :: "'c adjacency_entry \<Rightarrow> 'c ipld" where
  "ser_adjacency_entry a = IMap (wire_map
     [(''label'', Some (IString (ae_label a))), (''edge'', Some (ILink (ae_edge a)))] fmempty)"

definition de_adjacency_entry :: "'c ipld \<Rightarrow> codec_error + 'c adjacency_entry" where
  "de_adjacency_entry v =
     rbind (as_map v) (\<lambda>m.
     rbind (req m ''label'' de_string) (\<lambda>label.
     rbind (req m ''edge'' de_cid) (\<lambda>edge.
     Inr \<lparr>ae_label = label, ae_edge = edge\<rparr>)))"

lemma de_ser_adjacency_entry [simp]: "de_adjacency_entry (ser_adjacency_entry a) = Inr a"
  by (simp add: de_adjacency_entry_def ser_adjacency_entry_def req_def fmlookup_wire_map)

definition ser_incoming_entry :: "'c incoming_entry \<Rightarrow> 'c ipld" where
  "ser_incoming_entry a = IMap (wire_map
     [(''label'', Some (IString (ie_label a))), (''src'', Some (ser_key (ie_src a))),
      (''edge'', Some (ILink (ie_edge a)))] fmempty)"

definition de_incoming_entry :: "'c ipld \<Rightarrow> codec_error + 'c incoming_entry" where
  "de_incoming_entry v =
     rbind (as_map v) (\<lambda>m.
     rbind (req m ''label'' de_string) (\<lambda>label.
     rbind (req m ''src'' de_key) (\<lambda>src.
     rbind (req m ''edge'' de_cid) (\<lambda>edge.
     Inr \<lparr>ie_label = label, ie_src = src, ie_edge = edge\<rparr>))))"

lemma de_ser_incoming_entry [simp]: "de_incoming_entry (ser_incoming_entry a) = Inr a"
  by (simp add: de_incoming_entry_def ser_incoming_entry_def req_def fmlookup_wire_map)

definition ADJACENCY_BUCKET_KIND :: string where "ADJACENCY_BUCKET_KIND = ''adjacency_bucket''"

definition adjacency_bucket_names :: "string list" where
  "adjacency_bucket_names = [''_kind'', ''edges'']"

definition adjacency_bucket_fields :: "'c adjacency_bucket \<Rightarrow> 'c field list" where
  "adjacency_bucket_fields v =
     [(''_kind'', Some (IString ADJACENCY_BUCKET_KIND)),
      (''edges'', Some ((\<lambda>es. IList (map ser_adjacency_entry es)) (ab_edges v)))]"

definition ser_adjacency_bucket :: "'c adjacency_bucket \<Rightarrow> 'c ipld" where
  "ser_adjacency_bucket v = IMap (wire_map (adjacency_bucket_fields v) (ab_extra v))"

definition de_adjacency_bucket :: "'c ipld \<Rightarrow> codec_error + 'c adjacency_bucket" where
  "de_adjacency_bucket v =
     rbind (as_map v) (\<lambda>m.
     rbind (req m ''_kind'' de_string) (\<lambda>kind.
     rbind (req m ''edges'' (de_list de_adjacency_entry)) (\<lambda>edges.
     if kind \<noteq> ADJACENCY_BUCKET_KIND then Inl Decode
     else Inr \<lparr>ab_edges = edges,
          ab_extra = rest_of adjacency_bucket_names m\<rparr>)))"

definition adjacency_bucket_ok :: "'c adjacency_bucket \<Rightarrow> bool" where
  "adjacency_bucket_ok v \<longleftrightarrow> extra_ok adjacency_bucket_names (ab_extra v)"

lemma adjacency_bucket_lookup:
  assumes "adjacency_bucket_ok v"
  defines "m \<equiv> wire_map (adjacency_bucket_fields v) (ab_extra v)"
  shows
    "fmlookup m ''_kind'' = Some (IString ADJACENCY_BUCKET_KIND)"
    "fmlookup m ''edges'' = Some ((\<lambda>es. IList (map ser_adjacency_entry es)) (ab_edges v))"
    "rest_of adjacency_bucket_names m = ab_extra v"
proof -
  have d: "map fst (adjacency_bucket_fields v) = adjacency_bucket_names" "distinct adjacency_bucket_names"
    by (simp_all add: adjacency_bucket_fields_def adjacency_bucket_names_def)
  have x: "extra_ok adjacency_bucket_names (ab_extra v)" using assms(1) by (simp add: adjacency_bucket_ok_def)
  note l = wire_lookup [of "adjacency_bucket_fields v" "ab_extra v", unfolded d(1), OF d(2) x]
  show
    "fmlookup m ''_kind'' = Some (IString ADJACENCY_BUCKET_KIND)"
    "fmlookup m ''edges'' = Some ((\<lambda>es. IList (map ser_adjacency_entry es)) (ab_edges v))"
    unfolding m_def by (rule l, simp add: adjacency_bucket_fields_def)+
  show "rest_of adjacency_bucket_names m = ab_extra v"
    unfolding m_def by (rule rest_of_written [OF d(1) [symmetric] d(2) x])
qed

lemma de_ser_adjacency_bucket: "adjacency_bucket_ok v \<Longrightarrow> de_adjacency_bucket (ser_adjacency_bucket v) = Inr v"
proof -
  assume ok: "adjacency_bucket_ok v"
  let ?m = "wire_map (adjacency_bucket_fields v) (ab_extra v)"
  note look = adjacency_bucket_lookup [OF ok]
  show ?thesis
    unfolding de_adjacency_bucket_def ser_adjacency_bucket_def by (simp add: req_field look)
qed

definition INCOMING_BUCKET_KIND :: string where "INCOMING_BUCKET_KIND = ''incoming_adjacency_bucket''"

definition incoming_bucket_names :: "string list" where
  "incoming_bucket_names = [''_kind'', ''edges'']"

definition incoming_bucket_fields :: "'c incoming_bucket \<Rightarrow> 'c field list" where
  "incoming_bucket_fields v =
     [(''_kind'', Some (IString INCOMING_BUCKET_KIND)),
      (''edges'', Some ((\<lambda>es. IList (map ser_incoming_entry es)) (ib_edges v)))]"

definition ser_incoming_bucket :: "'c incoming_bucket \<Rightarrow> 'c ipld" where
  "ser_incoming_bucket v = IMap (wire_map (incoming_bucket_fields v) (ib_extra v))"

definition de_incoming_bucket :: "'c ipld \<Rightarrow> codec_error + 'c incoming_bucket" where
  "de_incoming_bucket v =
     rbind (as_map v) (\<lambda>m.
     rbind (req m ''_kind'' de_string) (\<lambda>kind.
     rbind (req m ''edges'' (de_list de_incoming_entry)) (\<lambda>edges.
     if kind \<noteq> INCOMING_BUCKET_KIND then Inl Decode
     else Inr \<lparr>ib_edges = edges,
          ib_extra = rest_of incoming_bucket_names m\<rparr>)))"

definition incoming_bucket_ok :: "'c incoming_bucket \<Rightarrow> bool" where
  "incoming_bucket_ok v \<longleftrightarrow> extra_ok incoming_bucket_names (ib_extra v)"

lemma incoming_bucket_lookup:
  assumes "incoming_bucket_ok v"
  defines "m \<equiv> wire_map (incoming_bucket_fields v) (ib_extra v)"
  shows
    "fmlookup m ''_kind'' = Some (IString INCOMING_BUCKET_KIND)"
    "fmlookup m ''edges'' = Some ((\<lambda>es. IList (map ser_incoming_entry es)) (ib_edges v))"
    "rest_of incoming_bucket_names m = ib_extra v"
proof -
  have d: "map fst (incoming_bucket_fields v) = incoming_bucket_names" "distinct incoming_bucket_names"
    by (simp_all add: incoming_bucket_fields_def incoming_bucket_names_def)
  have x: "extra_ok incoming_bucket_names (ib_extra v)" using assms(1) by (simp add: incoming_bucket_ok_def)
  note l = wire_lookup [of "incoming_bucket_fields v" "ib_extra v", unfolded d(1), OF d(2) x]
  show
    "fmlookup m ''_kind'' = Some (IString INCOMING_BUCKET_KIND)"
    "fmlookup m ''edges'' = Some ((\<lambda>es. IList (map ser_incoming_entry es)) (ib_edges v))"
    unfolding m_def by (rule l, simp add: incoming_bucket_fields_def)+
  show "rest_of incoming_bucket_names m = ib_extra v"
    unfolding m_def by (rule rest_of_written [OF d(1) [symmetric] d(2) x])
qed

lemma de_ser_incoming_bucket: "incoming_bucket_ok v \<Longrightarrow> de_incoming_bucket (ser_incoming_bucket v) = Inr v"
proof -
  assume ok: "incoming_bucket_ok v"
  let ?m = "wire_map (incoming_bucket_fields v) (ib_extra v)"
  note look = incoming_bucket_lookup [OF ok]
  show ?thesis
    unfolding de_incoming_bucket_def ser_incoming_bucket_def by (simp add: req_field look)
qed

section \<open>Index sets\<close>

record 'c index_set =
  is_nodes_by_label :: "(string, 'c) fmap"
  is_nodes_by_prop :: "(string, (string, 'c) fmap) fmap"
  is_outgoing :: "'c option"
  is_incoming :: "'c option"
  is_extra :: "'c ipld_map"

definition de_aliased ::
    "'c ipld_map \<Rightarrow> string \<Rightarrow> string \<Rightarrow> ('c ipld \<Rightarrow> codec_error + 'a) \<Rightarrow> codec_error + 'a option" where
  "de_aliased m k alias de =
     (if fmlookup m k \<noteq> None \<and> fmlookup m alias \<noteq> None then Inl Decode
      else if fmlookup m alias \<noteq> None then opt m alias de
      else opt m k de)"

definition INDEX_SET_KIND :: string where "INDEX_SET_KIND = ''index_set''"

definition index_set_names :: "string list" where
  "index_set_names = [''_kind'', ''nodes_by_label'', ''nodes_by_prop'', ''outgoing'', ''incoming'', ''adjacency'']"

definition index_set_fields :: "'c index_set \<Rightarrow> 'c field list" where
  "index_set_fields v =
     [(''_kind'', Some (IString INDEX_SET_KIND)),
      (''nodes_by_label'', if is_nodes_by_label v = fmempty then None else Some ((ser_strmap ILink) (is_nodes_by_label v))),
      (''nodes_by_prop'', if is_nodes_by_prop v = fmempty then None else Some ((ser_strmap (ser_strmap ILink)) (is_nodes_by_prop v))),
      (''outgoing'', map_option ILink (is_outgoing v)),
      (''incoming'', map_option ILink (is_incoming v)),
      (''adjacency'', None)]"

definition ser_index_set :: "'c index_set \<Rightarrow> 'c ipld" where
  "ser_index_set v = IMap (wire_map (index_set_fields v) (is_extra v))"

definition de_index_set :: "'c ipld \<Rightarrow> codec_error + 'c index_set" where
  "de_index_set v =
     rbind (as_map v) (\<lambda>m.
     rbind (req m ''_kind'' de_string) (\<lambda>kind.
     rbind (dflt m ''nodes_by_label'' fmempty (de_strmap de_cid)) (\<lambda>nodes_by_label.
     rbind (dflt m ''nodes_by_prop'' fmempty (de_strmap (de_strmap de_cid))) (\<lambda>nodes_by_prop.
     rbind (de_aliased m ''outgoing'' ''adjacency'' de_cid) (\<lambda>outgoing.
     rbind (opt m ''incoming'' de_cid) (\<lambda>incoming.
     if kind \<noteq> INDEX_SET_KIND then Inl Decode
     else Inr \<lparr>is_nodes_by_label = nodes_by_label, is_nodes_by_prop = nodes_by_prop, is_outgoing = outgoing, is_incoming = incoming,
          is_extra = rest_of index_set_names m\<rparr>))))))"

definition index_set_ok :: "'c index_set \<Rightarrow> bool" where
  "index_set_ok v \<longleftrightarrow> extra_ok index_set_names (is_extra v)"

lemma index_set_lookup:
  assumes "index_set_ok v"
  defines "m \<equiv> wire_map (index_set_fields v) (is_extra v)"
  shows
    "fmlookup m ''_kind'' = Some (IString INDEX_SET_KIND)"
    "fmlookup m ''nodes_by_label'' = (if is_nodes_by_label v = fmempty then None else Some ((ser_strmap ILink) (is_nodes_by_label v)))"
    "fmlookup m ''nodes_by_prop'' = (if is_nodes_by_prop v = fmempty then None else Some ((ser_strmap (ser_strmap ILink)) (is_nodes_by_prop v)))"
    "fmlookup m ''outgoing'' = map_option ILink (is_outgoing v)"
    "fmlookup m ''incoming'' = map_option ILink (is_incoming v)"
    "fmlookup m ''adjacency'' = None"
    "rest_of index_set_names m = is_extra v"
proof -
  have d: "map fst (index_set_fields v) = index_set_names" "distinct index_set_names"
    by (simp_all add: index_set_fields_def index_set_names_def)
  have x: "extra_ok index_set_names (is_extra v)" using assms(1) by (simp add: index_set_ok_def)
  note l = wire_lookup [of "index_set_fields v" "is_extra v", unfolded d(1), OF d(2) x]
  show
    "fmlookup m ''_kind'' = Some (IString INDEX_SET_KIND)"
    "fmlookup m ''nodes_by_label'' = (if is_nodes_by_label v = fmempty then None else Some ((ser_strmap ILink) (is_nodes_by_label v)))"
    "fmlookup m ''nodes_by_prop'' = (if is_nodes_by_prop v = fmempty then None else Some ((ser_strmap (ser_strmap ILink)) (is_nodes_by_prop v)))"
    "fmlookup m ''outgoing'' = map_option ILink (is_outgoing v)"
    "fmlookup m ''incoming'' = map_option ILink (is_incoming v)"
    "fmlookup m ''adjacency'' = None"
    unfolding m_def by (rule l, simp add: index_set_fields_def)+
  show "rest_of index_set_names m = is_extra v"
    unfolding m_def by (rule rest_of_written [OF d(1) [symmetric] d(2) x])
qed

lemma de_ser_index_set: "index_set_ok v \<Longrightarrow> de_index_set (ser_index_set v) = Inr v"
proof -
  assume ok: "index_set_ok v"
  let ?m = "wire_map (index_set_fields v) (is_extra v)"
  note look = index_set_lookup [OF ok]
  have "opt ?m ''outgoing'' de_cid = Inr (is_outgoing v)"
    "opt ?m ''incoming'' de_cid = Inr (is_incoming v)"
    by (rule opt_field, rule look, simp_all)+
  moreover have "dflt ?m ''nodes_by_label'' fmempty (de_strmap de_cid) = Inr (is_nodes_by_label v)"
    by (rule dflt_field [where ser = "(ser_strmap ILink)"], rule look, simp_all)
  moreover have "dflt ?m ''nodes_by_prop'' fmempty (de_strmap (de_strmap de_cid)) = Inr (is_nodes_by_prop v)"
    by (rule dflt_field [where ser = "(ser_strmap (ser_strmap ILink))"], rule look, simp_all)
  ultimately show ?thesis
    unfolding de_index_set_def ser_index_set_def by (simp add: req_field look de_aliased_def)
qed

end
