(* ===== verification/Prolly_Map.thy ===== *)
theory Prolly_Map imports Prolly_Build Prolly_Read begin

text \<open>
  What the rest of the program relies on of the Prolly trees, as an interface: \<open>build_tree\<close> returns the
  root of a map, a cursor reads the map back, \<open>lookup\<close> finds its entries, and no later write to the store
  disturbs it. \<open>tree_holds E bs fuel root es\<close> says that \<open>root\<close> is the root of a tree of the entries \<open>es\<close>
  that \<open>fuel\<close> steps are enough to read. The locale \<open>tree_map\<close> states these laws and derives what the
  clients (the indexes, the merge) need for a sequence of trees; it is interpreted on the builder and
  the readers of theories \<open>Prolly_Build\<close> and \<open>Prolly_Read\<close>.
\<close>

section \<open>How much fuel a built tree needs\<close>

lemma leaf_count_node: "leaf_count (ptree_node ts) = sum_list (map leaf_count ts)"
  by (simp add: ptree_node_def)

lemma height_node: "(\<And>t. t \<in> set ts \<Longrightarrow> height t \<le> h) \<Longrightarrow> height (ptree_node ts) \<le> Suc h"
  by (auto simp: ptree_node_def)

lemma leaf_count_groups:
  "sum_list (map leaf_count (map ptree_node (groups E key c [] ts))) = sum_list (map leaf_count ts)"
proof -
  have "sum_list (map leaf_count (map ptree_node gs)) = sum_list (map leaf_count (concat gs))"
    for gs :: "'a ptree list list"
    by (induction gs) (simp_all add: leaf_count_node)
  then show ?thesis by (simp only: concat_groups append_Nil)
qed

lemma up_trees_size:
  assumes "ts \<noteq> []" and "\<And>t. t \<in> set ts \<Longrightarrow> height t + length ts \<le> h"
  shows "\<exists>u. up_trees E ts = [u] \<and> leaf_count u = sum_list (map leaf_count ts) \<and> height u < h"
  using assms
proof (induction E ts rule: up_trees.induct)
  case (1 E ts)
  show ?case
  proof (cases "1 < length ts")
    case True
    let ?us = "map ptree_node (groups E first_key chunker_new [] ts)"
    have ne: "?us \<noteq> []" using 1(2) by (simp add: groups_not_Nil)
    have len: "length ?us < length ts" using length_groups_less [of ts E first_key chunker_new] True by simp
    have sub: "set g \<subseteq> set ts" if "g \<in> set (groups E first_key chunker_new [] ts)" for g
      using that concat_groups [of E first_key chunker_new "[]" ts] by (metis Union_upper append_Nil image_eqI set_concat)
    have "height u + length ?us \<le> h" if "u \<in> set ?us" for u
    proof -
      from that obtain g where g: "g \<in> set (groups E first_key chunker_new [] ts)" "u = ptree_node g" by auto
      have "height u \<le> Suc (h - length ts)"
        unfolding g(2) using sub [OF g(1)] 1(3) by (intro height_node) fastforce
      moreover have "length ts \<le> h" using 1(2) 1(3) [of "hd ts"] by simp
      ultimately show ?thesis using len by simp
    qed
    from 1(1) [OF True ne this] show ?thesis
      using True by (simp add: up_trees.simps [of E ts] leaf_count_groups del: map_map)
  next
    case False
    with 1(2) obtain t where "ts = [t]" by (cases ts) auto
    with 1(3) show ?thesis by (simp add: up_trees.simps [of E "[t]"])
  qed
qed

lemma length_le_concat: "\<forall>g \<in> set gs. g \<noteq> [] \<Longrightarrow> length gs \<le> length (concat gs)"
  using sum_lengths_ge [of gs 1] by (simp add: Suc_le_eq)

lemma ptree_of_fuel:
  assumes "length es + 2 \<le> fuel"
  shows "enough_fuel (ptree_of E es) fuel"
proof -
  have "length (groups E fst chunker_new [] es) \<le> length (concat (groups E fst chunker_new [] es))"
    by (rule length_le_concat) (auto dest: groups_nonempty)
  then have len: "length (leaf_trees E es) \<le> length es + 1"
    by (simp add: leaf_trees_def concat_groups)
  have lf: "t \<in> set (leaf_trees E es) \<Longrightarrow> height t = 0 \<and> leaf_count t = 1" for t
    by (auto simp: leaf_trees_def split: if_splits)
  then have "sum_list (map leaf_count (leaf_trees E es)) = length (leaf_trees E es)"
    by (simp cong: map_cong add: sum_list_triv)
  moreover have "\<exists>u. up_trees E (leaf_trees E es) = [u] \<and>
      leaf_count u = sum_list (map leaf_count (leaf_trees E es)) \<and> height u < length es + 1"
    using len lf by (intro up_trees_size leaf_trees_not_Nil) simp
  ultimately show ?thesis
    using len assms by (auto simp: enough_fuel_def ptree_of_def entries_ptree_of [unfolded ptree_of_def])
qed

section \<open>The interface\<close>

definition tree_holds ::
    "('c, 'h, 'b) external \<Rightarrow> ('c, 'b) store \<Rightarrow> nat \<Rightarrow> 'c \<Rightarrow> (prolly_key \<times> 'c) list \<Rightarrow> bool" where
  "tree_holds E bs fuel root es \<longleftrightarrow>
     (\<exists>t. represents E bs root t \<and> well_formed t \<and> enough_fuel t fuel \<and> entries t = es)"

definition crypto_ok :: "('c, 'h, 'b) external \<Rightarrow> bool" where
  "crypto_ok E \<longleftrightarrow> collision_free E \<and> codec_roundtrip E"

locale tree_map =
  fixes ok :: "'x \<Rightarrow> bool"
    and inv :: "'x \<Rightarrow> 's \<Rightarrow> bool"
    and ext :: "'x \<Rightarrow> 's \<Rightarrow> 's \<Rightarrow> bool"
    and holds :: "'x \<Rightarrow> 's \<Rightarrow> nat \<Rightarrow> 'r \<Rightarrow> ('k::linorder \<times> 'v) list \<Rightarrow> bool"
    and build :: "'x \<Rightarrow> ('k \<times> 'v) list \<Rightarrow> ('s, 'e, 'r) prog"
    and read :: "'x \<Rightarrow> 's \<Rightarrow> nat \<Rightarrow> 'r \<Rightarrow> 'e + ('k \<times> 'v) list"
    and look :: "'x \<Rightarrow> 's \<Rightarrow> nat \<Rightarrow> 'r \<Rightarrow> 'k \<Rightarrow> 'e + 'v option"
  assumes ext_refl: "ext x s s"
    and ext_trans: "ext x s t \<Longrightarrow> ext x t u \<Longrightarrow> ext x s u"
    and inv_ext: "ext x s t \<Longrightarrow> inv x s \<Longrightarrow> inv x t"
    and build_ext: "ok x \<Longrightarrow> build x es s = (r, t) \<Longrightarrow> ext x s t"
    and build_free: "store_free (build x es)"
    and build_holds: "ok x \<Longrightarrow> inv x s \<Longrightarrow> strict_keys es \<Longrightarrow> length es + 2 \<le> n \<Longrightarrow>
       build x es s = (Inr root, t) \<Longrightarrow> holds x t n root es"
    and holds_strict: "holds x s n root es \<Longrightarrow> strict_keys es"
    and holds_ext: "holds x s n root es \<Longrightarrow> ext x s t \<Longrightarrow> inv x s \<Longrightarrow> holds x t n root es"
    and holds_unique: "holds x s n root es \<Longrightarrow> holds x s n root es' \<Longrightarrow> es = es'"
    and read_holds: "holds x s n root es \<Longrightarrow> read x s n root = Inr es"
    and look_holds: "holds x s n root es \<Longrightarrow> look x s n root k = Inr (map_of es k)"
begin

text \<open>A loop that builds one tree per group and files its root under the group's name.\<close>

definition build_each :: "'x \<Rightarrow> ('g \<Rightarrow> 'r \<Rightarrow> 'out \<Rightarrow> 'out) \<Rightarrow> ('g \<times> ('k \<times> 'v) list) list \<Rightarrow> 'out \<Rightarrow> ('s, 'e, 'out) prog" where
  "build_each x put_at = sfold (\<lambda>(g, es) out. sbind (build x es) (\<lambda>root. sret (put_at g root out)))"

lemma ext_order: "reflp (ext x)" "transp (ext x)"
  by (auto simp: reflp_def transp_def intro: ext_refl ext_trans)

lemma preserves_build: "ok x \<Longrightarrow> preserves (ext x) (build x es)"
  unfolding preserves_def by (metis build_ext prod.collapse)

lemma build_each_ext: "ok x \<Longrightarrow> build_each x put_at gs acc s = (r, t) \<Longrightarrow> ext x s t"
proof -
  assume "ok x"
  then have "preserves (ext x) (build_each x put_at gs acc)"
    unfolding build_each_def case_prod_unfold
    by (intro preserves_sfold preserves_sbind preserves_sret preserves_build ext_order)
  then show "build_each x put_at gs acc s = (r, t) \<Longrightarrow> ext x s t" by (rule preservesD)
qed

lemma build_each_free: "store_free (build_each x put_at gs acc)"
  unfolding build_each_def case_prod_unfold
  by (intro store_free_sfold store_free_sbind store_free_sret build_free)

lemma build_each_holds:
  assumes "ok x" and "inv x s" and "\<forall>(g, es) \<in> set gs. strict_keys es \<and> length es + 2 \<le> n"
    and put_at: "\<And>g r out g'. get (put_at g r out) g' = (if g = g' then Some r else get out g')"
    and "build_each x put_at gs acc s = (Inr out, t)"
  shows "if g \<in> fst ` set gs
    then \<exists>es root. (g, es) \<in> set gs \<and> get out g = Some root \<and> holds x t n root es \<and> outcome (build x es) = Inr root
    else get out g = get acc g"
  using assms(2,3,5)
proof (induction gs arbitrary: acc s)
  case Nil
  then show ?case by (simp add: build_each_def monad_simps)
next
  case (Cons ge gs)
  obtain g' es where ge: "ge = (g', es)" by (cases ge)
  from Cons.prems(3) obtain root u where b: "build x es s = (Inr root, u)"
    and rest: "build_each x put_at gs (put_at g' root acc) u = (Inr out, t)"
    by (auto simp: build_each_def ge monad_simps)
  have iu: "inv x u" using inv_ext [OF build_ext [OF assms(1) b] Cons.prems(1)] .
  have "holds x u n root es"
    using Cons.prems(2) by (intro build_holds [OF assms(1) Cons.prems(1) _ _ b]) (auto simp: ge)
  then have h: "holds x t n root es" using build_each_ext [OF assms(1) rest] iu by (rule holds_ext)
  have oc: "outcome (build x es) = Inr root" using outcomeD [OF build_free b] by simp
  have IH: "if g \<in> fst ` set gs
      then \<exists>es root. (g, es) \<in> set gs \<and> get out g = Some root \<and> holds x t n root es \<and> outcome (build x es) = Inr root
      else get out g = get (put_at g' root acc) g"
    by (rule Cons.IH [OF iu _ rest]) (use Cons.prems(2) in auto)
  show ?case
  proof (cases "g \<in> fst ` set gs")
    case True
    with IH show ?thesis by (auto simp: ge)
  next
    case False
    with IH have "get out g = get (put_at g' root acc) g" by simp
    with False h oc show ?thesis by (auto simp: ge put_at)
  qed
qed

lemma build_each_inv:
  assumes "\<And>g r out. P out \<Longrightarrow> P (put_at g r out)" and "P acc"
    and "build_each x put_at gs acc s = (Inr out, t)"
  shows "P out"
  using assms(2,3)
proof (induction gs arbitrary: acc s)
  case Nil
  then show ?case by (simp add: build_each_def monad_simps)
next
  case (Cons ge gs)
  then obtain root u where "build_each x put_at gs (put_at (fst ge) root acc) u = (Inr out, t)"
    by (auto simp: build_each_def case_prod_unfold monad_simps)
  then show ?case using Cons.IH assms(1) [OF Cons.prems(1)] by blast
qed

lemma build_look:
  assumes "ok x" and "inv x s" and "strict_keys es" and "length es + 2 \<le> n" and "build x es s = (Inr root, t)"
  shows "look x t n root k = Inr (map_of es k)"
  by (rule look_holds) (rule build_holds [OF assms])

lemma holds_read_eq: "holds x s n root es \<Longrightarrow> read x s n root = Inr es' \<Longrightarrow> es' = es"
  by (simp add: read_holds)

end

lemma tree_holds_build:
  assumes "build_tree E es s = (Inr root, t)" and "strict_keys es" and "length es + 2 \<le> fuel"
    and "collision_free E" and "codec_roundtrip E" and "trusted E s"
  shows "tree_holds E t fuel root es"
  unfolding tree_holds_def
  using build_tree_represents [OF assms(1,2,4-6)] well_formed_ptree_of [OF assms(2)]
    ptree_of_fuel [OF assms(3)] entries_ptree_of by blast

interpretation trees: tree_map crypto_ok trusted grows tree_holds build_tree read_tree prolly_lookup
proof (unfold_locales, goal_cases)
  case (4 E es s r t)
  then show ?case by (intro preservesD [OF build_tree_grows]) (simp_all add: crypto_ok_def)
next
  case (6 E s es n root t)
  then show ?case by (auto simp: crypto_ok_def intro: tree_holds_build)
next
  case (7 E s n root es)
  then show ?case by (auto simp: tree_holds_def well_formed_strict)
next
  case (8 E s n root es t)
  then show ?case unfolding tree_holds_def by (blast intro: represents_mono)
next
  case (9 E s n root es es')
  then show ?case unfolding tree_holds_def by (blast dest: represents_functional)
next
  case (10 E s n root es)
  then show ?case by (auto simp: tree_holds_def intro: cursor_yields)
next
  case (11 E s n root es k)
  then show ?case by (auto simp: tree_holds_def enough_fuel_def intro: lookup_entries)
qed (auto intro: grows_trans grows_trusted build_tree_store_free)

section \<open>Loops over a tree\<close>

lemma read_holds_for:
  assumes "tree_holds E bs fuel root es"
  shows "for_entries E bs fuel root (\<lambda>x acc. Inr (f x acc)) acc = Inr (fold f es acc)"
  by (subst for_entries_rfold [OF trees.read_holds [OF assms]]) (rule rfold_total)

lemma for_entries_insert:
  assumes "tree_holds E bs fuel root m"
  shows "for_entries E bs fuel root (\<lambda>(k, v) merged. Inr (fmupd k v merged)) fmempty = Inr (fmap_of_list m)"
  using read_holds_for [OF assms, where f = "\<lambda>(k, v) m. fmupd k v m"]
    insert_all_strict [OF trees.holds_strict [OF assms]]
  by (simp add: insert_all_def case_prod_unfold)

end
