(* ===== verification/Object_Store.thy ===== *)
theory Object_Store imports Index_Objects Prolly_Map begin

text \<open>
  The wire form of the stored objects as an interface. Every object type of \<open>crates/mnem-core/src/objects/\<close>
  has a \<open>Serialize\<close> and a \<open>Deserialize\<close> impl that read each other's output, as long as the forward-compatible
  \<open>extra\<close> map does not reuse the name of a field; the locale \<open>wire_object\<close> states that law and derives what
  callers use: an object that was put reads back, and its CID names it alone.
\<close>

locale wire_object =
  fixes ser :: "'a \<Rightarrow> 'c ipld"
    and de :: "'c ipld \<Rightarrow> codec_error + 'a"
    and ok :: "'a \<Rightarrow> bool"
  assumes de_ser: "ok x \<Longrightarrow> de (ser x) = Inr x"
begin

lemma ser_inject: "ok x \<Longrightarrow> ok y \<Longrightarrow> ser x = ser y \<longleftrightarrow> x = y"
  by (metis de_ser sum.inject(2))

lemma put_reads_back:
  "put_object E (ser x) s = (Inr c, t) \<Longrightarrow> codec_roundtrip E \<Longrightarrow> ok x \<Longrightarrow> decode_from_store E de t c = Inr x"
  by (rule decode_put_object) (assumption | rule de_ser)+

lemma cid_names_object:
  assumes "put_object E (ser x) s = (Inr c, t)" and "put_object E (ser y) s' = (Inr c', t')"
    and "crypto_ok E" and "ok x" and "ok y"
  shows "c = c' \<longleftrightarrow> x = y"
proof -
  obtain b b' where b: "enc E (ser x) = Some b" "c = block_cid E b" "enc E (ser y) = Some b'" "c' = block_cid E b'"
    using put_object_Inr [OF assms(1)] put_object_Inr [OF assms(2)] by blast
  have "c = c' \<longleftrightarrow> b = b'"
    using b assms(3) by (auto simp: crypto_ok_def collision_free_def dest: injD)
  also have "\<dots> \<longleftrightarrow> ser x = ser y"
    using b assms(3) unfolding crypto_ok_def codec_roundtrip_def by (metis option.inject)
  finally show ?thesis using ser_inject [OF assms(4,5)] by simp
qed

end

interpretation commit_wire: wire_object ser_commit de_commit commit_ok
  by unfold_locales (rule de_ser_commit)

interpretation operation_wire: wire_object ser_operation de_operation operation_ok
  by unfold_locales (rule de_ser_operation)

interpretation view_wire: wire_object ser_view de_view view_ok
  by unfold_locales (rule de_ser_view)

interpretation node_wire: wire_object ser_node de_node node_ok
  by unfold_locales (rule de_ser_node)

interpretation edge_wire: wire_object ser_edge de_edge edge_ok
  by unfold_locales (rule de_ser_edge)

interpretation tombstone_wire: wire_object ser_tombstone de_tombstone tombstone_ok
  by unfold_locales (rule de_ser_tombstone)

interpretation index_set_wire: wire_object ser_index_set de_index_set index_set_ok
  by unfold_locales (rule de_ser_index_set)

interpretation outgoing_wire: wire_object ser_adjacency_bucket de_adjacency_bucket adjacency_bucket_ok
  by unfold_locales (rule de_ser_adjacency_bucket)

interpretation incoming_wire: wire_object ser_incoming_bucket de_incoming_bucket incoming_bucket_ok
  by unfold_locales (rule de_ser_incoming_bucket)

section \<open>What is read is well formed\<close>

text \<open>A reader leaves in \<open>extra\<close> only keys that name no field, so that what it returns can be written again.\<close>

locale read_object = wire_object +
  assumes de_ok: "de v = Inr x \<Longrightarrow> ok x"
begin

lemma decode_ok: "decode_from_store E de s c = Inr x \<Longrightarrow> ok x"
  by (auto simp: decode_from_store_def from_canonical_bytes_def split: option.splits sum.splits dest: de_ok)

end

lemma extra_ok_rest: "set names' \<subseteq> set names \<Longrightarrow> extra_ok names' (rest_of names m)"
  by (auto simp: extra_ok_def rest_of_def list_all_iff fset_of_list_elem)

lemma de_commit_ok: "de_commit v = Inr x \<Longrightarrow> commit_ok x"
  by (auto simp: de_commit_def commit_ok_def rbind_Inr_iff extra_ok_rest split: if_splits)

lemma de_operation_ok: "de_operation v = Inr x \<Longrightarrow> operation_ok x"
  by (auto simp: de_operation_def operation_ok_def rbind_Inr_iff extra_ok_rest split: if_splits)

lemma de_edge_ok: "de_edge v = Inr x \<Longrightarrow> edge_ok x"
  by (auto simp: de_edge_def edge_ok_def rbind_Inr_iff extra_ok_rest Let_def split: if_splits)

lemma de_node_ok: "de_node v = Inr x \<Longrightarrow> node_ok x"
  by (auto simp: de_node_def node_ok_def rbind_Inr_iff extra_ok_rest Let_def split: if_splits)

lemma de_tombstone_entry_ok: "de_tombstone_entry v = Inr (k, t) \<Longrightarrow> tombstone_ok t"
proof -
  assume "de_tombstone_entry v = Inr (k, t)"
  then obtain m where "de_tombstone (IMap (rest_of [''node_id''] m)) = Inr t"
    by (auto simp: de_tombstone_entry_def rbind_Inr_iff)
  then have "ts_extra t = rest_of tombstone_names (rest_of [''node_id''] m)"
    by (auto simp: de_tombstone_def rbind_Inr_iff Let_def split: if_splits)
  then show ?thesis by (auto simp: tombstone_ok_def extra_ok_def rest_of_def list_all_iff fset_of_list_elem)
qed

lemma de_view_ok: "de_view v = Inr x \<Longrightarrow> view_ok x"
proof -
  assume "de_view v = Inr x"
  then obtain m entries where e: "dflt m ''tombstones'' [] (de_list de_tombstone_entry) = Inr entries"
    and t: "vw_tombstones x = insert_all entries" and x: "vw_extra x = rest_of view_names m"
    by (auto simp: de_view_def rbind_Inr_iff Let_def split: if_splits)
  have "\<forall>(k, t) \<in> set entries. tombstone_ok t"
  proof (cases "fmlookup m ''tombstones''")
    case (Some y)
    with e obtain xs where "rmap de_tombstone_entry xs = Inr entries"
      by (cases y) (auto simp: dflt_def)
    then show ?thesis
      by (fastforce simp: rmap_Inr_iff list_all2_conv_all_nth in_set_conv_nth dest: de_tombstone_entry_ok)
  qed (use e in \<open>simp add: dflt_def\<close>)
  moreover have "(k, t) \<in> set entries" if "(k, t) \<in> set (bt_iter (vw_tombstones x))" for k t
    using that by (auto simp: set_bt_iter t fmlookup_insert_all dest: map_of_SomeD)
  ultimately show ?thesis unfolding view_ok_def x by (auto intro: extra_ok_rest)
qed

interpretation commit_read: read_object ser_commit de_commit commit_ok
  by unfold_locales (rule de_commit_ok)

interpretation operation_read: read_object ser_operation de_operation operation_ok
  by unfold_locales (rule de_operation_ok)

interpretation view_read: read_object ser_view de_view view_ok
  by unfold_locales (rule de_view_ok)

interpretation node_read: read_object ser_node de_node node_ok
  by unfold_locales (rule de_node_ok)

interpretation edge_read: read_object ser_edge de_edge edge_ok
  by unfold_locales (rule de_edge_ok)

end
