(* ===== verification/Core_Props.thy ===== *)
theory Core_Props imports Object_Store Instance begin

text \<open>
  The properties of the layers under the Prolly trees' users: the block store, the walk over everything
  reachable from a root, the links of a block, the chunking rule, the byte form of keys and the stored objects.
\<close>

section \<open>The block store\<close>

text \<open>The store's operations as steps; a \<open>put\<close> that fails is a step, too.\<close>

inductive bs_step :: "('c, 'h, 'b) external \<Rightarrow> ('c, 'b) store \<Rightarrow> ('c, 'b) store \<Rightarrow> bool" for E where
  put: "bs_put E cid data s = (r, t) \<Longrightarrow> bs_step E s t"
| batch: "bs_batch_put E blocks s = (r, t) \<Longrightarrow> bs_step E s t"
| delete: "bs_step E s (bs_delete cid s)"

lemma content_addressed_batch:
  assumes "content_addressed E s" and "bs_batch_put E blocks s = (r, t)"
  shows "content_addressed E t"
  using assms unfolding bs_batch_put_def
proof (induction blocks arbitrary: s)
  case Nil
  then show ?case by (simp add: sret_def)
next
  case (Cons x blocks)
  obtain r' u where u: "bs_put E (fst x) (snd x) s = (r', u)" by fastforce
  have "content_addressed E u" using Cons.prems(1) u by (rule content_addressed_put)
  then show ?case
    using Cons u by (cases r') (auto simp: sbind_def case_prod_unfold)
qed

lemma content_addressed_step: "bs_step E s t \<Longrightarrow> content_addressed E s \<Longrightarrow> content_addressed E t"
  by (induction rule: bs_step.induct)
     (auto intro: content_addressed_put content_addressed_batch content_addressed_delete)

lemma content_addressed_steps: "(bs_step E)\<^sup>*\<^sup>* s t \<Longrightarrow> content_addressed E s \<Longrightarrow> content_addressed E t"
  by (induction rule: rtranclp_induct) (auto intro: content_addressed_step)

text \<open>Also (\<open>store/blockstore.rs\<close>). However many checked \<open>put\<close>s, batches and deletions a store has seen, successful
  or not, what it holds under the content address of a block is that block: a reader that asks for a CID
  gets the bytes the CID was computed from or nothing.\<close>

theorem checked_store_integrity:
  assumes "(bs_step E)\<^sup>*\<^sup>* bs_new s" and "cid_accessors E" and "collision_free E"
    and "bs_get s (block_cid E b) = Some b'"
  shows "b' = b"
  using content_addressed_trusted [OF content_addressed_steps [OF assms(1) content_addressed_empty] assms(2,3)]
    assms(4) by (simp add: trusted_def)

lemma wE_accessors: "cid_accessors wE"
  by (simp add: cid_accessors_def wE_def HASH_SHA2_256_def)

theorem checked_store_integrity_witness:
  "\<exists>s. (bs_step wE)\<^sup>*\<^sup>* bs_new s \<and> bs_get s (block_cid wE INull) = Some INull"
proof -
  let ?s = "fmupd (block_cid wE INull) INull bs_new :: (wcid, wcid ipld) store"
  have "bs_put wE (block_cid wE INull) INull bs_new = (Inr (), ?s)"
    by (simp add: bs_put_def recompute_block_cid [OF wE_accessors])
  then have st: "(bs_step wE)\<^sup>*\<^sup>* bs_new ?s" by (intro r_into_rtranclp bs_step.put)
  have g: "bs_get ?s (block_cid wE INull) = Some INull" by (simp add: bs_get_def)
  from checked_store_integrity [OF st wE_accessors wE_laws(2) g] st g show ?thesis by blast
qed

text \<open>C6 (\<open>ReachableIter\<close>). If everything a root links to is in the store and decodes, the iterator ends
  without an error and has yielded exactly the blocks reachable from the root, each once.\<close>

theorem reachable_walk_exact:
  assumes "\<And>c. (links_to E bs)\<^sup>*\<^sup>* root c \<Longrightarrow> readable E bs c"
  shows "\<exists>items. iter_from_root E bs root = Inr items \<and> distinct (map fst items) \<and>
    set items = {(c, data). (links_to E bs)\<^sup>*\<^sup>* root c \<and> bs_get bs c = Some data}"
proof -
  obtain items where run: "iter_from_root E bs root = Inr items"
    using iter_collect_total [OF walk_inv_new assms] by (auto simp: iter_from_root_def)
  note y = iter_from_root_yields [OF run]
  have "(c, data) \<in> set items \<longleftrightarrow> (links_to E bs)\<^sup>*\<^sup>* root c \<and> bs_get bs c = Some data" for c data
  proof
    assume "(c, data) \<in> set items"
    then have "c \<in> set (map fst items)" "bs_get bs c = Some data" using y(3) by force+
    then show "(links_to E bs)\<^sup>*\<^sup>* root c \<and> bs_get bs c = Some data" using y(2) by simp
  next
    assume a: "(links_to E bs)\<^sup>*\<^sup>* root c \<and> bs_get bs c = Some data"
    then have "c \<in> set (map fst items)" using y(2) by simp
    then obtain d where "(c, d) \<in> set items" by auto
    with a y(3) show "(c, data) \<in> set items" by fastforce
  qed
  with run y(1) show ?thesis by auto
qed

definition wshared :: "wcid ipld" where
  "wshared = IList [ILink (wraw ''a''), ILink (wraw ''b''), ILink (wraw ''a'')]"

definition wstore :: "(wcid, wcid ipld) store" where
  "wstore = fmap_of_list [(block_cid wE wshared, wshared), (wraw ''a'', IString ''a''), (wraw ''b'', IString ''b'')]"

lemma wstore_reach:
  assumes "(links_to wE wstore)\<^sup>*\<^sup>* (block_cid wE wshared) c"
  shows "c \<in> {block_cid wE wshared, wraw ''a'', wraw ''b''}"
  using assms
proof (induction rule: rtranclp_induct)
  case (step c d)
  have "extract_links wE wshared = Inr [wraw ''a'', wraw ''b'', wraw ''a'']" by code_simp
  moreover have "cid_codec wE (wraw s) \<noteq> CODEC_DAG_CBOR" for s
    by (simp add: wE_def wraw_def CODEC_DAG_CBOR_def CODEC_RAW_def)
  moreover have "bs_get wstore (block_cid wE wshared) = Some wshared" by code_simp
  ultimately show ?case using step by (auto simp: links_to_def)
qed simp

theorem reachable_walk_exact_witness:
  "\<exists>items. iter_from_root wE wstore (block_cid wE wshared) = Inr items \<and> (wraw ''b'', IString ''b'') \<in> set items"
proof -
  let ?r = "block_cid wE wshared"
  have b: "bs_get wstore ?r = Some wshared" "extract_links wE wshared = Inr [wraw ''a'', wraw ''b'', wraw ''a'']"
    "bs_get wstore (wraw ''a'') = Some (IString ''a'')" "bs_get wstore (wraw ''b'') = Some (IString ''b'')"
    "cid_codec wE ?r = CODEC_DAG_CBOR" by code_simp+
  have "cid_codec wE (wraw s) \<noteq> CODEC_DAG_CBOR" for s
    by (simp add: wE_def wraw_def CODEC_DAG_CBOR_def CODEC_RAW_def)
  with b have "readable wE wstore c" if "(links_to wE wstore)\<^sup>*\<^sup>* ?r c" for c
    using wstore_reach [OF that] by (auto simp: readable_def)
  from reachable_walk_exact [OF this] obtain items where
    i: "iter_from_root wE wstore ?r = Inr items"
      "set items = {(c, data). (links_to wE wstore)\<^sup>*\<^sup>* ?r c \<and> bs_get wstore c = Some data}" by blast
  have "links_to wE wstore ?r (wraw ''b'')" using b by (simp add: links_to_def)
  with i b(4) show ?thesis by auto
qed

section \<open>Links, chunks and keys\<close>

text \<open>Also (\<open>codec/dagcbor.rs\<close>, \<open>extract_links\<close>). The links of a block are those of the value it decodes to, in
  document order with repetitions, when the value nests at most 64 levels; deeper values and undecodable
  blocks are a decode error, however they are built.\<close>

theorem extract_links_exact:
  "extract_links E bs =
     (case dec E bs of
        None \<Rightarrow> Inl (Codec Decode)
      | Some v \<Rightarrow> if nesting v \<le> WALK_IPLD_MAX_DEPTH then Inr (links_of v) else Inl (Codec Decode))"
proof -
  have "walk_ipld v [] 0 = (if nesting v \<le> WALK_IPLD_MAX_DEPTH then Inr (links_of v) else Inl Decode)" for v :: "'a ipld"
    using walk_ipld_ok [of 0 v "[]"] walk_ipld_too_deep [of 0 v "[]"] by simp
  then show ?thesis by (simp add: extract_links_def from_canonical_bytes_def split: option.split)
qed

text \<open>Also (\<open>prolly/chunker.rs\<close>, \<open>chunk_boundaries\<close>). Whatever the rolling hash computes, the boundaries cut
  the keys into chunks of 16 to 512 entries, and what is left after the last boundary is shorter than 512.\<close>

theorem chunk_boundaries_bounds:
  "successively (\<lambda>a b. a + MIN_ENTRIES_PER_CHUNK \<le> b \<and> b \<le> a + MAX_ENTRIES_PER_CHUNK) (0 # chunk_boundaries E keys) \<and>
   last (0 # chunk_boundaries E keys) \<le> length keys \<and>
   length keys < last (0 # chunk_boundaries E keys) + MAX_ENTRIES_PER_CHUNK"
proof -
  let ?cut = "cut_chunks E (\<lambda>k. k) chunker_new [] keys"
  have "successively (\<lambda>a b. a + MIN_ENTRIES_PER_CHUNK \<le> b \<and> b \<le> a + MAX_ENTRIES_PER_CHUNK) (i # ends i gs)"
    if "\<forall>g \<in> set gs. MIN_ENTRIES_PER_CHUNK \<le> length g \<and> length g \<le> MAX_ENTRIES_PER_CHUNK"
    for i and gs :: "prolly_key list list"
    using that by (induction gs arbitrary: i) auto
  moreover have "\<forall>g \<in> set (fst ?cut). MIN_ENTRIES_PER_CHUNK \<le> length g \<and> length g \<le> MAX_ENTRIES_PER_CHUNK"
    using cut_min [of _ E "\<lambda>k. k" chunker_new "[]" keys] cut_max [of "[]" _ E "\<lambda>k. k" chunker_new keys]
    by (auto simp: MAX_ENTRIES_PER_CHUNK_def)
  moreover have "length (concat (fst ?cut)) + length (snd ?cut) = length keys"
    by (metis append_Nil concat_cut length_append)
  moreover have "length (snd ?cut) < MAX_ENTRIES_PER_CHUNK"
    by (rule cut_rest_max) (simp add: MAX_ENTRIES_PER_CHUNK_def)
  ultimately show ?thesis
    using last_ends [of 0 "fst ?cut"] by (simp add: chunk_boundaries_ends)
qed

text \<open>Also (\<open>id/stable.rs\<close>, \<open>prolly/constants.rs\<close>). The 16-byte wire form of an id reads back, is accepted only
  at 16 bytes, and its byte order is the order of the keys.\<close>

theorem key_wire_form:
  "de_key (ser_key k) = Inr k \<and> length (key_bytes k) = 16 \<and> (key_bytes k < key_bytes l) = (k < l) \<and>
   (de_key (IBytes bs) = Inr l) = (key_bytes l = bs)"
proof -
  have "key_of_bytes bs = Some l \<longleftrightarrow> key_bytes l = bs" using key_of_bytes_Some by auto
  then show ?thesis by (auto simp: key_bytes_less_iff ok_or_def split: option.splits)
qed

section \<open>Stored objects\<close>

text \<open>Also (\<open>objects/commit.rs\<close>, \<open>objects/operation.rs\<close>, \<open>objects/view.rs\<close>). A commit, an operation or a view that was
  written to a store reads back from it as it was, its \<open>extra\<close> fields included, and a CID is that of one object only.\<close>

theorem history_objects_roundtrip:
  assumes "codec_roundtrip E" and "collision_free E" and "commit_ok c" and "operation_ok o1" and "view_ok v"
    and "put_object E (ser_commit c) s1 = (Inr c_cid, t1)"
    and "put_object E (ser_operation o1) s2 = (Inr o_cid, t2)"
    and "put_object E (ser_view v) s3 = (Inr v_cid, t3)"
  shows "decode_from_store E de_commit t1 c_cid = Inr c \<and> decode_from_store E de_operation t2 o_cid = Inr o1 \<and>
    decode_from_store E de_view t3 v_cid = Inr v \<and> c_cid \<noteq> o_cid \<and> o_cid \<noteq> v_cid \<and> c_cid \<noteq> v_cid"
proof -
  have r: "decode_from_store E de_commit t1 c_cid = Inr c" "decode_from_store E de_operation t2 o_cid = Inr o1"
    "decode_from_store E de_view t3 v_cid = Inr v"
    using assms by (blast intro: commit_wire.put_reads_back operation_wire.put_reads_back view_wire.put_reads_back)+
  have ne: "a \<noteq> b" if put: "put_object E x s = (Inr a, t)" "put_object E y s' = (Inr b, t')" and neq: "x \<noteq> y" for a b x y s s' t t'
  proof -
    obtain p q where "enc E x = Some p" "a = block_cid E p" "enc E y = Some q" "b = block_cid E q"
      using put_object_Inr [OF put(1)] put_object_Inr [OF put(2)] by blast
    with assms(1,2) neq show ?thesis
      unfolding codec_roundtrip_def collision_free_def by (metis injD option.inject)
  qed
  have k: "(case ser_commit c of IMap m \<Rightarrow> fmlookup m ''_kind'' | _ \<Rightarrow> None) = Some (IString COMMIT_KIND)"
    "(case ser_operation o1 of IMap m \<Rightarrow> fmlookup m ''_kind'' | _ \<Rightarrow> None) = Some (IString OPERATION_KIND)"
    "(case ser_view v of IMap m \<Rightarrow> fmlookup m ''_kind'' | _ \<Rightarrow> None) = Some (IString VIEW_KIND)"
    using assms(3-5) view_lookup [of v]
    by (simp_all add: ser_commit_def ser_operation_def ser_view_def commit_lookup operation_lookup view_ok_def)
  have "ser_commit c \<noteq> ser_operation o1" "ser_operation o1 \<noteq> ser_view v" "ser_commit c \<noteq> ser_view v"
    using k by (auto simp: COMMIT_KIND_def OPERATION_KIND_def VIEW_KIND_def)
  with r ne [OF assms(6,7)] ne [OF assms(7,8)] ne [OF assms(6,8)] show ?thesis by simp
qed

definition wcommit :: "string \<Rightarrow> wcid commit" where
  "wcommit msg = commit_new 7 (wraw ''n'') (wraw ''e'') (wraw ''s'') ''me'' 5 msg"

definition woperation :: "wcid operation" where
  "woperation = operation_new (wraw ''v'') ''me'' 5 ''op''"

definition wview :: "wcid view" where
  "wview = with_ref (with_head view_new (wraw ''c'')) ''refs/heads/main'' (Normal (wraw ''c''))"

lemma wobjects_ok: "commit_ok (wcommit msg)" "operation_ok woperation" "view_ok wview"
  by (auto simp: commit_ok_def operation_ok_def view_ok_def wcommit_def woperation_def wview_def
      commit_new_def operation_new_def view_new_def with_ref_def with_head_def extra_ok_def list_all_iff set_bt_iter
      split: prod.split)

lemma wput: "put_object wE v s = (Inr (block_cid wE v), fmupd (block_cid wE v) v s)"
  by (simp add: put_object_run) (simp add: wE_def)

theorem history_objects_roundtrip_witness:
  "\<exists>c t. put_object wE (ser_commit (wcommit ''m'')) bs_new = (Inr c, t) \<and>
     decode_from_store wE de_commit t c = Inr (wcommit ''m'') \<and> c \<noteq> block_cid wE (ser_view wview)"
  using history_objects_roundtrip [OF wE_laws(1,2) wobjects_ok wput wput wput, of "''m''"] by (simp add: wput)

text \<open>Also (\<open>Commit::content_cid\<close>). The content CID of a commit is one for one with its nodes, edges, schema and
  indexes: commits that differ in author, time, message, parents or change id only share it, and no others do.\<close>

theorem content_cid_exact:
  assumes "codec_roundtrip E" and "collision_free E" and "content_cid E c = Inr x" and "content_cid E d = Inr y"
  shows "x = y \<longleftrightarrow>
    cm_nodes c = cm_nodes d \<and> cm_edges c = cm_edges d \<and> cm_schema c = cm_schema d \<and> cm_indexes c = cm_indexes d"
proof -
  obtain b b' where b: "enc E (content_cid_payload c) = Some b" "x = block_cid E b"
      "enc E (content_cid_payload d) = Some b'" "y = block_cid E b'"
    using assms(3,4) by (auto simp: content_cid_def monad_simps hash_to_cid_Inr split: prod.splits)
  have "x = y \<longleftrightarrow> b = b'" using b assms(2) by (auto simp: collision_free_def dest: injD)
  also have "\<dots> \<longleftrightarrow> content_cid_payload c = content_cid_payload d"
    using b assms(1) unfolding codec_roundtrip_def by (metis option.inject)
  finally show ?thesis by (simp add: content_cid_payload_eq)
qed

theorem content_cid_exact_witness:
  "content_cid wE (wcommit ''a'') = content_cid wE (wcommit ''b'') \<and>
   content_cid wE ((wcommit ''a'')\<lparr>cm_indexes := Some (wraw ''i'')\<rparr>) \<noteq> content_cid wE (wcommit ''a'')"
proof -
  have run: "content_cid wE c = Inr (block_cid wE (content_cid_payload c))" for c
    by (simp add: content_cid_def hash_to_cid_def to_canonical_bytes_def) (simp add: wE_def)
  note x = content_cid_exact [OF wE_laws(1,2) run run]
  show ?thesis
    using x [of "wcommit ''a''" "wcommit ''b''"] x [of "(wcommit ''a'')\<lparr>cm_indexes := Some (wraw ''i'')\<rparr>" "wcommit ''a''"]
    by (simp add: run wcommit_def commit_new_def)
qed

end
