(* ===== verification/Lca.thy ===== *)
theory Lca imports Objects begin

text \<open>
  \<open>crates/mnem-core/src/repo/lca.rs\<close>: ancestors and lowest common ancestors on the operation DAG, and the
  session cache of them. The walk over parents is the same loop here and in \<open>merge.rs\<close> (on commits), so
  \<open>dag_walk\<close> takes the reader of a block's parents as an argument; \<open>ancestors_inclusive\<close> is its instance
  for operations.

  The stack is a list with its top first, the \<open>BTreeSet\<close>s are sets (iterated in ascending order). The
  walk ends because every block it expands is in the store and is expanded once. An \<open>expect\<close> that fires
  (a cycle among the common ancestors) is \<open>Panic\<close>.

  The locale \<open>ancestry\<close> states what a caller relies on: the set returned is the ancestors of its
  argument, for some parent relation. It is interpreted on operations here and on commits in theory
  \<open>Merge\<close>; the facts on lowest common ancestors are proved in it once.
\<close>

section \<open>The walk\<close>

text \<open>The loop over the parents of an expanded block: the unseen ones are pushed.\<close>

definition push_parents :: "'c set \<Rightarrow> 'c list \<Rightarrow> 'c list \<Rightarrow> 'c list" where
  "push_parents seen ps stack = fold (\<lambda>p stack. if p \<in> seen then stack else p # stack) ps stack"

function dag_walk ::
    "('b \<Rightarrow> 'c error + 'c list) \<Rightarrow> ('c, 'b) store \<Rightarrow> 'c set \<Rightarrow> 'c list \<Rightarrow> 'c error + 'c set" where
  "dag_walk parents bs seen [] = Inr seen"
| "dag_walk parents bs seen (c # stack) =
     (if c \<in> seen then dag_walk parents bs seen stack
      else case bs_get bs c of
        None \<Rightarrow> Inl (Store (NotFound c))
      | Some data \<Rightarrow>
          rbind (parents data) (\<lambda>ps.
          dag_walk parents bs (insert c seen) (push_parents (insert c seen) ps stack)))"
  by pat_completeness auto
termination
proof (relation "inv_image (less_than <*lex*> less_than)
    (\<lambda>(parents, bs, seen, stack). (card (fset (fmdom bs) - seen), length stack))", goal_cases)
  case (3 parents bs seen c stack data ps)
  then have "c \<in> fset (fmdom bs) - seen" by (auto simp: bs_get_def dest: fmdomI)
  then have "card (fset (fmdom bs) - insert c seen) < card (fset (fmdom bs) - seen)"
    by (intro psubset_card_mono) auto
  then show ?case by simp
qed (auto simp: wf_lex_prod)

definition op_parents_of :: "('c, 'h, 'b) external \<Rightarrow> 'b \<Rightarrow> 'c error + 'c list" where
  "op_parents_of E data = rbind (from_canonical_bytes E de_operation data) (\<lambda>o1. Inr (op_parents o1))"

definition ancestors_inclusive ::
    "('c, 'h, 'b) external \<Rightarrow> ('c, 'b) store \<Rightarrow> 'c \<Rightarrow> 'c error + 'c set" where
  "ancestors_inclusive E bs cid = dag_walk (op_parents_of E) bs {} [cid]"

definition find_lca_many ::
    "('c::linorder, 'h, 'b) external \<Rightarrow> ('c, 'b) store \<Rightarrow> 'c list \<Rightarrow> 'c error + 'c option" where
  "find_lca_many E bs heads =
     (case heads of
        [] \<Rightarrow> Inr None
      | [h] \<Rightarrow> Inr (Some h)
      | _ \<Rightarrow>
          rbind (rmap (ancestors_inclusive E bs) heads) (\<lambda>per_head.
          let common = fold (\<lambda>s common. common \<inter> s) (tl per_head) (hd per_head) in
          if common = {} then Inr None
          else
            let common_vec = sorted_list_of_set common in
            rbind (rfold (\<lambda>c strict.
                rbind (ancestors_inclusive E bs c) (\<lambda>anc.
                Inr (strict \<union> {a \<in> anc. a \<noteq> c \<and> a \<in> common}))) common_vec {}) (\<lambda>strict.
            case sort (filter (\<lambda>c. c \<notin> strict) common_vec) of
              [] \<Rightarrow> Inl Panic
            | c # _ \<Rightarrow> Inr (Some c))))"

definition find_lca ::
    "('c::linorder, 'h, 'b) external \<Rightarrow> ('c, 'b) store \<Rightarrow> 'c \<Rightarrow> 'c \<Rightarrow> 'c error + 'c option" where
  "find_lca E bs left right =
     (let (a, b) = (if left \<le> right then (left, right) else (right, left)) in find_lca_many E bs [a, b])"

section \<open>What the walk returns\<close>

definition parent_of :: "('b \<Rightarrow> 'c error + 'c list) \<Rightarrow> ('c, 'b) store \<Rightarrow> 'c \<Rightarrow> 'c \<Rightarrow> bool" where
  "parent_of parents bs c p \<longleftrightarrow> (\<exists>data ps. bs_get bs c = Some data \<and> parents data = Inr ps \<and> p \<in> set ps)"

definition parents_readable :: "('b \<Rightarrow> 'c error + 'c list) \<Rightarrow> ('c, 'b) store \<Rightarrow> 'c \<Rightarrow> bool" where
  "parents_readable parents bs c \<longleftrightarrow> (\<exists>data ps. bs_get bs c = Some data \<and> parents data = Inr ps)"

lemma set_push_unseen:
  "set (push_parents S ps stack) = set stack \<union> (set ps - S)"
  unfolding push_parents_def by (induction ps arbitrary: stack) auto

lemma dag_walk_sound:
  assumes "dag_walk parents bs seen stack = Inr r"
    and "\<forall>c \<in> seen. \<forall>p. parent_of parents bs c p \<longrightarrow> p \<in> seen \<union> set stack"
    and "\<forall>c \<in> seen. parents_readable parents bs c"
  shows "r = {a. \<exists>c \<in> seen \<union> set stack. (parent_of parents bs)\<^sup>*\<^sup>* c a} \<and>
    (\<forall>c \<in> r. parents_readable parents bs c)"
  using assms
proof (induction parents bs seen stack rule: dag_walk.induct)
  case (1 parents bs seen)
  have "a \<in> seen" if "(parent_of parents bs)\<^sup>*\<^sup>* c a" "c \<in> seen" for a c
    using that by (induction rule: rtranclp_induct) (use 1(2) in auto)
  then show ?case using 1(1,3) by auto
next
  case (2 parents bs seen c stack)
  show ?case
  proof (cases "c \<in> seen")
    case True
    have "r = {a. \<exists>c \<in> seen \<union> set stack. (parent_of parents bs)\<^sup>*\<^sup>* c a} \<and> (\<forall>c \<in> r. parents_readable parents bs c)"
      using 2(3-5) True by (intro 2(1) [OF True]) auto
    moreover have eq: "seen \<union> set (c # stack) = seen \<union> set stack" using True by auto
    ultimately show ?thesis unfolding eq by blast
  next
    case False
    obtain data ps where d: "bs_get bs c = Some data" and ps: "parents data = Inr ps"
      and rec: "dag_walk parents bs (insert c seen) (push_parents (insert c seen) ps stack) = Inr r"
      using 2(3) False by (auto simp: monad_simps split: option.splits)
    have par: "parent_of parents bs c p \<longleftrightarrow> p \<in> set ps" for p
      using d ps by (simp add: parent_of_def)
    let ?stack = "push_parents (insert c seen) ps stack"
    have IH: "r = {a. \<exists>c' \<in> insert c seen \<union> set ?stack. (parent_of parents bs)\<^sup>*\<^sup>* c' a} \<and>
        (\<forall>c \<in> r. parents_readable parents bs c)"
      using 2(4,5) par d ps False
      by (intro 2(2) [OF False d ps rec]) (auto simp: set_push_unseen parents_readable_def)
    moreover have "(\<exists>c' \<in> insert c seen \<union> set ?stack. (parent_of parents bs)\<^sup>*\<^sup>* c' a) \<longleftrightarrow>
        (\<exists>c' \<in> seen \<union> set (c # stack). (parent_of parents bs)\<^sup>*\<^sup>* c' a)" for a
    proof
      assume "\<exists>c' \<in> insert c seen \<union> set ?stack. (parent_of parents bs)\<^sup>*\<^sup>* c' a"
      then obtain c' where c': "c' \<in> seen \<union> set (c # stack) \<or> c' \<in> set ps" "(parent_of parents bs)\<^sup>*\<^sup>* c' a"
        by (auto simp: set_push_unseen)
      then show "\<exists>c' \<in> seen \<union> set (c # stack). (parent_of parents bs)\<^sup>*\<^sup>* c' a"
        using par by (metis UnI2 converse_rtranclp_into_rtranclp list.set_intros(1))
    qed (auto simp: set_push_unseen)
    ultimately show ?thesis by simp
  qed
qed

lemma dag_walk_total:
  assumes "\<forall>c \<in> set stack. \<forall>a. (parent_of parents bs)\<^sup>*\<^sup>* c a \<longrightarrow> parents_readable parents bs a"
  shows "\<exists>r. dag_walk parents bs seen stack = Inr r"
  using assms
proof (induction parents bs seen stack rule: dag_walk.induct)
  case (1 parents bs seen)
  show ?case by simp
next
  case (2 parents bs seen c stack)
  show ?case
  proof (cases "c \<in> seen")
    case True
    with 2(1) [OF True] 2(3) show ?thesis by simp
  next
    case False
    have "parents_readable parents bs c" using 2(3) by auto
    then obtain data ps where d: "bs_get bs c = Some data" and ps: "parents data = Inr ps"
      by (auto simp: parents_readable_def)
    have "\<forall>c' \<in> set (push_parents (insert c seen) ps stack).
        \<forall>a. (parent_of parents bs)\<^sup>*\<^sup>* c' a \<longrightarrow> parents_readable parents bs a"
    proof (intro ballI allI impI)
      fix c' a assume c': "c' \<in> set (push_parents (insert c seen) ps stack)"
        and a: "(parent_of parents bs)\<^sup>*\<^sup>* c' a"
      from c' have "c' \<in> set stack \<or> parent_of parents bs c c'"
        using d ps by (auto simp: set_push_unseen parent_of_def)
      then show "parents_readable parents bs a"
        using a 2(3) by (metis converse_rtranclp_into_rtranclp list.set_intros(1,2))
    qed
    from 2(2) [OF False d ps this] False d ps show ?thesis by simp
  qed
qed

lemma dag_walk_mono:
  assumes "dag_walk parents s seen stack = Inr r" and "\<And>c b. bs_get s c = Some b \<Longrightarrow> bs_get t c = Some b"
  shows "dag_walk parents t seen stack = Inr r"
  using assms
proof (induction parents s seen stack rule: dag_walk.induct)
  case (2 parents s seen c stack)
  show ?case
  proof (cases "c \<in> seen")
    case False
    then obtain data ps where d: "bs_get s c = Some data" and ps: "parents data = Inr ps"
      and rec: "dag_walk parents s (insert c seen) (push_parents (insert c seen) ps stack) = Inr r"
      using 2(3) by (auto simp: monad_simps split: option.splits)
    from 2(2) [OF False d ps rec 2(4)] False ps show ?thesis by (simp add: 2(4) [OF d])
  qed (use 2 in simp)
qed simp

section \<open>Lowest common ancestors\<close>

locale ancestry =
  fixes anc :: "'s \<Rightarrow> 'c::linorder \<Rightarrow> 'e + 'c set"
    and par :: "'s \<Rightarrow> 'c \<Rightarrow> 'c \<Rightarrow> bool"
    and ok :: "'s \<Rightarrow> 'c \<Rightarrow> bool"
  assumes anc_sound: "anc s c = Inr S \<Longrightarrow> S = {a. (par s)\<^sup>*\<^sup>* c a} \<and> finite S"
    and anc_readable: "anc s c = Inr S \<Longrightarrow> a \<in> S \<Longrightarrow> ok s a"
    and anc_total: "(\<forall>a. (par s)\<^sup>*\<^sup>* c a \<longrightarrow> ok s a) \<Longrightarrow> \<exists>S. anc s c = Inr S"
begin

definition common :: "'s \<Rightarrow> 'c list \<Rightarrow> 'c set" where
  "common s hs = {a. \<forall>h \<in> set hs. (par s)\<^sup>*\<^sup>* h a}"

text \<open>The lowest ones: no other common ancestor lies below.\<close>

definition lowest :: "'s \<Rightarrow> 'c list \<Rightarrow> 'c set" where
  "lowest s hs = {a \<in> common s hs. \<forall>b \<in> common s hs. (par s)\<^sup>*\<^sup>* b a \<longrightarrow> b = a}"

lemma anc_of_anc:
  assumes "anc s c = Inr S" and "a \<in> S"
  shows "\<exists>T. anc s a = Inr T \<and> T \<subseteq> S"
proof -
  have S: "S = {a. (par s)\<^sup>*\<^sup>* c a}" using anc_sound [OF assms(1)] by blast
  have "\<exists>T. anc s a = Inr T"
    by (rule anc_total) (use S assms anc_readable [OF assms(1)] in \<open>auto intro: rtranclp_trans\<close>)
  then obtain T where T: "anc s a = Inr T" by blast
  then have "T = {b. (par s)\<^sup>*\<^sup>* a b}" using anc_sound by blast
  with S assms(2) T show ?thesis by (auto intro: rtranclp_trans)
qed

lemma anc_all:
  assumes "rmap (anc s) hs = Inr Ss" and "hs \<noteq> []"
  shows "fold (\<lambda>S common. common \<inter> S) (tl Ss) (hd Ss) = common s hs \<and> finite (common s hs)"
proof -
  from assms(1) have l2: "list_all2 (\<lambda>h S. S = {a. (par s)\<^sup>*\<^sup>* h a} \<and> finite S) hs Ss"
    unfolding rmap_Inr_iff by (rule list_all2_mono) (rule anc_sound)
  obtain h hs' S Ss' where eq: "hs = h # hs'" "Ss = S # Ss'"
    using assms(2) l2 by (cases hs; cases Ss) auto
  have fold: "fold (\<lambda>S common. common \<inter> S) Ss' X = X \<inter> {a. \<forall>h \<in> set hs'. (par s)\<^sup>*\<^sup>* h a}" for X
  proof -
    from l2 have "list_all2 (\<lambda>h S. S = {a. (par s)\<^sup>*\<^sup>* h a} \<and> finite S) hs' Ss'" by (simp add: eq)
    then show ?thesis by (induction hs' Ss' arbitrary: X rule: list_all2_induct) auto
  qed
  have "S = {a. (par s)\<^sup>*\<^sup>* h a}" "finite S" using l2 unfolding eq list_all2_Cons by blast+
  then show ?thesis by (auto simp: eq fold common_def)
qed

lemma strict_fold:
  assumes "rfold (\<lambda>c strict. rbind (anc s c) (\<lambda>S. Inr (strict \<union> {a \<in> S. a \<noteq> c \<and> a \<in> C}))) cs X = Inr Y"
  shows "Y = X \<union> {a \<in> C. \<exists>c \<in> set cs. (par s)\<^sup>*\<^sup>* c a \<and> a \<noteq> c}"
  using assms
proof (induction cs arbitrary: X)
  case Nil
  then show ?case by simp
next
  case (Cons c cs)
  then obtain S where S: "anc s c = Inr S"
    and r: "rfold (\<lambda>c strict. rbind (anc s c) (\<lambda>S. Inr (strict \<union> {a \<in> S. a \<noteq> c \<and> a \<in> C}))) cs
        (X \<union> {a \<in> S. a \<noteq> c \<and> a \<in> C}) = Inr Y"
    by (auto simp: monad_simps)
  have "S = {a. (par s)\<^sup>*\<^sup>* c a}" using anc_sound [OF S] by blast
  with Cons.IH [OF r] show ?case by auto
qed

lemma strict_fold_total:
  assumes "rmap (anc s) hs = Inr Ss" and "hs \<noteq> []" and "set cs \<subseteq> common s hs"
  shows "\<exists>Y. rfold (\<lambda>c strict. rbind (anc s c) (\<lambda>S. Inr (strict \<union> {a \<in> S. a \<noteq> c \<and> a \<in> C}))) cs X = Inr Y"
  using assms(3)
proof (induction cs arbitrary: X)
  case Nil
  show ?case by simp
next
  case (Cons c cs)
  obtain h hs' where hs: "hs = h # hs'" using assms(2) by (cases hs) auto
  with assms(1) obtain S where S: "anc s h = Inr S" by (auto simp: monad_simps)
  have "(par s)\<^sup>*\<^sup>* h c" using Cons.prems hs by (simp add: common_def)
  then have "c \<in> S" using anc_sound [OF S] by blast
  from anc_of_anc [OF S this] obtain T where "anc s c = Inr T" by blast
  with Cons show ?case by simp
qed

lemma lowest_filter:
  assumes "finite (common s hs)"
    and "rfold (\<lambda>c strict. rbind (anc s c) (\<lambda>S. Inr (strict \<union> {a \<in> S. a \<noteq> c \<and> a \<in> common s hs})))
      (sorted_list_of_set (common s hs)) {} = Inr Y"
  shows "sort (filter (\<lambda>c. c \<notin> Y) (sorted_list_of_set (common s hs))) = sorted_list_of_set (lowest s hs)"
proof -
  let ?cs = "sorted_list_of_set (common s hs)"
  have Y: "Y = {a \<in> common s hs. \<exists>c \<in> common s hs. (par s)\<^sup>*\<^sup>* c a \<and> a \<noteq> c}"
    using strict_fold [OF assms(2)] assms(1) by auto
  have "set (filter (\<lambda>c. c \<notin> Y) ?cs) = lowest s hs"
    unfolding Y lowest_def using assms(1) by auto
  moreover have "sorted_wrt (<) (filter (\<lambda>c. c \<notin> Y) ?cs)"
    by (rule sorted_wrt_filter) simp
  ultimately show ?thesis
    by (metis sorted_list_of_set.idem_if_sorted_distinct sorted_sort_id strict_sorted_iff)
qed

lemma lowest_subset: "lowest s hs \<subseteq> common s hs"
  by (auto simp: lowest_def)

lemma lowest_exists:
  assumes "finite (common s hs)" and "common s hs \<noteq> {}" and "acyclicP (par s)"
  shows "lowest s hs \<noteq> {}"
proof -
  let ?R = "{(b, a). b \<in> common s hs \<and> a \<in> common s hs \<and> (par s)\<^sup>+\<^sup>+ b a}"
  have "finite ?R" by (rule finite_subset [of _ "common s hs \<times> common s hs"]) (use assms(1) in auto)
  moreover have "acyclic ?R"
  proof -
    have "acyclic {(b, a). (par s)\<^sup>+\<^sup>+ b a}"
      using assms(3) by (simp add: acyclic_def tranclp_unfold)
    then show ?thesis by (rule acyclic_subset) auto
  qed
  ultimately have "wf ?R" by (rule finite_acyclic_wf)
  obtain c where "c \<in> common s hs" using assms(2) by blast
  from wfE_min [OF \<open>wf ?R\<close> this] obtain z where z: "z \<in> common s hs"
    and min: "\<And>y. (y, z) \<in> ?R \<Longrightarrow> y \<notin> common s hs" by blast
  have "b = z" if "b \<in> common s hs" "(par s)\<^sup>*\<^sup>* b z" for b
  proof (rule ccontr)
    assume "b \<noteq> z"
    then have "(par s)\<^sup>+\<^sup>+ b z" using rtranclpD [OF that(2)] by simp
    then have "(b, z) \<in> ?R" using that(1) z by simp
    then show False using min that(1) by blast
  qed
  then show ?thesis using z by (auto simp: lowest_def)
qed

end

lemma ancestors_inclusive_sound:
  assumes "dag_walk parents bs {} [c] = Inr S"
  shows "S = {a. (parent_of parents bs)\<^sup>*\<^sup>* c a}" and "\<forall>a \<in> S. parents_readable parents bs a" and "finite S"
proof -
  from dag_walk_sound [OF assms] show S: "S = {a. (parent_of parents bs)\<^sup>*\<^sup>* c a}"
    and r: "\<forall>a \<in> S. parents_readable parents bs a" by simp_all
  have "S \<subseteq> fset (fmdom bs)"
    using r by (auto simp: parents_readable_def bs_get_def dest: fmdomI)
  then show "finite S" by (rule finite_subset) simp
qed

lemma ancestry_walk:
  "ancestry (\<lambda>(E, bs) c. dag_walk (parents E) bs {} [c]) (\<lambda>(E, bs). parent_of (parents E) bs)
     (\<lambda>(E, bs). parents_readable (parents E) bs)"
proof (unfold_locales, goal_cases)
  case (1 s c S)
  then show ?case using ancestors_inclusive_sound [of "parents (fst s)" "snd s" c S] by (simp add: case_prod_unfold)
next
  case (2 s c S a)
  then show ?case using ancestors_inclusive_sound(2) [of "parents (fst s)" "snd s" c S] by (simp add: case_prod_unfold)
next
  case (3 s c)
  then show ?case using dag_walk_total [of "[c]" "parents (fst s)" "snd s" "{}"] by (simp add: case_prod_unfold)
qed

interpretation ops: ancestry
  "\<lambda>(E, bs) c. ancestors_inclusive E bs c" "\<lambda>(E, bs). parent_of (op_parents_of E) bs"
  "\<lambda>(E, bs). parents_readable (op_parents_of E) bs"
  unfolding ancestors_inclusive_def by (rule ancestry_walk)

section \<open>The lowest common ancestor of several heads\<close>

definition op_common :: "('c, 'h, 'b) external \<Rightarrow> ('c, 'b) store \<Rightarrow> 'c list \<Rightarrow> 'c set" where
  "op_common E bs hs = {a. \<forall>h \<in> set hs. (parent_of (op_parents_of E) bs)\<^sup>*\<^sup>* h a}"

definition op_lowest :: "('c, 'h, 'b) external \<Rightarrow> ('c, 'b) store \<Rightarrow> 'c list \<Rightarrow> 'c set" where
  "op_lowest E bs hs =
     {a \<in> op_common E bs hs. \<forall>b \<in> op_common E bs hs. (parent_of (op_parents_of E) bs)\<^sup>*\<^sup>* b a \<longrightarrow> b = a}"

definition ops_readable :: "('c, 'h, 'b) external \<Rightarrow> ('c, 'b) store \<Rightarrow> 'c list \<Rightarrow> bool" where
  "ops_readable E bs hs \<longleftrightarrow>
     (\<forall>h \<in> set hs. \<forall>a. (parent_of (op_parents_of E) bs)\<^sup>*\<^sup>* h a \<longrightarrow> parents_readable (op_parents_of E) bs a)"

lemma ops_common [simp]: "ops.common (E, bs) hs = op_common E bs hs"
  by (simp add: ops.common_def op_common_def)

lemma ops_lowest [simp]: "ops.lowest (E, bs) hs = op_lowest E bs hs"
  by (simp add: ops.lowest_def op_lowest_def)

lemma find_lca_many_run:
  assumes "rmap (ancestors_inclusive E bs) (h1 # h2 # hs) = Inr Ss"
  defines "heads \<equiv> h1 # h2 # hs"
  shows "finite (op_common E bs heads) \<and>
    find_lca_many E bs heads =
      (if op_common E bs heads = {} then Inr None
       else case sorted_list_of_set (op_lowest E bs heads) of [] \<Rightarrow> Inl Panic | c # _ \<Rightarrow> Inr (Some c))"
proof -
  have rm: "rmap (\<lambda>c. ancestors_inclusive E bs c) heads = Inr Ss" "heads \<noteq> []"
    using assms by (simp_all add: heads_def)
  from ops.anc_all [of "(E, bs)" heads Ss] rm
  have fold: "fold (\<lambda>S common. common \<inter> S) (tl Ss) (hd Ss) = op_common E bs heads"
    and fin: "finite (op_common E bs heads)" by simp_all
  obtain Y where Y: "rfold (\<lambda>c strict. rbind (ancestors_inclusive E bs c)
      (\<lambda>S. Inr (strict \<union> {a \<in> S. a \<noteq> c \<and> a \<in> op_common E bs heads})))
      (sorted_list_of_set (op_common E bs heads)) {} = Inr Y"
    using ops.strict_fold_total [of "(E, bs)" heads Ss "sorted_list_of_set (op_common E bs heads)" "op_common E bs heads" "{}"]
      rm fin by auto
  have "sort (filter (\<lambda>c. c \<notin> Y) (sorted_list_of_set (op_common E bs heads))) = sorted_list_of_set (op_lowest E bs heads)"
    using ops.lowest_filter [of "(E, bs)" heads Y] fin Y by simp
  then show ?thesis
    using fin rm(1) fold Y unfolding find_lca_many_def heads_def by (simp add: Let_def)
qed

lemma find_lca_many_Inr:
  assumes "find_lca_many E bs heads = Inr r" and "2 \<le> length heads"
  shows "case r of
      None \<Rightarrow> op_common E bs heads = {}
    | Some c \<Rightarrow> c \<in> op_lowest E bs heads \<and> (\<forall>d \<in> op_lowest E bs heads. c \<le> d)"
proof -
  from assms(2) obtain h1 h2 hs where h: "heads = h1 # h2 # hs"
    by (cases heads; cases "tl heads") auto
  from assms(1) obtain Ss where "rmap (ancestors_inclusive E bs) heads = Inr Ss"
    unfolding find_lca_many_def h list.case rbind_Inr_iff by blast
  note run = find_lca_many_run [OF this [unfolded h], folded h]
  have fin: "finite (op_lowest E bs heads)"
    using run by (auto simp: op_lowest_def)
  show ?thesis
  proof (cases "op_common E bs heads = {}")
    case True
    with run assms(1) show ?thesis by simp
  next
    case False
    with run assms(1) obtain c cs where cs: "sorted_list_of_set (op_lowest E bs heads) = c # cs" and r: "r = Some c"
      by (auto split: list.splits)
    have "sorted (c # cs)" by (metis cs sorted_sorted_list_of_set)
    moreover have "set (c # cs) = op_lowest E bs heads" using cs fin by (metis set_sorted_list_of_set)
    ultimately show ?thesis using r by auto
  qed
qed

lemma find_lca_many_total:
  assumes "ops_readable E bs heads" and "acyclicP (parent_of (op_parents_of E) bs)"
  shows "\<exists>r. find_lca_many E bs heads = Inr r"
proof (cases "2 \<le> length heads")
  case False
  then show ?thesis by (cases heads; cases "tl heads") (auto simp: find_lca_many_def)
next
  case True
  then obtain h1 h2 hs where h: "heads = h1 # h2 # hs"
    by (cases heads; cases "tl heads") auto
  have "\<exists>S. ancestors_inclusive E bs h = Inr S" if "h \<in> set heads" for h
    using ops.anc_total [of "(E, bs)" h] assms(1) that by (auto simp: ops_readable_def)
  then have "\<exists>Ss. rmap (ancestors_inclusive E bs) hs' = Inr Ss" if "set hs' \<subseteq> set heads" for hs'
    using that by (induction hs') fastforce+
  then obtain Ss where "rmap (ancestors_inclusive E bs) heads = Inr Ss" by blast
  note run = find_lca_many_run [OF this [unfolded h], folded h]
  have "op_lowest E bs heads \<noteq> {}" if "op_common E bs heads \<noteq> {}"
    using ops.lowest_exists [of "(E, bs)" heads] run that assms(2) by simp
  moreover have "finite (op_lowest E bs heads)" using run by (auto simp: op_lowest_def)
  ultimately have "op_common E bs heads \<noteq> {} \<Longrightarrow> sorted_list_of_set (op_lowest E bs heads) \<noteq> []"
    by simp
  with run show ?thesis by (cases "sorted_list_of_set (op_lowest E bs heads)") auto
qed

lemma find_lca_sym: "find_lca E bs a b = find_lca E bs b a"
  by (cases a b rule: linorder_cases) (auto simp: find_lca_def)

lemma ancestors_mono:
  assumes "ancestors_inclusive E s c = Inr S" and "\<And>c b. bs_get s c = Some b \<Longrightarrow> bs_get t c = Some b"
  shows "ancestors_inclusive E t c = Inr S"
  using assms unfolding ancestors_inclusive_def by (rule dag_walk_mono)

lemma rfold_mono:
  assumes "rfold f xs a = Inr r" and "\<And>x a r. f x a = Inr r \<Longrightarrow> g x a = Inr r"
  shows "rfold g xs a = Inr r"
  using assms by (induction xs arbitrary: a) (auto simp: monad_simps)

lemma find_lca_many_mono:
  assumes "find_lca_many E s heads = Inr r" and "\<And>c b. bs_get s c = Some b \<Longrightarrow> bs_get t c = Some b"
  shows "find_lca_many E t heads = Inr r"
proof (cases "2 \<le> length heads")
  case False
  with assms(1) show ?thesis by (cases heads; cases "tl heads") (auto simp: find_lca_many_def)
next
  case True
  then obtain h1 h2 hs where h: "heads = h1 # h2 # hs"
    by (cases heads; cases "tl heads") auto
  from assms(1) obtain Ss where Ss: "rmap (ancestors_inclusive E s) heads = Inr Ss"
    unfolding find_lca_many_def h list.case rbind_Inr_iff by blast
  have "rmap (ancestors_inclusive E t) heads = Inr Ss"
    using Ss unfolding rmap_Inr_iff by (rule list_all2_mono) (rule ancestors_mono [OF _ assms(2)])
  moreover have "rfold (\<lambda>c strict. rbind (ancestors_inclusive E t c) (\<lambda>anc. Inr (strict \<union> {a \<in> anc. a \<noteq> c \<and> a \<in> C}))) cs X = Inr Y"
    if "rfold (\<lambda>c strict. rbind (ancestors_inclusive E s c) (\<lambda>anc. Inr (strict \<union> {a \<in> anc. a \<noteq> c \<and> a \<in> C}))) cs X = Inr Y"
    for C cs X Y
    using that by (rule rfold_mono) (auto simp: monad_simps dest: ancestors_mono [OF _ assms(2)])
  ultimately show ?thesis
    using assms(1) Ss unfolding find_lca_many_def h
    by (auto simp: monad_simps Let_def split: if_splits)
qed

lemma find_lca_mono:
  assumes "find_lca E s a b = Inr r" and "\<And>c b. bs_get s c = Some b \<Longrightarrow> bs_get t c = Some b"
  shows "find_lca E t a b = Inr r"
  using find_lca_many_mono [OF _ assms(2)] assms(1) by (simp add: find_lca_def split: if_splits)

section \<open>The cache\<close>

record 'c lca_cache =
  lc_entries :: "('c \<times> 'c, 'c option) fmap"
  lc_hits :: u64
  lc_misses :: u64

definition lca_cache_new :: "'c lca_cache" where
  "lca_cache_new = \<lparr>lc_entries = fmempty, lc_hits = 0, lc_misses = 0\<rparr>"

definition canonical_pair :: "'c::linorder \<Rightarrow> 'c \<Rightarrow> 'c \<times> 'c" where
  "canonical_pair a b = (if a \<le> b then (a, b) else (b, a))"

definition get_or_compute ::
    "('c::linorder, 'h, 'b) external \<Rightarrow> ('c, 'b) store \<Rightarrow> 'c \<Rightarrow> 'c
       \<Rightarrow> ('c lca_cache, 'c error, 'c option) prog" where
  "get_or_compute E bs left right = (\<lambda>cache.
     let key = canonical_pair left right in
     case fmlookup (lc_entries cache) key of
       Some v \<Rightarrow> (Inr v, cache\<lparr>lc_hits := lc_hits cache + 1\<rparr>)
     | None \<Rightarrow>
         let cache = cache\<lparr>lc_misses := lc_misses cache + 1\<rparr> in
         (case find_lca E bs left right of
            Inl e \<Rightarrow> (Inl e, cache)
          | Inr v \<Rightarrow> (Inr v, cache\<lparr>lc_entries := fmupd key v (lc_entries cache)\<rparr>)))"

definition lca_cache_len :: "'c lca_cache \<Rightarrow> nat" where
  "lca_cache_len cache = fcard (fmdom (lc_entries cache))"

text \<open>Every entry is what the walk would compute in the present store.\<close>

definition cache_ok :: "('c::linorder, 'h, 'b) external \<Rightarrow> ('c, 'b) store \<Rightarrow> 'c lca_cache \<Rightarrow> bool" where
  "cache_ok E bs cache \<longleftrightarrow>
     (\<forall>a b v. fmlookup (lc_entries cache) (a, b) = Some v \<longrightarrow> find_lca E bs a b = Inr v)"

lemma cache_ok_new: "cache_ok E bs lca_cache_new"
  by (simp add: cache_ok_def lca_cache_new_def)

lemma find_lca_canonical: "canonical_pair a b = (c, d) \<Longrightarrow> find_lca E bs c d = find_lca E bs a b"
  by (auto simp: canonical_pair_def find_lca_sym split: if_splits)

lemma cache_ok_grows:
  assumes "cache_ok E s cache" and "\<And>c b. bs_get s c = Some b \<Longrightarrow> bs_get t c = Some b"
  shows "cache_ok E t cache"
  unfolding cache_ok_def
proof (intro allI impI)
  fix a b v assume "fmlookup (lc_entries cache) (a, b) = Some v"
  then have "find_lca E s a b = Inr v" using assms(1) by (simp add: cache_ok_def)
  then show "find_lca E t a b = Inr v" using assms(2) by (rule find_lca_mono)
qed

lemma get_or_compute_cached:
  assumes "cache_ok E bs cache" and "get_or_compute E bs a b cache = (r, cache')"
  shows "r = find_lca E bs a b \<and> cache_ok E bs cache'"
proof -
  obtain c d where key: "canonical_pair a b = (c, d)" by fastforce
  note eq = find_lca_canonical [OF key, of E bs]
  show ?thesis
  proof (cases "fmlookup (lc_entries cache) (c, d)")
    case (Some v)
    with assms key eq show ?thesis by (auto simp: get_or_compute_def cache_ok_def)
  next
    case None
    with assms key eq show ?thesis
      by (auto simp: get_or_compute_def cache_ok_def Let_def split: sum.splits if_splits)
  qed
qed

end
