(* ===== verification/Merge_Refs.thy ===== *)
theory Merge_Refs imports Objects "HOL-Library.Multiset" begin

text \<open>
  The ref-level merge of \<open>crates/mnem-core/src/repo/merge.rs\<close>: \<open>bag\<close>, \<open>merge_one_ref\<close> and \<open>merge_views\<close>.

  A ref target stands for a signed multiset of CIDs; the merge of the heads' targets against the base
  is the sum of the heads minus \<open>N - 1\<close> times the base, and what is left of it, the positive CIDs as
  adds and the negative ones as removes, is the merged target. \<open>net\<close> is that sum as a function, and
  \<open>merge_counts\<close> the source's loop over the map \<open>counts\<close>. The \<open>i32\<close> counters are integers here: they
  overflow only past \<open>2^31\<close> entries; the clamp of the number of heads is kept.
\<close>

section \<open>One ref\<close>

fun bag :: "'c ref_target option \<Rightarrow> ('c \<times> int) list" where
  "bag None = []"
| "bag (Some (Normal target)) = [(target, 1)]"
| "bag (Some (Conflicted adds removes)) = map (\<lambda>c. (c, 1)) adds @ map (\<lambda>c. (c, - 1)) removes"

definition bump :: "'c \<Rightarrow> int \<Rightarrow> ('c, int) fmap \<Rightarrow> ('c, int) fmap" where
  "bump cid d counts = fmupd cid ((case fmlookup counts cid of None \<Rightarrow> 0 | Some n \<Rightarrow> n) + d) counts"

definition i32_max :: int where "i32_max = 2 ^ 31 - 1"

definition merge_counts :: "'c ref_target option \<Rightarrow> 'c ref_target option list \<Rightarrow> ('c, int) fmap" where
  "merge_counts base heads =
     (let counts = fold (\<lambda>h counts. fold (\<lambda>(cid, sign) counts. bump cid sign counts) (bag h) counts) heads fmempty;
          n_minus_1 = min (int (length heads)) i32_max - 1 in
      fold (\<lambda>(cid, sign) counts. bump cid (- (sign * n_minus_1)) counts) (bag base) counts)"

definition merge_one_ref ::
    "'c::linorder ref_target option \<Rightarrow> 'c ref_target option list \<Rightarrow> 'c ref_target option" where
  "merge_one_ref base heads =
     (if list_all (\<lambda>h. h = base) heads then base
      else if heads \<noteq> [] \<and> list_all (\<lambda>h. h = hd heads) heads then hd heads
      else
        let counts = merge_counts base heads;
            adds = map fst (filter (\<lambda>(cid, count). 0 < count) (bt_iter counts));
            removes = map fst (filter (\<lambda>(cid, count). count < 0) (bt_iter counts)) in
        case (adds, removes) of
          ([], []) \<Rightarrow> None
        | ([target], []) \<Rightarrow> Some (Normal target)
        | _ \<Rightarrow> Some (ref_conflicted adds removes))"

section \<open>The signed sum\<close>

definition weight :: "'c ref_target option \<Rightarrow> 'c \<Rightarrow> int" where
  "weight t c = sum_list (map snd (filter (\<lambda>e. fst e = c) (bag t)))"

definition net :: "'c ref_target option \<Rightarrow> 'c ref_target option list \<Rightarrow> 'c \<Rightarrow> int" where
  "net base heads c = (\<Sum>h \<leftarrow> heads. weight h c) - (min (int (length heads)) i32_max - 1) * weight base c"

definition count_of :: "('c, int) fmap \<Rightarrow> 'c \<Rightarrow> int" where
  "count_of counts c = (case fmlookup counts c of None \<Rightarrow> 0 | Some n \<Rightarrow> n)"

lemma count_of_bump: "count_of (bump cid d counts) c = count_of counts c + (if c = cid then d else 0)"
  by (simp add: count_of_def bump_def)

lemma count_of_bag:
  "count_of (fold (\<lambda>(cid, sign) counts. bump cid (f sign) counts) es counts) c
     = count_of counts c + sum_list (map (f \<circ> snd) (filter (\<lambda>e. fst e = c) es))"
  by (induction es arbitrary: counts) (auto simp: count_of_bump)

lemma count_of_bags:
  "count_of (fold (\<lambda>h counts. fold (\<lambda>(cid, sign) counts. bump cid sign counts) (bag h) counts) heads counts) c
     = count_of counts c + (\<Sum>h \<leftarrow> heads. weight h c)"
  by (induction heads arbitrary: counts)
     (simp_all add: count_of_bag [where f = "\<lambda>s. s", simplified] weight_def o_def)

lemma count_of_merge: "count_of (merge_counts base heads) c = net base heads c"
proof -
  have "(\<Sum>e \<leftarrow> es. - (snd e * k)) = - (k * sum_list (map snd es))" for es :: "('a \<times> int) list" and k
    by (induction es) (simp_all add: algebra_simps)
  then show ?thesis
    unfolding merge_counts_def Let_def
    by (simp add: count_of_bag [where f = "\<lambda>s. - (s * _)"] count_of_bags net_def weight_def o_def)
       (simp add: count_of_def)
qed

lemma finite_net: "finite {c. net base heads c \<noteq> 0}"
proof -
  have "{c. net base heads c \<noteq> 0} \<subseteq> fset (fmdom (merge_counts base heads))"
    by (auto simp: count_of_merge [symmetric] count_of_def split: option.splits intro: fmdomI)
  then show ?thesis by (rule finite_subset) simp
qed

lemma signed_part:
  assumes "\<not> p 0"
  shows "map fst (filter (\<lambda>(cid, count). p count) (bt_iter (merge_counts base heads)))
     = sorted_list_of_set {c. p (net base heads c)}" (is "?l = _")
proof -
  let ?m = "merge_counts base heads"
  have "sorted_wrt (<) (map fst (bt_iter ?m))"
    using strict_keys_bt_iter [of ?m] by (simp add: strict_keys_def)
  then have "sorted_wrt (<) ?l"
    by (auto simp: sorted_wrt_map intro: sorted_wrt_filter)
  moreover have "set ?l = {c. p (net base heads c)}"
    using assms
    by (auto simp: count_of_merge [symmetric] count_of_def set_bt_iter image_iff
        split: option.splits)
  ultimately show ?thesis
    by (metis sorted_list_of_set.idem_if_sorted_distinct strict_sorted_iff)
qed

definition adds_of :: "'c::linorder ref_target option \<Rightarrow> 'c ref_target option list \<Rightarrow> 'c list" where
  "adds_of base heads = sorted_list_of_set {c. 0 < net base heads c}"

definition removes_of :: "'c::linorder ref_target option \<Rightarrow> 'c ref_target option list \<Rightarrow> 'c list" where
  "removes_of base heads = sorted_list_of_set {c. net base heads c < 0}"

lemma ref_conflicted_sorted:
  "ref_conflicted (sorted_list_of_set A) (sorted_list_of_set B)
     = Conflicted (sorted_list_of_set A) (sorted_list_of_set B)"
  by (simp add: ref_conflicted_def sorted_sort_id remdups_adj_distinct)

text \<open>The target a signed sum collapses to.\<close>

fun collapse :: "'c list \<Rightarrow> 'c list \<Rightarrow> 'c ref_target option" where
  "collapse [] [] = None"
| "collapse [target] [] = Some (Normal target)"
| "collapse adds removes = Some (Conflicted adds removes)"

lemma merge_one_ref_eq:
  "merge_one_ref base heads =
     (if \<forall>h \<in> set heads. h = base then base
      else if \<exists>t. set heads = {t} then hd heads
      else collapse (adds_of base heads) (removes_of base heads))"
proof -
  have same: "heads \<noteq> [] \<and> (\<forall>h \<in> set heads. h = hd heads) \<longleftrightarrow> (\<exists>t. set heads = {t})"
    by (cases heads) auto
  have a: "map fst (filter (\<lambda>(cid, count). 0 < count) (bt_iter (merge_counts base heads))) = adds_of base heads"
    by (simp add: signed_part adds_of_def)
  have r: "map fst (filter (\<lambda>(cid, count). count < 0) (bt_iter (merge_counts base heads))) = removes_of base heads"
    by (simp add: signed_part removes_of_def)
  have c: "ref_conflicted (adds_of base heads) (removes_of base heads)
      = Conflicted (adds_of base heads) (removes_of base heads)"
    by (simp add: adds_of_def removes_of_def ref_conflicted_sorted)
  have "(case (as, rs) of ([], []) \<Rightarrow> None | ([target], []) \<Rightarrow> Some (Normal target) | _ \<Rightarrow> Some (Conflicted as rs))
      = collapse as rs" for as rs :: "'a list"
    by (cases "(as, rs)" rule: collapse.cases) (auto split: list.split)
  then show ?thesis
    unfolding merge_one_ref_def list_all_iff same a r Let_def c by simp
qed

section \<open>Laws of the ref merge\<close>

lemma merge_one_ref_mset:
  assumes "mset heads = mset heads'"
  shows "merge_one_ref base heads = merge_one_ref base heads'"
proof -
  have set: "set heads = set heads'" using assms by (rule mset_eq_setD)
  have "(\<Sum>h \<leftarrow> heads. weight h c) = (\<Sum>h \<leftarrow> heads'. weight h c)" for c
    by (metis assms mset_map sum_mset_sum_list)
  then have "net base heads = net base heads'"
    using mset_eq_length [OF assms] by (simp add: fun_eq_iff net_def)
  then have "adds_of base heads = adds_of base heads'" "removes_of base heads = removes_of base heads'"
    by (simp_all add: adds_of_def removes_of_def)
  moreover have "hd heads = hd heads'" if "\<exists>t. set heads = {t}"
    using that set by (cases heads; cases heads') auto
  ultimately show ?thesis by (simp add: merge_one_ref_eq set)
qed

text \<open>The targets the merge produces: sorted, without a CID on both sides, and collapsed.\<close>

definition ref_canonical :: "'c::linorder ref_target option \<Rightarrow> bool" where
  "ref_canonical t \<longleftrightarrow> (case t of
      Some (Conflicted adds removes) \<Rightarrow>
        sorted_wrt (<) adds \<and> sorted_wrt (<) removes \<and> set adds \<inter> set removes = {} \<and>
        \<not> (removes = [] \<and> length adds < 2)
    | _ \<Rightarrow> True)"

lemma canonical_collapse:
  assumes "sorted_wrt (<) adds" and "sorted_wrt (<) removes" and "set adds \<inter> set removes = {}"
  shows "ref_canonical (collapse adds removes)"
  using assms by (cases "(adds, removes)" rule: collapse.cases) (auto simp: ref_canonical_def)

lemma merge_one_ref_canonical:
  assumes "ref_canonical base" and "\<forall>h \<in> set heads. ref_canonical h"
  shows "ref_canonical (merge_one_ref base heads)"
proof -
  have fin: "finite {c. 0 < net base heads c}" "finite {c. net base heads c < 0}"
    by (rule finite_subset [OF _ finite_net [of base heads]], auto)+
  have "hd heads \<in> set heads" if "set heads = {t}" for t
    using that by (cases heads) auto
  then show ?thesis
    using assms fin by (auto simp: merge_one_ref_eq adds_of_def removes_of_def intro!: canonical_collapse)
qed

lemma weight_Conflicted:
  assumes "distinct adds" and "distinct removes" and "set adds \<inter> set removes = {}"
  shows "weight (Some (Conflicted adds removes)) c
    = (if c \<in> set adds then 1 else if c \<in> set removes then - 1 else 0)"
proof -
  have signed: "sum_list (map snd (filter (\<lambda>e. fst e = c) (map (\<lambda>c. (c, k)) xs))) = (if c \<in> set xs then k else 0)"
    if "distinct xs" for xs :: "'a list" and k :: int
    using that by (induction xs) auto
  show ?thesis using assms by (auto simp: weight_def signed)
qed

lemma weight_simps [simp]:
  "weight None c = 0" "weight (Some (Normal t)) c = (if c = t then 1 else 0)"
  by (auto simp: weight_def)

lemma collapse_weight:
  assumes "ref_canonical t"
  shows "collapse (sorted_list_of_set {c. 0 < weight t c}) (sorted_list_of_set {c. weight t c < 0}) = t"
proof (cases t)
  case None
  then show ?thesis by simp
next
  case (Some r)
  show ?thesis
  proof (cases r)
    case (Normal c)
    have "{d. 0 < (if d = c then 1 else (0::int))} = {c}" "{d. (if d = c then 1 else (0::int)) < 0} = {}"
      by auto
    with Some Normal show ?thesis by simp
  next
    case (Conflicted adds removes)
    with assms Some have s: "sorted_wrt (<) adds" "sorted_wrt (<) removes" "set adds \<inter> set removes = {}"
      and n: "\<not> (removes = [] \<and> length adds < 2)" by (simp_all add: ref_canonical_def)
    have w: "weight t c = (if c \<in> set adds then 1 else if c \<in> set removes then - 1 else 0)" for c
      using s unfolding Some Conflicted by (intro weight_Conflicted) (simp_all add: strict_sorted_iff)
    have "{c. 0 < weight t c} = set adds" "{c. weight t c < 0} = set removes"
      using s(3) by (auto simp: w)
    moreover have "sorted_list_of_set (set adds) = adds" "sorted_list_of_set (set removes) = removes"
      using s by (simp_all add: sorted_list_of_set.idem_if_sorted_distinct strict_sorted_iff)
    ultimately show ?thesis using n Some Conflicted
      by (cases "(adds, removes)" rule: collapse.cases) auto
  qed
qed

lemma net_pair: "net base [h1, h2] c = weight h1 c + weight h2 c - weight base c"
  by (simp add: net_def i32_max_def)

lemma merge_one_sided:
  assumes "ref_canonical h"
  shows "merge_one_ref base [base, h] = h" and "merge_one_ref base [h, base] = h"
proof -
  have "adds_of base [base, h] = sorted_list_of_set {c. 0 < weight h c}"
    "removes_of base [base, h] = sorted_list_of_set {c. weight h c < 0}"
    by (simp_all add: adds_of_def removes_of_def net_pair)
  then show l: "merge_one_ref base [base, h] = h"
    using collapse_weight [OF assms] by (auto simp: merge_one_ref_eq)
  have "mset [h, base] = mset [base, h]" by simp
  from merge_one_ref_mset [OF this] l show "merge_one_ref base [h, base] = h" by simp
qed

lemma merge_agreeing: "merge_one_ref base [h, h] = h"
  by (auto simp: merge_one_ref_eq)

lemma sorted_pair: "sorted_list_of_set {a, b :: 'c::linorder} = (if a = b then [a] else if a < b then [a, b] else [b, a])"
  by (auto intro: sorted_list_of_set.idem_if_sorted_distinct simp: insert_commute)

lemma merge_divergent:
  assumes "a < b" and "a \<noteq> c" and "b \<noteq> c"
  shows "merge_one_ref (Some (Normal c)) [Some (Normal a), Some (Normal b)] = Some (Conflicted [a, b] [c])"
proof -
  let ?n = "net (Some (Normal c)) [Some (Normal a), Some (Normal b)]"
  have "{d. 0 < ?n d} = {a, b}" "{d. ?n d < 0} = {c}"
    using assms by (auto simp: net_pair)
  then show ?thesis
    using assms by (auto simp: merge_one_ref_eq adds_of_def removes_of_def sorted_pair)
qed

text \<open>With three heads the sum subtracts the base twice: a change two heads agree on is divergent.\<close>

lemma merge_two_of_three:
  assumes "a \<noteq> b"
  shows "merge_one_ref (Some (Normal a)) [Some (Normal b), Some (Normal b), Some (Normal a)]
    = Some (Conflicted [b] [a])"
proof -
  let ?n = "net (Some (Normal a)) [Some (Normal b), Some (Normal b), Some (Normal a)]"
  have "?n d = (if d = b then 2 else if d = a then - 1 else 0)" for d
    using assms by (simp add: net_def i32_max_def)
  then have "{d. 0 < ?n d} = {b}" "{d. ?n d < 0} = {a}" using assms by auto
  then show ?thesis
    using assms by (auto simp: merge_one_ref_eq adds_of_def removes_of_def)
qed

section \<open>Views\<close>

fun find_map :: "('a \<Rightarrow> 'b option) \<Rightarrow> 'a list \<Rightarrow> 'b option" where
  "find_map f [] = None"
| "find_map f (x # xs) = (case f x of None \<Rightarrow> find_map f xs | Some y \<Rightarrow> Some y)"

definition or_else :: "'a option \<Rightarrow> 'a option \<Rightarrow> 'a option" where
  "or_else x y = (case x of None \<Rightarrow> y | Some a \<Rightarrow> Some a)"

definition extend_map :: "('k, 'v) fmap \<Rightarrow> ('k::linorder, 'v) fmap \<Rightarrow> ('k, 'v) fmap" where
  "extend_map m n = fold (\<lambda>(k, v) m. fmupd k v m) (bt_iter n) m"

definition ref_names :: "'c view \<Rightarrow> 'c view list \<Rightarrow> string fset" where
  "ref_names ancestor heads = fold (\<lambda>v names. names |\<union>| fmdom (vw_refs v)) heads (fmdom (vw_refs ancestor))"

definition merge_refs :: "'c::linorder view \<Rightarrow> 'c view list \<Rightarrow> (string, 'c ref_target) fmap" where
  "merge_refs ancestor heads =
     fold (\<lambda>name merged.
        case merge_one_ref (fmlookup (vw_refs ancestor) name) (map (\<lambda>v. fmlookup (vw_refs v) name) heads) of
          None \<Rightarrow> merged
        | Some t \<Rightarrow> fmupd name t merged)
      (sorted_list_of_fset (ref_names ancestor heads)) fmempty"

definition merge_views :: "'c::linorder view \<Rightarrow> 'c view list \<Rightarrow> 'c view" where
  "merge_views ancestor heads =
     (let merged_refs = merge_refs ancestor heads;
          commit_heads = sorted_list_of_set (fold (\<lambda>v s. s \<union> set (vw_heads v)) heads (set (vw_heads ancestor)));
          remote_refs = or_else (find_map vw_remote_refs heads) (vw_remote_refs ancestor);
          wc_commit = or_else (find_map vw_wc_commit heads) (vw_wc_commit ancestor);
          extra = fold (\<lambda>v extra. extend_map extra (vw_extra v)) heads (vw_extra ancestor);
          tombstones = fold (\<lambda>v t. extend_map t (vw_tombstones v)) heads (vw_tombstones ancestor) in
      \<lparr>vw_heads = commit_heads, vw_refs = merged_refs, vw_remote_refs = remote_refs,
       vw_wc_commit = wc_commit, vw_tombstones = tombstones, vw_extra = extra\<rparr>)"

lemma extend_map_eq [simp]: "extend_map m n = m ++\<^sub>f n"
proof (rule fmap_ext)
  fix k
  have "fmlookup (fold (\<lambda>(k, v) m. fmupd k v m) es m) k
      = (case map_of (rev es) k of None \<Rightarrow> fmlookup m k | Some v \<Rightarrow> Some v)" for es and m :: "('a, 'b) fmap"
    by (induction es arbitrary: m) (auto split: option.split)
  moreover have "map_of (rev (bt_iter n)) k = fmlookup n k"
    using fmlookup_insert_all [of "bt_iter n" k] by simp
  ultimately show "fmlookup (extend_map m n) k = fmlookup (m ++\<^sub>f n) k"
    by (simp add: extend_map_def fmlookup_add_case del: fmlookup_add)
qed

lemma fmlookup_fold_upd:
  assumes "distinct names"
  shows "fmlookup (fold (\<lambda>name m. case f name of None \<Rightarrow> m | Some t \<Rightarrow> fmupd name t m) names m) k
    = (if k \<in> set names \<and> f k \<noteq> None then f k else fmlookup m k)"
  using assms by (induction names arbitrary: m) (auto split: option.split)

lemma fset_ref_names: "fset (ref_names ancestor heads) = (\<Union>v \<in> set (ancestor # heads). fset (fmdom (vw_refs v)))"
proof -
  have "fset (fold (\<lambda>v names. names |\<union>| fmdom (vw_refs v)) heads s) = fset s \<union> (\<Union>v \<in> set heads. fset (fmdom (vw_refs v)))"
    for s by (induction heads arbitrary: s) auto
  then show ?thesis by (simp add: ref_names_def)
qed

lemma merge_one_ref_absent: "merge_one_ref None (map (\<lambda>v. None) heads) = None"
  by (auto simp: merge_one_ref_eq)

lemma fmlookup_merge_refs:
  "fmlookup (merge_refs ancestor heads) name
     = merge_one_ref (fmlookup (vw_refs ancestor) name) (map (\<lambda>v. fmlookup (vw_refs v) name) heads)"
proof (cases "name \<in> fset (ref_names ancestor heads)")
  case True
  then show ?thesis
    by (simp add: merge_refs_def fmlookup_fold_upd sorted_list_of_fset.rep_eq)
next
  case False
  then have "fmlookup (vw_refs v) name = None" if "v \<in> set (ancestor # heads)" for v
    using that by (auto simp: fset_ref_names fmdom_notI fmlookup_dom_iff)
  then have "map (\<lambda>v. fmlookup (vw_refs v) name) heads = map (\<lambda>v. None) heads"
    "fmlookup (vw_refs ancestor) name = None" by auto
  then have "merge_one_ref (fmlookup (vw_refs ancestor) name) (map (\<lambda>v. fmlookup (vw_refs v) name) heads) = None"
    by (simp only: merge_one_ref_absent)
  with False show ?thesis
    by (simp add: merge_refs_def fmlookup_fold_upd sorted_list_of_fset.rep_eq)
qed

lemma merge_views_heads:
  "vw_heads (merge_views ancestor heads) = sorted_list_of_set (\<Union>v \<in> set (ancestor # heads). set (vw_heads v))"
proof -
  have "fold (\<lambda>v s. s \<union> set (vw_heads v)) heads s = s \<union> (\<Union>v \<in> set heads. set (vw_heads v))" for s
    by (induction heads arbitrary: s) auto
  then show ?thesis by (simp add: merge_views_def)
qed

lemma merge_views_mset:
  assumes "mset heads = mset heads'"
  shows "vw_refs (merge_views ancestor heads) = vw_refs (merge_views ancestor heads')"
    and "vw_heads (merge_views ancestor heads) = vw_heads (merge_views ancestor heads')"
proof -
  have "mset (map f heads) = mset (map f heads')" for f :: "'a view \<Rightarrow> 'a ref_target option"
    using assms by simp
  then have "fmlookup (merge_refs ancestor heads) name = fmlookup (merge_refs ancestor heads') name" for name
    unfolding fmlookup_merge_refs by (rule merge_one_ref_mset)
  then show "vw_refs (merge_views ancestor heads) = vw_refs (merge_views ancestor heads')"
    by (simp add: merge_views_def fmap_ext)
  have "set heads = set heads'" using assms by (rule mset_eq_setD)
  then show "vw_heads (merge_views ancestor heads) = vw_heads (merge_views ancestor heads')"
    by (simp add: merge_views_heads)
qed

lemma fold_add_lookup:
  "fmlookup (fold (\<lambda>v m. m ++\<^sub>f f v) vs m) k
     = (case find_map (\<lambda>v. fmlookup (f v) k) (rev vs) of None \<Rightarrow> fmlookup m k | Some x \<Rightarrow> Some x)"
proof (induction vs rule: rev_induct)
  case (snoc v vs)
  then show ?case by (auto simp: fmlookup_add_case simp del: fmlookup_add split: option.split)
qed simp

lemma merge_views_tombstones:
  "fmlookup (vw_tombstones (merge_views ancestor heads)) n
     = find_map (\<lambda>v. fmlookup (vw_tombstones v) n) (rev (ancestor # heads))"
proof -
  have "find_map f (xs @ [a]) = (case find_map f xs of None \<Rightarrow> f a | Some x \<Rightarrow> Some x)"
    for f :: "'a view \<Rightarrow> 'a tombstone option" and xs a
    by (induction xs) (auto split: option.split)
  then show ?thesis by (simp add: merge_views_def fold_add_lookup)
qed

lemma find_map_None: "find_map f xs = None \<longleftrightarrow> (\<forall>x \<in> set xs. f x = None)"
  by (induction xs) (auto split: option.split)

lemma find_map_Some: "find_map f xs = Some y \<Longrightarrow> \<exists>x \<in> set xs. f x = Some y"
  by (induction xs) (auto split: option.splits)

lemma merge_views_ok:
  assumes "view_ok ancestor" and "\<forall>v \<in> set heads. view_ok v"
  shows "view_ok (merge_views ancestor heads)"
  unfolding view_ok_def
proof
  have "fmlookup (vw_extra (merge_views ancestor heads)) k = None"
    if "k \<in> set view_names" for k
  proof -
    have "fmlookup (vw_extra v) k = None" if "v \<in> set (ancestor # heads)" for v
      using that assms \<open>k \<in> set view_names\<close> by (auto simp: view_ok_def extra_ok_def list_all_iff)
    then show ?thesis
      by (auto simp: merge_views_def fold_add_lookup find_map_None split: option.split dest: find_map_Some)
  qed
  then show "extra_ok view_names (vw_extra (merge_views ancestor heads))"
    by (simp add: extra_ok_def list_all_iff)
  show "\<forall>(k, t) \<in> set (bt_iter (vw_tombstones (merge_views ancestor heads))). tombstone_ok t"
  proof (clarsimp simp: set_bt_iter merge_views_tombstones)
    fix k t assume "find_map (\<lambda>v. fmlookup (vw_tombstones v) k) (rev heads @ [ancestor]) = Some t"
    then obtain v where "v \<in> set (ancestor # heads)" "fmlookup (vw_tombstones v) k = Some t"
      using find_map_Some by fastforce
    then have "(k, t) \<in> set (bt_iter (vw_tombstones v))" "view_ok v"
      using assms by (auto simp: set_bt_iter)
    then show "tombstone_ok t" unfolding view_ok_def by blast
  qed
qed

end
