(* ===== verification/Op_Heads.thy ===== *)
theory Op_Heads imports Codec begin

text \<open>
  \<open>crates/mnem-core/src/store/op_heads.rs\<close>: the set of current heads of the operation DAG, in
  memory a \<open>HashSet<Cid>\<close> behind a mutex. \<open>oh_current\<close> lists it in ascending order; \<open>oh_update\<close>
  inserts the new head and then removes the superseded ones, and \<open>oh_update_crash\<close> is the state a
  crash between the two steps leaves.

  The locale \<open>op_heads_store\<close> is what the repository layer relies on.
\<close>

type_synonym 'c op_heads = "'c fset"

definition oh_new :: "'c op_heads" where
  "oh_new = {||}"

definition oh_current :: "'c::linorder op_heads \<Rightarrow> 'c list" where
  "oh_current h = sorted_list_of_fset h"

definition oh_insert :: "'c \<Rightarrow> 'c op_heads \<Rightarrow> 'c op_heads" where
  "oh_insert new h = finsert new h"

definition oh_update :: "'c \<Rightarrow> 'c list \<Rightarrow> 'c op_heads \<Rightarrow> 'c op_heads" where
  "oh_update new supersedes h = fold (\<lambda>s h. h |-| {|s|}) supersedes (oh_insert new h)"

lemma fold_fminus: "fold (\<lambda>s h. h |-| {|s|}) ss h = h |-| fset_of_list ss"
  by (induction ss arbitrary: h) (auto simp: fset_eq_iff)

lemma fset_oh_update: "fset (oh_update new ss h) = insert new (fset h) - set ss"
  by (auto simp: oh_update_def oh_insert_def fold_fminus fset_of_list.rep_eq)

locale op_heads_store =
  fixes heads_of :: "'s \<Rightarrow> 'c::linorder list"
    and advance :: "'c \<Rightarrow> 'c list \<Rightarrow> 's \<Rightarrow> 's"
  assumes heads_sorted: "sorted_wrt (<) (heads_of s)"
    and heads_advance: "set (heads_of (advance new ss s)) = insert new (set (heads_of s)) - set ss"
begin

lemma advance_all:
  assumes "set (heads_of s) \<subseteq> set ss" and "new \<notin> set ss"
  shows "heads_of (advance new ss s) = [new]"
proof -
  have "set (heads_of (advance new ss s)) = set [new]"
    using assms by (auto simp: heads_advance)
  moreover have "sorted_wrt (<) [new]" by simp
  ultimately show ?thesis
    using heads_sorted strict_sorted_equal by blast
qed

lemma advance_concurrent:
  assumes "set (heads_of s) = {base}" and "a \<noteq> base" and "b \<noteq> base"
  shows "set (heads_of (advance b [base] (advance a [base] s))) = {a, b}"
  using assms by (auto simp: heads_advance)

end

interpretation ohm: op_heads_store oh_current oh_update
  by unfold_locales
     (auto simp: oh_current_def fset_oh_update sorted_list_of_fset.rep_eq)

end
