(* ===== verification/History_Props.thy ===== *)
theory History_Props imports Lca Merge_Refs Op_Heads Instance begin

text \<open>
  The properties of the operation history: lowest common ancestors and their cache, the set of op-heads under
  concurrent writers, and the merge of refs and views.
\<close>

section \<open>Lowest common ancestors\<close>

text \<open>C7 (\<open>repo/lca.rs\<close>). On an acyclic history whose operations are all in the store, \<open>find_lca_many\<close> returns:
  \<open>None\<close> exactly when the heads have no ancestor in common, and otherwise the smallest CID among the lowest common
  ancestors, those with no other common ancestor below them.\<close>

theorem find_lca_many_lowest:
  assumes "ops_readable E bs heads" and "acyclicP (parent_of (op_parents_of E) bs)" and "2 \<le> length heads"
  shows "\<exists>r. find_lca_many E bs heads = Inr r \<and>
    (case r of None \<Rightarrow> op_common E bs heads = {}
     | Some c \<Rightarrow> c \<in> op_lowest E bs heads \<and> (\<forall>d \<in> op_lowest E bs heads. c \<le> d))"
  using find_lca_many_total [OF assms(1,2)] find_lca_many_Inr [OF _ assms(3)] by blast

text \<open>Two operations on top of a common one, and a merge of them.\<close>

definition wop :: "nat list \<Rightarrow> nat operation" where
  "wop ps = (operation_new 9 ''me'' 5 ''op'')\<lparr>op_parents := ps\<rparr>"

definition wdag :: "nat ipld list" where
  "wdag = [ser_operation (wop []), ser_operation (wop [0]), ser_operation ((wop [0])\<lparr>op_time := 6\<rparr>),
           ser_operation (wop [1, 2])]"

definition wops :: "(nat, nat) store" where
  "wops = fmap_of_list (map (\<lambda>n. (n, n)) [0, 1, 2, 3])"

abbreviation "wdE \<equiv> tE wdag"

lemma wops_parents:
  "list_all (\<lambda>(n, ps). op_parents_of wdE n = Inr ps) [(0, []), (1, [0]), (2, [0]), (3, [1, 2])]"
  by code_simp

lemma wops_get: "bs_get wops c = (if c < 4 then Some c else None)"
proof -
  have "c < 4 \<longleftrightarrow> c = 0 \<or> c = 1 \<or> c = 2 \<or> c = 3" by auto
  then show ?thesis by (auto simp: wops_def bs_get_def)
qed

lemma wops_parent: "parent_of (op_parents_of wdE) wops c p \<longleftrightarrow> (c, p) \<in> {(1, 0), (2, 0), (3, 1), (3, 2)}"
proof -
  consider "4 \<le> c" | "c = 0" | "c = 1" | "c = 2" | "c = 3" by linarith
  then show ?thesis using wops_parents by cases (auto simp: parent_of_def wops_get)
qed

lemma wops_acyclic: "acyclicP (parent_of (op_parents_of wdE) wops)"
proof (rule acyclic_subset)
  have "{(c, p). p < (c :: nat)} = {(c, p). c < p}\<inverse>" by auto
  then show "acyclic {(c, p). p < (c :: nat)}"
    using wf_acyclic [OF wf_less] by (simp only: acyclic_converse)
  show "{(c, p). parent_of (op_parents_of wdE) wops c p} \<subseteq> {(c, p). p < c}"
    by (auto simp: wops_parent)
qed

lemma wops_readable: "set heads \<subseteq> {..<4} \<Longrightarrow> ops_readable wdE wops heads"
proof -
  assume heads: "set heads \<subseteq> {..<4}"
  have "a < 4" if "(parent_of (op_parents_of wdE) wops)\<^sup>*\<^sup>* h a" "h < 4" for h a
    using that by (induction rule: rtranclp_induct) (auto simp: wops_parent)
  moreover have "parents_readable (op_parents_of wdE) wops a" if "a < 4" for a
  proof -
    have "a = 0 \<or> a = 1 \<or> a = 2 \<or> a = 3" using that by auto
    then show ?thesis using wops_parents by (auto simp: parents_readable_def wops_get)
  qed
  ultimately show ?thesis using heads by (auto simp: ops_readable_def)
qed

theorem find_lca_many_lowest_witness:
  "\<exists>c. find_lca_many wdE wops [1, 2] = Inr (Some c) \<and> c \<in> op_lowest wdE wops [1, 2]"
proof -
  have "find_lca_many wdE wops [1, 2] = Inr (Some 0)" by code_simp
  with find_lca_many_lowest [OF wops_readable wops_acyclic, of "[1, 2]"] show ?thesis by auto
qed

text \<open>Also (\<open>LcaCache::get_or_compute\<close>). A session cache answers every query as the walk would at that moment,
  in whichever order the two operations are named and although the store keeps growing, and counts each query
  once as a hit or a miss (modulo \<open>2 ^ 64\<close>).\<close>

fun lca_session ::
    "('c::linorder, 'h, 'b) external \<Rightarrow> (('c, 'b) store \<times> 'c \<times> 'c) list \<Rightarrow> 'c lca_cache
       \<Rightarrow> ('c error + 'c option) list \<times> 'c lca_cache" where
  "lca_session E [] cache = ([], cache)"
| "lca_session E ((bs, a, b) # qs) cache =
     (let (r, cache) = get_or_compute E bs a b cache; (rs, cache) = lca_session E qs cache in (r # rs, cache))"

definition store_extends :: "('c, 'b) store \<Rightarrow> ('c, 'b) store \<Rightarrow> bool" where
  "store_extends s t \<longleftrightarrow> (\<forall>c b. bs_get s c = Some b \<longrightarrow> bs_get t c = Some b)"

lemma get_or_compute_counts:
  "get_or_compute E bs a b cache = (r, cache') \<Longrightarrow>
     lc_hits cache' + lc_misses cache' = lc_hits cache + lc_misses cache + 1"
  by (auto simp: get_or_compute_def Let_def split: option.splits sum.splits)

lemma lca_session_run:
  assumes "lca_session E qs cache = (rs, cache')"
    and "\<forall>q \<in> set qs. cache_ok E (fst q) cache" and "sorted_wrt store_extends (map fst qs)"
  shows "rs = map (\<lambda>(bs, a, b). find_lca E bs a b) qs \<and>
    lc_hits cache' + lc_misses cache' = lc_hits cache + lc_misses cache + word_of_nat (length qs)"
  using assms
proof (induction qs arbitrary: cache rs)
  case (Cons q qs)
  obtain bs a b where q: "q = (bs, a, b)" by (cases q)
  obtain r c1 rs' where r: "get_or_compute E bs a b cache = (r, c1)" "lca_session E qs c1 = (rs', cache')" "rs = r # rs'"
    using Cons.prems(1) by (auto simp: q split: prod.splits)
  have c: "r = find_lca E bs a b \<and> cache_ok E bs c1"
    using Cons.prems(2) by (intro get_or_compute_cached [OF _ r(1)]) (simp add: q)
  have "\<forall>q \<in> set qs. cache_ok E (fst q) c1"
    using Cons.prems(3) c by (auto simp: q store_extends_def intro: cache_ok_grows)
  with Cons.IH [OF r(2)] Cons.prems(3) c get_or_compute_counts [OF r(1)] r(3) show ?case
    by (simp add: q algebra_simps)
qed simp

theorem lca_cache_coherent:
  assumes "sorted_wrt store_extends (map fst qs)"
    and "lca_session E qs lca_cache_new = (rs, cache)"
  shows "rs = map (\<lambda>(bs, a, b). find_lca E bs a b) qs \<and> lc_hits cache + lc_misses cache = word_of_nat (length qs)"
  using lca_session_run [OF assms(2) _ assms(1)] by (simp add: cache_ok_new) (simp add: lca_cache_new_def)

theorem lca_cache_coherent_witness:
  "\<exists>cache. lca_session wdE [(wops, 1, 2), (wops, 2, 1), (wops, 3, 1)] lca_cache_new =
     ([find_lca wdE wops 1 2, find_lca wdE wops 2 1, find_lca wdE wops 3 1], cache) \<and> lc_hits cache + lc_misses cache = 3"
proof -
  let ?qs = "[(wops, 1, 2), (wops, 2, 1), (wops, 3, 1)]"
  obtain rs cache where run: "lca_session wdE ?qs lca_cache_new = (rs, cache)" by fastforce
  have "sorted_wrt store_extends (map fst ?qs)" by (simp add: store_extends_def)
  from lca_cache_coherent [OF this run] run show ?thesis by simp
qed

section \<open>Op-heads\<close>

text \<open>Also (\<open>store/op_heads.rs\<close>). Writers that all started from the same head and publish one after the other
  lose nothing: the heads are then exactly the published operations, in ascending order and each once, in
  whichever order they were published, and one merge that supersedes them leaves a single head.\<close>

lemma fset_oh_updates:
  "base \<notin> set ops \<Longrightarrow> fset (fold (\<lambda>new h. oh_update new [base] h) ops h)
     = (if ops = [] then fset h else (fset h - {base}) \<union> set ops)"
  by (induction ops arbitrary: h) (auto simp: fset_oh_update)

theorem concurrent_heads_kept:
  assumes "oh_current h = [base]" and "base \<notin> set ops" and "ops \<noteq> []" and "m \<notin> set ops"
  shows "oh_current (fold (\<lambda>new h. oh_update new [base] h) ops h) = sorted_list_of_set (set ops) \<and>
    oh_current (oh_update m ops (fold (\<lambda>new h. oh_update new [base] h) ops h)) = [m]"
proof -
  let ?h = "fold (\<lambda>new h. oh_update new [base] h) ops h"
  have "set (oh_current h) = {base}" using assms(1) by simp
  then have "fset h = {base}" by (simp add: oh_current_def sorted_list_of_fset.rep_eq)
  then have f: "fset ?h = set ops" using fset_oh_updates [OF assms(2), of h] assms(3) by auto
  then have "set (oh_current ?h) = set ops" by (simp add: oh_current_def sorted_list_of_fset.rep_eq)
  then show ?thesis
    using f ohm.advance_all [of ?h ops m] assms(4) by (simp add: oh_current_def sorted_list_of_fset.rep_eq)
qed

theorem concurrent_heads_kept_witness:
  "oh_current (fold (\<lambda>new h. oh_update new [1] h) [5, 3, 4 :: nat] {|1|}) = [3, 4, 5]"
proof -
  have "oh_current {|1 :: nat|} = [1]" by (simp add: oh_current_def sorted_list_of_fset.rep_eq)
  moreover have "sorted_list_of_set (set [5, 3, 4 :: nat]) = [3, 4, 5]"
    by (rule sorted_list_of_set.idem_if_sorted_distinct [THEN trans [rotated]]) auto
  ultimately show ?thesis using concurrent_heads_kept [of "{|1 :: nat|}" 1 "[5, 3, 4]" 9] by simp
qed

section \<open>Refs and views\<close>

definition targets_of :: "'c ref_target option \<Rightarrow> 'c set" where
  "targets_of t = (case t of Some (Normal c) \<Rightarrow> {c} | Some (Conflicted adds removes) \<Rightarrow> set adds | None \<Rightarrow> {})"

definition plain :: "'c ref_target option \<Rightarrow> bool" where
  "plain t \<longleftrightarrow> (case t of Some (Conflicted adds removes) \<Rightarrow> False | _ \<Rightarrow> True)"

text \<open>C8 (\<open>repo/merge.rs\<close>, \<open>merge_one_ref\<close>). Merging one ref of two heads against their ancestor, where none of the
  three is already conflicted: what only one side changed wins, equal changes agree, and two different changes become a conflict that keeps both new
  targets and the old one.\<close>

theorem ref_merge_two_heads:
  assumes "plain base" and "plain h1" and "plain h2"
  shows "merge_one_ref base [h1, h2] =
    (if h1 = base then h2 else if h2 = base \<or> h1 = h2 then h1
     else Some (Conflicted (sorted_list_of_set (targets_of h1 \<union> targets_of h2)) (sorted_list_of_set (targets_of base))))"
proof -
  have c: "ref_canonical h1" "ref_canonical h2"
    using assms by (auto simp: plain_def ref_canonical_def split: option.splits ref_target.splits)
  consider "h1 = base" | "h2 = base" | "h1 = h2" | "h1 \<noteq> base" "h2 \<noteq> base" "h1 \<noteq> h2" by blast
  then show ?thesis
  proof cases
    case 1
    then show ?thesis using merge_one_sided(1) [OF c(2)] by simp
  next
    case 2
    then show ?thesis using merge_one_sided(2) [OF c(1)] by simp
  next
    case 3
    then show ?thesis by (simp add: merge_agreeing)
  next
    case 4
    let ?n = "net base [h1, h2]"
    have w: "weight t c = (if c \<in> targets_of t then 1 else 0)" if "plain t" for t :: "'a ref_target option" and c
      using that by (cases t) (auto simp: plain_def targets_of_def split: ref_target.splits)
    have disj: "targets_of s \<inter> targets_of t = {}" if "plain s" "plain t" "s \<noteq> t" for s t :: "'a ref_target option"
      using that by (auto simp: plain_def targets_of_def split: option.splits ref_target.splits)
    have "{c. 0 < ?n c} = targets_of h1 \<union> targets_of h2" "{c. ?n c < 0} = targets_of base"
      using w [OF assms(1)] w [OF assms(2)] w [OF assms(3)]
        disj [OF assms(1,2)] disj [OF assms(1,3)] disj [OF assms(2,3)] 4 by (auto simp: net_pair)
    moreover have "card (targets_of h1 \<union> targets_of h2) + card (targets_of base) \<ge> 2 \<and>
        (card (targets_of h1 \<union> targets_of h2) = 1 \<longrightarrow> targets_of base \<noteq> {})"
      using assms 4
      by (cases base; cases h1; cases h2) (auto simp: plain_def targets_of_def split: ref_target.splits)
    ultimately have "collapse (adds_of base [h1, h2]) (removes_of base [h1, h2])
        = Some (Conflicted (sorted_list_of_set (targets_of h1 \<union> targets_of h2)) (sorted_list_of_set (targets_of base)))"
      unfolding adds_of_def removes_of_def
      by (cases "(sorted_list_of_set (targets_of h1 \<union> targets_of h2), sorted_list_of_set (targets_of base))"
          rule: collapse.cases)
         (auto dest!: arg_cong [of _ _ length])
    then show ?thesis using 4 by (auto simp: merge_one_ref_eq)
  qed
qed

theorem ref_merge_two_heads_witness:
  "merge_one_ref (Some (Normal 1)) [Some (Normal 3), Some (Normal (2 :: nat))] = Some (Conflicted [2, 3] [1])"
proof -
  have "sorted_list_of_set (targets_of (Some (Normal 3)) \<union> targets_of (Some (Normal (2 :: nat)))) = [2, 3]"
    by (simp add: targets_of_def sorted_pair insert_commute)
  then show ?thesis
    by (subst ref_merge_two_heads) (simp_all add: plain_def targets_of_def)
qed

text \<open>Also (\<open>merge_one_ref\<close>). The merged target does not depend on the order in which the heads are listed, and it
  is canonical when theirs are: adds and removes sorted, without repetition and disjoint, and no conflict that
  is really one plain target.\<close>

theorem ref_merge_order_independent:
  assumes "mset heads = mset heads'" and "ref_canonical base" and "\<forall>h \<in> set heads. ref_canonical h"
  shows "merge_one_ref base heads = merge_one_ref base heads' \<and> ref_canonical (merge_one_ref base heads)"
  using merge_one_ref_mset [OF assms(1)] merge_one_ref_canonical [OF assms(2,3)] by blast

theorem ref_merge_order_independent_witness:
  "merge_one_ref (Some (Normal 1)) [Some (Normal 2), None, Some (Normal (3 :: nat))]
     = merge_one_ref (Some (Normal 1)) [None, Some (Normal 3), Some (Normal 2)]"
  by (rule conjunct1 [OF ref_merge_order_independent]) (simp_all add: ref_canonical_def)

text \<open>Also (\<open>merge_one_ref\<close>). Three heads show where the signed sum departs from the two-head law: when two heads moved
  a ref to the same new target and the third left it, the result is a conflict, although nobody disagrees.\<close>

theorem ref_merge_two_of_three:
  assumes "a \<noteq> b"
  shows "merge_one_ref (Some (Normal a)) [Some (Normal b), Some (Normal b), Some (Normal a)]
    = Some (Conflicted [b] [a])"
  using assms by (rule merge_two_of_three)

theorem ref_merge_two_of_three_witness:
  "merge_one_ref (Some (Normal 0)) [Some (Normal 1), Some (Normal 1), Some (Normal (0 :: nat))]
     = Some (Conflicted [1] [0])"
  by (rule ref_merge_two_of_three) simp

text \<open>C9 (\<open>merge_views\<close>). A merge of views merges every ref by itself, keeps every commit head of any of them, in
  ascending order, takes a tombstone from the last head that has one and otherwise from the ancestor, and the
  result can be written and read back when the views could.\<close>

theorem merge_views_spec:
  assumes "view_ok ancestor" and "\<forall>v \<in> set heads. view_ok v"
  shows "let v = merge_views ancestor heads in
    fmlookup (vw_refs v) name
      = merge_one_ref (fmlookup (vw_refs ancestor) name) (map (\<lambda>v. fmlookup (vw_refs v) name) heads) \<and>
    vw_heads v = sorted_list_of_set (\<Union>v \<in> set (ancestor # heads). set (vw_heads v)) \<and>
    fmlookup (vw_tombstones v) n = find_map (\<lambda>v. fmlookup (vw_tombstones v) n) (rev (ancestor # heads)) \<and>
    de_view (ser_view v) = Inr v"
  using fmlookup_merge_refs [of ancestor heads name] merge_views_heads [of ancestor heads]
    merge_views_tombstones [of ancestor heads n] de_ser_view [OF merge_views_ok [OF assms]]
  by (simp add: Let_def merge_views_def)

definition hview :: "nat list \<Rightarrow> nat view" where
  "hview cs = fold (\<lambda>c v. with_ref (with_head v c) ''main'' (Normal c)) cs view_new"

lemma hview_ok: "view_ok (hview [c])"
  by (auto simp: hview_def view_ok_def view_new_def with_ref_def with_head_def extra_ok_def list_all_iff set_bt_iter
      split: prod.split)

theorem merge_views_spec_witness:
  "vw_heads (merge_views (hview [1]) [hview [2], hview [3]]) = [1, 2, 3] \<and>
   de_view (ser_view (merge_views (hview [1]) [hview [2], hview [3]])) = Inr (merge_views (hview [1]) [hview [2], hview [3]])"
proof -
  have "sorted_list_of_set {1, 2, 3 :: nat} = [1, 2, 3]"
    by (rule sorted_list_of_set.idem_if_sorted_distinct [THEN trans [rotated]]) auto
  moreover have "(\<Union>v \<in> set (hview [1] # [hview [2], hview [3]]). set (vw_heads v)) = {1, 2, 3}"
    by (auto simp: hview_def view_new_def with_ref_def with_head_def)
  ultimately show ?thesis
    using merge_views_spec [of "hview [1]" "[hview [2], hview [3]]"] by (simp add: hview_ok Let_def)
qed

end
