(* ===== verification/Index.thy ===== *)
theory Index imports Index_Objects Prolly_Map "HOL-Library.Product_Lexorder" begin

text \<open>
  \<open>crates/mnem-core/src/index/\<close>: building the secondary indexes of a commit (\<open>build.rs\<close>), the append-only
  update of them, and the readers \<open>lookup_by_prop\<close> (\<open>resolve.rs\<close>), \<open>load_outgoing\<close> and \<open>load_incoming\<close>
  (\<open>adjacency.rs\<close>).

  The builder groups the entries of the node tree by label and by (label, property), one Prolly tree per
  group, and the edges by source and by destination, one bucket per node. The nested \<open>BTreeMap\<close>s with
  \<open>entry(..).or_default()\<close> are finite maps of finite maps (\<open>group_insert\<close>) or of lists (\<open>group_push\<close>).
\<close>

section \<open>Keys and errors\<close>

definition prop_value_hash :: "('c, 'h, 'b) external \<Rightarrow> 'c ipld \<Rightarrow> 'c error + prolly_key" where
  "prop_value_hash E value =
     rbind (to_canonical_bytes E value) (\<lambda>bs.
     ok_or (key_of_bytes (take 16 (blake3 E (block_bytes E bs)))) Panic)"

fun wrap_index_decode_error :: "'c error \<Rightarrow> 'c \<Rightarrow> 'c error" where
  "wrap_index_decode_error (Store (NotFound c)) cid = Repo (IndexCorrupt cid)"
| "wrap_index_decode_error (Codec e) cid = Repo (IndexCorrupt cid)"
| "wrap_index_decode_error err cid = err"


section \<open>Grouping\<close>

definition group_insert :: "'g \<Rightarrow> 'k \<Rightarrow> 'v \<Rightarrow> ('g, ('k, 'v) fmap) fmap \<Rightarrow> ('g, ('k, 'v) fmap) fmap" where
  "group_insert g k v m = fmupd g (fmupd k v (case fmlookup m g of None \<Rightarrow> fmempty | Some i \<Rightarrow> i)) m"

definition group_push :: "'g \<Rightarrow> 'v \<Rightarrow> ('g, 'v list) fmap \<Rightarrow> ('g, 'v list) fmap" where
  "group_push g v m = fmupd g ((case fmlookup m g of None \<Rightarrow> [] | Some i \<Rightarrow> i) @ [v]) m"

type_synonym 'c label_groups = "(string, (prolly_key, 'c) fmap) fmap"
type_synonym 'c prop_groups = "(string \<times> string, (prolly_key, 'c) fmap) fmap"
type_synonym 'c out_groups = "(node_id, 'c adjacency_entry list) fmap"
type_synonym 'c in_groups = "(node_id, 'c incoming_entry list) fmap"

definition index_node ::
    "('c, 'h, 'b) external \<Rightarrow> ('c, 'b) store \<Rightarrow> prolly_key \<times> 'c \<Rightarrow> 'c label_groups \<times> 'c prop_groups
       \<Rightarrow> 'c error + 'c label_groups \<times> 'c prop_groups" where
  "index_node E bs = (\<lambda>(node_key, node_cid) (label_groups, prop_groups).
     rbind (map_err (\<lambda>e. wrap_index_decode_error e node_cid) (decode_from_store E de_node bs node_cid)) (\<lambda>node.
     rbind (rfold (\<lambda>(prop_name, prop_value) prop_groups.
         rbind (prop_value_hash E prop_value) (\<lambda>hash_key.
         Inr (group_insert (nd_ntype node, prop_name) hash_key node_cid prop_groups)))
       (bt_iter (nd_props node)) prop_groups) (\<lambda>prop_groups.
     Inr (group_insert (nd_ntype node) node_key node_cid label_groups, prop_groups))))"

definition index_edge ::
    "('c, 'h, 'b) external \<Rightarrow> ('c, 'b) store \<Rightarrow> prolly_key \<times> 'c \<Rightarrow> 'c out_groups \<times> 'c in_groups
       \<Rightarrow> 'c error + 'c out_groups \<times> 'c in_groups" where
  "index_edge E bs = (\<lambda>(k, edge_cid) (outgoing_groups, incoming_groups).
     rbind (decode_from_store E de_edge bs edge_cid) (\<lambda>edge.
     Inr (group_push (ed_src edge) \<lparr>ae_label = ed_etype edge, ae_edge = edge_cid\<rparr> outgoing_groups,
          group_push (ed_dst edge) \<lparr>ie_label = ed_etype edge, ie_src = ed_src edge, ie_edge = edge_cid\<rparr>
            incoming_groups)))"

section \<open>\<open>build_index_set\<close>\<close>

definition build_label_trees ::
    "('c, 'h, 'b) external \<Rightarrow> 'c label_groups \<Rightarrow> (('c, 'b) store, 'c error, (string, 'c) fmap) prog" where
  "build_label_trees E label_groups =
     sfold (\<lambda>(label, entries) nodes_by_label.
        sbind (build_tree E (bt_iter entries)) (\<lambda>root. sret (fmupd label root nodes_by_label)))
       (bt_iter label_groups) fmempty"

definition build_prop_trees ::
    "('c, 'h, 'b) external \<Rightarrow> 'c prop_groups
       \<Rightarrow> (('c, 'b) store, 'c error, (string, (string, 'c) fmap) fmap) prog" where
  "build_prop_trees E prop_groups =
     sfold (\<lambda>((label, prop_name), entries) nodes_by_prop.
        sbind (build_tree E (bt_iter entries)) (\<lambda>root. sret (group_insert label prop_name root nodes_by_prop)))
       (bt_iter prop_groups) fmempty"

definition outgoing_bucket :: "'c::linorder adjacency_entry list \<Rightarrow> 'c adjacency_bucket" where
  "outgoing_bucket edges = \<lparr>ab_edges = sort_key (\<lambda>a. (ae_label a, ae_edge a)) edges, ab_extra = fmempty\<rparr>"

definition incoming_bucket_of :: "'c::linorder incoming_entry list \<Rightarrow> 'c incoming_bucket" where
  "incoming_bucket_of edges =
     \<lparr>ib_edges = sort_key (\<lambda>a. (ie_label a, ie_src a, ie_edge a)) edges, ib_extra = fmempty\<rparr>"

definition build_adjacency ::
    "('c, 'h, 'b) external \<Rightarrow> ('e list \<Rightarrow> 'c ipld) \<Rightarrow> (node_id, 'e list) fmap
       \<Rightarrow> (('c, 'b) store, 'c error, 'c option) prog" where
  "build_adjacency E bucket by_node =
     (if fmdom by_node = {||} then sret None
      else
        sbind (sfold (\<lambda>(node, edges) bucket_entries.
            sbind (put_object E (bucket edges)) (\<lambda>cid. sret (fmupd node cid bucket_entries)))
          (bt_iter by_node) fmempty) (\<lambda>bucket_entries.
        sbind (build_tree E (bt_iter bucket_entries)) (\<lambda>root. sret (Some root))))"

definition build_index_set ::
    "('c::linorder, 'h, 'b) external \<Rightarrow> nat \<Rightarrow> 'c \<Rightarrow> 'c \<Rightarrow> (('c, 'b) store, 'c error, 'c) prog" where
  "build_index_set E fuel nodes_root edges_root =
     sbind (sread (\<lambda>bs. for_entries E bs fuel nodes_root (index_node E bs) (fmempty, fmempty)))
       (\<lambda>(label_groups, prop_groups).
     sbind (build_label_trees E label_groups) (\<lambda>nodes_by_label.
     sbind (build_prop_trees E prop_groups) (\<lambda>nodes_by_prop.
     sbind (sread (\<lambda>bs. for_entries E bs fuel edges_root (index_edge E bs) (fmempty, fmempty)))
       (\<lambda>(outgoing_groups, incoming_groups).
     sbind (build_adjacency E (\<lambda>es. ser_adjacency_bucket (outgoing_bucket es)) outgoing_groups) (\<lambda>outgoing.
     sbind (build_adjacency E (\<lambda>es. ser_incoming_bucket (incoming_bucket_of es)) incoming_groups) (\<lambda>incoming.
     put_object E (ser_index_set
       \<lparr>is_nodes_by_label = nodes_by_label, is_nodes_by_prop = nodes_by_prop,
        is_outgoing = outgoing, is_incoming = incoming, is_extra = fmempty\<rparr>)))))))"

section \<open>\<open>incremental_append_indexes\<close>\<close>

definition rebuild_subtree_with_additions ::
    "('c, 'h, 'b) external \<Rightarrow> nat \<Rightarrow> 'c option \<Rightarrow> (prolly_key, 'c) fmap \<Rightarrow> (('c, 'b) store, 'c error, 'c) prog" where
  "rebuild_subtree_with_additions E fuel base_sub additions =
     (case base_sub of
        None \<Rightarrow> build_tree E (bt_iter additions)
      | Some root \<Rightarrow>
          sbind (sread (\<lambda>bs. for_entries E bs fuel root (\<lambda>(k, v) merged. Inr (fmupd k v merged)) fmempty))
            (\<lambda>merged. build_tree E (bt_iter (fold (\<lambda>(k, v) merged. fmupd k v merged) (bt_iter additions) merged))))"

definition incremental_append_indexes ::
    "('c, 'h, 'b) external \<Rightarrow> nat \<Rightarrow> 'c \<Rightarrow> (node_id, 'c) fmap \<Rightarrow> (('c, 'b) store, 'c error, 'c) prog" where
  "incremental_append_indexes E fuel base_indexes_cid added_nodes =
     sbind (sread (\<lambda>bs. decode_from_store E de_index_set bs base_indexes_cid)) (\<lambda>base.
     sbind (sread (\<lambda>bs. rfold (index_node E bs) (bt_iter added_nodes) (fmempty, fmempty)))
       (\<lambda>(label_additions, prop_additions).
     sbind (sfold (\<lambda>(label, additions) new_nodes_by_label.
         sbind (rebuild_subtree_with_additions E fuel (fmlookup (is_nodes_by_label base) label) additions)
           (\<lambda>new_sub. sret (fmupd label new_sub new_nodes_by_label)))
       (bt_iter label_additions) (is_nodes_by_label base)) (\<lambda>new_nodes_by_label.
     sbind (sfold (\<lambda>((label, prop_name), additions) new_nodes_by_prop.
         sbind (rebuild_subtree_with_additions E fuel
             (Option.bind (fmlookup (is_nodes_by_prop base) label) (\<lambda>m. fmlookup m prop_name)) additions)
           (\<lambda>new_sub. sret (group_insert label prop_name new_sub new_nodes_by_prop)))
       (bt_iter prop_additions) (is_nodes_by_prop base)) (\<lambda>new_nodes_by_prop.
     put_object E (ser_index_set
       \<lparr>is_nodes_by_label = new_nodes_by_label, is_nodes_by_prop = new_nodes_by_prop,
        is_outgoing = is_outgoing base, is_incoming = is_incoming base, is_extra = is_extra base\<rparr>)))))"

section \<open>The readers\<close>

definition lookup_by_prop ::
    "('c, 'h, 'b) external \<Rightarrow> ('c, 'b) store \<Rightarrow> nat \<Rightarrow> 'c index_set \<Rightarrow> string \<Rightarrow> string \<Rightarrow> 'c ipld
       \<Rightarrow> 'c error + ('c \<times> 'c node) option" where
  "lookup_by_prop E bs fuel indexes label prop_name value =
     (case Option.bind (fmlookup (is_nodes_by_prop indexes) label) (\<lambda>m. fmlookup m prop_name) of
        None \<Rightarrow> Inr None
      | Some tree_root \<Rightarrow>
          rbind (prop_value_hash E value) (\<lambda>key.
          rbind (prolly_lookup E bs fuel tree_root key) (\<lambda>found.
          case found of
            None \<Rightarrow> Inr None
          | Some node_cid \<Rightarrow>
              rbind (decode_from_store E de_node bs node_cid) (\<lambda>node.
              if nd_ntype node \<noteq> label then Inr None
              else if fmlookup (nd_props node) prop_name \<noteq> Some value then Inr None
              else Inr (Some (node_cid, node))))))"

text \<open>The loop over a bucket: at most \<open>cap\<close> wanted edges are decoded, and the next one ends it.\<close>

fun load_edges ::
    "('c, 'h, 'b) external \<Rightarrow> ('c, 'b) store \<Rightarrow> string set \<Rightarrow> nat \<Rightarrow> (string \<times> 'c) list \<Rightarrow> 'c edge list
       \<Rightarrow> 'c error + 'c edge list \<times> bool" where
  "load_edges E bs want cap [] out = Inr (out, False)"
| "load_edges E bs want cap ((label, cid) # es) out =
     (if label \<in> want then
        if cap \<le> length out then Inr (out, True)
        else rbind (decode_from_store E de_edge bs cid) (\<lambda>edge. load_edges E bs want cap es (out @ [edge]))
      else load_edges E bs want cap es out)"

definition load_outgoing ::
    "('c, 'h, 'b) external \<Rightarrow> ('c, 'b) store \<Rightarrow> nat \<Rightarrow> 'c index_set option \<Rightarrow> node_id \<Rightarrow> string set \<Rightarrow> nat
       \<Rightarrow> 'c error + 'c edge list \<times> bool" where
  "load_outgoing E bs fuel indexes src want cap =
     (if want = {} then Inr ([], False)
      else case indexes of
        None \<Rightarrow> Inr ([], False)
      | Some idx \<Rightarrow>
          (case is_outgoing idx of
             None \<Rightarrow> Inr ([], False)
           | Some adj_root \<Rightarrow>
               rbind (prolly_lookup E bs fuel adj_root src) (\<lambda>found.
               case found of
                 None \<Rightarrow> Inr ([], False)
               | Some bucket_cid \<Rightarrow>
                   rbind (decode_from_store E de_adjacency_bucket bs bucket_cid) (\<lambda>bucket.
                   load_edges E bs want cap (map (\<lambda>ae. (ae_label ae, ae_edge ae)) (ab_edges bucket)) []))))"

definition load_incoming ::
    "('c, 'h, 'b) external \<Rightarrow> ('c, 'b) store \<Rightarrow> nat \<Rightarrow> 'c index_set option \<Rightarrow> node_id \<Rightarrow> string set \<Rightarrow> nat
       \<Rightarrow> 'c error + 'c edge list \<times> bool" where
  "load_incoming E bs fuel indexes dst want cap =
     (if want = {} then Inr ([], False)
      else case indexes of
        None \<Rightarrow> Inr ([], False)
      | Some idx \<Rightarrow>
          (case is_incoming idx of
             None \<Rightarrow> Inr ([], False)
           | Some inc_root \<Rightarrow>
               rbind (prolly_lookup E bs fuel inc_root dst) (\<lambda>found.
               case found of
                 None \<Rightarrow> Inr ([], False)
               | Some bucket_cid \<Rightarrow>
                   rbind (decode_from_store E de_incoming_bucket bs bucket_cid) (\<lambda>bucket.
                   load_edges E bs want cap (map (\<lambda>ae. (ie_label ae, ie_edge ae)) (ib_edges bucket)) []))))"

end
