(* ===== verification/Index_Groups.thy ===== *)
theory Index_Groups imports Index begin

text \<open>
  The grouping of theory \<open>Index\<close> as rows: inserting the rows \<open>(group, key, value)\<close> one after the other
  gives the map in which the last row of a (group, key) pair wins, and no group is empty. Two
  insertion orders give the same groups when they agree on the winning rows.
\<close>

section \<open>Nested maps\<close>

definition group_all :: "('g \<times> 'k \<times> 'v) list \<Rightarrow> ('g, ('k, 'v) fmap) fmap \<Rightarrow> ('g, ('k, 'v) fmap) fmap" where
  "group_all rows m = fold (\<lambda>(g, k, v). group_insert g k v) rows m"

definition group_get :: "('g, ('k, 'v) fmap) fmap \<Rightarrow> 'g \<Rightarrow> 'k \<Rightarrow> 'v option" where
  "group_get m g k = Option.bind (fmlookup m g) (\<lambda>i. fmlookup i k)"

definition row_of :: "('g \<times> 'k \<times> 'v) list \<Rightarrow> 'g \<Rightarrow> 'k \<Rightarrow> 'v option" where
  "row_of rows g k = map_of (rev (map (\<lambda>(g, k, v). ((g, k), v)) rows)) (g, k)"

definition no_empty_group :: "('g, ('k, 'v) fmap) fmap \<Rightarrow> bool" where
  "no_empty_group m \<longleftrightarrow> (\<forall>g i. fmlookup m g = Some i \<longrightarrow> (\<exists>k v. fmlookup i k = Some v))"

lemma group_get_insert:
  "group_get (group_insert g k v m) g' k' = (if g = g' \<and> k = k' then Some v else group_get m g' k')"
  by (auto simp: group_get_def group_insert_def split: option.split)

lemma row_of_Nil [simp]: "row_of [] g k = None"
  by (simp add: row_of_def)

lemma row_of_snoc: "row_of (rows @ [(g, k, v)]) g' k' = (if g = g' \<and> k = k' then Some v else row_of rows g' k')"
  by (auto simp: row_of_def)

lemma row_of_append:
  "row_of (xs @ ys) g k = (case row_of ys g k of None \<Rightarrow> row_of xs g k | Some v \<Rightarrow> Some v)"
  unfolding row_of_def by (simp add: map_add_def)

lemma row_of_Some: "row_of rows g k = Some v \<Longrightarrow> (g, k, v) \<in> set rows"
  unfolding row_of_def by (drule map_of_SomeD) auto

lemma row_of_None: "row_of rows g k = None \<longleftrightarrow> (\<forall>v. (g, k, v) \<notin> set rows)"
proof -
  have "row_of rows g k = None \<longleftrightarrow> (g, k) \<notin> fst ` set (rev (map (\<lambda>(g, k, v). ((g, k), v)) rows))"
    unfolding row_of_def by (rule map_of_eq_None_iff)
  also have "\<dots> \<longleftrightarrow> (\<forall>v. (g, k, v) \<notin> set rows)" by (force simp: image_iff)
  finally show ?thesis .
qed

lemma group_get_all:
  "group_get (group_all rows m) g k = (case row_of rows g k of None \<Rightarrow> group_get m g k | Some v \<Rightarrow> Some v)"
proof (induction rows rule: rev_induct)
  case (snoc r rows)
  then show ?case
    by (cases r) (simp add: group_all_def group_get_insert row_of_snoc)
qed (simp add: group_all_def)

lemma group_get_empty [simp]: "group_get fmempty g k = None"
  by (simp add: group_get_def)

lemma no_empty_group_all: "no_empty_group m \<Longrightarrow> no_empty_group (group_all rows m)"
proof (induction rows rule: rev_induct)
  case (snoc r rows)
  have "no_empty_group (group_insert g k v n)" if "no_empty_group n" for g k v and n :: "('a, ('b, 'c) fmap) fmap"
    using that by (auto simp: no_empty_group_def group_insert_def split: option.splits if_splits)
  with snoc show ?case by (cases r) (simp add: group_all_def)
qed (simp add: group_all_def)

lemma no_empty_group_empty [simp]: "no_empty_group fmempty"
  by (simp add: no_empty_group_def)

lemma group_eqI:
  assumes "no_empty_group m" and "no_empty_group n" and "\<And>g k. group_get m g k = group_get n g k"
  shows "m = n"
proof (rule fmap_ext)
  fix g
  show "fmlookup m g = fmlookup n g"
  proof (cases "fmlookup m g")
    case None
    with assms(3) [of g] assms(2) show ?thesis
      by (cases "fmlookup n g") (fastforce simp: group_get_def no_empty_group_def)+
  next
    case (Some i)
    then obtain k v where "fmlookup i k = Some v" using assms(1) unfolding no_empty_group_def by blast
    with Some assms(3) [of g k] obtain j where j: "fmlookup n g = Some j"
      by (cases "fmlookup n g") (auto simp: group_get_def)
    have "i = j" using assms(3) [of g] Some j by (intro fmap_ext) (simp add: group_get_def)
    with Some j show ?thesis by simp
  qed
qed

lemma group_all_lookup:
  "fmlookup (group_all rows fmempty) g = None \<longleftrightarrow> (\<forall>k v. (g, k, v) \<notin> set rows)"
proof
  assume none: "fmlookup (group_all rows fmempty) g = None"
  show "\<forall>k v. (g, k, v) \<notin> set rows"
  proof (intro allI)
    fix k v
    have "group_get (group_all rows fmempty) g k = None" using none by (simp add: group_get_def)
    then show "(g, k, v) \<notin> set rows" by (auto simp: group_get_all row_of_None split: option.splits)
  qed
next
  assume "\<forall>k v. (g, k, v) \<notin> set rows"
  then have none: "row_of rows g k = None" for k by (simp add: row_of_None)
  have "no_empty_group (group_all rows fmempty)" by (simp add: no_empty_group_all)
  moreover have "group_get (group_all rows fmempty) g k = None" for k by (simp add: group_get_all none)
  ultimately show "fmlookup (group_all rows fmempty) g = None"
    by (cases "fmlookup (group_all rows fmempty) g") (fastforce simp: no_empty_group_def group_get_def)+
qed

lemma group_all_inner:
  "fmlookup (group_all rows fmempty) g = Some i \<Longrightarrow> fmlookup i k = row_of rows g k"
  using group_get_all [of rows fmempty g k] by (auto simp: group_get_def split: option.splits)

lemma length_bt_iter: "length (bt_iter m) = card (fmdom' m)"
  by (simp add: sorted_list_of_fmap_def sorted_list_of_fset.rep_eq fmdom'_alt_def)

lemma group_all_size:
  assumes "fmlookup (group_all rows fmempty) g = Some i"
  shows "length (bt_iter i) \<le> length (filter (\<lambda>r. fst r = g) rows)"
proof -
  have "fmdom' i \<subseteq> set (map (fst \<circ> snd) (filter (\<lambda>r. fst r = g) rows))"
  proof
    fix k assume "k \<in> fmdom' i"
    then obtain v where "fmlookup i k = Some v" by (auto simp: fmlookup_dom'_iff)
    then have "(g, k, v) \<in> set rows" using group_all_inner [OF assms] row_of_Some by fastforce
    then show "k \<in> set (map (fst \<circ> snd) (filter (\<lambda>r. fst r = g) rows))" by force
  qed
  then have "card (fmdom' i) \<le> length (map (fst \<circ> snd) (filter (\<lambda>r. fst r = g) rows))"
    by (metis card_length card_mono finite_set le_trans)
  then show ?thesis by (simp add: length_bt_iter)
qed

section \<open>Maps of lists\<close>

definition push_all :: "('g \<times> 'v) list \<Rightarrow> ('g, 'v list) fmap \<Rightarrow> ('g, 'v list) fmap" where
  "push_all rows m = fold (\<lambda>(g, v). group_push g v) rows m"

lemma push_all_lookup:
  "fmlookup (push_all rows fmempty) g =
     (if g \<in> fst ` set rows then Some (map snd (filter (\<lambda>r. fst r = g) rows)) else None)"
proof (induction rows rule: rev_induct)
  case (snoc r rows)
  have "filter (\<lambda>r. fst r = g) rows = []" if "g \<notin> fst ` set rows"
    using that by (force simp: filter_empty_conv)
  with snoc show ?case by (cases r) (auto simp: push_all_def group_push_def)
qed (simp add: push_all_def)

lemma push_all_dom: "fset (fmdom (push_all rows fmempty)) = fst ` set rows"
  by (auto simp: push_all_lookup fmlookup_dom_iff rev_image_eqI split: if_splits)

lemma push_all_empty: "fmdom (push_all rows fmempty) = {||} \<longleftrightarrow> rows = []"
proof -
  have "fmdom (push_all rows fmempty) = {||} \<longleftrightarrow> fst ` set rows = {}"
    by (metis bot_fset.rep_eq fset_inject push_all_dom)
  then show ?thesis by simp
qed

lemma push_all_size: "length (bt_iter (push_all rows fmempty)) \<le> length rows"
proof -
  have "fmdom' (push_all rows fmempty) = set (map fst rows)"
    using push_all_dom [of rows] by (simp add: fmdom'_alt_def)
  then show ?thesis by (simp add: length_bt_iter) (metis card_length length_map list.set_map)
qed

end
