(* ===== verification/Index_Spec.thy ===== *)
theory Index_Spec imports Index_Groups begin

text \<open>
  What an index set holds. \<open>nodes_at\<close> and \<open>edges_at\<close> relate the entries of the node and the edge tree to the
  decoded objects; the rows of the groups are functions of those (\<open>label_rows\<close>, \<open>prop_rows\<close>, \<open>out_rows\<close>,
  \<open>in_rows\<close>). \<open>index_holds\<close> says that an index set is the index of the given nodes and edges in a store;
  \<open>build_index_set\<close> establishes it, the readers of theory \<open>Index\<close> are correct on it, and the index a build
  writes is a function of the rows alone.
\<close>

section \<open>Rows\<close>

definition nodes_at ::
    "('c, 'h, 'b) external \<Rightarrow> ('c, 'b) store \<Rightarrow> (prolly_key \<times> 'c) list \<Rightarrow> (prolly_key \<times> 'c \<times> 'c node) list \<Rightarrow> bool" where
  "nodes_at E bs nes ns \<longleftrightarrow>
     list_all2 (\<lambda>(k, c) (k', c', n). k' = k \<and> c' = c \<and> decode_from_store E de_node bs c = Inr n) nes ns"

definition edges_at ::
    "('c, 'h, 'b) external \<Rightarrow> ('c, 'b) store \<Rightarrow> (prolly_key \<times> 'c) list \<Rightarrow> ('c \<times> 'c edge) list \<Rightarrow> bool" where
  "edges_at E bs ees es \<longleftrightarrow>
     list_all2 (\<lambda>(k, c) (c', e). c' = c \<and> decode_from_store E de_edge bs c = Inr e) ees es"

definition label_rows :: "(prolly_key \<times> 'c \<times> 'c node) list \<Rightarrow> (string \<times> prolly_key \<times> 'c) list" where
  "label_rows ns = map (\<lambda>(k, c, n). (nd_ntype n, k, c)) ns"

definition node_prop_rows ::
    "('c, 'h, 'b) external \<Rightarrow> prolly_key \<times> 'c \<times> 'c node \<Rightarrow> 'c error + ((string \<times> string) \<times> prolly_key \<times> 'c) list" where
  "node_prop_rows E = (\<lambda>(k, c, n).
     rmap (\<lambda>(p, v). rbind (prop_value_hash E v) (\<lambda>h. Inr ((nd_ntype n, p), h, c))) (bt_iter (nd_props n)))"

definition prop_rows ::
    "('c, 'h, 'b) external \<Rightarrow> (prolly_key \<times> 'c \<times> 'c node) list
       \<Rightarrow> 'c error + ((string \<times> string) \<times> prolly_key \<times> 'c) list" where
  "prop_rows E ns = rbind (rmap (node_prop_rows E) ns) (\<lambda>rss. Inr (concat rss))"

definition out_rows :: "('c \<times> 'c edge) list \<Rightarrow> (node_id \<times> 'c adjacency_entry) list" where
  "out_rows es = map (\<lambda>(c, e). (ed_src e, \<lparr>ae_label = ed_etype e, ae_edge = c\<rparr>)) es"

definition in_rows :: "('c \<times> 'c edge) list \<Rightarrow> (node_id \<times> 'c incoming_entry) list" where
  "in_rows es = map (\<lambda>(c, e). (ed_dst e, \<lparr>ie_label = ed_etype e, ie_src = ed_src e, ie_edge = c\<rparr>)) es"

lemma prop_loop:
  "rfold (\<lambda>(p, v) G. rbind (prop_value_hash E v) (\<lambda>h. Inr (group_insert (l, p) h c G))) ps G =
     rbind (rmap (\<lambda>(p, v). rbind (prop_value_hash E v) (\<lambda>h. Inr ((l, p), h, c))) ps) (\<lambda>rows. Inr (group_all rows G))"
proof (induction ps arbitrary: G)
  case (Cons pv ps)
  obtain p v where "pv = (p, v)" by (cases pv)
  then show ?case
    by (cases "prop_value_hash E v"; cases "rmap (\<lambda>(p, v). rbind (prop_value_hash E v) (\<lambda>h. Inr ((l, p), h, c))) ps")
       (simp_all add: Cons.IH group_all_def)
qed (simp add: group_all_def)

lemma index_node_Inr:
  "index_node E bs (k, c) (L, P) = Inr r \<longleftrightarrow>
     (\<exists>n rows. decode_from_store E de_node bs c = Inr n \<and> node_prop_rows E (k, c, n) = Inr rows \<and>
        r = (group_insert (nd_ntype n) k c L, group_all rows P))"
  unfolding index_node_def node_prop_rows_def by (simp add: prop_loop monad_simps) blast

lemma nodes_at_Cons:
  "nodes_at E bs ((k, c) # nes) ns \<longleftrightarrow>
     (\<exists>n ns'. ns = (k, c, n) # ns' \<and> decode_from_store E de_node bs c = Inr n \<and> nodes_at E bs nes ns')"
  by (auto simp: nodes_at_def list_all2_Cons1)

lemma prop_rows_Cons:
  "prop_rows E (x # ns) = Inr rows \<longleftrightarrow>
     (\<exists>rs rest. node_prop_rows E x = Inr rs \<and> prop_rows E ns = Inr rest \<and> rows = rs @ rest)"
  by (auto simp: prop_rows_def monad_simps)

lemma index_nodes_Inr:
  "rfold (index_node E bs) nes (L, P) = Inr r \<longleftrightarrow>
     (\<exists>ns rows. nodes_at E bs nes ns \<and> prop_rows E ns = Inr rows \<and>
        r = (group_all (label_rows ns) L, group_all rows P))"
proof (induction nes arbitrary: L P)
  case Nil
  show ?case by (auto simp: nodes_at_def prop_rows_def label_rows_def group_all_def)
next
  case (Cons kc nes)
  obtain k c where kc: "kc = (k, c)" by (cases kc)
  show ?case
  proof
    assume "rfold (index_node E bs) (kc # nes) (L, P) = Inr r"
    then obtain n rs where n: "decode_from_store E de_node bs c = Inr n" "node_prop_rows E (k, c, n) = Inr rs"
      and rec: "rfold (index_node E bs) nes (group_insert (nd_ntype n) k c L, group_all rs P) = Inr r"
      by (auto simp: kc monad_simps index_node_Inr)
    then obtain ns rows where "nodes_at E bs nes ns" "prop_rows E ns = Inr rows"
      "r = (group_all (label_rows ns) (group_insert (nd_ntype n) k c L), group_all rows (group_all rs P))"
      unfolding Cons.IH by blast
    with n show "\<exists>ns rows. nodes_at E bs (kc # nes) ns \<and> prop_rows E ns = Inr rows \<and>
        r = (group_all (label_rows ns) L, group_all rows P)"
      by (intro exI [of _ "(k, c, n) # ns"] exI [of _ "rs @ rows"])
         (simp add: kc nodes_at_Cons prop_rows_Cons label_rows_def group_all_def)
  next
    assume "\<exists>ns rows. nodes_at E bs (kc # nes) ns \<and> prop_rows E ns = Inr rows \<and>
        r = (group_all (label_rows ns) L, group_all rows P)"
    then obtain n ns rs rest where "decode_from_store E de_node bs c = Inr n" "nodes_at E bs nes ns"
      "node_prop_rows E (k, c, n) = Inr rs" "prop_rows E ns = Inr rest"
      "r = (group_all (label_rows ((k, c, n) # ns)) L, group_all (rs @ rest) P)"
      by (auto simp: kc nodes_at_Cons prop_rows_Cons)
    moreover from this have "rfold (index_node E bs) nes (group_insert (nd_ntype n) k c L, group_all rs P) = Inr r"
      unfolding Cons.IH by (intro exI [of _ ns] exI [of _ rest]) (simp add: label_rows_def group_all_def)
    ultimately show "rfold (index_node E bs) (kc # nes) (L, P) = Inr r"
      by (auto simp: kc monad_simps index_node_Inr)
  qed
qed

lemma index_edge_Inr:
  "index_edge E bs (k, c) (O1, I1) = Inr r \<longleftrightarrow>
     (\<exists>e. decode_from_store E de_edge bs c = Inr e \<and>
        r = (push_all (out_rows [(c, e)]) O1, push_all (in_rows [(c, e)]) I1))"
  unfolding index_edge_def by (auto simp: monad_simps out_rows_def in_rows_def push_all_def)

lemma edges_at_Cons:
  "edges_at E bs ((k, c) # ees) es \<longleftrightarrow>
     (\<exists>e es'. es = (c, e) # es' \<and> decode_from_store E de_edge bs c = Inr e \<and> edges_at E bs ees es')"
  by (auto simp: edges_at_def list_all2_Cons1)

lemma edge_rows_Cons:
  "push_all (out_rows (x # es)) m = push_all (out_rows es) (push_all (out_rows [x]) m)"
  "push_all (in_rows (x # es)) n = push_all (in_rows es) (push_all (in_rows [x]) n)"
  by (simp_all add: out_rows_def in_rows_def push_all_def)

lemma index_edges_Inr:
  "rfold (index_edge E bs) ees (O1, I1) = Inr r \<longleftrightarrow>
     (\<exists>es. edges_at E bs ees es \<and> r = (push_all (out_rows es) O1, push_all (in_rows es) I1))"
proof (induction ees arbitrary: O1 I1)
  case Nil
  show ?case by (auto simp: edges_at_def out_rows_def in_rows_def push_all_def)
next
  case (Cons kc ees)
  obtain k c where kc: "kc = (k, c)" by (cases kc)
  have "rfold (index_edge E bs) (kc # ees) (O1, I1) = Inr r \<longleftrightarrow>
      (\<exists>e. decode_from_store E de_edge bs c = Inr e \<and>
        rfold (index_edge E bs) ees (push_all (out_rows [(c, e)]) O1, push_all (in_rows [(c, e)]) I1) = Inr r)"
    by (auto simp: kc monad_simps index_edge_Inr)
  also have "\<dots> \<longleftrightarrow> (\<exists>es. edges_at E bs (kc # ees) es \<and> r = (push_all (out_rows es) O1, push_all (in_rows es) I1))"
    unfolding Cons.IH kc edges_at_Cons edge_rows_Cons [of "(c, e)" for e, symmetric] by blast
  finally show ?case .
qed

lemma nodes_at_mono:
  assumes "nodes_at E s nes ns" and "grows E s t" and "trusted E s"
  shows "nodes_at E t nes ns"
  using assms(1) unfolding nodes_at_def
  by (rule list_all2_mono) (auto dest: decode_from_store_mono [OF _ assms(2,3)])

lemma edges_at_mono:
  assumes "edges_at E s ees es" and "grows E s t" and "trusted E s"
  shows "edges_at E t ees es"
  using assms(1) unfolding edges_at_def
  by (rule list_all2_mono) (auto dest: decode_from_store_mono [OF _ assms(2,3)])

lemma nodes_at_entries: "nodes_at E bs nes ns \<Longrightarrow> map (\<lambda>(k, c, n). (k, c)) ns = nes"
  unfolding nodes_at_def by (induction nes ns rule: list_all2_induct) auto

lemma length_nodes_at: "nodes_at E bs nes ns \<Longrightarrow> length ns = length nes"
  unfolding nodes_at_def by (drule list_all2_lengthD) simp

lemma length_edges_at: "edges_at E bs ees es \<Longrightarrow> length es = length ees"
  unfolding edges_at_def by (drule list_all2_lengthD) simp

lemma nodes_at_decode: "nodes_at E bs nes ns \<Longrightarrow> (k, c, n) \<in> set ns \<Longrightarrow> decode_from_store E de_node bs c = Inr n"
proof (induction nes arbitrary: ns)
  case (Cons kc nes)
  obtain k' c' where kc: "kc = (k', c')" by (cases kc)
  from Cons.prems(1) obtain n' ns' where ns: "ns = (k', c', n') # ns'"
    "decode_from_store E de_node bs c' = Inr n'" "nodes_at E bs nes ns'"
    unfolding kc nodes_at_Cons by blast
  show ?case
  proof (cases "(k, c, n) \<in> set ns'")
    case True
    with ns(3) show ?thesis by (rule Cons.IH)
  next
    case False
    with ns(1,2) Cons.prems(2) show ?thesis by simp
  qed
qed (simp add: nodes_at_def)

lemma nodes_at_unique: "nodes_at E bs nes ns \<Longrightarrow> nodes_at E bs nes ns' \<Longrightarrow> ns = ns'"
proof (rule nth_equalityI)
  assume a: "nodes_at E bs nes ns" "nodes_at E bs nes ns'"
  show len: "length ns = length ns'"
    using a by (simp add: length_nodes_at)
  fix i assume i: "i < length ns"
  then have "i < length nes" using a(1) by (simp add: length_nodes_at)
  with a i len show "ns ! i = ns' ! i"
    unfolding nodes_at_def by (auto simp: case_prod_unfold prod_eq_iff dest!: list_all2_nthD [where p = i])
qed

lemma edges_at_unique: "edges_at E bs ees es \<Longrightarrow> edges_at E bs ees es' \<Longrightarrow> es = es'"
proof (rule nth_equalityI)
  assume a: "edges_at E bs ees es" "edges_at E bs ees es'"
  show len: "length es = length es'"
    using a by (simp add: length_edges_at)
  fix i assume i: "i < length es"
  then have "i < length ees" using a(1) by (simp add: length_edges_at)
  with a i len show "es ! i = es' ! i"
    unfolding edges_at_def by (auto simp: case_prod_unfold prod_eq_iff dest!: list_all2_nthD [where p = i])
qed

lemma edges_at_decode: "edges_at E bs ees es \<Longrightarrow> (c, e) \<in> set es \<Longrightarrow> decode_from_store E de_edge bs c = Inr e"
proof (induction ees arbitrary: es)
  case (Cons kc ees)
  obtain k' c' where kc: "kc = (k', c')" by (cases kc)
  from Cons.prems(1) obtain e' es' where es: "es = (c', e') # es'"
    "decode_from_store E de_edge bs c' = Inr e'" "edges_at E bs ees es'"
    unfolding kc edges_at_Cons by blast
  show ?case
  proof (cases "(c, e) \<in> set es'")
    case True
    with es(3) show ?thesis by (rule Cons.IH)
  next
    case False
    with es(1,2) Cons.prems(2) show ?thesis by simp
  qed
qed (simp add: edges_at_def)

lemma node_prop_rows_set:
  assumes "node_prop_rows E (k, c, n) = Inr rs"
  shows "(g, h, c') \<in> set rs \<longleftrightarrow>
    c' = c \<and> fst g = nd_ntype n \<and> (\<exists>v. fmlookup (nd_props n) (snd g) = Some v \<and> prop_value_hash E v = Inr h)"
proof -
  have "list_all2 (\<lambda>(p, v) r. rbind (prop_value_hash E v) (\<lambda>h. Inr ((nd_ntype n, p), h, c)) = Inr r) (bt_iter (nd_props n)) rs"
    using assms by (simp add: node_prop_rows_def rmap_Inr_iff case_prod_unfold)
  then have "r \<in> set rs \<longleftrightarrow> (\<exists>(p, v) \<in> set (bt_iter (nd_props n)). \<exists>h. prop_value_hash E v = Inr h \<and> r = ((nd_ntype n, p), h, c))" for r
    by (induction rule: list_all2_induct) (auto simp: monad_simps)
  then show ?thesis by (cases g) (auto simp: Bex_def set_bt_iter)
qed

lemma prop_rows_set:
  "prop_rows E ns = Inr rows \<Longrightarrow> (g, h, c) \<in> set rows \<longleftrightarrow>
     (\<exists>k n v. (k, c, n) \<in> set ns \<and> fst g = nd_ntype n \<and> fmlookup (nd_props n) (snd g) = Some v \<and> prop_value_hash E v = Inr h)"
proof (induction ns arbitrary: rows)
  case Nil
  then show ?case by (simp add: prop_rows_def)
next
  case (Cons x ns)
  obtain k' c' n' where x: "x = (k', c', n')" by (cases x)
  from Cons.prems obtain rs rest where r: "node_prop_rows E (k', c', n') = Inr rs" "prop_rows E ns = Inr rest"
    "rows = rs @ rest" by (auto simp: prop_rows_Cons x)
  show ?case using Cons.IH [OF r(2)] node_prop_rows_set [OF r(1)] by (auto simp: r(3) x)
qed

lemma prop_rows_group_size:
  "prop_rows E ns = Inr rows \<Longrightarrow> length (filter (\<lambda>r. fst r = g) rows) \<le> length ns"
proof (induction ns arbitrary: rows)
  case Nil
  then show ?case by (simp add: prop_rows_def)
next
  case (Cons x ns)
  obtain k c n where x: "x = (k, c, n)" by (cases x)
  from Cons.prems obtain rs rest where r: "node_prop_rows E (k, c, n) = Inr rs" "prop_rows E ns = Inr rest"
    "rows = rs @ rest" by (auto simp: prop_rows_Cons x)
  have "list_all2 (\<lambda>(p, v) r. rbind (prop_value_hash E v) (\<lambda>h. Inr ((nd_ntype n, p), h, c)) = Inr r) (bt_iter (nd_props n)) rs"
    using r(1) by (simp add: node_prop_rows_def rmap_Inr_iff case_prod_unfold)
  then have "map fst rs = map (\<lambda>(p, v). (nd_ntype n, p)) (bt_iter (nd_props n))"
    by (induction rule: list_all2_induct) (auto simp: monad_simps)
  moreover have "distinct (map fst (bt_iter (nd_props n)))" by (intro strict_keys_distinct strict_keys_bt_iter)
  ultimately have "distinct (map fst rs)"
    by (simp add: distinct_map inj_on_def case_prod_unfold)
  then have "length (filter (\<lambda>r. fst r = g) rs) \<le> 1"
  proof (induction rs)
    case (Cons r rs)
    then have "filter (\<lambda>r'. fst r' = fst r) rs = []" by (auto simp: filter_empty_conv image_iff)
    with Cons show ?case by auto
  qed simp
  with Cons.IH [OF r(2)] show ?case by (simp add: r(3))
qed


section \<open>What an index set holds\<close>

definition tree_index ::
    "('c, 'h, 'b) external \<Rightarrow> ('c, 'b) store \<Rightarrow> nat \<Rightarrow> ('g \<Rightarrow> 'c option) \<Rightarrow> ('g \<times> prolly_key \<times> 'c) list \<Rightarrow> bool" where
  "tree_index E bs fuel roots rows \<longleftrightarrow>
     (\<forall>g. case roots g of
        None \<Rightarrow> \<forall>k c. (g, k, c) \<notin> set rows
      | Some root \<Rightarrow> \<exists>m. tree_holds E bs fuel root m \<and> (\<forall>k. map_of m k = row_of rows g k))"

text \<open>The roots are those the builder computes for the groups of the rows.\<close>

definition tree_roots ::
    "('c, 'h, 'b) external \<Rightarrow> ('g \<Rightarrow> 'c option) \<Rightarrow> ('g \<times> prolly_key \<times> 'c) list \<Rightarrow> bool" where
  "tree_roots E roots rows \<longleftrightarrow>
     (\<forall>g. case fmlookup (group_all rows fmempty) g of
        None \<Rightarrow> roots g = None
      | Some i \<Rightarrow> \<exists>root. roots g = Some root \<and> outcome (build_tree E (bt_iter i)) = Inr root)"

definition bucket_index ::
    "('c, 'h, 'b) external \<Rightarrow> ('c, 'b) store \<Rightarrow> nat \<Rightarrow> ('c ipld \<Rightarrow> codec_error + 'k) \<Rightarrow> ('e list \<Rightarrow> 'k)
       \<Rightarrow> 'c option \<Rightarrow> (node_id \<times> 'e) list \<Rightarrow> bool" where
  "bucket_index E bs fuel de f root rows \<longleftrightarrow>
     (case root of
        None \<Rightarrow> rows = []
      | Some root \<Rightarrow> \<exists>m. tree_holds E bs fuel root m \<and>
          (\<forall>g. case map_of m g of
             None \<Rightarrow> g \<notin> fst ` set rows
           | Some c \<Rightarrow> g \<in> fst ` set rows \<and> decode_from_store E de bs c = Inr (f (map snd (filter (\<lambda>r. fst r = g) rows)))))"

definition index_holds ::
    "('c::linorder, 'h, 'b) external \<Rightarrow> ('c, 'b) store \<Rightarrow> nat \<Rightarrow> 'c index_set
       \<Rightarrow> (prolly_key \<times> 'c \<times> 'c node) list \<Rightarrow> ('c \<times> 'c edge) list \<Rightarrow> bool" where
  "index_holds E bs fuel ix ns es \<longleftrightarrow>
     tree_index E bs fuel (fmlookup (is_nodes_by_label ix)) (label_rows ns) \<and>
     (\<exists>rows. prop_rows E ns = Inr rows \<and>
        tree_index E bs fuel (\<lambda>(l, p). group_get (is_nodes_by_prop ix) l p) rows) \<and>
     bucket_index E bs fuel de_adjacency_bucket outgoing_bucket (is_outgoing ix) (out_rows es) \<and>
     bucket_index E bs fuel de_incoming_bucket incoming_bucket_of (is_incoming ix) (in_rows es)"

lemma tree_holds_mono: "tree_holds E s fuel root m \<Longrightarrow> grows E s t \<Longrightarrow> trusted E s \<Longrightarrow> tree_holds E t fuel root m"
  by (rule trees.holds_ext)

lemma tree_index_mono:
  assumes "tree_index E s fuel roots rows" and "grows E s t" and "trusted E s"
  shows "tree_index E t fuel roots rows"
  unfolding tree_index_def
proof
  fix g
  have "case roots g of None \<Rightarrow> \<forall>k c. (g, k, c) \<notin> set rows
      | Some root \<Rightarrow> \<exists>m. tree_holds E s fuel root m \<and> (\<forall>k. map_of m k = row_of rows g k)"
    using assms(1) by (simp add: tree_index_def)
  then show "case roots g of None \<Rightarrow> \<forall>k c. (g, k, c) \<notin> set rows
      | Some root \<Rightarrow> \<exists>m. tree_holds E t fuel root m \<and> (\<forall>k. map_of m k = row_of rows g k)"
    using tree_holds_mono [OF _ assms(2,3)] by (auto split: option.splits)
qed

lemma bucket_index_mono:
  assumes "bucket_index E s fuel de f root rows" and "grows E s t" and "trusted E s"
  shows "bucket_index E t fuel de f root rows"
proof (cases root)
  case None
  with assms(1) show ?thesis by (simp add: bucket_index_def)
next
  case (Some r)
  with assms(1) obtain m where m: "tree_holds E s fuel r m"
    and c: "\<And>g. case map_of m g of None \<Rightarrow> g \<notin> fst ` set rows
      | Some c \<Rightarrow> g \<in> fst ` set rows \<and> decode_from_store E de s c = Inr (f (map snd (filter (\<lambda>r. fst r = g) rows)))"
    by (auto simp: bucket_index_def)
  have "case map_of m g of None \<Rightarrow> g \<notin> fst ` set rows
      | Some c \<Rightarrow> g \<in> fst ` set rows \<and> decode_from_store E de t c = Inr (f (map snd (filter (\<lambda>r. fst r = g) rows)))" for g
    using c [of g] decode_from_store_mono [OF _ assms(2,3)] by (auto split: option.splits)
  with Some tree_holds_mono [OF m assms(2,3)] show ?thesis by (auto simp: bucket_index_def)
qed

lemma index_holds_mono:
  assumes "index_holds E s fuel ix ns es" and "grows E s t" and "trusted E s"
  shows "index_holds E t fuel ix ns es"
  using assms(1) unfolding index_holds_def
  by (blast intro: tree_index_mono [OF _ assms(2,3)] bucket_index_mono [OF _ assms(2,3)])

section \<open>The builders\<close>

lemma build_label_trees_each:
  "build_label_trees E G = trees.build_each E fmupd (map (\<lambda>(l, m). (l, bt_iter m)) (bt_iter G)) fmempty"
  unfolding build_label_trees_def trees.build_each_def sfold_map by (simp add: case_prod_unfold)

lemma build_prop_trees_each:
  "build_prop_trees E G = trees.build_each E (\<lambda>(l, p). group_insert l p) (map (\<lambda>(l, m). (l, bt_iter m)) (bt_iter G)) fmempty"
  unfolding build_prop_trees_def trees.build_each_def sfold_map by (simp add: case_prod_unfold)

lemma tree_index_build:
  fixes rows G defines "G \<equiv> group_all rows fmempty"
  assumes "crypto_ok E" and "trusted E s"
    and size: "\<And>g. length (filter (\<lambda>r. fst r = g) rows) + 2 \<le> n"
    and put_at: "\<And>g r out g'. get (put_at g r out) g' = (if g = g' then Some r else get out g')"
    and none: "\<And>g. get acc g = None"
    and "trees.build_each E put_at (map (\<lambda>(g, m). (g, bt_iter m)) (bt_iter G)) acc s = (Inr out, t)"
  shows "tree_index E t n (get out) rows \<and> tree_roots E (get out) rows"
proof -
  let ?gs = "map (\<lambda>(g, m). (g, bt_iter m)) (bt_iter G)"
  have gs: "(g, es) \<in> set ?gs \<longleftrightarrow> (\<exists>i. fmlookup G g = Some i \<and> es = bt_iter i)" for g es
    unfolding set_bt_iter [symmetric] by force
  have dom: "g \<in> fst ` set ?gs \<longleftrightarrow> (\<exists>i. fmlookup G g = Some i)" for g
    unfolding image_iff Bex_def split_paired_Ex gs by simp
  have "strict_keys es \<and> length es + 2 \<le> n" if "(g, es) \<in> set ?gs" for g es
  proof -
    from that obtain i where "fmlookup G g = Some i" "es = bt_iter i" unfolding gs by blast
    then show ?thesis
      using size [of g] group_all_size [of rows g i] by (simp add: G_def strict_keys_bt_iter)
  qed
  then have "\<forall>(g, es) \<in> set ?gs. strict_keys es \<and> length es + 2 \<le> n" by blast
  note b = trees.build_each_holds [where get = get, OF assms(2,3) this put_at assms(7)]
  have "(case get out g of None \<Rightarrow> \<forall>k c. (g, k, c) \<notin> set rows
      | Some root \<Rightarrow> \<exists>m. tree_holds E t n root m \<and> (\<forall>k. map_of m k = row_of rows g k)) \<and>
      (case fmlookup G g of
        None \<Rightarrow> get out g = None
      | Some i \<Rightarrow> \<exists>root. get out g = Some root \<and> outcome (build_tree E (bt_iter i)) = Inr root)" for g
  proof (cases "fmlookup G g")
    case None
    then have "g \<notin> fst ` set ?gs" unfolding dom by simp
    with b [of g] none have "get out g = None" by simp
    with None show ?thesis using group_all_lookup [of rows g] by (simp add: G_def)
  next
    case (Some i)
    then have "g \<in> fst ` set ?gs" unfolding dom by simp
    with b [of g] have "\<exists>es root. (g, es) \<in> set ?gs \<and> get out g = Some root \<and> tree_holds E t n root es \<and>
        outcome (build_tree E es) = Inr root"
      by (simp only: if_True)
    then obtain root where r: "get out g = Some root" "tree_holds E t n root (bt_iter i)"
      "outcome (build_tree E (bt_iter i)) = Inr root"
      unfolding gs using Some by auto
    have "map_of (bt_iter i) k = row_of rows g k" for k
      using group_all_inner [of rows g i k] Some by (simp add: G_def)
    with r Some show ?thesis by auto
  qed
  then show ?thesis by (simp add: tree_index_def tree_roots_def G_def)
qed

lemma put_object_mono:
  assumes "collision_free E" and "put_object E v s = (r, t)"
  shows "grows E s t"
  using put_object_grows [OF assms(1)] assms(2) by (rule preservesD)

definition write_buckets ::
    "('c, 'h, 'b) external \<Rightarrow> ('e list \<Rightarrow> 'c ipld) \<Rightarrow> (node_id \<times> 'e list) list \<Rightarrow> (node_id, 'c) fmap
       \<Rightarrow> (('c, 'b) store, 'c error, (node_id, 'c) fmap) prog" where
  "write_buckets E bucket =
     sfold (\<lambda>(node, edges) bucket_entries.
        sbind (put_object E (bucket edges)) (\<lambda>cid. sret (fmupd node cid bucket_entries)))"

lemma build_adjacency_eq:
  "build_adjacency E bucket by_node =
     (if fmdom by_node = {||} then sret None
      else sbind (write_buckets E bucket (bt_iter by_node) fmempty) (\<lambda>bucket_entries.
        sbind (build_tree E (bt_iter bucket_entries)) (\<lambda>root. sret (Some root))))"
  by (simp add: build_adjacency_def write_buckets_def)

lemma write_buckets_holds:
  assumes "crypto_ok E" and "trusted E s" and de: "\<And>es. de (bucket es) = Inr (f es)"
    and "write_buckets E bucket gs acc s = (Inr out, t)"
  shows "grows E s t \<and>
    (if g \<in> fst ` set gs
     then \<exists>es c. (g, es) \<in> set gs \<and> fmlookup out g = Some c \<and> decode_from_store E de t c = Inr (f es)
     else fmlookup out g = fmlookup acc g)"
  using assms(2,4)
proof (induction gs arbitrary: acc s)
  case Nil
  then show ?case by (simp add: write_buckets_def monad_simps)
next
  case (Cons ge gs)
  obtain g' es where ge: "ge = (g', es)" by (cases ge)
  from Cons.prems(2) obtain c u where b: "put_object E (bucket es) s = (Inr c, u)"
    and rest: "write_buckets E bucket gs (fmupd g' c acc) u = (Inr out, t)"
    by (auto simp: write_buckets_def ge monad_simps)
  have g: "grows E s u" using assms(1) b by (intro put_object_mono) (simp_all add: crypto_ok_def)
  have tu: "trusted E u" using g Cons.prems(1) by (rule grows_trusted)
  have "decode_from_store E de u c = Inr (f es)"
    using assms(1) de by (intro decode_put_object [OF b]) (simp_all add: crypto_ok_def)
  then have d: "decode_from_store E de t c = Inr (f es)"
    using Cons.IH [OF tu rest] tu by (blast intro: decode_from_store_mono)
  have gr: "grows E s t" using g Cons.IH [OF tu rest] by (blast intro: grows_trans)
  show ?case
  proof (cases "g \<in> fst ` set gs")
    case True
    with Cons.IH [OF tu rest] gr show ?thesis by (auto simp: ge)
  next
    case False
    with Cons.IH [OF tu rest] have "fmlookup out g = fmlookup (fmupd g' c acc) g" by simp
    with False d gr show ?thesis by (auto simp: ge)
  qed
qed

lemma write_buckets_size:
  "write_buckets E bucket gs acc s = (Inr out, t) \<Longrightarrow> fmdom' out = fst ` set gs \<union> fmdom' acc"
proof (induction gs arbitrary: acc s)
  case Nil
  then show ?case by (simp add: write_buckets_def monad_simps)
next
  case (Cons ge gs)
  then obtain c u where "write_buckets E bucket gs (fmupd (fst ge) c acc) u = (Inr out, t)"
    by (cases ge) (auto simp: write_buckets_def monad_simps)
  from Cons.IH [OF this] show ?case by auto
qed

lemma bt_iter_keys: "fst ` set (bt_iter m) = fmdom' m"
proof (rule set_eqI)
  fix k
  show "k \<in> fst ` set (bt_iter m) \<longleftrightarrow> k \<in> fmdom' m"
    unfolding image_iff Bex_def split_paired_Ex set_bt_iter fmlookup_dom'_iff by simp
qed

lemma bucket_index_build:
  assumes "crypto_ok E" and "trusted E s" and de: "\<And>es. de (bucket es) = Inr (f es)"
    and "length rows + 2 \<le> n"
    and "build_adjacency E bucket (push_all rows fmempty) s = (Inr root, t)"
  shows "grows E s t \<and> bucket_index E t n de f root rows"
proof (cases "rows = []")
  case True
  with assms(5) show ?thesis by (simp add: build_adjacency_eq push_all_empty bucket_index_def monad_simps)
next
  case False
  let ?G = "push_all rows fmempty"
  from False assms(5) obtain be u r where w: "write_buckets E bucket (bt_iter ?G) fmempty s = (Inr be, u)"
    and b: "build_tree E (bt_iter be) u = (Inr r, t)" and root: "root = Some r"
    by (auto simp: build_adjacency_eq push_all_empty monad_simps)
  note wb = write_buckets_holds [where de = de, OF assms(1,2) de w]
  have su: "grows E s u" using wb [of 0] by blast
  have tu: "trusted E u" using su assms(2) by (rule grows_trusted)
  have ut: "grows E u t" using assms(1) b by (rule trees.build_ext)
  have "fmdom' be = fmdom' ?G" using write_buckets_size [OF w] by (simp add: bt_iter_keys)
  then have "length (bt_iter be) + 2 \<le> n"
    using push_all_size [of rows] assms(4) by (simp add: length_bt_iter)
  then have h: "tree_holds E t n r (bt_iter be)"
    using assms(1) tu b by (intro trees.build_holds) (auto simp: strict_keys_bt_iter)
  have "case map_of (bt_iter be) g of
      None \<Rightarrow> g \<notin> fst ` set rows
    | Some c \<Rightarrow> g \<in> fst ` set rows \<and> decode_from_store E de t c = Inr (f (map snd (filter (\<lambda>r. fst r = g) rows)))" for g
  proof (cases "g \<in> fst ` set rows")
    case True
    then have lk: "fmlookup ?G g = Some (map snd (filter (\<lambda>r. fst r = g) rows))" by (simp add: push_all_lookup)
    then have "g \<in> fst ` set (bt_iter ?G)" unfolding bt_iter_keys by (auto simp: fmlookup_dom'_iff)
    with wb [of g] obtain es c where "(g, es) \<in> set (bt_iter ?G)" "fmlookup be g = Some c"
      "decode_from_store E de u c = Inr (f es)" by auto
    then show ?thesis
      using lk True decode_from_store_mono [OF _ ut tu] by (simp add: set_bt_iter)
  next
    case False
    then have "fmlookup ?G g = None" by (simp add: push_all_lookup)
    then have "g \<notin> fst ` set (bt_iter ?G)" unfolding bt_iter_keys by (auto simp: fmlookup_dom'_iff)
    with wb [of g] have "fmlookup be g = None" by auto
    with False show ?thesis by simp
  qed
  with h su ut root show ?thesis by (auto simp: bucket_index_def intro: grows_trans)
qed

section \<open>\<open>build_index_set\<close>\<close>

definition index_of_parts ::
    "(string, 'c) fmap \<Rightarrow> (string, (string, 'c) fmap) fmap \<Rightarrow> 'c option \<Rightarrow> 'c option \<Rightarrow> 'c index_set" where
  "index_of_parts labels props outgoing incoming =
     \<lparr>is_nodes_by_label = labels, is_nodes_by_prop = props, is_outgoing = outgoing, is_incoming = incoming,
      is_extra = fmempty\<rparr>"

abbreviation build_outgoing where
  "build_outgoing E \<equiv> build_adjacency E (\<lambda>es. ser_adjacency_bucket (outgoing_bucket es))"

abbreviation build_incoming where
  "build_incoming E \<equiv> build_adjacency E (\<lambda>es. ser_incoming_bucket (incoming_bucket_of es))"

lemma build_label_trees_grows: "crypto_ok E \<Longrightarrow> build_label_trees E G s = (r, t) \<Longrightarrow> grows E s t"
  unfolding build_label_trees_each by (rule trees.build_each_ext)

lemma build_prop_trees_grows: "crypto_ok E \<Longrightarrow> build_prop_trees E G s = (r, t) \<Longrightarrow> grows E s t"
  unfolding build_prop_trees_each by (rule trees.build_each_ext)

lemma build_index_set_run:
  assumes "build_index_set E fuel nr er s = (Inr cid, t)" and "crypto_ok E" and "trusted E s"
    and "tree_holds E s fuel nr nes" and "tree_holds E s fuel er ees"
  obtains ns rows labels s1 props s2 es outgoing s3 incoming s4
  where "nodes_at E s nes ns" and "prop_rows E ns = Inr rows"
    and "build_label_trees E (group_all (label_rows ns) fmempty) s = (Inr labels, s1)"
    and "build_prop_trees E (group_all rows fmempty) s1 = (Inr props, s2)"
    and "edges_at E s2 ees es"
    and "build_outgoing E (push_all (out_rows es) fmempty) s2 = (Inr outgoing, s3)"
    and "build_incoming E (push_all (in_rows es) fmempty) s3 = (Inr incoming, s4)"
    and "put_object E (ser_index_set (index_of_parts labels props outgoing incoming)) s4 = (Inr cid, t)"
    and "grows E s s2" and "trusted E s2"
proof -
  have nodes: "for_entries E s fuel nr body acc = rfold body nes acc" for body and acc :: "'a label_groups \<times> 'a prop_groups"
    using assms(4) by (intro for_entries_rfold trees.read_holds)
  from assms(1) obtain L P labels s1 props s2 O1 I1 outgoing s3 incoming s4 where
    1: "for_entries E s fuel nr (index_node E s) (fmempty, fmempty) = Inr (L, P)"
    and 2: "build_label_trees E L s = (Inr labels, s1)" "build_prop_trees E P s1 = (Inr props, s2)"
    and 3: "for_entries E s2 fuel er (index_edge E s2) (fmempty, fmempty) = Inr (O1, I1)"
    and 4: "build_outgoing E O1 s2 = (Inr outgoing, s3)" "build_incoming E I1 s3 = (Inr incoming, s4)"
    and 5: "put_object E (ser_index_set (index_of_parts labels props outgoing incoming)) s4 = (Inr cid, t)"
    unfolding build_index_set_def index_of_parts_def
    by (auto simp: monad_simps split: prod.splits)
  have g: "grows E s s2"
    using build_label_trees_grows [OF assms(2) 2(1)] build_prop_trees_grows [OF assms(2) 2(2)] by (rule grows_trans)
  then have tr: "trusted E s2" using assms(3) by (rule grows_trusted)
  have "tree_holds E s2 fuel er ees" using assms(5) g assms(3) by (rule tree_holds_mono)
  then have "for_entries E s2 fuel er body acc = rfold body ees acc" for body and acc :: "'a out_groups \<times> 'a in_groups"
    by (intro for_entries_rfold trees.read_holds)
  with 1 3 nodes obtain ns rows es where "nodes_at E s nes ns" "prop_rows E ns = Inr rows" "edges_at E s2 ees es"
    "L = group_all (label_rows ns) fmempty" "P = group_all rows fmempty"
    "O1 = push_all (out_rows es) fmempty" "I1 = push_all (in_rows es) fmempty"
    by (auto simp: index_nodes_Inr index_edges_Inr)
  with 2 4 5 g tr show thesis by (intro that) blast+
qed

lemma index_ok_parts [simp]: "index_set_ok (index_of_parts labels props outgoing incoming)"
  by (simp add: index_set_ok_def index_of_parts_def extra_ok_def list_all_iff)

lemma bucket_ok [simp]: "adjacency_bucket_ok (outgoing_bucket es)" "incoming_bucket_ok (incoming_bucket_of es')"
  by (simp_all add: adjacency_bucket_ok_def incoming_bucket_ok_def outgoing_bucket_def incoming_bucket_of_def
      extra_ok_def list_all_iff)

lemma build_adjacency_free: "store_free (build_adjacency E bucket rows)"
  unfolding build_adjacency_def case_prod_unfold
  by (auto intro!: store_free_sbind store_free_sfold store_free_sret store_free_put_object build_tree_store_free)

text \<open>The index set a build writes is a function of the nodes and edges.\<close>

definition index_canonical ::
    "('c::linorder, 'h, 'b) external \<Rightarrow> 'c index_set \<Rightarrow> (prolly_key \<times> 'c \<times> 'c node) list \<Rightarrow> ('c \<times> 'c edge) list \<Rightarrow> bool" where
  "index_canonical E ix ns es \<longleftrightarrow>
     is_extra ix = fmempty \<and> no_empty_group (is_nodes_by_prop ix) \<and>
     tree_roots E (fmlookup (is_nodes_by_label ix)) (label_rows ns) \<and>
     (\<exists>rows. prop_rows E ns = Inr rows \<and> tree_roots E (\<lambda>(l, p). group_get (is_nodes_by_prop ix) l p) rows) \<and>
     outcome (build_outgoing E (push_all (out_rows es) fmempty)) = Inr (is_outgoing ix) \<and>
     outcome (build_incoming E (push_all (in_rows es) fmempty)) = Inr (is_incoming ix)"

lemma tree_roots_unique:
  assumes "tree_roots E roots rows" and "tree_roots E roots' rows"
  shows "roots g = roots' g"
proof -
  from assms have "case fmlookup (group_all rows fmempty) g of
      None \<Rightarrow> roots g = None \<and> roots' g = None
    | Some i \<Rightarrow> \<exists>root. roots g = Some root \<and> roots' g = Some root"
    unfolding tree_roots_def by (fastforce dest!: spec [of _ g] split: option.splits)
  then show ?thesis by (auto split: option.splits)
qed

lemma index_canonical_unique:
  assumes "index_canonical E ix ns es" and "index_canonical E ix' ns es"
  shows "ix = ix'"
proof -
  from assms obtain rows where
    p: "tree_roots E (\<lambda>(l, p). group_get (is_nodes_by_prop ix) l p) rows"
    "tree_roots E (\<lambda>(l, p). group_get (is_nodes_by_prop ix') l p) rows"
    by (auto simp: index_canonical_def)
  have "is_nodes_by_prop ix = is_nodes_by_prop ix'"
    using assms tree_roots_unique [OF p, of "(l, q)" for l q]
    by (intro group_eqI) (simp_all add: index_canonical_def)
  moreover have "is_nodes_by_label ix = is_nodes_by_label ix'"
    using assms by (intro fmap_ext tree_roots_unique) (auto simp: index_canonical_def)
  ultimately show ?thesis using assms by (auto simp: index_canonical_def)
qed

lemma build_prop_trees_no_empty:
  assumes "build_prop_trees E G s = (Inr props, t)"
  shows "no_empty_group props"
proof (rule trees.build_each_inv [where P = no_empty_group])
  show "trees.build_each E (\<lambda>(l, p). group_insert l p) (map (\<lambda>(l, m). (l, bt_iter m)) (bt_iter G)) fmempty s = (Inr props, t)"
    using assms by (simp only: build_prop_trees_each)
  show "no_empty_group ((\<lambda>(l, p). group_insert l p) g r out)" if "no_empty_group out" for g r out
    using no_empty_group_all [OF that, of "[(fst g, snd g, r)]"] by (simp add: group_all_def case_prod_unfold)
qed simp

lemma label_rows_size: "length (filter (\<lambda>r. fst r = g) (label_rows ns)) \<le> length ns"
  by (metis label_rows_def length_filter_le length_map)

theorem build_index_set_holds:
  assumes "build_index_set E fuel nr er s = (Inr cid, t)" and "crypto_ok E" and "trusted E s"
    and "tree_holds E s fuel nr nes" and "tree_holds E s fuel er ees"
    and "length nes + 2 \<le> n" and "length ees + 2 \<le> n"
  shows "grows E s t \<and> (\<exists>ix ns es. decode_from_store E de_index_set t cid = Inr ix \<and>
    nodes_at E t nes ns \<and> edges_at E t ees es \<and> index_holds E t n ix ns es \<and> index_canonical E ix ns es \<and>
    outcome (put_object E (ser_index_set ix)) = Inr cid)"
proof -
  obtain ns rows labels s1 props s2 es outgoing s3 incoming s4 where
    ns: "nodes_at E s nes ns" and rows: "prop_rows E ns = Inr rows"
    and l: "build_label_trees E (group_all (label_rows ns) fmempty) s = (Inr labels, s1)"
    and p: "build_prop_trees E (group_all rows fmempty) s1 = (Inr props, s2)"
    and es: "edges_at E s2 ees es"
    and out: "build_outgoing E (push_all (out_rows es) fmempty) s2 = (Inr outgoing, s3)"
    and inc: "build_incoming E (push_all (in_rows es) fmempty) s3 = (Inr incoming, s4)"
    and put: "put_object E (ser_index_set (index_of_parts labels props outgoing incoming)) s4 = (Inr cid, t)"
    and g2: "grows E s s2" and t2: "trusted E s2"
    by (rule build_index_set_run [OF assms(1-5)])
  have len: "length ns + 2 \<le> n" "length es + 2 \<le> n"
    using assms(6,7) ns es by (simp_all add: length_nodes_at length_edges_at)
  have g1: "grows E s s1" using assms(2) l by (rule build_label_trees_grows)
  have t1: "trusted E s1" using g1 assms(3) by (rule grows_trusted)
  have tl: "tree_index E s1 n (fmlookup labels) (label_rows ns) \<and> tree_roots E (fmlookup labels) (label_rows ns)"
    using l le_trans [OF add_le_mono1 [OF label_rows_size] len(1)] unfolding build_label_trees_each
    by (intro tree_index_build [OF assms(2,3), where put_at = fmupd and acc = fmempty]) auto
  have tp: "tree_index E s2 n ((\<lambda>m (l, p). group_get m l p) props) rows \<and>
      tree_roots E ((\<lambda>m (l, p). group_get m l p) props) rows"
    using p le_trans [OF add_le_mono1 [OF prop_rows_group_size [OF rows]] len(1)] unfolding build_prop_trees_each
    by (intro tree_index_build [OF assms(2) t1, where put_at = "\<lambda>(l, p). group_insert l p" and acc = fmempty
          and get = "\<lambda>m (l, p). group_get m l p"])
       (auto simp: group_get_insert split: if_splits)
  have o: "grows E s2 s3 \<and> bucket_index E s3 n de_adjacency_bucket outgoing_bucket outgoing (out_rows es)"
    using len(2) by (intro bucket_index_build [OF assms(2) t2 _ _ out]) (simp_all add: de_ser_adjacency_bucket out_rows_def)
  have t3: "trusted E s3" using o t2 grows_trusted by blast
  have i: "grows E s3 s4 \<and> bucket_index E s4 n de_incoming_bucket incoming_bucket_of incoming (in_rows es)"
    using len(2) by (intro bucket_index_build [OF assms(2) t3 _ _ inc]) (simp_all add: de_ser_incoming_bucket in_rows_def)
  have t4: "trusted E s4" using i t3 grows_trusted by blast
  have g5: "grows E s4 t" using assms(2) put by (intro put_object_mono) (simp_all add: crypto_ok_def)
  have g3t: "grows E s3 t" using i g5 by (blast intro: grows_trans)
  have g2t: "grows E s2 t" using o g3t by (blast intro: grows_trans)
  have gt: "grows E s t" using g2 g2t by (rule grows_trans)
  have g1t: "grows E s1 t" using build_prop_trees_grows [OF assms(2) p] g2t by (rule grows_trans)
  let ?ix = "index_of_parts labels props outgoing incoming"
  have "decode_from_store E de_index_set t cid = Inr ?ix"
    using assms(2) by (intro decode_put_object [OF put]) (simp_all add: crypto_ok_def de_ser_index_set)
  moreover have "nodes_at E t nes ns" using ns gt assms(3) by (rule nodes_at_mono)
  moreover have "edges_at E t ees es" using es g2t t2 by (rule edges_at_mono)
  moreover have "index_holds E t n ?ix ns es"
    using tree_index_mono [OF conjunct1 [OF tl] g1t t1] tree_index_mono [OF conjunct1 [OF tp] g2t t2] rows
      bucket_index_mono [OF conjunct2 [OF o] g3t t3] bucket_index_mono [OF conjunct2 [OF i] g5 t4]
    by (simp add: index_holds_def index_of_parts_def)
  moreover have "index_canonical E ?ix ns es"
    using tl tp rows build_prop_trees_no_empty [OF p]
      outcomeD [OF build_adjacency_free out] outcomeD [OF build_adjacency_free inc]
    by (simp add: index_canonical_def index_of_parts_def)
  moreover have "outcome (put_object E (ser_index_set ?ix)) = Inr cid"
    using outcomeD [OF store_free_put_object put] by simp
  ultimately show ?thesis using gt by blast
qed

theorem build_index_set_deterministic:
  assumes "build_index_set E fuel nr er s = (Inr cid, t)" and "build_index_set E fuel' nr' er' s' = (Inr cid', t')"
    and "crypto_ok E" and "trusted E s" and "trusted E s'"
    and "tree_holds E s fuel nr nes" and "tree_holds E s fuel er ees"
    and "tree_holds E s' fuel' nr' nes" and "tree_holds E s' fuel' er' ees"
    and "nodes_at E t nes ns" and "nodes_at E t' nes ns" and "edges_at E t ees es" and "edges_at E t' ees es"
  shows "cid = cid'"
proof -
  let ?n = "max (length nes) (length ees) + 2"
  obtain ix ns1 es1 where 1: "nodes_at E t nes ns1" "edges_at E t ees es1" "index_canonical E ix ns1 es1"
    "outcome (put_object E (ser_index_set ix)) = Inr cid"
    using build_index_set_holds [OF assms(1,3,4,6,7), of ?n] by auto
  obtain ix' ns2 es2 where 2: "nodes_at E t' nes ns2" "edges_at E t' ees es2" "index_canonical E ix' ns2 es2"
    "outcome (put_object E (ser_index_set ix')) = Inr cid'"
    using build_index_set_holds [OF assms(2,3,5,8,9), of ?n] by auto
  have "ns1 = ns" "ns2 = ns" "es1 = es" "es2 = es"
    using nodes_at_unique [OF 1(1) assms(10)] nodes_at_unique [OF 2(1) assms(11)]
      edges_at_unique [OF 1(2) assms(12)] edges_at_unique [OF 2(2) assms(13)] by simp_all
  with 1(3) 2(3) have "ix = ix'" using index_canonical_unique by blast
  with 1(4) 2(4) show ?thesis by simp
qed

end
