(* ===== verification/Index_Readers.thy ===== *)
theory Index_Readers imports Index_Spec begin

text \<open>
  The readers of an index set are correct on what \<open>build_index_set\<close> writes: \<open>lookup_by_prop\<close> finds a node
  of the label with the property value, and \<open>load_outgoing\<close> and \<open>load_incoming\<close> return the wanted edges
  of a node in the order of the bucket, up to the cap.
\<close>

section \<open>Property lookup\<close>

lemma tree_index_lookup:
  assumes "tree_index E bs fuel roots rows"
  shows "case roots g of
      None \<Rightarrow> row_of rows g k = None
    | Some root \<Rightarrow> prolly_lookup E bs fuel root k = Inr (row_of rows g k)"
proof -
  have all: "case roots g of
      None \<Rightarrow> \<forall>k c. (g, k, c) \<notin> set rows
    | Some root \<Rightarrow> \<exists>m. tree_holds E bs fuel root m \<and> (\<forall>k. map_of m k = row_of rows g k)"
    using assms unfolding tree_index_def by (rule spec)
  show ?thesis
  proof (cases "roots g")
    case None
    with all show ?thesis by (simp add: row_of_None)
  next
    case (Some root)
    with all obtain m where "tree_holds E bs fuel root m" "map_of m k = row_of rows g k" by auto
    then show ?thesis using Some trees.look_holds [of E bs fuel root m k] by simp
  qed
qed

definition has_prop :: "'c node \<Rightarrow> string \<Rightarrow> string \<Rightarrow> 'c ipld \<Rightarrow> bool" where
  "has_prop n l p v \<longleftrightarrow> nd_ntype n = l \<and> fmlookup (nd_props n) p = Some v"

lemma lookup_by_prop_row:
  assumes "index_holds E bs fuel ix ns es" and "prop_rows E ns = Inr rows"
    and "prop_value_hash E v = Inr h"
    and dec: "\<And>k c n. (k, c, n) \<in> set ns \<Longrightarrow> decode_from_store E de_node bs c = Inr n"
  shows "lookup_by_prop E bs fuel ix l p v =
    (case row_of rows (l, p) h of
       None \<Rightarrow> Inr None
     | Some c \<Rightarrow> rbind (decode_from_store E de_node bs c) (\<lambda>n.
         if has_prop n l p v then Inr (Some (c, n)) else Inr None))"
proof -
  have ti: "tree_index E bs fuel (\<lambda>(l, p). group_get (is_nodes_by_prop ix) l p) rows"
    using assms(1,2) by (auto simp: index_holds_def)
  note lk = tree_index_lookup [OF ti, of "(l, p)" h]
  have cond: "(if nd_ntype n \<noteq> l then Inr None
      else if fmlookup (nd_props n) p \<noteq> Some v then Inr None else Inr (Some (c, n)))
    = (if has_prop n l p v then Inr (Some (c, n)) else Inr None)" for c and n :: "'a node"
    by (simp add: has_prop_def)
  show ?thesis
  proof (cases "group_get (is_nodes_by_prop ix) l p")
    case None
    with lk show ?thesis by (simp add: lookup_by_prop_def group_get_def)
  next
    case (Some root)
    with lk have "prolly_lookup E bs fuel root h = Inr (row_of rows (l, p) h)" by simp
    with Some assms(3) show ?thesis
      unfolding lookup_by_prop_def group_get_def cond
      by (simp split: option.split)
  qed
qed

theorem lookup_by_prop_correct:
  assumes "index_holds E bs fuel ix ns es" and "prop_value_hash E v = Inr h" and at: "nodes_at E bs nes ns"
  shows "\<exists>r. lookup_by_prop E bs fuel ix l p v = Inr r \<and>
    (\<forall>c n. r = Some (c, n) \<longrightarrow> (\<exists>k. (k, c, n) \<in> set ns) \<and> has_prop n l p v) \<and>
    ((\<forall>(k, c, n) \<in> set ns. \<forall>v'. has_prop n l p v' \<and> prop_value_hash E v' = Inr h \<longrightarrow> v' = v) \<longrightarrow>
      (r = None \<longleftrightarrow> (\<forall>(k, c, n) \<in> set ns. \<not> has_prop n l p v)))"
proof -
  obtain rows where rows: "prop_rows E ns = Inr rows" using assms(1) by (auto simp: index_holds_def)
  note dec = nodes_at_decode [OF at]
  note run = lookup_by_prop_row [OF assms(1) rows assms(2) dec, where l = l and p = p]
  have mem: "((l, p), h, c) \<in> set rows \<longleftrightarrow>
      (\<exists>k n v'. (k, c, n) \<in> set ns \<and> has_prop n l p v' \<and> prop_value_hash E v' = Inr h)" for c
    unfolding prop_rows_set [OF rows] by (auto simp: has_prop_def)
  show ?thesis
  proof (cases "row_of rows (l, p) h")
    case None
    then have absent: "((l, p), h, c) \<notin> set rows" for c by (simp add: row_of_None)
    have "\<not> has_prop n l p v" if n: "(k, c, n) \<in> set ns" for k c n
    proof
      assume "has_prop n l p v"
      then have "((l, p), h, c) \<in> set rows" unfolding mem using n assms(2) by (intro exI conjI)
      then show False using absent by blast
    qed
    moreover have "lookup_by_prop E bs fuel ix l p v = Inr None" using run None by simp
    ultimately show ?thesis by blast
  next
    case (Some c)
    then have "((l, p), h, c) \<in> set rows" by (rule row_of_Some)
    then obtain k n v' where n: "(k, c, n) \<in> set ns" "has_prop n l p v'" "prop_value_hash E v' = Inr h"
      unfolding mem by (elim exE conjE)
    have lk: "lookup_by_prop E bs fuel ix l p v = Inr (if has_prop n l p v then Some (c, n) else None)"
      using run Some dec [OF n(1)] by simp
    show ?thesis
    proof (cases "has_prop n l p v")
      case True
      with lk n(1) show ?thesis by (intro exI [of _ "Some (c, n)"]) (auto intro!: bexI [of _ "(k, c, n)"])
    next
      case False
      with n have "\<not> (\<forall>(k, c, n) \<in> set ns. \<forall>v'. has_prop n l p v' \<and> prop_value_hash E v' = Inr h \<longrightarrow> v' = v)"
        by blast
      then have "(\<forall>(k, c, n) \<in> set ns. \<forall>v'. has_prop n l p v' \<and> prop_value_hash E v' = Inr h \<longrightarrow> v' = v) \<longrightarrow> Q" for Q
        by blast
      moreover have "lookup_by_prop E bs fuel ix l p v = Inr None" using lk False by simp
      ultimately show ?thesis by (intro exI [of _ None] conjI) simp_all
    qed
  qed
qed

section \<open>Adjacency\<close>

lemma load_edges_run:
  assumes "list_all2 (\<lambda>(l, c) e. decode_from_store E de_edge bs c = Inr e \<and> ed_etype e = l) rows es"
    and "length out \<le> cap"
  shows "load_edges E bs want cap rows out =
    Inr (out @ take (cap - length out) (filter (\<lambda>e. ed_etype e \<in> want) es),
      cap - length out < length (filter (\<lambda>e. ed_etype e \<in> want) es))"
  using assms
proof (induction rows es arbitrary: out rule: list_all2_induct)
  case (Cons r rows e es)
  obtain l c where r: "r = (l, c)" by (cases r)
  with Cons.hyps have d: "decode_from_store E de_edge bs c = Inr e" "ed_etype e = l" by auto
  show ?case
  proof (cases "l \<in> want \<and> length out < cap")
    case True
    then have "load_edges E bs want cap rows (out @ [e]) =
        Inr ((out @ [e]) @ take (cap - length (out @ [e])) (filter (\<lambda>e. ed_etype e \<in> want) es),
          cap - length (out @ [e]) < length (filter (\<lambda>e. ed_etype e \<in> want) es))"
      by (intro Cons.IH) simp
    moreover have "cap - length out = Suc (cap - Suc (length out))" using True by (simp add: Suc_diff_Suc)
    ultimately show ?thesis using True d r by (simp del: append_assoc)
  next
    case False
    then show ?thesis using d r Cons.IH [OF Cons.prems] Cons.prems by auto
  qed
qed simp

lemma insort_key_map: "insort_key f (h x) (map h xs) = map h (insort_key (\<lambda>x. f (h x)) x xs)"
  by (induction xs) simp_all

lemma sort_key_map: "sort_key f (map h xs) = map h (sort_key (\<lambda>x. f (h x)) xs)"
  by (induction xs) (simp_all add: insort_key_map)

definition edges_from :: "('c::linorder \<times> 'c edge) list \<Rightarrow> node_id \<Rightarrow> string set \<Rightarrow> 'c edge list" where
  "edges_from es src want =
     map snd (sort_key (\<lambda>(c, e). (ed_etype e, c)) (filter (\<lambda>(c, e). ed_src e = src \<and> ed_etype e \<in> want) es))"

definition edges_to :: "('c::linorder \<times> 'c edge) list \<Rightarrow> node_id \<Rightarrow> string set \<Rightarrow> 'c edge list" where
  "edges_to es dst want =
     map snd (sort_key (\<lambda>(c, e). (ed_etype e, ed_src e, c)) (filter (\<lambda>(c, e). ed_dst e = dst \<and> ed_etype e \<in> want) es))"

lemma load_edges_sorted:
  assumes dec: "\<And>c e. (c, e) \<in> set es \<Longrightarrow> decode_from_store E de_edge bs c = Inr e"
    and key: "\<And>c e. lab (c, e) = ed_etype e"
  shows "load_edges E bs want cap (map (\<lambda>x. (lab x, fst x)) (sort_key f (filter P es))) []
    = Inr (take cap (map snd (sort_key f (filter (\<lambda>x. P x \<and> ed_etype (snd x) \<in> want) es))),
        cap < length (filter (\<lambda>x. P x \<and> ed_etype (snd x) \<in> want) es))"
proof -
  let ?xs = "sort_key f (filter P es)"
  have "list_all2 (\<lambda>(l, c) e. decode_from_store E de_edge bs c = Inr e \<and> ed_etype e = l)
      (map (\<lambda>x. (lab x, fst x)) ys) (map snd ys)" if "set ys \<subseteq> set es" for ys
    using that by (induction ys) (auto simp: dec key)
  from load_edges_run [OF this, where out = "[]" and want = want and cap = cap, of ?xs]
  have "load_edges E bs want cap (map (\<lambda>x. (lab x, fst x)) ?xs) [] =
      Inr (take cap (filter (\<lambda>e. ed_etype e \<in> want) (map snd ?xs)),
        cap < length (filter (\<lambda>e. ed_etype e \<in> want) (map snd ?xs)))" by auto
  moreover have "filter (\<lambda>e. ed_etype e \<in> want) (map snd ?xs)
      = map snd (sort_key f (filter (\<lambda>x. P x \<and> ed_etype (snd x) \<in> want) es))"
    by (simp add: filter_map filter_sort o_def conj_commute)
  ultimately show ?thesis by simp
qed

lemma bucket_reader:
  assumes "bucket_index E bs fuel de f root rows"
  shows "case root of
      None \<Rightarrow> rows = []
    | Some r \<Rightarrow> (case filter (\<lambda>r. fst r = g) rows of
          [] \<Rightarrow> prolly_lookup E bs fuel r g = Inr None
        | x # xs \<Rightarrow> \<exists>c. prolly_lookup E bs fuel r g = Inr (Some c) \<and>
            decode_from_store E de bs c = Inr (f (map snd (x # xs))))"
proof (cases root)
  case None
  with assms show ?thesis by (simp add: bucket_index_def)
next
  case (Some r)
  with assms obtain m where m: "tree_holds E bs fuel r m"
    and c: "case map_of m g of None \<Rightarrow> g \<notin> fst ` set rows
      | Some c \<Rightarrow> g \<in> fst ` set rows \<and> decode_from_store E de bs c = Inr (f (map snd (filter (\<lambda>r. fst r = g) rows)))"
    by (auto simp: bucket_index_def)
  have lk: "prolly_lookup E bs fuel r g = Inr (map_of m g)" using m by (rule trees.look_holds)
  show ?thesis
  proof (cases "filter (\<lambda>r. fst r = g) rows")
    case Nil
    then have "g \<notin> fst ` set rows" by (auto simp: filter_empty_conv)
    with c Nil lk Some show ?thesis by (auto split: option.splits)
  next
    case (Cons x xs)
    then have "g \<in> fst ` set rows" by (auto simp: filter_eq_Cons_iff)
    with c Cons lk Some show ?thesis by (auto split: option.splits)
  qed
qed


lemma out_rows_filter:
  "map snd (filter (\<lambda>r. fst r = g) (out_rows es)) =
     map (\<lambda>(c, e). \<lparr>ae_label = ed_etype e, ae_edge = c\<rparr>) (filter (\<lambda>(c, e). ed_src e = g) es)"
  by (induction es) (auto simp: out_rows_def)

lemma in_rows_filter:
  "map snd (filter (\<lambda>r. fst r = g) (in_rows es)) =
     map (\<lambda>(c, e). \<lparr>ie_label = ed_etype e, ie_src = ed_src e, ie_edge = c\<rparr>) (filter (\<lambda>(c, e). ed_dst e = g) es)"
  by (induction es) (auto simp: in_rows_def)

lemma outgoing_bucket_rows:
  "map (\<lambda>ae. (ae_label ae, ae_edge ae))
      (ab_edges (outgoing_bucket (map (\<lambda>(c, e). \<lparr>ae_label = ed_etype e, ae_edge = c\<rparr>) xs)))
    = map (\<lambda>x. (ed_etype (snd x), fst x)) (sort_key (\<lambda>(c, e). (ed_etype e, c)) xs)"
  by (simp add: outgoing_bucket_def sort_key_map case_prod_unfold)

lemma incoming_bucket_rows:
  "map (\<lambda>ae. (ie_label ae, ie_edge ae))
      (ib_edges (incoming_bucket_of (map (\<lambda>(c, e). \<lparr>ie_label = ed_etype e, ie_src = ed_src e, ie_edge = c\<rparr>) xs)))
    = map (\<lambda>x. (ed_etype (snd x), fst x)) (sort_key (\<lambda>(c, e). (ed_etype e, ed_src e, c)) xs)"
  by (simp add: incoming_bucket_of_def sort_key_map case_prod_unfold)

lemma no_edges: "(\<And>x. x \<in> set es \<Longrightarrow> \<not> P x) \<Longrightarrow> map snd (sort_key f (filter (\<lambda>x. P x \<and> Q x) es)) = []"
  by (simp add: filter_empty_conv)

theorem load_outgoing_correct:
  assumes "index_holds E bs fuel ix ns es" and "want \<noteq> {}"
    and at: "edges_at E bs ees es"
  shows "load_outgoing E bs fuel (Some ix) src want cap =
    Inr (take cap (edges_from es src want), cap < length (edges_from es src want))"
proof -
  have bi: "bucket_index E bs fuel de_adjacency_bucket outgoing_bucket (is_outgoing ix) (out_rows es)"
    using assms(1) by (simp add: index_holds_def)
  note br = bucket_reader [OF bi, of src] and dec = edges_at_decode [OF at]
  have ef: "edges_from es src want = map snd (sort_key (\<lambda>(c, e). (ed_etype e, c))
      (filter (\<lambda>x. ed_src (snd x) = src \<and> ed_etype (snd x) \<in> want) es))"
    by (simp add: edges_from_def case_prod_unfold)
  show ?thesis
  proof (cases "filter (\<lambda>r. fst r = src) (out_rows es)")
    case Nil
    then have "edges_from es src want = []"
      unfolding ef by (intro no_edges) (auto simp: out_rows_def filter_empty_conv)
    with Nil br assms(2) show ?thesis
      by (cases "is_outgoing ix") (simp_all add: load_outgoing_def)
  next
    case (Cons x xs)
    then have "is_outgoing ix \<noteq> None" using br by (cases "is_outgoing ix") auto
    then obtain r where r: "is_outgoing ix = Some r" by blast
    with br Cons obtain c where "prolly_lookup E bs fuel r src = Inr (Some c)"
      "decode_from_store E de_adjacency_bucket bs c = Inr (outgoing_bucket (map snd (x # xs)))" by auto
    moreover have "map snd (x # xs) = map (\<lambda>(c, e). \<lparr>ae_label = ed_etype e, ae_edge = c\<rparr>)
        (filter (\<lambda>(c, e). ed_src e = src) es)"
      using out_rows_filter [of src es] by (simp only: Cons)
    ultimately have "load_outgoing E bs fuel (Some ix) src want cap =
        load_edges E bs want cap (map (\<lambda>x. (ed_etype (snd x), fst x))
          (sort_key (\<lambda>(c, e). (ed_etype e, c)) (filter (\<lambda>(c, e). ed_src e = src) es))) []"
      using r assms(2) by (simp add: load_outgoing_def outgoing_bucket_rows del: list.map)
    also have "\<dots> = Inr (take cap (edges_from es src want), cap < length (edges_from es src want))"
      using load_edges_sorted [of es E bs "\<lambda>x. ed_etype (snd x)"] dec by (simp add: ef case_prod_unfold)
    finally show ?thesis .
  qed
qed

theorem load_incoming_correct:
  assumes "index_holds E bs fuel ix ns es" and "want \<noteq> {}"
    and at: "edges_at E bs ees es"
  shows "load_incoming E bs fuel (Some ix) dst want cap =
    Inr (take cap (edges_to es dst want), cap < length (edges_to es dst want))"
proof -
  have bi: "bucket_index E bs fuel de_incoming_bucket incoming_bucket_of (is_incoming ix) (in_rows es)"
    using assms(1) by (simp add: index_holds_def)
  note br = bucket_reader [OF bi, of dst] and dec = edges_at_decode [OF at]
  have ef: "edges_to es dst want = map snd (sort_key (\<lambda>(c, e). (ed_etype e, ed_src e, c))
      (filter (\<lambda>x. ed_dst (snd x) = dst \<and> ed_etype (snd x) \<in> want) es))"
    by (simp add: edges_to_def case_prod_unfold)
  show ?thesis
  proof (cases "filter (\<lambda>r. fst r = dst) (in_rows es)")
    case Nil
    then have "edges_to es dst want = []"
      unfolding ef by (intro no_edges) (auto simp: in_rows_def filter_empty_conv)
    with Nil br assms(2) show ?thesis
      by (cases "is_incoming ix") (simp_all add: load_incoming_def)
  next
    case (Cons x xs)
    then have "is_incoming ix \<noteq> None" using br by (cases "is_incoming ix") auto
    then obtain r where r: "is_incoming ix = Some r" by blast
    with br Cons obtain c where "prolly_lookup E bs fuel r dst = Inr (Some c)"
      "decode_from_store E de_incoming_bucket bs c = Inr (incoming_bucket_of (map snd (x # xs)))" by auto
    moreover have "map snd (x # xs) = map (\<lambda>(c, e). \<lparr>ie_label = ed_etype e, ie_src = ed_src e, ie_edge = c\<rparr>)
        (filter (\<lambda>(c, e). ed_dst e = dst) es)"
      using in_rows_filter [of dst es] by (simp only: Cons)
    ultimately have "load_incoming E bs fuel (Some ix) dst want cap =
        load_edges E bs want cap (map (\<lambda>x. (ed_etype (snd x), fst x))
          (sort_key (\<lambda>(c, e). (ed_etype e, ed_src e, c)) (filter (\<lambda>(c, e). ed_dst e = dst) es))) []"
      using r assms(2) by (simp add: load_incoming_def incoming_bucket_rows del: list.map)
    also have "\<dots> = Inr (take cap (edges_to es dst want), cap < length (edges_to es dst want))"
      using load_edges_sorted [of es E bs "\<lambda>x. ed_etype (snd x)"] dec by (simp add: ef case_prod_unfold)
    finally show ?thesis .
  qed
qed

end
