(* ===== verification/Index_Append.thy ===== *)
theory Index_Append imports Index_Spec begin

text \<open>
  The append-only update of an index set gives the index set a rebuild gives: when the added nodes have
  new ids and no added node shares a (label, property, value hash) key with an old one,
  \<open>incremental_append_indexes\<close> on the index of the old nodes returns the CID that \<open>build_index_set\<close>
  returns on the old and the added nodes together.
\<close>

section \<open>Rows of a partitioned node list\<close>

definition disjoint_rows :: "('g \<times> 'k \<times> 'v) list \<Rightarrow> ('g \<times> 'k \<times> 'v) list \<Rightarrow> bool" where
  "disjoint_rows xs ys \<longleftrightarrow> (\<forall>g k v w. (g, k, v) \<in> set xs \<longrightarrow> (g, k, w) \<notin> set ys)"

lemma row_of_partition:
  assumes "disjoint_rows (concat (map R (filter P ns))) (concat (map R (filter (\<lambda>n. \<not> P n) ns)))"
  shows "row_of (concat (map R ns)) g k =
    row_of (concat (map R (filter P ns)) @ concat (map R (filter (\<lambda>n. \<not> P n) ns))) g k"
  using assms
proof (induction ns rule: rev_induct)
  case (snoc n ns)
  let ?a = "concat (map R (filter P ns))" and ?b = "concat (map R (filter (\<lambda>n. \<not> P n) ns))"
  have "set ?a \<subseteq> set (concat (map R (filter P (ns @ [n]))))"
    "set ?b \<subseteq> set (concat (map R (filter (\<lambda>n. \<not> P n) (ns @ [n]))))" by auto
  then have "disjoint_rows ?a ?b" using snoc.prems unfolding disjoint_rows_def by blast
  then have IH: "row_of (concat (map R ns)) g k = row_of (?a @ ?b) g k" by (rule snoc.IH)
  show ?case
  proof (cases "P n")
    case False
    with IH show ?thesis by (simp add: row_of_append split: option.split)
  next
    case True
    have "row_of ?b g k = None" if "row_of (R n) g k = Some v" for v
    proof -
      have "(g, k, v) \<in> set (concat (map R (filter P (ns @ [n]))))"
        using row_of_Some [OF that] True by simp
      then have "(g, k, w) \<notin> set (concat (map R (filter (\<lambda>n. \<not> P n) (ns @ [n]))))" for w
        using snoc.prems unfolding disjoint_rows_def by blast
      then show ?thesis using True by (simp add: row_of_None)
    qed
    with IH True show ?thesis by (auto simp: row_of_append split: option.split)
  qed
qed simp

lemma label_rows_concat: "label_rows ns = concat (map (\<lambda>(k, c, n). [(nd_ntype n, k, c)]) ns)"
  by (induction ns) (auto simp: label_rows_def)

lemma prop_rows_concat:
  "prop_rows E ns = Inr rows \<Longrightarrow> rows = concat (map (\<lambda>x. projr (node_prop_rows E x)) ns)"
proof (induction ns arbitrary: rows)
  case (Cons x ns)
  then show ?case by (auto simp: prop_rows_Cons)
qed (simp add: prop_rows_def)

lemma label_rows_disjoint:
  "disjoint_rows (label_rows (filter (\<lambda>x. P (fst x)) ns)) (label_rows (filter (\<lambda>x. \<not> P (fst x)) ns))"
  by (auto simp: disjoint_rows_def label_rows_def)

lemma nodes_at_filter:
  "nodes_at E bs nes ns \<Longrightarrow> nodes_at E bs (filter (\<lambda>x. P (fst x)) nes) (filter (\<lambda>x. P (fst x)) ns)"
proof (induction nes arbitrary: ns)
  case (Cons kc nes)
  then show ?case by (cases kc) (auto simp: nodes_at_Cons)
qed (simp add: nodes_at_def)

lemma bt_iter_add_filter:
  assumes "\<And>k. k \<in> fst ` set nes \<Longrightarrow> fmlookup added k = None" and "strict_keys nes"
  shows "filter (\<lambda>x. fmlookup added (fst x) = None) (bt_iter (fmap_of_list nes ++\<^sub>f added)) = nes"
    and "filter (\<lambda>x. fmlookup added (fst x) \<noteq> None) (bt_iter (fmap_of_list nes ++\<^sub>f added)) = bt_iter added"
proof -
  let ?m = "fmap_of_list nes ++\<^sub>f added"
  have strict: "strict_keys (filter p (bt_iter ?m))" for p
    using strict_keys_bt_iter [of ?m] unfolding strict_keys_def sorted_wrt_map by (rule sorted_wrt_filter)
  have mem: "(k, v) \<in> set (bt_iter ?m) \<longleftrightarrow>
      (case fmlookup added k of None \<Rightarrow> map_of nes k = Some v | Some w \<Rightarrow> v = w)" for k v
    by (auto simp: set_bt_iter fmlookup_add_case fmlookup_of_list simp del: fmlookup_add split: option.split)
  have eq: "xs = ys" if "strict_keys xs" "strict_keys ys" "\<And>k v. (k, v) \<in> set xs \<longleftrightarrow> (k, v) \<in> set ys"
    for xs ys :: "('a \<times> 'b) list"
  proof -
    have "set xs = set ys" using that(3) by auto
    then show ?thesis
      using that(1,2) by (intro strict_keys_map_of_eq map_of_inject_set [THEN iffD2] strict_keys_distinct)
  qed
  have d: "(k, v) \<in> set nes \<longleftrightarrow> map_of nes k = Some v" for k v
    using assms(2) by (simp add: strict_keys_distinct)
  have n: "fmlookup added k = None" if "map_of nes k = Some v" for k v
    using assms(1) that by (force dest: map_of_SomeD)
  show "filter (\<lambda>x. fmlookup added (fst x) = None) (bt_iter ?m) = nes"
    by (rule eq [OF strict assms(2)]) (auto simp: mem d dest: n split: option.splits)
  show "filter (\<lambda>x. fmlookup added (fst x) \<noteq> None) (bt_iter ?m) = bt_iter added"
    by (rule eq [OF strict strict_keys_bt_iter]) (auto simp: mem set_bt_iter split: option.splits)
qed

section \<open>Rebuilding one group\<close>

lemma fold_insert_add: "fold (\<lambda>(k, v) m. fmupd k v m) (bt_iter n) m = m ++\<^sub>f n"
proof (rule fmap_ext)
  fix k
  have "fmlookup (fold (\<lambda>(k, v) m. fmupd k v m) es m) k
      = (case map_of (rev es) k of None \<Rightarrow> fmlookup m k | Some v \<Rightarrow> Some v)" for es and m :: "('a, 'b) fmap"
    by (induction es arbitrary: m) (auto split: option.split)
  moreover have "map_of (rev (bt_iter n)) k = fmlookup n k"
    using fmlookup_insert_all [of "bt_iter n" k] by simp
  ultimately show "fmlookup (fold (\<lambda>(k, v) m. fmupd k v m) (bt_iter n) m) k = fmlookup (m ++\<^sub>f n) k"
    by (simp add: fmlookup_add_case del: fmlookup_add)
qed

lemma rebuild_subtree_run:
  assumes "rebuild_subtree_with_additions E fuel (base g) additions s = (Inr root, t)"
    and "tree_index E s fuel base rows" and "crypto_ok E"
  shows "grows E s t \<and> (\<exists>M. outcome (build_tree E (bt_iter M)) = Inr root \<and>
    (\<forall>k. fmlookup M k = (case fmlookup additions k of None \<Rightarrow> row_of rows g k | Some v \<Rightarrow> Some v)))"
proof -
  have all: "case base g of
      None \<Rightarrow> \<forall>k c. (g, k, c) \<notin> set rows
    | Some root \<Rightarrow> \<exists>m. tree_holds E s fuel root m \<and> (\<forall>k. map_of m k = row_of rows g k)"
    using assms(2) unfolding tree_index_def by (rule spec)
  obtain M where b: "build_tree E (bt_iter M) s = (Inr root, t)"
    and M: "\<And>k. fmlookup M k = (case fmlookup additions k of None \<Rightarrow> row_of rows g k | Some v \<Rightarrow> Some v)"
  proof (cases "base g")
    case None
    with all have "row_of rows g k = None" for k by (simp add: row_of_None)
    with None assms(1) show thesis
      by (intro that [of additions]) (auto simp: rebuild_subtree_with_additions_def split: option.split)
  next
    case (Some root0)
    with all obtain m where m: "tree_holds E s fuel root0 m" "\<And>k. map_of m k = row_of rows g k" by auto
    let ?M = "fmap_of_list m ++\<^sub>f additions"
    have "build_tree E (bt_iter ?M) s = (Inr root, t)"
      using assms(1) Some by (simp add: rebuild_subtree_with_additions_def for_entries_insert [OF m(1)]
          sbind_def sread_def fold_insert_add)
    then show thesis
      by (intro that [of ?M]) (auto simp: fmlookup_add_case fmlookup_of_list m(2) simp del: fmlookup_add split: option.split)
  qed
  from assms(3) b have "grows E s t" by (rule trees.build_ext)
  with outcomeD [OF build_tree_store_free b] M show ?thesis by auto
qed

lemma append_loop:
  assumes "crypto_ok E" and put_at: "\<And>g r out g'. get (put_at g r out) g' = (if g = g' then Some r else get out g')"
    and "sfold (\<lambda>(g, additions) acc. sbind (rebuild_subtree_with_additions E fuel (base g) additions)
        (\<lambda>root. sret (put_at g root acc))) gs acc s = (Inr out, t)"
    and "tree_index E s fuel base rows" and "trusted E s"
  shows "grows E s t \<and>
    (if g \<in> fst ` set gs
     then \<exists>additions root M. (g, additions) \<in> set gs \<and> get out g = Some root \<and>
        outcome (build_tree E (bt_iter M)) = Inr root \<and>
        (\<forall>k. fmlookup M k = (case fmlookup additions k of None \<Rightarrow> row_of rows g k | Some v \<Rightarrow> Some v))
     else get out g = get acc g)"
  using assms(3-5)
proof (induction gs arbitrary: acc s)
  case Nil
  then show ?case by (simp add: monad_simps)
next
  case (Cons ge gs)
  obtain g' additions where ge: "ge = (g', additions)" by (cases ge)
  from Cons.prems(1) have "\<exists>root u. rebuild_subtree_with_additions E fuel (base g') additions s = (Inr root, u) \<and>
      sfold (\<lambda>(g, additions) acc. sbind (rebuild_subtree_with_additions E fuel (base g) additions)
        (\<lambda>root. sret (put_at g root acc))) gs (put_at g' root acc) u = (Inr out, t)"
    unfolding ge sfold.simps sbind_Inr_iff case_prod_conv sret_def by blast
  then obtain root u where b: "rebuild_subtree_with_additions E fuel (base g') additions s = (Inr root, u)"
    and rest: "sfold (\<lambda>(g, additions) acc. sbind (rebuild_subtree_with_additions E fuel (base g) additions)
        (\<lambda>root. sret (put_at g root acc))) gs (put_at g' root acc) u = (Inr out, t)" by blast
  note run = rebuild_subtree_run [OF b Cons.prems(2) assms(1)]
  have su: "grows E s u" using run by blast
  have tu: "trusted E u" using su Cons.prems(3) by (rule grows_trusted)
  note IH = Cons.IH [OF rest tree_index_mono [OF Cons.prems(2) su Cons.prems(3)] tu]
  have st: "grows E s t" using su IH by (blast intro: grows_trans)
  show ?case
  proof (cases "g \<in> fst ` set gs")
    case True
    with IH st show ?thesis by (simp add: ge) blast
  next
    case False
    with IH have "get out g = get (put_at g' root acc) g" by simp
    then have out: "get out g = (if g = g' then Some root else get acc g)" by (auto simp: put_at)
    show ?thesis
    proof (cases "g = g'")
      case True
      have "\<exists>additions root M. (g, additions) \<in> set (ge # gs) \<and> get out g = Some root \<and>
          outcome (build_tree E (bt_iter M)) = Inr root \<and>
          (\<forall>k. fmlookup M k = (case fmlookup additions k of None \<Rightarrow> row_of rows g k | Some v \<Rightarrow> Some v))"
      proof -
        from run obtain M where "outcome (build_tree E (bt_iter M)) = Inr root"
          "\<forall>k. fmlookup M k = (case fmlookup additions k of None \<Rightarrow> row_of rows g' k | Some v \<Rightarrow> Some v)" by blast
        then have "(g, additions) \<in> set (ge # gs) \<and> get out g = Some root \<and>
            outcome (build_tree E (bt_iter M)) = Inr root \<and>
            (\<forall>k. fmlookup M k = (case fmlookup additions k of None \<Rightarrow> row_of rows g k | Some v \<Rightarrow> Some v))"
          unfolding ge True using out True by simp
        then show ?thesis by blast
      qed
      with st True show ?thesis by (simp add: ge)
    next
      case ne: False
      with False out st show ?thesis by (auto simp: ge)
    qed
  qed
qed

lemma append_roots:
  fixes rows arows
  assumes "crypto_ok E" and put_at: "\<And>g r out g'. get (put_at g r out) g' = (if g = g' then Some r else get out g')"
    and "sfold (\<lambda>(g, additions) acc. sbind (rebuild_subtree_with_additions E fuel (get base g) additions)
        (\<lambda>root. sret (put_at g root acc))) (bt_iter (group_all arows fmempty)) base s = (Inr out, t)"
    and "tree_index E s fuel (get base) rows" and "tree_roots E (get base) rows" and "trusted E s"
  shows "grows E s t \<and> tree_roots E (get out) (rows @ arows)"
proof -
  let ?A = "group_all arows fmempty" and ?G = "group_all (rows @ arows) fmempty"
  note loop = append_loop [OF assms(1) put_at assms(3,4,6)]
  have dom: "g \<in> fst ` set (bt_iter ?A) \<longleftrightarrow> (\<exists>i. fmlookup ?A g = Some i)" for g
    unfolding bt_iter_keys by (auto simp: fmlookup_dom'_iff)
  have "case fmlookup ?G g of
      None \<Rightarrow> get out g = None
    | Some i \<Rightarrow> \<exists>root. get out g = Some root \<and> outcome (build_tree E (bt_iter i)) = Inr root" for g
  proof (cases "fmlookup ?A g")
    case (Some add0)
    with loop [of g] dom obtain additions root M where a: "(g, additions) \<in> set (bt_iter ?A)" "get out g = Some root"
      "outcome (build_tree E (bt_iter M)) = Inr root"
      and M: "\<And>k. fmlookup M k = (case fmlookup additions k of None \<Rightarrow> row_of rows g k | Some v \<Rightarrow> Some v)"
      by auto
    have add: "fmlookup ?A g = Some additions" using a(1) by (simp add: set_bt_iter)
    have "\<exists>k v. (g, k, v) \<in> set arows" using add group_all_lookup [of arows g] by auto
    then have "fmlookup ?G g \<noteq> None" by (auto simp: group_all_lookup)
    then obtain i where i: "fmlookup ?G g = Some i" by blast
    have "i = M"
      by (rule fmap_ext) (simp add: group_all_inner [OF i] M row_of_append group_all_inner [OF add] split: option.split)
    with i a(2,3) show ?thesis by simp
  next
    case None
    with loop [of g] dom have out: "get out g = get base g" by auto
    have na: "row_of arows g k = None" for k
      using None by (simp add: group_all_lookup row_of_None)
    have base: "case fmlookup (group_all rows fmempty) g of
        None \<Rightarrow> get base g = None
      | Some i \<Rightarrow> \<exists>root. get base g = Some root \<and> outcome (build_tree E (bt_iter i)) = Inr root"
      using assms(5) unfolding tree_roots_def by (rule spec)
    have eq: "fmlookup ?G g = fmlookup (group_all rows fmempty) g"
    proof (cases "fmlookup ?G g")
      case no: None
      then show ?thesis using group_all_lookup [of rows g] group_all_lookup [of "rows @ arows" g] by auto
    next
      case (Some i)
      then have "\<exists>k v. (g, k, v) \<in> set rows"
        using None group_all_lookup [of arows g] group_all_lookup [of "rows @ arows" g] by fastforce
      then obtain j where j: "fmlookup (group_all rows fmempty) g = Some j"
        using group_all_lookup [of rows g] by (cases "fmlookup (group_all rows fmempty) g") auto
      have "i = j"
        by (rule fmap_ext) (simp add: group_all_inner [OF Some] group_all_inner [OF j] row_of_append na)
      with Some j show ?thesis by simp
    qed
    show ?thesis using base unfolding eq out .
  qed
  with loop show ?thesis by (simp add: tree_roots_def)
qed


section \<open>The equivalence\<close>

lemma tree_roots_cong:
  assumes "tree_roots E roots rows" and "\<And>g k. row_of rows g k = row_of rows' g k"
  shows "tree_roots E roots rows'"
proof -
  have "group_all rows fmempty = group_all rows' fmempty"
    by (rule group_eqI) (simp_all add: no_empty_group_all group_get_all assms(2))
  with assms(1) show ?thesis by (simp add: tree_roots_def)
qed

lemma incremental_run:
  assumes "incremental_append_indexes E fuel base_cid added s = (Inr cid, t)"
    and "decode_from_store E de_index_set s base_cid = Inr base"
  obtains ans arows labels s1 props s2
  where "nodes_at E s (bt_iter added) ans" and "prop_rows E ans = Inr arows"
    and "sfold (\<lambda>(g, additions) acc. sbind (rebuild_subtree_with_additions E fuel (fmlookup (is_nodes_by_label base) g) additions)
        (\<lambda>root. sret (fmupd g root acc))) (bt_iter (group_all (label_rows ans) fmempty)) (is_nodes_by_label base) s = (Inr labels, s1)"
    and "sfold (\<lambda>(g, additions) acc. sbind (rebuild_subtree_with_additions E fuel
          (group_get (is_nodes_by_prop base) (fst g) (snd g)) additions)
        (\<lambda>root. sret (group_insert (fst g) (snd g) root acc))) (bt_iter (group_all arows fmempty)) (is_nodes_by_prop base) s1
        = (Inr props, s2)"
    and "put_object E (ser_index_set \<lparr>is_nodes_by_label = labels, is_nodes_by_prop = props,
        is_outgoing = is_outgoing base, is_incoming = is_incoming base, is_extra = is_extra base\<rparr>) s2 = (Inr cid, t)"
proof -
  have cu: "(\<lambda>((label, prop_name), additions) acc. sbind (rebuild_subtree_with_additions E fuel
          (Option.bind (fmlookup (is_nodes_by_prop base) label) (\<lambda>m. fmlookup m prop_name)) additions)
        (\<lambda>root. sret (group_insert label prop_name root acc)))
    = (\<lambda>(g, additions) acc. sbind (rebuild_subtree_with_additions E fuel
          (group_get (is_nodes_by_prop base) (fst g) (snd g)) additions)
        (\<lambda>root. sret (group_insert (fst g) (snd g) root acc)))"
    by (intro ext) (simp add: case_prod_unfold group_get_def)
  from assms(1) obtain L P where
    1: "rfold (index_node E s) (bt_iter added) (fmempty, fmempty) = Inr (L, P)"
    and 2: "sbind (sfold (\<lambda>(label, additions) acc. sbind (rebuild_subtree_with_additions E fuel (fmlookup (is_nodes_by_label base) label) additions)
        (\<lambda>root. sret (fmupd label root acc))) (bt_iter L) (is_nodes_by_label base)) (\<lambda>labels.
      sbind (sfold (\<lambda>(g, additions) acc. sbind (rebuild_subtree_with_additions E fuel
          (group_get (is_nodes_by_prop base) (fst g) (snd g)) additions)
        (\<lambda>root. sret (group_insert (fst g) (snd g) root acc))) (bt_iter P) (is_nodes_by_prop base)) (\<lambda>props.
      put_object E (ser_index_set \<lparr>is_nodes_by_label = labels, is_nodes_by_prop = props,
        is_outgoing = is_outgoing base, is_incoming = is_incoming base, is_extra = is_extra base\<rparr>))) s = (Inr cid, t)"
    unfolding incremental_append_indexes_def cu sbind_sread assms(2) sum.case
    by (cases "rfold (index_node E s) (bt_iter added) (fmempty, fmempty)") (simp, force)
  from 1 obtain ans arows where a: "nodes_at E s (bt_iter added) ans" "prop_rows E ans = Inr arows"
    "L = group_all (label_rows ans) fmempty" "P = group_all arows fmempty"
    by (auto simp: index_nodes_Inr)
  from 2 obtain labels s1 props s2 where
    "sfold (\<lambda>(label, additions) acc. sbind (rebuild_subtree_with_additions E fuel (fmlookup (is_nodes_by_label base) label) additions)
        (\<lambda>root. sret (fmupd label root acc))) (bt_iter L) (is_nodes_by_label base) s = (Inr labels, s1)"
    "sfold (\<lambda>(g, additions) acc. sbind (rebuild_subtree_with_additions E fuel
          (group_get (is_nodes_by_prop base) (fst g) (snd g)) additions)
        (\<lambda>root. sret (group_insert (fst g) (snd g) root acc))) (bt_iter P) (is_nodes_by_prop base) s1 = (Inr props, s2)"
    "put_object E (ser_index_set \<lparr>is_nodes_by_label = labels, is_nodes_by_prop = props,
        is_outgoing = is_outgoing base, is_incoming = is_incoming base, is_extra = is_extra base\<rparr>) s2 = (Inr cid, t)"
    unfolding sbind_Inr_iff by blast
  note r = this(1) [unfolded a(3)] this(2) [unfolded a(4)] this(3)
  show thesis by (rule that [OF a(1,2) r])
qed

lemma append_no_empty:
  assumes "sfold (\<lambda>(g, additions) acc. sbind (prog g additions) (\<lambda>root. sret (group_insert (fst g) (snd g) root acc)))
      gs acc s = (Inr out, t)" and "no_empty_group acc"
  shows "no_empty_group out"
  using assms
proof (induction gs arbitrary: acc s)
  case (Cons x gs)
  from Cons.prems(1) have "\<exists>root u. sfold (\<lambda>(g, additions) acc. sbind (prog g additions)
      (\<lambda>root. sret (group_insert (fst g) (snd g) root acc))) gs (group_insert (fst (fst x)) (snd (fst x)) root acc) u = (Inr out, t)"
    unfolding sfold.simps sbind_Inr_iff case_prod_unfold sret_def by auto
  then show ?case
    using Cons.IH no_empty_group_all [OF Cons.prems(2), of "[(fst (fst x), snd (fst x), r)]" for r]
    by (auto simp: group_all_def)
qed (simp add: monad_simps)

text \<open>No added node shares a property key with an old one.\<close>

definition props_disjoint ::
    "('c, 'h, 'b) external \<Rightarrow> (prolly_key \<times> 'c \<times> 'c node) list \<Rightarrow> (prolly_key \<times> 'c \<times> 'c node) list \<Rightarrow> bool" where
  "props_disjoint E ns ans \<longleftrightarrow>
     (\<forall>rows arows. prop_rows E ns = Inr rows \<longrightarrow> prop_rows E ans = Inr arows \<longrightarrow> disjoint_rows rows arows)"

lemma prop_rows_partition:
  assumes "prop_rows E ns2 = Inr rows2" and "prop_rows E (filter P ns2) = Inr rows"
    and "prop_rows E (filter (\<lambda>x. \<not> P x) ns2) = Inr arows" and "disjoint_rows rows arows"
  shows "row_of rows2 g k = row_of (rows @ arows) g k"
  using row_of_partition [of "\<lambda>x. projr (node_prop_rows E x)" P ns2 g k] assms(4)
  unfolding prop_rows_concat [OF assms(1)] prop_rows_concat [OF assms(2)] prop_rows_concat [OF assms(3)] .

lemma label_rows_partition:
  "row_of (label_rows ns2) g k =
     row_of (label_rows (filter (\<lambda>x. P (fst x)) ns2) @ label_rows (filter (\<lambda>x. \<not> P (fst x)) ns2)) g k"
  using row_of_partition [of "\<lambda>(k, c, n). [(nd_ntype n, k, c)]" "\<lambda>x. P (fst x)" ns2 g k]
    label_rows_disjoint [of P ns2]
  unfolding label_rows_concat .

theorem incremental_append_equiv:
  assumes "build_index_set E fuel nr er s = (Inr base_cid, t0)"
    and "incremental_append_indexes E fuel base_cid added t0 = (Inr cid1, t1)"
    and "build_index_set E fuel nr' er t1 = (Inr cid2, t2)"
    and "crypto_ok E" and "trusted E s"
    and "tree_holds E s fuel nr nes" and "tree_holds E s fuel er ees"
    and "tree_holds E t1 fuel nr' (bt_iter (fmap_of_list nes ++\<^sub>f added))"
    and "length nes + 2 \<le> fuel" and "length ees + 2 \<le> fuel"
    and "length (bt_iter (fmap_of_list nes ++\<^sub>f added)) + 2 \<le> fuel"
    and new: "\<And>k. k \<in> fst ` set nes \<Longrightarrow> fmlookup added k = None"
    and disj: "\<And>ns ans. nodes_at E t1 nes ns \<Longrightarrow> nodes_at E t1 (bt_iter added) ans \<Longrightarrow> props_disjoint E ns ans"
  shows "cid1 = cid2"
proof -
  obtain base ns es where g0: "grows E s t0" and d: "decode_from_store E de_index_set t0 base_cid = Inr base"
    and ns: "nodes_at E t0 nes ns" and es: "edges_at E t0 ees es" and ih: "index_holds E t0 fuel base ns es"
    and ic: "index_canonical E base ns es"
    using build_index_set_holds [OF assms(1,4,5,6,7,9,10)] by blast
  have t0: "trusted E t0" using g0 assms(5) by (rule grows_trusted)
  obtain ans arows labels s1 props s2 where ans: "nodes_at E t0 (bt_iter added) ans" and arows: "prop_rows E ans = Inr arows"
    and l: "sfold (\<lambda>(g, additions) acc. sbind (rebuild_subtree_with_additions E fuel (fmlookup (is_nodes_by_label base) g) additions)
        (\<lambda>root. sret (fmupd g root acc))) (bt_iter (group_all (label_rows ans) fmempty)) (is_nodes_by_label base) t0 = (Inr labels, s1)"
    and p: "sfold (\<lambda>(g, additions) acc. sbind (rebuild_subtree_with_additions E fuel
          (group_get (is_nodes_by_prop base) (fst g) (snd g)) additions)
        (\<lambda>root. sret (group_insert (fst g) (snd g) root acc))) (bt_iter (group_all arows fmempty)) (is_nodes_by_prop base) s1
        = (Inr props, s2)"
    and put: "put_object E (ser_index_set \<lparr>is_nodes_by_label = labels, is_nodes_by_prop = props,
        is_outgoing = is_outgoing base, is_incoming = is_incoming base, is_extra = is_extra base\<rparr>) s2 = (Inr cid1, t1)"
    by (rule incremental_run [OF assms(2) d])
  obtain rows where rows: "prop_rows E ns = Inr rows"
    and pi: "tree_index E t0 fuel (\<lambda>(l, p). group_get (is_nodes_by_prop base) l p) rows"
    and pr: "tree_roots E (\<lambda>(l, p). group_get (is_nodes_by_prop base) l p) rows"
    using ih ic by (auto simp: index_holds_def index_canonical_def)
  have L: "grows E t0 s1 \<and> tree_roots E (fmlookup labels) (label_rows ns @ label_rows ans)"
    using ih ic
    by (intro append_roots [where get = fmlookup and put_at = fmupd, OF assms(4) _ l _ _ t0])
       (auto simp: index_holds_def index_canonical_def)
  have ts1: "trusted E s1" using L t0 grows_trusted by blast
  have P: "grows E s1 s2 \<and> tree_roots E (\<lambda>g. group_get props (fst g) (snd g)) (rows @ arows)"
    using pi pr L tree_index_mono [OF pi _ t0, of s1]
    by (intro append_roots [where get = "\<lambda>m g. group_get m (fst g) (snd g)"
          and put_at = "\<lambda>g. group_insert (fst g) (snd g)", OF assms(4) _ p _ _ ts1])
       (auto simp: group_get_insert case_prod_unfold split: if_splits)
  have g1: "grows E t0 t1"
    using L P put_object_mono [OF _ put] assms(4) by (auto simp: crypto_ok_def intro: grows_trans)
  have t1: "trusted E t1" using g1 t0 by (rule grows_trusted)
  have "tree_holds E t1 fuel er ees"
    using assms(5,7) g0 g1 by (blast intro: tree_holds_mono grows_trans)
  from build_index_set_holds [OF assms(3,4) t1 assms(8) this assms(11,10)] obtain ix2 ns2 es2 where
    g2: "grows E t1 t2" and ns2: "nodes_at E t2 (bt_iter (fmap_of_list nes ++\<^sub>f added)) ns2"
    and es2: "edges_at E t2 ees es2" and ic2: "index_canonical E ix2 ns2 es2"
    and put2: "outcome (put_object E (ser_index_set ix2)) = Inr cid2" by blast
  have gt: "grows E t0 t2" using g1 g2 by (rule grows_trans)
  have e: "es2 = es" using edges_at_unique [OF es2 edges_at_mono [OF es gt t0]] .
  let ?P = "\<lambda>k. fmlookup added k = None"
  have st: "strict_keys nes" using assms(6) by (rule trees.holds_strict)
  have fl1: "filter (\<lambda>x. ?P (fst x)) (bt_iter (fmap_of_list nes ++\<^sub>f added)) = nes"
    using new st by (rule bt_iter_add_filter(1))
  have fl2: "filter (\<lambda>x. \<not> ?P (fst x)) (bt_iter (fmap_of_list nes ++\<^sub>f added)) = bt_iter added"
    using new st by (rule bt_iter_add_filter(2))
  have f1: "filter (\<lambda>x. ?P (fst x)) ns2 = ns"
    by (rule nodes_at_unique [OF nodes_at_filter [OF ns2, of ?P, unfolded fl1]
          nodes_at_mono [OF ns gt t0]])
  have f2: "filter (\<lambda>x. \<not> ?P (fst x)) ns2 = ans"
    by (rule nodes_at_unique [OF nodes_at_filter [OF ns2, of "\<lambda>k. \<not> ?P k", unfolded fl2]
          nodes_at_mono [OF ans gt t0]])
  obtain rows2 where rows2: "prop_rows E ns2 = Inr rows2"
    and pr2: "tree_roots E (\<lambda>(l, p). group_get (is_nodes_by_prop ix2) l p) rows2"
    using ic2 by (auto simp: index_canonical_def)
  have dj: "disjoint_rows rows arows"
    using disj [OF nodes_at_mono [OF ns g1 t0] nodes_at_mono [OF ans g1 t0]] rows arows
    by (simp add: props_disjoint_def)
  have rp: "row_of (rows @ arows) g k = row_of rows2 g k" for g k
    using prop_rows_partition [OF rows2, of "\<lambda>x. ?P (fst x)"] f1 f2 rows arows dj by simp
  have rl: "row_of (label_rows ns @ label_rows ans) g k = row_of (label_rows ns2) g k" for g k
    using label_rows_partition [of ns2 g k ?P] f1 f2 by simp
  let ?ix = "\<lparr>is_nodes_by_label = labels, is_nodes_by_prop = props,
      is_outgoing = is_outgoing base, is_incoming = is_incoming base, is_extra = is_extra base\<rparr>"
  have "no_empty_group props"
    using p ic by (auto simp: index_canonical_def intro: append_no_empty)
  then have "index_canonical E ?ix ns2 es"
    using ic rows2 tree_roots_cong [OF conjunct2 [OF L] rl] tree_roots_cong [OF conjunct2 [OF P] rp]
    by (simp add: index_canonical_def case_prod_unfold)
  then have "?ix = ix2" using ic2 unfolding e by (rule index_canonical_unique)
  with put2 outcomeD [OF store_free_put_object put] show ?thesis by simp
qed

section \<open>The update only adds blocks\<close>

lemma rebuild_subtree_grows:
  assumes "crypto_ok E"
  shows "preserves (grows E) (rebuild_subtree_with_additions E fuel sub additions)"
proof -
  note b = build_tree_grows [OF conjunct1 [OF assms [unfolded crypto_ok_def]]]
  show ?thesis
    unfolding rebuild_subtree_with_additions_def
    by (cases sub) (auto intro!: preserve_intros b)
qed

lemma incremental_append_grows:
  assumes "crypto_ok E"
  shows "preserves (grows E) (incremental_append_indexes E fuel base added)"
proof -
  have "collision_free E" using assms by (simp add: crypto_ok_def)
  then show ?thesis
    unfolding incremental_append_indexes_def case_prod_unfold
    by (intro preserve_intros rebuild_subtree_grows [OF assms])
qed

end
