(* ===== verification/Table_Instance.thy ===== *)
theory Table_Instance imports Instance Prolly_Map begin

text \<open>
  Concrete stores over the table instance \<open>tE\<close>: \<open>table_store ns\<close> holds the blocks of the numbers \<open>ns\<close>, each
  under its own number. It is \<open>trusted\<close>, and a leaf chunk in it is the tree of its entries.
\<close>

definition table_store :: "nat list \<Rightarrow> (nat, nat) store" where
  "table_store ns = fmap_of_list (map (\<lambda>n. (n, n)) ns)"

lemma table_store_get: "bs_get (table_store ns) c = (if c \<in> set ns then Some c else None)"
proof -
  have "map_of (map (\<lambda>n. (n, n)) ns) c = (if c \<in> set ns then Some c else None)"
    by (induction ns) auto
  then show ?thesis by (simp add: bs_get_def table_store_def fmlookup_of_list)
qed

lemma table_block_cid [simp]: "block_cid (tE table) b = b"
  by (simp add: block_cid_def tE_def)

lemma table_store_trusted [simp]: "trusted (tE table) (table_store ns)"
  by (simp add: trusted_def table_store_get)

lemma crypto_table [simp]: "crypto_ok (tE table)"
  by (simp add: crypto_ok_def)

lemma table_decode:
  "decode_from_store (tE table) de (table_store ns) c =
     (if c \<in> set ns then
        if c < length table then (case de (table ! c) of Inl e \<Rightarrow> Inl (Codec e) | Inr x \<Rightarrow> Inr x)
        else Inl (Codec Decode)
      else Inl (Store (NotFound c)))"
  by (simp add: decode_from_store_def table_store_get from_canonical_bytes_def tE_def)

lemma table_leaf_holds:
  assumes "c \<in> set ns" and "c < length table" and "table ! c = ser_tree (Leaf (leaf_new es))"
    and "strict_keys es" and "length es + 2 \<le> fuel"
  shows "tree_holds (tE table) (table_store ns) fuel c es"
proof -
  have "de_tree (ser_tree (Leaf (leaf_new es))) = Inr (Leaf (leaf_new es))" for es :: "(prolly_key \<times> nat) list"
    by (rule de_ser_tree) (simp add: leaf_new_def list_all_iff extra_ok_def)
  then have "load_tree_chunk (tE table) (table_store ns) c = Inr (Leaf (leaf_new es))"
    using assms(1,2) by (simp add: load_tree_chunk_decode table_decode assms(3) del: ser_tree.simps)
  then have "represents (tE table) (table_store ns) c (PLeaf es)"
    by (rule rep_leaf) (simp add: leaf_new_def)
  then show ?thesis
    using assms(4,5) by (auto simp: tree_holds_def enough_fuel_def)
qed

end
