(* ===== verification/Index_Props.thy ===== *)
theory Index_Props imports Index_Readers Index_Append Table_Instance begin

text \<open>
  The properties of the secondary indexes, builder and readers together, and of their append-only update.
\<close>

text \<open>The witnesses' repository: two nodes of one label, one of them with a property, and an edge between them.\<close>

definition xnode1 :: "nat node" where
  "xnode1 = node_with_prop (node_new 1 ''Person'') ''name'' (IString ''a'')"

definition xnode2 :: "nat node" where
  "xnode2 = node_new 2 ''Person''"

definition xnode3 :: "nat node" where
  "xnode3 = node_with_prop (node_new 3 ''Person'') ''name'' (IString ''b'')"

definition xedge :: "nat edge" where
  "xedge = edge_new 9 ''knows'' 1 2"

definition xleaf :: "(prolly_key \<times> nat) list \<Rightarrow> nat ipld" where
  "xleaf es = ser_tree (Leaf (leaf_new es))"

definition xhash :: "nat \<Rightarrow> prolly_key" where
  "xhash n = of_nat n * 2 ^ 120"

definition xindex :: "nat \<Rightarrow> nat \<Rightarrow> nat index_set" where
  "xindex labels props = \<lparr>is_nodes_by_label = fmap_of_list [(''Person'', labels)],
     is_nodes_by_prop = fmap_of_list [(''Person'', fmap_of_list [(''name'', props)])],
     is_outgoing = Some 8, is_incoming = Some 10, is_extra = fmempty\<rparr>"

definition xtable :: "nat ipld list" where
  "xtable =
     [ser_node xnode1, ser_node xnode2, ser_edge xedge,
      xleaf [(1, 0), (2, 1)], xleaf [(9, 2)], xleaf [(xhash 97, 0)], IString ''a'',
      ser_adjacency_bucket (outgoing_bucket [\<lparr>ae_label = ''knows'', ae_edge = 2\<rparr>]), xleaf [(1, 7)],
      ser_incoming_bucket (incoming_bucket_of [\<lparr>ie_label = ''knows'', ie_src = 1, ie_edge = 2\<rparr>]), xleaf [(2, 9)],
      ser_index_set (xindex 3 5),
      ser_node xnode3, IString ''b'', xleaf [(1, 0), (2, 1), (3, 12)], xleaf [(xhash 97, 0), (xhash 98, 12)],
      ser_index_set (xindex 14 15)]"

abbreviation "xE \<equiv> tE xtable"

abbreviation "xnodes \<equiv> [(1, 0), (2, 1)]"
abbreviation "xedges \<equiv> [(9, 2)]"

abbreviation "xstore \<equiv> table_store [0, 1, 2, 3, 4, 12]"

definition isOK :: "'e + 'a \<Rightarrow> bool" where
  "isOK r \<longleftrightarrow> (case r of Inl e \<Rightarrow> False | Inr x \<Rightarrow> True)"

lemma xrun: "fst (build_index_set xE 10 3 4 xstore) = Inr 11"
  by code_simp

lemma xbuilt: obtains t where "build_index_set xE 10 3 4 xstore = (Inr 11, t)"
  using xrun by (cases "build_index_set xE 10 3 4 xstore") auto

lemma xtrees: "tree_holds xE xstore 10 3 xnodes" "tree_holds xE xstore 10 4 xedges"
  by (rule table_leaf_holds; simp add: xtable_def xleaf_def strict_keys_def)+

lemma xnodes_ok: "node_ok xnode1" "node_ok xnode2" "node_ok xnode3" "edge_ok xedge"
  by (simp_all add: node_ok_def edge_ok_def xnode1_def xnode2_def xnode3_def xedge_def node_new_def edge_new_def
      node_with_prop_def extra_ok_def list_all_iff)

lemma xrows:
  assumes g: "grows xE (table_store ns) u" and ns: "{0, 1, 2} \<subseteq> set ns"
  shows "nodes_at xE u xnodes [(1, 0, xnode1), (2, 1, xnode2)]" and "edges_at xE u xedges [(2, xedge)]"
proof -
  note mono = decode_from_store_mono [OF _ g table_store_trusted]
  have "decode_from_store xE de_node u 0 = Inr xnode1"
    by (rule mono) (use ns in \<open>simp add: table_decode xtable_def de_ser_node xnodes_ok\<close>)
  moreover have "decode_from_store xE de_node u 1 = Inr xnode2"
    by (rule mono) (use ns in \<open>simp add: table_decode xtable_def de_ser_node xnodes_ok\<close>)
  ultimately show "nodes_at xE u xnodes [(1, 0, xnode1), (2, 1, xnode2)]"
    by (simp add: nodes_at_def)
  have "decode_from_store xE de_edge u 2 = Inr xedge"
    by (rule mono) (use ns in \<open>simp add: table_decode xtable_def de_ser_edge xnodes_ok\<close>)
  then show "edges_at xE u xedges [(2, xedge)]"
    by (simp add: edges_at_def)
qed

section \<open>The readers after a build\<close>

text \<open>C10 (\<open>index/build.rs\<close>, \<open>index/resolve.rs\<close>). After \<open>build_index_set\<close> on a node tree and an edge tree, the index
  set decodes and \<open>lookup_by_prop\<close> on it returns: a hit is a node of the tree with the label and exactly the
  property value asked for, and nothing is missed, unless the 16-byte value hash collides for that label and
  property.\<close>

theorem property_lookup_after_build:
  assumes "build_index_set E fuel nr er s = (Inr cid, t)" and "crypto_ok E" and "trusted E s"
    and "tree_holds E s fuel nr nes" and "tree_holds E s fuel er ees"
    and "length nes + 2 \<le> n" and "length ees + 2 \<le> n" and "prop_value_hash E v = Inr h"
  shows "\<exists>ix ns r. decode_from_store E de_index_set t cid = Inr ix \<and> nodes_at E t nes ns \<and>
    lookup_by_prop E t n ix l p v = Inr r \<and>
    (\<forall>c x. r = Some (c, x) \<longrightarrow> (\<exists>k. (k, c, x) \<in> set ns) \<and> has_prop x l p v) \<and>
    ((\<forall>(k, c, x) \<in> set ns. \<forall>v'. has_prop x l p v' \<and> prop_value_hash E v' = Inr h \<longrightarrow> v' = v) \<longrightarrow>
      (r = None \<longleftrightarrow> (\<forall>(k, c, x) \<in> set ns. \<not> has_prop x l p v)))"
proof -
  obtain ix ns es where b: "decode_from_store E de_index_set t cid = Inr ix" "nodes_at E t nes ns"
    "index_holds E t n ix ns es"
    using build_index_set_holds [OF assms(1-7)] by blast
  from lookup_by_prop_correct [OF b(3) assms(8) b(2), of l p] b(1,2) show ?thesis by blast
qed

theorem property_lookup_after_build_witness:
  "\<exists>t ix r. build_index_set xE 10 3 4 xstore = (Inr 11, t) \<and> decode_from_store xE de_index_set t 11 = Inr ix \<and>
     lookup_by_prop xE t 10 ix ''Person'' ''name'' (IString ''a'') = Inr r"
proof -
  obtain t where run: "build_index_set xE 10 3 4 xstore = (Inr 11, t)" by (rule xbuilt)
  have "isOK (prop_value_hash xE (IString ''a''))" by code_simp
  then obtain h where "prop_value_hash xE (IString ''a'') = Inr h" by (auto simp: isOK_def split: sum.splits)
  from property_lookup_after_build [OF run crypto_table table_store_trusted xtrees _ _ this, of 10 "''Person''" "''name''"] run
  show ?thesis by auto
qed

text \<open>C11 (\<open>index/adjacency.rs\<close>). After a build, the readers of the adjacency indexes return the edges of the edge
  tree that leave a node (\<open>load_outgoing\<close>) or enter it (\<open>load_incoming\<close>) with one of the wanted labels, sorted by
  label, source and CID, cut at \<open>cap\<close> with the flag saying whether something was cut.\<close>

theorem adjacency_after_build:
  assumes "build_index_set E fuel nr er s = (Inr cid, t)" and "crypto_ok E" and "trusted E s"
    and "tree_holds E s fuel nr nes" and "tree_holds E s fuel er ees"
    and "length nes + 2 \<le> n" and "length ees + 2 \<le> n" and "want \<noteq> {}"
  shows "\<exists>ix es. decode_from_store E de_index_set t cid = Inr ix \<and> edges_at E t ees es \<and>
    load_outgoing E t n (Some ix) v want cap =
      Inr (take cap (edges_from es v want), cap < length (edges_from es v want)) \<and>
    load_incoming E t n (Some ix) v want cap =
      Inr (take cap (edges_to es v want), cap < length (edges_to es v want))"
proof -
  obtain ix ns es where b: "decode_from_store E de_index_set t cid = Inr ix" "edges_at E t ees es"
    "index_holds E t n ix ns es"
    using build_index_set_holds [OF assms(1-7)] by blast
  from load_outgoing_correct [OF b(3) assms(8) b(2)] load_incoming_correct [OF b(3) assms(8) b(2)] b(1,2)
  show ?thesis by blast
qed

theorem adjacency_after_build_witness:
  "\<exists>t ix. build_index_set xE 10 3 4 xstore = (Inr 11, t) \<and> decode_from_store xE de_index_set t 11 = Inr ix \<and>
     load_outgoing xE t 10 (Some ix) 1 {''knows''} 5 = Inr ([xedge], False)"
proof -
  obtain t where run: "build_index_set xE 10 3 4 xstore = (Inr 11, t)" by (rule xbuilt)
  obtain ix es where b: "decode_from_store xE de_index_set t 11 = Inr ix" "edges_at xE t xedges es"
    "load_outgoing xE t 10 (Some ix) 1 {''knows''} 5 =
      Inr (take 5 (edges_from es 1 {''knows''}), 5 < length (edges_from es 1 {''knows''}))"
    using adjacency_after_build [OF run crypto_table table_store_trusted xtrees, of 10 "{''knows''}" 1 5] by auto
  have "grows xE xstore t"
    using build_index_set_holds [OF run crypto_table table_store_trusted xtrees, of 10] by simp
  then have "edges_at xE t xedges [(2, xedge)]" by (rule xrows) simp
  with b(2) have "es = [(2, xedge)]" by (rule edges_at_unique)
  moreover have "edges_from [(2, xedge)] 1 {''knows''} = [xedge]"
    by (simp add: edges_from_def xedge_def edge_new_def)
  ultimately show ?thesis using run b(1,3) by simp
qed

section \<open>Determinism\<close>

text \<open>Also (\<open>build_index_set\<close>). The CID of the index set depends only on the nodes and edges: two builds, on any two
  stores and whatever the shape of the trees they start from, that read the same nodes and edges return the
  same CID.\<close>

theorem index_build_deterministic:
  assumes "build_index_set E fuel nr er s = (Inr cid, t)" and "build_index_set E fuel' nr' er' s' = (Inr cid', t')"
    and "crypto_ok E" and "trusted E s" and "trusted E s'"
    and "tree_holds E s fuel nr nes" and "tree_holds E s fuel er ees"
    and "tree_holds E s' fuel' nr' nes" and "tree_holds E s' fuel' er' ees"
    and "nodes_at E t nes ns" and "nodes_at E t' nes ns" and "edges_at E t ees es" and "edges_at E t' ees es"
  shows "cid = cid'"
  using assms by (rule build_index_set_deterministic)

theorem index_build_deterministic_witness:
  "\<exists>t t'. build_index_set xE 10 3 4 xstore = (Inr 11, t) \<and>
     build_index_set xE 10 3 4 (table_store [4, 3, 2, 1, 0]) = (Inr 11, t')"
proof -
  let ?s = "table_store [4, 3, 2, 1, 0]"
  obtain t where run: "build_index_set xE 10 3 4 xstore = (Inr 11, t)" by (rule xbuilt)
  have tr: "tree_holds xE ?s 10 3 xnodes" "tree_holds xE ?s 10 4 xedges"
    by (rule table_leaf_holds; simp add: xtable_def xleaf_def strict_keys_def)+
  have "isOK (fst (build_index_set xE 10 3 4 ?s))" by code_simp
  then obtain c t' where run': "build_index_set xE 10 3 4 ?s = (Inr c, t')"
    by (cases "build_index_set xE 10 3 4 ?s") (auto simp: isOK_def split: sum.splits)
  have g: "grows xE xstore t" "grows xE ?s t'"
    using build_index_set_holds [OF run crypto_table table_store_trusted xtrees, of 10]
      build_index_set_holds [OF run' crypto_table table_store_trusted tr, of 10] by simp_all
  have "11 = c"
    by (rule index_build_deterministic [OF run run' crypto_table table_store_trusted table_store_trusted xtrees tr
          xrows(1) [OF g(1)] xrows(1) [OF g(2)] xrows(2) [OF g(1)] xrows(2) [OF g(2)]]) simp_all
  with run run' show ?thesis by blast
qed

section \<open>The append-only update\<close>

text \<open>C12 (\<open>incremental_append_indexes\<close>). Updating the index set of a base commit for added nodes gives the CID a full
  rebuild on the merged trees gives, when the added nodes are new and no added node has a (label, property,
  value hash) in common with an old one.\<close>

theorem incremental_equals_rebuild:
  assumes "build_index_set E fuel nr er s = (Inr base_cid, t0)"
    and "incremental_append_indexes E fuel base_cid added t0 = (Inr cid1, t1)"
    and "build_index_set E fuel nr' er t1 = (Inr cid2, t2)"
    and "crypto_ok E" and "trusted E s"
    and "tree_holds E s fuel nr nes" and "tree_holds E s fuel er ees"
    and "tree_holds E t1 fuel nr' (bt_iter (fmap_of_list nes ++\<^sub>f added))"
    and "length nes + 2 \<le> fuel" and "length ees + 2 \<le> fuel"
    and "length (bt_iter (fmap_of_list nes ++\<^sub>f added)) + 2 \<le> fuel"
    and "\<And>k. k \<in> fst ` set nes \<Longrightarrow> fmlookup added k = None"
    and "\<And>ns ans. nodes_at E t1 nes ns \<Longrightarrow> nodes_at E t1 (bt_iter added) ans \<Longrightarrow> props_disjoint E ns ans"
  shows "cid1 = cid2"
  using assms by (rule incremental_append_equiv)

lemma xappend_run:
  "fst (sbind (build_index_set xE 10 3 4) (\<lambda>base.
        sbind (incremental_append_indexes xE 10 base (fmap_of_list [(3, 12)])) (\<lambda>incr.
        sbind (build_index_set xE 10 14 4) (\<lambda>full. sret (base, incr, full))))
      (table_store [0, 1, 2, 3, 4, 12, 14])) = Inr (11, 16, 16)"
  by code_simp

theorem incremental_equals_rebuild_witness:
  "\<exists>t0 t1. build_index_set xE 10 3 4 (table_store [0, 1, 2, 3, 4, 12, 14]) = (Inr 11, t0) \<and>
     incremental_append_indexes xE 10 11 (fmap_of_list [(3, 12)]) t0 = (Inr 16, t1) \<and>
     (\<forall>cid t2. build_index_set xE 10 14 4 t1 = (Inr cid, t2) \<longrightarrow> cid = 16)"
proof -
  let ?s = "table_store [0, 1, 2, 3, 4, 12, 14]" and ?add = "fmap_of_list [(3, 12)] :: (node_id, nat) fmap"
  obtain t where "sbind (build_index_set xE 10 3 4) (\<lambda>base.
        sbind (incremental_append_indexes xE 10 base ?add) (\<lambda>incr.
        sbind (build_index_set xE 10 14 4) (\<lambda>full. sret (base, incr, full)))) ?s = (Inr (11, 16, 16), t)"
    by (rule that [OF prod_eqI]) (simp_all only: xappend_run prod.sel)
  then obtain t0 t1 t2 where r0: "build_index_set xE 10 3 4 ?s = (Inr 11, t0)"
    and r1: "incremental_append_indexes xE 10 11 ?add t0 = (Inr 16, t1)"
    and r2: "build_index_set xE 10 14 4 t1 = (Inr 16, t2)"
    unfolding sbind_Inr_iff sret_def by blast
  have tr: "tree_holds xE ?s 10 3 xnodes" "tree_holds xE ?s 10 4 xedges" "tree_holds xE ?s 10 14 (xnodes @ [(3, 12)])"
    by (rule table_leaf_holds; simp add: xtable_def xleaf_def strict_keys_def)+
  have g0: "grows xE ?s t0"
    using build_index_set_holds [OF r0 crypto_table table_store_trusted tr(1,2), of 10] by simp
  have g1: "grows xE ?s t1"
    using g0 preservesD [OF incremental_append_grows [OF crypto_table] r1] by (rule grows_trans)
  have m: "bt_iter (fmap_of_list xnodes ++\<^sub>f ?add) = xnodes @ [(3, 12)]" "bt_iter ?add = [(3, 12)]" by code_simp+
  have nodes: "nodes_at xE t1 xnodes [(1, 0, xnode1), (2, 1, xnode2)]" by (rule xrows(1) [OF g1]) simp
  have new: "nodes_at xE t1 [(3, 12)] [(3, 12, xnode3)]"
    using decode_from_store_mono [OF _ g1 table_store_trusted, of de_node 12 xnode3]
    by (simp add: nodes_at_def table_decode xtable_def de_ser_node xnodes_ok)
  have "prop_rows xE [(1, 0, xnode1), (2, 1, xnode2)] = Inr [((''Person'', ''name''), xhash 97, 0)]"
    "prop_rows xE [(3, 12, xnode3)] = Inr [((''Person'', ''name''), xhash 98, 12)]"
    "xhash 97 \<noteq> xhash 98" by code_simp+
  then have d: "props_disjoint xE [(1, 0, xnode1), (2, 1, xnode2)] [(3, 12, xnode3)]"
    by (simp add: props_disjoint_def disjoint_rows_def)
  have "16 = cid" if "build_index_set xE 10 14 4 t1 = (Inr cid, t2')" for cid t2'
  proof (rule incremental_equals_rebuild [OF r0 r1 that crypto_table table_store_trusted tr(1,2)])
    show "tree_holds xE t1 10 14 (bt_iter (fmap_of_list xnodes ++\<^sub>f ?add))"
      using tree_holds_mono [OF tr(3) g1 table_store_trusted] by (simp only: m)
    show "props_disjoint xE ns ans" if "nodes_at xE t1 xnodes ns" "nodes_at xE t1 (bt_iter ?add) ans" for ns ans
      using d nodes_at_unique [OF nodes that(1)] nodes_at_unique [OF new that(2) [unfolded m]] by simp
    show "length (bt_iter (fmap_of_list xnodes ++\<^sub>f ?add)) + 2 \<le> 10" unfolding m by simp
  qed (auto split: if_splits)
  with r0 r1 show ?thesis by blast
qed

text \<open>Also (\<open>incremental_append_indexes\<close>). Without the second condition the two differ: an added node that shares a
  property value with an old node of a larger id takes over the entry, which a rebuild leaves to the larger id.\<close>

definition ynode :: "node_id \<Rightarrow> nat node" where
  "ynode i = node_with_prop (node_new i ''Person'') ''name'' (IString ''a'')"

definition yindex :: "nat \<Rightarrow> nat \<Rightarrow> nat index_set" where
  "yindex labels props = (xindex labels props)\<lparr>is_outgoing := None, is_incoming := None\<rparr>"

definition ytable :: "nat ipld list" where
  "ytable =
     [ser_node (ynode 2), ser_node (ynode 1), IString ''a'', xleaf [(2, 0)], xleaf [], xleaf [(xhash 97, 0)],
      ser_index_set (yindex 3 5), xleaf [(1, 1), (2, 0)], xleaf [(xhash 97, 1)],
      ser_index_set (yindex 7 8), ser_index_set (yindex 7 5)]"

theorem incremental_differs_from_rebuild:
  "fst (sbind (build_index_set (tE ytable) 10 3 4) (\<lambda>base.
        sbind (incremental_append_indexes (tE ytable) 10 base (fmap_of_list [(1, 1)])) (\<lambda>incr.
        sbind (build_index_set (tE ytable) 10 7 4) (\<lambda>full. sret (incr, full))))
      (table_store [0, 1, 3, 4, 7])) = Inr (9, 10)"
  by code_simp

end
