(* ===== verification/Tree_Merge.thy ===== *)
theory Tree_Merge imports Index_Groups begin

text \<open>
  The two unions of Prolly trees in \<open>crates/mnem-core/src/repo/merge.rs\<close>: \<open>union_prolly_trees\<close> of any number of
  trees, where the largest value wins a key on which they differ, and \<open>strategy_union_prolly_trees\<close> of two, where
  a strategy says which side wins. Both also return the keys in dispute with all candidates.

  The loops over the cursors are \<open>for_entries\<close>; \<open>entry(k).or_default().push(v)\<close> is \<open>group_push\<close>. What they compute
  is stated on the set \<open>candidates\<close> of the values the trees hold for a key.
\<close>

record 'c union_outcome =
  un_root :: 'c
  un_conflicts :: "(prolly_key, 'c list) fmap"

datatype merge_strategy = Manual | Ours | Theirs

section \<open>\<open>union_prolly_trees\<close>\<close>

definition collect_values ::
    "('c, 'h, 'b) external \<Rightarrow> ('c, 'b) store \<Rightarrow> nat \<Rightarrow> 'c list \<Rightarrow> 'c error + (prolly_key, 'c list) fmap" where
  "collect_values E bs fuel roots =
     rfold (\<lambda>root all_values. for_entries E bs fuel root (\<lambda>(k, v) all_values. Inr (group_push k v all_values)) all_values)
       roots fmempty"

definition settle_key ::
    "prolly_key \<times> 'c::linorder list \<Rightarrow> (prolly_key, 'c) fmap \<times> (prolly_key, 'c list) fmap
       \<Rightarrow> 'c error + (prolly_key, 'c) fmap \<times> (prolly_key, 'c list) fmap" where
  "settle_key = (\<lambda>(k, values) (merged, conflicts).
     let values = remdups_adj (sort values) in
     if 1 < length values then Inr (fmupd k (last values) merged, fmupd k values conflicts)
     else case values of
       [] \<Rightarrow> Inl Panic
     | v # _ \<Rightarrow> Inr (fmupd k v merged, conflicts))"

definition union_prolly_trees ::
    "('c::linorder, 'h, 'b) external \<Rightarrow> nat \<Rightarrow> 'c list \<Rightarrow> (('c, 'b) store, 'c error, 'c union_outcome) prog" where
  "union_prolly_trees E fuel roots =
     sbind (sread (\<lambda>bs. collect_values E bs fuel (sort roots))) (\<lambda>all_values.
     sbind (slift (rfold settle_key (bt_iter all_values) (fmempty, fmempty))) (\<lambda>(merged, conflicts).
     sbind (build_tree E (bt_iter merged)) (\<lambda>root. sret \<lparr>un_root = root, un_conflicts = conflicts\<rparr>)))"

section \<open>\<open>strategy_union_prolly_trees\<close>\<close>

definition read_map ::
    "('c, 'h, 'b) external \<Rightarrow> ('c, 'b) store \<Rightarrow> nat \<Rightarrow> 'c \<Rightarrow> 'c error + (prolly_key, 'c) fmap" where
  "read_map E bs fuel root = for_entries E bs fuel root (\<lambda>(k, v) m. Inr (fmupd k v m)) fmempty"

definition merge_key ::
    "merge_strategy \<Rightarrow> (prolly_key, 'c::linorder) fmap \<Rightarrow> (prolly_key, 'c) fmap \<Rightarrow> prolly_key
       \<Rightarrow> (prolly_key, 'c) fmap \<times> (prolly_key, 'c list) fmap \<Rightarrow> (prolly_key, 'c) fmap \<times> (prolly_key, 'c list) fmap" where
  "merge_key strategy left_map right_map k = (\<lambda>(merged, conflicts).
     case (fmlookup left_map k, fmlookup right_map k) of
       (Some l, Some r) \<Rightarrow>
         if l = r then (fmupd k l merged, conflicts)
         else
           let winner = (case strategy of Ours \<Rightarrow> l | Theirs \<Rightarrow> r | Manual \<Rightarrow> if l \<ge> r then l else r) in
           (fmupd k winner merged, fmupd k (remdups_adj (sort [l, r])) conflicts)
     | (Some l, None) \<Rightarrow> (fmupd k l merged, conflicts)
     | (None, Some r) \<Rightarrow> (fmupd k r merged, conflicts)
     | (None, None) \<Rightarrow> (merged, conflicts))"

definition strategy_union_prolly_trees ::
    "('c::linorder, 'h, 'b) external \<Rightarrow> nat \<Rightarrow> 'c \<Rightarrow> 'c \<Rightarrow> merge_strategy
       \<Rightarrow> (('c, 'b) store, 'c error, 'c union_outcome) prog" where
  "strategy_union_prolly_trees E fuel left_root right_root strategy =
     sbind (sread (\<lambda>bs. read_map E bs fuel left_root)) (\<lambda>left_map.
     sbind (sread (\<lambda>bs. read_map E bs fuel right_root)) (\<lambda>right_map.
     let all_keys = sorted_list_of_fset (fmdom left_map |\<union>| fmdom right_map);
         (merged, conflicts) = fold (merge_key strategy left_map right_map) all_keys (fmempty, fmempty) in
     sbind (build_tree E (bt_iter merged)) (\<lambda>root. sret \<lparr>un_root = root, un_conflicts = conflicts\<rparr>)))"

section \<open>What the union of several trees holds\<close>

definition candidates :: "(prolly_key \<times> 'c) list list \<Rightarrow> prolly_key \<Rightarrow> 'c set" where
  "candidates ess k = {v. \<exists>es \<in> set ess. map_of es k = Some v}"

definition union_map :: "(prolly_key \<times> 'c::linorder) list list \<Rightarrow> prolly_key \<Rightarrow> 'c option" where
  "union_map ess k = (if candidates ess k = {} then None else Some (Max (candidates ess k)))"

definition union_conflicts :: "(prolly_key \<times> 'c::linorder) list list \<Rightarrow> prolly_key \<Rightarrow> 'c list option" where
  "union_conflicts ess k = (if 1 < card (candidates ess k) then Some (sorted_list_of_set (candidates ess k)) else None)"

lemma finite_candidates [simp]: "finite (candidates ess k)"
proof -
  have "candidates ess k \<subseteq> snd ` set (concat ess)"
    by (force simp: candidates_def dest: map_of_SomeD)
  then show ?thesis by (rule finite_subset) simp
qed

lemma dedup_sort: "remdups_adj (sort xs) = sorted_list_of_set (set (xs :: 'a::linorder list))"
proof -
  have "sorted_wrt (<) (remdups_adj ys)" if "sorted ys" for ys :: "'a list"
    using that by (induction ys rule: remdups_adj.induct) auto
  then have "sorted_wrt (<) (remdups_adj (sort xs))" by simp
  then show ?thesis by (metis remdups_adj_set set_sort sorted_list_of_set.idem_if_sorted_distinct strict_sorted_iff)
qed

lemma last_Max: "xs \<noteq> [] \<Longrightarrow> sorted xs \<Longrightarrow> last xs = Max (set xs)"
  by (cases xs rule: rev_cases) (auto simp: sorted_append intro!: Max_eqI [symmetric])

lemma collect_values_run:
  assumes "list_all2 (tree_holds E bs fuel) roots ess"
  shows "collect_values E bs fuel roots = Inr (push_all (concat ess) fmempty)"
proof -
  have "rfold (\<lambda>root m. for_entries E bs fuel root (\<lambda>(k, v) m. Inr (group_push k v m)) m) roots m = Inr (push_all (concat ess) m)" for m
    using assms
  proof (induction roots ess arbitrary: m rule: list_all2_induct)
    case (Cons root roots es ess)
    have "for_entries E bs fuel root (\<lambda>(k, v) m. Inr (group_push k v m)) m = Inr (push_all es m)"
      using read_holds_for [OF Cons(1), where f = "\<lambda>(k, v). group_push k v"]
      by (simp add: push_all_def case_prod_unfold)
    with Cons.IH show ?case by (simp add: push_all_def)
  qed (simp add: push_all_def)
  then show ?thesis by (simp add: collect_values_def)
qed

lemma settle_keys:
  assumes "distinct (map fst kvs)" and "\<forall>(k, vs) \<in> set kvs. vs \<noteq> []"
  shows "\<exists>m' c'. rfold settle_key kvs (m, c) = Inr (m', c') \<and>
    (\<forall>k. fmlookup m' k = (case map_of kvs k of None \<Rightarrow> fmlookup m k | Some vs \<Rightarrow> Some (Max (set vs)))) \<and>
    (\<forall>k. fmlookup c' k = (case map_of kvs k of None \<Rightarrow> fmlookup c k
       | Some vs \<Rightarrow> if 1 < card (set vs) then Some (sorted_list_of_set (set vs)) else fmlookup c k))"
  using assms
proof (induction kvs arbitrary: m c)
  case (Cons kv kvs)
  obtain k vs where kv: "kv = (k, vs)" by (cases kv)
  let ?c = "if 1 < card (set vs) then fmupd k (sorted_list_of_set (set vs)) c else c"
  have ne: "vs \<noteq> []" using Cons.prems(2) by (simp add: kv)
  have len: "length (sorted_list_of_set (set vs)) = card (set vs)" by simp
  have "settle_key (k, vs) (m, c) = Inr (fmupd k (Max (set vs)) m, ?c)"
  proof (cases "1 < card (set vs)")
    case True
    have "last (sorted_list_of_set (set vs)) = Max (set vs)"
      using ne last_Max [of "sorted_list_of_set (set vs)"] by simp
    with True len show ?thesis by (simp add: settle_key_def dedup_sort Let_def)
  next
    case False
    then have "card (set vs) = 1" using ne card_gt_0_iff [of "set vs"] by simp
    then obtain v where "set vs = {v}" by (rule card_1_singletonE)
    with False show ?thesis by (simp add: settle_key_def dedup_sort Let_def)
  qed
  moreover have "map_of kvs k = None" using Cons.prems(1) by (simp add: kv map_of_eq_None_iff)
  moreover obtain m' c' where "rfold settle_key kvs (fmupd k (Max (set vs)) m, ?c) = Inr (m', c')"
    "\<forall>j. fmlookup m' j = (case map_of kvs j of None \<Rightarrow> fmlookup (fmupd k (Max (set vs)) m) j | Some vs \<Rightarrow> Some (Max (set vs)))"
    "\<forall>j. fmlookup c' j = (case map_of kvs j of None \<Rightarrow> fmlookup ?c j
       | Some vs \<Rightarrow> if 1 < card (set vs) then Some (sorted_list_of_set (set vs)) else fmlookup ?c j)"
    using Cons.IH [of "fmupd k (Max (set vs)) m" ?c] Cons.prems by (auto simp: kv)
  ultimately show ?case
    by (intro exI [of _ m'] exI [of _ c']) (auto simp: kv split: option.split)
qed simp

text \<open>\<open>merges_to\<close>: the outcome is the canonical root of the tree of a map, with the given conflicts.\<close>

definition merges_to ::
    "('c::linorder, 'h, 'b) external \<Rightarrow> (prolly_key \<Rightarrow> 'c option) \<Rightarrow> (prolly_key \<Rightarrow> 'c list option) \<Rightarrow> 'c union_outcome \<Rightarrow> bool" where
  "merges_to E f g u \<longleftrightarrow>
     (\<exists>m. fmlookup m = f \<and> outcome (build_tree E (bt_iter m)) = Inr (un_root u)) \<and> fmlookup (un_conflicts u) = g"

lemma merges_to_unique: "merges_to E f g u \<Longrightarrow> merges_to E f g u' \<Longrightarrow> u = u'"
proof -
  assume "merges_to E f g u" "merges_to E f g u'"
  then obtain m m' where m: "fmlookup m = f" "outcome (build_tree E (bt_iter m)) = Inr (un_root u)"
    "fmlookup m' = f" "outcome (build_tree E (bt_iter m')) = Inr (un_root u')"
    and c: "fmlookup (un_conflicts u) = fmlookup (un_conflicts u')"
    unfolding merges_to_def by auto
  from m(1,3) have "m = m'" by (intro fmap_ext) simp
  moreover from c have "un_conflicts u = un_conflicts u'" by (intro fmap_ext) simp
  ultimately show "u = u'" using m(2,4) by (cases u; cases u') simp
qed

lemma length_bt_iter_le:
  assumes "fset (fmdom m) \<subseteq> fst ` set es"
  shows "length (bt_iter m) \<le> length es"
proof -
  have "card (fmdom' m) \<le> card (set (map fst es))"
    using assms by (intro card_mono) (auto simp: fmdom'_alt_def)
  also have "\<dots> \<le> length (map fst es)" by (rule card_length)
  finally show ?thesis by (simp add: length_bt_iter)
qed

lemma build_merged:
  assumes "sbind (build_tree E (bt_iter merged)) (\<lambda>root. sret \<lparr>un_root = root, un_conflicts = conflicts\<rparr>) s = (Inr u, t)"
    and "crypto_ok E" and "trusted E s" and "length (bt_iter merged) + 2 \<le> n"
  shows "grows E s t \<and> tree_holds E t n (un_root u) (bt_iter merged) \<and>
    merges_to E (fmlookup merged) (fmlookup conflicts) u"
proof -
  obtain root where b: "build_tree E (bt_iter merged) s = (Inr root, t)"
    and u: "u = \<lparr>un_root = root, un_conflicts = conflicts\<rparr>"
    using assms(1) by (auto simp: monad_simps)
  have "outcome (build_tree E (bt_iter merged)) = Inr root"
    using outcomeD [OF build_tree_store_free b] by simp
  then show ?thesis
    using trees.build_ext [OF assms(2) b] trees.build_holds [OF assms(2,3) strict_keys_bt_iter assms(4) b]
    by (auto simp: u merges_to_def)
qed

lemma union_prolly_trees_run:
  assumes "union_prolly_trees E fuel roots s = (Inr u, t)" and "crypto_ok E" and "trusted E s"
    and "list_all2 (tree_holds E s fuel) (sort roots) ess" and "length (concat ess) + 2 \<le> n"
  shows "grows E s t \<and> merges_to E (union_map ess) (union_conflicts ess) u \<and>
    (\<exists>m. fmlookup m = union_map ess \<and> tree_holds E t n (un_root u) (bt_iter m))"
proof -
  let ?A = "push_all (concat ess) fmempty"
  have strict: "strict_keys es" if "es \<in> set ess" for es
    using assms(4) that trees.holds_strict by (fastforce simp: list_all2_conv_all_nth in_set_conv_nth)
  have vals: "set (map snd (filter (\<lambda>r. fst r = k) (concat ess))) = candidates ess k" for k
    using strict by (force simp: candidates_def strict_keys_distinct)
  have look: "fmlookup ?A k = (if candidates ess k = {} then None
      else Some (map snd (filter (\<lambda>r. fst r = k) (concat ess))))" for k
  proof -
    have "k \<in> fst ` set (concat ess) \<longleftrightarrow> candidates ess k \<noteq> {}"
      unfolding vals [of k, symmetric] by (force simp: filter_empty_conv)
    then show ?thesis by (simp add: push_all_lookup)
  qed
  have ne: "\<forall>(k, vs) \<in> set (bt_iter ?A). vs \<noteq> []"
    by (force simp: set_bt_iter push_all_lookup filter_empty_conv split: if_splits)
  obtain merged conflicts where st: "rfold settle_key (bt_iter ?A) (fmempty, fmempty) = Inr (merged, conflicts)"
    and m: "\<And>k. fmlookup merged k = (case fmlookup ?A k of None \<Rightarrow> None | Some vs \<Rightarrow> Some (Max (set vs)))"
    and c: "\<And>k. fmlookup conflicts k = (case fmlookup ?A k of None \<Rightarrow> None
       | Some vs \<Rightarrow> if 1 < card (set vs) then Some (sorted_list_of_set (set vs)) else None)"
    using settle_keys [OF strict_keys_distinct [OF strict_keys_bt_iter] ne, of fmempty fmempty, unfolded fmempty_lookup map_of_sorted_list] by blast
  have m': "fmlookup merged = union_map ess"
    by (rule ext) (simp add: m look union_map_def vals del: set_map)
  have c': "fmlookup conflicts = union_conflicts ess"
    by (rule ext) (auto simp: c look union_conflicts_def vals simp del: set_map)
  have "fset (fmdom merged) \<subseteq> fst ` set (concat ess)"
  proof
    fix k assume "k \<in> fset (fmdom merged)"
    then have "union_map ess k \<noteq> None" using m' by (auto simp: fmlookup_dom_iff)
    then show "k \<in> fst ` set (concat ess)"
      unfolding union_map_def vals [of k, symmetric] by (force split: if_splits)
  qed
  then have "length (bt_iter merged) + 2 \<le> n" using length_bt_iter_le [of merged "concat ess"] assms(5) by simp
  moreover have "sbind (build_tree E (bt_iter merged)) (\<lambda>root. sret \<lparr>un_root = root, un_conflicts = conflicts\<rparr>) s = (Inr u, t)"
    using assms(1) unfolding union_prolly_trees_def sbind_sread collect_values_run [OF assms(4)] sum.case st
    by simp
  ultimately show ?thesis
    using build_merged [OF _ assms(2,3), of merged conflicts u t n] m' c' by auto
qed

section \<open>What the strategy union holds\<close>

fun pick :: "merge_strategy \<Rightarrow> 'c::linorder \<Rightarrow> 'c \<Rightarrow> 'c" where
  "pick Ours l r = l"
| "pick Theirs l r = r"
| "pick Manual l r = max l r"

definition strategy_map ::
    "merge_strategy \<Rightarrow> (prolly_key \<Rightarrow> 'c::linorder option) \<Rightarrow> (prolly_key \<Rightarrow> 'c option) \<Rightarrow> prolly_key \<Rightarrow> 'c option" where
  "strategy_map strategy l r k =
     (case (l k, r k) of
        (Some a, Some b) \<Rightarrow> Some (if a = b then a else pick strategy a b)
      | (Some a, None) \<Rightarrow> Some a
      | (None, b) \<Rightarrow> b)"

definition strategy_conflicts ::
    "(prolly_key \<Rightarrow> 'c::linorder option) \<Rightarrow> (prolly_key \<Rightarrow> 'c option) \<Rightarrow> prolly_key \<Rightarrow> 'c list option" where
  "strategy_conflicts l r k =
     (case (l k, r k) of (Some a, Some b) \<Rightarrow> if a = b then None else Some (sorted_list_of_set {a, b}) | _ \<Rightarrow> None)"

lemma read_map_run: "tree_holds E bs fuel root es \<Longrightarrow> read_map E bs fuel root = Inr (fmap_of_list es)"
  unfolding read_map_def by (rule for_entries_insert)

lemma merge_keys:
  assumes "distinct ks"
  shows "\<exists>m' c'. fold (merge_key st lm rm) ks (m, c) = (m', c') \<and>
    (\<forall>k. fmlookup m' k = (if k \<in> set ks \<and> strategy_map st (fmlookup lm) (fmlookup rm) k \<noteq> None
       then strategy_map st (fmlookup lm) (fmlookup rm) k else fmlookup m k)) \<and>
    (\<forall>k. fmlookup c' k = (if k \<in> set ks \<and> strategy_conflicts (fmlookup lm) (fmlookup rm) k \<noteq> None
       then strategy_conflicts (fmlookup lm) (fmlookup rm) k else fmlookup c k))"
  using assms
proof (induction ks arbitrary: m c)
  case (Cons k ks)
  have two: "remdups_adj (sort [a, b]) = sorted_list_of_set {a, b}" for a b :: 'a
    by (simp only: dedup_sort list.set)
  have win: "(case st of Ours \<Rightarrow> a | Theirs \<Rightarrow> b | Manual \<Rightarrow> if a \<ge> b then a else b) = pick st a b" for a b :: 'a
    by (cases st) (auto simp: max_def)
  obtain m1 c1 where st: "merge_key st lm rm k (m, c) = (m1, c1)" by fastforce
  have 1: "fmlookup m1 j = (if j = k \<and> strategy_map st (fmlookup lm) (fmlookup rm) k \<noteq> None
      then strategy_map st (fmlookup lm) (fmlookup rm) k else fmlookup m j)"
    "fmlookup c1 j = (if j = k \<and> strategy_conflicts (fmlookup lm) (fmlookup rm) k \<noteq> None
      then strategy_conflicts (fmlookup lm) (fmlookup rm) k else fmlookup c j)" for j
    using st unfolding merge_key_def two win
    by (auto simp: strategy_map_def strategy_conflicts_def Let_def split: option.splits if_splits)
  from Cons.IH [of m1 c1] Cons.prems obtain m' c' where
    "fold (merge_key st lm rm) ks (m1, c1) = (m', c')"
    "\<forall>j. fmlookup m' j = (if j \<in> set ks \<and> strategy_map st (fmlookup lm) (fmlookup rm) j \<noteq> None
       then strategy_map st (fmlookup lm) (fmlookup rm) j else fmlookup m1 j)"
    "\<forall>j. fmlookup c' j = (if j \<in> set ks \<and> strategy_conflicts (fmlookup lm) (fmlookup rm) j \<noteq> None
       then strategy_conflicts (fmlookup lm) (fmlookup rm) j else fmlookup c1 j)" by auto
  then show ?case by (intro exI [of _ m'] exI [of _ c']) (auto simp: st 1)
qed simp

lemma strategy_union_run:
  assumes "strategy_union_prolly_trees E fuel lroot rroot st s = (Inr u, t)" and "crypto_ok E" and "trusted E s"
    and "tree_holds E s fuel lroot les" and "tree_holds E s fuel rroot res" and "length les + length res + 2 \<le> n"
  shows "grows E s t \<and> merges_to E (strategy_map st (map_of les) (map_of res)) (strategy_conflicts (map_of les) (map_of res)) u \<and>
    (\<exists>m. fmlookup m = strategy_map st (map_of les) (map_of res) \<and> tree_holds E t n (un_root u) (bt_iter m))"
proof -
  let ?ks = "sorted_list_of_fset (fmdom (fmap_of_list les) |\<union>| fmdom (fmap_of_list res))"
  have ks: "distinct ?ks" "set ?ks = fst ` set (les @ res)"
    by (auto simp: sorted_list_of_fset.rep_eq fset_of_list.rep_eq)
  obtain merged conflicts where
    f: "fold (merge_key st (fmap_of_list les) (fmap_of_list res)) ?ks (fmempty, fmempty) = (merged, conflicts)"
    and m: "\<And>k. fmlookup merged k = (if k \<in> set ?ks \<and> strategy_map st (map_of les) (map_of res) k \<noteq> None
       then strategy_map st (map_of les) (map_of res) k else None)"
    and c: "\<And>k. fmlookup conflicts k = (if k \<in> set ?ks \<and> strategy_conflicts (map_of les) (map_of res) k \<noteq> None
       then strategy_conflicts (map_of les) (map_of res) k else None)"
    using merge_keys [OF ks(1), of st "fmap_of_list les" "fmap_of_list res" fmempty fmempty,
        unfolded fmempty_lookup fmap_of_list.rep_eq] by blast
  have out: "k \<notin> set ?ks \<Longrightarrow> map_of les k = None \<and> map_of res k = None" for k
    unfolding ks(2) map_of_eq_None_iff by auto
  have m': "fmlookup merged = strategy_map st (map_of les) (map_of res)"
    by (rule ext) (use out in \<open>auto simp: m strategy_map_def\<close>)
  have c': "fmlookup conflicts = strategy_conflicts (map_of les) (map_of res)"
    by (rule ext) (use out in \<open>auto simp: c strategy_conflicts_def\<close>)
  have "fset (fmdom merged) \<subseteq> fst ` set (les @ res)"
    unfolding ks(2) [symmetric] by (auto simp: fmlookup_dom_iff m split: if_splits)
  then have "length (bt_iter merged) + 2 \<le> n" using length_bt_iter_le [of merged "les @ res"] assms(6) by simp
  moreover have "sbind (build_tree E (bt_iter merged)) (\<lambda>root. sret \<lparr>un_root = root, un_conflicts = conflicts\<rparr>) s = (Inr u, t)"
    using assms(1) f unfolding strategy_union_prolly_trees_def sbind_sread read_map_run [OF assms(4)]
      read_map_run [OF assms(5)] sum.case by simp
  ultimately show ?thesis
    using build_merged [OF _ assms(2,3), of merged conflicts u t n] m' c' by auto
qed

end
