(* ===== verification/Stable.thy ===== *)
theory Stable imports Index Lca begin

text \<open>
  Two processes that work on the same repository see stores of which one may hold more blocks than the other.
  \<open>stable m\<close> says that it makes no difference: if \<open>m\<close> succeeds on a store, then on any store that holds at least
  the same blocks it returns the same value, and the stores it leaves are related in the same way. The property
  is closed under composition, and every operation from the Prolly trees up to the index builder has it.
\<close>

definition store_le :: "('c, 'b) store \<Rightarrow> ('c, 'b) store \<Rightarrow> bool" where
  "store_le s t \<longleftrightarrow> (\<forall>c b. bs_get s c = Some b \<longrightarrow> bs_get t c = Some b)"

definition stable :: "(('c, 'b) store, 'e, 'a) prog \<Rightarrow> bool" where
  "stable m \<longleftrightarrow> (\<forall>s t x s'. m s = (Inr x, s') \<longrightarrow> store_le s t \<longrightarrow> (\<exists>t'. m t = (Inr x, t') \<and> store_le s' t'))"

definition stable_read :: "(('c, 'b) store \<Rightarrow> 'e + 'a) \<Rightarrow> bool" where
  "stable_read f \<longleftrightarrow> (\<forall>s t x. f s = Inr x \<longrightarrow> store_le s t \<longrightarrow> f t = Inr x)"

named_theorems stable_intros \<open>composition rules for stable computations\<close>

lemma store_le_refl [simp]: "store_le s s"
  by (simp add: store_le_def)

lemma store_le_trans: "store_le s t \<Longrightarrow> store_le t u \<Longrightarrow> store_le s u"
  by (auto simp: store_le_def)

lemma grows_store_le: "grows E s t \<Longrightarrow> trusted E s \<Longrightarrow> store_le s t"
  by (simp add: grows_def store_le_def)

lemma stableD: "stable m \<Longrightarrow> m s = (Inr x, s') \<Longrightarrow> store_le s t \<Longrightarrow> \<exists>t'. m t = (Inr x, t') \<and> store_le s' t'"
  unfolding stable_def by blast

lemma stable_readD: "stable_read f \<Longrightarrow> f s = Inr x \<Longrightarrow> store_le s t \<Longrightarrow> f t = Inr x"
  unfolding stable_read_def by blast

section \<open>Composition\<close>

lemma stable_sret [stable_intros]: "stable (sret x)"
  by (simp add: stable_def sret_def)

lemma stable_slift [stable_intros]: "stable (slift r)"
  unfolding stable_def slift_def by blast

lemma stable_sread [stable_intros]: "stable_read f \<Longrightarrow> stable (sread f)"
  unfolding stable_def stable_read_def sread_apply by blast

lemma stable_sbind [stable_intros]:
  assumes "stable m" and "\<And>x. stable (f x)"
  shows "stable (sbind m f)"
  unfolding stable_def
proof (intro allI impI)
  fix s t x s' assume "sbind m f s = (Inr x, s')" and le: "store_le s t"
  then obtain y u where m: "m s = (Inr y, u)" and f: "f y u = (Inr x, s')" by (auto simp: monad_simps)
  obtain v where v: "m t = (Inr y, v)" "store_le u v" using stableD [OF assms(1) m le] by blast
  obtain t' where "f y v = (Inr x, t')" "store_le s' t'" using stableD [OF assms(2) f v(2)] by blast
  with v(1) show "\<exists>t'. sbind m f t = (Inr x, t') \<and> store_le s' t'" by (auto simp: monad_simps)
qed

lemma stable_sfold [stable_intros]:
  assumes "\<And>x acc. stable (f x acc)"
  shows "stable (sfold f xs acc)"
  by (induction xs arbitrary: acc) (auto intro!: stable_intros assms)

lemma stable_put_object [stable_intros]: "stable (put_object E v)"
  by (auto simp: stable_def put_object_run store_le_def bs_get_def split: option.splits)

lemma stable_read_const [stable_intros]: "stable_read (\<lambda>s. r)"
  by (simp add: stable_read_def)

lemma stable_read_rbind [stable_intros]:
  assumes "stable_read f" and "\<And>x. stable_read (\<lambda>s. g s x)"
  shows "stable_read (\<lambda>s. rbind (f s) (g s))"
  unfolding stable_read_def
proof (intro allI impI)
  fix s t x assume "rbind (f s) (g s) = Inr x" and le: "store_le s t"
  then obtain y where "f s = Inr y" "g s y = Inr x" by (auto simp: monad_simps)
  with stable_readD [OF assms(1) _ le] stable_readD [OF assms(2) _ le] show "rbind (f t) (g t) = Inr x" by simp
qed

lemma stable_read_rfold [stable_intros]:
  assumes "\<And>x acc. stable_read (\<lambda>s. f s x acc)"
  shows "stable_read (\<lambda>s. rfold (f s) xs acc)"
  by (induction xs arbitrary: acc) (auto intro!: stable_intros assms)

lemma stable_read_rmap [stable_intros]:
  assumes "\<And>x. stable_read (\<lambda>s. f s x)"
  shows "stable_read (\<lambda>s. rmap (f s) xs)"
  by (induction xs) (auto intro!: stable_intros assms)

lemma stable_decode [stable_intros]: "stable_read (\<lambda>s. decode_from_store E de s c)"
  by (auto simp: stable_read_def decode_from_store_def store_le_def split: option.splits)

lemma stable_load [stable_intros]: "stable_read (\<lambda>s. load_tree_chunk E s c)"
  unfolding load_tree_chunk_decode by (rule stable_decode)

lemma stable_map_err [stable_intros]: "stable_read f \<Longrightarrow> stable_read (\<lambda>s. map_err g (f s))"
  unfolding stable_read_def map_err_Inr by blast

lemma stable_read_if [stable_intros]:
  "(P \<Longrightarrow> stable_read f) \<Longrightarrow> (\<not> P \<Longrightarrow> stable_read g) \<Longrightarrow> stable_read (\<lambda>s. if P then f s else g s)"
  by (cases P) simp_all

lemma stable_if [stable_intros]: "(P \<Longrightarrow> stable m) \<Longrightarrow> (\<not> P \<Longrightarrow> stable n) \<Longrightarrow> stable (if P then m else n)"
  by simp

section \<open>Prolly trees\<close>

lemma stable_lookup [stable_intros]: "stable_read (\<lambda>s. prolly_lookup E s fuel cid key)"
proof (induction fuel arbitrary: cid)
  case 0
  show ?case by (simp add: stable_read_const)
next
  case (Suc fuel)
  show ?case
    unfolding prolly_lookup.simps
  proof (intro stable_intros)
    fix chunk :: "'a tree_chunk"
    show "stable_read (\<lambda>s. case chunk of
       Leaf leaf \<Rightarrow> Inr (map_option (\<lambda>i. snd (lf_entries leaf ! i)) (binary_search key (lf_entries leaf)))
     | Internal internal \<Rightarrow>
         let child_idx = partition_point (\<lambda>b. b \<le> key) (in_boundaries internal) in
         if child_idx < length (in_children internal)
         then prolly_lookup E s fuel (in_children internal ! child_idx) key
         else Inl Panic)"
      by (cases chunk) (auto simp: Let_def intro: stable_read_const stable_read_if Suc.IH)
  qed
qed

lemma descend_le:
  assumes "descend E s fuel cid cu = (Inr (), cu')" and "store_le s t"
  shows "descend E t fuel cid cu = (Inr (), cu')"
  using assms(1)
proof (induction fuel arbitrary: cid cu)
  case (Suc fuel)
  obtain chunk where c: "load_tree_chunk E s cid = Inr chunk" using Suc.prems by (auto split: sum.splits)
  have t: "load_tree_chunk E t cid = Inr chunk" using stable_readD [OF stable_load c assms(2)] .
  show ?case
  proof (cases chunk)
    case (Leaf l)
    with Suc.prems c t show ?thesis by simp
  next
    case (Internal i)
    with Suc.prems c t show ?thesis
      by (cases "in_children i") (simp_all add: Suc.IH)
  qed
qed simp

lemma advance_leaf_le:
  assumes "advance_leaf E s fuel cu = (Inr r, cu')" and "store_le s t"
  shows "advance_leaf E t fuel cu = (Inr r, cu')"
  using assms
proof (induction E s fuel cu rule: advance_leaf.induct)
  case (1 E s fuel cu)
  show ?case
  proof (cases "cu_stack cu")
    case Nil
    with 1 show ?thesis by (simp add: advance_leaf.simps [of E s] advance_leaf.simps [of E t])
  next
    case (Cons f rest)
    obtain internal next_idx where f: "f = (internal, next_idx)" by (cases f)
    show ?thesis
    proof (cases "next_idx < length (in_children internal)")
      case True
      with 1(2) Cons f have d:
        "descend E s fuel (in_children internal ! next_idx) (cu\<lparr>cu_stack := (internal, next_idx + 1) # rest\<rparr>) = (Inr (), cu')"
        and r: "r = True"
        by (simp_all add: advance_leaf.simps [of E s] split: prod.splits sum.splits)
      from descend_le [OF d 1(3)] Cons f True r show ?thesis
        by (simp add: advance_leaf.simps [of E t])
    next
      case False
      with 1(2) Cons f have "advance_leaf E s fuel (cu\<lparr>cu_stack := rest\<rparr>) = (Inr r, cu')"
        by (simp add: advance_leaf.simps [of E s fuel cu])
      from 1(1) [OF Cons f [symmetric] False this 1(3)] Cons f False show ?thesis
        by (simp add: advance_leaf.simps [of E t fuel cu])
    qed
  qed
qed

lemma cursor_next_le:
  assumes "cursor_next E s fuel turns cu = (r, cu')" and "\<forall>e. r \<noteq> Some (Inl e)" and "store_le s t"
  shows "cursor_next E t fuel turns cu = (r, cu')"
  using assms(1)
proof (induction turns arbitrary: cu)
  case 0
  with assms(2) show ?case by simp
next
  case (Suc turns)
  have leaf_done: "(case advance_leaf E t fuel cu of
          (Inr True, cu) \<Rightarrow> cursor_next E t fuel turns cu
        | (Inr False, cu) \<Rightarrow> (None, cu)
        | (Inl e, cu) \<Rightarrow> (Some (Inl e), cu)) = (r, cu')"
    if "(case advance_leaf E s fuel cu of
          (Inr True, cu) \<Rightarrow> cursor_next E s fuel turns cu
        | (Inr False, cu) \<Rightarrow> (None, cu)
        | (Inl e, cu) \<Rightarrow> (Some (Inl e), cu)) = (r, cu')" for cu
  proof -
    obtain q v where a: "advance_leaf E s fuel cu = (q, v)" by fastforce
    with that assms(2) obtain b where q: "q = Inr b" by (cases q) auto
    have "advance_leaf E t fuel cu = (Inr b, v)" using a assms(3) unfolding q by (rule advance_leaf_le)
    with that a q Suc.IH show ?thesis by (cases b) auto
  qed
  show ?case
  proof (cases "cu_current cu")
    case None
    with Suc.prems leaf_done [of cu] show ?thesis by (simp add: Let_def)
  next
    case (Some c)
    obtain leaf idx where c: "c = (leaf, idx)" by (cases c)
    from Suc.prems leaf_done [of "cu\<lparr>cu_current := None\<rparr>"] Some c show ?thesis
      by (cases "idx < length (lf_entries leaf)") (simp_all add: Let_def)
  qed
qed

lemma cursor_for_le:
  assumes "cursor_for E s fuel n (body s) cu acc = Inr r" and "store_le s t"
    and "\<And>x acc. stable_read (\<lambda>s. body s x acc)"
  shows "cursor_for E t fuel n (body t) cu acc = Inr r"
  using assms(1)
proof (induction n arbitrary: cu acc)
  case (Suc n)
  obtain q cu' where nx: "cursor_next E s fuel fuel cu = (q, cu')" by fastforce
  have ok: "\<forall>e. q \<noteq> Some (Inl e)" using Suc.prems nx by auto
  note nt = cursor_next_le [OF nx ok assms(2)]
  show ?case
  proof (cases q)
    case (Some z)
    with ok obtain item where z: "z = Inr item" by (cases z) auto
    with Suc.prems nx Some obtain acc' where b: "body s item acc = Inr acc'"
      and r: "cursor_for E s fuel n (body s) cu' acc' = Inr r" by (auto simp: monad_simps)
    have "body t item acc = Inr acc'" using stable_readD [OF assms(3) b assms(2)] .
    with Suc.IH [OF r] nt Some z show ?thesis by simp
  qed (use Suc.prems nx nt in simp)
qed simp

lemma stable_for_entries [stable_intros]:
  assumes "\<And>x acc. stable_read (\<lambda>s. body s x acc)"
  shows "stable_read (\<lambda>s. for_entries E s fuel root (body s) acc)"
  unfolding stable_read_def
proof (intro allI impI)
  fix s t r assume "for_entries E s fuel root (body s) acc = Inr r" and le: "store_le s t"
  then obtain cu where c: "cursor_new E s fuel root = Inr cu" "cursor_for E s fuel fuel (body s) cu acc = Inr r"
    by (auto simp: for_entries_def monad_simps)
  from c(1) have d: "descend E s fuel root \<lparr>cu_stack = [], cu_current = None\<rparr> = (Inr (), cu)"
    by (simp add: cursor_new_def split: prod.splits sum.splits)
  have "cursor_new E t fuel root = Inr cu"
    using descend_le [OF d le] by (simp add: cursor_new_def)
  with cursor_for_le [where body = body, OF c(2) le assms] show "for_entries E t fuel root (body t) acc = Inr r"
    by (simp add: for_entries_def)
qed

section \<open>Building trees and indexes\<close>

lemma stable_emit_leaf [stable_intros]: "stable (emit_leaf E cur out)"
  unfolding emit_leaf_def by (cases cur) (auto intro!: stable_intros)

lemma stable_leaf_loop [stable_intros]: "stable (leaf_loop E c cur out es)"
proof (induction E c cur out es rule: leaf_loop.induct)
  case (2 E c cur out k v es)
  show ?case
    unfolding leaf_loop.simps Let_def
    by (intro stable_intros 2(1) [OF refl refl] 2(2) [OF refl refl])
qed (simp add: stable_sret)

lemma stable_emit_internal [stable_intros]: "stable (emit_internal E b c f out)"
  unfolding emit_internal_def by (cases f) (auto intro!: stable_intros)

lemma stable_internal_loop [stable_intros]: "stable (internal_loop E c out ch b f es)"
proof (induction es arbitrary: c out ch b f)
  case (Cons e es)
  obtain k v where e: "e = (k, v)" by (cases e)
  show ?case
    unfolding e internal_loop.simps Let_def case_prod_unfold by (intro stable_intros Cons.IH)
qed (simp add: stable_sret)

lemma stable_build_internal [stable_intros]: "stable (build_internal_level E ch)"
  unfolding build_internal_level_def case_prod_unfold by (intro stable_intros)

lemma stable_build_up [stable_intros]: "stable (build_up E current)"
  unfolding stable_def
proof (intro allI impI)
  fix s t x s' assume "build_up E current s = (Inr x, s')" and "store_le s t"
  then show "\<exists>t'. build_up E current t = (Inr x, t') \<and> store_le s' t'"
  proof (induction E current s arbitrary: t rule: build_up.induct)
    case (1 E current s)
    show ?case
    proof (cases "1 < length current")
      case True
      with 1(2) obtain y u where y: "build_internal_level E current s = (Inr y, u)" "build_up E y u = (Inr x, s')"
        by (auto simp: build_up.simps [of E current s] monad_simps)
      obtain v where v: "build_internal_level E current t = (Inr y, v)" "store_le u v"
        using stableD [OF stable_build_internal y(1) 1(3)] by blast
      from 1(1) [OF True y v(2)] v(1) True show ?thesis
        by (auto simp: build_up.simps [of E current t] monad_simps)
    next
      case False
      then have "build_up E current u = sret current u" for u by (simp add: build_up.simps [of E current u])
      with 1(2,3) show ?thesis by (auto simp: sret_def)
    qed
  qed
qed

lemma stable_build_tree [stable_intros]: "stable (build_tree E es)"
  unfolding build_tree_def build_leaf_level_def case_prod_unfold
  by (auto intro!: stable_intros split: list.split)

lemma stable_index_node [stable_intros]: "stable_read (\<lambda>s. index_node E s x acc)"
  unfolding index_node_def case_prod_unfold by (intro stable_intros)

lemma stable_index_edge [stable_intros]: "stable_read (\<lambda>s. index_edge E s x acc)"
  unfolding index_edge_def case_prod_unfold by (intro stable_intros)

lemma stable_build_adjacency [stable_intros]: "stable (build_adjacency E f m)"
  unfolding build_adjacency_def case_prod_unfold by (intro stable_intros)

lemma stable_build_index_set [stable_intros]: "stable (build_index_set E fuel nr er)"
  unfolding build_index_set_def build_label_trees_def build_prop_trees_def case_prod_unfold
  by (intro stable_intros)

section \<open>History walks\<close>

lemma stable_dag_walk [stable_intros]: "stable_read (\<lambda>s. dag_walk parents s {} [c])"
  unfolding stable_read_def
proof (intro allI impI)
  fix s t r assume d: "dag_walk parents s {} [c] = Inr r" and le: "store_le s t"
  show "dag_walk parents t {} [c] = Inr r"
    by (rule dag_walk_mono [OF d]) (use le in \<open>simp add: store_le_def\<close>)
qed

lemma stable_find_lca_many [stable_intros]: "stable_read (\<lambda>s. find_lca_many E s hs)"
  unfolding stable_read_def
proof (intro allI impI)
  fix s t r assume d: "find_lca_many E s hs = Inr r" and le: "store_le s t"
  show "find_lca_many E t hs = Inr r"
    by (rule find_lca_many_mono [OF d]) (use le in \<open>simp add: store_le_def\<close>)
qed

end
