(* ===== verification/Merge_Commit.thy ===== *)
theory Merge_Commit imports Tree_Merge Merge_Refs Stable Object_Store begin

text \<open>
  The merge commits of \<open>crates/mnem-core/src/repo/merge.rs\<close>: \<open>build_merge_commit\<close> for any number of parents and
  \<open>build_merge_commit_from_trees\<close> for two parents whose trees a strategy has merged already, with the parts that
  make them reproducible (the change id is a hash of the parents, the time follows theirs, the description has a
  fixed form), and the lowest common ancestor of two commits.

  \<open>max(times) + 1\<close> is kept at 64 bits and wraps, as a release build does.
\<close>

definition MERGE_AUTHOR :: string where "MERGE_AUTHOR = ''mnem''"
definition MERGE_COMMIT_MESSAGE :: string where "MERGE_COMMIT_MESSAGE = ''mnem merge commit''"

section \<open>Reproducible metadata\<close>

definition ascii_bytes :: "string \<Rightarrow> bytes" where
  "ascii_bytes s = map (\<lambda>c. of_char c) s"

definition deterministic_change_id :: "('c, 'h, 'b) external \<Rightarrow> 'c list \<Rightarrow> 'c error + change_id" where
  "deterministic_change_id E parent_cids =
     (let digest = blake3 E (ascii_bytes ''mnem/merge-change-id/v1'' @ concat (map (cid_bytes E) parent_cids)) in
      ok_or (key_of_bytes (take 16 digest)) Panic)"

fun decimal :: "nat \<Rightarrow> string" where
  "decimal n = (if n < 10 then [char_of (48 + n)] else decimal (n div 10) @ [char_of (48 + n mod 10)])"

declare decimal.simps [simp del]

fun join :: "string \<Rightarrow> string list \<Rightarrow> string" where
  "join sep [] = []"
| "join sep [x] = x"
| "join sep (x # xs) = x @ sep @ join sep xs"

definition describe_merge :: "('c, 'h, 'b) external \<Rightarrow> 'c list \<Rightarrow> string" where
  "describe_merge E heads =
     (let joined = join '' '' (map (cid_string E) heads) in
      ''merge '' @ decimal (length heads) @ '' op-heads: '' @ joined)"

definition max_time :: "u64 list \<Rightarrow> u64" where
  "max_time ts = fold max ts 0"

definition conflict_list :: "(prolly_key, 'c list) fmap \<Rightarrow> 'c ipld" where
  "conflict_list conflicts =
     IList (map (\<lambda>(k, candidates). IMap (fmap_of_list
       [(''key'', IBytes (key_bytes k)), (''candidates'', IList (map ILink candidates))])) (bt_iter conflicts))"

definition conflict_map :: "(prolly_key, 'c list) fmap \<Rightarrow> (prolly_key, 'c list) fmap \<Rightarrow> 'c ipld_map" where
  "conflict_map nodes edges =
     (let m = (if fmdom nodes \<noteq> {||} then fmupd ''nodes'' (conflict_list nodes) fmempty else fmempty) in
      if fmdom edges \<noteq> {||} then fmupd ''edges'' (conflict_list edges) m else m)"

section \<open>The two builders\<close>

definition reuse_indexes :: "'c \<Rightarrow> 'c \<Rightarrow> 'c commit list \<Rightarrow> 'c option" where
  "reuse_indexes merged_nodes merged_edges parents =
     find_map (\<lambda>c. if cm_nodes c = merged_nodes \<and> cm_edges c = merged_edges then cm_indexes c else None) parents"

definition build_merge_commit ::
    "('c::linorder, 'h, 'b) external \<Rightarrow> nat \<Rightarrow> ('c \<times> 'c commit) option list
       \<Rightarrow> (('c, 'b) store, 'c error, 'c option) prog" where
  "build_merge_commit E fuel head_commits =
     (let parents = List.map_filter (\<lambda>c. c) head_commits in
      if parents = [] then sret None
      else if list_all (\<lambda>(cid, _). cid = fst (hd parents)) parents then sret (Some (fst (hd parents)))
      else
        sbind (union_prolly_trees E fuel (map (\<lambda>(_, c). cm_nodes c) parents)) (\<lambda>node_union.
        sbind (union_prolly_trees E fuel (map (\<lambda>(_, c). cm_edges c) parents)) (\<lambda>edge_union.
        let merged_nodes = un_root node_union;
            merged_edges = un_root edge_union;
            parent_pairs = sort_key fst parents;
            merged_schema = cm_schema (snd (hd parent_pairs)) in
        sbind (case reuse_indexes merged_nodes merged_edges (map snd parents) of
            Some cid \<Rightarrow> sret cid
          | None \<Rightarrow> build_index_set E fuel merged_nodes merged_edges) (\<lambda>merged_indexes.
        let merge_time = max_time (map (\<lambda>(_, c). cm_time c) parent_pairs) + 1;
            parent_cids = map fst parent_pairs in
        sbind (slift (deterministic_change_id E parent_cids)) (\<lambda>change_id.
        let commit = (commit_new change_id merged_nodes merged_edges merged_schema MERGE_AUTHOR merge_time
              MERGE_COMMIT_MESSAGE)\<lparr>cm_indexes := Some merged_indexes\<rparr>;
            commit = (if fmdom (un_conflicts node_union) \<noteq> {||} \<or> fmdom (un_conflicts edge_union) \<noteq> {||}
              then commit\<lparr>cm_extra := fmupd ''_merge_conflicts''
                (IMap (conflict_map (un_conflicts node_union) (un_conflicts edge_union))) (cm_extra commit)\<rparr>
              else commit);
            commit = fold (\<lambda>p commit. cm_with_parent commit p) parent_cids commit in
        sbind (put_object E (ser_commit commit)) (\<lambda>cid. sret (Some cid)))))))"

definition build_merge_commit_from_trees ::
    "('c::linorder, 'h, 'b) external \<Rightarrow> nat \<Rightarrow> 'c \<Rightarrow> 'c \<Rightarrow> 'c commit \<Rightarrow> 'c commit \<Rightarrow> 'c \<Rightarrow> 'c
       \<Rightarrow> (('c, 'b) store, 'c error, 'c) prog" where
  "build_merge_commit_from_trees E fuel left_cid right_cid left_commit right_commit merged_nodes merged_edges =
     (let merged_schema = (if left_cid \<le> right_cid then cm_schema left_commit else cm_schema right_commit) in
      sbind (case reuse_indexes merged_nodes merged_edges [left_commit, right_commit] of
          Some cid \<Rightarrow> sret cid
        | None \<Rightarrow> build_index_set E fuel merged_nodes merged_edges) (\<lambda>merged_indexes.
      let merge_time = max (cm_time left_commit) (cm_time right_commit) + 1;
          parent_cids = sort [left_cid, right_cid] in
      sbind (slift (deterministic_change_id E parent_cids)) (\<lambda>change_id.
      let commit = (commit_new change_id merged_nodes merged_edges merged_schema MERGE_AUTHOR merge_time
            MERGE_COMMIT_MESSAGE)\<lparr>cm_indexes := Some merged_indexes\<rparr>;
          commit = fold (\<lambda>p commit. cm_with_parent commit p) parent_cids commit in
      put_object E (ser_commit commit))))"

section \<open>Ancestors of a commit\<close>

definition commit_parents_of :: "('c, 'h, 'b) external \<Rightarrow> 'b \<Rightarrow> 'c error + 'c list" where
  "commit_parents_of E data = rbind (from_canonical_bytes E de_commit data) (\<lambda>c. Inr (cm_parents c))"

definition commit_ancestors_inclusive ::
    "('c, 'h, 'b) external \<Rightarrow> ('c, 'b) store \<Rightarrow> 'c \<Rightarrow> 'c error + 'c set" where
  "commit_ancestors_inclusive E bs cid = dag_walk (commit_parents_of E) bs {} [cid]"

definition find_commit_lca ::
    "('c::linorder, 'h, 'b) external \<Rightarrow> ('c, 'b) store \<Rightarrow> 'c \<Rightarrow> 'c \<Rightarrow> 'c error + 'c option" where
  "find_commit_lca E bs left right =
     (if left = right then Inr (Some left)
      else
        rbind (commit_ancestors_inclusive E bs left) (\<lambda>left_anc.
        rbind (commit_ancestors_inclusive E bs right) (\<lambda>right_anc.
        let common = left_anc \<inter> right_anc in
        if common = {} then Inr None
        else
          rbind (rfold (\<lambda>c strict.
              rbind (commit_ancestors_inclusive E bs c) (\<lambda>anc.
              Inr (strict \<union> {a \<in> anc. a \<noteq> c \<and> a \<in> common}))) (sorted_list_of_set common) {}) (\<lambda>strict.
          case sorted_list_of_set (common - strict) of
            [] \<Rightarrow> Inr None
          | c # _ \<Rightarrow> Inr (Some c)))))"

interpretation commits: ancestry
  "\<lambda>(E, bs) c. commit_ancestors_inclusive E bs c" "\<lambda>(E, bs). parent_of (commit_parents_of E) bs"
  "\<lambda>(E, bs). parents_readable (commit_parents_of E) bs"
  unfolding commit_ancestors_inclusive_def by (rule ancestry_walk)

section \<open>Stability\<close>

lemma stable_union [stable_intros]: "stable (union_prolly_trees E fuel roots)"
  unfolding union_prolly_trees_def collect_values_def case_prod_unfold by (intro stable_intros)

lemma stable_strategy_union [stable_intros]: "stable (strategy_union_prolly_trees E fuel l r st)"
  unfolding strategy_union_prolly_trees_def read_map_def case_prod_unfold Let_def by (intro stable_intros)

lemma stable_case_option [stable_intros]:
  "(\<And>x. stable (f x)) \<Longrightarrow> stable m \<Longrightarrow> stable (case r of Some x \<Rightarrow> f x | None \<Rightarrow> m)"
  by (cases r) simp_all

lemma stable_build_merge_commit [stable_intros]: "stable (build_merge_commit E fuel hcs)"
  unfolding build_merge_commit_def Let_def by (intro stable_intros)

lemma stable_build_from_trees [stable_intros]: "stable (build_merge_commit_from_trees E fuel l r lc rc mn me)"
  unfolding build_merge_commit_from_trees_def Let_def by (intro stable_intros)

lemma stable_find_commit_lca [stable_intros]: "stable_read (\<lambda>s. find_commit_lca E s l r)"
proof -
  have "stable_read (\<lambda>s. case xs of [] \<Rightarrow> Inr None | c # _ \<Rightarrow> Inr (Some c))" for xs :: "'a list"
    by (rule stable_read_const)
  then show ?thesis
    unfolding find_commit_lca_def commit_ancestors_inclusive_def Let_def by (intro stable_intros)
qed

section \<open>The lowest common ancestor of two commits\<close>

definition commit_common :: "('c, 'h, 'b) external \<Rightarrow> ('c, 'b) store \<Rightarrow> 'c list \<Rightarrow> 'c set" where
  "commit_common E bs hs = {a. \<forall>h \<in> set hs. (parent_of (commit_parents_of E) bs)\<^sup>*\<^sup>* h a}"

definition commit_lowest :: "('c, 'h, 'b) external \<Rightarrow> ('c, 'b) store \<Rightarrow> 'c list \<Rightarrow> 'c set" where
  "commit_lowest E bs hs =
     {a \<in> commit_common E bs hs. \<forall>b \<in> commit_common E bs hs. (parent_of (commit_parents_of E) bs)\<^sup>*\<^sup>* b a \<longrightarrow> b = a}"

lemma commits_common [simp]: "commits.common (E, bs) hs = commit_common E bs hs"
  by (simp add: commits.common_def commit_common_def)

lemma commits_lowest [simp]: "commits.lowest (E, bs) hs = commit_lowest E bs hs"
  by (simp add: commits.lowest_def commit_lowest_def)

lemma find_commit_lca_lowest:
  assumes "find_commit_lca E bs left right = Inr r" and "left \<noteq> right"
  shows "r = (case sorted_list_of_set (commit_lowest E bs [left, right]) of [] \<Rightarrow> None | c # _ \<Rightarrow> Some c) \<and>
    finite (commit_common E bs [left, right])"
proof -
  let ?C = "commit_common E bs [left, right]"
  from assms obtain L R where L: "commit_ancestors_inclusive E bs left = Inr L"
    and R: "commit_ancestors_inclusive E bs right = Inr R"
    and r: "(if L \<inter> R = {} then Inr None
        else rbind (rfold (\<lambda>c strict. rbind (commit_ancestors_inclusive E bs c)
            (\<lambda>anc. Inr (strict \<union> {a \<in> anc. a \<noteq> c \<and> a \<in> L \<inter> R}))) (sorted_list_of_set (L \<inter> R)) {})
          (\<lambda>strict. case sorted_list_of_set (L \<inter> R - strict) of [] \<Rightarrow> Inr None | c # _ \<Rightarrow> Inr (Some c))) = Inr r"
    by (auto simp: find_commit_lca_def Let_def rbind_Inr_iff)
  have "rmap (\<lambda>c. commit_ancestors_inclusive E bs c) [left, right] = Inr [L, R]" using L R by simp
  from commits.anc_all [of "(E, bs)" "[left, right]" "[L, R]"] this
  have C: "L \<inter> R = ?C" and fin: "finite ?C" by simp_all
  show ?thesis
  proof (cases "?C = {}")
    case True
    then have "commit_lowest E bs [left, right] = {}" by (auto simp: commit_lowest_def)
    with r C True show ?thesis by simp
  next
    case False
    with r C obtain Y where Y: "rfold (\<lambda>c strict. rbind (commit_ancestors_inclusive E bs c)
            (\<lambda>anc. Inr (strict \<union> {a \<in> anc. a \<noteq> c \<and> a \<in> ?C}))) (sorted_list_of_set ?C) {} = Inr Y"
      and r': "(case sorted_list_of_set (?C - Y) of [] \<Rightarrow> Inr None | c # _ \<Rightarrow> Inr (Some c)) = (Inr r :: 'a error + 'a option)"
      by (auto simp: rbind_Inr_iff)
    have "Y = {a \<in> ?C. \<exists>c \<in> set (sorted_list_of_set ?C). (parent_of (commit_parents_of E) bs)\<^sup>*\<^sup>* c a \<and> a \<noteq> c}"
      using commits.strict_fold [of "(E, bs)" ?C "sorted_list_of_set ?C" "{}" Y] Y by simp
    then have "?C - Y = commit_lowest E bs [left, right]"
      using fin by (auto simp: commit_lowest_def)
    with r' fin show ?thesis by (auto split: list.splits)
  qed
qed

end
