(* ===== verification/Merge_Spec.thy ===== *)
theory Merge_Spec imports Merge_Commit Index_Spec begin

text \<open>
  What a merge commit contains. \<open>ents\<close> gives the entries of the tree of each root the parents name; the commit's
  trees hold the union of them (\<open>union_map\<close>), its parents are the heads in ascending order, its index set is that of
  the merged trees, and the keys the parents disagree on are listed in \<open>extra\<close>.
\<close>

definition roots_hold ::
    "('c, 'h, 'b) external \<Rightarrow> ('c, 'b) store \<Rightarrow> nat \<Rightarrow> ('c \<Rightarrow> (prolly_key \<times> 'c) list) \<Rightarrow> 'c list \<Rightarrow> bool" where
  "roots_hold E s fuel ents roots \<longleftrightarrow>
     (\<forall>r \<in> set roots. tree_holds E s fuel r (ents r)) \<and> length (concat (map ents roots)) + 2 \<le> fuel"

lemma candidates_set: "set ess = set ess' \<Longrightarrow> candidates ess = candidates ess'"
  by (simp add: candidates_def fun_eq_iff)

lemma union_map_set: "set ess = set ess' \<Longrightarrow> union_map ess = union_map ess' \<and> union_conflicts ess = union_conflicts ess'"
  unfolding union_map_def union_conflicts_def fun_eq_iff by (drule candidates_set) simp

lemma union_roots_run:
  assumes "union_prolly_trees E fuel roots s = (Inr u, t)" and "crypto_ok E" and "trusted E s"
    and "roots_hold E s fuel ents roots"
  shows "grows E s t \<and> merges_to E (union_map (map ents roots)) (union_conflicts (map ents roots)) u \<and>
    (\<exists>m. fmlookup m = union_map (map ents roots) \<and> tree_holds E t fuel (un_root u) (bt_iter m))"
proof -
  have l: "list_all2 (tree_holds E s fuel) (sort roots) (map ents (sort roots))"
    using assms(4) by (simp add: roots_hold_def list.rel_map list_all2_same)
  have "mset (map length (map ents (sort roots))) = mset (map length (map ents roots))" by simp
  then have "length (concat (map ents (sort roots))) = length (concat (map ents roots))"
    unfolding length_concat by (metis sum_mset_sum_list)
  then have len: "length (concat (map ents (sort roots))) + 2 \<le> fuel" using assms(4) by (simp add: roots_hold_def)
  have "set (map ents (sort roots)) = set (map ents roots)" by simp
  from union_map_set [OF this] union_prolly_trees_run [OF assms(1-3) l len]
  show ?thesis by (simp only:)
qed

lemma roots_hold_mono: "roots_hold E s fuel ents roots \<Longrightarrow> grows E s t \<Longrightarrow> trusted E s \<Longrightarrow> roots_hold E t fuel ents roots"
  by (auto simp: roots_hold_def intro: tree_holds_mono)

section \<open>The index set of the merge\<close>

definition index_choice ::
    "('c::linorder, 'h, 'b) external \<Rightarrow> nat \<Rightarrow> 'c \<Rightarrow> 'c \<Rightarrow> 'c commit list \<Rightarrow> (('c, 'b) store, 'c error, 'c) prog" where
  "index_choice E fuel nodes edges parents =
     (case reuse_indexes nodes edges parents of Some cid \<Rightarrow> sret cid | None \<Rightarrow> build_index_set E fuel nodes edges)"

text \<open>Either a parent with the same trees has it, or it was built from the merged trees.\<close>

definition indexes_match ::
    "('c::linorder, 'h, 'b) external \<Rightarrow> ('c, 'b) store \<Rightarrow> nat \<Rightarrow> 'c commit list \<Rightarrow> 'c \<Rightarrow> 'c \<Rightarrow> 'c \<Rightarrow> bool" where
  "indexes_match E t fuel parents nodes edges cid \<longleftrightarrow>
     (\<exists>p \<in> set parents. cm_nodes p = nodes \<and> cm_edges p = edges \<and> cm_indexes p = Some cid) \<or>
     (\<exists>nes ees ix ns es. tree_holds E t fuel nodes nes \<and> tree_holds E t fuel edges ees \<and>
        nodes_at E t nes ns \<and> edges_at E t ees es \<and>
        decode_from_store E de_index_set t cid = Inr ix \<and> index_holds E t fuel ix ns es)"

lemma index_choice_run:
  assumes "index_choice E fuel nodes edges parents s = (Inr cid, t)" and "crypto_ok E" and "trusted E s"
    and "tree_holds E s fuel nodes nes" and "tree_holds E s fuel edges ees"
    and "length nes + 2 \<le> fuel" and "length ees + 2 \<le> fuel"
  shows "grows E s t \<and> indexes_match E t fuel parents nodes edges cid"
proof (cases "reuse_indexes nodes edges parents")
  case None
  then have run: "build_index_set E fuel nodes edges s = (Inr cid, t)" using assms(1) by (simp add: index_choice_def)
  obtain ix ns es where b: "grows E s t" "decode_from_store E de_index_set t cid = Inr ix" "nodes_at E t nes ns"
    "edges_at E t ees es" "index_holds E t fuel ix ns es"
    using build_index_set_holds [OF run assms(2-7)] by blast
  then show ?thesis
    using tree_holds_mono [OF assms(4) b(1) assms(3)] tree_holds_mono [OF assms(5) b(1) assms(3)]
    unfolding indexes_match_def by blast
next
  case (Some c)
  then have "t = s" "c = cid" using assms(1) by (simp_all add: index_choice_def sret_def)
  moreover obtain p where "p \<in> set parents"
    "(if cm_nodes p = nodes \<and> cm_edges p = edges then cm_indexes p else None) = Some c"
    using find_map_Some [OF Some [unfolded reuse_indexes_def]] by blast
  ultimately show ?thesis by (auto simp: indexes_match_def split: if_splits)
qed

lemma indexes_match_mono:
  assumes "indexes_match E s fuel parents nodes edges cid" and "grows E s t" and "trusted E s"
  shows "indexes_match E t fuel parents nodes edges cid"
  using assms(1) unfolding indexes_match_def
proof (elim disjE exE conjE, goal_cases)
  case (2 nes ees ix ns es)
  then show ?case
    using tree_holds_mono [OF 2(1) assms(2,3)] tree_holds_mono [OF 2(2) assms(2,3)]
      nodes_at_mono [OF 2(3) assms(2,3)] edges_at_mono [OF 2(4) assms(2,3)]
      decode_from_store_mono [OF 2(5) assms(2,3)] index_holds_mono [OF 2(6) assms(2,3)]
    by blast
qed blast

section \<open>The merge commit\<close>

definition merge_commit_of ::
    "'c list \<Rightarrow> 'c union_outcome \<Rightarrow> 'c union_outcome \<Rightarrow> 'c \<Rightarrow> 'c \<Rightarrow> u64 \<Rightarrow> change_id \<Rightarrow> 'c commit" where
  "merge_commit_of parents nu eu schema indexes time cid =
     \<lparr>cm_change_id = cid, cm_parents = parents, cm_nodes = un_root nu, cm_edges = un_root eu, cm_schema = schema,
      cm_delta = None, cm_indexes = Some indexes, cm_embeddings = None, cm_sparse = None,
      cm_author = MERGE_AUTHOR, cm_agent_id = None, cm_task_id = None, cm_time = time,
      cm_message = MERGE_COMMIT_MESSAGE, cm_signature = None,
      cm_extra = (if fmdom (un_conflicts nu) \<noteq> {||} \<or> fmdom (un_conflicts eu) \<noteq> {||}
        then fmupd ''_merge_conflicts'' (IMap (conflict_map (un_conflicts nu) (un_conflicts eu))) fmempty
        else fmempty)\<rparr>"

lemma fold_with_parent: "fold (\<lambda>p c. cm_with_parent c p) ps c = c\<lparr>cm_parents := cm_parents c @ ps\<rparr>"
  by (induction ps arbitrary: c) (simp_all add: cm_with_parent_def)

lemma fmdom_empty_iff [simp]: "fmdom m = {||} \<longleftrightarrow> m = fmempty"
proof
  assume "fmdom m = {||}"
  then have "fmlookup m k = None" for k by (intro fmdom_notD) simp
  then show "m = fmempty" by (intro fmap_ext) simp
qed simp

lemma merge_commit_of_ok: "commit_ok (merge_commit_of ps nu eu schema ix time cid)"
  by (auto simp: merge_commit_of_def commit_ok_def extra_ok_def commit_names_def list_all_iff)

lemma map_fst_sort: "map fst (sort_key fst ps) = sort (map fst (ps :: ('c::linorder \<times> 'x) list))"
  by (metis mset_map mset_sort sorted_sort_key sorted_list_of_multiset_mset properties_for_sort)

lemma build_merge_commit_run:
  assumes "build_merge_commit E fuel hcs s = (Inr (Some cid), t)"
    and "parents = List.map_filter (\<lambda>c. c) hcs" and "\<exists>p \<in> set parents. fst p \<noteq> fst (hd parents)"
  obtains nu s1 eu s2 ix s3 change where
    "union_prolly_trees E fuel (map (cm_nodes \<circ> snd) parents) s = (Inr nu, s1)"
    and "union_prolly_trees E fuel (map (cm_edges \<circ> snd) parents) s1 = (Inr eu, s2)"
    and "index_choice E fuel (un_root nu) (un_root eu) (map snd parents) s2 = (Inr ix, s3)"
    and "deterministic_change_id E (sort (map fst parents)) = Inr change"
    and "put_object E (ser_commit (merge_commit_of (sort (map fst parents)) nu eu
        (cm_schema (snd (hd (sort_key fst parents)))) ix (max_time (map (cm_time \<circ> snd) (sort_key fst parents)) + 1) change)) s3
      = (Inr cid, t)"
proof -
  have c: "parents \<noteq> []" "\<not> list_all (\<lambda>(cid, _). cid = fst (hd parents)) parents"
    using assms(3) by (auto simp: list_all_iff case_prod_unfold)
  have commit: "fold (\<lambda>p commit. cm_with_parent commit p) ps
      (if X then (commit_new change nodes edges schema MERGE_AUTHOR time MERGE_COMMIT_MESSAGE)
          \<lparr>cm_indexes := Some ix\<rparr>\<lparr>cm_extra := fmupd ''_merge_conflicts'' y
            (cm_extra ((commit_new change nodes edges schema MERGE_AUTHOR time MERGE_COMMIT_MESSAGE)\<lparr>cm_indexes := Some ix\<rparr>))\<rparr>
        else (commit_new change nodes edges schema MERGE_AUTHOR time MERGE_COMMIT_MESSAGE)\<lparr>cm_indexes := Some ix\<rparr>)
    = \<lparr>cm_change_id = change, cm_parents = ps, cm_nodes = nodes, cm_edges = edges, cm_schema = schema,
      cm_delta = None, cm_indexes = Some ix, cm_embeddings = None, cm_sparse = None,
      cm_author = MERGE_AUTHOR, cm_agent_id = None, cm_task_id = None, cm_time = time,
      cm_message = MERGE_COMMIT_MESSAGE, cm_signature = None,
      cm_extra = (if X then fmupd ''_merge_conflicts'' y fmempty else fmempty)\<rparr>"
    for ps X change nodes edges schema time ix and y :: "'a ipld"
    by (simp add: fold_with_parent commit_new_def)
  show thesis
    using assms(1) c that
    unfolding build_merge_commit_def assms(2) [symmetric] Let_def commit index_choice_def [symmetric]
    by (auto simp: monad_simps map_fst_sort merge_commit_of_def o_def case_prod_unfold slift_def)
qed

text \<open>The tree of a map, of at most \<open>fuel\<close> entries.\<close>

definition tree_of_map ::
    "('c, 'h, 'b) external \<Rightarrow> ('c, 'b) store \<Rightarrow> nat \<Rightarrow> 'c \<Rightarrow> (prolly_key \<Rightarrow> 'c option) \<Rightarrow> bool" where
  "tree_of_map E s fuel root f \<longleftrightarrow> (\<exists>es. map_of es = f \<and> tree_holds E s fuel root es)"

lemma tree_of_mapI: "fmlookup m = f \<Longrightarrow> tree_holds E s fuel root (bt_iter m) \<Longrightarrow> tree_of_map E s fuel root f"
  unfolding tree_of_map_def by (intro exI [of _ "bt_iter m"]) (auto simp: fun_eq_iff)

lemma tree_of_map_mono: "tree_of_map E s fuel root f \<Longrightarrow> grows E s t \<Longrightarrow> trusted E s \<Longrightarrow> tree_of_map E t fuel root f"
  unfolding tree_of_map_def by (blast intro: tree_holds_mono)

lemma length_union_le:
  assumes "fmlookup m = union_map (map ents roots)"
  shows "length (bt_iter m) \<le> length (concat (map ents roots))"
proof (rule length_bt_iter_le, rule subsetI)
  fix k assume "k \<in> fset (fmdom m)"
  then have "candidates (map ents roots) k \<noteq> {}"
    using assms by (auto simp: fmlookup_dom_iff union_map_def split: if_splits)
  then show "k \<in> fst ` set (concat (map ents roots))"
    by (force simp: candidates_def dest: map_of_SomeD)
qed

lemma build_merge_commit_spec:
  assumes "build_merge_commit E fuel hcs s = (Inr (Some cid), t)"
    and ps: "parents = List.map_filter (\<lambda>c. c) hcs" and "\<exists>p \<in> set parents. fst p \<noteq> fst (hd parents)"
    and "crypto_ok E" and "trusted E s"
    and nodes: "roots_hold E s fuel ents (map (cm_nodes \<circ> snd) parents)"
    and edges: "roots_hold E s fuel ents (map (cm_edges \<circ> snd) parents)"
  defines "nss \<equiv> map (ents \<circ> cm_nodes \<circ> snd) parents" and "ess \<equiv> map (ents \<circ> cm_edges \<circ> snd) parents"
  shows "grows E s t \<and> (\<exists>c. decode_from_store E de_commit t cid = Inr c \<and>
    cm_parents c = sort (map fst parents) \<and>
    tree_of_map E t fuel (cm_nodes c) (union_map nss) \<and> tree_of_map E t fuel (cm_edges c) (union_map ess) \<and>
    (\<exists>ix. cm_indexes c = Some ix \<and> indexes_match E t fuel (map snd parents) (cm_nodes c) (cm_edges c) ix) \<and>
    (\<exists>nc ec. fmlookup nc = union_conflicts nss \<and> fmlookup ec = union_conflicts ess \<and>
      cm_extra c = (if nc = fmempty \<and> ec = fmempty then fmempty
        else fmupd ''_merge_conflicts'' (IMap (conflict_map nc ec)) fmempty)))"
proof -
  obtain nu s1 eu s2 ix s3 change where
    n: "union_prolly_trees E fuel (map (cm_nodes \<circ> snd) parents) s = (Inr nu, s1)"
    and e: "union_prolly_trees E fuel (map (cm_edges \<circ> snd) parents) s1 = (Inr eu, s2)"
    and i: "index_choice E fuel (un_root nu) (un_root eu) (map snd parents) s2 = (Inr ix, s3)"
    and put: "put_object E (ser_commit (merge_commit_of (sort (map fst parents)) nu eu
        (cm_schema (snd (hd (sort_key fst parents)))) ix (max_time (map (cm_time \<circ> snd) (sort_key fst parents)) + 1) change)) s3
      = (Inr cid, t)"
    by (rule build_merge_commit_run [OF assms(1) ps assms(3)])
  have nss: "map ents (map (cm_nodes \<circ> snd) parents) = nss" "map ents (map (cm_edges \<circ> snd) parents) = ess"
    by (simp_all add: nss_def ess_def)
  obtain nm where N: "grows E s s1" "fmlookup (un_conflicts nu) = union_conflicts nss"
    "fmlookup nm = union_map nss" "tree_holds E s1 fuel (un_root nu) (bt_iter nm)"
    using union_roots_run [OF n assms(4,5) nodes] unfolding nss merges_to_def by blast
  have t1: "trusted E s1" using N(1) assms(5) by (rule grows_trusted)
  obtain em where M: "grows E s1 s2" "fmlookup (un_conflicts eu) = union_conflicts ess"
    "fmlookup em = union_map ess" "tree_holds E s2 fuel (un_root eu) (bt_iter em)"
    using union_roots_run [OF e assms(4) t1 roots_hold_mono [OF edges N(1) assms(5)]] unfolding nss merges_to_def by blast
  have t2: "trusted E s2" using M(1) t1 by (rule grows_trusted)
  have "length (bt_iter nm) + 2 \<le> fuel" "length (bt_iter em) + 2 \<le> fuel"
    using length_union_le [of nm ents "map (cm_nodes \<circ> snd) parents"] length_union_le [of em ents "map (cm_edges \<circ> snd) parents"]
      N(3) M(3) nodes edges unfolding nss roots_hold_def by simp_all
  then have I: "grows E s2 s3 \<and> indexes_match E s3 fuel (map snd parents) (un_root nu) (un_root eu) ix"
    by (rule index_choice_run [OF i assms(4) t2 tree_holds_mono [OF N(4) M(1) t1] M(4)])
  have t3: "trusted E s3" using I t2 grows_trusted by blast
  have g4: "grows E s3 t" using assms(4) put by (intro put_object_mono) (simp_all add: crypto_ok_def)
  have g13: "grows E s1 t" "grows E s2 t" "grows E s t"
    using N(1) M(1) I g4 by (blast intro: grows_trans)+
  let ?c = "merge_commit_of (sort (map fst parents)) nu eu (cm_schema (snd (hd (sort_key fst parents)))) ix
      (max_time (map (cm_time \<circ> snd) (sort_key fst parents)) + 1) change"
  have "decode_from_store E de_commit t cid = Inr ?c"
    using commit_wire.put_reads_back [OF put _ merge_commit_of_ok] assms(4) by (simp add: crypto_ok_def)
  moreover have "tree_of_map E t fuel (un_root nu) (union_map nss)"
    using tree_of_map_mono [OF tree_of_mapI [OF N(3,4)] g13(1) t1] .
  moreover have "tree_of_map E t fuel (un_root eu) (union_map ess)"
    using tree_of_map_mono [OF tree_of_mapI [OF M(3,4)] g13(2) t2] .
  moreover have "indexes_match E t fuel (map snd parents) (un_root nu) (un_root eu) ix"
    using I g4 t3 by (blast intro: indexes_match_mono)
  moreover have "cm_extra ?c = (if un_conflicts nu = fmempty \<and> un_conflicts eu = fmempty then fmempty
      else fmupd ''_merge_conflicts'' (IMap (conflict_map (un_conflicts nu) (un_conflicts eu))) fmempty)"
    by (simp add: merge_commit_of_def fmdom_empty_iff)
  moreover have "cm_parents ?c = sort (map fst parents)" "cm_nodes ?c = un_root nu" "cm_edges ?c = un_root eu"
    "cm_indexes ?c = Some ix" by (simp_all add: merge_commit_of_def)
  ultimately show ?thesis using g13(3) N(2) M(2) by metis
qed

end
