(* ===== verification/Repo_State.thy ===== *)
theory Repo_State imports Merge_Spec Op_Heads begin

text \<open>
  What the repository layer works on: the block store and the op-heads store behind the two shared handles of
  \<open>crates/mnem-core/src/repo/readonly.rs\<close>, and \<open>ReadonlyRepo\<close>, the part of the history one handle is pinned to.
  A store program runs on the blocks of a repository state by \<open>on_blocks\<close>; reading the current heads and replacing
  them are the two operations on the other store. \<open>now_micros\<close> is an argument of the operations that ask for the time.
\<close>

record ('c, 'b) repo_state =
  rs_blocks :: "('c, 'b) store"
  rs_heads :: "'c op_heads"

record 'c readonly_repo =
  rr_op_id :: 'c
  rr_op :: "'c operation"
  rr_view :: "'c view"
  rr_commit :: "'c commit option"

section \<open>The two stores\<close>

definition on_blocks :: "(('c, 'b) store, 'e, 'a) prog \<Rightarrow> (('c, 'b) repo_state, 'e, 'a) prog" where
  "on_blocks m = (\<lambda>s. let (r, bs) = m (rs_blocks s) in (r, s\<lparr>rs_blocks := bs\<rparr>))"

definition heads_update :: "'c \<Rightarrow> 'c list \<Rightarrow> (('c, 'b) repo_state, 'e, unit) prog" where
  "heads_update new supersedes = (\<lambda>s. (Inr (), s\<lparr>rs_heads := oh_update new supersedes (rs_heads s)\<rparr>))"

text \<open>The two lines of the writers that do not trust the CID: \<open>hash_to_cid\<close>, then \<open>put\<close>.\<close>

definition put_checked :: "('c, 'h, 'b) external \<Rightarrow> 'c ipld \<Rightarrow> (('c, 'b) store, 'c error, 'c) prog" where
  "put_checked E v =
     sbind (slift (hash_to_cid E v)) (\<lambda>(data, cid).
     sbind (bs_put E cid data) (\<lambda>_. sret cid))"

section \<open>\<open>load_at\<close>\<close>

definition head_commit_of :: "('c, 'h, 'b) external \<Rightarrow> ('c, 'b) store \<Rightarrow> 'c view \<Rightarrow> 'c error + ('c \<times> 'c commit) option" where
  "head_commit_of E bs view =
     (case vw_heads view of
        head # _ \<Rightarrow> rbind (decode_from_store E de_commit bs head) (\<lambda>c. Inr (Some (head, c)))
      | [] \<Rightarrow> Inr None)"

definition load_at :: "('c, 'h, 'b) external \<Rightarrow> ('c, 'b) store \<Rightarrow> 'c \<Rightarrow> 'c error + 'c readonly_repo" where
  "load_at E bs op_id =
     rbind (decode_from_store E de_operation bs op_id) (\<lambda>op.
     rbind (decode_from_store E de_view bs (op_view op)) (\<lambda>view.
     rbind (head_commit_of E bs view) (\<lambda>commit.
     Inr \<lparr>rr_op_id = op_id, rr_op = op, rr_view = view, rr_commit = map_option snd commit\<rparr>)))"

section \<open>Running on a repository state\<close>

definition repo_le :: "('c, 'b) repo_state \<Rightarrow> ('c, 'b) repo_state \<Rightarrow> bool" where
  "repo_le s t \<longleftrightarrow> store_le (rs_blocks s) (rs_blocks t)"

lemma on_blocks_Inr:
  "on_blocks m s = (Inr x, t) \<longleftrightarrow> (\<exists>bs. m (rs_blocks s) = (Inr x, bs) \<and> t = s\<lparr>rs_blocks := bs\<rparr>)"
  by (auto simp: on_blocks_def Let_def split: prod.splits)

lemma on_blocks_run: "m (rs_blocks s) = (r, bs) \<Longrightarrow> on_blocks m s = (r, s\<lparr>rs_blocks := bs\<rparr>)"
  by (simp add: on_blocks_def)

lemma heads_update_Inr: "heads_update new ss s = (Inr x, t) \<longleftrightarrow> t = s\<lparr>rs_heads := oh_update new ss (rs_heads s)\<rparr>"
  by (auto simp: heads_update_def)

lemma put_checked_Inr:
  "put_checked E v s = (Inr c, t) \<longleftrightarrow>
     (\<exists>b. enc E v = Some b \<and> c = block_cid E b \<and> bs_put E c b s = (Inr (), t))"
  by (auto simp: put_checked_def monad_simps hash_to_cid_Inr)

lemma put_checked_run:
  assumes "put_checked E v s = (Inr c, t)"
  shows "put_object E v s = (Inr c, t)"
proof -
  from assms obtain b where b: "enc E v = Some b" "c = block_cid E b" "bs_put E c b s = (Inr (), t)"
    by (auto simp: put_checked_Inr)
  then have "t = fmupd c b s" by (auto simp: bs_put_def split: option.splits if_splits)
  with b show ?thesis by (simp add: put_object_run)
qed

lemma put_checked_eq: "cid_accessors E \<Longrightarrow> put_checked E v = put_object E v"
  by (rule ext) (auto simp: put_checked_def put_object_run sbind_def slift_def sret_def hash_to_cid_def
      to_canonical_bytes_def bs_put_def recompute_block_cid split: option.splits)

lemma stable_put_checked [stable_intros]: "stable (put_checked E v)"
  unfolding stable_def
proof (intro allI impI)
  fix s t x s' assume p: "put_checked E v s = (Inr x, s')" and le: "store_le s t"
  then obtain b where b: "enc E v = Some b" "x = block_cid E b" "bs_put E x b s = (Inr (), s')"
    by (auto simp: put_checked_Inr)
  then have "bs_put E x b t = (Inr (), fmupd x b t)" and "s' = fmupd x b s"
    by (auto simp: bs_put_def split: option.splits if_splits)
  with b le show "\<exists>t'. put_checked E v t = (Inr x, t') \<and> store_le s' t'"
    by (auto simp: put_checked_Inr store_le_def bs_get_def)
qed

lemma stable_head_commit [stable_intros]: "stable_read (\<lambda>s. head_commit_of E s view)"
  unfolding head_commit_of_def by (cases "vw_heads view") (auto intro!: stable_intros)

lemma stable_load_at [stable_intros]: "stable_read (\<lambda>s. load_at E s op_id)"
  unfolding load_at_def by (intro stable_intros)

text \<open>Two runs of a store program on states of which one has all blocks of the other.\<close>

lemma on_blocks_le:
  assumes "stable m" and "on_blocks m s = (Inr x, s')" and "repo_le s t"
  shows "\<exists>t'. on_blocks m t = (Inr x, t') \<and> repo_le s' t' \<and> rs_heads s' = rs_heads s \<and> rs_heads t' = rs_heads t"
proof -
  from assms(2) obtain bs where m: "m (rs_blocks s) = (Inr x, bs)" and s': "s' = s\<lparr>rs_blocks := bs\<rparr>"
    by (auto simp: on_blocks_Inr)
  from stableD [OF assms(1) m] assms(3) obtain bs' where "m (rs_blocks t) = (Inr x, bs')" "store_le bs bs'"
    by (auto simp: repo_le_def)
  with s' show ?thesis by (auto simp: on_blocks_def repo_le_def)
qed

end
