(* ===== verification/Conflict.thy ===== *)
theory Conflict imports Tree_Merge Lca "HOL-Library.Option_ord" begin

text \<open>
  \<open>crates/mnem-core/src/repo/conflict.rs\<close>: the structured conflicts between two commits. The detector compares
  the node trees key by key, each against the ancestor's, and the edges by their endpoints and label; a node that
  one side tombstoned and the other changed is a conflict of its own kind. Tombstones are on views, so the
  detector looks for the operation whose view has the commit as a head and takes what that operation added.

  An \<open>EdgeKey\<close> is the triple it is ordered by. The JSON payloads are \<open>json\<close> values; what they show of a CID or a
  property map is a parameter.
\<close>

section \<open>The record of conflicts\<close>

type_synonym edge_key = "node_id \<times> node_id \<times> string"

datatype conflict_category = NodeCidDivergence | EdgePropCollision | TombstoneVsModify

fun category_rank :: "conflict_category \<Rightarrow> nat" where
  "category_rank NodeCidDivergence = 0"
| "category_rank EdgePropCollision = 1"
| "category_rank TombstoneVsModify = 2"

record conflict =
  cf_node_id :: "node_id option"
  cf_edge_key :: "edge_key option"
  cf_category :: conflict_category
  cf_left :: json
  cf_right :: json
  cf_base :: "json option"
  cf_suggested :: "json option"
  cf_resolution :: "string option"

record 'c merge_conflicts =
  mc_schema :: string
  mc_left_head :: 'c
  mc_right_head :: 'c
  mc_lca :: "'c option"
  mc_conflicts :: "conflict list"

definition MERGE_CONFLICTS_SCHEMA :: string where "MERGE_CONFLICTS_SCHEMA = ''mnem.v1.merge_conflicts''"

definition is_clean :: "'c merge_conflicts \<Rightarrow> bool" where
  "is_clean mc \<longleftrightarrow> mc_conflicts mc = []"

datatype prop_tiebreak = BranchHeadCidLex

record conflict_policy =
  tombstone_wins :: bool
  edge_prop_tiebreak :: prop_tiebreak

definition default_policy :: conflict_policy where
  "default_policy = \<lparr>tombstone_wins = True, edge_prop_tiebreak = BranchHeadCidLex\<rparr>"

definition conflict_rank :: "conflict \<Rightarrow> bool \<times> node_id option \<times> edge_key option \<times> nat" where
  "conflict_rank c = (cf_edge_key c \<noteq> None, cf_node_id c, cf_edge_key c, category_rank (cf_category c))"

section \<open>Payloads\<close>

definition json_tombstoned :: json where
  "json_tombstoned = JObject (fmap_of_list [(''tombstoned'', JBool True)])"

definition json_node_cid :: "('c, 'h, 'b) external \<Rightarrow> 'c \<Rightarrow> json" where
  "json_node_cid E c = JObject (fmap_of_list [(''node_cid'', JString (cid_string E c))])"

definition json_tombstone_action :: "('c, 'h, 'b) external \<Rightarrow> node_id \<Rightarrow> json" where
  "json_tombstone_action E n =
     JObject (fmap_of_list [(''action'', JString ''tombstone''), (''node_id'', JString (uuid_string E n))])"

definition tombstone_suggestion :: "('c, 'h, 'b) external \<Rightarrow> conflict_policy \<Rightarrow> node_id \<Rightarrow> json option" where
  "tombstone_suggestion E policy n = (if tombstone_wins policy then Some (json_tombstone_action E n) else None)"

section \<open>One node, one edge\<close>

definition node_conflict ::
    "('c, 'h, 'b) external \<Rightarrow> conflict_policy \<Rightarrow> node_id set \<Rightarrow> node_id set
       \<Rightarrow> (prolly_key, 'c) fmap \<Rightarrow> (prolly_key, 'c) fmap \<Rightarrow> (prolly_key, 'c) fmap \<Rightarrow> prolly_key \<Rightarrow> conflict option" where
  "node_conflict E policy left_tombstones right_tombstones left_nodes right_nodes lca_nodes key =
     (let l = fmlookup left_nodes key;
          r = fmlookup right_nodes key;
          base = fmlookup lca_nodes key;
          node_id = key;
          left_tomb = node_id \<in> left_tombstones;
          right_tomb = node_id \<in> right_tombstones;
          right_modified = (r \<noteq> None \<and> r \<noteq> base);
          left_modified = (l \<noteq> None \<and> l \<noteq> base) in
      if left_tomb \<and> right_modified \<and> \<not> right_tomb then
        Some \<lparr>cf_node_id = Some node_id, cf_edge_key = None, cf_category = TombstoneVsModify,
          cf_left = json_tombstoned, cf_right = json_node_cid E (the r),
          cf_base = map_option (json_node_cid E) base, cf_suggested = tombstone_suggestion E policy node_id,
          cf_resolution = None\<rparr>
      else if right_tomb \<and> left_modified \<and> \<not> left_tomb then
        Some \<lparr>cf_node_id = Some node_id, cf_edge_key = None, cf_category = TombstoneVsModify,
          cf_left = json_node_cid E (the l), cf_right = json_tombstoned,
          cf_base = map_option (json_node_cid E) base, cf_suggested = tombstone_suggestion E policy node_id,
          cf_resolution = None\<rparr>
      else case (l, r) of
        (Some lc, Some rc) \<Rightarrow>
          if lc \<noteq> rc then
            let left_changed = (case base of None \<Rightarrow> True | Some b \<Rightarrow> b \<noteq> lc);
                right_changed = (case base of None \<Rightarrow> True | Some b \<Rightarrow> b \<noteq> rc) in
            if left_changed \<and> right_changed then
              Some \<lparr>cf_node_id = Some node_id, cf_edge_key = None, cf_category = NodeCidDivergence,
                cf_left = json_node_cid E lc, cf_right = json_node_cid E rc,
                cf_base = map_option (json_node_cid E) base, cf_suggested = None, cf_resolution = None\<rparr>
            else None
          else None
      | _ \<Rightarrow> None)"

definition edge_conflict ::
    "('c, 'h, 'b) external \<Rightarrow> bool \<Rightarrow> (edge_key, 'c ipld_map) fmap \<Rightarrow> (edge_key, 'c ipld_map) fmap
       \<Rightarrow> (edge_key, 'c ipld_map) fmap \<Rightarrow> edge_key \<Rightarrow> conflict option" where
  "edge_conflict E left_wins_lex left_edges right_edges lca_edges key =
     (case (fmlookup left_edges key, fmlookup right_edges key) of
        (Some lp, Some rp) \<Rightarrow>
          if lp = rp then None
          else
            let base = fmlookup lca_edges key;
                left_changed = (case base of None \<Rightarrow> True | Some b \<Rightarrow> b \<noteq> lp);
                right_changed = (case base of None \<Rightarrow> True | Some b \<Rightarrow> b \<noteq> rp) in
            if \<not> (left_changed \<and> right_changed) then None
            else
              let left_json = props_json E lp;
                  right_json = props_json E rp;
                  suggested = JObject (fmap_of_list
                    [(''tiebreak'', JString ''branch_head_cid_lex''),
                     (''winner_side'', JString (if left_wins_lex then ''left'' else ''right'')),
                     (''props'', if left_wins_lex then left_json else right_json)]) in
              Some \<lparr>cf_node_id = None, cf_edge_key = Some key, cf_category = EdgePropCollision,
                cf_left = left_json, cf_right = right_json, cf_base = map_option (props_json E) base,
                cf_suggested = Some suggested, cf_resolution = None\<rparr>
      | _ \<Rightarrow> None)"

section \<open>What is compared\<close>

definition collect_prolly ::
    "('c, 'h, 'b) external \<Rightarrow> ('c, 'b) store \<Rightarrow> nat \<Rightarrow> 'c \<Rightarrow> 'c error + (prolly_key, 'c) fmap" where
  "collect_prolly E bs fuel root = for_entries E bs fuel root (\<lambda>(k, v) out. Inr (fmupd k v out)) fmempty"

definition collect_edges ::
    "('c, 'h, 'b) external \<Rightarrow> ('c, 'b) store \<Rightarrow> nat \<Rightarrow> 'c \<Rightarrow> 'c error + (edge_key, 'c ipld_map) fmap" where
  "collect_edges E bs fuel root =
     for_entries E bs fuel root (\<lambda>(k, v) out.
       rbind (decode_from_store E de_edge bs v) (\<lambda>edge.
       Inr (fmupd (ed_src edge, ed_dst edge, ed_etype edge) (ed_props edge) out))) fmempty"

definition tombstone_delta ::
    "('c, 'h, 'b) external \<Rightarrow> ('c, 'b) store \<Rightarrow> 'c operation \<Rightarrow> 'c view \<Rightarrow> 'c error + node_id set" where
  "tombstone_delta E bs operation view =
     rbind (rfold (\<lambda>parent_op_cid parent_ts.
         rbind (decode_from_store E de_operation bs parent_op_cid) (\<lambda>parent_op.
         rbind (decode_from_store E de_view bs (op_view parent_op)) (\<lambda>parent_view.
         Inr (parent_ts \<union> fset (fmdom (vw_tombstones parent_view))))))
       (op_parents operation) {}) (\<lambda>parent_tombstones.
     Inr (fset (fmdom (vw_tombstones view)) - parent_tombstones))"

function tombstone_walk ::
    "('c, 'h, 'b) external \<Rightarrow> ('c, 'b) store \<Rightarrow> 'c \<Rightarrow> 'c set \<Rightarrow> 'c list \<Rightarrow> 'c error + node_id set" where
  "tombstone_walk E bs commit_cid visited [] = Inr {}"
| "tombstone_walk E bs commit_cid visited (op_cid # stack) =
     (if op_cid \<in> visited then tombstone_walk E bs commit_cid visited stack
      else
        rbind (decode_from_store E de_operation bs op_cid) (\<lambda>operation.
        rbind (decode_from_store E de_view bs (op_view operation)) (\<lambda>view.
        if commit_cid \<in> set (vw_heads view) then tombstone_delta E bs operation view
        else tombstone_walk E bs commit_cid (insert op_cid visited)
               (push_parents (insert op_cid visited) (op_parents operation) stack))))"
  by pat_completeness auto
termination
proof (relation "inv_image (less_than <*lex*> less_than)
    (\<lambda>(E, bs, c, visited, stack). (card (fset (fmdom bs) - visited), length stack))", goal_cases)
  case (3 E bs commit_cid visited op_cid stack operation view)
  then have "op_cid \<in> fset (fmdom bs) - visited"
    by (auto simp: decode_from_store_def bs_get_def dest: fmdomI split: option.splits)
  then have "card (fset (fmdom bs) - insert op_cid visited) < card (fset (fmdom bs) - visited)"
    by (intro psubset_card_mono) auto
  then show ?case by simp
qed (auto simp: wf_lex_prod)

definition tombstones_for_commit ::
    "('c, 'h, 'b) external \<Rightarrow> ('c, 'b) store \<Rightarrow> 'c list \<Rightarrow> 'c \<Rightarrow> 'c error + node_id set" where
  "tombstones_for_commit E bs start_heads commit_cid = tombstone_walk E bs commit_cid {} (rev start_heads)"

section \<open>The detector\<close>

definition nodes_of_commit ::
    "('c, 'h, 'b) external \<Rightarrow> ('c, 'b) store \<Rightarrow> nat \<Rightarrow> 'c commit option \<Rightarrow> 'c error + (prolly_key, 'c) fmap" where
  "nodes_of_commit E bs fuel c = (case c of Some c \<Rightarrow> collect_prolly E bs fuel (cm_nodes c) | None \<Rightarrow> Inr fmempty)"

definition edges_of_commit ::
    "('c, 'h, 'b) external \<Rightarrow> ('c, 'b) store \<Rightarrow> nat \<Rightarrow> 'c commit option \<Rightarrow> 'c error + (edge_key, 'c ipld_map) fmap" where
  "edges_of_commit E bs fuel c = (case c of Some c \<Rightarrow> collect_edges E bs fuel (cm_edges c) | None \<Rightarrow> Inr fmempty)"

definition node_conflicts ::
    "('c, 'h, 'b) external \<Rightarrow> conflict_policy \<Rightarrow> node_id set \<Rightarrow> node_id set
       \<Rightarrow> (prolly_key, 'c) fmap \<Rightarrow> (prolly_key, 'c) fmap \<Rightarrow> (prolly_key, 'c) fmap \<Rightarrow> conflict list" where
  "node_conflicts E policy lts rts ln rn bn =
     List.map_filter (node_conflict E policy lts rts ln rn bn) (sorted_list_of_fset (fmdom ln |\<union>| fmdom rn))"

definition edge_conflicts ::
    "('c, 'h, 'b) external \<Rightarrow> bool \<Rightarrow> (edge_key, 'c ipld_map) fmap \<Rightarrow> (edge_key, 'c ipld_map) fmap
       \<Rightarrow> (edge_key, 'c ipld_map) fmap \<Rightarrow> conflict list" where
  "edge_conflicts E left_wins_lex le re bases =
     List.map_filter (edge_conflict E left_wins_lex le re bases) (sorted_list_of_fset (fmdom le |\<union>| fmdom re))"

definition detect_conflicts_with_policy ::
    "('c::linorder, 'h, 'b) external \<Rightarrow> ('c, 'b) store \<Rightarrow> nat \<Rightarrow> 'c list \<Rightarrow> 'c \<Rightarrow> 'c \<Rightarrow> 'c option \<Rightarrow> conflict_policy
       \<Rightarrow> 'c error + 'c merge_conflicts" where
  "detect_conflicts_with_policy E bs fuel op_heads left right lca policy =
     rbind (decode_from_store E de_commit bs left) (\<lambda>left_commit.
     rbind (decode_from_store E de_commit bs right) (\<lambda>right_commit.
     rbind (case lca of Some cid \<Rightarrow> rbind (decode_from_store E de_commit bs cid) (\<lambda>c. Inr (Some c)) | None \<Rightarrow> Inr None)
       (\<lambda>lca_commit.
     rbind (tombstones_for_commit E bs op_heads left) (\<lambda>left_tombstones.
     rbind (tombstones_for_commit E bs op_heads right) (\<lambda>right_tombstones.
     rbind (collect_prolly E bs fuel (cm_nodes left_commit)) (\<lambda>left_nodes.
     rbind (collect_prolly E bs fuel (cm_nodes right_commit)) (\<lambda>right_nodes.
     rbind (nodes_of_commit E bs fuel lca_commit) (\<lambda>lca_nodes.
     rbind (collect_edges E bs fuel (cm_edges left_commit)) (\<lambda>left_edges.
     rbind (collect_edges E bs fuel (cm_edges right_commit)) (\<lambda>right_edges.
     rbind (edges_of_commit E bs fuel lca_commit) (\<lambda>lca_edges.
     let left_wins_lex = (case edge_prop_tiebreak policy of BranchHeadCidLex \<Rightarrow> left < right);
         conflicts = node_conflicts E policy left_tombstones right_tombstones left_nodes right_nodes lca_nodes
           @ edge_conflicts E left_wins_lex left_edges right_edges lca_edges in
     Inr \<lparr>mc_schema = MERGE_CONFLICTS_SCHEMA, mc_left_head = left, mc_right_head = right, mc_lca = lca,
       mc_conflicts = sort_key conflict_rank conflicts\<rparr>)))))))))))"

definition detect_conflicts ::
    "('c::linorder, 'h, 'b) external \<Rightarrow> ('c, 'b) store \<Rightarrow> nat \<Rightarrow> 'c list \<Rightarrow> 'c \<Rightarrow> 'c \<Rightarrow> 'c option
       \<Rightarrow> 'c error + 'c merge_conflicts" where
  "detect_conflicts E bs fuel op_heads left right lca =
     detect_conflicts_with_policy E bs fuel op_heads left right lca default_policy"

section \<open>The detector on two views\<close>

definition upgrade_conflict ::
    "('c, 'h, 'b) external \<Rightarrow> conflict_policy \<Rightarrow> node_id set \<Rightarrow> node_id set \<Rightarrow> conflict \<Rightarrow> conflict" where
  "upgrade_conflict E policy left_ts right_ts c =
     (case cf_node_id c of
        None \<Rightarrow> c
      | Some n \<Rightarrow>
          let l_ts = n \<in> left_ts; r_ts = n \<in> right_ts in
          if l_ts \<noteq> r_ts then
            let c = c\<lparr>cf_category := TombstoneVsModify\<rparr>;
                c = (if l_ts then c\<lparr>cf_left := json_tombstoned\<rparr> else c);
                c = (if r_ts then c\<lparr>cf_right := json_tombstoned\<rparr> else c) in
            if tombstone_wins policy then c\<lparr>cf_suggested := Some (json_tombstone_action E n)\<rparr> else c
          else c)"

definition emit_for ::
    "('c, 'h, 'b) external \<Rightarrow> conflict_policy \<Rightarrow> (prolly_key, 'c) fmap \<Rightarrow> (prolly_key, 'c) fmap \<Rightarrow> node_id \<Rightarrow> bool
       \<Rightarrow> conflict option" where
  "emit_for E policy left_nodes right_nodes n is_left =
     (case (fmlookup left_nodes n, fmlookup right_nodes n) of
        (Some ln, Some rn) \<Rightarrow>
          Some \<lparr>cf_node_id = Some n, cf_edge_key = None, cf_category = TombstoneVsModify,
            cf_left = (if is_left then json_tombstoned else json_node_cid E ln),
            cf_right = (if is_left then json_node_cid E rn else json_tombstoned),
            cf_base = None, cf_suggested = tombstone_suggestion E policy n, cf_resolution = None\<rparr>
      | _ \<Rightarrow> None)"

definition emit_side ::
    "(node_id \<Rightarrow> conflict option) \<Rightarrow> node_id \<Rightarrow> conflict list \<Rightarrow> conflict list" where
  "emit_side emit n conflicts =
     (if list_ex (\<lambda>c. cf_node_id c = Some n) conflicts then conflicts
      else case emit n of Some c \<Rightarrow> conflicts @ [c] | None \<Rightarrow> conflicts)"

definition detect_conflicts_with_views ::
    "('c::linorder, 'h, 'b) external \<Rightarrow> ('c, 'b) store \<Rightarrow> nat \<Rightarrow> 'c list \<Rightarrow> 'c \<Rightarrow> 'c \<Rightarrow> 'c option
       \<Rightarrow> 'c view \<Rightarrow> 'c view \<Rightarrow> conflict_policy \<Rightarrow> 'c error + 'c merge_conflicts" where
  "detect_conflicts_with_views E bs fuel op_heads left right lca left_view right_view policy =
     rbind (detect_conflicts_with_policy E bs fuel op_heads left right lca policy) (\<lambda>mc.
     let left_ts = fmdom (vw_tombstones left_view);
         right_ts = fmdom (vw_tombstones right_view);
         conflicts = map (upgrade_conflict E policy (fset left_ts) (fset right_ts)) (mc_conflicts mc) in
     rbind (decode_from_store E de_commit bs left) (\<lambda>left_commit.
     rbind (decode_from_store E de_commit bs right) (\<lambda>right_commit.
     rbind (collect_prolly E bs fuel (cm_nodes left_commit)) (\<lambda>left_nodes.
     rbind (collect_prolly E bs fuel (cm_nodes right_commit)) (\<lambda>right_nodes.
     let conflicts = fold (emit_side (\<lambda>n. emit_for E policy left_nodes right_nodes n True))
           (sorted_list_of_fset left_ts) conflicts;
         conflicts = fold (emit_side (\<lambda>n. emit_for E policy left_nodes right_nodes n False))
           (sorted_list_of_fset right_ts) conflicts in
     Inr (mc\<lparr>mc_conflicts := sort_key conflict_rank conflicts\<rparr>))))))"

end
