(* ===== verification/Conflict_Spec.thy ===== *)
theory Conflict_Spec imports Conflict Stable begin

text \<open>
  What the conflict detector reports, stated on the entries of the trees it compares. \<open>node_clash\<close> and
  \<open>both_changed\<close> are the three-way rules; the report lists the clashes and nothing else, nodes before edges, each
  in ascending order, and exchanging the two sides only exchanges the two columns.
\<close>

section \<open>Lists made by \<open>filter_map\<close>\<close>

lemma sorted_wrt_map_filter:
  assumes "sorted_wrt P xs" and "\<And>x y u v. P x y \<Longrightarrow> f x = Some u \<Longrightarrow> f y = Some v \<Longrightarrow> Q u v"
  shows "sorted_wrt Q (List.map_filter f xs)"
  using assms(1)
proof (induction xs)
  case (Cons x xs)
  show ?case
  proof (cases "f x")
    case (Some u)
    have "Q u v" if "v \<in> set (List.map_filter f xs)" for v
      using that Cons.prems assms(2) [of x _ u v] Some by (auto simp: List.map_filter_def)
    with Cons Some show ?thesis by simp
  qed (use Cons in simp)
qed simp

lemma filter_map_filter:
  assumes "distinct xs" and "\<And>x y. x \<in> set xs \<Longrightarrow> f x = Some y \<Longrightarrow> P y \<longleftrightarrow> x = k"
  shows "filter P (List.map_filter f xs) = (if k \<in> set xs then case f k of None \<Rightarrow> [] | Some y \<Rightarrow> [y] else [])"
  using assms
proof (induction xs)
  case (Cons x xs)
  have IH: "filter P (List.map_filter f xs) = (if k \<in> set xs then case f k of None \<Rightarrow> [] | Some y \<Rightarrow> [y] else [])"
    using Cons.prems by (intro Cons.IH) auto
  show ?case
  proof (cases "f x")
    case None
    with IH Cons.prems(1) show ?thesis by auto
  next
    case (Some y)
    then have "P y \<longleftrightarrow> x = k" using Cons.prems(2) by simp
    with Some IH Cons.prems(1) show ?thesis by auto
  qed
qed simp

lemma list_all2_map_filter:
  assumes "\<And>x. rel_option R (f x) (g x)"
  shows "list_all2 R (List.map_filter f xs) (List.map_filter g xs)"
proof (induction xs)
  case (Cons x xs)
  with assms [of x] show ?case by (cases "f x"; cases "g x") auto
qed simp

lemma set_map_filter: "y \<in> set (List.map_filter f xs) \<longleftrightarrow> (\<exists>x \<in> set xs. f x = Some y)"
  by (force simp: List.map_filter_def)

section \<open>The three-way rules\<close>

definition changed_from :: "'v option \<Rightarrow> 'v option \<Rightarrow> bool" where
  "changed_from base x \<longleftrightarrow> x \<noteq> None \<and> x \<noteq> base"

definition both_changed :: "'v option \<Rightarrow> 'v option \<Rightarrow> 'v option \<Rightarrow> bool" where
  "both_changed base l r \<longleftrightarrow> changed_from base l \<and> changed_from base r \<and> l \<noteq> r"

definition node_clash ::
    "bool \<Rightarrow> bool \<Rightarrow> 'c option \<Rightarrow> 'c option \<Rightarrow> 'c option \<Rightarrow> conflict_category option" where
  "node_clash left_tomb right_tomb base l r =
     (if left_tomb \<noteq> right_tomb \<and> changed_from base (if left_tomb then r else l) then Some TombstoneVsModify
      else if both_changed base l r then Some NodeCidDivergence
      else None)"

lemma node_conflict_clash:
  "map_option cf_category (node_conflict E policy lts rts L R B k) =
     node_clash (k \<in> lts) (k \<in> rts) (fmlookup B k) (fmlookup L k) (fmlookup R k)"
  by (cases "fmlookup B k"; cases "fmlookup L k"; cases "fmlookup R k")
     (auto simp: node_conflict_def node_clash_def both_changed_def changed_from_def Let_def)

lemma node_conflict_keys:
  "node_conflict E policy lts rts L R B k = Some c \<Longrightarrow> cf_node_id c = Some k \<and> cf_edge_key c = None"
  by (auto simp: node_conflict_def Let_def split: if_splits option.splits)

lemma edge_conflict_clash:
  "map_option cf_category (edge_conflict E w L R B k) =
     (if both_changed (fmlookup B k) (fmlookup L k) (fmlookup R k) then Some EdgePropCollision else None)"
  by (cases "fmlookup B k"; cases "fmlookup L k"; cases "fmlookup R k")
     (auto simp: edge_conflict_def both_changed_def changed_from_def Let_def)

lemma edge_conflict_keys:
  "edge_conflict E w L R B k = Some c \<Longrightarrow> cf_edge_key c = Some k \<and> cf_node_id c = None"
  by (auto simp: edge_conflict_def Let_def split: if_splits option.splits)

lemma node_clash_absent: "node_clash lt rt base None None = None"
  by (simp add: node_clash_def both_changed_def changed_from_def)

section \<open>The report\<close>

lemma node_conflicts_keys: "c \<in> set (node_conflicts E p lts rts L R B) \<Longrightarrow> \<exists>k. cf_node_id c = Some k \<and> cf_edge_key c = None"
  unfolding node_conflicts_def set_map_filter by (blast dest: node_conflict_keys)

lemma edge_conflicts_keys: "c \<in> set (edge_conflicts E w L R B) \<Longrightarrow> \<exists>k. cf_edge_key c = Some k \<and> cf_node_id c = None"
  unfolding edge_conflicts_def set_map_filter by (blast dest: edge_conflict_keys)

lemma sorted_keys [simp]: "sorted_wrt (<) (sorted_list_of_fset S)" "distinct (sorted_list_of_fset S)"
  by (simp_all add: sorted_list_of_fset.rep_eq)

lemma conflicts_ranked:
  "sorted_wrt (\<lambda>a b. conflict_rank a < conflict_rank b) (node_conflicts E p lts rts L R B @ edge_conflicts E w L' R' B')"
  unfolding sorted_wrt_append node_conflicts_def edge_conflicts_def
proof (intro conjI ballI)
  show "sorted_wrt (\<lambda>a b. conflict_rank a < conflict_rank b)
      (List.map_filter (node_conflict E p lts rts L R B) (sorted_list_of_fset (fmdom L |\<union>| fmdom R)))"
    by (rule sorted_wrt_map_filter [of "(<)"]) (auto simp: conflict_rank_def dest!: node_conflict_keys)
  show "sorted_wrt (\<lambda>a b. conflict_rank a < conflict_rank b)
      (List.map_filter (edge_conflict E w L' R' B') (sorted_list_of_fset (fmdom L' |\<union>| fmdom R')))"
    by (rule sorted_wrt_map_filter [of "(<)"]) (auto simp: conflict_rank_def dest!: edge_conflict_keys)
qed (auto simp: conflict_rank_def node_conflicts_def [symmetric] edge_conflicts_def [symmetric]
    dest!: node_conflicts_keys edge_conflicts_keys)

lemma conflicts_sort:
  "sort_key conflict_rank (node_conflicts E p lts rts L R B @ edge_conflicts E w L' R' B')
     = node_conflicts E p lts rts L R B @ edge_conflicts E w L' R' B'"
proof (rule sort_key_id_if_sorted)
  have "sorted_wrt (<) (map conflict_rank (node_conflicts E p lts rts L R B @ edge_conflicts E w L' R' B'))"
    unfolding sorted_wrt_map by (rule conflicts_ranked)
  then show "sorted (map conflict_rank (node_conflicts E p lts rts L R B @ edge_conflicts E w L' R' B'))"
    by (rule strict_sorted_imp_sorted)
qed

lemma node_conflicts_of:
  "map cf_category (filter (\<lambda>c. cf_node_id c = Some n) (node_conflicts E p lts rts L R B)) =
     (case node_clash (n \<in> lts) (n \<in> rts) (fmlookup B n) (fmlookup L n) (fmlookup R n) of None \<Rightarrow> [] | Some k \<Rightarrow> [k])"
proof -
  have f: "filter (\<lambda>c. cf_node_id c = Some n) (node_conflicts E p lts rts L R B) =
     (if n |\<in>| fmdom L |\<union>| fmdom R
      then case node_conflict E p lts rts L R B n of None \<Rightarrow> [] | Some y \<Rightarrow> [y] else [])"
    unfolding node_conflicts_def
    by (subst filter_map_filter [where k = n]) (auto simp: sorted_list_of_fset.rep_eq dest!: node_conflict_keys)
  note clash = node_conflict_clash [of E p lts rts L R B n]
  show ?thesis
  proof (cases "n |\<in>| fmdom L |\<union>| fmdom R")
    case True
    with f show ?thesis unfolding clash [symmetric] by (simp split: option.split)
  next
    case False
    then have "fmlookup L n = None" "fmlookup R n = None" by (auto dest: fmdom_notD)
    with f False show ?thesis by (simp add: node_clash_absent)
  qed
qed

lemma edge_conflicts_of:
  "map cf_category (filter (\<lambda>c. cf_edge_key c = Some e) (edge_conflicts E w L R B)) =
     (if both_changed (fmlookup B e) (fmlookup L e) (fmlookup R e) then [EdgePropCollision] else [])"
proof -
  have f: "filter (\<lambda>c. cf_edge_key c = Some e) (edge_conflicts E w L R B) =
     (if e |\<in>| fmdom L |\<union>| fmdom R
      then case edge_conflict E w L R B e of None \<Rightarrow> [] | Some y \<Rightarrow> [y] else [])"
    unfolding edge_conflicts_def
    by (subst filter_map_filter [where k = e]) (auto simp: sorted_list_of_fset.rep_eq dest!: edge_conflict_keys)
  note clash = edge_conflict_clash [of E w L R B e]
  show ?thesis
  proof (cases "e |\<in>| fmdom L |\<union>| fmdom R")
    case True
    with f clash show ?thesis by (auto split: option.splits if_splits)
  next
    case False
    then have "fmlookup L e = None" "fmlookup R e = None" by (auto dest: fmdom_notD)
    with f False show ?thesis by (simp add: both_changed_def changed_from_def)
  qed
qed

lemma no_cross_conflicts:
  "filter (\<lambda>c. cf_node_id c = Some n) (edge_conflicts E w L R B) = []"
  "filter (\<lambda>c. cf_edge_key c = Some e) (node_conflicts E p lts rts L' R' B') = []"
  by (auto simp: filter_empty_conv dest: node_conflicts_keys edge_conflicts_keys)

text \<open>The maps the detector compares, for two commits and an optional ancestor.\<close>

record 'c sides =
  sd_tombs :: "node_id set \<times> node_id set"
  sd_nodes :: "(prolly_key, 'c) fmap \<times> (prolly_key, 'c) fmap \<times> (prolly_key, 'c) fmap"
  sd_edges :: "(edge_key, 'c ipld_map) fmap \<times> (edge_key, 'c ipld_map) fmap \<times> (edge_key, 'c ipld_map) fmap"

definition sides_of ::
    "('c::linorder, 'h, 'b) external \<Rightarrow> ('c, 'b) store \<Rightarrow> nat \<Rightarrow> 'c list \<Rightarrow> 'c \<Rightarrow> 'c \<Rightarrow> 'c option \<Rightarrow> 'c sides \<Rightarrow> bool" where
  "sides_of E bs fuel hs left right lca sd \<longleftrightarrow>
     (\<exists>lc rc bc lts rts L R B le re be.
       sd = \<lparr>sd_tombs = (lts, rts), sd_nodes = (L, R, B), sd_edges = (le, re, be)\<rparr> \<and>
       decode_from_store E de_commit bs left = Inr lc \<and> decode_from_store E de_commit bs right = Inr rc \<and>
       (case lca of None \<Rightarrow> bc = None | Some a \<Rightarrow> \<exists>c. decode_from_store E de_commit bs a = Inr c \<and> bc = Some c) \<and>
       tombstones_for_commit E bs hs left = Inr lts \<and> tombstones_for_commit E bs hs right = Inr rts \<and>
       collect_prolly E bs fuel (cm_nodes lc) = Inr L \<and> collect_prolly E bs fuel (cm_nodes rc) = Inr R \<and>
       nodes_of_commit E bs fuel bc = Inr B \<and>
       collect_edges E bs fuel (cm_edges lc) = Inr le \<and> collect_edges E bs fuel (cm_edges rc) = Inr re \<and>
       edges_of_commit E bs fuel bc = Inr be)"

fun report :: "('c, 'h, 'b) external \<Rightarrow> conflict_policy \<Rightarrow> bool \<Rightarrow> 'c sides \<Rightarrow> conflict list" where
  "report E policy w \<lparr>sd_tombs = (lts, rts), sd_nodes = (L, R, B), sd_edges = (le, re, be)\<rparr> =
     node_conflicts E policy lts rts L R B @ edge_conflicts E w le re be"

lemma detect_run:
  "detect_conflicts_with_policy E bs fuel hs left right lca policy = Inr mc \<longleftrightarrow>
     (\<exists>sd. sides_of E bs fuel hs left right lca sd \<and>
       mc = \<lparr>mc_schema = MERGE_CONFLICTS_SCHEMA, mc_left_head = left, mc_right_head = right, mc_lca = lca,
         mc_conflicts = report E policy (left < right) sd\<rparr>)"
proof -
  have w: "(case edge_prop_tiebreak policy of BranchHeadCidLex \<Rightarrow> left < right) = (left < right)"
    by (cases "edge_prop_tiebreak policy") simp
  show ?thesis
    unfolding detect_conflicts_with_policy_def Let_def conflicts_sort w sides_of_def
    by (cases lca) (auto simp: rbind_Inr_iff)
qed

lemma sides_unique: "sides_of E bs fuel hs left right lca sd \<Longrightarrow> sides_of E bs fuel hs left right lca sd' \<Longrightarrow> sd = sd'"
  unfolding sides_of_def by (cases lca) auto

definition flip_sides :: "'c sides \<Rightarrow> 'c sides" where
  "flip_sides sd = \<lparr>sd_tombs = prod.swap (sd_tombs sd),
     sd_nodes = (case sd_nodes sd of (l, r, b) \<Rightarrow> (r, l, b)), sd_edges = (case sd_edges sd of (l, r, b) \<Rightarrow> (r, l, b))\<rparr>"

lemma sides_flip: "sides_of E bs fuel hs left right lca sd \<Longrightarrow> sides_of E bs fuel hs right left lca (flip_sides sd)"
  unfolding sides_of_def by (elim exE conjE) (simp add: flip_sides_def, blast)

section \<open>Exchanging the sides\<close>

text \<open>What a suggestion proposes, without the name of the side it comes from.\<close>

fun proposal :: "json option \<Rightarrow> json option" where
  "proposal (Some (JObject m)) = Some (JObject (fmdrop ''winner_side'' m))"
| "proposal x = x"

definition mirrored :: "conflict \<Rightarrow> conflict \<Rightarrow> bool" where
  "mirrored c d \<longleftrightarrow> cf_node_id d = cf_node_id c \<and> cf_edge_key d = cf_edge_key c \<and> cf_category d = cf_category c \<and>
     cf_left d = cf_right c \<and> cf_right d = cf_left c \<and> cf_base d = cf_base c \<and>
     proposal (cf_suggested d) = proposal (cf_suggested c) \<and> cf_resolution d = cf_resolution c"

lemma node_conflict_mirror:
  "rel_option mirrored (node_conflict E p lts rts L R B k) (node_conflict E p rts lts R L B k)"
  by (cases "fmlookup B k"; cases "fmlookup L k"; cases "fmlookup R k")
     (auto simp: node_conflict_def mirrored_def Let_def)

lemma edge_conflict_mirror:
  assumes "w' = (\<not> w) \<or> L = R"
  shows "rel_option mirrored (edge_conflict E w L R B k) (edge_conflict E w' R L B k)"
proof (cases "fmlookup L k = fmlookup R k")
  case True
  then show ?thesis by (cases "fmlookup R k") (simp_all add: edge_conflict_def)
next
  case False
  then have "w' = (\<not> w)" using assms by auto
  moreover have "fmdrop ''winner_side'' (fmap_of_list [(''tiebreak'', t), (''winner_side'', x), (''props'', q)])
      = fmdrop ''winner_side'' (fmap_of_list [(''tiebreak'', t), (''winner_side'', y), (''props'', q)])" for t x y q :: json
    by (rule fmap_ext) (simp add: fmlookup_of_list)
  ultimately show ?thesis using False
    by (cases "fmlookup B k"; cases "fmlookup L k"; cases "fmlookup R k")
       (auto simp: edge_conflict_def mirrored_def Let_def)
qed

lemma report_mirror:
  assumes "w' = (\<not> w) \<or> fst (sd_edges sd) = fst (snd (sd_edges sd))"
  shows "list_all2 mirrored (report E p w sd) (report E p w' (flip_sides sd))"
proof -
  obtain lts rts L R B le re be
    where sd: "sd = \<lparr>sd_tombs = (lts, rts), sd_nodes = (L, R, B), sd_edges = (le, re, be)\<rparr>"
    by (cases sd) auto
  have w: "w' = (\<not> w) \<or> le = re" using assms by (simp add: sd)
  have "fmdom R |\<union>| fmdom L = fmdom L |\<union>| fmdom R" "fmdom re |\<union>| fmdom le = fmdom le |\<union>| fmdom re" by auto
  then show ?thesis
    unfolding sd flip_sides_def
    by (auto simp: node_conflicts_def edge_conflicts_def intro!: list_all2_appendI list_all2_map_filter
        node_conflict_mirror edge_conflict_mirror [OF w])
qed

lemma detect_mirror:
  assumes "detect_conflicts_with_policy E bs fuel hs left right lca policy = Inr mc"
  shows "\<exists>mc'. detect_conflicts_with_policy E bs fuel hs right left lca policy = Inr mc' \<and>
    list_all2 mirrored (mc_conflicts mc) (mc_conflicts mc')"
proof -
  obtain sd where sd: "sides_of E bs fuel hs left right lca sd"
    and mc: "mc_conflicts mc = report E policy (left < right) sd"
    using assms unfolding detect_run by auto
  have "(right < left) = (\<not> left < right) \<or> fst (sd_edges sd) = fst (snd (sd_edges sd))"
  proof (cases "left = right")
    case True
    with sd show ?thesis unfolding sides_of_def by auto
  qed auto
  from report_mirror [OF this] have "list_all2 mirrored (mc_conflicts mc) (report E policy (right < left) (flip_sides sd))"
    unfolding mc .
  with sides_flip [OF sd] show ?thesis
    unfolding detect_run by (intro exI conjI) (assumption | rule refl | simp)+
qed

section \<open>The detector on two views\<close>

definition tomb_entry :: "node_id set \<Rightarrow> node_id set \<Rightarrow> node_id \<Rightarrow> conflict \<Rightarrow> bool" where
  "tomb_entry left_ts right_ts n c \<longleftrightarrow> cf_node_id c = Some n \<and> cf_category c = TombstoneVsModify \<and>
     (n \<in> left_ts \<longrightarrow> cf_left c = json_tombstoned) \<and> (n \<in> right_ts \<longrightarrow> cf_right c = json_tombstoned)"

lemma upgrade_tomb_entry:
  assumes "(n \<in> lt) \<noteq> (n \<in> rt)" and "cf_node_id c = Some n"
  shows "tomb_entry lt rt n (upgrade_conflict E policy lt rt c)"
  using assms by (auto simp: tomb_entry_def upgrade_conflict_def Let_def)

lemma emit_side_keeps: "c \<in> set cs \<Longrightarrow> c \<in> set (emit_side emit n cs)"
  by (auto simp: emit_side_def split: option.split)

lemma emit_sides_keep: "c \<in> set cs \<Longrightarrow> c \<in> set (fold (emit_side emit) ns cs)"
  by (induction ns arbitrary: cs) (auto intro: emit_side_keeps)

lemma emit_sides_new:
  assumes "n \<in> set ns" and "emit n = Some c" and "\<forall>d \<in> set cs. cf_node_id d \<noteq> Some n"
    and "\<And>m d. emit m = Some d \<Longrightarrow> cf_node_id d = Some m"
  shows "c \<in> set (fold (emit_side emit) ns cs)"
  using assms(1,3)
proof (induction ns arbitrary: cs)
  case (Cons m ns)
  show ?case
  proof (cases "m = n")
    case True
    then have "c \<in> set (emit_side emit m cs)"
      using Cons.prems(2) assms(2) by (auto simp: emit_side_def list_ex_iff)
    then show ?thesis by (simp add: emit_sides_keep)
  next
    case False
    then have "\<forall>d \<in> set (emit_side emit m cs). cf_node_id d \<noteq> Some n"
      using Cons.prems(2) assms(4) [of m] by (auto simp: emit_side_def split: option.split)
    with Cons False show ?thesis by simp
  qed
qed simp

lemma emit_sides_absent:
  assumes "n \<notin> set ns" and "\<forall>d \<in> set cs. cf_node_id d \<noteq> Some n"
    and "\<And>m d. emit m = Some d \<Longrightarrow> cf_node_id d = Some m"
  shows "\<forall>d \<in> set (fold (emit_side emit) ns cs). cf_node_id d \<noteq> Some n"
  using assms(1,2)
proof (induction ns arbitrary: cs)
  case (Cons m ns)
  then have "\<forall>d \<in> set (emit_side emit m cs). cf_node_id d \<noteq> Some n"
    using assms(3) [of m] by (auto simp: emit_side_def split: option.split)
  with Cons show ?case by simp
qed simp

lemma emit_for_key: "emit_for E policy L R n b = Some c \<Longrightarrow> cf_node_id c = Some n"
  by (auto simp: emit_for_def split: option.splits)

lemma upgrade_node_id [simp]: "cf_node_id (upgrade_conflict E policy lt rt c) = cf_node_id c"
  by (auto simp: upgrade_conflict_def Let_def split: option.split)

lemma detect_views_run:
  assumes "detect_conflicts_with_views E bs fuel hs left right lca lv rv policy = Inr mc"
  obtains sd where "sides_of E bs fuel hs left right lca sd"
    and "mc = \<lparr>mc_schema = MERGE_CONFLICTS_SCHEMA, mc_left_head = left, mc_right_head = right, mc_lca = lca,
      mc_conflicts = sort_key conflict_rank
        (fold (emit_side (\<lambda>n. emit_for E policy (fst (sd_nodes sd)) (fst (snd (sd_nodes sd))) n False))
          (sorted_list_of_fset (fmdom (vw_tombstones rv)))
          (fold (emit_side (\<lambda>n. emit_for E policy (fst (sd_nodes sd)) (fst (snd (sd_nodes sd))) n True))
            (sorted_list_of_fset (fmdom (vw_tombstones lv)))
            (map (upgrade_conflict E policy (fset (fmdom (vw_tombstones lv))) (fset (fmdom (vw_tombstones rv))))
              (report E policy (left < right) sd))))\<rparr>"
proof -
  obtain mc0 lc rc L R where d: "detect_conflicts_with_policy E bs fuel hs left right lca policy = Inr mc0"
    and lc: "decode_from_store E de_commit bs left = Inr lc" and rc: "decode_from_store E de_commit bs right = Inr rc"
    and L: "collect_prolly E bs fuel (cm_nodes lc) = Inr L" and R: "collect_prolly E bs fuel (cm_nodes rc) = Inr R"
    and mc: "mc = mc0\<lparr>mc_conflicts := sort_key conflict_rank
      (fold (emit_side (\<lambda>n. emit_for E policy L R n False)) (sorted_list_of_fset (fmdom (vw_tombstones rv)))
        (fold (emit_side (\<lambda>n. emit_for E policy L R n True)) (sorted_list_of_fset (fmdom (vw_tombstones lv)))
          (map (upgrade_conflict E policy (fset (fmdom (vw_tombstones lv))) (fset (fmdom (vw_tombstones rv))))
            (mc_conflicts mc0))))\<rparr>"
    using assms unfolding detect_conflicts_with_views_def Let_def rbind_Inr_iff by blast
  obtain sd where sd: "sides_of E bs fuel hs left right lca sd"
    and mc0: "mc0 = \<lparr>mc_schema = MERGE_CONFLICTS_SCHEMA, mc_left_head = left, mc_right_head = right, mc_lca = lca,
         mc_conflicts = report E policy (left < right) sd\<rparr>"
    using d unfolding detect_run by blast
  have "fst (sd_nodes sd) = L" "fst (snd (sd_nodes sd)) = R"
    using sd lc rc L R unfolding sides_of_def by auto
  with mc mc0 sd that show thesis by auto
qed

lemma views_tombstone_reported:
  assumes "detect_conflicts_with_views E bs fuel hs left right lca lv rv policy = Inr mc"
    and "sides_of E bs fuel hs left right lca sd"
    and "(n |\<in>| fmdom (vw_tombstones lv)) \<noteq> (n |\<in>| fmdom (vw_tombstones rv))"
    and "fmlookup (fst (sd_nodes sd)) n \<noteq> None" and "fmlookup (fst (snd (sd_nodes sd))) n \<noteq> None"
  shows "\<exists>c \<in> set (mc_conflicts mc). tomb_entry (fset (fmdom (vw_tombstones lv))) (fset (fmdom (vw_tombstones rv))) n c"
proof -
  let ?lt = "fset (fmdom (vw_tombstones lv))" and ?rt = "fset (fmdom (vw_tombstones rv))"
  let ?L = "fst (sd_nodes sd)" and ?R = "fst (snd (sd_nodes sd))"
  let ?up = "map (upgrade_conflict E policy ?lt ?rt) (report E policy (left < right) sd)"
  let ?left = "fold (emit_side (\<lambda>n. emit_for E policy ?L ?R n True)) (sorted_list_of_fset (fmdom (vw_tombstones lv))) ?up"
  let ?all = "fold (emit_side (\<lambda>n. emit_for E policy ?L ?R n False)) (sorted_list_of_fset (fmdom (vw_tombstones rv))) ?left"
  obtain sd' where sd': "sides_of E bs fuel hs left right lca sd'"
    and mc: "set (mc_conflicts mc) = set ?all"
    by (rule detect_views_run [OF assms(1)]) (use sides_unique [OF _ assms(2)] in force)
  have keys: "\<And>m d b. emit_for E policy ?L ?R m b = Some d \<Longrightarrow> cf_node_id d = Some m" by (rule emit_for_key)
  show ?thesis
  proof (cases "\<exists>c \<in> set (report E policy (left < right) sd). cf_node_id c = Some n")
    case True
    then obtain c where c: "c \<in> set (report E policy (left < right) sd)" "cf_node_id c = Some n" by blast
    have "upgrade_conflict E policy ?lt ?rt c \<in> set ?all" using c(1) by (intro emit_sides_keep) simp
    moreover have "tomb_entry ?lt ?rt n (upgrade_conflict E policy ?lt ?rt c)"
      using assms(3) c(2) by (intro upgrade_tomb_entry) auto
    ultimately show ?thesis unfolding mc by blast
  next
    case False
    then have up: "\<forall>d \<in> set ?up. cf_node_id d \<noteq> Some n" by simp
    obtain l r where lr: "fmlookup ?L n = Some l" "fmlookup ?R n = Some r" using assms(4,5) by auto
    show ?thesis
    proof (cases "n \<in> ?lt")
      case True
      obtain c where c: "emit_for E policy ?L ?R n True = Some c" "tomb_entry ?lt ?rt n c"
        using lr True assms(3) by (simp add: emit_for_def tomb_entry_def)
      have "c \<in> set ?left"
        using True by (intro emit_sides_new [where emit = "\<lambda>n. emit_for E policy ?L ?R n True", OF _ c(1) up keys])
          (simp_all add: sorted_list_of_fset.rep_eq)
      then have "c \<in> set ?all" by (rule emit_sides_keep)
      with c(2) show ?thesis unfolding mc by blast
    next
      case False
      obtain c where c: "emit_for E policy ?L ?R n False = Some c" "tomb_entry ?lt ?rt n c"
        using lr False assms(3) by (simp add: emit_for_def tomb_entry_def)
      have "\<forall>d \<in> set ?left. cf_node_id d \<noteq> Some n"
        using False by (intro emit_sides_absent [where emit = "\<lambda>n. emit_for E policy ?L ?R n True", OF _ up keys])
          (simp_all add: sorted_list_of_fset.rep_eq)
      then have "c \<in> set ?all"
        using False assms(3) by (intro emit_sides_new [where emit = "\<lambda>n. emit_for E policy ?L ?R n False", OF _ c(1) _ keys])
          (simp_all add: sorted_list_of_fset.rep_eq)
      with c(2) show ?thesis unfolding mc by blast
    qed
  qed
qed

text \<open>With no tombstones in the views, the second entry point is the first.\<close>

lemma upgrade_none [simp]: "upgrade_conflict E policy {} {} c = c"
  by (simp add: upgrade_conflict_def split: option.split)

lemma report_sorted: "sort_key conflict_rank (report E policy w sd) = report E policy w sd"
  by (cases sd; cases "sd_tombs sd"; cases "sd_nodes sd"; cases "sd_edges sd") (auto simp: conflicts_sort)

lemma detect_empty_views:
  assumes "vw_tombstones lv = fmempty" and "vw_tombstones rv = fmempty"
    and "detect_conflicts_with_views E bs fuel hs left right lca lv rv policy = Inr mc"
  shows "detect_conflicts_with_policy E bs fuel hs left right lca policy = Inr mc"
proof -
  obtain sd where "sides_of E bs fuel hs left right lca sd"
    and "mc = \<lparr>mc_schema = MERGE_CONFLICTS_SCHEMA, mc_left_head = left, mc_right_head = right, mc_lca = lca,
         mc_conflicts = report E policy (left < right) sd\<rparr>"
    by (rule detect_views_run [OF assms(3)]) (simp add: assms(1,2) report_sorted map_idI sorted_list_of_fset.rep_eq)
  then show ?thesis unfolding detect_run by blast
qed

text \<open>Without operation heads to search, no commit has tombstones and none is reported.\<close>

lemma no_heads_no_tombs:
  assumes "sides_of E bs fuel [] left right lca sd" and "c \<in> set (report E policy w sd)"
  shows "cf_category c \<noteq> TombstoneVsModify"
proof -
  have t: "sd_tombs sd = ({}, {})"
    using assms(1) by (auto simp: sides_of_def tombstones_for_commit_def)
  obtain L R B le re be where sd: "sd = \<lparr>sd_tombs = ({}, {}), sd_nodes = (L, R, B), sd_edges = (le, re, be)\<rparr>"
    using t by (cases sd) auto
  have "cf_category c \<noteq> TombstoneVsModify" if n: "node_conflict E policy {} {} L R B k = Some c" for k
    using node_conflict_clash [of E policy "{}" "{}" L R B k] n
    by (auto simp: node_clash_def split: if_splits)
  moreover have "cf_category c \<noteq> TombstoneVsModify" if e: "edge_conflict E w le re be k = Some c" for k
    using edge_conflict_clash [of E w le re be k] e by (auto split: if_splits)
  ultimately show ?thesis
    using assms(2) by (auto simp: sd node_conflicts_def edge_conflicts_def set_map_filter)
qed

end
