(* ===== verification/Merge_Heads.thy ===== *)
theory Merge_Heads imports Repo_State Conflict_Spec begin

text \<open>
  The two entry points of \<open>crates/mnem-core/src/repo/merge.rs\<close>: \<open>merge_op_heads\<close>, which brings concurrent
  operation heads back to one, and \<open>merge_three_way\<close>, the merge of two branches.
\<close>

section \<open>\<open>merge_op_heads\<close>\<close>

definition load_head ::
    "('c, 'h, 'b) external \<Rightarrow> ('c, 'b) store \<Rightarrow> 'c \<Rightarrow> 'c error + ('c operation \<times> 'c view \<times> ('c \<times> 'c commit) option)" where
  "load_head E bs h =
     rbind (decode_from_store E de_operation bs h) (\<lambda>op.
     rbind (decode_from_store E de_view bs (op_view op)) (\<lambda>view.
     rbind (head_commit_of E bs view) (\<lambda>commit.
     Inr (op, view, commit))))"

definition merge_op ::
    "('c, 'h, 'b) external \<Rightarrow> 'c list \<Rightarrow> 'c operation list \<Rightarrow> 'c \<Rightarrow> 'c operation" where
  "merge_op E heads head_ops view_cid =
     (let merge_time = max_time (map op_time head_ops) + 1;
          description = describe_merge E heads in
      fold (\<lambda>h op. op_with_parent op h) heads (operation_new view_cid MERGE_AUTHOR merge_time description))"

definition merge_blocks ::
    "('c::linorder, 'h, 'b) external \<Rightarrow> nat \<Rightarrow> 'c list \<Rightarrow> (('c, 'b) store, 'c error, 'c) prog" where
  "merge_blocks E fuel heads =
     sbind (sread (\<lambda>bs. rmap (load_head E bs) heads)) (\<lambda>loaded.
     let head_ops = map fst loaded;
         head_views = map (fst \<circ> snd) loaded;
         head_commits = map (snd \<circ> snd) loaded in
     sbind (sread (\<lambda>bs. rbind (find_lca_many E bs heads) (\<lambda>a. ok_or a (Repo NoCommonAncestor)))) (\<lambda>ancestor_cid.
     sbind (sread (\<lambda>bs. decode_from_store E de_operation bs ancestor_cid)) (\<lambda>ancestor_op.
     sbind (sread (\<lambda>bs. decode_from_store E de_view bs (op_view ancestor_op))) (\<lambda>ancestor_view.
     let merged_view = merge_views ancestor_view head_views in
     sbind (build_merge_commit E fuel head_commits) (\<lambda>merge_commit.
     let merged_view = (case merge_commit of Some cid \<Rightarrow> merged_view\<lparr>vw_heads := [cid]\<rparr> | None \<Rightarrow> merged_view) in
     sbind (put_object E (ser_view merged_view)) (\<lambda>view_cid.
     put_object E (ser_operation (merge_op E heads head_ops view_cid))))))))"

definition merge_op_heads ::
    "('c::linorder, 'h, 'b) external \<Rightarrow> nat \<Rightarrow> 'c list \<Rightarrow> (('c, 'b) repo_state, 'c error, 'c) prog" where
  "merge_op_heads E fuel heads =
     (if length heads < 2 then slift (Inl Panic)
      else
        let heads = sort heads in
        sbind (on_blocks (merge_blocks E fuel heads)) (\<lambda>op_cid.
        sbind (heads_update op_cid heads) (\<lambda>_. sret op_cid)))"

section \<open>\<open>merge_three_way\<close>\<close>

datatype 'c merge_outcome = FastForward 'c | Clean 'c | Conflicts "'c merge_conflicts"

text \<open>The repository the detector looks at: its op-heads store is a fresh one, hence empty.\<close>

definition build_detection_repo ::
    "('c, 'h, 'b) external \<Rightarrow> 'c \<Rightarrow> (('c, 'b) store, 'c error, 'c readonly_repo \<times> 'c op_heads) prog" where
  "build_detection_repo E commit_cid =
     sbind (put_object E (ser_view (with_head view_new commit_cid))) (\<lambda>view_cid.
     sbind (put_object E (ser_operation (operation_new view_cid MERGE_AUTHOR 0 ''merge-detect''))) (\<lambda>op_cid.
     sbind (sread (\<lambda>bs. load_at E bs op_cid)) (\<lambda>repo. sret (repo, oh_new))))"

definition merge_three_way ::
    "('c::linorder, 'h, 'b) external \<Rightarrow> nat \<Rightarrow> 'c \<Rightarrow> 'c \<Rightarrow> merge_strategy \<Rightarrow> (('c, 'b) store, 'c error, 'c merge_outcome) prog" where
  "merge_three_way E fuel left right strategy =
     sbind (sread (\<lambda>bs. find_commit_lca E bs left right)) (\<lambda>lca_cid.
     case lca_cid of
       None \<Rightarrow> slift (Inl (Repo NoCommonAncestor))
     | Some lca \<Rightarrow>
         if lca = right then sret (FastForward left)
         else if lca = left then sret (FastForward right)
         else
           sbind (sread (\<lambda>bs. decode_from_store E de_commit bs left)) (\<lambda>left_commit.
           sbind (sread (\<lambda>bs. decode_from_store E de_commit bs right)) (\<lambda>right_commit.
           let empty_view = view_new in
           sbind (build_detection_repo E left) (\<lambda>(repo, op_heads).
           sbind (sread (\<lambda>bs. detect_conflicts_with_views E bs fuel (oh_current op_heads) left right lca_cid
             empty_view empty_view default_policy)) (\<lambda>mc.
           if mc_conflicts mc \<noteq> [] \<and> strategy = Manual then sret (Conflicts mc)
           else
             sbind (if strategy \<noteq> Manual \<and> (mc_conflicts mc \<noteq> [] \<or>
                 cm_nodes left_commit \<noteq> cm_nodes right_commit \<or> cm_edges left_commit \<noteq> cm_edges right_commit)
               then
                 sbind (strategy_union_prolly_trees E fuel (cm_nodes left_commit) (cm_nodes right_commit) strategy) (\<lambda>node_outcome.
                 sbind (strategy_union_prolly_trees E fuel (cm_edges left_commit) (cm_edges right_commit) strategy) (\<lambda>edge_outcome.
                 build_merge_commit_from_trees E fuel left right left_commit right_commit
                   (un_root node_outcome) (un_root edge_outcome)))
               else
                 sbind (build_merge_commit E fuel [Some (left, left_commit), Some (right, right_commit)]) (\<lambda>r.
                 slift (ok_or r (Repo NoCommonAncestor))))
             (\<lambda>merge_cid. sret (Clean merge_cid)))))))"

section \<open>Conflicts for display\<close>

datatype conflict_side = LeftSide | RightSide

definition conflict_category_counts :: "'c merge_conflicts \<Rightarrow> nat \<times> nat \<times> nat" where
  "conflict_category_counts mc =
     fold (\<lambda>c (node_cid, edge_prop, tvm). case cf_category c of
         NodeCidDivergence \<Rightarrow> (node_cid + 1, edge_prop, tvm)
       | EdgePropCollision \<Rightarrow> (node_cid, edge_prop + 1, tvm)
       | TombstoneVsModify \<Rightarrow> (node_cid, edge_prop, tvm + 1)) (mc_conflicts mc) (0, 0, 0)"

definition picks_from_strategy :: "'c merge_conflicts \<Rightarrow> merge_strategy \<Rightarrow> 'c error + (conflict \<times> conflict_side) list" where
  "picks_from_strategy mc strategy =
     (let side = (case strategy of Ours \<Rightarrow> Inr LeftSide | Theirs \<Rightarrow> Inr RightSide | Manual \<Rightarrow> Inl (Repo Stale)) in
      rbind side (\<lambda>side. Inr (map (\<lambda>c. (c, side)) (mc_conflicts mc))))"

section \<open>Stability\<close>

lemma stable_load_head [stable_intros]: "stable_read (\<lambda>s. load_head E s h)"
  unfolding load_head_def by (intro stable_intros)

lemma stable_merge_blocks [stable_intros]: "stable (merge_blocks E fuel heads)"
  unfolding merge_blocks_def Let_def by (intro stable_intros)

end
