(* ===== verification/Merge_Heads_Spec.thy ===== *)
theory Merge_Heads_Spec imports Merge_Heads begin

text \<open>
  What the merge of concurrent operation heads leaves behind: one operation over all heads, whose view is the
  three-way merge of the heads' views and whose commit, where the heads differ in theirs, is the merge commit; and
  what a branch merge answers.
\<close>

section \<open>Merging only adds blocks\<close>

lemma preserves_if [preserve_intros]:
  "(P \<Longrightarrow> preserves R m) \<Longrightarrow> (\<not> P \<Longrightarrow> preserves R n) \<Longrightarrow> preserves R (if P then m else n)"
  by simp

lemma preserves_case_option [preserve_intros]:
  "(\<And>x. preserves R (f x)) \<Longrightarrow> preserves R m \<Longrightarrow> preserves R (case r of Some x \<Rightarrow> f x | None \<Rightarrow> m)"
  by (cases r) simp_all

named_theorems merge_grows \<open>store programs of the merge that only add blocks\<close>

lemma put_grows [merge_grows]: "crypto_ok E \<Longrightarrow> preserves (grows E) (put_object E v)"
  by (rule put_object_grows) (simp add: crypto_ok_def)

lemma tree_grows [merge_grows]: "crypto_ok E \<Longrightarrow> preserves (grows E) (build_tree E es)"
  by (rule build_tree_grows) (simp add: crypto_ok_def)

lemma label_trees_grows [merge_grows]: "crypto_ok E \<Longrightarrow> preserves (grows E) (build_label_trees E G)"
  unfolding preserves_def by (metis build_label_trees_grows prod.collapse)

lemma prop_trees_grows [merge_grows]: "crypto_ok E \<Longrightarrow> preserves (grows E) (build_prop_trees E G)"
  unfolding preserves_def by (metis build_prop_trees_grows prod.collapse)

lemma adjacency_grows [merge_grows]: "crypto_ok E \<Longrightarrow> preserves (grows E) (build_adjacency E f m)"
  unfolding build_adjacency_def case_prod_unfold by (intro preserve_intros merge_grows)

lemma index_set_grows [merge_grows]: "crypto_ok E \<Longrightarrow> preserves (grows E) (build_index_set E fuel n e)"
  unfolding build_index_set_def case_prod_unfold by (intro preserve_intros merge_grows)

lemma union_grows [merge_grows]: "crypto_ok E \<Longrightarrow> preserves (grows E) (union_prolly_trees E fuel roots)"
  unfolding union_prolly_trees_def case_prod_unfold by (intro preserve_intros merge_grows)

lemma strategy_union_grows [merge_grows]: "crypto_ok E \<Longrightarrow> preserves (grows E) (strategy_union_prolly_trees E fuel l r st)"
  unfolding strategy_union_prolly_trees_def case_prod_unfold Let_def by (intro preserve_intros merge_grows)

lemma merge_commit_grows [merge_grows]: "crypto_ok E \<Longrightarrow> preserves (grows E) (build_merge_commit E fuel hcs)"
  unfolding build_merge_commit_def Let_def by (intro preserve_intros merge_grows)

lemma from_trees_grows [merge_grows]:
  "crypto_ok E \<Longrightarrow> preserves (grows E) (build_merge_commit_from_trees E fuel l r lc rc mn me)"
  unfolding build_merge_commit_from_trees_def Let_def by (intro preserve_intros merge_grows)

lemma merge_blocks_grows [merge_grows]: "crypto_ok E \<Longrightarrow> preserves (grows E) (merge_blocks E fuel heads)"
  unfolding merge_blocks_def Let_def by (intro preserve_intros merge_grows)

section \<open>\<open>merge_op_heads\<close>\<close>

definition merged_view_of :: "'c::linorder view \<Rightarrow> 'c view list \<Rightarrow> 'c option \<Rightarrow> 'c view" where
  "merged_view_of av views mc =
     (case mc of Some cid \<Rightarrow> (merge_views av views)\<lparr>vw_heads := [cid]\<rparr> | None \<Rightarrow> merge_views av views)"

lemma merge_op_parts:
  "op_parents (merge_op E heads ops vc) = heads" "op_view (merge_op E heads ops vc) = vc"
  "op_author (merge_op E heads ops vc) = MERGE_AUTHOR" "op_description (merge_op E heads ops vc) = describe_merge E heads"
  "op_time (merge_op E heads ops vc) = max_time (map op_time ops) + 1" "operation_ok (merge_op E heads ops vc)"
proof -
  have f: "fold (\<lambda>h op. op_with_parent op h) hs op = op\<lparr>op_parents := op_parents op @ hs\<rparr>" for hs and op :: "'a operation"
    by (induction hs arbitrary: op) (simp_all add: op_with_parent_def)
  show "op_parents (merge_op E heads ops vc) = heads" "op_view (merge_op E heads ops vc) = vc"
    "op_author (merge_op E heads ops vc) = MERGE_AUTHOR" "op_description (merge_op E heads ops vc) = describe_merge E heads"
    "op_time (merge_op E heads ops vc) = max_time (map op_time ops) + 1"
    by (simp_all add: merge_op_def f operation_new_def Let_def)
  show "operation_ok (merge_op E heads ops vc)"
    by (simp add: merge_op_def f operation_new_def Let_def operation_ok_def extra_ok_def list_all_iff)
qed

lemma merge_blocks_run:
  assumes "merge_blocks E fuel heads s = (Inr c, t)"
  obtains loaded a aop av mc s1 vc s2 where
    "rmap (load_head E s) heads = Inr loaded" and "find_lca_many E s heads = Inr (Some a)"
    and "decode_from_store E de_operation s a = Inr aop" and "decode_from_store E de_view s (op_view aop) = Inr av"
    and "build_merge_commit E fuel (map (snd \<circ> snd) loaded) s = (Inr mc, s1)"
    and "put_object E (ser_view (merged_view_of av (map (fst \<circ> snd) loaded) mc)) s1 = (Inr vc, s2)"
    and "put_object E (ser_operation (merge_op E heads (map fst loaded) vc)) s2 = (Inr c, t)"
  using assms unfolding merge_blocks_def Let_def merged_view_of_def [symmetric]
  by (auto simp: monad_simps)

lemma loaded_views:
  assumes "rmap (load_head E s) heads = Inr loaded"
  shows "list_all2 (\<lambda>h (op, view, commit). decode_from_store E de_operation s h = Inr op \<and>
    decode_from_store E de_view s (op_view op) = Inr view \<and> head_commit_of E s view = Inr commit) heads loaded"
  using assms unfolding rmap_Inr_iff load_head_def
  by (elim list.rel_mono_strong) (auto simp: monad_simps)

lemma merged_view_ok:
  assumes "rmap (load_head E s) heads = Inr loaded" and "decode_from_store E de_view s vcid = Inr av"
  shows "view_ok (merged_view_of av (map (fst \<circ> snd) loaded) mc)"
proof -
  have "\<forall>v \<in> set (map (fst \<circ> snd) loaded). view_ok v"
    using loaded_views [OF assms(1)]
    by (fastforce simp: list_all2_conv_all_nth in_set_conv_nth intro: view_read.decode_ok)
  then have "view_ok (merge_views av (map (fst \<circ> snd) loaded))"
    by (intro merge_views_ok view_read.decode_ok [OF assms(2)])
  then show ?thesis by (cases mc) (simp_all add: merged_view_of_def view_ok_def)
qed

lemma merge_blocks_spec:
  assumes "merge_blocks E fuel heads s = (Inr c, t)" and "crypto_ok E" and "trusted E s"
  shows "\<exists>loaded a aop av mc op.
    rmap (load_head E s) heads = Inr loaded \<and> find_lca_many E s heads = Inr (Some a) \<and>
    decode_from_store E de_operation s a = Inr aop \<and> decode_from_store E de_view s (op_view aop) = Inr av \<and>
    fst (build_merge_commit E fuel (map (snd \<circ> snd) loaded) s) = Inr mc \<and>
    grows E (snd (build_merge_commit E fuel (map (snd \<circ> snd) loaded) s)) t \<and>
    decode_from_store E de_operation t c = Inr op \<and> op_parents op = heads \<and>
    decode_from_store E de_view t (op_view op) = Inr (merged_view_of av (map (fst \<circ> snd) loaded) mc)"
proof -
  obtain loaded a aop av mc s1 vc s2 where
    l: "rmap (load_head E s) heads = Inr loaded" and a: "find_lca_many E s heads = Inr (Some a)"
    and ao: "decode_from_store E de_operation s a = Inr aop" and av: "decode_from_store E de_view s (op_view aop) = Inr av"
    and m: "build_merge_commit E fuel (map (snd \<circ> snd) loaded) s = (Inr mc, s1)"
    and v: "put_object E (ser_view (merged_view_of av (map (fst \<circ> snd) loaded) mc)) s1 = (Inr vc, s2)"
    and p: "put_object E (ser_operation (merge_op E heads (map fst loaded) vc)) s2 = (Inr c, t)"
    by (rule merge_blocks_run [OF assms(1)])
  note g = preservesD [OF merge_commit_grows [OF assms(2)] m] preservesD [OF put_grows [OF assms(2)] v]
    preservesD [OF put_grows [OF assms(2)] p]
  have tr: "trusted E s1" "trusted E s2" using g(1,2) assms(3) grows_trusted by blast+
  have cr: "codec_roundtrip E" using assms(2) by (simp add: crypto_ok_def)
  let ?op = "merge_op E heads (map fst loaded) vc"
  have "decode_from_store E de_operation t c = Inr ?op"
    by (rule operation_wire.put_reads_back [OF p cr merge_op_parts(6)])
  moreover have "decode_from_store E de_view t (op_view ?op) = Inr (merged_view_of av (map (fst \<circ> snd) loaded) mc)"
    unfolding merge_op_parts
    by (rule decode_from_store_mono [OF view_wire.put_reads_back [OF v cr merged_view_ok [OF l av]] g(3) tr(2)])
  moreover have "grows E s1 t" using g(2,3) by (rule grows_trans)
  ultimately show ?thesis using l a ao av m merge_op_parts(1) by (intro exI conjI) (assumption | simp)+
qed

lemma merge_op_heads_Inr:
  "merge_op_heads E fuel heads s = (Inr c, t) \<longleftrightarrow> 2 \<le> length heads \<and>
     (\<exists>bs. merge_blocks E fuel (sort heads) (rs_blocks s) = (Inr c, bs) \<and>
       t = s\<lparr>rs_blocks := bs, rs_heads := oh_update c (sort heads) (rs_heads s)\<rparr>)"
  by (auto simp: merge_op_heads_def Let_def monad_simps on_blocks_Inr heads_update_Inr)

lemma merge_op_heads_converges:
  assumes "merge_op_heads E fuel heads s = (Inr c, s')" and "mset heads' = mset heads" and "repo_le s t"
  shows "\<exists>t'. merge_op_heads E fuel heads' t = (Inr c, t') \<and> repo_le s' t' \<and>
    rs_heads t' = oh_update c (sort heads) (rs_heads t)"
proof -
  have h: "sort heads' = sort heads" using assms(2) by (metis sorted_list_of_multiset_mset)
  have n: "length heads' = length heads" using assms(2) by (rule mset_eq_length)
  from assms(1) obtain bs where m: "merge_blocks E fuel (sort heads) (rs_blocks s) = (Inr c, bs)"
    and s': "s' = s\<lparr>rs_blocks := bs, rs_heads := oh_update c (sort heads) (rs_heads s)\<rparr>" and two: "2 \<le> length heads"
    unfolding merge_op_heads_Inr by blast
  obtain bs' where "merge_blocks E fuel (sort heads) (rs_blocks t) = (Inr c, bs')" "store_le bs bs'"
    using stableD [OF stable_merge_blocks m] assms(3) unfolding repo_le_def by blast
  then show ?thesis using two n h s' unfolding merge_op_heads_Inr by (auto simp: repo_le_def)
qed

end
