(* ===== verification/Merge_Branches.thy ===== *)
theory Merge_Branches imports Merge_Heads_Spec begin

text \<open>
  What \<open>merge_three_way\<close> answers. A clean merge commits the trees \<open>strategy_map\<close> describes, whichever of the two
  builders made it; an unclean one reports exactly the clashes, and never a tombstone.
\<close>

section \<open>The commit of two merged trees\<close>

lemma from_trees_spec:
  assumes "build_merge_commit_from_trees E fuel l r lc rc mn me s = (Inr cid, t)" and "crypto_ok E" and "trusted E s"
    and "tree_holds E s fuel mn nes" and "tree_holds E s fuel me ees"
    and "length nes + 2 \<le> fuel" and "length ees + 2 \<le> fuel"
  shows "grows E s t \<and> (\<exists>c. decode_from_store E de_commit t cid = Inr c \<and> cm_parents c = sort [l, r] \<and>
    cm_nodes c = mn \<and> cm_edges c = me \<and> cm_extra c = fmempty \<and>
    (\<exists>ix. cm_indexes c = Some ix \<and> indexes_match E t fuel [lc, rc] mn me ix))"
proof -
  let ?c = "\<lambda>ix change. fold (\<lambda>p commit. cm_with_parent commit p) (sort [l, r])
    ((commit_new change mn me (if l \<le> r then cm_schema lc else cm_schema rc) MERGE_AUTHOR
      (max (cm_time lc) (cm_time rc) + 1) MERGE_COMMIT_MESSAGE)\<lparr>cm_indexes := Some ix\<rparr>)"
  from assms(1) obtain ix s1 change where i: "index_choice E fuel mn me [lc, rc] s = (Inr ix, s1)"
    and p: "put_object E (ser_commit (?c ix change)) s1 = (Inr cid, t)"
    unfolding build_merge_commit_from_trees_def Let_def index_choice_def [symmetric]
    by (auto simp: monad_simps)
  have I: "grows E s s1 \<and> indexes_match E s1 fuel [lc, rc] mn me ix"
    by (rule index_choice_run [OF i assms(2-7)])
  have tr: "trusted E s1" using I assms(3) grows_trusted by blast
  have g: "grows E s1 t" using put_grows [OF assms(2)] p by (rule preservesD)
  define C where "C = \<lparr>cm_change_id = change, cm_parents = sort [l, r], cm_nodes = mn, cm_edges = me,
      cm_schema = (if l \<le> r then cm_schema lc else cm_schema rc), cm_delta = None, cm_indexes = Some ix,
      cm_embeddings = None, cm_sparse = None, cm_author = MERGE_AUTHOR, cm_agent_id = None, cm_task_id = None,
      cm_time = max (cm_time lc) (cm_time rc) + 1, cm_message = MERGE_COMMIT_MESSAGE, cm_signature = None,
      cm_extra = fmempty\<rparr>"
  have c: "?c ix change = C"
    by (simp add: fold_with_parent commit_new_def C_def)
  have "commit_ok (?c ix change)" unfolding c by (simp add: C_def commit_ok_def extra_ok_def list_all_iff)
  then have "decode_from_store E de_commit t cid = Inr (?c ix change)"
    using assms(2) by (intro commit_wire.put_reads_back [OF p]) (simp_all add: crypto_ok_def)
  moreover have "indexes_match E t fuel [lc, rc] mn me ix" using I g tr by (blast intro: indexes_match_mono)
  moreover have "grows E s t" using I g by (blast intro: grows_trans)
  moreover have "cm_parents C = sort [l, r]" "cm_nodes C = mn" "cm_edges C = me" "cm_extra C = fmempty" "cm_indexes C = Some ix"
    by (simp_all add: C_def)
  ultimately show ?thesis unfolding c by blast
qed

lemma union_map_two: "union_map [les, res] = strategy_map Manual (map_of les) (map_of res)"
proof
  fix k
  have "candidates [les, res] k = set_option (map_of les k) \<union> set_option (map_of res k)"
    by (auto simp: candidates_def)
  then show "union_map [les, res] k = strategy_map Manual (map_of les) (map_of res) k"
    by (cases "map_of les k"; cases "map_of res k") (auto simp: union_map_def strategy_map_def max.commute)
qed

lemma strategy_map_same: "strategy_map st f f = f"
  by (auto simp: strategy_map_def fun_eq_iff split: option.split)

section \<open>The pipeline\<close>

definition branch_trees ::
    "('c, 'h, 'b) external \<Rightarrow> ('c, 'b) store \<Rightarrow> nat \<Rightarrow> ('c \<Rightarrow> (prolly_key \<times> 'c) list) \<Rightarrow> 'c commit \<Rightarrow> 'c commit \<Rightarrow> bool" where
  "branch_trees E s fuel ents lc rc \<longleftrightarrow>
     roots_hold E s fuel ents [cm_nodes lc, cm_nodes rc] \<and> roots_hold E s fuel ents [cm_edges lc, cm_edges rc]"

definition detected ::
    "('c::linorder, 'h, 'b) external \<Rightarrow> nat \<Rightarrow> 'c \<Rightarrow> 'c \<Rightarrow> 'c option \<Rightarrow> (('c, 'b) store, 'c error, 'c merge_conflicts) prog" where
  "detected E fuel left right lca =
     sbind (build_detection_repo E left) (\<lambda>(repo, op_heads).
     sread (\<lambda>bs. detect_conflicts_with_views E bs fuel (oh_current op_heads) left right lca view_new view_new default_policy))"

definition write_merge ::
    "('c::linorder, 'h, 'b) external \<Rightarrow> nat \<Rightarrow> 'c \<Rightarrow> 'c \<Rightarrow> merge_strategy \<Rightarrow> 'c commit \<Rightarrow> 'c commit \<Rightarrow> bool
       \<Rightarrow> (('c, 'b) store, 'c error, 'c) prog" where
  "write_merge E fuel left right strategy lc rc clash =
     (if strategy \<noteq> Manual \<and> (clash \<or> cm_nodes lc \<noteq> cm_nodes rc \<or> cm_edges lc \<noteq> cm_edges rc)
      then
        sbind (strategy_union_prolly_trees E fuel (cm_nodes lc) (cm_nodes rc) strategy) (\<lambda>no.
        sbind (strategy_union_prolly_trees E fuel (cm_edges lc) (cm_edges rc) strategy) (\<lambda>eo.
        build_merge_commit_from_trees E fuel left right lc rc (un_root no) (un_root eo)))
      else
        sbind (build_merge_commit E fuel [Some (left, lc), Some (right, rc)]) (\<lambda>r.
        slift (ok_or r (Repo NoCommonAncestor))))"

lemma three_way_run:
  assumes "merge_three_way E fuel left right strategy s = (Inr r, t)"
  obtains lca where "find_commit_lca E s left right = Inr (Some lca)"
    and "lca = right \<Longrightarrow> r = FastForward left \<and> t = s"
    and "lca \<noteq> right \<Longrightarrow> lca = left \<Longrightarrow> r = FastForward right \<and> t = s"
    and "lca \<noteq> right \<Longrightarrow> lca \<noteq> left \<Longrightarrow> \<exists>lc rc mc s1.
      decode_from_store E de_commit s left = Inr lc \<and> decode_from_store E de_commit s right = Inr rc \<and>
      detected E fuel left right (Some lca) s = (Inr mc, s1) \<and>
      (if mc_conflicts mc \<noteq> [] \<and> strategy = Manual then r = Conflicts mc \<and> t = s1
       else \<exists>cid. r = Clean cid \<and> write_merge E fuel left right strategy lc rc (mc_conflicts mc \<noteq> []) s1 = (Inr cid, t))"
proof -
  have d: "sbind (build_detection_repo E left) (\<lambda>(repo, op_heads).
        sbind (sread (\<lambda>bs. detect_conflicts_with_views E bs fuel (oh_current op_heads) left right lca view_new view_new default_policy)) k)
      = sbind (detected E fuel left right lca) k" for lca k
    by (simp add: detected_def sbind_assoc case_prod_unfold)
  from assms obtain l where l: "find_commit_lca E s left right = Inr l"
    and k: "(case l of None \<Rightarrow> slift (Inl (Repo NoCommonAncestor))
     | Some lca \<Rightarrow>
         if lca = right then sret (FastForward left)
         else if lca = left then sret (FastForward right)
         else
           sbind (sread (\<lambda>bs. decode_from_store E de_commit bs left)) (\<lambda>left_commit.
           sbind (sread (\<lambda>bs. decode_from_store E de_commit bs right)) (\<lambda>right_commit.
           sbind (detected E fuel left right l) (\<lambda>mc.
           if mc_conflicts mc \<noteq> [] \<and> strategy = Manual then sret (Conflicts mc)
           else
             sbind (write_merge E fuel left right strategy left_commit right_commit (mc_conflicts mc \<noteq> []))
               (\<lambda>merge_cid. sret (Clean merge_cid)))))) s = (Inr r, t)"
    unfolding merge_three_way_def Let_def d write_merge_def [symmetric]
    by (simp add: sbind_sread split: sum.splits)
  show thesis
  proof (cases l)
    case (Some lca)
    have 1: "lca = right \<Longrightarrow> r = FastForward left \<and> t = s"
      and 2: "lca \<noteq> right \<Longrightarrow> lca = left \<Longrightarrow> r = FastForward right \<and> t = s"
      using k Some by (simp_all add: sret_def)
    have 3: "\<exists>lc rc mc s1.
      decode_from_store E de_commit s left = Inr lc \<and> decode_from_store E de_commit s right = Inr rc \<and>
      detected E fuel left right (Some lca) s = (Inr mc, s1) \<and>
      (if mc_conflicts mc \<noteq> [] \<and> strategy = Manual then r = Conflicts mc \<and> t = s1
       else \<exists>cid. r = Clean cid \<and> write_merge E fuel left right strategy lc rc (mc_conflicts mc \<noteq> []) s1 = (Inr cid, t))"
      if ne: "lca \<noteq> right" "lca \<noteq> left"
    proof -
      from k Some ne obtain lc rc mc s1 where "decode_from_store E de_commit s left = Inr lc"
        "decode_from_store E de_commit s right = Inr rc" "detected E fuel left right (Some lca) s = (Inr mc, s1)"
        and last: "(if mc_conflicts mc \<noteq> [] \<and> strategy = Manual then sret (Conflicts mc)
           else sbind (write_merge E fuel left right strategy lc rc (mc_conflicts mc \<noteq> []))
               (\<lambda>merge_cid. sret (Clean merge_cid))) s1 = (Inr r, t)"
        by (auto simp: sbind_Inr_iff sread_apply)
      moreover from last have "if mc_conflicts mc \<noteq> [] \<and> strategy = Manual then r = Conflicts mc \<and> t = s1
       else \<exists>cid. r = Clean cid \<and> write_merge E fuel left right strategy lc rc (mc_conflicts mc \<noteq> []) s1 = (Inr cid, t)"
        by (auto simp: sbind_Inr_iff sret_apply split: if_splits)
      ultimately show ?thesis by blast
    qed
    show thesis by (rule that [OF l [unfolded Some] 1 2 3])
  qed (use k in \<open>simp add: slift_def\<close>)
qed

section \<open>What a clean merge writes\<close>

definition branch_commit ::
    "('c::linorder, 'h, 'b) external \<Rightarrow> ('c, 'b) store \<Rightarrow> nat \<Rightarrow> merge_strategy \<Rightarrow> ('c \<Rightarrow> (prolly_key \<times> 'c) list)
       \<Rightarrow> 'c list \<Rightarrow> 'c commit \<Rightarrow> 'c commit \<Rightarrow> 'c commit \<Rightarrow> bool" where
  "branch_commit E t fuel st ents parents lc rc c \<longleftrightarrow>
     cm_parents c = sort parents \<and>
     tree_of_map E t fuel (cm_nodes c) (strategy_map st (map_of (ents (cm_nodes lc))) (map_of (ents (cm_nodes rc)))) \<and>
     tree_of_map E t fuel (cm_edges c) (strategy_map st (map_of (ents (cm_edges lc))) (map_of (ents (cm_edges rc)))) \<and>
     (\<exists>ix. cm_indexes c = Some ix \<and> indexes_match E t fuel [lc, rc] (cm_nodes c) (cm_edges c) ix)"

lemma strategy_map_size:
  assumes "fmlookup m = strategy_map st (map_of les) (map_of res)"
  shows "length (bt_iter m) \<le> length les + length res"
proof -
  have "fset (fmdom m) \<subseteq> fst ` set (les @ res)"
  proof
    fix k assume "k \<in> fset (fmdom m)"
    then have "map_of les k \<noteq> None \<or> map_of res k \<noteq> None"
      using assms by (auto simp: fmlookup_dom_iff strategy_map_def split: option.splits)
    then show "k \<in> fst ` set (les @ res)" by (force dest: map_of_SomeD)
  qed
  then show ?thesis using length_bt_iter_le [of m "les @ res"] by simp
qed

lemma write_merge_spec:
  assumes w: "write_merge E fuel left right st lc rc clash s = (Inr cid, t)" and cr: "crypto_ok E" and tr: "trusted E s"
    and ne: "left \<noteq> right" and tt: "branch_trees E s fuel ents lc rc" and clash: "clash \<Longrightarrow> st = Manual \<Longrightarrow> False"
  shows "grows E s t \<and> (\<exists>c. decode_from_store E de_commit t cid = Inr c \<and>
    branch_commit E t fuel st ents [left, right] lc rc c)"
proof (cases "st \<noteq> Manual \<and> (clash \<or> cm_nodes lc \<noteq> cm_nodes rc \<or> cm_edges lc \<noteq> cm_edges rc)")
  case True
  from w True obtain no s1 eo s2 where
    n: "strategy_union_prolly_trees E fuel (cm_nodes lc) (cm_nodes rc) st s = (Inr no, s1)"
    and e: "strategy_union_prolly_trees E fuel (cm_edges lc) (cm_edges rc) st s1 = (Inr eo, s2)"
    and b: "build_merge_commit_from_trees E fuel left right lc rc (un_root no) (un_root eo) s2 = (Inr cid, t)"
    by (auto simp: write_merge_def monad_simps)
  have th: "tree_holds E s fuel (cm_nodes lc) (ents (cm_nodes lc))" "tree_holds E s fuel (cm_nodes rc) (ents (cm_nodes rc))"
    "tree_holds E s fuel (cm_edges lc) (ents (cm_edges lc))" "tree_holds E s fuel (cm_edges rc) (ents (cm_edges rc))"
    and le: "length (ents (cm_nodes lc)) + length (ents (cm_nodes rc)) + 2 \<le> fuel"
      "length (ents (cm_edges lc)) + length (ents (cm_edges rc)) + 2 \<le> fuel"
    using tt by (simp_all add: branch_trees_def roots_hold_def)
  obtain nm where N: "grows E s s1" "fmlookup nm = strategy_map st (map_of (ents (cm_nodes lc))) (map_of (ents (cm_nodes rc)))"
    "tree_holds E s1 fuel (un_root no) (bt_iter nm)"
    using strategy_union_run [OF n cr tr th(1,2) le(1)] by blast
  have t1: "trusted E s1" using N(1) tr by (rule grows_trusted)
  obtain em where M: "grows E s1 s2" "fmlookup em = strategy_map st (map_of (ents (cm_edges lc))) (map_of (ents (cm_edges rc)))"
    "tree_holds E s2 fuel (un_root eo) (bt_iter em)"
    using strategy_union_run [OF e cr t1 tree_holds_mono [OF th(3) N(1) tr] tree_holds_mono [OF th(4) N(1) tr] le(2)] by blast
  have t2: "trusted E s2" using M(1) t1 by (rule grows_trusted)
  have "length (bt_iter nm) + 2 \<le> fuel" "length (bt_iter em) + 2 \<le> fuel"
    using strategy_map_size [OF N(2)] strategy_map_size [OF M(2)] le by simp_all
  then obtain c where g: "grows E s2 t" and c: "decode_from_store E de_commit t cid = Inr c" "cm_parents c = sort [left, right]"
    "cm_nodes c = un_root no" "cm_edges c = un_root eo"
    and ix: "\<exists>ix. cm_indexes c = Some ix \<and> indexes_match E t fuel [lc, rc] (un_root no) (un_root eo) ix"
    using from_trees_spec [OF b cr t2 tree_holds_mono [OF N(3) M(1) t1] M(3)] by blast
  have g1: "grows E s1 t" using M(1) g by (rule grows_trans)
  have "tree_of_map E t fuel (un_root no) (strategy_map st (map_of (ents (cm_nodes lc))) (map_of (ents (cm_nodes rc))))"
    "tree_of_map E t fuel (un_root eo) (strategy_map st (map_of (ents (cm_edges lc))) (map_of (ents (cm_edges rc))))"
    using tree_of_map_mono [OF tree_of_mapI [OF N(2,3)] g1 t1] tree_of_map_mono [OF tree_of_mapI [OF M(2,3)] g t2] .
  then have "branch_commit E t fuel st ents [left, right] lc rc c"
    unfolding branch_commit_def c using ix by blast
  moreover have "grows E s t" using N(1) g1 by (rule grows_trans)
  ultimately show ?thesis using c(1) by blast
next
  case False
  then have b: "build_merge_commit E fuel [Some (left, lc), Some (right, rc)] s = (Inr (Some cid), t)"
    using w by (auto simp: write_merge_def monad_simps)
  have same: "strategy_map st (map_of (ents (cm_nodes lc))) (map_of (ents (cm_nodes rc)))
      = union_map [ents (cm_nodes lc), ents (cm_nodes rc)] \<and>
    strategy_map st (map_of (ents (cm_edges lc))) (map_of (ents (cm_edges rc)))
      = union_map [ents (cm_edges lc), ents (cm_edges rc)]"
    using False by (cases st) (auto simp: union_map_two strategy_map_same)
  have ps: "[(left, lc), (right, rc)] = List.map_filter (\<lambda>c. c) [Some (left, lc), Some (right, rc)]" by simp
  have ex: "\<exists>p \<in> set [(left, lc), (right, rc)]. fst p \<noteq> fst (hd [(left, lc), (right, rc)])" using ne by auto
  have r: "roots_hold E s fuel ents (map (cm_nodes \<circ> snd) [(left, lc), (right, rc)])"
    "roots_hold E s fuel ents (map (cm_edges \<circ> snd) [(left, lc), (right, rc)])"
    using tt by (simp_all add: branch_trees_def)
  have "grows E s t \<and> (\<exists>c. decode_from_store E de_commit t cid = Inr c \<and>
    cm_parents c = sort [left, right] \<and>
    tree_of_map E t fuel (cm_nodes c) (union_map [ents (cm_nodes lc), ents (cm_nodes rc)]) \<and>
    tree_of_map E t fuel (cm_edges c) (union_map [ents (cm_edges lc), ents (cm_edges rc)]) \<and>
    (\<exists>ix. cm_indexes c = Some ix \<and> indexes_match E t fuel [lc, rc] (cm_nodes c) (cm_edges c) ix))"
  proof
    note spec = build_merge_commit_spec [OF b ps ex cr tr r, unfolded list.map o_apply fst_conv snd_conv]
    show "grows E s t" using spec by (rule conjunct1)
    show "\<exists>c. decode_from_store E de_commit t cid = Inr c \<and>
    cm_parents c = sort [left, right] \<and>
    tree_of_map E t fuel (cm_nodes c) (union_map [ents (cm_nodes lc), ents (cm_nodes rc)]) \<and>
    tree_of_map E t fuel (cm_edges c) (union_map [ents (cm_edges lc), ents (cm_edges rc)]) \<and>
    (\<exists>ix. cm_indexes c = Some ix \<and> indexes_match E t fuel [lc, rc] (cm_nodes c) (cm_edges c) ix)"
      by (rule ex_forward [OF conjunct2 [OF spec]]) (elim conjE, intro conjI; assumption)
  qed
  then show ?thesis by (simp only: branch_commit_def same)
qed

section \<open>What the detector saw\<close>

lemma detected_run:
  assumes "detected E fuel left right lca s = (Inr mc, s1)" and "crypto_ok E"
  shows "grows E s s1 \<and> (\<exists>sd. sides_of E s1 fuel [] left right lca sd \<and>
    mc_conflicts mc = report E default_policy (left < right) sd)"
proof -
  have "preserves (grows E) (build_detection_repo E left)"
    unfolding build_detection_repo_def by (intro preserve_intros merge_grows assms(2))
  moreover obtain repo where r: "build_detection_repo E left s = (Inr (repo, oh_new), s1)"
    and d: "detect_conflicts_with_views E s1 fuel (oh_current oh_new) left right lca view_new view_new default_policy = Inr mc"
    using assms(1) by (auto simp: detected_def build_detection_repo_def monad_simps)
  ultimately have "grows E s s1" by (auto dest: preservesD)
  moreover have "oh_current oh_new = ([] :: 'a list)" by (simp add: oh_current_def oh_new_def sorted_list_of_fset.rep_eq)
  then have "detect_conflicts_with_policy E s1 fuel [] left right lca default_policy = Inr mc"
    using d by (intro detect_empty_views [of view_new view_new]) (simp_all add: view_new_def)
  ultimately show ?thesis unfolding detect_run by auto
qed

text \<open>The categories reported for a node, from the entries of the three trees.\<close>

lemma report_nodes:
  assumes "sides_of E t fuel [] left right (Some lca) sd"
    and "decode_from_store E de_commit t left = Inr lc" and "decode_from_store E de_commit t right = Inr rc"
    and "decode_from_store E de_commit t lca = Inr bc"
    and "tree_holds E t fuel (cm_nodes lc) L" and "tree_holds E t fuel (cm_nodes rc) R" and "tree_holds E t fuel (cm_nodes bc) B"
  shows "map cf_category (filter (\<lambda>c. cf_node_id c = Some n) (report E policy w sd)) =
    (if both_changed (map_of B n) (map_of L n) (map_of R n) then [NodeCidDivergence] else [])"
proof -
  have "tombstones_for_commit E t [] x = Inr {}" for x by (simp add: tombstones_for_commit_def)
  moreover have "collect_prolly E t fuel (cm_nodes lc) = Inr (fmap_of_list L)"
    "collect_prolly E t fuel (cm_nodes rc) = Inr (fmap_of_list R)" "collect_prolly E t fuel (cm_nodes bc) = Inr (fmap_of_list B)"
    unfolding collect_prolly_def by (rule for_entries_insert, rule assms)+
  moreover obtain lc' rc' bc' lts rts L' R' B' le re be where
    sd: "sd = \<lparr>sd_tombs = (lts, rts), sd_nodes = (L', R', B'), sd_edges = (le, re, be)\<rparr>"
    and "decode_from_store E de_commit t left = Inr lc'" "decode_from_store E de_commit t right = Inr rc'"
    "\<exists>c. decode_from_store E de_commit t lca = Inr c \<and> bc' = Some c"
    "tombstones_for_commit E t [] left = Inr lts" "tombstones_for_commit E t [] right = Inr rts"
    "collect_prolly E t fuel (cm_nodes lc') = Inr L'" "collect_prolly E t fuel (cm_nodes rc') = Inr R'"
    "nodes_of_commit E t fuel bc' = Inr B'"
    using assms(1) unfolding sides_of_def option.case by blast
  ultimately have "lts = {}" "rts = {}" "L' = fmap_of_list L" "R' = fmap_of_list R" "B' = fmap_of_list B"
    using assms(2-4) by (simp_all add: nodes_of_commit_def)
  note sd = sd [unfolded this]
  show ?thesis
    by (simp add: sd no_cross_conflicts node_conflicts_of node_clash_def fmap_of_list.rep_eq)
qed

section \<open>Clean merges\<close>

lemma clean_merge_run:
  assumes "merge_three_way E fuel left right strategy s = (Inr (Clean cid), t)" and "crypto_ok E" and "trusted E s"
    and "left \<noteq> right"
    and "decode_from_store E de_commit s left = Inr lc" and "decode_from_store E de_commit s right = Inr rc"
    and "branch_trees E s fuel ents lc rc"
  shows "grows E s t \<and> (\<exists>c. decode_from_store E de_commit t cid = Inr c \<and>
    branch_commit E t fuel strategy ents [left, right] lc rc c)"
proof (rule three_way_run [OF assms(1)])
  fix l assume "l = right \<Longrightarrow> Clean cid = FastForward left \<and> t = s"
    "l \<noteq> right \<Longrightarrow> l = left \<Longrightarrow> Clean cid = FastForward right \<and> t = s"
    and fork: "l \<noteq> right \<Longrightarrow> l \<noteq> left \<Longrightarrow> \<exists>lc rc mc s1.
      decode_from_store E de_commit s left = Inr lc \<and> decode_from_store E de_commit s right = Inr rc \<and>
      detected E fuel left right (Some l) s = (Inr mc, s1) \<and>
      (if mc_conflicts mc \<noteq> [] \<and> strategy = Manual then Clean cid = Conflicts mc \<and> t = s1
       else \<exists>c. Clean cid = Clean c \<and> write_merge E fuel left right strategy lc rc (mc_conflicts mc \<noteq> []) s1 = (Inr c, t))"
  then have "l \<noteq> right" "l \<noteq> left" by auto
  from fork [OF this] obtain mc s1 where d: "detected E fuel left right (Some l) s = (Inr mc, s1)"
    and w: "write_merge E fuel left right strategy lc rc (mc_conflicts mc \<noteq> []) s1 = (Inr cid, t)"
    and manual: "mc_conflicts mc \<noteq> [] \<Longrightarrow> strategy \<noteq> Manual"
    using assms(5,6) by (auto split: if_splits)
  have g: "grows E s s1" using detected_run [OF d assms(2)] by blast
  have tr: "trusted E s1" using g assms(3) by (rule grows_trusted)
  have bt: "branch_trees E s1 fuel ents lc rc"
    using assms(7) tree_holds_mono [OF _ g assms(3)] by (auto simp: branch_trees_def roots_hold_def)
  have "grows E s1 t \<and> (\<exists>c. decode_from_store E de_commit t cid = Inr c \<and>
      branch_commit E t fuel strategy ents [left, right] lc rc c)"
    by (rule write_merge_spec [OF w assms(2) tr assms(4) bt]) (use manual in blast)
  with g show ?thesis by (blast intro: grows_trans)
qed

end
