(* ===== verification/Branch_Instance.thy ===== *)
theory Branch_Instance imports Merge_Branches Table_Instance begin

text \<open>
  A concrete history with a fork, on which the merge of two branches is evaluated.
\<close>

text \<open>Block 4 is the common ancestor of the commits 5 and 6, which set node 1 from 20 to 21 and to 22, and of
  10, which sets it to 19, and 11, which leaves it as it was; 15 is the merge of the last two.\<close>

definition bcommit :: "nat list \<Rightarrow> nat \<Rightarrow> nat option \<Rightarrow> nat commit" where
  "bcommit ps n ix = (commit_new 7 n 3 3 ''me'' 5 ''msg'')\<lparr>cm_parents := ps, cm_indexes := ix\<rparr>"

definition bmerge :: "nat list \<Rightarrow> nat \<Rightarrow> nat commit" where
  "bmerge ps n = (commit_new 145459061368912391504514158646135975527 n 3 3
     MERGE_AUTHOR 6 MERGE_COMMIT_MESSAGE)\<lparr>cm_parents := ps, cm_indexes := Some 30\<rparr>"

definition btable :: "nat ipld list" where
  "btable = [ser_tree (Leaf (leaf_new [(1, 20)])), ser_tree (Leaf (leaf_new [(1, 21)])), ser_tree (Leaf (leaf_new [(1, 22)])),
     ser_tree (Leaf (leaf_new [])),
     ser_commit (bcommit [] 0 None), ser_commit (bcommit [4] 1 (Some 30)), ser_commit (bcommit [4] 2 None),
     ser_view (with_head view_new 5), ser_operation (operation_new 7 MERGE_AUTHOR 0 ''merge-detect''),
     ser_commit (bmerge [5, 6] 1),
     ser_commit (bcommit [4] 12 None), ser_commit (bcommit [4] 0 (Some 30)),
     ser_tree (Leaf (leaf_new [(1, 19)])),
     ser_view (with_head view_new 10), ser_operation (operation_new 13 MERGE_AUTHOR 0 ''merge-detect''),
     ser_commit ((bmerge [10, 11] 0)\<lparr>cm_extra := fmupd ''_merge_conflicts''
       (IMap (conflict_map (fmupd 1 [19, 20] fmempty) fmempty)) fmempty\<rparr>)]"

abbreviation "bE \<equiv> tE btable"

definition bstore :: "(nat, nat) store" where
  "bstore = table_store [0, 1, 2, 3, 4, 5, 6, 10, 11, 12]"

lemma bstore_commits:
  "decode_from_store bE de_commit bstore 4 = Inr (bcommit [] 0 None)"
  "decode_from_store bE de_commit bstore 5 = Inr (bcommit [4] 1 (Some 30))"
  "decode_from_store bE de_commit bstore 6 = Inr (bcommit [4] 2 None)"
  "decode_from_store bE de_commit bstore 10 = Inr (bcommit [4] 12 None)"
  "decode_from_store bE de_commit bstore 11 = Inr (bcommit [4] 0 (Some 30))"
proof -
  have ok: "commit_ok (bcommit ps n ix)" for ps n ix
    by (simp add: bcommit_def commit_new_def commit_ok_def extra_ok_def list_all_iff)
  show "decode_from_store bE de_commit bstore 4 = Inr (bcommit [] 0 None)"
    "decode_from_store bE de_commit bstore 5 = Inr (bcommit [4] 1 (Some 30))"
    "decode_from_store bE de_commit bstore 6 = Inr (bcommit [4] 2 None)"
    "decode_from_store bE de_commit bstore 10 = Inr (bcommit [4] 12 None)"
    "decode_from_store bE de_commit bstore 11 = Inr (bcommit [4] 0 (Some 30))"
    by (simp_all add: bstore_def table_decode btable_def de_ser_commit [OF ok])
qed

lemma bstore_trees:
  assumes "3 \<le> fuel"
  shows "tree_holds bE bstore fuel 0 [(1, 20)]" "tree_holds bE bstore fuel 1 [(1, 21)]"
    "tree_holds bE bstore fuel 2 [(1, 22)]" "tree_holds bE bstore fuel 3 []" "tree_holds bE bstore fuel 12 [(1, 19)]"
  using assms by (auto simp: bstore_def btable_def strict_keys_def intro!: table_leaf_holds)

lemma bcommit_parts [simp]:
  "cm_nodes (bcommit ps n ix) = n" "cm_edges (bcommit ps n ix) = 3" "cm_parents (bcommit ps n ix) = ps"
  "cm_indexes (bcommit ps n ix) = ix"
  by (simp_all add: bcommit_def commit_new_def)

lemma bstore_edges: "collect_edges bE bstore 10 3 = Inr fmempty"
  by code_simp

lemma bstore_trusted [simp]: "trusted bE bstore"
  by (simp add: bstore_def)

lemma bmerge_clean: obtains t where "merge_three_way bE 10 10 11 Manual bstore = (Inr (Clean 15), t)"
proof -
  have "fst (merge_three_way bE 10 10 11 Manual bstore) = Inr (Clean 15)" by code_simp
  with that show thesis by (cases "merge_three_way bE 10 10 11 Manual bstore") simp
qed

lemma bmerge_clash:
  "(case fst (merge_three_way bE 10 5 6 Manual bstore) of Inr (Conflicts mc) \<Rightarrow> True | _ \<Rightarrow> False)"
  by code_simp

end
