(* ===== verification/Merge_Props.thy ===== *)
theory Merge_Props imports Branch_Instance begin

text \<open>
  The properties of merging: what the conflict detector reports, and what a branch merge answers and commits.
\<close>

section \<open>The conflict detector\<close>

text \<open>C13 (\<open>repo/conflict.rs\<close>, \<open>detect_conflicts_with_policy\<close>). The report is exact. Each node appears at most once: as
  \<open>TombstoneVsModify\<close> when exactly one side tombstoned it and the other changed it from the ancestor, otherwise as
  \<open>NodeCidDivergence\<close> when both sides have it, differ, and both differ from the ancestor, and not at all in any other
  case; each edge at most once, when both sides changed its properties differently. The list is strictly ascending:
  nodes before edges, each by its key.\<close>

theorem conflict_detection_exact:
  assumes "detect_conflicts_with_policy E bs fuel hs left right (Some lca) policy = Inr mc"
    and "decode_from_store E de_commit bs left = Inr lc" and "decode_from_store E de_commit bs right = Inr rc"
    and "decode_from_store E de_commit bs lca = Inr bc"
    and "tombstones_for_commit E bs hs left = Inr lts" and "tombstones_for_commit E bs hs right = Inr rts"
    and "tree_holds E bs fuel (cm_nodes lc) L" and "tree_holds E bs fuel (cm_nodes rc) R" and "tree_holds E bs fuel (cm_nodes bc) B"
    and "collect_edges E bs fuel (cm_edges lc) = Inr le" and "collect_edges E bs fuel (cm_edges rc) = Inr re"
    and "collect_edges E bs fuel (cm_edges bc) = Inr be"
  shows "map cf_category (filter (\<lambda>c. cf_node_id c = Some n) (mc_conflicts mc)) =
      (case node_clash (n \<in> lts) (n \<in> rts) (map_of B n) (map_of L n) (map_of R n) of None \<Rightarrow> [] | Some k \<Rightarrow> [k]) \<and>
    map cf_category (filter (\<lambda>c. cf_edge_key c = Some e) (mc_conflicts mc)) =
      (if both_changed (fmlookup be e) (fmlookup le e) (fmlookup re e) then [EdgePropCollision] else []) \<and>
    sorted_wrt (\<lambda>a b. conflict_rank a < conflict_rank b) (mc_conflicts mc)"
proof -
  have n: "collect_prolly E bs fuel (cm_nodes lc) = Inr (fmap_of_list L)"
    "collect_prolly E bs fuel (cm_nodes rc) = Inr (fmap_of_list R)" "collect_prolly E bs fuel (cm_nodes bc) = Inr (fmap_of_list B)"
    unfolding collect_prolly_def by (rule for_entries_insert, rule assms)+
  let ?sd = "\<lparr>sd_tombs = (lts, rts), sd_nodes = (fmap_of_list L, fmap_of_list R, fmap_of_list B), sd_edges = (le, re, be)\<rparr>"
  have "sides_of E bs fuel hs left right (Some lca) ?sd"
    unfolding sides_of_def using assms(2-6,10-12) n by (auto simp: nodes_of_commit_def edges_of_commit_def)
  moreover obtain sd where "sides_of E bs fuel hs left right (Some lca) sd" and "mc_conflicts mc = report E policy (left < right) sd"
    using assms(1) unfolding detect_run by auto
  ultimately have mc: "mc_conflicts mc = report E policy (left < right) ?sd" by (metis sides_unique)
  show ?thesis unfolding mc report.simps
    by (simp add: no_cross_conflicts node_conflicts_of edge_conflicts_of conflicts_ranked fmap_of_list.rep_eq)
qed

theorem conflict_detection_exact_witness:
  "\<exists>mc. detect_conflicts bE bstore 10 [] 5 6 (Some 4) = Inr mc \<and>
    map cf_category (filter (\<lambda>c. cf_node_id c = Some 1) (mc_conflicts mc)) = [NodeCidDivergence] \<and>
    map cf_category (filter (\<lambda>c. cf_node_id c = Some 2) (mc_conflicts mc)) = []"
proof -
  have "list_all (\<lambda>r. case r of Inr _ \<Rightarrow> True | _ \<Rightarrow> False) [detect_conflicts bE bstore 10 [] 5 6 (Some 4)]"
    by code_simp
  then obtain mc where mc: "detect_conflicts bE bstore 10 [] 5 6 (Some 4) = Inr mc" by (auto split: sum.splits)
  have t: "tombstones_for_commit bE bstore [] c = Inr {}" for c by (simp add: tombstones_for_commit_def)
  note exact = conflict_detection_exact [OF mc [unfolded detect_conflicts_def] bstore_commits(2,3,1) t t, unfolded bcommit_parts,
      OF bstore_trees(2,3,1) bstore_edges bstore_edges bstore_edges]
  from exact [of 1] exact [of 2] mc show ?thesis by (simp add: node_clash_def both_changed_def changed_from_def)
qed

text \<open>Also (\<open>detect_conflicts_with_policy\<close>). Exchanging the two branches only exchanges the two columns of the report:
  the same conflicts in the same order, each with left and right swapped, and the same proposals (apart from the
  name of the side a proposed edge value comes from).\<close>

theorem conflict_detection_symmetric:
  assumes "detect_conflicts_with_policy E bs fuel hs left right lca policy = Inr mc"
  shows "\<exists>mc'. detect_conflicts_with_policy E bs fuel hs right left lca policy = Inr mc' \<and>
    list_all2 mirrored (mc_conflicts mc) (mc_conflicts mc')"
  using assms by (rule detect_mirror)

theorem conflict_detection_symmetric_witness:
  "\<exists>mc mc'. detect_conflicts_with_policy bE bstore 10 [] 5 6 (Some 4) default_policy = Inr mc \<and>
    detect_conflicts_with_policy bE bstore 10 [] 6 5 (Some 4) default_policy = Inr mc' \<and>
    mc_conflicts mc \<noteq> [] \<and> list_all2 mirrored (mc_conflicts mc) (mc_conflicts mc')"
proof -
  have "list_all (\<lambda>r. case r of Inr mc \<Rightarrow> mc_conflicts mc \<noteq> [] | _ \<Rightarrow> False)
      [detect_conflicts_with_policy bE bstore 10 [] 5 6 (Some 4) default_policy]"
    by code_simp
  then obtain mc where mc: "detect_conflicts_with_policy bE bstore 10 [] 5 6 (Some 4) default_policy = Inr mc" "mc_conflicts mc \<noteq> []"
    by (auto split: sum.splits)
  from conflict_detection_symmetric [OF mc(1)] mc show ?thesis by blast
qed

section \<open>Branch merges\<close>

text \<open>C14 (\<open>repo/merge.rs\<close>, \<open>merge_three_way\<close>). What a merge of two branches answers. A fast-forward is returned exactly
  when one branch is the lowest common ancestor, and nothing is written. Otherwise conflicts are returned only under
  \<open>Manual\<close>, never an empty list and never a \<open>TombstoneVsModify\<close> (the detector runs against an empty op-heads store),
  and a node is among them exactly when both branches changed it differently; a \<open>Manual\<close> merge comes out clean only
  if there is no such node.\<close>

theorem branch_merge_outcome:
  assumes "merge_three_way E fuel left right strategy s = (Inr r, t)" and "crypto_ok E" and "trusted E s"
    and "find_commit_lca E s left right = Inr (Some lca)"
    and "decode_from_store E de_commit s left = Inr lc" and "decode_from_store E de_commit s right = Inr rc"
    and "decode_from_store E de_commit s lca = Inr bc"
    and "tree_holds E s fuel (cm_nodes lc) L" and "tree_holds E s fuel (cm_nodes rc) R" and "tree_holds E s fuel (cm_nodes bc) B"
  shows "(lca \<in> {left, right} \<longrightarrow> t = s) \<and>
    (case r of
       FastForward c \<Rightarrow> lca = right \<and> c = left \<or> lca = left \<and> c = right
     | Clean c \<Rightarrow> lca \<notin> {left, right} \<and>
         (strategy = Manual \<longrightarrow> (\<forall>n. \<not> both_changed (map_of B n) (map_of L n) (map_of R n)))
     | Conflicts mc \<Rightarrow> lca \<notin> {left, right} \<and> strategy = Manual \<and> mc_conflicts mc \<noteq> [] \<and>
         TombstoneVsModify \<notin> cf_category ` set (mc_conflicts mc) \<and>
         (\<forall>n. map cf_category (filter (\<lambda>c. cf_node_id c = Some n) (mc_conflicts mc)) =
            (if both_changed (map_of B n) (map_of L n) (map_of R n) then [NodeCidDivergence] else [])))"
proof (rule three_way_run [OF assms(1)])
  fix l assume l: "find_commit_lca E s left right = Inr (Some l)"
    and ff: "l = right \<Longrightarrow> r = FastForward left \<and> t = s" "l \<noteq> right \<Longrightarrow> l = left \<Longrightarrow> r = FastForward right \<and> t = s"
    and fork: "l \<noteq> right \<Longrightarrow> l \<noteq> left \<Longrightarrow> \<exists>lc rc mc s1.
      decode_from_store E de_commit s left = Inr lc \<and> decode_from_store E de_commit s right = Inr rc \<and>
      detected E fuel left right (Some l) s = (Inr mc, s1) \<and>
      (if mc_conflicts mc \<noteq> [] \<and> strategy = Manual then r = Conflicts mc \<and> t = s1
       else \<exists>cid. r = Clean cid \<and> write_merge E fuel left right strategy lc rc (mc_conflicts mc \<noteq> []) s1 = (Inr cid, t))"
  have lca: "l = lca" using l assms(4) by simp
  show ?thesis
  proof (cases "lca \<in> {left, right}")
    case True
    then show ?thesis using ff unfolding lca by (cases "lca = right") auto
  next
    case False
    with fork obtain mc s1 where d: "detected E fuel left right (Some lca) s = (Inr mc, s1)"
      and r: "if mc_conflicts mc \<noteq> [] \<and> strategy = Manual then r = Conflicts mc
        else (\<exists>cid. r = Clean cid)" unfolding lca by (auto split: if_splits)
    obtain sd where g: "grows E s s1" and sd: "sides_of E s1 fuel [] left right (Some lca) sd"
      and mc: "mc_conflicts mc = report E default_policy (left < right) sd"
      using detected_run [OF d assms(2)] by blast
    note up = decode_from_store_mono [OF _ g assms(3)] and tr = tree_holds_mono [OF _ g assms(3)]
    have nodes: "map cf_category (filter (\<lambda>c. cf_node_id c = Some n) (mc_conflicts mc)) =
      (if both_changed (map_of B n) (map_of L n) (map_of R n) then [NodeCidDivergence] else [])" for n
      unfolding mc by (rule report_nodes [OF sd up [OF assms(5)] up [OF assms(6)] up [OF assms(7)] tr [OF assms(8)]
        tr [OF assms(9)] tr [OF assms(10)]])
    have "TombstoneVsModify \<notin> cf_category ` set (mc_conflicts mc)"
      unfolding mc by (auto dest: no_heads_no_tombs [OF sd])
    moreover have "\<not> both_changed (map_of B n) (map_of L n) (map_of R n)" if "mc_conflicts mc = []" for n
      using nodes [of n] that by (auto split: if_splits)
    ultimately show ?thesis using False r nodes by (auto split: if_splits)
  qed
qed

theorem branch_merge_outcome_witness:
  "\<exists>mc. fst (merge_three_way bE 10 5 6 Manual bstore) = Inr (Conflicts mc) \<and>
    map cf_category (filter (\<lambda>c. cf_node_id c = Some 1) (mc_conflicts mc)) = [NodeCidDivergence]"
proof -
  obtain mc t where m: "merge_three_way bE 10 5 6 Manual bstore = (Inr (Conflicts mc), t)"
    using bmerge_clash
    by (cases "merge_three_way bE 10 5 6 Manual bstore") (auto split: sum.splits merge_outcome.splits)
  have "find_commit_lca bE bstore 5 6 = Inr (Some 4)" by code_simp
  from branch_merge_outcome [OF m crypto_table bstore_trusted this bstore_commits(2,3,1), unfolded bcommit_parts,
      OF bstore_trees(2,3,1)] m
  show ?thesis by (simp add: both_changed_def changed_from_def)
qed

text \<open>C15 (\<open>merge_three_way\<close>, \<open>build_merge_commit\<close>, \<open>build_merge_commit_from_trees\<close>). A clean merge of two commits is a
  commit over both, in ascending order, that can be read back. Its node and edge trees hold the keys of either side; a
  key with different values on the two sides has the left one under \<open>Ours\<close>, the right one under \<open>Theirs\<close>, the
  larger one under \<open>Manual\<close>; and its indexes are those of one parent with the same trees, or rebuilt from the trees.\<close>

theorem branch_merge_commit:
  assumes "merge_three_way E fuel left right strategy s = (Inr (Clean cid), t)" and "crypto_ok E" and "trusted E s"
    and "left \<noteq> right"
    and "decode_from_store E de_commit s left = Inr lc" and "decode_from_store E de_commit s right = Inr rc"
    and "branch_trees E s fuel ents lc rc"
  shows "grows E s t \<and> (\<exists>c. decode_from_store E de_commit t cid = Inr c \<and>
    branch_commit E t fuel strategy ents [left, right] lc rc c)"
  using assms by (rule clean_merge_run)

definition bents :: "nat \<Rightarrow> (prolly_key \<times> nat) list" where
  "bents r = (if r = 0 then [(1, 20)] else if r = 1 then [(1, 21)] else if r = 2 then [(1, 22)]
     else if r = 12 then [(1, 19)] else [])"

lemma bents_simps [simp]:
  "bents 0 = [(1, 20)]" "bents 1 = [(1, 21)]" "bents (Suc 0) = [(1, 21)]" "bents 2 = [(1, 22)]" "bents 3 = []" "bents 12 = [(1, 19)]"
  by (simp_all add: bents_def)

lemma bents_trees: "branch_trees bE bstore 10 bents (bcommit [4] 12 None) (bcommit [4] 0 (Some 30))"
  using bstore_trees [of 10] by (simp add: branch_trees_def roots_hold_def)

theorem branch_merge_commit_witness:
  "\<exists>c t. merge_three_way bE 10 10 11 Manual bstore = (Inr (Clean 15), t) \<and>
    decode_from_store bE de_commit t 15 = Inr c \<and> cm_parents c = [10, 11] \<and>
    tree_of_map bE t 10 (cm_nodes c) (strategy_map Manual [1 \<mapsto> 19] [1 \<mapsto> 20])"
proof -
  obtain t where m: "merge_three_way bE 10 10 11 Manual bstore = (Inr (Clean 15), t)" by (rule bmerge_clean)
  from branch_merge_commit [OF m crypto_table bstore_trusted _ bstore_commits(4,5) bents_trees] m
  show ?thesis by (auto simp: branch_commit_def)
qed

end
