(* ===== verification/Sidecar.thy ===== *)
theory Sidecar imports Object_Store begin

text \<open>
  The buckets of the two sidecar trees of a commit: \<open>objects/embedding_set.rs\<close> (dense embeddings, by model) and
  \<open>objects/sparse_set.rs\<close> (learned-sparse ones, by vocabulary), the embeddings they hold (\<open>objects/node.rs\<close>,
  \<open>sparse.rs\<close>) and the key a node's bucket has in its tree. A bucket is written with its entries in the order of
  their names, whatever the order they came in.

  The weights of a sparse embedding are \<open>f32\<close>, kept as their 32 bits.
\<close>

section \<open>Embeddings\<close>

datatype dtype = F16 | F32 | F64 | I8

fun byte_width :: "dtype \<Rightarrow> nat" where
  "byte_width F16 = 2"
| "byte_width F32 = 4"
| "byte_width F64 = 8"
| "byte_width I8 = 1"

record embedding =
  eb_model :: string
  eb_dtype :: dtype
  eb_dim :: u32
  eb_vector :: bytes

text \<open>\<open>validate\<close> compares the length with a \<open>usize\<close> product of at most \<open>8 * (2 ^ 32 - 1)\<close>.\<close>

definition embedding_validate :: "embedding \<Rightarrow> object_error + unit" where
  "embedding_validate e =
     (let expected = unat (eb_dim e) * byte_width (eb_dtype e) in
      if length (eb_vector e) = expected then Inr () else Inl (EmbeddingSizeMismatch expected (length (eb_vector e))))"

record sparse_embed =
  sp_indices :: "u32 list"
  sp_values :: "u32 list"
  sp_vocab_id :: string

fun ascending :: "u32 list \<Rightarrow> bool" where
  "ascending (x # y # zs) = (if x \<ge> y then False else ascending (y # zs))"
| "ascending _ = True"

definition sparse_new :: "u32 list \<Rightarrow> u32 list \<Rightarrow> string \<Rightarrow> sparse_embed option" where
  "sparse_new indices values vocab_id =
     (if length indices \<noteq> length values then None
      else if \<not> ascending indices then None
      else Some \<lparr>sp_indices = indices, sp_values = values, sp_vocab_id = vocab_id\<rparr>)"

definition sparse_validate :: "sparse_embed \<Rightarrow> bool" where
  "sparse_validate e \<longleftrightarrow> length (sp_indices e) = length (sp_values e) \<and> ascending (sp_indices e)"

fun ser_dtype :: "dtype \<Rightarrow> 'c ipld" where
  "ser_dtype F16 = IString ''f16''"
| "ser_dtype F32 = IString ''f32''"
| "ser_dtype F64 = IString ''f64''"
| "ser_dtype I8 = IString ''i8''"

definition de_dtype :: "'c ipld \<Rightarrow> codec_error + dtype" where
  "de_dtype v = rbind (de_string v) (\<lambda>s.
     if s = ''f16'' then Inr F16 else if s = ''f32'' then Inr F32
     else if s = ''f64'' then Inr F64 else if s = ''i8'' then Inr I8 else Inl Decode)"

fun de_u32 :: "'c ipld \<Rightarrow> codec_error + u32" where
  "de_u32 (IInteger i) = (if 0 \<le> i \<and> i < 2 ^ 32 then Inr (word_of_int i) else Inl Decode)"
| "de_u32 _ = Inl Decode"

definition ser_u32 :: "u32 \<Rightarrow> 'c ipld" where
  "ser_u32 n = IInteger (uint n)"

definition ser_f32 :: "('c, 'h, 'b) external \<Rightarrow> u32 \<Rightarrow> 'c ipld" where
  "ser_f32 E x = IFloat (f32_ipld E x)"

fun de_f32 :: "('c, 'h, 'b) external \<Rightarrow> 'c ipld \<Rightarrow> codec_error + u32" where
  "de_f32 E (IFloat x) = Inr (ipld_f32 E x)"
| "de_f32 E _ = Inl Decode"

definition ser_embedding :: "embedding \<Rightarrow> 'c ipld" where
  "ser_embedding e = IMap (wire_map
     [(''model'', Some (IString (eb_model e))), (''dtype'', Some (ser_dtype (eb_dtype e))),
      (''dim'', Some (ser_u32 (eb_dim e))), (''vector'', Some (IBytes (eb_vector e)))] fmempty)"

definition de_embedding :: "'c ipld \<Rightarrow> codec_error + embedding" where
  "de_embedding v =
     rbind (as_map v) (\<lambda>m.
     rbind (req m ''model'' de_string) (\<lambda>model.
     rbind (dflt m ''dtype'' F32 de_dtype) (\<lambda>dtype.
     rbind (req m ''dim'' de_u32) (\<lambda>dim.
     rbind (req m ''vector'' de_bytes) (\<lambda>vector.
     Inr \<lparr>eb_model = model, eb_dtype = dtype, eb_dim = dim, eb_vector = vector\<rparr>)))))"

definition ser_sparse :: "('c, 'h, 'b) external \<Rightarrow> sparse_embed \<Rightarrow> 'c ipld" where
  "ser_sparse E e = IMap (wire_map
     [(''indices'', Some (IList (map ser_u32 (sp_indices e)))), (''values'', Some (IList (map (ser_f32 E) (sp_values e)))),
      (''vocab_id'', Some (IString (sp_vocab_id e)))] fmempty)"

definition de_sparse :: "('c, 'h, 'b) external \<Rightarrow> 'c ipld \<Rightarrow> codec_error + sparse_embed" where
  "de_sparse E v =
     rbind (as_map v) (\<lambda>m.
     rbind (req m ''indices'' (de_list de_u32)) (\<lambda>indices.
     rbind (req m ''values'' (de_list (de_f32 E))) (\<lambda>values.
     rbind (req m ''vocab_id'' de_string) (\<lambda>vocab_id.
     Inr \<lparr>sp_indices = indices, sp_values = values, sp_vocab_id = vocab_id\<rparr>))))"

section \<open>Buckets\<close>

text \<open>
  The two bucket types differ in the name of the entries' key field, in the kind and in what an entry holds; the
  operations are the same, except that those of embeddings return what they replace or remove. An entry is the pair
  of its name and its value.
\<close>

record ('v, 'c) bucket =
  bk_entries :: "(string \<times> 'v) list"
  bk_extra :: "'c ipld_map"

type_synonym 'c embedding_bucket = "(embedding, 'c) bucket"
type_synonym 'c sparse_bucket = "(sparse_embed, 'c) bucket"

definition bucket_default :: "('v, 'c) bucket" where
  "bucket_default = \<lparr>bk_entries = [], bk_extra = fmempty\<rparr>"

fun entries_get :: "string \<Rightarrow> (string \<times> 'v) list \<Rightarrow> 'v option" where
  "entries_get n [] = None"
| "entries_get n ((m, v) # es) = (if m = n then Some v else entries_get n es)"

fun entries_upsert :: "string \<Rightarrow> 'v \<Rightarrow> (string \<times> 'v) list \<Rightarrow> (string \<times> 'v) list" where
  "entries_upsert n v [] = [(n, v)]"
| "entries_upsert n v ((m, w) # es) = (if m = n then (m, v) # es else (m, w) # entries_upsert n v es)"

fun entries_remove :: "string \<Rightarrow> (string \<times> 'v) list \<Rightarrow> (string \<times> 'v) list" where
  "entries_remove n [] = []"
| "entries_remove n ((m, w) # es) = (if m = n then es else (m, w) # entries_remove n es)"

definition bucket_get :: "('v, 'c) bucket \<Rightarrow> string \<Rightarrow> 'v option" where
  "bucket_get b name = entries_get name (bk_entries b)"

definition bucket_upsert :: "string \<Rightarrow> 'v \<Rightarrow> ('v, 'c) bucket \<Rightarrow> ('v, 'c) bucket" where
  "bucket_upsert name v b = b\<lparr>bk_entries := entries_upsert name v (bk_entries b)\<rparr>"

definition bucket_remove :: "string \<Rightarrow> ('v, 'c) bucket \<Rightarrow> ('v, 'c) bucket" where
  "bucket_remove name b = b\<lparr>bk_entries := entries_remove name (bk_entries b)\<rparr>"

definition embedding_upsert :: "string \<Rightarrow> embedding \<Rightarrow> 'c embedding_bucket \<Rightarrow> embedding option \<times> 'c embedding_bucket" where
  "embedding_upsert model e b = (bucket_get b model, bucket_upsert model e b)"

definition embedding_remove :: "string \<Rightarrow> 'c embedding_bucket \<Rightarrow> embedding option \<times> 'c embedding_bucket" where
  "embedding_remove model b = (bucket_get b model, bucket_remove model b)"

definition EMBEDDING_BUCKET_KIND :: string where "EMBEDDING_BUCKET_KIND = ''embedding_bucket''"
definition SPARSE_BUCKET_KIND :: string where "SPARSE_BUCKET_KIND = ''sparse_bucket''"

definition bucket_names :: "string list" where
  "bucket_names = [''_kind'', ''entries'']"

definition ser_bucket :: "string \<Rightarrow> (string \<times> 'v \<Rightarrow> 'c ipld) \<Rightarrow> ('v, 'c) bucket \<Rightarrow> 'c ipld" where
  "ser_bucket kind ser_item b =
     (let sorted = sort_key fst (bk_entries b) in
      IMap (wire_map [(''_kind'', Some (IString kind)), (''entries'', Some (IList (map ser_item sorted)))] (bk_extra b)))"

definition de_bucket ::
    "string \<Rightarrow> ('c ipld \<Rightarrow> codec_error + string \<times> 'v) \<Rightarrow> 'c ipld \<Rightarrow> codec_error + ('v, 'c) bucket" where
  "de_bucket KIND de_item v =
     rbind (as_map v) (\<lambda>m.
     rbind (req m ''_kind'' de_string) (\<lambda>kind.
     rbind (dflt m ''entries'' [] (de_list de_item)) (\<lambda>entries.
     if kind \<noteq> KIND then Inl Decode
     else Inr \<lparr>bk_entries = entries, bk_extra = rest_of bucket_names m\<rparr>)))"

definition ser_embedding_entry :: "string \<times> embedding \<Rightarrow> 'c ipld" where
  "ser_embedding_entry e = IMap (wire_map
     [(''model'', Some (IString (fst e))), (''embedding'', Some (ser_embedding (snd e)))] fmempty)"

definition de_embedding_entry :: "'c ipld \<Rightarrow> codec_error + string \<times> embedding" where
  "de_embedding_entry v =
     rbind (as_map v) (\<lambda>m.
     rbind (req m ''model'' de_string) (\<lambda>model.
     rbind (req m ''embedding'' de_embedding) (\<lambda>embedding.
     Inr (model, embedding))))"

definition ser_sparse_entry :: "('c, 'h, 'b) external \<Rightarrow> string \<times> sparse_embed \<Rightarrow> 'c ipld" where
  "ser_sparse_entry E e = IMap (wire_map
     [(''vocab_id'', Some (IString (fst e))), (''sparse'', Some (ser_sparse E (snd e)))] fmempty)"

definition de_sparse_entry :: "('c, 'h, 'b) external \<Rightarrow> 'c ipld \<Rightarrow> codec_error + string \<times> sparse_embed" where
  "de_sparse_entry E v =
     rbind (as_map v) (\<lambda>m.
     rbind (req m ''vocab_id'' de_string) (\<lambda>vocab_id.
     rbind (req m ''sparse'' (de_sparse E)) (\<lambda>sparse.
     Inr (vocab_id, sparse))))"

definition ser_embedding_bucket :: "'c embedding_bucket \<Rightarrow> 'c ipld" where
  "ser_embedding_bucket = ser_bucket EMBEDDING_BUCKET_KIND ser_embedding_entry"

definition de_embedding_bucket :: "'c ipld \<Rightarrow> codec_error + 'c embedding_bucket" where
  "de_embedding_bucket = de_bucket EMBEDDING_BUCKET_KIND de_embedding_entry"

definition ser_sparse_bucket :: "('c, 'h, 'b) external \<Rightarrow> 'c sparse_bucket \<Rightarrow> 'c ipld" where
  "ser_sparse_bucket E = ser_bucket SPARSE_BUCKET_KIND (ser_sparse_entry E)"

definition de_sparse_bucket :: "('c, 'h, 'b) external \<Rightarrow> 'c ipld \<Rightarrow> codec_error + 'c sparse_bucket" where
  "de_sparse_bucket E = de_bucket SPARSE_BUCKET_KIND (de_sparse_entry E)"

definition sidecar_key :: "('c, 'h, 'b) external \<Rightarrow> 'c \<Rightarrow> 'c error + prolly_key" where
  "sidecar_key E node_cid = ok_or (key_of_bytes (take 16 (blake3 E (cid_bytes E node_cid)))) Panic"

section \<open>Reading back what was written\<close>

definition f32_roundtrip :: "('c, 'h, 'b) external \<Rightarrow> bool" where
  "f32_roundtrip E \<longleftrightarrow> (\<forall>x. ipld_f32 E (f32_ipld E x) = x)"

lemma de_u32_ser [simp]: "de_u32 (ser_u32 n) = Inr n"
proof -
  have "uint n < 2 ^ LENGTH(32)" by (rule unsigned_less)
  then show ?thesis by (simp add: ser_u32_def)
qed

lemma de_ser_dtype [simp]: "de_dtype (ser_dtype d) = Inr d"
  by (cases d) (simp_all add: de_dtype_def)

lemma de_ser_embedding [simp]: "de_embedding (ser_embedding e) = Inr e"
  by (simp add: de_embedding_def ser_embedding_def req_def dflt_def fmlookup_wire_map)

lemma de_ser_sparse: "f32_roundtrip E \<Longrightarrow> de_sparse E (ser_sparse E e) = Inr e"
  by (simp add: de_sparse_def ser_sparse_def req_def fmlookup_wire_map rmap_map_Inr ser_f32_def f32_roundtrip_def)

lemma de_ser_embedding_entry: "de_embedding_entry (ser_embedding_entry e) = Inr e"
  by (simp add: de_embedding_entry_def ser_embedding_entry_def req_def fmlookup_wire_map)

lemma de_ser_sparse_entry: "f32_roundtrip E \<Longrightarrow> de_sparse_entry E (ser_sparse_entry E e) = Inr e"
  by (simp add: de_sparse_entry_def ser_sparse_entry_def req_def fmlookup_wire_map de_ser_sparse)

definition bucket_ok :: "('v, 'c) bucket \<Rightarrow> bool" where
  "bucket_ok b \<longleftrightarrow> extra_ok bucket_names (bk_extra b)"

lemma de_ser_bucket:
  assumes "\<And>e. de_item (ser_item e) = Inr e" and "bucket_ok b"
  shows "de_bucket kind de_item (ser_bucket kind ser_item b) = Inr (b\<lparr>bk_entries := sort_key fst (bk_entries b)\<rparr>)"
proof -
  let ?fs = "[(''_kind'', Some (IString kind)), (''entries'', Some (IList (map ser_item (sort_key fst (bk_entries b)))))]"
  have "rest_of bucket_names (wire_map ?fs (bk_extra b)) = bk_extra b"
    using assms(2) by (intro rest_of_written) (simp_all add: bucket_names_def bucket_ok_def)
  then show ?thesis
    by (simp add: de_bucket_def ser_bucket_def Let_def req_def dflt_def fmlookup_wire_map rmap_map_Inr assms(1))
qed

lemma de_bucket_ok: "de_bucket kind de_item v = Inr b \<Longrightarrow> bucket_ok b"
  by (auto simp: de_bucket_def bucket_ok_def rbind_Inr_iff extra_ok_rest split: if_splits)

definition distinct_names :: "('v, 'c) bucket \<Rightarrow> bool" where
  "distinct_names b \<longleftrightarrow> distinct (map fst (bk_entries b))"

lemma entries_get_map_of: "entries_get n es = map_of es n"
  by (induction n es rule: entries_get.induct) auto

lemma map_of_upsert: "map_of (entries_upsert n v es) = (map_of es)(n \<mapsto> v)"
  by (induction n v es rule: entries_upsert.induct) auto

lemma upsert_names: "set (map fst (entries_upsert n v es)) = insert n (set (map fst es))"
  by (induction n v es rule: entries_upsert.induct) auto

lemma distinct_upsert: "distinct (map fst es) \<Longrightarrow> distinct (map fst (entries_upsert n v es))"
proof (induction n v es rule: entries_upsert.induct)
  case (2 n v m w es)
  then show ?case using upsert_names [of n v es] by auto
qed simp

lemma bucket_upsert_get: "bucket_get (bucket_upsert n v b) m = (if m = n then Some v else bucket_get b m)"
  by (simp add: bucket_get_def bucket_upsert_def entries_get_map_of map_of_upsert)

lemma bucket_sort_get:
  assumes "distinct_names b"
  shows "bucket_get (b\<lparr>bk_entries := sort_key fst (bk_entries b)\<rparr>) n = bucket_get b n"
proof -
  have "distinct (map fst (sort_key fst (bk_entries b)))"
    using assms
    by (simp add: distinct_names_def distinct_map inj_on_def)
  then show ?thesis
    using assms map_of_inject_set [of "sort_key fst (bk_entries b)" "bk_entries b"]
    by (simp add: bucket_get_def entries_get_map_of distinct_names_def)
qed

end
