(* ===== verification/Readonly.thy ===== *)
theory Readonly imports Merge_Heads_Spec Index_Readers Sidecar begin

text \<open>
  \<open>crates/mnem-core/src/repo/readonly.rs\<close>: opening a repository, reading through the pinned commit, and the
  compare-and-swap on refs. A read is a function of the blocks and of the pinned \<open>readonly_repo\<close>; an operation
  that writes is a program on the repository state. \<open>publish\<close> is the tail the three writers share: write the view,
  wrap it in an operation over the pinned one, advance the heads, load.
\<close>

section \<open>Opening\<close>

definition repo_init :: "('c, 'h, 'b) external \<Rightarrow> u64 \<Rightarrow> (('c, 'b) repo_state, 'c error, 'c readonly_repo) prog" where
  "repo_init E now =
     sbind (on_blocks (put_checked E (ser_view view_new))) (\<lambda>view_cid.
     let root_op = operation_new view_cid [] now ''init'' in
     sbind (on_blocks (put_checked E (ser_operation root_op))) (\<lambda>op_cid.
     sbind (heads_update op_cid []) (\<lambda>_.
     sret \<lparr>rr_op_id = op_cid, rr_op = root_op, rr_view = view_new, rr_commit = None\<rparr>)))"

definition repo_open ::
    "('c::linorder, 'h, 'b) external \<Rightarrow> nat \<Rightarrow> (('c, 'b) repo_state, 'c error, 'c readonly_repo) prog" where
  "repo_open E fuel =
     sbind (sread (\<lambda>s. Inr (oh_current (rs_heads s)))) (\<lambda>heads.
     case heads of
       [] \<Rightarrow> slift (Inl (Repo Uninitialized))
     | [head] \<Rightarrow> sread (\<lambda>s. load_at E (rs_blocks s) head)
     | _ \<Rightarrow>
         sbind (merge_op_heads E fuel heads) (\<lambda>merge_cid.
         sread (\<lambda>s. load_at E (rs_blocks s) merge_cid)))"

section \<open>Reading\<close>

definition lookup_node ::
    "('c, 'h, 'b) external \<Rightarrow> ('c, 'b) store \<Rightarrow> nat \<Rightarrow> 'c readonly_repo \<Rightarrow> node_id \<Rightarrow> 'c error + 'c node option" where
  "lookup_node E bs fuel repo n =
     (case rr_commit repo of
        None \<Rightarrow> Inr None
      | Some commit \<Rightarrow>
          rbind (prolly_lookup E bs fuel (cm_nodes commit) n) (\<lambda>found.
          case found of
            Some node_cid \<Rightarrow> rbind (decode_from_store E de_node bs node_cid) (\<lambda>node. Inr (Some node))
          | None \<Rightarrow> Inr None))"

definition lookup_edge ::
    "('c, 'h, 'b) external \<Rightarrow> ('c, 'b) store \<Rightarrow> nat \<Rightarrow> 'c readonly_repo \<Rightarrow> edge_id \<Rightarrow> 'c error + 'c edge option" where
  "lookup_edge E bs fuel repo e =
     (case rr_commit repo of
        None \<Rightarrow> Inr None
      | Some commit \<Rightarrow>
          rbind (prolly_lookup E bs fuel (cm_edges commit) e) (\<lambda>found.
          case found of
            Some edge_cid \<Rightarrow> rbind (decode_from_store E de_edge bs edge_cid) (\<lambda>edge. Inr (Some edge))
          | None \<Rightarrow> Inr None))"

text \<open>The lookup of a node's bucket in a sidecar tree, the part the four sidecar readers have in common.\<close>

definition sidecar_bucket ::
    "('c, 'h, 'b) external \<Rightarrow> ('c, 'b) store \<Rightarrow> nat \<Rightarrow> ('c ipld \<Rightarrow> codec_error + 'a) \<Rightarrow> 'c option \<Rightarrow> 'c
       \<Rightarrow> 'c error + 'a option" where
  "sidecar_bucket E bs fuel de root node_cid =
     (case root of
        None \<Rightarrow> Inr None
      | Some root \<Rightarrow>
          rbind (sidecar_key E node_cid) (\<lambda>key.
          rbind (prolly_lookup E bs fuel root key) (\<lambda>found.
          case found of
            None \<Rightarrow> Inr None
          | Some bucket_cid \<Rightarrow> rbind (decode_from_store E de bs bucket_cid) (\<lambda>bucket. Inr (Some bucket)))))"

definition embeddings_root :: "'c readonly_repo \<Rightarrow> 'c option" where
  "embeddings_root repo = Option.bind (rr_commit repo) cm_embeddings"

definition sparse_root :: "'c readonly_repo \<Rightarrow> 'c option" where
  "sparse_root repo = Option.bind (rr_commit repo) cm_sparse"

definition embedding_for ::
    "('c, 'h, 'b) external \<Rightarrow> ('c, 'b) store \<Rightarrow> nat \<Rightarrow> 'c readonly_repo \<Rightarrow> 'c \<Rightarrow> string \<Rightarrow> 'c error + embedding option" where
  "embedding_for E bs fuel repo node_cid model =
     rbind (sidecar_bucket E bs fuel de_embedding_bucket (embeddings_root repo) node_cid) (\<lambda>bucket.
     Inr (Option.bind bucket (\<lambda>b. bucket_get b model)))"

definition embedding_models_for ::
    "('c, 'h, 'b) external \<Rightarrow> ('c, 'b) store \<Rightarrow> nat \<Rightarrow> 'c readonly_repo \<Rightarrow> 'c \<Rightarrow> 'c error + string list" where
  "embedding_models_for E bs fuel repo node_cid =
     rbind (sidecar_bucket E bs fuel de_embedding_bucket (embeddings_root repo) node_cid) (\<lambda>bucket.
     Inr (case bucket of None \<Rightarrow> [] | Some b \<Rightarrow> map fst (bk_entries b)))"

definition sparse_for ::
    "('c, 'h, 'b) external \<Rightarrow> ('c, 'b) store \<Rightarrow> nat \<Rightarrow> 'c readonly_repo \<Rightarrow> 'c \<Rightarrow> string \<Rightarrow> 'c error + sparse_embed option" where
  "sparse_for E bs fuel repo node_cid vocab_id =
     rbind (sidecar_bucket E bs fuel (de_sparse_bucket E) (sparse_root repo) node_cid) (\<lambda>bucket.
     Inr (Option.bind bucket (\<lambda>b. bucket_get b vocab_id)))"

definition sparse_vocabs_for ::
    "('c, 'h, 'b) external \<Rightarrow> ('c, 'b) store \<Rightarrow> nat \<Rightarrow> 'c readonly_repo \<Rightarrow> 'c \<Rightarrow> 'c error + string list" where
  "sparse_vocabs_for E bs fuel repo node_cid =
     rbind (sidecar_bucket E bs fuel (de_sparse_bucket E) (sparse_root repo) node_cid) (\<lambda>bucket.
     Inr (case bucket of None \<Rightarrow> [] | Some b \<Rightarrow> map fst (bk_entries b)))"

text \<open>The loops over an adjacency bucket; \<open>usize::MAX\<close> edges are not reached, so the outgoing one has no cap.\<close>

definition wanted :: "string list option \<Rightarrow> string \<Rightarrow> bool" where
  "wanted etype_filter label = (case etype_filter of None \<Rightarrow> True | Some want \<Rightarrow> label \<in> set want)"

fun collect_out ::
    "('c, 'h, 'b) external \<Rightarrow> ('c, 'b) store \<Rightarrow> string list option \<Rightarrow> 'c adjacency_entry list \<Rightarrow> 'c edge list
       \<Rightarrow> 'c error + 'c edge list" where
  "collect_out E bs etype_filter [] out = Inr out"
| "collect_out E bs etype_filter (ae # es) out =
     (if \<not> wanted etype_filter (ae_label ae) then collect_out E bs etype_filter es out
      else rbind (decode_from_store E de_edge bs (ae_edge ae)) (\<lambda>edge. collect_out E bs etype_filter es (out @ [edge])))"

fun collect_in ::
    "('c, 'h, 'b) external \<Rightarrow> ('c, 'b) store \<Rightarrow> string list option \<Rightarrow> nat \<Rightarrow> 'c incoming_entry list \<Rightarrow> 'c edge list
       \<Rightarrow> 'c error + 'c edge list" where
  "collect_in E bs etype_filter cap [] out = Inr out"
| "collect_in E bs etype_filter cap (ae # es) out =
     (if cap \<le> length out then Inr out
      else if \<not> wanted etype_filter (ie_label ae) then collect_in E bs etype_filter cap es out
      else rbind (decode_from_store E de_edge bs (ie_edge ae)) (\<lambda>edge. collect_in E bs etype_filter cap es (out @ [edge])))"

definition DEFAULT_ADJACENCY_CAP :: nat where "DEFAULT_ADJACENCY_CAP = 10000"

definition outgoing_edges ::
    "('c, 'h, 'b) external \<Rightarrow> ('c, 'b) store \<Rightarrow> nat \<Rightarrow> 'c readonly_repo \<Rightarrow> node_id \<Rightarrow> string list option
       \<Rightarrow> 'c error + 'c edge list" where
  "outgoing_edges E bs fuel repo src etype_filter =
     (case Option.bind (rr_commit repo) cm_indexes of
        None \<Rightarrow> Inr []
      | Some indexes_cid \<Rightarrow>
          rbind (decode_from_store E de_index_set bs indexes_cid) (\<lambda>indexes.
          case is_outgoing indexes of
            None \<Rightarrow> Inr []
          | Some adj_root \<Rightarrow>
              rbind (prolly_lookup E bs fuel adj_root src) (\<lambda>found.
              case found of
                None \<Rightarrow> Inr []
              | Some bucket_cid \<Rightarrow>
                  rbind (decode_from_store E de_adjacency_bucket bs bucket_cid) (\<lambda>bucket.
                  collect_out E bs etype_filter (ab_edges bucket) []))))"

definition incoming_edges_capped ::
    "('c, 'h, 'b) external \<Rightarrow> ('c, 'b) store \<Rightarrow> nat \<Rightarrow> 'c readonly_repo \<Rightarrow> node_id \<Rightarrow> string list option \<Rightarrow> nat
       \<Rightarrow> 'c error + 'c edge list" where
  "incoming_edges_capped E bs fuel repo dst etype_filter cap =
     (case Option.bind (rr_commit repo) cm_indexes of
        None \<Rightarrow> Inr []
      | Some indexes_cid \<Rightarrow>
          rbind (decode_from_store E de_index_set bs indexes_cid) (\<lambda>indexes.
          case is_incoming indexes of
            None \<Rightarrow> Inr []
          | Some inc_root \<Rightarrow>
              rbind (prolly_lookup E bs fuel inc_root dst) (\<lambda>found.
              case found of
                None \<Rightarrow> Inr []
              | Some bucket_cid \<Rightarrow>
                  rbind (decode_from_store E de_incoming_bucket bs bucket_cid) (\<lambda>bucket.
                  collect_in E bs etype_filter cap (ib_edges bucket) []))))"

definition incoming_edges ::
    "('c, 'h, 'b) external \<Rightarrow> ('c, 'b) store \<Rightarrow> nat \<Rightarrow> 'c readonly_repo \<Rightarrow> node_id \<Rightarrow> string list option
       \<Rightarrow> 'c error + 'c edge list" where
  "incoming_edges E bs fuel repo dst etype_filter =
     incoming_edges_capped E bs fuel repo dst etype_filter DEFAULT_ADJACENCY_CAP"

definition is_tombstoned :: "'c readonly_repo \<Rightarrow> node_id \<Rightarrow> bool" where
  "is_tombstoned repo n \<longleftrightarrow> n |\<in>| fmdom (vw_tombstones (rr_view repo))"

definition tombstone_for :: "'c readonly_repo \<Rightarrow> node_id \<Rightarrow> 'c tombstone option" where
  "tombstone_for repo n = fmlookup (vw_tombstones (rr_view repo)) n"

section \<open>Writing\<close>

definition publish ::
    "('c, 'h, 'b) external \<Rightarrow> 'c readonly_repo \<Rightarrow> 'c view \<Rightarrow> string \<Rightarrow> u64 \<Rightarrow> string
       \<Rightarrow> (('c, 'b) repo_state, 'c error, 'c readonly_repo) prog" where
  "publish E repo new_view author now description =
     sbind (on_blocks (put_checked E (ser_view new_view))) (\<lambda>view_cid.
     let op = op_with_parent (operation_new view_cid author now description) (rr_op_id repo) in
     sbind (on_blocks (put_checked E (ser_operation op))) (\<lambda>op_cid.
     sbind (heads_update op_cid [rr_op_id repo]) (\<lambda>_.
     sread (\<lambda>s. load_at E (rs_blocks s) op_cid))))"

definition update_ref ::
    "('c, 'h, 'b) external \<Rightarrow> u64 \<Rightarrow> 'c readonly_repo \<Rightarrow> string \<Rightarrow> 'c ref_target option \<Rightarrow> 'c ref_target option
       \<Rightarrow> string \<Rightarrow> (('c, 'b) repo_state, 'c error, 'c readonly_repo) prog" where
  "update_ref E now repo name expected_prev new author =
     (let current = fmlookup (vw_refs (rr_view repo)) name in
      if current \<noteq> expected_prev then slift (Inl (Repo Stale))
      else
        let new_view = (case new of
              Some target \<Rightarrow> (rr_view repo)\<lparr>vw_refs := fmupd name target (vw_refs (rr_view repo))\<rparr>
            | None \<Rightarrow> (rr_view repo)\<lparr>vw_refs := fmdrop name (vw_refs (rr_view repo))\<rparr>) in
        publish E repo new_view author now (''update_ref: '' @ name))"

definition update_heads ::
    "('c, 'h, 'b) external \<Rightarrow> u64 \<Rightarrow> 'c readonly_repo \<Rightarrow> 'c \<Rightarrow> string
       \<Rightarrow> (('c, 'b) repo_state, 'c error, 'c readonly_repo) prog" where
  "update_heads E now repo new_head author =
     publish E repo ((rr_view repo)\<lparr>vw_heads := [new_head]\<rparr>) author now (''update_heads: '' @ cid_string E new_head)"

definition switch_branch ::
    "('c, 'h, 'b) external \<Rightarrow> u64 \<Rightarrow> 'c readonly_repo \<Rightarrow> 'c \<Rightarrow> string \<Rightarrow> string
       \<Rightarrow> (('c, 'b) repo_state, 'c error, 'c readonly_repo) prog" where
  "switch_branch E now repo new_head branch_ref author =
     (let new_view = (rr_view repo)\<lparr>vw_heads := [new_head],
            vw_extra := fmupd ''active_branch'' (IString branch_ref) (vw_extra (rr_view repo))\<rparr> in
      publish E repo new_view author now (''switch: '' @ branch_ref @ '' -> '' @ cid_string E new_head))"

end
