(* ===== verification/Readonly_Spec.thy ===== *)
theory Readonly_Spec imports Readonly begin

text \<open>
  What the operations of a repository handle leave behind: a published view is loaded back, over one more operation;
  opening a repository is loading its head, after a merge when there are several; and two compare-and-swaps
  on the same base leave a conflicted ref, not a lost one.
\<close>

section \<open>Loading\<close>

lemma load_at_Inr:
  "load_at E bs c = Inr r \<longleftrightarrow> rr_op_id r = c \<and> decode_from_store E de_operation bs c = Inr (rr_op r) \<and>
     decode_from_store E de_view bs (op_view (rr_op r)) = Inr (rr_view r) \<and>
     (\<exists>hc. head_commit_of E bs (rr_view r) = Inr hc \<and> rr_commit r = map_option snd hc)"
  by (cases r) (auto simp: load_at_def monad_simps)

lemma load_at_view_ok: "load_at E bs c = Inr r \<Longrightarrow> view_ok (rr_view r)"
  by (auto simp: load_at_Inr intro: view_read.decode_ok)

lemma head_commit_mono:
  "head_commit_of E s v = Inr hc \<Longrightarrow> grows E s t \<Longrightarrow> trusted E s \<Longrightarrow> head_commit_of E t v = Inr hc"
  by (auto simp: head_commit_of_def monad_simps split: list.splits intro: decode_from_store_mono)

lemma load_at_mono:
  assumes "load_at E s c = Inr r" and "grows E s t" and "trusted E s"
  shows "load_at E t c = Inr r"
  using assms(1) unfolding load_at_Inr
  by (auto intro: decode_from_store_mono [OF _ assms(2,3)] head_commit_mono [OF _ assms(2,3)])

lemma load_parents:
  assumes "load_at E bs c = Inr r"
  shows "parent_of (op_parents_of E) bs c p \<longleftrightarrow> p \<in> set (op_parents (rr_op r))"
proof -
  obtain b where b: "bs_get bs c = Some b" "from_canonical_bytes E de_operation b = Inr (rr_op r)"
    using assms by (auto simp: load_at_Inr decode_from_store_def split: option.splits)
  then show ?thesis by (simp add: parent_of_def op_parents_of_def)
qed

section \<open>Publishing\<close>

lemma put_checked_grows: "crypto_ok E \<Longrightarrow> put_checked E v s = (Inr c, t) \<Longrightarrow> grows E s t"
  by (drule put_checked_run) (rule preservesD [OF put_grows])

definition published ::
    "('c::linorder, 'h, 'b) external \<Rightarrow> 'c readonly_repo \<Rightarrow> 'c view \<Rightarrow> ('c, 'b) repo_state \<Rightarrow> ('c, 'b) repo_state
       \<Rightarrow> 'c readonly_repo \<Rightarrow> bool" where
  "published E repo v s t r \<longleftrightarrow>
     grows E (rs_blocks s) (rs_blocks t) \<and> rs_heads t = oh_update (rr_op_id r) [rr_op_id repo] (rs_heads s) \<and>
     rr_view r = v \<and> op_parents (rr_op r) = [rr_op_id repo] \<and> load_at E (rs_blocks t) (rr_op_id r) = Inr r"

lemma operation_over: "operation_ok (op_with_parent (operation_new vc author now d) p)"
  "op_parents (op_with_parent (operation_new vc author now d) p) = [p]"
  "op_view (op_with_parent (operation_new vc author now d) p) = vc"
  by (simp_all add: op_with_parent_def operation_new_def operation_ok_def extra_ok_def list_all_iff)

lemma publish_run:
  assumes "publish E repo v author now d s = (Inr r, t)" and "crypto_ok E" and "trusted E (rs_blocks s)" and "view_ok v"
  shows "published E repo v s t r"
proof -
  let ?op = "\<lambda>vc. op_with_parent (operation_new vc author now d) (rr_op_id repo)"
  from assms(1) obtain vc b1 c b2 where v: "put_checked E (ser_view v) (rs_blocks s) = (Inr vc, b1)"
    and p: "put_checked E (ser_operation (?op vc)) b1 = (Inr c, b2)"
    and t: "t = s\<lparr>rs_blocks := b2, rs_heads := oh_update c [rr_op_id repo] (rs_heads s)\<rparr>"
    and l: "load_at E b2 c = Inr r"
    by (auto simp: publish_def monad_simps on_blocks_Inr heads_update_Inr)
  note g = put_checked_grows [OF assms(2) v] put_checked_grows [OF assms(2) p]
  have tr: "trusted E b1" using g(1) assms(3) by (rule grows_trusted)
  have cr: "codec_roundtrip E" using assms(2) by (simp add: crypto_ok_def)
  have o: "decode_from_store E de_operation b2 c = Inr (?op vc)"
    by (rule operation_wire.put_reads_back [OF put_checked_run [OF p] cr operation_over(1)])
  have "decode_from_store E de_view b2 vc = Inr v"
    by (rule decode_from_store_mono [OF view_wire.put_reads_back [OF put_checked_run [OF v] cr assms(4)] g(2) tr])
  with o l have "rr_op_id r = c" "rr_op r = ?op vc" "rr_view r = v"
    unfolding load_at_Inr by (simp_all add: operation_over)
  moreover have "grows E (rs_blocks s) b2" using g by (rule grows_trans)
  ultimately show ?thesis using l by (simp add: published_def t operation_over)
qed

text \<open>A publication succeeds whenever its two blocks can be encoded and the commit of the new view can be read. What
  \<open>put\<close> recomputes for a block under its own CID is that CID: the behaviour of \<open>cid\<close> and \<open>multihash\<close> it relies on.\<close>

definition rehashes :: "('c, 'h, 'b) external \<Rightarrow> bool" where
  "rehashes E \<longleftrightarrow> (\<forall>b. recompute_cid E (block_cid E b) b = Some (block_cid E b))"

lemma rehashes_accessors: "cid_accessors E \<Longrightarrow> rehashes E"
  by (simp add: rehashes_def recompute_block_cid)

lemma put_checked_succeeds:
  "rehashes E \<Longrightarrow> enc E v = Some b \<Longrightarrow> put_checked E v s = (Inr (block_cid E b), fmupd (block_cid E b) b s)"
  by (simp add: put_checked_Inr bs_put_def rehashes_def)

lemma publish_succeeds:
  assumes "rehashes E" and "crypto_ok E" and "trusted E (rs_blocks s)" and "view_ok v"
    and "head_commit_of E (rs_blocks s) v = Inr hc"
    and "enc E (ser_view v) = Some vb"
    and "enc E (ser_operation (op_with_parent (operation_new (block_cid E vb) author now d) (rr_op_id repo))) = Some ob"
  shows "\<exists>r t. publish E repo v author now d s = (Inr r, t)"
proof -
  let ?op = "op_with_parent (operation_new (block_cid E vb) author now d) (rr_op_id repo)"
  let ?b1 = "fmupd (block_cid E vb) vb (rs_blocks s)"
  let ?b2 = "fmupd (block_cid E ob) ob ?b1"
  note v = put_checked_succeeds [OF assms(1,6), of "rs_blocks s"] and o = put_checked_succeeds [OF assms(1,7), of ?b1]
  note g = put_checked_grows [OF assms(2) v] put_checked_grows [OF assms(2) o]
  have tr: "trusted E ?b1" using g(1) assms(3) by (rule grows_trusted)
  have cr: "codec_roundtrip E" using assms(2) by (simp add: crypto_ok_def)
  have op: "decode_from_store E de_operation ?b2 (block_cid E ob) = Inr ?op"
    by (rule operation_wire.put_reads_back [OF put_checked_run [OF o] cr operation_over(1)])
  have view: "decode_from_store E de_view ?b2 (block_cid E vb) = Inr v"
    by (rule decode_from_store_mono [OF view_wire.put_reads_back [OF put_checked_run [OF v] cr assms(4)] g(2) tr])
  have "head_commit_of E ?b2 v = Inr hc"
    by (rule head_commit_mono [OF assms(5) grows_trans [OF g] assms(3)])
  with op view have "load_at E ?b2 (block_cid E ob)
      = Inr \<lparr>rr_op_id = block_cid E ob, rr_op = ?op, rr_view = v, rr_commit = map_option snd hc\<rparr>"
    by (simp add: load_at_Inr operation_over)
  then show ?thesis
    by (simp add: publish_def sbind_def on_blocks_def v o heads_update_def sread_apply)
qed

definition set_ref :: "string \<Rightarrow> 'c ref_target option \<Rightarrow> 'c view \<Rightarrow> 'c view" where
  "set_ref name new v = v\<lparr>vw_refs := (case new of Some t \<Rightarrow> fmupd name t (vw_refs v) | None \<Rightarrow> fmdrop name (vw_refs v))\<rparr>"

lemma set_ref_simps [simp]:
  "fmlookup (vw_refs (set_ref name new v)) n = (if n = name then new else fmlookup (vw_refs v) n)"
  "vw_heads (set_ref name new v) = vw_heads v" "vw_tombstones (set_ref name new v) = vw_tombstones v"
  "vw_extra (set_ref name new v) = vw_extra v" "view_ok (set_ref name new v) = view_ok v"
  by (auto simp: set_ref_def view_ok_def split: option.split)

lemma update_ref_eq:
  "update_ref E now repo name prev new author =
     (if fmlookup (vw_refs (rr_view repo)) name \<noteq> prev then slift (Inl (Repo Stale))
      else publish E repo (set_ref name new (rr_view repo)) author now (''update_ref: '' @ name))"
  by (cases new) (simp_all add: update_ref_def set_ref_def Let_def)

lemma update_ref_run:
  assumes "update_ref E now repo name prev new author s = (Inr r, t)" and "crypto_ok E" and "trusted E (rs_blocks s)"
    and "view_ok (rr_view repo)"
  shows "fmlookup (vw_refs (rr_view repo)) name = prev \<and> published E repo (set_ref name new (rr_view repo)) s t r"
  using assms publish_run [of E repo "set_ref name new (rr_view repo)" author now "''update_ref: '' @ name" s r t]
  by (auto simp: update_ref_eq slift_def split: if_splits)

section \<open>Opening\<close>

lemma repo_open_cases:
  "repo_open E fuel s =
     (case oh_current (rs_heads s) of
        [] \<Rightarrow> (Inl (Repo Uninitialized), s)
      | [head] \<Rightarrow> (load_at E (rs_blocks s) head, s)
      | _ \<Rightarrow> (case merge_op_heads E fuel (oh_current (rs_heads s)) s of
               (Inl e, t) \<Rightarrow> (Inl e, t)
             | (Inr c, t) \<Rightarrow> (load_at E (rs_blocks t) c, t)))"
  by (auto simp: repo_open_def sbind_sread slift_def sread_apply sbind_def split: list.split prod.split sum.split)

lemma oh_current_set: "set (oh_current h) = fset h" "distinct (oh_current h)" "sorted (oh_current h)"
  by (simp_all add: oh_current_def sorted_list_of_fset.rep_eq)

lemma repo_open_merges:
  assumes "repo_open E fuel s = (Inr r, t)" and "2 \<le> length (oh_current (rs_heads s))"
  obtains c where "merge_op_heads E fuel (oh_current (rs_heads s)) s = (Inr c, t)" and "load_at E (rs_blocks t) c = Inr r"
proof -
  obtain h1 h2 hs where h: "oh_current (rs_heads s) = h1 # h2 # hs"
    using assms(2) by (cases "oh_current (rs_heads s)"; cases "tl (oh_current (rs_heads s))") auto
  obtain q u where m: "merge_op_heads E fuel (oh_current (rs_heads s)) s = (q, u)" by fastforce
  with assms(1) h that show thesis by (cases q) (auto simp: repo_open_cases)
qed

text \<open>What opening a repository with several heads yields.\<close>

lemma repo_open_merge_spec:
  assumes "repo_open E fuel s = (Inr r, t)" and "2 \<le> length (oh_current (rs_heads s))" and "crypto_ok E"
    and "trusted E (rs_blocks s)"
  defines "heads \<equiv> oh_current (rs_heads s)"
  shows "\<exists>loaded a aop av mc.
    rmap (load_head E (rs_blocks s)) heads = Inr loaded \<and> find_lca_many E (rs_blocks s) heads = Inr (Some a) \<and>
    decode_from_store E de_operation (rs_blocks s) a = Inr aop \<and>
    decode_from_store E de_view (rs_blocks s) (op_view aop) = Inr av \<and>
    fst (build_merge_commit E fuel (map (snd \<circ> snd) loaded) (rs_blocks s)) = Inr mc \<and>
    grows E (snd (build_merge_commit E fuel (map (snd \<circ> snd) loaded) (rs_blocks s))) (rs_blocks t) \<and>
    load_at E (rs_blocks t) (rr_op_id r) = Inr r \<and> op_parents (rr_op r) = heads \<and>
    rr_view r = merged_view_of av (map (fst \<circ> snd) loaded) mc \<and>
    rs_heads t = oh_update (rr_op_id r) heads (rs_heads s)"
proof -
  obtain c where m: "merge_op_heads E fuel heads s = (Inr c, t)" and l: "load_at E (rs_blocks t) c = Inr r"
    using repo_open_merges [OF assms(1,2)] unfolding heads_def by blast
  have srt: "sort heads = heads" unfolding heads_def by (rule sorted_sort_id) (rule oh_current_set(3))
  obtain bs where b: "merge_blocks E fuel heads (rs_blocks s) = (Inr c, bs)"
    and t: "t = s\<lparr>rs_blocks := bs, rs_heads := oh_update c heads (rs_heads s)\<rparr>"
    using m unfolding merge_op_heads_Inr srt by blast
  have c: "c = rr_op_id r" using l by (simp add: load_at_Inr)
  obtain loaded a aop av mc op where 1: "rmap (load_head E (rs_blocks s)) heads = Inr loaded"
    "find_lca_many E (rs_blocks s) heads = Inr (Some a)"
    "decode_from_store E de_operation (rs_blocks s) a = Inr aop"
    "decode_from_store E de_view (rs_blocks s) (op_view aop) = Inr av"
    "fst (build_merge_commit E fuel (map (snd \<circ> snd) loaded) (rs_blocks s)) = Inr mc"
    "grows E (snd (build_merge_commit E fuel (map (snd \<circ> snd) loaded) (rs_blocks s))) bs"
    and op: "decode_from_store E de_operation bs c = Inr op" "op_parents op = heads"
    "decode_from_store E de_view bs (op_view op) = Inr (merged_view_of av (map (fst \<circ> snd) loaded) mc)"
    using merge_blocks_spec [OF b assms(3,4)] by blast
  have "rr_op r = op" "rr_view r = merged_view_of av (map (fst \<circ> snd) loaded) mc"
    using l op by (simp_all add: load_at_Inr t)
  with 1 op l c show ?thesis by (intro exI conjI) (assumption | simp add: t)+
qed

section \<open>Two writers on one base\<close>

text \<open>
  Two handles pinned to the same operation each publish a view; the next reader merges them. The operations are
  acyclic, as content addressing makes them.
\<close>

lemma load_head_load_at:
  "load_at E bs c = Inr r \<Longrightarrow> \<exists>hc. load_head E bs c = Inr (rr_op r, rr_view r, hc) \<and>
     head_commit_of E bs (rr_view r) = Inr hc \<and> rr_commit r = map_option snd hc"
  by (auto simp: load_at_Inr load_head_def monad_simps)

lemma same_commit_merge:
  assumes "head_commit_of E bs v = Inr hc"
  shows "build_merge_commit E fuel [hc, hc] s = (Inr (map_option fst hc), s)"
  by (cases hc) (simp_all add: build_merge_commit_def sret_def case_prod_unfold)

definition no_cycles :: "('c, 'h, 'b) external \<Rightarrow> ('c, 'b) store \<Rightarrow> bool" where
  "no_cycles E bs \<longleftrightarrow> acyclicP (parent_of (op_parents_of E) bs)"

lemma no_cyclesD: "no_cycles E bs \<Longrightarrow> parent_of (op_parents_of E) bs c d \<Longrightarrow> (parent_of (op_parents_of E) bs)\<^sup>*\<^sup>* d c \<Longrightarrow> False"
  unfolding no_cycles_def acyclic_def
  by (metis CollectI case_prodI rtranclp_into_tranclp2 tranclp_unfold)

lemma fork_lca:
  assumes "no_cycles E bs" and "load_at E bs h1 = Inr r1" and "load_at E bs h2 = Inr r2" and "h1 \<noteq> h2"
    and "op_parents (rr_op r1) = [base]" and "op_parents (rr_op r2) = [base]"
    and "find_lca_many E bs heads = Inr (Some a)" and "set heads = {h1, h2}" and "2 \<le> length heads"
  shows "a = base"
proof -
  let ?P = "parent_of (op_parents_of E) bs"
  have p: "?P h1 x \<longleftrightarrow> x = base" "?P h2 x \<longleftrightarrow> x = base" for x
    using load_parents [OF assms(2)] load_parents [OF assms(3)] assms(5,6) by simp_all
  have low: "a \<in> op_lowest E bs heads" using find_lca_many_Inr [OF assms(7,9)] by simp
  then have a: "?P\<^sup>*\<^sup>* h1 a" "?P\<^sup>*\<^sup>* h2 a" using assms(8) by (simp_all add: op_lowest_def op_common_def)
  have "?P\<^sup>*\<^sup>* base a"
  proof (cases "a = h1")
    case True
    with a(2) assms(4) p(2) have "?P\<^sup>*\<^sup>* base h1" by (metis converse_rtranclpE)
    then show ?thesis using no_cyclesD [OF assms(1), of h1 base] p(1) by blast
  next
    case False
    with a(1) p(1) show ?thesis by (metis converse_rtranclpE)
  qed
  moreover have "?P\<^sup>*\<^sup>* h1 base" "?P\<^sup>*\<^sup>* h2 base" using p by (simp_all add: r_into_rtranclp)
  then have "base \<in> op_common E bs heads" by (simp add: op_common_def assms(8))
  ultimately show ?thesis using low by (auto simp: op_lowest_def)
qed

lemma fork_heads:
  assumes "oh_current (rs_heads s) = [base]" and "published E repo v1 s s1 r1" and "published E repo v2 s1 s2 r2"
    and "rr_op_id repo = base" and "no_cycles E (rs_blocks s2)" and "trusted E (rs_blocks s)" and "v1 \<noteq> v2"
  shows "load_at E (rs_blocks s2) (rr_op_id r1) = Inr r1 \<and> rr_op_id r1 \<noteq> rr_op_id r2 \<and>
    oh_current (rs_heads s2) = sort [rr_op_id r1, rr_op_id r2] \<and> trusted E (rs_blocks s2)"
proof -
  have tr: "trusted E (rs_blocks s1)" "trusted E (rs_blocks s2)"
    using assms(2,3,6) unfolding published_def by (blast dest: grows_trusted)+
  have l: "load_at E (rs_blocks s2) (rr_op_id r1) = Inr r1" "load_at E (rs_blocks s2) (rr_op_id r2) = Inr r2"
    using assms(2,3) tr unfolding published_def by (blast intro: load_at_mono)+
  have ne: "rr_op_id r1 \<noteq> rr_op_id r2"
  proof
    assume "rr_op_id r1 = rr_op_id r2"
    then have "r1 = r2" using l by (metis sum.inject(2))
    then show False using assms(2,3,7) unfolding published_def by blast
  qed
  have "parent_of (op_parents_of E) (rs_blocks s2) (rr_op_id r1) base"
    "parent_of (op_parents_of E) (rs_blocks s2) (rr_op_id r2) base"
    using load_parents [OF l(1)] load_parents [OF l(2)] assms(2-4) by (simp_all add: published_def)
  then have nb: "rr_op_id r1 \<noteq> base" "rr_op_id r2 \<noteq> base"
    using no_cyclesD [OF assms(5)] by blast+
  have "fset (rs_heads s) = {base}" using assms(1) oh_current_set(1) [of "rs_heads s"] by simp
  then have "fset (rs_heads s2) = {rr_op_id r1, rr_op_id r2}"
    using assms(2-4) nb by (auto simp: published_def fset_oh_update)
  then have "oh_current (rs_heads s2) = sorted_list_of_set {rr_op_id r1, rr_op_id r2}"
    by (simp add: oh_current_def sorted_list_of_fset.rep_eq)
  also have "\<dots> = sort [rr_op_id r1, rr_op_id r2]" using ne by (auto simp: sorted_pair)
  finally show ?thesis using l ne tr(2) by blast
qed

lemma fork_merge:
  assumes base: "load_at E (rs_blocks s) base = Inr repo" and cur: "oh_current (rs_heads s) = [base]"
    and p1: "published E repo v1 s s1 r1" and p2: "published E repo v2 s1 s2 r2" and ne: "v1 \<noteq> v2"
    and hd: "vw_heads v1 = vw_heads (rr_view repo)" "vw_heads v2 = vw_heads (rr_view repo)"
    and acyc: "no_cycles E (rs_blocks s2)" and cr: "crypto_ok E" and tr: "trusted E (rs_blocks s)"
    and op: "repo_open E fuel s2 = (Inr r, t)"
  shows "oh_current (rs_heads t) = [rr_op_id r] \<and> rr_commit r = rr_commit repo \<and>
    (\<exists>a b. {a, b} = {v1, v2} \<and>
      rr_view r = merged_view_of (rr_view repo) [a, b] (map_option fst (case vw_heads (rr_view repo) of [] \<Rightarrow> None | h # _ \<Rightarrow> Some (h, the (rr_commit repo)))))"
proof -
  let ?h1 = "rr_op_id r1" and ?h2 = "rr_op_id r2" and ?bs = "rs_blocks s2"
  have id: "rr_op_id repo = base" using base by (simp add: load_at_Inr)
  have f: "load_at E ?bs ?h1 = Inr r1" "?h1 \<noteq> ?h2" "oh_current (rs_heads s2) = sort [?h1, ?h2]" "trusted E ?bs"
    using fork_heads [OF cur p1 p2 id acyc tr ne] by blast+
  have l2: "load_at E ?bs ?h2 = Inr r2" using p2 by (simp add: published_def)
  have views: "rr_view r1 = v1" "rr_view r2 = v2" using p1 p2 by (simp_all add: published_def)
  have ps: "op_parents (rr_op r1) = [base]" "op_parents (rr_op r2) = [base]" using p1 p2 id by (simp_all add: published_def)
  have two: "2 \<le> length (oh_current (rs_heads s2))" by (simp add: f(3))
  obtain loaded a aop av mc where ld: "rmap (load_head E ?bs) (sort [?h1, ?h2]) = Inr loaded"
    and lca: "find_lca_many E ?bs (sort [?h1, ?h2]) = Inr (Some a)"
    and aop: "decode_from_store E de_operation ?bs a = Inr aop" and av: "decode_from_store E de_view ?bs (op_view aop) = Inr av"
    and mc: "fst (build_merge_commit E fuel (map (snd \<circ> snd) loaded) ?bs) = Inr mc"
    and g: "grows E (snd (build_merge_commit E fuel (map (snd \<circ> snd) loaded) ?bs)) (rs_blocks t)"
    and lr: "load_at E (rs_blocks t) (rr_op_id r) = Inr r" and rp: "op_parents (rr_op r) = sort [?h1, ?h2]"
    and v: "rr_view r = merged_view_of av (map (fst \<circ> snd) loaded) mc"
    and hs: "rs_heads t = oh_update (rr_op_id r) (sort [?h1, ?h2]) (rs_heads s2)"
    using repo_open_merge_spec [OF op two cr f(4)] unfolding f(3) by blast
  have a: "a = base" by (rule fork_lca [OF acyc f(1) l2 f(2) ps lca]) auto
  have gs: "grows E (rs_blocks s) ?bs" using p1 p2 by (auto simp: published_def intro: grows_trans)
  have lb: "load_at E ?bs base = Inr repo" by (rule load_at_mono [OF base gs tr])
  have av': "av = rr_view repo" using lb aop av a by (simp add: load_at_Inr)
  obtain hc where hc: "head_commit_of E ?bs (rr_view repo) = Inr hc" "rr_commit repo = map_option snd hc"
    using lb by (auto simp: load_at_Inr)
  have hc': "head_commit_of E ?bs v1 = Inr hc" "head_commit_of E ?bs v2 = Inr hc"
    using hc(1) hd by (simp_all add: head_commit_of_def)
  have h1: "load_head E ?bs ?h1 = Inr (rr_op r1, v1, hc)" "load_head E ?bs ?h2 = Inr (rr_op r2, v2, hc)"
    using load_head_load_at [OF f(1)] load_head_load_at [OF l2] hc' by (auto simp: views)
  obtain x y ox oy where xy: "{x, y} = {v1, v2}" and loaded: "loaded = [(ox, x, hc), (oy, y, hc)]"
    using ld h1 by (auto split: if_splits)
  note bm = same_commit_merge [OF hc(1), of fuel ?bs]
  have mcv: "mc = map_option fst hc" and gt: "grows E ?bs (rs_blocks t)"
    using mc g by (simp_all add: loaded bm)
  have "vw_heads v1 = vw_heads v2" using hd by simp
  with xy hd have hxy: "vw_heads x = vw_heads (rr_view repo)" "vw_heads y = vw_heads (rr_view repo)"
    by (auto simp: doubleton_eq_iff)
  have case_hc: "hc = (case vw_heads (rr_view repo) of [] \<Rightarrow> None | h # _ \<Rightarrow> Some (h, the (rr_commit repo)))"
    using hc by (auto simp: head_commit_of_def monad_simps split: list.splits)
  have "rr_commit r = rr_commit repo"
  proof (cases hc)
    case None
    then have "vw_heads (rr_view repo) = []" using hc(1) by (auto simp: head_commit_of_def monad_simps split: list.splits)
    then have "vw_heads (rr_view r) = []" using None
      by (simp add: v loaded mcv merged_view_of_def merge_views_heads hxy av')
    then have "rr_commit r = None" using lr by (auto simp: load_at_Inr head_commit_of_def)
    then show ?thesis using None hc(2) by simp
  next
    case (Some p)
    then have "decode_from_store E de_commit ?bs (fst p) = Inr (snd p)"
      using hc(1) by (auto simp: head_commit_of_def monad_simps split: list.splits)
    then have "decode_from_store E de_commit (rs_blocks t) (fst p) = Inr (snd p)"
      by (rule decode_from_store_mono [OF _ gt f(4)])
    moreover have "vw_heads (rr_view r) = [fst p]" using Some by (simp add: v mcv merged_view_of_def)
    ultimately have "head_commit_of E (rs_blocks t) (rr_view r) = Inr (Some p)"
      by (simp add: head_commit_of_def monad_simps)
    then show ?thesis using lr hc(2) Some by (auto simp: load_at_Inr)
  qed
  moreover have "oh_current (rs_heads t) = [rr_op_id r]"
  proof -
    have len: "length (op_parents (rr_op r)) = 2" by (simp add: rp)
    have "r \<noteq> r1" "r \<noteq> r2" using len ps by auto
    then have "rr_op_id r \<noteq> ?h1" "rr_op_id r \<noteq> ?h2"
      using load_at_mono [OF f(1) gt f(4)] load_at_mono [OF l2 gt f(4)] lr by (metis sum.inject(2))+
    moreover have "fset (rs_heads s2) = {?h1, ?h2}"
      using oh_current_set(1) [of "rs_heads s2"] unfolding f(3) by (simp only: set_sort list.set)
    moreover have "set (sort [?h1, ?h2]) = {?h1, ?h2}" by (simp only: set_sort list.set)
    ultimately have "fset (rs_heads t) = {rr_op_id r}" unfolding hs fset_oh_update by auto
    then show ?thesis by (simp add: oh_current_def sorted_list_of_fset.rep_eq)
  qed
  moreover have "rr_view r = merged_view_of (rr_view repo) [x, y] (map_option fst hc)"
    by (simp add: v loaded mcv av')
  ultimately show ?thesis unfolding case_hc [symmetric] using xy by (intro conjI exI) assumption+
qed

end
