(* ===== verification/Repo_Props.thy ===== *)
theory Repo_Props imports Readonly_Spec Table_Instance begin

text \<open>
  The properties of a repository with several writers: the merge of concurrent operation heads, the compare-and-swap
  on refs, and the two together.
\<close>

section \<open>A repository with one ref\<close>

text \<open>Operation 1 has the ref \<open>main\<close> at 100; the operations 3 and 5 moved it to 101 and to 102, and 7 is their merge.\<close>

definition rview :: "nat ref_target \<Rightarrow> nat view" where
  "rview t = with_ref view_new ''main'' t"

definition rop :: "nat \<Rightarrow> nat operation" where
  "rop v = op_with_parent (operation_new v ''me'' 5 ''update_ref: main'') 1"

definition rtable :: "nat ipld list" where
  "rtable = [ser_view (rview (Normal 100)), ser_operation (operation_new 0 ''me'' 4 ''init''),
     ser_view (rview (Normal 101)), ser_operation (rop 2), ser_view (rview (Normal 102)), ser_operation (rop 4),
     ser_view (rview (Conflicted [101, 102] [100])),
     ser_operation (merge_op (tE []) [3, 5] [rop 2, rop 4] 6)]"

abbreviation "rE \<equiv> tE rtable"

definition rstate :: "nat list \<Rightarrow> nat list \<Rightarrow> (nat, nat) repo_state" where
  "rstate blocks heads = \<lparr>rs_blocks = table_store blocks, rs_heads = fset_of_list heads\<rparr>"

definition rrepo :: "nat readonly_repo" where
  "rrepo = \<lparr>rr_op_id = 1, rr_op = operation_new 0 ''me'' 4 ''init'', rr_view = rview (Normal 100), rr_commit = None\<rparr>"

lemma rmerge_runs: "fst (merge_op_heads rE 10 [5, 3] (rstate [0, 1, 2, 3, 4, 5] [3, 5])) = Inr 7"
  by code_simp

definition rrace :: "nat error + nat readonly_repo" where
  "rrace = fst (sbind (update_ref rE 5 rrepo ''main'' (Some (Normal 100)) (Some (Normal 101)) ''me'') (\<lambda>_.
     sbind (update_ref rE 5 rrepo ''main'' (Some (Normal 100)) (Some (Normal 102)) ''me'') (\<lambda>_.
     repo_open rE 10)) (rstate [0, 1] [1]))"

lemma rrace_runs: "(case rrace of Inr r \<Rightarrow> rr_op_id r = 7 | Inl _ \<Rightarrow> False)"
  by code_simp

lemma rview_ok [simp]: "view_ok (rview t)"
  by (auto simp: rview_def view_ok_def view_new_def with_ref_def extra_ok_def list_all_iff set_bt_iter split: prod.split)

lemma rview_refs [simp]: "fmlookup (vw_refs (rview t)) n = (if n = ''main'' then Some t else None)" "vw_heads (rview t) = []"
  by (simp_all add: rview_def view_new_def with_ref_def)

lemma rbase_loads: "load_at rE (table_store [0, 1]) 1 = Inr rrepo"
proof -
  have "decode_from_store rE de_operation (table_store [0, 1]) 1 = Inr (operation_new 0 ''me'' 4 ''init'')"
    "decode_from_store rE de_view (table_store [0, 1]) 0 = Inr (rview (Normal 100))"
    by (simp_all add: table_decode rtable_def de_ser_operation de_ser_view operation_new_def operation_ok_def extra_ok_def list_all_iff)
  then show ?thesis by (simp add: load_at_def rrepo_def operation_new_def head_commit_of_def)
qed

text \<open>In a table whose operations only name smaller numbers, the operations are acyclic.\<close>

lemma table_no_cycles:
  assumes "trusted (tE table) bs"
    and "list_all (\<lambda>n. case op_parents_of (tE table) n of Inr ps \<Rightarrow> list_all (\<lambda>p. p < n) ps | Inl _ \<Rightarrow> True) [0..<length table]"
  shows "no_cycles (tE table) bs"
  unfolding no_cycles_def
proof (rule acyclic_subset)
  have "{(c, p). p < (c :: nat)} = {(c, p). c < p}\<inverse>" by auto
  then show "acyclic {(c, p). p < (c :: nat)}"
    using wf_acyclic [OF wf_less] by (simp only: acyclic_converse)
  show "{(c, p). parent_of (op_parents_of (tE table)) bs c p} \<subseteq> {(c, p). p < c}"
  proof safe
    fix c p assume "parent_of (op_parents_of (tE table)) bs c p"
    then obtain b ps where b: "bs_get bs c = Some b" "op_parents_of (tE table) b = Inr ps" "p \<in> set ps"
      by (auto simp: parent_of_def split: sum.splits)
    have "b = c" using assms(1) b(1) unfolding trusted_def by (metis table_block_cid)
    moreover have "b < length table"
      using b(2) by (auto simp: op_parents_of_def from_canonical_bytes_def tE_def split: if_splits)
    moreover from this have "case op_parents_of (tE table) b of Inr ps \<Rightarrow> list_all (\<lambda>p. p < b) ps | Inl _ \<Rightarrow> True"
      using assms(2) by (simp add: list_all_iff)
    ultimately show "p < c" using b(2,3) by (simp add: list_all_iff)
  qed
qed

lemma sort_swap: "sort [b, a] = sort [a, b :: 'c::linorder]"
  by (auto simp: not_le)

lemma merge_divergent_sort:
  assumes "a \<noteq> b" and "a \<noteq> c" and "b \<noteq> c"
  shows "merge_one_ref (Some (Normal c)) [Some (Normal a), Some (Normal b)] = Some (Conflicted (sort [a, b]) [c])"
    and "merge_one_ref (Some (Normal c)) [Some (Normal b), Some (Normal a)] = Some (Conflicted (sort [a, b]) [c])"
proof -
  have swap: "merge_one_ref (Some (Normal c)) [Some (Normal b), Some (Normal a)]
      = merge_one_ref (Some (Normal c)) [Some (Normal a), Some (Normal b)]"
    by (rule merge_one_ref_mset) simp
  show one: "merge_one_ref (Some (Normal c)) [Some (Normal a), Some (Normal b)] = Some (Conflicted (sort [a, b]) [c])"
    using merge_divergent [of a b c] merge_divergent [of b a c] assms swap by (cases "a < b") auto
  show "merge_one_ref (Some (Normal c)) [Some (Normal b), Some (Normal a)] = Some (Conflicted (sort [a, b]) [c])"
    unfolding swap by (rule one)
qed

section \<open>The merge of concurrent heads\<close>

text \<open>C17 (\<open>merge_op_heads\<close>). Two processes that find the same operation heads, in whatever order, and whose stores differ
  only in that one holds further blocks, write the same merge: if the first succeeds with an operation, so does the
  second, with the same CID, and both advance their heads to it.\<close>

theorem op_heads_merge_converges:
  assumes "merge_op_heads E fuel heads s = (Inr c, s')" and "mset heads' = mset heads" and "repo_le s t"
  shows "\<exists>t'. merge_op_heads E fuel heads' t = (Inr c, t') \<and> repo_le s' t' \<and>
    rs_heads s' = oh_update c (sort heads) (rs_heads s) \<and> rs_heads t' = oh_update c (sort heads) (rs_heads t)"
proof -
  have "rs_heads s' = oh_update c (sort heads) (rs_heads s)" using assms(1) unfolding merge_op_heads_Inr by auto
  with merge_op_heads_converges [OF assms] show ?thesis by blast
qed

theorem op_heads_merge_converges_witness:
  "\<exists>t'. merge_op_heads rE 10 [3, 5] (rstate [0, 1, 2, 3, 4, 5, 6] [3, 5]) = (Inr 7, t')"
proof -
  obtain s' where m: "merge_op_heads rE 10 [5, 3] (rstate [0, 1, 2, 3, 4, 5] [3, 5]) = (Inr 7, s')"
    using rmerge_runs by (cases "merge_op_heads rE 10 [5, 3] (rstate [0, 1, 2, 3, 4, 5] [3, 5])") simp
  have "repo_le (rstate [0, 1, 2, 3, 4, 5] [3, 5]) (rstate [0, 1, 2, 3, 4, 5, 6] [3, 5])"
    by (simp add: repo_le_def store_le_def rstate_def table_store_get)
  from op_heads_merge_converges [OF m _ this, of "[3, 5]"] show ?thesis by auto
qed

section \<open>Compare-and-swap\<close>

text \<open>C18 (\<open>repo/readonly.rs\<close>, \<open>update_ref\<close>). The compare-and-swap on a ref decides on the pinned view: when the ref is not
  what the caller expected it answers \<open>Stale\<close> and leaves both stores as they were; otherwise it always succeeds (the
  new view and operation encode, and the pinned commit is readable): every block is kept, the new head replaces the
  pinned operation, and the new handle reads back the pinned view with just this ref changed.\<close>

theorem update_ref_cas:
  assumes "rehashes E" and "crypto_ok E" and "trusted E (rs_blocks s)" and "view_ok (rr_view repo)"
    and "head_commit_of E (rs_blocks s) (rr_view repo) = Inr hc"
    and "enc E (ser_view (set_ref name new (rr_view repo))) = Some vb"
    and "enc E (ser_operation (op_with_parent
      (operation_new (block_cid E vb) author now (''update_ref: '' @ name)) (rr_op_id repo))) = Some ob"
  shows "if fmlookup (vw_refs (rr_view repo)) name \<noteq> prev
    then update_ref E now repo name prev new author s = (Inl (Repo Stale), s)
    else \<exists>r t. update_ref E now repo name prev new author s = (Inr r, t) \<and>
      published E repo (set_ref name new (rr_view repo)) s t r"
proof (cases "fmlookup (vw_refs (rr_view repo)) name = prev")
  case True
  let ?v = "set_ref name new (rr_view repo)"
  have "head_commit_of E (rs_blocks s) ?v = Inr hc" using assms(5) by (simp add: head_commit_of_def)
  with assms obtain r t where "publish E repo ?v author now (''update_ref: '' @ name) s = (Inr r, t)"
    using publish_succeeds [of E s ?v hc vb author now "''update_ref: '' @ name" repo ob] by auto
  then have "update_ref E now repo name prev new author s = (Inr r, t)" using True by (simp add: update_ref_eq)
  with update_ref_run [OF this assms(2-4)] True show ?thesis by auto
qed (simp add: update_ref_eq slift_def)

theorem update_ref_cas_witness:
  "\<exists>r t. update_ref rE 5 rrepo ''main'' (Some (Normal 100)) (Some (Normal 101)) ''me'' (rstate [0, 1] [1]) = (Inr r, t) \<and>
    vw_refs (rr_view r) = vw_refs (rview (Normal 101))"
proof -
  have v: "set_ref ''main'' (Some (Normal 101)) (rr_view rrepo) = rview (Normal 101)"
    by (simp add: set_ref_def rrepo_def rview_def with_ref_def view_new_def)
  have e: "enc rE (ser_view (rview (Normal 101))) = Some 2"
    "enc rE (ser_operation (op_with_parent (operation_new 2 ''me'' 5 (''update_ref: '' @ ''main'')) 1)) = Some 3"
    by code_simp+
  have "rehashes rE" by (simp add: rehashes_def recompute_cid_def Let_def) (simp add: tE_def block_cid_def)
  from update_ref_cas [OF this crypto_table, of "rstate [0, 1] [1]" rrepo None "''main''" "Some (Normal 101)" 2 "''me''" 5 3
      "Some (Normal 100)", unfolded v] e
  show ?thesis by (auto simp: rstate_def rrepo_def head_commit_of_def published_def)
qed

text \<open>C19 (\<open>update_ref\<close>, \<open>open\<close>, \<open>merge_op_heads\<close>). Two writers pinned to the same operation both move one ref, to different
  targets, and both compare-and-swaps succeed. Neither update is lost: the next reader's \<open>open\<close> leaves a single head, on
  which the ref is conflicted between the two new targets with the old one removed, while every other ref and the
  commit are as before.\<close>

theorem racing_updates_conflict:
  assumes "load_at E (rs_blocks s) base = Inr repo" and "oh_current (rs_heads s) = [base]"
    and "update_ref E now1 repo name (Some (Normal c)) (Some (Normal a)) author1 s = (Inr r1, s1)"
    and "update_ref E now2 repo name (Some (Normal c)) (Some (Normal b)) author2 s1 = (Inr r2, s2)"
    and "repo_open E fuel s2 = (Inr r, t)"
    and "a \<noteq> b" and "a \<noteq> c" and "b \<noteq> c"
    and "no_cycles E (rs_blocks s2)" and "crypto_ok E" and "trusted E (rs_blocks s)"
  shows "oh_current (rs_heads t) = [rr_op_id r] \<and> rr_commit r = rr_commit repo \<and>
    fmlookup (vw_refs (rr_view r)) name = Some (Conflicted (sort [a, b]) [c]) \<and>
    (\<forall>other. other \<noteq> name \<longrightarrow> fmlookup (vw_refs (rr_view r)) other = fmlookup (vw_refs (rr_view repo)) other)"
proof -
  let ?v1 = "set_ref name (Some (Normal a)) (rr_view repo)" and ?v2 = "set_ref name (Some (Normal b)) (rr_view repo)"
  have ok: "view_ok (rr_view repo)" using assms(1) by (rule load_at_view_ok)
  have u1: "fmlookup (vw_refs (rr_view repo)) name = Some (Normal c)" "published E repo ?v1 s s1 r1"
    using update_ref_run [OF assms(3,10,11) ok] by blast+
  have "trusted E (rs_blocks s1)" using u1(2) assms(11) unfolding published_def by (blast dest: grows_trusted)
  from update_ref_run [OF assms(4,10) this ok] have u2: "published E repo ?v2 s1 s2 r2" by blast
  have "fmlookup (vw_refs ?v1) name \<noteq> fmlookup (vw_refs ?v2) name" using assms(6) by simp
  then have "?v1 \<noteq> ?v2" by metis
  from fork_merge [OF assms(1,2) u1(2) u2 this _ _ assms(9-11,5)]
  obtain x y mc where one: "oh_current (rs_heads t) = [rr_op_id r]" "rr_commit r = rr_commit repo"
    and xy: "{x, y} = {?v1, ?v2}" and v: "rr_view r = merged_view_of (rr_view repo) [x, y] mc"
    by auto
  have refs: "fmlookup (vw_refs (rr_view r)) n
      = merge_one_ref (fmlookup (vw_refs (rr_view repo)) n) [fmlookup (vw_refs x) n, fmlookup (vw_refs y) n]" for n
    unfolding v merged_view_of_def by (cases mc) (simp_all add: merge_views_def fmlookup_merge_refs)
  have "fmlookup (vw_refs (rr_view r)) name = Some (Conflicted (sort [a, b]) [c])"
    using xy assms(6-8) u1(1)
    by (auto simp only: refs doubleton_eq_iff merge_divergent_sort set_ref_simps simp_thms if_True sort_swap [of a b])
  moreover have "fmlookup (vw_refs (rr_view r)) n = fmlookup (vw_refs (rr_view repo)) n" if "n \<noteq> name" for n
    using xy that by (auto simp: refs doubleton_eq_iff merge_agreeing)
  ultimately show ?thesis using one by blast
qed

theorem racing_updates_conflict_witness:
  "\<exists>r. rrace = Inr r \<and> fmlookup (vw_refs (rr_view r)) ''main'' = Some (Conflicted [101, 102] [100])"
proof -
  obtain r where r: "rrace = Inr r" using rrace_runs by (auto split: sum.splits)
  then obtain r1 s1 r2 s2 where
    u: "update_ref rE 5 rrepo ''main'' (Some (Normal 100)) (Some (Normal 101)) ''me'' (rstate [0, 1] [1]) = (Inr r1, s1)"
    "update_ref rE 5 rrepo ''main'' (Some (Normal 100)) (Some (Normal 102)) ''me'' s1 = (Inr r2, s2)"
    and o: "fst (repo_open rE 10 s2) = Inr r"
    by (auto simp: rrace_def sbind_def split: prod.splits sum.splits)
  obtain t where o: "repo_open rE 10 s2 = (Inr r, t)" using o by (cases "repo_open rE 10 s2") simp
  have s: "rs_blocks (rstate [0, 1] [1]) = table_store [0, 1]" "oh_current (rs_heads (rstate [0, 1] [1])) = [1]"
    by (simp_all add: rstate_def oh_current_def sorted_list_of_fset.rep_eq fset_of_list.rep_eq)
  have ok: "view_ok (rr_view rrepo)" by (simp add: rrepo_def)
  have t0: "trusted rE (rs_blocks (rstate [0, 1] [1]))" by (simp only: s table_store_trusted)
  have t1: "trusted rE (rs_blocks s1)"
    using update_ref_run [OF u(1) crypto_table t0 ok] t0 unfolding published_def by (blast dest: grows_trusted)
  then have t2: "trusted rE (rs_blocks s2)"
    using update_ref_run [OF u(2) crypto_table t1 ok] unfolding published_def by (blast dest: grows_trusted)
  have "list_all (\<lambda>n. case op_parents_of rE n of Inr ps \<Rightarrow> list_all (\<lambda>p. p < n) ps | Inl _ \<Rightarrow> True) [0..<length rtable]"
    by code_simp
  note acyc = table_no_cycles [OF t2 this]
  have "load_at rE (rs_blocks (rstate [0, 1] [1])) 1 = Inr rrepo" unfolding s by (rule rbase_loads)
  from racing_updates_conflict [OF this s(2) u o _ _ _ acyc crypto_table t0] r show ?thesis by auto
qed

end
