(* ===== verification/Transaction.thy ===== *)
theory Transaction imports Readonly begin

text \<open>
  \<open>crates/mnem-core/src/repo/transaction.rs\<close>: mutations collected against a pinned repository, and the commit that
  writes them. A \<open>transaction\<close> holds what \<open>Transaction\<close> holds; adding a node or an edge writes its block at once and
  notes its CID, everything else only changes the notes. \<open>commit_opts\<close> is the long function of the source in its
  paragraphs: referential integrity, node and edge trees, indexes, the two sidecar trees, commit, view, operation,
  the linearize check, the heads.

  The wall clock and fresh ids are arguments. A failed call leaves the transaction as it was: the source may have kept a
  fetched index set by then, which only saves a later fetch.
\<close>

section \<open>The transaction\<close>

record commit_options =
  co_author :: string
  co_message :: string
  co_linearize :: bool
  co_time_micros :: "u64 option"
  co_change_id :: "change_id option"
  co_agent_id :: "string option"
  co_task_id :: "string option"

definition commit_options_new :: "string \<Rightarrow> string \<Rightarrow> commit_options" where
  "commit_options_new author message =
     \<lparr>co_author = author, co_message = message, co_linearize = False, co_time_micros = None, co_change_id = None,
      co_agent_id = None, co_task_id = None\<rparr>"

definition with_time_micros :: "commit_options \<Rightarrow> u64 \<Rightarrow> commit_options" where
  "with_time_micros opts t = opts\<lparr>co_time_micros := Some t\<rparr>"

definition with_change_id :: "commit_options \<Rightarrow> change_id \<Rightarrow> commit_options" where
  "with_change_id opts i = opts\<lparr>co_change_id := Some i\<rparr>"

record 'c transaction =
  tx_base :: "'c readonly_repo"
  tx_new_nodes :: "(node_id, 'c) fmap"
  tx_removed_nodes :: "node_id fset"
  tx_new_edges :: "(edge_id, 'c) fmap"
  tx_removed_edges :: "edge_id fset"
  tx_ref_updates :: "(string, 'c ref_target option) fmap"
  tx_new_tombstones :: "(node_id, 'c tombstone) fmap"
  tx_removed_tombstones :: "node_id fset"
  tx_pending_by_prop :: "(string \<times> string \<times> prolly_key, node_id) fmap"
  tx_cached_base_indexes :: "'c index_set option option"
  tx_pending_embeddings :: "('c, 'c embedding_bucket) fmap"
  tx_pending_sparse :: "('c, 'c sparse_bucket) fmap"
  tx_active_branch_override :: "string option"

definition transaction_new :: "'c readonly_repo \<Rightarrow> 'c transaction" where
  "transaction_new base =
     \<lparr>tx_base = base, tx_new_nodes = fmempty, tx_removed_nodes = {||}, tx_new_edges = fmempty, tx_removed_edges = {||},
      tx_ref_updates = fmempty, tx_new_tombstones = fmempty, tx_removed_tombstones = {||}, tx_pending_by_prop = fmempty,
      tx_cached_base_indexes = None, tx_pending_embeddings = fmempty, tx_pending_sparse = fmempty,
      tx_active_branch_override = None\<rparr>"

section \<open>Mutations\<close>

definition note_prop :: "('c, 'h, 'b) external \<Rightarrow> 'c node \<Rightarrow> string \<times> 'c ipld \<Rightarrow> 'c transaction \<Rightarrow> 'c transaction" where
  "note_prop E node = (\<lambda>(prop_name, prop_value) tx.
     case prop_value_hash E prop_value of
       Inr hash \<Rightarrow> tx\<lparr>tx_pending_by_prop := fmupd (nd_ntype node, prop_name, hash) (nd_id node) (tx_pending_by_prop tx)\<rparr>
     | Inl _ \<Rightarrow> tx)"

definition note_props :: "('c, 'h, 'b) external \<Rightarrow> 'c node \<Rightarrow> 'c transaction \<Rightarrow> 'c transaction" where
  "note_props E node tx = fold (note_prop E node) (bt_iter (nd_props node)) tx"

definition add_node ::
    "('c, 'h, 'b) external \<Rightarrow> 'c node \<Rightarrow> 'c transaction \<Rightarrow> (('c, 'b) store, 'c error, 'c \<times> 'c transaction) prog" where
  "add_node E node tx =
     sbind (put_object E (ser_node node)) (\<lambda>cid.
     let tx = tx\<lparr>tx_removed_nodes := tx_removed_nodes tx |-| {|nd_id node|},
           tx_new_nodes := fmupd (nd_id node) cid (tx_new_nodes tx)\<rparr> in
     sret (cid, note_props E node tx))"

definition bucket_or_default :: "('c, ('v, 'c) bucket) fmap \<Rightarrow> 'c \<Rightarrow> ('v, 'c) bucket" where
  "bucket_or_default m c = (case fmlookup m c of Some b \<Rightarrow> b | None \<Rightarrow> bucket_default)"

definition set_embedding ::
    "'c \<Rightarrow> string \<Rightarrow> embedding \<Rightarrow> 'c transaction \<Rightarrow> 'c error + 'c transaction" where
  "set_embedding node_cid model e tx =
     (if model = [] then Inl (Object InvalidInput)
      else Inr (tx\<lparr>tx_pending_embeddings := fmupd node_cid
        (bucket_upsert model e (bucket_or_default (tx_pending_embeddings tx) node_cid)) (tx_pending_embeddings tx)\<rparr>))"

definition set_sparse_embedding ::
    "'c \<Rightarrow> string \<Rightarrow> sparse_embed \<Rightarrow> 'c transaction \<Rightarrow> 'c error + 'c transaction" where
  "set_sparse_embedding node_cid vocab_id sparse tx =
     (if vocab_id = [] then Inl (Object InvalidInput)
      else Inr (tx\<lparr>tx_pending_sparse := fmupd node_cid
        (bucket_upsert vocab_id sparse (bucket_or_default (tx_pending_sparse tx) node_cid)) (tx_pending_sparse tx)\<rparr>))"

definition add_edge ::
    "('c, 'h, 'b) external \<Rightarrow> 'c edge \<Rightarrow> 'c transaction \<Rightarrow> (('c, 'b) store, 'c error, 'c \<times> 'c transaction) prog" where
  "add_edge E edge tx =
     sbind (put_object E (ser_edge edge)) (\<lambda>cid.
     sret (cid, tx\<lparr>tx_removed_edges := tx_removed_edges tx |-| {|ed_id edge|},
       tx_new_edges := fmupd (ed_id edge) cid (tx_new_edges tx)\<rparr>))"

definition remove_edge :: "edge_id \<Rightarrow> 'c transaction \<Rightarrow> 'c transaction" where
  "remove_edge e tx = tx\<lparr>tx_new_edges := fmdrop e (tx_new_edges tx), tx_removed_edges := finsert e (tx_removed_edges tx)\<rparr>"

definition cascade :: "'c error + 'c edge list \<Rightarrow> 'c transaction \<Rightarrow> 'c transaction" where
  "cascade found tx = (case found of Inr edges \<Rightarrow> fold (\<lambda>edge. remove_edge (ed_id edge)) edges tx | Inl _ \<Rightarrow> tx)"

definition staged_incident ::
    "('c, 'h, 'b) external \<Rightarrow> ('c, 'b) store \<Rightarrow> node_id \<Rightarrow> 'c transaction \<Rightarrow> edge_id list" where
  "staged_incident E bs n tx =
     List.map_filter (\<lambda>(edge_id, edge_cid).
       case decode_from_store E de_edge bs edge_cid of
         Inr e \<Rightarrow> if ed_src e = n \<or> ed_dst e = n then Some edge_id else None
       | Inl _ \<Rightarrow> None) (bt_iter (tx_new_edges tx))"

text \<open>\<open>pending_by_prop.retain(|_, v| *v != id)\<close>\<close>

definition forget_node :: "node_id \<Rightarrow> ('k, node_id) fmap \<Rightarrow> ('k, node_id) fmap" where
  "forget_node n m = fmfilter (\<lambda>k. fmlookup m k \<noteq> Some n) m"

definition remove_node ::
    "('c, 'h, 'b) external \<Rightarrow> ('c, 'b) store \<Rightarrow> nat \<Rightarrow> node_id \<Rightarrow> 'c transaction \<Rightarrow> 'c transaction" where
  "remove_node E bs fuel n tx =
     (let tx = (case fmlookup (tx_new_nodes tx) n of
            Some cid \<Rightarrow> tx\<lparr>tx_new_nodes := fmdrop n (tx_new_nodes tx),
              tx_pending_embeddings := fmdrop cid (tx_pending_embeddings tx),
              tx_pending_sparse := fmdrop cid (tx_pending_sparse tx)\<rparr>
          | None \<Rightarrow> tx);
          tx = tx\<lparr>tx_removed_nodes := finsert n (tx_removed_nodes tx),
            tx_pending_by_prop := forget_node n (tx_pending_by_prop tx)\<rparr>;
          tx = cascade (outgoing_edges E bs fuel (tx_base tx) n None) tx;
          tx = cascade (incoming_edges E bs fuel (tx_base tx) n None) tx in
      fold remove_edge (staged_incident E bs n tx) tx)"

definition tombstone_node :: "node_id \<Rightarrow> string \<Rightarrow> 'c transaction \<Rightarrow> 'c transaction" where
  "tombstone_node n reason tx = tx\<lparr>tx_new_tombstones := fmupd n (tombstone_new reason 0) (tx_new_tombstones tx)\<rparr>"

definition untombstone_node :: "node_id \<Rightarrow> 'c transaction \<Rightarrow> 'c transaction" where
  "untombstone_node n tx = tx\<lparr>tx_new_tombstones := fmdrop n (tx_new_tombstones tx),
     tx_removed_tombstones := finsert n (tx_removed_tombstones tx)\<rparr>"

definition tx_update_ref :: "string \<Rightarrow> 'c ref_target option \<Rightarrow> 'c transaction \<Rightarrow> 'c transaction" where
  "tx_update_ref name target tx = tx\<lparr>tx_ref_updates := fmupd name target (tx_ref_updates tx)\<rparr>"

definition set_active_branch :: "string \<Rightarrow> 'c transaction \<Rightarrow> 'c transaction" where
  "set_active_branch branch tx = tx\<lparr>tx_active_branch_override := Some branch\<rparr>"

definition or_insert :: "string \<Rightarrow> 'c ipld \<Rightarrow> 'c ipld_map \<Rightarrow> 'c ipld_map" where
  "or_insert k v m = (if fmlookup m k = None then fmupd k v m else m)"

definition commit_memory ::
    "('c, 'h, 'b) external \<Rightarrow> node_id \<Rightarrow> u64 \<Rightarrow> string \<Rightarrow> string \<Rightarrow> (string \<times> 'c ipld) list \<Rightarrow> 'c transaction
       \<Rightarrow> (('c, 'b) store, 'c error, node_id \<times> 'c transaction) prog" where
  "commit_memory E fresh now ntype summary props tx =
     (let node = with_summary (node_new fresh ntype) summary;
          props = fold (\<lambda>(k, v) m. fmupd k v m) props (nd_props node);
          props = or_insert ''mnem:created_at'' (IInteger (uint now)) props;
          props = or_insert ''mnem:updated_at'' (IInteger (uint now)) props in
      sbind (add_node E (node\<lparr>nd_props := props\<rparr>) tx) (\<lambda>(cid, tx). sret (fresh, tx)))"

section \<open>\<open>resolve_or_create_node\<close>\<close>

definition base_indexes ::
    "('c, 'h, 'b) external \<Rightarrow> ('c, 'b) store \<Rightarrow> 'c transaction \<Rightarrow> 'c error + 'c index_set option" where
  "base_indexes E bs tx =
     (case tx_cached_base_indexes tx of
        Some fetched \<Rightarrow> Inr fetched
      | None \<Rightarrow>
          (case Option.bind (rr_commit (tx_base tx)) cm_indexes of
             Some idx_cid \<Rightarrow> rbind (decode_from_store E de_index_set bs idx_cid) (\<lambda>idx. Inr (Some idx))
           | None \<Rightarrow> Inr None))"

definition base_match ::
    "('c, 'h, 'b) external \<Rightarrow> ('c, 'b) store \<Rightarrow> nat \<Rightarrow> 'c index_set option \<Rightarrow> string \<Rightarrow> string \<Rightarrow> 'c ipld \<Rightarrow> 'c transaction
       \<Rightarrow> 'c error + node_id option" where
  "base_match E bs fuel indexes label prop_name value tx =
     (case indexes of
        None \<Rightarrow> Inr None
      | Some indexes \<Rightarrow>
          rbind (lookup_by_prop E bs fuel indexes label prop_name value) (\<lambda>found.
          Inr (case found of
              Some (cid, node) \<Rightarrow>
                if nd_id node |\<notin>| tx_removed_nodes tx
                  \<and> nd_id node |\<notin>| fmdom (vw_tombstones (rr_view (tx_base tx))) then Some (nd_id node) else None
            | None \<Rightarrow> None)))"

definition pending_match :: "string \<Rightarrow> string \<Rightarrow> prolly_key \<Rightarrow> 'c transaction \<Rightarrow> node_id option" where
  "pending_match label prop_name hash tx =
     (case fmlookup (tx_pending_by_prop tx) (label, prop_name, hash) of
        Some n \<Rightarrow> if n |\<notin>| fmdom (tx_new_tombstones tx) then Some n else None
      | None \<Rightarrow> None)"

definition resolve_or_create_node ::
    "('c, 'h, 'b) external \<Rightarrow> nat \<Rightarrow> node_id \<Rightarrow> string \<Rightarrow> string \<Rightarrow> 'c ipld \<Rightarrow> 'c transaction
       \<Rightarrow> (('c, 'b) store, 'c error, node_id \<times> 'c transaction) prog" where
  "resolve_or_create_node E fuel fresh label prop_name value tx =
     sbind (slift (prop_value_hash E value)) (\<lambda>hash.
     case pending_match label prop_name hash tx of
       Some n \<Rightarrow> sret (n, tx)
     | None \<Rightarrow>
         sbind (sread (\<lambda>bs. base_indexes E bs tx)) (\<lambda>indexes.
         let tx = tx\<lparr>tx_cached_base_indexes := Some indexes\<rparr> in
         sbind (sread (\<lambda>bs. base_match E bs fuel indexes label prop_name value tx)) (\<lambda>found.
         case found of
           Some n \<Rightarrow> sret (n, tx)
         | None \<Rightarrow>
             let new_node = node_with_prop (node_new fresh label) prop_name value in
             sbind (add_node E new_node tx) (\<lambda>(cid, tx). sret (nd_id new_node, tx)))))"

section \<open>Trees\<close>

definition rebuild_tree ::
    "('c, 'h, 'b) external \<Rightarrow> nat \<Rightarrow> 'c \<Rightarrow> (prolly_key, 'c) fmap \<Rightarrow> prolly_key fset \<Rightarrow> (('c, 'b) store, 'c error, 'c) prog" where
  "rebuild_tree E fuel base_root additions removals =
     sbind (sread (\<lambda>bs. for_entries E bs fuel base_root
         (\<lambda>(k, v) merged. Inr (if k |\<in>| removals then merged else fmupd k v merged)) fmempty)) (\<lambda>merged.
     build_tree E (bt_iter (fold (\<lambda>(k, v) merged. fmupd k v merged) (bt_iter additions) merged)))"

text \<open>Referential integrity: every staged edge needs both its endpoints among the nodes the commit will show.\<close>

definition check_endpoint ::
    "('c, 'h, 'b) external \<Rightarrow> ('c, 'b) store \<Rightarrow> nat \<Rightarrow> 'c transaction \<Rightarrow> node_id \<times> string \<Rightarrow> 'c error + unit" where
  "check_endpoint E bs fuel tx = (\<lambda>(endpoint, role).
     let in_new = (endpoint |\<in>| fmdom (tx_new_nodes tx) \<and> endpoint |\<notin>| tx_removed_nodes tx) in
     rbind (if endpoint |\<notin>| tx_removed_nodes tx
            then rbind (lookup_node E bs fuel (tx_base tx) endpoint) (\<lambda>node. Inr (node \<noteq> None))
            else Inr False) (\<lambda>in_base.
     if \<not> in_new \<and> \<not> in_base then Inl (Repo (DanglingEdge endpoint role)) else Inr ()))"

definition check_edges ::
    "('c, 'h, 'b) external \<Rightarrow> ('c, 'b) store \<Rightarrow> nat \<Rightarrow> 'c transaction \<Rightarrow> 'c error + unit" where
  "check_edges E bs fuel tx =
     rfold (\<lambda>(edge_id, edge_cid) _.
       rbind (decode_from_store E de_edge bs edge_cid) (\<lambda>edge.
       rfold (\<lambda>e _. check_endpoint E bs fuel tx e) [(ed_src edge, ''src''), (ed_dst edge, ''dst'')] ()))
     (bt_iter (tx_new_edges tx)) ()"

definition base_roots ::
    "('c, 'h, 'b) external \<Rightarrow> 'c readonly_repo \<Rightarrow> (('c, 'b) store, 'c error, 'c \<times> 'c \<times> 'c) prog" where
  "base_roots E base =
     (case rr_commit base of
        Some commit \<Rightarrow> sret (cm_nodes commit, cm_edges commit, cm_schema commit)
      | None \<Rightarrow> sbind (build_tree E []) (\<lambda>empty_root. sret (empty_root, empty_root, empty_root)))"

definition append_only :: "'c transaction \<Rightarrow> bool" where
  "append_only tx \<longleftrightarrow> tx_removed_nodes tx = {||} \<and> tx_removed_edges tx = {||} \<and> fmdom (tx_new_edges tx) = {||} \<and>
     fmdom (tx_new_nodes tx) \<noteq> {||}"

definition has_collision ::
    "('c, 'h, 'b) external \<Rightarrow> ('c, 'b) store \<Rightarrow> nat \<Rightarrow> 'c \<Rightarrow> (node_id, 'c) fmap \<Rightarrow> bool" where
  "has_collision E bs fuel base_nodes new_nodes =
     list_ex (\<lambda>(node_id, _). case prolly_lookup E bs fuel base_nodes node_id of Inr None \<Rightarrow> False | _ \<Rightarrow> True)
       (bt_iter new_nodes)"

definition commit_indexes ::
    "('c::linorder, 'h, 'b) external \<Rightarrow> nat \<Rightarrow> 'c transaction \<Rightarrow> 'c \<Rightarrow> 'c \<Rightarrow> 'c \<Rightarrow> (('c, 'b) store, 'c error, 'c) prog" where
  "commit_indexes E fuel tx base_nodes new_nodes_root new_edges_root =
     (case (append_only tx, Option.bind (rr_commit (tx_base tx)) cm_indexes) of
        (True, Some base_idx) \<Rightarrow>
          sbind (sread (\<lambda>bs. Inr (has_collision E bs fuel base_nodes (tx_new_nodes tx)))) (\<lambda>collision.
          if collision then build_index_set E fuel new_nodes_root new_edges_root
          else incremental_append_indexes E fuel base_idx (tx_new_nodes tx))
      | _ \<Rightarrow> build_index_set E fuel new_nodes_root new_edges_root)"

section \<open>Sidecars\<close>

definition sidecar_removals ::
    "('c, 'h, 'b) external \<Rightarrow> ('c, 'b) store \<Rightarrow> nat \<Rightarrow> 'c \<Rightarrow> node_id fset \<Rightarrow> 'c error + prolly_key fset" where
  "sidecar_removals E bs fuel base_nodes removed =
     rfold (\<lambda>node_id keys.
       case prolly_lookup E bs fuel base_nodes node_id of
         Inr (Some node_cid) \<Rightarrow> rbind (sidecar_key E node_cid) (\<lambda>key. Inr (finsert key keys))
       | _ \<Rightarrow> Inr keys) (sorted_list_of_fset removed) {||}"

definition stage_bucket ::
    "('c, 'h, 'b) external \<Rightarrow> ('a \<Rightarrow> 'c ipld) \<Rightarrow> 'c \<times> 'a \<Rightarrow> (prolly_key, 'c) fmap
       \<Rightarrow> (('c, 'b) store, 'c error, (prolly_key, 'c) fmap) prog" where
  "stage_bucket E ser = (\<lambda>(node_cid, bucket) additions.
     sbind (put_object E (ser bucket)) (\<lambda>bucket_cid.
     sbind (slift (sidecar_key E node_cid)) (\<lambda>key.
     sret (fmupd key bucket_cid additions))))"

definition rebuild_sidecar ::
    "('c::linorder, 'h, 'b) external \<Rightarrow> nat \<Rightarrow> ('a \<Rightarrow> 'c ipld) \<Rightarrow> 'c option \<Rightarrow> ('c, 'a) fmap \<Rightarrow> prolly_key fset
       \<Rightarrow> (('c, 'b) store, 'c error, 'c option) prog" where
  "rebuild_sidecar E fuel ser base_cid staged removals =
     (if fmdom staged = {||} \<and> base_cid = None \<and> removals = {||} then sret None
      else
        sbind (case base_cid of Some c \<Rightarrow> sret c | None \<Rightarrow> build_tree E []) (\<lambda>base_root.
        sbind (sfold (stage_bucket E ser) (bt_iter staged) fmempty) (\<lambda>additions.
        sbind (rebuild_tree E fuel base_root additions removals) (\<lambda>root. sret (Some root)))))"

section \<open>Commit, view, operation\<close>

definition commit_of ::
    "commit_options \<Rightarrow> u64 \<Rightarrow> change_id \<Rightarrow> 'c readonly_repo \<Rightarrow> 'c \<Rightarrow> 'c \<Rightarrow> 'c \<Rightarrow> 'c \<Rightarrow> 'c option \<Rightarrow> 'c option \<Rightarrow> 'c commit" where
  "commit_of opts now change_id base nodes edges schema indexes embeddings sparse =
     (let commit = (commit_new change_id nodes edges schema (co_author opts) now (co_message opts))
            \<lparr>cm_indexes := Some indexes, cm_embeddings := embeddings, cm_sparse := sparse\<rparr> in
      case vw_heads (rr_view base) of
        prev_head # _ \<Rightarrow> cm_with_parent commit prev_head
      | [] \<Rightarrow> commit)"

definition apply_ref_updates :: "(string, 'c ref_target option) fmap \<Rightarrow> 'c view \<Rightarrow> 'c view" where
  "apply_ref_updates updates v =
     fold (\<lambda>(name, target) v. case target of
         Some t \<Rightarrow> v\<lparr>vw_refs := fmupd name t (vw_refs v)\<rparr>
       | None \<Rightarrow> v\<lparr>vw_refs := fmdrop name (vw_refs v)\<rparr>) (bt_iter updates) v"

definition MAIN_REF :: string where "MAIN_REF = ''refs/heads/main''"

definition effective_branch :: "'c transaction \<Rightarrow> string option" where
  "effective_branch tx = (case tx_active_branch_override tx of
     Some b \<Rightarrow> Some b | None \<Rightarrow> active_branch (rr_view (tx_base tx)))"

definition stage_tombstones :: "'c transaction \<Rightarrow> u64 \<Rightarrow> 'c view \<Rightarrow> 'c view" where
  "stage_tombstones tx now v =
     (let v = fold (\<lambda>(node_id, ts) v. v\<lparr>vw_tombstones := fmupd node_id (ts\<lparr>ts_tombstoned_at := now\<rparr>) (vw_tombstones v)\<rparr>)
            (bt_iter (tx_new_tombstones tx)) v in
      fold (\<lambda>node_id v. v\<lparr>vw_tombstones := fmdrop node_id (vw_tombstones v)\<rparr>)
        (sorted_list_of_fset (tx_removed_tombstones tx)) v)"

definition first_commit_refs :: "'c transaction \<Rightarrow> 'c \<Rightarrow> 'c view \<Rightarrow> 'c view" where
  "first_commit_refs tx commit_cid v =
     (let base = rr_view (tx_base tx); is_first_commit = (vw_heads base = [] \<and> fmdom (vw_refs base) = {||}) in
      if is_first_commit \<and> fmlookup (vw_refs v) MAIN_REF = None then
        let v = v\<lparr>vw_refs := fmupd MAIN_REF (Normal commit_cid) (vw_refs v)\<rparr> in
        (if effective_branch tx = None then with_active_branch v MAIN_REF else v)
      else v)"

definition advance_branch :: "'c transaction \<Rightarrow> 'c \<Rightarrow> 'c view \<Rightarrow> 'c view" where
  "advance_branch tx commit_cid v =
     (case effective_branch tx of
        None \<Rightarrow> v
      | Some branch_ref \<Rightarrow>
          let v = with_active_branch v branch_ref in
          if branch_ref |\<in>| fmdom (tx_ref_updates tx) then v
          else v\<lparr>vw_refs := fmupd branch_ref (Normal commit_cid) (vw_refs v)\<rparr>)"

definition new_view_of :: "'c transaction \<Rightarrow> u64 \<Rightarrow> 'c \<Rightarrow> 'c view" where
  "new_view_of tx now commit_cid =
     (let new_view = (rr_view (tx_base tx))\<lparr>vw_heads := [commit_cid]\<rparr>;
          new_view = apply_ref_updates (tx_ref_updates tx) new_view;
          new_view = first_commit_refs tx commit_cid new_view;
          new_view = stage_tombstones tx now new_view in
      advance_branch tx commit_cid new_view)"

definition commit_op :: "commit_options \<Rightarrow> u64 \<Rightarrow> 'c readonly_repo \<Rightarrow> 'c \<Rightarrow> 'c operation" where
  "commit_op opts now base view_cid =
     (op_with_parent (operation_new view_cid (co_author opts) now (''commit: '' @ co_message opts)) (rr_op_id base))
       \<lparr>op_agent_id := co_agent_id opts, op_task_id := co_task_id opts\<rparr>"

section \<open>\<open>commit_opts\<close>\<close>

definition commit_blocks ::
    "('c::linorder, 'h, 'b) external \<Rightarrow> nat \<Rightarrow> u64 \<Rightarrow> change_id \<Rightarrow> commit_options \<Rightarrow> 'c transaction
       \<Rightarrow> (('c, 'b) store, 'c error, 'c) prog" where
  "commit_blocks E fuel now change_id opts tx =
     (let base = tx_base tx in
      sbind (sread (\<lambda>bs. check_edges E bs fuel tx)) (\<lambda>_.
      sbind (base_roots E base) (\<lambda>(base_nodes, base_edges, base_schema).
      sbind (rebuild_tree E fuel base_nodes (tx_new_nodes tx) (tx_removed_nodes tx)) (\<lambda>new_nodes_root.
      sbind (rebuild_tree E fuel base_edges (tx_new_edges tx) (tx_removed_edges tx)) (\<lambda>new_edges_root.
      sbind (commit_indexes E fuel tx base_nodes new_nodes_root new_edges_root) (\<lambda>new_indexes_cid.
      sbind (sread (\<lambda>bs. sidecar_removals E bs fuel base_nodes (tx_removed_nodes tx))) (\<lambda>removals.
      sbind (rebuild_sidecar E fuel ser_embedding_bucket (embeddings_root base) (tx_pending_embeddings tx) removals)
        (\<lambda>new_embeddings_cid.
      sbind (sread (\<lambda>bs. sidecar_removals E bs fuel base_nodes (tx_removed_nodes tx))) (\<lambda>removals.
      sbind (rebuild_sidecar E fuel (ser_sparse_bucket E) (sparse_root base) (tx_pending_sparse tx) removals)
        (\<lambda>new_sparse_cid.
      sbind (put_object E (ser_commit (commit_of opts now change_id base new_nodes_root new_edges_root base_schema
        new_indexes_cid new_embeddings_cid new_sparse_cid))) (\<lambda>commit_cid.
      sbind (put_object E (ser_view (new_view_of tx now commit_cid))) (\<lambda>view_cid.
      put_object E (ser_operation (commit_op opts now base view_cid))))))))))))))"

definition commit_opts ::
    "('c::linorder, 'h, 'b) external \<Rightarrow> nat \<Rightarrow> u64 \<Rightarrow> change_id \<Rightarrow> commit_options \<Rightarrow> 'c transaction
       \<Rightarrow> (('c, 'b) repo_state, 'c error, 'c readonly_repo) prog" where
  "commit_opts E fuel clock fresh opts tx =
     (let now = (case co_time_micros opts of Some t \<Rightarrow> t | None \<Rightarrow> clock);
          change_id = (case co_change_id opts of Some i \<Rightarrow> i | None \<Rightarrow> fresh) in
      sbind (on_blocks (commit_blocks E fuel now change_id opts tx)) (\<lambda>op_cid.
      sbind (sread (\<lambda>s. if co_linearize opts \<and> oh_current (rs_heads s) \<noteq> [rr_op_id (tx_base tx)]
        then Inl (Repo Stale) else Inr ())) (\<lambda>_.
      sbind (heads_update op_cid [rr_op_id (tx_base tx)]) (\<lambda>_.
      sread (\<lambda>s. load_at E (rs_blocks s) op_cid)))))"

definition tx_commit ::
    "('c::linorder, 'h, 'b) external \<Rightarrow> nat \<Rightarrow> u64 \<Rightarrow> change_id \<Rightarrow> string \<Rightarrow> string \<Rightarrow> 'c transaction
       \<Rightarrow> (('c, 'b) repo_state, 'c error, 'c readonly_repo) prog" where
  "tx_commit E fuel clock fresh author message tx =
     commit_opts E fuel clock fresh (commit_options_new author message) tx"

end
