(* ===== verification/Transaction_Spec.thy ===== *)
theory Transaction_Spec imports Transaction Readonly_Spec Index_Append begin

text \<open>
  What a commit leaves behind. The node and edge trees of the new commit are the base trees overlaid with the notes of
  the transaction; every staged edge has both its endpoints; the view is the base view with the notes applied; and the
  new operation stands over the pinned one.
\<close>

section \<open>Trees\<close>

definition overlay :: "(prolly_key \<times> 'c) list \<Rightarrow> (prolly_key, 'c) fmap \<Rightarrow> prolly_key fset \<Rightarrow> prolly_key \<Rightarrow> 'c option" where
  "overlay es additions removals k =
     (case fmlookup additions k of
        Some v \<Rightarrow> Some v
      | None \<Rightarrow> if k |\<in>| removals then None else map_of es k)"

lemma skip_removed:
  assumes "strict_keys es"
  shows "fmlookup (fold (\<lambda>(k, v) m. if k |\<in>| removals then m else fmupd k v m) es fmempty) k
    = (if k |\<in>| removals then None else map_of es k)"
proof -
  have "fmlookup (fold (\<lambda>(k, v) m. if k |\<in>| removals then m else fmupd k v m) es m) k
      = (if k |\<in>| removals then fmlookup m k
         else case map_of (rev es) k of None \<Rightarrow> fmlookup m k | Some v \<Rightarrow> Some v)" for m
    by (induction es arbitrary: m) (auto split: option.split)
  moreover have "map_of (rev es) k = map_of es k"
  proof -
    have d: "distinct (map fst es)" using assms by (rule strict_keys_distinct)
    then have "distinct (map fst (rev es))" by (simp add: rev_map [symmetric])
    with d show ?thesis using map_of_inject_set by fastforce
  qed
  ultimately show ?thesis by (simp split: option.split)
qed

lemma overlay_size:
  assumes "fmlookup m = overlay es additions removals"
  shows "length (bt_iter m) \<le> length es + length (bt_iter additions)"
proof -
  have "fset (fmdom m) \<subseteq> fst ` set (es @ bt_iter additions)"
  proof
    fix k assume "k \<in> fset (fmdom m)"
    then have "overlay es additions removals k \<noteq> None" using assms by (auto simp: fmlookup_dom_iff)
    then have "(\<exists>v. (k, v) \<in> set (bt_iter additions)) \<or> (\<exists>v. (k, v) \<in> set es)"
      by (auto simp: overlay_def set_bt_iter split: option.splits if_splits dest: map_of_SomeD)
    then show "k \<in> fst ` set (es @ bt_iter additions)" by force
  qed
  then show ?thesis using length_bt_iter_le [of m "es @ bt_iter additions"] by simp
qed

lemma rebuild_tree_run:
  assumes "rebuild_tree E fuel root additions removals s = (Inr r, t)" and "crypto_ok E" and "trusted E s"
    and "tree_holds E s fuel root es" and "length es + length (bt_iter additions) + 2 \<le> n"
  shows "grows E s t \<and> (\<exists>m. fmlookup m = overlay es additions removals \<and> tree_holds E t n r (bt_iter m))"
proof -
  let ?kept = "fold (\<lambda>(k, v) m. if k |\<in>| removals then m else fmupd k v m) es fmempty"
  let ?m = "?kept ++\<^sub>f additions"
  have "for_entries E s fuel root (\<lambda>(k, v) m. Inr (if k |\<in>| removals then m else fmupd k v m)) fmempty = Inr ?kept"
    using read_holds_for [OF assms(4), of "\<lambda>(k, v) m. if k |\<in>| removals then m else fmupd k v m"]
    by (simp add: case_prod_unfold)
  then have b: "build_tree E (bt_iter ?m) s = (Inr r, t)"
    using assms(1) by (simp add: rebuild_tree_def sbind_sread fold_insert_add)
  have m: "fmlookup ?m = overlay es additions removals"
    using skip_removed [OF trees.holds_strict [OF assms(4)]]
    by (auto simp: fun_eq_iff overlay_def fmlookup_add_case simp del: fmlookup_add split: option.split)
  have "tree_holds E t n r (bt_iter ?m)"
    using overlay_size [OF m] assms(5) by (intro trees.build_holds [OF assms(2,3) strict_keys_bt_iter _ b]) simp
  with m trees.build_ext [OF assms(2) b] show ?thesis by blast
qed

section \<open>Growth\<close>

lemma rebuild_tree_grows [merge_grows]: "crypto_ok E \<Longrightarrow> preserves (grows E) (rebuild_tree E fuel root additions removals)"
  unfolding rebuild_tree_def by (intro preserve_intros merge_grows)

lemma incremental_grows [merge_grows]: "crypto_ok E \<Longrightarrow> preserves (grows E) (incremental_append_indexes E fuel base added)"
  by (rule incremental_append_grows)

lemma commit_indexes_grows [merge_grows]: "crypto_ok E \<Longrightarrow> preserves (grows E) (commit_indexes E fuel tx bn nr er)"
proof -
  assume ok: "crypto_ok E"
  show ?thesis
    unfolding commit_indexes_def
    by (cases "append_only tx"; cases "Option.bind (rr_commit (tx_base tx)) cm_indexes")
       (auto intro!: preserve_intros merge_grows ok)
qed

lemma stage_bucket_grows [merge_grows]: "crypto_ok E \<Longrightarrow> preserves (grows E) (stage_bucket E ser e additions)"
  unfolding stage_bucket_def case_prod_unfold by (intro preserve_intros merge_grows)

lemma rebuild_sidecar_grows [merge_grows]: "crypto_ok E \<Longrightarrow> preserves (grows E) (rebuild_sidecar E fuel ser b staged removals)"
  unfolding rebuild_sidecar_def case_prod_unfold by (intro preserve_intros merge_grows)

lemma base_roots_grows [merge_grows]: "crypto_ok E \<Longrightarrow> preserves (grows E) (base_roots E base)"
  unfolding base_roots_def by (intro preserve_intros merge_grows)

lemma commit_blocks_grows [merge_grows]: "crypto_ok E \<Longrightarrow> preserves (grows E) (commit_blocks E fuel now ch opts tx)"
  unfolding commit_blocks_def Let_def case_prod_unfold by (intro preserve_intros merge_grows)

section \<open>Referential integrity\<close>

lemma rfold_unit_Inr: "rfold (\<lambda>x _. f x) xs u = Inr v \<Longrightarrow> x \<in> set xs \<Longrightarrow> \<exists>w. f x = Inr w"
proof (induction xs arbitrary: u)
  case (Cons y ys)
  then show ?case by (auto simp: rbind_Inr_iff)
qed simp

lemma check_endpoint_Inr:
  assumes "check_endpoint E bs fuel tx (n, role) = Inr u"
  shows "n |\<notin>| tx_removed_nodes tx \<and> (n |\<in>| fmdom (tx_new_nodes tx) \<or>
    (\<exists>node. lookup_node E bs fuel (tx_base tx) n = Inr (Some node)))"
  using assms by (auto simp: check_endpoint_def rbind_Inr_iff Let_def split: if_splits)

lemma check_edges_Inr:
  assumes "check_edges E bs fuel tx = Inr u" and "fmlookup (tx_new_edges tx) e = Some cid"
  shows "\<exists>edge. decode_from_store E de_edge bs cid = Inr edge \<and>
    (\<forall>n \<in> {ed_src edge, ed_dst edge}. n |\<notin>| tx_removed_nodes tx \<and> (n |\<in>| fmdom (tx_new_nodes tx) \<or>
      (\<exists>node. lookup_node E bs fuel (tx_base tx) n = Inr (Some node))))"
proof -
  have "(e, cid) \<in> set (bt_iter (tx_new_edges tx))" using assms(2) by (simp add: set_bt_iter)
  from rfold_unit_Inr [OF assms(1) [unfolded check_edges_def, simplified case_prod_unfold] this]
  obtain edge where e: "decode_from_store E de_edge bs cid = Inr edge"
    "check_endpoint E bs fuel tx (ed_src edge, ''src'') = Inr ()" "check_endpoint E bs fuel tx (ed_dst edge, ''dst'') = Inr ()"
    by (auto simp: rbind_Inr_iff)
  then show ?thesis using check_endpoint_Inr by blast
qed

section \<open>The view\<close>

lemma apply_ref_updates_refs:
  "fmlookup (vw_refs (apply_ref_updates u v)) n = (case fmlookup u n of Some t \<Rightarrow> t | None \<Rightarrow> fmlookup (vw_refs v) n)"
proof -
  let ?f = "\<lambda>(name, target) v. case target of
         Some t \<Rightarrow> v\<lparr>vw_refs := fmupd name t (vw_refs v)\<rparr>
       | None \<Rightarrow> v\<lparr>vw_refs := fmdrop name (vw_refs v)\<rparr>"
  have "fmlookup (vw_refs (fold ?f es v)) n = (case map_of (rev es) n of Some t \<Rightarrow> t | None \<Rightarrow> fmlookup (vw_refs v) n)" for es
    by (induction es arbitrary: v) (auto split: option.split)
  moreover have "map_of (rev (bt_iter u)) n = fmlookup u n"
    using fmlookup_insert_all [of "bt_iter u" n] by simp
  ultimately show ?thesis by (simp add: apply_ref_updates_def)
qed

lemma apply_ref_updates_keeps [simp]:
  "vw_heads (apply_ref_updates u v) = vw_heads v" "vw_tombstones (apply_ref_updates u v) = vw_tombstones v"
  "vw_extra (apply_ref_updates u v) = vw_extra v" "vw_remote_refs (apply_ref_updates u v) = vw_remote_refs v"
  "vw_wc_commit (apply_ref_updates u v) = vw_wc_commit v"
proof -
  let ?f = "\<lambda>(name, target) v. case target of
         Some t \<Rightarrow> v\<lparr>vw_refs := fmupd name t (vw_refs v)\<rparr>
       | None \<Rightarrow> v\<lparr>vw_refs := fmdrop name (vw_refs v)\<rparr>"
  have "vw_heads (fold ?f es v) = vw_heads v \<and> vw_tombstones (fold ?f es v) = vw_tombstones v \<and>
    vw_extra (fold ?f es v) = vw_extra v \<and> vw_remote_refs (fold ?f es v) = vw_remote_refs v \<and>
    vw_wc_commit (fold ?f es v) = vw_wc_commit v" for es :: "(string \<times> 'a ref_target option) list"
    by (induction es arbitrary: v) (auto split: option.split)
  then show "vw_heads (apply_ref_updates u v) = vw_heads v" "vw_tombstones (apply_ref_updates u v) = vw_tombstones v"
    "vw_extra (apply_ref_updates u v) = vw_extra v" "vw_remote_refs (apply_ref_updates u v) = vw_remote_refs v"
    "vw_wc_commit (apply_ref_updates u v) = vw_wc_commit v"
    by (simp_all add: apply_ref_updates_def)
qed

lemma stage_tombstones_lookup:
  "fmlookup (vw_tombstones (stage_tombstones tx now v)) n =
     (if n |\<in>| tx_removed_tombstones tx then None
      else case fmlookup (tx_new_tombstones tx) n of
        Some ts \<Rightarrow> Some (ts\<lparr>ts_tombstoned_at := now\<rparr>)
      | None \<Rightarrow> fmlookup (vw_tombstones v) n)"
proof -
  let ?f = "\<lambda>(node_id, ts) v. v\<lparr>vw_tombstones := fmupd node_id (ts\<lparr>ts_tombstoned_at := now\<rparr>) (vw_tombstones v)\<rparr>"
  let ?g = "\<lambda>node_id v. v\<lparr>vw_tombstones := fmdrop node_id (vw_tombstones v)\<rparr>"
  have "fmlookup (vw_tombstones (fold ?f es v)) n = (case map_of (rev es) n of
      Some ts \<Rightarrow> Some (ts\<lparr>ts_tombstoned_at := now\<rparr>) | None \<Rightarrow> fmlookup (vw_tombstones v) n)" for es and v :: "'a view"
    by (induction es arbitrary: v) (auto split: option.split)
  moreover have "fmlookup (vw_tombstones (fold ?g ns v)) n = (if n \<in> set ns then None else fmlookup (vw_tombstones v) n)"
    for ns and v :: "'a view"
    by (induction ns arbitrary: v) auto
  moreover have "map_of (rev (bt_iter (tx_new_tombstones tx))) n = fmlookup (tx_new_tombstones tx) n"
    using fmlookup_insert_all [of "bt_iter (tx_new_tombstones tx)" n] by simp
  ultimately show ?thesis
    by (simp add: stage_tombstones_def Let_def sorted_list_of_fset.rep_eq split: option.split)
qed

lemma stage_tombstones_keeps [simp]:
  "vw_heads (stage_tombstones tx now v) = vw_heads v" "vw_refs (stage_tombstones tx now v) = vw_refs v"
  "vw_extra (stage_tombstones tx now v) = vw_extra v"
proof -
  let ?f = "\<lambda>(node_id, ts) v. v\<lparr>vw_tombstones := fmupd node_id (ts\<lparr>ts_tombstoned_at := now\<rparr>) (vw_tombstones v)\<rparr>"
  let ?g = "\<lambda>node_id v. v\<lparr>vw_tombstones := fmdrop node_id (vw_tombstones v)\<rparr>"
  have "vw_heads (fold ?f es v) = vw_heads v \<and> vw_refs (fold ?f es v) = vw_refs v \<and> vw_extra (fold ?f es v) = vw_extra v"
    for es and v :: "'a view"
    by (induction es arbitrary: v) auto
  moreover have "vw_heads (fold ?g ns v) = vw_heads v \<and> vw_refs (fold ?g ns v) = vw_refs v \<and> vw_extra (fold ?g ns v) = vw_extra v"
    for ns and v :: "'a view"
    by (induction ns arbitrary: v) auto
  ultimately show "vw_heads (stage_tombstones tx now v) = vw_heads v" "vw_refs (stage_tombstones tx now v) = vw_refs v"
    "vw_extra (stage_tombstones tx now v) = vw_extra v"
    by (simp_all add: stage_tombstones_def Let_def)
qed

lemma first_commit_keeps [simp]:
  "vw_heads (first_commit_refs tx c v) = vw_heads v" "vw_tombstones (first_commit_refs tx c v) = vw_tombstones v"
  by (simp_all add: first_commit_refs_def with_active_branch_def Let_def)

lemma advance_branch_keeps [simp]:
  "vw_heads (advance_branch tx c v) = vw_heads v" "vw_tombstones (advance_branch tx c v) = vw_tombstones v"
  by (simp_all add: advance_branch_def with_active_branch_def Let_def split: option.split)

lemma new_view_heads [simp]: "vw_heads (new_view_of tx now c) = [c]"
  by (simp add: new_view_of_def Let_def)

lemma new_view_tombstones:
  "fmlookup (vw_tombstones (new_view_of tx now c)) n =
     (if n |\<in>| tx_removed_tombstones tx then None
      else case fmlookup (tx_new_tombstones tx) n of
        Some ts \<Rightarrow> Some (ts\<lparr>ts_tombstoned_at := now\<rparr>)
      | None \<Rightarrow> fmlookup (vw_tombstones (rr_view (tx_base tx))) n)"
  by (simp add: new_view_of_def Let_def stage_tombstones_lookup split: option.split)

definition fresh_repo :: "'c transaction \<Rightarrow> bool" where
  "fresh_repo tx \<longleftrightarrow> vw_heads (rr_view (tx_base tx)) = [] \<and> fmdom (vw_refs (rr_view (tx_base tx))) = {||}"

lemma new_view_refs:
  "fmlookup (vw_refs (new_view_of tx now c)) n =
     (if effective_branch tx = Some n \<and> fmlookup (tx_ref_updates tx) n = None then Some (Normal c)
      else case fmlookup (tx_ref_updates tx) n of
        Some (Some t) \<Rightarrow> Some t
      | Some None \<Rightarrow> if fresh_repo tx \<and> n = MAIN_REF then Some (Normal c) else None
      | None \<Rightarrow> if fresh_repo tx \<and> n = MAIN_REF then Some (Normal c) else fmlookup (vw_refs (rr_view (tx_base tx))) n)"
proof -
  let ?b = "rr_view (tx_base tx)"
  let ?v = "apply_ref_updates (tx_ref_updates tx) (?b\<lparr>vw_heads := [c]\<rparr>)"
  have v: "fmlookup (vw_refs ?v) m = (case fmlookup (tx_ref_updates tx) m of Some t \<Rightarrow> t | None \<Rightarrow> fmlookup (vw_refs ?b) m)" for m
    by (simp add: apply_ref_updates_refs split: option.split)
  have 1: "fmlookup (vw_refs (first_commit_refs tx c ?v)) m =
      (if fresh_repo tx \<and> m = MAIN_REF \<and> fmlookup (vw_refs ?v) m = None then Some (Normal c) else fmlookup (vw_refs ?v) m)" for m
    by (auto simp: first_commit_refs_def Let_def fresh_repo_def with_active_branch_def)
  have none: "fresh_repo tx \<Longrightarrow> fmlookup (vw_refs ?b) m = None" for m
    by (auto simp: fresh_repo_def intro: fmdom_notD)
  show ?thesis
    unfolding new_view_of_def Let_def advance_branch_def
    by (auto simp: 1 v none with_active_branch_def fmlookup_dom_iff split: option.split)
qed

section \<open>The invariant of a transaction\<close>

definition staged_bucket :: "('v, 'c) bucket \<Rightarrow> bool" where
  "staged_bucket b \<longleftrightarrow> bk_extra b = fmempty \<and> distinct_names b"

definition tx_ok :: "'c transaction \<Rightarrow> bool" where
  "tx_ok tx \<longleftrightarrow> view_ok (rr_view (tx_base tx)) \<and>
     fmdom (tx_new_nodes tx) |\<inter>| tx_removed_nodes tx = {||} \<and> fmdom (tx_new_edges tx) |\<inter>| tx_removed_edges tx = {||} \<and>
     (\<forall>n ts. fmlookup (tx_new_tombstones tx) n = Some ts \<longrightarrow> ts_extra ts = fmempty) \<and>
     (\<forall>c b. fmlookup (tx_pending_embeddings tx) c = Some b \<longrightarrow> staged_bucket b) \<and>
     (\<forall>c b. fmlookup (tx_pending_sparse tx) c = Some b \<longrightarrow> staged_bucket b) \<and>
     (\<forall>k n. fmlookup (tx_pending_by_prop tx) k = Some n \<longrightarrow> n |\<in>| fmdom (tx_new_nodes tx))"

definition staged_blocks :: "('c, 'h, 'b) external \<Rightarrow> ('c, 'b) store \<Rightarrow> 'c transaction \<Rightarrow> bool" where
  "staged_blocks E s tx \<longleftrightarrow>
     (\<forall>n c. fmlookup (tx_new_nodes tx) n = Some c \<longrightarrow> (\<exists>node. decode_from_store E de_node s c = Inr node \<and> nd_id node = n)) \<and>
     (\<forall>e c. fmlookup (tx_new_edges tx) e = Some c \<longrightarrow> (\<exists>edge. decode_from_store E de_edge s c = Inr edge \<and> ed_id edge = e))"

lemma staged_blocks_mono: "staged_blocks E s tx \<Longrightarrow> grows E s t \<Longrightarrow> trusted E s \<Longrightarrow> staged_blocks E t tx"
  unfolding staged_blocks_def by (blast intro: decode_from_store_mono)

lemma tx_ok_new: "view_ok (rr_view base) \<Longrightarrow> tx_ok (transaction_new base) \<and> staged_blocks E s (transaction_new base)"
  by (simp add: tx_ok_def transaction_new_def staged_blocks_def)

lemma view_tombstone_ok: "view_ok v \<Longrightarrow> fmlookup (vw_tombstones v) n = Some ts \<Longrightarrow> tombstone_ok ts"
  by (auto simp: view_ok_def set_bt_iter)

lemma new_view_extra: "extra_ok view_names (vw_extra (rr_view (tx_base tx))) \<Longrightarrow> extra_ok view_names (vw_extra (new_view_of tx now c))"
  by (auto simp: new_view_of_def Let_def advance_branch_def first_commit_refs_def with_active_branch_def extra_ok_def
      view_names_def list_all_iff split: option.split)

lemma new_view_ok: "tx_ok tx \<Longrightarrow> view_ok (new_view_of tx now c)"
proof -
  assume ok: "tx_ok tx"
  then have v: "view_ok (rr_view (tx_base tx))" by (simp add: tx_ok_def)
  have "tombstone_ok ts" if "fmlookup (vw_tombstones (new_view_of tx now c)) n = Some ts" for n ts
  proof (cases "fmlookup (tx_new_tombstones tx) n")
    case None
    with that show ?thesis using view_tombstone_ok [OF v] by (auto simp: new_view_tombstones split: if_splits)
  next
    case (Some t)
    with ok have "ts_extra t = fmempty" by (auto simp: tx_ok_def)
    with that Some show ?thesis
      by (auto simp: new_view_tombstones tombstone_ok_def extra_ok_def list_all_iff split: if_splits)
  qed
  moreover have "extra_ok view_names (vw_extra (rr_view (tx_base tx)))" using v by (simp add: view_ok_def)
  ultimately show ?thesis using new_view_extra [of tx now c] by (auto simp: view_ok_def set_bt_iter)
qed

text \<open>Every operation keeps the invariant.\<close>

lemma note_prop_upd: "\<exists>m. note_prop E node e tx = tx\<lparr>tx_pending_by_prop := m\<rparr>"
proof (cases "prop_value_hash E (snd e)")
  case (Inl x)
  then show ?thesis by (intro exI [of _ "tx_pending_by_prop tx"]) (simp add: note_prop_def case_prod_unfold)
qed (auto simp: note_prop_def case_prod_unfold)

lemma note_props_upd: "\<exists>m. note_props E node tx = tx\<lparr>tx_pending_by_prop := m\<rparr>"
proof -
  have "\<exists>m. fold (note_prop E node) es tx = tx\<lparr>tx_pending_by_prop := m\<rparr>" for es and tx :: "'a transaction"
  proof (induction es arbitrary: tx)
    case Nil
    show ?case by (intro exI [of _ "tx_pending_by_prop tx"]) simp
  next
    case (Cons e es)
    obtain m where "note_prop E node e tx = tx\<lparr>tx_pending_by_prop := m\<rparr>" using note_prop_upd by blast
    with Cons.IH [of "tx\<lparr>tx_pending_by_prop := m\<rparr>"] show ?case by simp
  qed
  then show ?thesis by (simp add: note_props_def)
qed

lemma note_props_fields [simp]:
  "tx_base (note_props E node tx) = tx_base tx" "tx_new_nodes (note_props E node tx) = tx_new_nodes tx"
  "tx_removed_nodes (note_props E node tx) = tx_removed_nodes tx" "tx_new_edges (note_props E node tx) = tx_new_edges tx"
  "tx_removed_edges (note_props E node tx) = tx_removed_edges tx"
  "tx_new_tombstones (note_props E node tx) = tx_new_tombstones tx"
  "tx_pending_embeddings (note_props E node tx) = tx_pending_embeddings tx"
  "tx_pending_sparse (note_props E node tx) = tx_pending_sparse tx"
  using note_props_upd [of E node tx] by auto

lemma note_props_pending:
  "fmlookup (tx_pending_by_prop (note_props E node tx)) k = Some n \<Longrightarrow> n = nd_id node \<or> fmlookup (tx_pending_by_prop tx) k = Some n"
proof -
  have "fmlookup (tx_pending_by_prop (fold (note_prop E node) es tx)) k = Some n
      \<Longrightarrow> n = nd_id node \<or> fmlookup (tx_pending_by_prop tx) k = Some n" for es and tx :: "'a transaction"
  proof (induction es arbitrary: tx)
    case (Cons e es)
    then have "n = nd_id node \<or> fmlookup (tx_pending_by_prop (note_prop E node e tx)) k = Some n" by simp
    then show ?case by (auto simp: note_prop_def split: prod.splits sum.splits if_splits)
  qed simp
  then show "fmlookup (tx_pending_by_prop (note_props E node tx)) k = Some n \<Longrightarrow> n = nd_id node \<or> fmlookup (tx_pending_by_prop tx) k = Some n"
    unfolding note_props_def by blast
qed

lemma add_node_run:
  assumes "add_node E node tx s = (Inr (cid, tx'), t)"
  shows "put_object E (ser_node node) s = (Inr cid, t) \<and>
    tx' = note_props E node (tx\<lparr>tx_removed_nodes := tx_removed_nodes tx |-| {|nd_id node|},
           tx_new_nodes := fmupd (nd_id node) cid (tx_new_nodes tx)\<rparr>)"
  using assms by (auto simp: add_node_def Let_def monad_simps)

lemma add_node_inv:
  assumes "add_node E node tx s = (Inr (cid, tx'), t)" and "tx_ok tx" and "staged_blocks E s tx" and "node_ok node"
    and "crypto_ok E" and "trusted E s"
  shows "tx_ok tx' \<and> staged_blocks E t tx' \<and> grows E s t \<and> tx_base tx' = tx_base tx"
proof -
  note run = add_node_run [OF assms(1)]
  have p: "put_object E (ser_node node) s = (Inr cid, t)" using run by blast
  have g: "grows E s t" using put_grows [OF assms(5)] p by (rule preservesD)
  have cr: "codec_roundtrip E" using assms(5) by (simp add: crypto_ok_def)
  have d: "decode_from_store E de_node t cid = Inr node" by (rule node_wire.put_reads_back [OF p cr assms(4)])
  have "tx_ok tx'"
    using assms(2) run by (auto simp: tx_ok_def dest!: note_props_pending)
  moreover have "staged_blocks E t tx'"
    using staged_blocks_mono [OF assms(3) g assms(6)] run d by (auto simp: staged_blocks_def)
  ultimately show ?thesis using g run by simp
qed

definition tx_inv :: "('c, 'h, 'b) external \<Rightarrow> ('c, 'b) store \<Rightarrow> 'c readonly_repo \<Rightarrow> 'c transaction \<Rightarrow> bool" where
  "tx_inv E s base tx \<longleftrightarrow> tx_ok tx \<and> staged_blocks E s tx \<and> tx_base tx = base"

lemma tx_inv_add_node:
  assumes "add_node E node tx s = (Inr (cid, tx'), t)" and "tx_inv E s base tx" and "node_ok node"
    and "crypto_ok E" and "trusted E s"
  shows "tx_inv E t base tx' \<and> grows E s t"
proof -
  have "tx_ok tx" "staged_blocks E s tx" "tx_base tx = base" using assms(2) by (simp_all add: tx_inv_def)
  with add_node_inv [OF assms(1) _ _ assms(3-5)] show ?thesis by (simp add: tx_inv_def)
qed

lemma tx_inv_add_edge:
  assumes "add_edge E edge tx s = (Inr (cid, tx'), t)" and "tx_inv E s base tx" and "edge_ok edge"
    and "crypto_ok E" and "trusted E s"
  shows "tx_inv E t base tx' \<and> grows E s t"
proof -
  from assms(1) have p: "put_object E (ser_edge edge) s = (Inr cid, t)"
    and tx': "tx' = tx\<lparr>tx_removed_edges := tx_removed_edges tx |-| {|ed_id edge|},
       tx_new_edges := fmupd (ed_id edge) cid (tx_new_edges tx)\<rparr>"
    by (auto simp: add_edge_def monad_simps)
  have g: "grows E s t" using put_grows [OF assms(4)] p by (rule preservesD)
  have cr: "codec_roundtrip E" using assms(4) by (simp add: crypto_ok_def)
  have d: "decode_from_store E de_edge t cid = Inr edge" by (rule edge_wire.put_reads_back [OF p cr assms(3)])
  have "staged_blocks E t tx" using assms(2) g assms(5) by (auto simp: tx_inv_def intro: staged_blocks_mono)
  with d have "staged_blocks E t tx'" by (simp add: tx' staged_blocks_def)
  moreover have "tx_ok tx'" using assms(2) by (auto simp: tx_inv_def tx' tx_ok_def)
  ultimately show ?thesis using g assms(2) by (simp add: tx_inv_def tx')
qed

lemma staged_bucket_upsert: "staged_bucket b \<Longrightarrow> staged_bucket (bucket_upsert n v b)"
  by (simp add: staged_bucket_def bucket_upsert_def distinct_names_def distinct_upsert)

lemma staged_bucket_default [simp]: "staged_bucket bucket_default"
  by (simp add: staged_bucket_def bucket_default_def distinct_names_def)

lemma tx_inv_set_embedding:
  "set_embedding c model e tx = Inr tx' \<Longrightarrow> tx_inv E s base tx \<Longrightarrow> tx_inv E s base tx'"
  by (auto simp: set_embedding_def tx_inv_def tx_ok_def staged_blocks_def bucket_or_default_def staged_bucket_upsert
      split: if_splits option.split)

lemma tx_inv_set_sparse:
  "set_sparse_embedding c vocab e tx = Inr tx' \<Longrightarrow> tx_inv E s base tx \<Longrightarrow> tx_inv E s base tx'"
  by (auto simp: set_sparse_embedding_def tx_inv_def tx_ok_def staged_blocks_def bucket_or_default_def staged_bucket_upsert
      split: if_splits option.split)

lemma tx_inv_remove_edge: "tx_inv E s base tx \<Longrightarrow> tx_inv E s base (remove_edge e tx)"
  by (auto simp: tx_inv_def tx_ok_def staged_blocks_def remove_edge_def)

lemma tx_inv_tombstone: "tx_inv E s base tx \<Longrightarrow> tx_inv E s base (tombstone_node n reason tx)"
  by (auto simp: tx_inv_def tx_ok_def staged_blocks_def tombstone_node_def tombstone_new_def)

lemma tx_inv_untombstone: "tx_inv E s base tx \<Longrightarrow> tx_inv E s base (untombstone_node n tx)"
  by (auto simp: tx_inv_def tx_ok_def staged_blocks_def untombstone_node_def)

lemma tx_inv_update_ref: "tx_inv E s base tx \<Longrightarrow> tx_inv E s base (tx_update_ref name target tx)"
  by (auto simp: tx_inv_def tx_ok_def staged_blocks_def tx_update_ref_def)

lemma tx_inv_set_active: "tx_inv E s base tx \<Longrightarrow> tx_inv E s base (set_active_branch b tx)"
  by (auto simp: tx_inv_def tx_ok_def staged_blocks_def set_active_branch_def)

lemma fold_keeps: "P x \<Longrightarrow> (\<And>y x. P x \<Longrightarrow> P (f y x)) \<Longrightarrow> P (fold f ys x)"
  by (induction ys arbitrary: x) auto

lemma tx_inv_cascade: "tx_inv E s base tx \<Longrightarrow> tx_inv E s base (cascade found tx)"
  unfolding cascade_def by (cases found) (auto intro: fold_keeps tx_inv_remove_edge)

lemma forget_node_lookup [simp]:
  "fmlookup (forget_node n m) k = (if fmlookup m k = Some n then None else fmlookup m k)"
  by (simp add: forget_node_def)

lemma tx_inv_drop_node:
  assumes "tx_inv E s base tx"
  shows "tx_inv E s base (tx\<lparr>tx_new_nodes := fmdrop n (tx_new_nodes tx), tx_removed_nodes := finsert n (tx_removed_nodes tx),
    tx_pending_by_prop := forget_node n (tx_pending_by_prop tx)\<rparr>)"
  using assms by (auto simp: tx_inv_def tx_ok_def staged_blocks_def split: if_splits)

lemma tx_inv_drop_sidecars:
  assumes "tx_inv E s base tx"
  shows "tx_inv E s base (tx\<lparr>tx_pending_embeddings := fmdrop cid (tx_pending_embeddings tx),
    tx_pending_sparse := fmdrop cid (tx_pending_sparse tx)\<rparr>)"
  using assms by (auto simp: tx_inv_def tx_ok_def staged_blocks_def split: if_splits)

lemma tx_inv_remove_node: "tx_inv E s base tx \<Longrightarrow> tx_inv E s base (remove_node E bs fuel n tx)"
proof -
  assume inv: "tx_inv E s base tx"
  let ?tx1 = "case fmlookup (tx_new_nodes tx) n of
            Some cid \<Rightarrow> tx\<lparr>tx_new_nodes := fmdrop n (tx_new_nodes tx),
              tx_pending_embeddings := fmdrop cid (tx_pending_embeddings tx),
              tx_pending_sparse := fmdrop cid (tx_pending_sparse tx)\<rparr>
          | None \<Rightarrow> tx"
  let ?drop = "\<lambda>tx1. tx1\<lparr>tx_removed_nodes := finsert n (tx_removed_nodes tx1),
            tx_pending_by_prop := forget_node n (tx_pending_by_prop tx1)\<rparr>"
  have "tx_inv E s base (?drop ?tx1)"
  proof (cases "fmlookup (tx_new_nodes tx) n")
    case None
    then have d: "fmdrop n (tx_new_nodes tx) = tx_new_nodes tx" by (auto intro: fmap_ext)
    have eq: "?tx1 = tx" using None by simp
    show ?thesis unfolding eq using tx_inv_drop_node [OF inv, of n] by (simp add: d)
  next
    case (Some cid)
    then have eq: "?tx1 = tx\<lparr>tx_new_nodes := fmdrop n (tx_new_nodes tx),
              tx_pending_embeddings := fmdrop cid (tx_pending_embeddings tx),
              tx_pending_sparse := fmdrop cid (tx_pending_sparse tx)\<rparr>" by simp
    show ?thesis unfolding eq using tx_inv_drop_node [OF tx_inv_drop_sidecars [OF inv, of cid], of n] by (cases tx) simp
  qed
  then show ?thesis
    unfolding remove_node_def Let_def
    by (rule fold_keeps [where P = "tx_inv E s base", OF tx_inv_cascade [OF tx_inv_cascade] tx_inv_remove_edge])
qed

lemma node_ok_new: "node_ok (node_new n t)" "node_ok (node_with_prop (node_new n t) p v)"
  "node_ok (with_summary (node_new n t) x)" "node_ok ((with_summary (node_new n t) x)\<lparr>nd_props := ps\<rparr>)"
  by (simp_all add: node_ok_def node_new_def node_with_prop_def with_summary_def extra_ok_def list_all_iff)

lemma tx_inv_commit_memory:
  assumes "commit_memory E fresh now ntype summary props tx s = (Inr (n, tx'), t)" and "tx_inv E s base tx"
    and "crypto_ok E" and "trusted E s"
  shows "tx_inv E t base tx' \<and> grows E s t"
proof -
  from assms(1) obtain ps cid where "add_node E ((with_summary (node_new fresh ntype) summary)\<lparr>nd_props := ps\<rparr>) tx s = (Inr (cid, tx'), t)"
    by (auto simp: commit_memory_def Let_def monad_simps)
  from tx_inv_add_node [OF this assms(2) node_ok_new(4) assms(3,4)] show ?thesis .
qed

lemma resolve_run:
  assumes "resolve_or_create_node E fuel fresh label prop_name value tx s = (Inr (n, tx'), t)"
  shows "t = s \<and> (tx' = tx \<or> (\<exists>ix. tx' = tx\<lparr>tx_cached_base_indexes := Some ix\<rparr>)) \<or>
    (\<exists>ix cid. add_node E (node_with_prop (node_new fresh label) prop_name value) (tx\<lparr>tx_cached_base_indexes := Some ix\<rparr>) s
      = (Inr (cid, tx'), t))"
  using assms
  by (auto simp: resolve_or_create_node_def monad_simps Let_def sret_apply split: option.splits)

lemma tx_inv_resolve:
  assumes "resolve_or_create_node E fuel fresh label prop_name value tx s = (Inr (n, tx'), t)" and "tx_inv E s base tx"
    and "crypto_ok E" and "trusted E s"
  shows "tx_inv E t base tx' \<and> grows E s t"
proof -
  have inv: "tx_inv E s base (tx\<lparr>tx_cached_base_indexes := Some ix\<rparr>)" for ix
    using assms(2) by (auto simp: tx_inv_def tx_ok_def staged_blocks_def)
  from resolve_run [OF assms(1)] show ?thesis
    using assms(2) inv tx_inv_add_node [OF _ inv node_ok_new(2) assms(3,4)] by auto
qed

lemma tx_inv_mono: "tx_inv E s base tx \<Longrightarrow> grows E s t \<Longrightarrow> trusted E s \<Longrightarrow> tx_inv E t base tx"
  by (auto simp: tx_inv_def intro: staged_blocks_mono)

text \<open>The operations as steps on the block store and the transaction; the last is any other writer's.\<close>

inductive tx_step :: "('c, 'h, 'b) external \<Rightarrow> nat \<Rightarrow> ('c, 'b) store \<times> 'c transaction \<Rightarrow> ('c, 'b) store \<times> 'c transaction \<Rightarrow> bool"
  for E fuel where
  add_node: "add_node E node tx s = (Inr (cid, tx'), t) \<Longrightarrow> node_ok node \<Longrightarrow> tx_step E fuel (s, tx) (t, tx')"
| set_embedding: "set_embedding c model e tx = Inr tx' \<Longrightarrow> tx_step E fuel (s, tx) (s, tx')"
| set_sparse: "set_sparse_embedding c vocab sp tx = Inr tx' \<Longrightarrow> tx_step E fuel (s, tx) (s, tx')"
| remove_node: "tx_step E fuel (s, tx) (s, remove_node E s fuel n tx)"
| add_edge: "add_edge E edge tx s = (Inr (cid, tx'), t) \<Longrightarrow> edge_ok edge \<Longrightarrow> tx_step E fuel (s, tx) (t, tx')"
| remove_edge: "tx_step E fuel (s, tx) (s, remove_edge e tx)"
| tombstone: "tx_step E fuel (s, tx) (s, tombstone_node n reason tx)"
| untombstone: "tx_step E fuel (s, tx) (s, untombstone_node n tx)"
| update_ref: "tx_step E fuel (s, tx) (s, tx_update_ref name target tx)"
| set_active: "tx_step E fuel (s, tx) (s, set_active_branch b tx)"
| commit_memory: "commit_memory E fresh now ntype summary props tx s = (Inr (n, tx'), t) \<Longrightarrow> tx_step E fuel (s, tx) (t, tx')"
| resolve: "resolve_or_create_node E fuel fresh label p v tx s = (Inr (n, tx'), t) \<Longrightarrow> tx_step E fuel (s, tx) (t, tx')"
| others: "grows E s t \<Longrightarrow> tx_step E fuel (s, tx) (t, tx)"

lemma tx_step_inv:
  assumes "tx_step E fuel x y" and "tx_inv E (fst x) base (snd x)" and "crypto_ok E" and "trusted E (fst x)"
  shows "tx_inv E (fst y) base (snd y) \<and> grows E (fst x) (fst y)"
  using assms
  by (induction rule: tx_step.induct)
     (auto dest: tx_inv_add_node tx_inv_add_edge tx_inv_commit_memory tx_inv_resolve
       intro: tx_inv_set_embedding tx_inv_set_sparse tx_inv_remove_node tx_inv_remove_edge tx_inv_tombstone
         tx_inv_untombstone tx_inv_update_ref tx_inv_set_active tx_inv_mono)

lemma tx_steps_inv:
  assumes "(tx_step E fuel)\<^sup>*\<^sup>* (s, transaction_new base) (t, tx)" and "view_ok (rr_view base)"
    and "crypto_ok E" and "trusted E s"
  shows "tx_inv E t base tx \<and> grows E s t"
proof -
  have "tx_inv E (fst y) base (snd y) \<and> grows E s (fst y)"
    if "(tx_step E fuel)\<^sup>*\<^sup>* (s, transaction_new base) y" for y
    using that
  proof (induction rule: rtranclp_induct)
    case base
    show ?case using tx_ok_new [OF assms(2), of E s] by (simp add: tx_inv_def) (simp add: transaction_new_def)
  next
    case (step y z)
    have "trusted E (fst y)" using step.IH assms(4) by (blast intro: grows_trusted)
    with step tx_step_inv [OF step(2) _ assms(3)] show ?case by (blast intro: grows_trans)
  qed
  from this [OF assms(1)] show ?thesis by simp
qed

end
