(* ===== verification/Commit_Spec.thy ===== *)
theory Commit_Spec imports Transaction_Spec begin

text \<open>
  The commit of a transaction as a whole: the trees, the view and the operation it writes, and what a reader of the
  returned handle finds.
\<close>

section \<open>The run of \<open>commit_blocks\<close>\<close>

definition base_holds ::
    "('c, 'h, 'b) external \<Rightarrow> ('c, 'b) store \<Rightarrow> nat \<Rightarrow> 'c readonly_repo \<Rightarrow> (prolly_key \<times> 'c) list \<Rightarrow> (prolly_key \<times> 'c) list \<Rightarrow> bool" where
  "base_holds E s fuel base nes ees \<longleftrightarrow>
     (case rr_commit base of
        None \<Rightarrow> nes = [] \<and> ees = []
      | Some c \<Rightarrow> tree_holds E s fuel (cm_nodes c) nes \<and> tree_holds E s fuel (cm_edges c) ees)"

definition room_for :: "nat \<Rightarrow> 'c transaction \<Rightarrow> (prolly_key \<times> 'c) list \<Rightarrow> (prolly_key \<times> 'c) list \<Rightarrow> bool" where
  "room_for fuel tx nes ees \<longleftrightarrow> length nes + length (bt_iter (tx_new_nodes tx)) + 2 \<le> fuel \<and>
     length ees + length (bt_iter (tx_new_edges tx)) + 2 \<le> fuel"

lemma base_lookup:
  assumes "base_holds E s fuel base nes ees" and "lookup_node E s fuel base n = Inr (Some node)"
  shows "map_of nes n \<noteq> None"
  using assms
  by (auto simp: base_holds_def lookup_node_def trees.look_holds monad_simps split: option.splits)

lemma base_roots_run:
  assumes "base_roots E base s = (Inr (bn, be, bsch), t)" and "base_holds E s fuel base nes ees"
    and "crypto_ok E" and "trusted E s" and "2 \<le> fuel"
  shows "grows E s t \<and> tree_holds E t fuel bn nes \<and> tree_holds E t fuel be ees"
proof (cases "rr_commit base")
  case None
  then have b: "build_tree E [] s = (Inr bn, t)" and "be = bn" and "nes = []" "ees = []"
    using assms(1,2) by (auto simp: base_roots_def base_holds_def monad_simps)
  moreover have "tree_holds E t fuel bn []"
    using assms(5) by (intro trees.build_holds [OF assms(3,4) _ _ b]) (simp_all add: strict_keys_def)
  ultimately show ?thesis using trees.build_ext [OF assms(3) b] by simp
qed (use assms(1,2) in \<open>auto simp: base_roots_def base_holds_def sret_apply\<close>)

lemma commit_blocks_run:
  assumes "commit_blocks E fuel now ch opts tx s = (Inr oc, t)"
  obtains bn be bsch s1 nr s2 er s3 ix s4 rem emb s5 rem' sp s6 cc s7 vc s8 where
    "check_edges E s fuel tx = Inr ()" and "base_roots E (tx_base tx) s = (Inr (bn, be, bsch), s1)"
    and "rebuild_tree E fuel bn (tx_new_nodes tx) (tx_removed_nodes tx) s1 = (Inr nr, s2)"
    and "rebuild_tree E fuel be (tx_new_edges tx) (tx_removed_edges tx) s2 = (Inr er, s3)"
    and "commit_indexes E fuel tx bn nr er s3 = (Inr ix, s4)"
    and "sidecar_removals E s4 fuel bn (tx_removed_nodes tx) = Inr rem"
    and "rebuild_sidecar E fuel ser_embedding_bucket (embeddings_root (tx_base tx)) (tx_pending_embeddings tx) rem s4 = (Inr emb, s5)"
    and "sidecar_removals E s5 fuel bn (tx_removed_nodes tx) = Inr rem'"
    and "rebuild_sidecar E fuel (ser_sparse_bucket E) (sparse_root (tx_base tx)) (tx_pending_sparse tx) rem' s5 = (Inr sp, s6)"
    and "put_object E (ser_commit (commit_of opts now ch (tx_base tx) nr er bsch ix emb sp)) s6 = (Inr cc, s7)"
    and "put_object E (ser_view (new_view_of tx now cc)) s7 = (Inr vc, s8)"
    and "put_object E (ser_operation (commit_op opts now (tx_base tx) vc)) s8 = (Inr oc, t)"
  using assms unfolding commit_blocks_def Let_def by (auto simp: monad_simps)

lemma commit_of_parts:
  fixes opts now ch base n e sch ix emb sp
  defines "c \<equiv> commit_of opts now ch base n e sch ix emb sp"
  shows "cm_nodes c = n" "cm_edges c = e" "cm_schema c = sch" "cm_indexes c = Some ix" "cm_embeddings c = emb" "cm_sparse c = sp"
    "cm_parents c = take 1 (vw_heads (rr_view base))" "cm_author c = co_author opts" "cm_message c = co_message opts"
    "cm_time c = now" "cm_change_id c = ch" "commit_ok c"
  by (cases "vw_heads (rr_view base)";
      simp add: c_def commit_of_def commit_new_def cm_with_parent_def commit_ok_def extra_ok_def list_all_iff)+

lemma commit_op_parts:
  "op_parents (commit_op opts now base vc) = [rr_op_id base]" "op_view (commit_op opts now base vc) = vc"
  "op_author (commit_op opts now base vc) = co_author opts" "op_time (commit_op opts now base vc) = now"
  "op_agent_id (commit_op opts now base vc) = co_agent_id opts" "op_task_id (commit_op opts now base vc) = co_task_id opts"
  "op_description (commit_op opts now base vc) = ''commit: '' @ co_message opts"
  "operation_ok (commit_op opts now base vc)"
  by (simp_all add: commit_op_def op_with_parent_def operation_new_def operation_ok_def extra_ok_def list_all_iff)

section \<open>The new commit\<close>

text \<open>The path of the append-only index update.\<close>

definition appends_index :: "('c, 'h, 'b) external \<Rightarrow> ('c, 'b) store \<Rightarrow> nat \<Rightarrow> 'c transaction \<Rightarrow> bool" where
  "appends_index E s fuel tx \<longleftrightarrow> append_only tx \<and>
     (\<exists>c ix. rr_commit (tx_base tx) = Some c \<and> cm_indexes c = Some ix \<and> \<not> has_collision E s fuel (cm_nodes c) (tx_new_nodes tx))"

definition commit_shows ::
    "('c::linorder, 'h, 'b) external \<Rightarrow> ('c, 'b) store \<Rightarrow> nat \<Rightarrow> 'c transaction \<Rightarrow> (prolly_key \<times> 'c) list \<Rightarrow> (prolly_key \<times> 'c) list
       \<Rightarrow> 'c commit \<Rightarrow> bool" where
  "commit_shows E t fuel tx nes ees c \<longleftrightarrow>
     tree_of_map E t fuel (cm_nodes c) (overlay nes (tx_new_nodes tx) (tx_removed_nodes tx)) \<and>
     tree_of_map E t fuel (cm_edges c) (overlay ees (tx_new_edges tx) (tx_removed_edges tx)) \<and>
     cm_parents c = take 1 (vw_heads (rr_view (tx_base tx)))"

definition sidecar_written ::
    "('c::linorder, 'h, 'b) external \<Rightarrow> ('c, 'b) store \<Rightarrow> ('c, 'b) store \<Rightarrow> nat \<Rightarrow> ('a \<Rightarrow> 'c ipld) \<Rightarrow> 'c option \<Rightarrow> ('c, 'a) fmap
       \<Rightarrow> 'c option \<Rightarrow> bool" where
  "sidecar_written E s t fuel ser base_cid staged root \<longleftrightarrow>
     (\<exists>removals u v. grows E s u \<and> rebuild_sidecar E fuel ser base_cid staged removals u = (Inr root, v) \<and> grows E v t)"

definition sidecars_written ::
    "('c::linorder, 'h, 'b) external \<Rightarrow> ('c, 'b) store \<Rightarrow> ('c, 'b) store \<Rightarrow> nat \<Rightarrow> 'c transaction \<Rightarrow> 'c commit \<Rightarrow> bool" where
  "sidecars_written E s t fuel tx c \<longleftrightarrow>
     sidecar_written E s t fuel ser_embedding_bucket (embeddings_root (tx_base tx)) (tx_pending_embeddings tx) (cm_embeddings c) \<and>
     sidecar_written E s t fuel (ser_sparse_bucket E) (sparse_root (tx_base tx)) (tx_pending_sparse tx) (cm_sparse c)"

definition endpoints_shown ::
    "('c, 'h, 'b) external \<Rightarrow> ('c, 'b) store \<Rightarrow> 'c transaction \<Rightarrow> (prolly_key \<times> 'c) list \<Rightarrow> bool" where
  "endpoints_shown E s tx nes \<longleftrightarrow>
     (\<forall>e cid. fmlookup (tx_new_edges tx) e = Some cid \<longrightarrow>
       (\<exists>edge. decode_from_store E de_edge s cid = Inr edge \<and>
         overlay nes (tx_new_nodes tx) (tx_removed_nodes tx) (ed_src edge) \<noteq> None \<and>
         overlay nes (tx_new_nodes tx) (tx_removed_nodes tx) (ed_dst edge) \<noteq> None))"

lemma check_edges_shown:
  assumes "check_edges E s fuel tx = Inr u" and "base_holds E s fuel (tx_base tx) nes ees"
  shows "endpoints_shown E s tx nes"
  unfolding endpoints_shown_def
proof (intro allI impI)
  fix e cid assume "fmlookup (tx_new_edges tx) e = Some cid"
  from check_edges_Inr [OF assms(1) this] obtain edge where d: "decode_from_store E de_edge s cid = Inr edge"
    and n: "\<forall>n \<in> {ed_src edge, ed_dst edge}. n |\<notin>| tx_removed_nodes tx \<and> (n |\<in>| fmdom (tx_new_nodes tx) \<or>
      (\<exists>node. lookup_node E s fuel (tx_base tx) n = Inr (Some node)))" by blast
  have "overlay nes (tx_new_nodes tx) (tx_removed_nodes tx) n \<noteq> None" if "n \<in> {ed_src edge, ed_dst edge}" for n
  proof -
    have "n |\<notin>| tx_removed_nodes tx \<and> (n |\<in>| fmdom (tx_new_nodes tx) \<or>
        (\<exists>node. lookup_node E s fuel (tx_base tx) n = Inr (Some node)))"
      using n that by (rule bspec)
    with base_lookup [OF assms(2), of n] have "n |\<notin>| tx_removed_nodes tx"
      "n |\<in>| fmdom (tx_new_nodes tx) \<or> map_of nes n \<noteq> None" by auto
    then show ?thesis by (auto simp: overlay_def fmlookup_dom_iff split: option.split)
  qed
  with d show "\<exists>edge. decode_from_store E de_edge s cid = Inr edge \<and>
         overlay nes (tx_new_nodes tx) (tx_removed_nodes tx) (ed_src edge) \<noteq> None \<and>
         overlay nes (tx_new_nodes tx) (tx_removed_nodes tx) (ed_dst edge) \<noteq> None"
    by blast
qed

lemma commit_indexes_run:
  assumes "commit_indexes E fuel tx bn nr er s = (Inr ix, t)" and "crypto_ok E" and "trusted E s"
    and "tree_holds E s fuel nr nes" and "tree_holds E s fuel er ees" and "length nes + 2 \<le> fuel" and "length ees + 2 \<le> fuel"
    and "\<not> (append_only tx \<and> (\<exists>b. Option.bind (rr_commit (tx_base tx)) cm_indexes = Some b) \<and>
      \<not> has_collision E s fuel bn (tx_new_nodes tx))"
  shows "indexes_match E t fuel [] nr er ix"
proof -
  have b: "build_index_set E fuel nr er s = (Inr ix, t)"
    using assms(1,8) unfolding commit_indexes_def
    by (cases "append_only tx"; cases "Option.bind (rr_commit (tx_base tx)) cm_indexes") (auto simp: sbind_sread)
  then have "index_choice E fuel nr er [] s = (Inr ix, t)" by (simp add: index_choice_def reuse_indexes_def)
  from index_choice_run [OF this assms(2-7)] show ?thesis by blast
qed

lemma has_collision_mono:
  assumes "tree_holds E s fuel root es" and "tree_holds E t fuel root es"
  shows "has_collision E t fuel root m = has_collision E s fuel root m"
  by (simp add: has_collision_def trees.look_holds [OF assms(1)] trees.look_holds [OF assms(2)])

lemma commit_blocks_spec:
  assumes run: "commit_blocks E fuel now ch opts tx s = (Inr oc, t)" and cr: "crypto_ok E" and tr: "trusted E s"
    and ok: "tx_ok tx" and base: "base_holds E s fuel (tx_base tx) nes ees" and room: "room_for fuel tx nes ees"
  shows "grows E s t \<and> endpoints_shown E s tx nes \<and> (\<exists>cc c vc. decode_from_store E de_commit t cc = Inr c \<and>
    commit_shows E t fuel tx nes ees c \<and> sidecars_written E s t fuel tx c \<and>
    (\<not> appends_index E s fuel tx \<longrightarrow> (\<exists>ix. cm_indexes c = Some ix \<and> indexes_match E t fuel [] (cm_nodes c) (cm_edges c) ix)) \<and>
    cm_author c = co_author opts \<and> cm_message c = co_message opts \<and> cm_time c = now \<and> cm_change_id c = ch \<and>
    decode_from_store E de_operation t oc = Inr (commit_op opts now (tx_base tx) vc) \<and>
    decode_from_store E de_view t vc = Inr (new_view_of tx now cc))"
proof -
  obtain bn be bsch s1 nr s2 er s3 ix s4 rem emb s5 rem' sp s6 cc s7 vc s8 where
    chk: "check_edges E s fuel tx = Inr ()" and br: "base_roots E (tx_base tx) s = (Inr (bn, be, bsch), s1)"
    and rn: "rebuild_tree E fuel bn (tx_new_nodes tx) (tx_removed_nodes tx) s1 = (Inr nr, s2)"
    and re: "rebuild_tree E fuel be (tx_new_edges tx) (tx_removed_edges tx) s2 = (Inr er, s3)"
    and ri: "commit_indexes E fuel tx bn nr er s3 = (Inr ix, s4)"
    and se: "rebuild_sidecar E fuel ser_embedding_bucket (embeddings_root (tx_base tx)) (tx_pending_embeddings tx) rem s4 = (Inr emb, s5)"
    and ss: "rebuild_sidecar E fuel (ser_sparse_bucket E) (sparse_root (tx_base tx)) (tx_pending_sparse tx) rem' s5 = (Inr sp, s6)"
    and pc: "put_object E (ser_commit (commit_of opts now ch (tx_base tx) nr er bsch ix emb sp)) s6 = (Inr cc, s7)"
    and pv: "put_object E (ser_view (new_view_of tx now cc)) s7 = (Inr vc, s8)"
    and po: "put_object E (ser_operation (commit_op opts now (tx_base tx) vc)) s8 = (Inr oc, t)"
    by (rule commit_blocks_run [OF run])
  let ?c = "commit_of opts now ch (tx_base tx) nr er bsch ix emb sp"
  have fuel: "2 \<le> fuel" "length nes + length (bt_iter (tx_new_nodes tx)) + 2 \<le> fuel"
    "length ees + length (bt_iter (tx_new_edges tx)) + 2 \<le> fuel"
    using room by (simp_all add: room_for_def)
  have B: "grows E s s1" "tree_holds E s1 fuel bn nes" "tree_holds E s1 fuel be ees"
    using base_roots_run [OF br base cr tr fuel(1)] by blast+
  have t1: "trusted E s1" using B(1) tr by (rule grows_trusted)
  obtain nm where N: "grows E s1 s2" "fmlookup nm = overlay nes (tx_new_nodes tx) (tx_removed_nodes tx)"
    "tree_holds E s2 fuel nr (bt_iter nm)"
    using rebuild_tree_run [OF rn cr t1 B(2) fuel(2)] by blast
  have t2: "trusted E s2" using N(1) t1 by (rule grows_trusted)
  obtain em where M: "grows E s2 s3" "fmlookup em = overlay ees (tx_new_edges tx) (tx_removed_edges tx)"
    "tree_holds E s3 fuel er (bt_iter em)"
    using rebuild_tree_run [OF re cr t2 tree_holds_mono [OF B(3) N(1) t1] fuel(3)] by blast
  have t3: "trusted E s3" using M(1) t2 by (rule grows_trusted)
  have len: "length (bt_iter nm) + 2 \<le> fuel" "length (bt_iter em) + 2 \<le> fuel"
    using overlay_size [OF N(2)] overlay_size [OF M(2)] fuel by simp_all
  have n3: "tree_holds E s3 fuel nr (bt_iter nm)" by (rule tree_holds_mono [OF N(3) M(1) t2])
  note g = preservesD [OF commit_indexes_grows [OF cr] ri] preservesD [OF rebuild_sidecar_grows [OF cr] se]
    preservesD [OF rebuild_sidecar_grows [OF cr] ss] preservesD [OF put_grows [OF cr] pc]
    preservesD [OF put_grows [OF cr] pv] preservesD [OF put_grows [OF cr] po]
  have t4: "trusted E s4" using g(1) t3 by (rule grows_trusted)
  have t6: "trusted E s6" using grows_trusted [OF g(3) grows_trusted [OF g(2) t4]] .
  have t7: "trusted E s7" "trusted E s8" using grows_trusted [OF g(4) t6] grows_trusted [OF g(5) grows_trusted [OF g(4) t6]] .
  have g4t: "grows E s4 t" by (rule grows_trans [OF g(2) grows_trans [OF g(3) grows_trans [OF g(4) grows_trans [OF g(5,6)]]]])
  have g3t: "grows E s3 t" by (rule grows_trans [OF g(1) g4t])
  have g7t: "grows E s7 t" by (rule grows_trans [OF g(5,6)])
  have gst: "grows E s t" by (rule grows_trans [OF B(1) grows_trans [OF N(1) grows_trans [OF M(1) g3t]]])
  have cod: "codec_roundtrip E" using cr by (simp add: crypto_ok_def)
  have dc: "decode_from_store E de_commit t cc = Inr ?c"
    by (rule decode_from_store_mono [OF commit_wire.put_reads_back [OF pc cod commit_of_parts(12)] g7t t7(1)])
  have dv: "decode_from_store E de_view t vc = Inr (new_view_of tx now cc)"
    by (rule decode_from_store_mono [OF view_wire.put_reads_back [OF pv cod new_view_ok [OF ok]] g(6) t7(2)])
  have dop: "decode_from_store E de_operation t oc = Inr (commit_op opts now (tx_base tx) vc)"
    by (rule operation_wire.put_reads_back [OF po cod commit_op_parts(8)])
  have shown: "commit_shows E t fuel tx nes ees ?c"
    unfolding commit_shows_def commit_of_parts
    using tree_of_map_mono [OF tree_of_mapI [OF N(2) n3] g3t t3] tree_of_map_mono [OF tree_of_mapI [OF M(2,3)] g3t t3] by simp
  have gs4: "grows E s s4" by (rule grows_trans [OF B(1) grows_trans [OF N(1) grows_trans [OF M(1) g(1)]]])
  have g6t: "grows E s6 t" by (rule grows_trans [OF g(4) g7t])
  have side: "sidecars_written E s t fuel tx ?c"
    unfolding sidecars_written_def sidecar_written_def commit_of_parts
    using gs4 se grows_trans [OF g(3) g6t] grows_trans [OF gs4 g(2)] ss g6t by blast
  have idx: "\<not> appends_index E s fuel tx \<longrightarrow>
    (\<exists>i. cm_indexes ?c = Some i \<and> indexes_match E t fuel [] (cm_nodes ?c) (cm_edges ?c) i)"
  proof
    assume na: "\<not> appends_index E s fuel tx"
    have col: "has_collision E s3 fuel bn (tx_new_nodes tx) = has_collision E s fuel bn (tx_new_nodes tx)"
      if "rr_commit (tx_base tx) = Some c" for c
    proof -
      have "bn = cm_nodes c" using br that by (simp add: base_roots_def sret_apply)
      then have "tree_holds E s fuel bn nes" using base that by (simp add: base_holds_def)
      then show ?thesis
        by (rule has_collision_mono) (rule tree_holds_mono [OF tree_holds_mono [OF B(2) N(1) t1] M(1) t2])
    qed
    have "\<not> (append_only tx \<and> (\<exists>b. Option.bind (rr_commit (tx_base tx)) cm_indexes = Some b) \<and>
        \<not> has_collision E s3 fuel bn (tx_new_nodes tx))"
      using na br col
      by (cases "rr_commit (tx_base tx)") (auto simp: appends_index_def base_roots_def sret_apply)
    from commit_indexes_run [OF ri cr t3 n3 M(3) len this] have "indexes_match E s4 fuel [] nr er ix" .
    then have "indexes_match E t fuel [] nr er ix" using g4t t4 by (rule indexes_match_mono)
    then show "\<exists>i. cm_indexes ?c = Some i \<and> indexes_match E t fuel [] (cm_nodes ?c) (cm_edges ?c) i"
      unfolding commit_of_parts by blast
  qed
  show ?thesis
    by (rule conjI [OF gst conjI [OF check_edges_shown [OF chk base]]], intro exI conjI)
       (rule dc shown side idx commit_of_parts dop dv)+
qed

section \<open>\<open>commit_opts\<close>\<close>

definition opts_time :: "commit_options \<Rightarrow> u64 \<Rightarrow> u64" where
  "opts_time opts clock = (case co_time_micros opts of Some t \<Rightarrow> t | None \<Rightarrow> clock)"

definition opts_change :: "commit_options \<Rightarrow> change_id \<Rightarrow> change_id" where
  "opts_change opts fresh = (case co_change_id opts of Some i \<Rightarrow> i | None \<Rightarrow> fresh)"

lemma commit_opts_cases:
  "commit_opts E fuel clock fresh opts tx s =
     (case commit_blocks E fuel (opts_time opts clock) (opts_change opts fresh) opts tx (rs_blocks s) of
        (Inl e, bs) \<Rightarrow> (Inl e, s\<lparr>rs_blocks := bs\<rparr>)
      | (Inr oc, bs) \<Rightarrow>
          if co_linearize opts \<and> oh_current (rs_heads s) \<noteq> [rr_op_id (tx_base tx)] then (Inl (Repo Stale), s\<lparr>rs_blocks := bs\<rparr>)
          else (load_at E bs oc, s\<lparr>rs_blocks := bs, rs_heads := oh_update oc [rr_op_id (tx_base tx)] (rs_heads s)\<rparr>))"
  by (auto simp: commit_opts_def opts_time_def opts_change_def sbind_def on_blocks_def heads_update_def sread_apply Let_def
      split: prod.split sum.split)

lemma commit_opts_run:
  assumes "commit_opts E fuel clock fresh opts tx s = (Inr r, t)"
  obtains oc bs where
    "commit_blocks E fuel (opts_time opts clock) (opts_change opts fresh) opts tx (rs_blocks s) = (Inr oc, bs)"
    and "co_linearize opts \<Longrightarrow> oh_current (rs_heads s) = [rr_op_id (tx_base tx)]"
    and "load_at E bs oc = Inr r"
    and "t = s\<lparr>rs_blocks := bs, rs_heads := oh_update oc [rr_op_id (tx_base tx)] (rs_heads s)\<rparr>"
  using assms unfolding commit_opts_cases by (auto split: prod.splits sum.splits if_splits)

text \<open>The handle a commit returns.\<close>

definition commits ::
    "('c::linorder, 'h, 'b) external \<Rightarrow> nat \<Rightarrow> u64 \<Rightarrow> change_id \<Rightarrow> commit_options \<Rightarrow> 'c transaction
       \<Rightarrow> (prolly_key \<times> 'c) list \<Rightarrow> (prolly_key \<times> 'c) list \<Rightarrow> ('c, 'b) repo_state \<Rightarrow> ('c, 'b) repo_state \<Rightarrow> 'c readonly_repo
       \<Rightarrow> 'c \<Rightarrow> 'c commit \<Rightarrow> bool" where
  "commits E fuel now change opts tx nes ees s t r cc c \<longleftrightarrow>
     grows E (rs_blocks s) (rs_blocks t) \<and>
     rs_heads t = oh_update (rr_op_id r) [rr_op_id (tx_base tx)] (rs_heads s) \<and>
     load_at E (rs_blocks t) (rr_op_id r) = Inr r \<and>
     op_parents (rr_op r) = [rr_op_id (tx_base tx)] \<and> op_author (rr_op r) = co_author opts \<and> op_time (rr_op r) = now \<and>
     rr_view r = new_view_of tx now cc \<and> rr_commit r = Some c \<and>
     commit_shows E (rs_blocks t) fuel tx nes ees c \<and> sidecars_written E (rs_blocks s) (rs_blocks t) fuel tx c \<and>
     cm_author c = co_author opts \<and> cm_message c = co_message opts \<and> cm_time c = now \<and> cm_change_id c = change"

lemma commit_handle:
  assumes "decode_from_store E de_operation bs oc = Inr (commit_op opts now base vc)"
    and "decode_from_store E de_view bs vc = Inr (new_view_of tx now cc)" and "decode_from_store E de_commit bs cc = Inr c"
  shows "load_at E bs oc = Inr \<lparr>rr_op_id = oc, rr_op = commit_op opts now base vc, rr_view = new_view_of tx now cc,
    rr_commit = Some c\<rparr>"
proof -
  have "head_commit_of E bs (new_view_of tx now cc) = Inr (Some (cc, c))"
    using assms(3) by (simp add: head_commit_of_def monad_simps)
  with assms(1,2) show ?thesis by (simp add: load_at_Inr commit_op_parts)
qed

lemma commit_opts_spec:
  assumes run: "commit_opts E fuel clock fresh opts tx s = (Inr r, t)" and cr: "crypto_ok E" and tr: "trusted E (rs_blocks s)"
    and ok: "tx_ok tx" and base: "base_holds E (rs_blocks s) fuel (tx_base tx) nes ees" and room: "room_for fuel tx nes ees"
  shows "endpoints_shown E (rs_blocks s) tx nes \<and> (\<exists>cc c.
    commits E fuel (opts_time opts clock) (opts_change opts fresh) opts tx nes ees s t r cc c \<and>
    (\<not> appends_index E (rs_blocks s) fuel tx \<longrightarrow>
       (\<exists>ix. cm_indexes c = Some ix \<and> indexes_match E (rs_blocks t) fuel [] (cm_nodes c) (cm_edges c) ix)))"
proof -
  obtain oc bs where b: "commit_blocks E fuel (opts_time opts clock) (opts_change opts fresh) opts tx (rs_blocks s) = (Inr oc, bs)"
    and l: "load_at E bs oc = Inr r"
    and t: "t = s\<lparr>rs_blocks := bs, rs_heads := oh_update oc [rr_op_id (tx_base tx)] (rs_heads s)\<rparr>"
    by (rule commit_opts_run [OF run])
  obtain cc c vc where w: "grows E (rs_blocks s) bs" "endpoints_shown E (rs_blocks s) tx nes"
    and dc: "decode_from_store E de_commit bs cc = Inr c" and shown: "commit_shows E bs fuel tx nes ees c"
      "sidecars_written E (rs_blocks s) bs fuel tx c"
    and idx: "\<not> appends_index E (rs_blocks s) fuel tx \<longrightarrow>
      (\<exists>ix. cm_indexes c = Some ix \<and> indexes_match E bs fuel [] (cm_nodes c) (cm_edges c) ix)"
    and meta: "cm_author c = co_author opts" "cm_message c = co_message opts" "cm_time c = opts_time opts clock"
      "cm_change_id c = opts_change opts fresh"
    and dop: "decode_from_store E de_operation bs oc = Inr (commit_op opts (opts_time opts clock) (tx_base tx) vc)"
    and dv: "decode_from_store E de_view bs vc = Inr (new_view_of tx (opts_time opts clock) cc)"
    using commit_blocks_spec [OF b cr tr ok base room] by blast
  from commit_handle [OF dop dv dc] have "load_at E bs oc = Inr \<lparr>rr_op_id = oc,
      rr_op = commit_op opts (opts_time opts clock) (tx_base tx) vc, rr_view = new_view_of tx (opts_time opts clock) cc,
      rr_commit = Some c\<rparr>" .
  then have "r = \<lparr>rr_op_id = oc, rr_op = commit_op opts (opts_time opts clock) (tx_base tx) vc,
      rr_view = new_view_of tx (opts_time opts clock) cc, rr_commit = Some c\<rparr>" using l by simp
  then have r: "rr_op_id r = oc" "rr_op r = commit_op opts (opts_time opts clock) (tx_base tx) vc"
    "rr_view r = new_view_of tx (opts_time opts clock) cc" "rr_commit r = Some c" by simp_all
  have "commits E fuel (opts_time opts clock) (opts_change opts fresh) opts tx nes ees s t r cc c"
    unfolding commits_def using w l meta shown by (simp add: r t commit_op_parts)
  moreover have "rs_blocks t = bs" by (simp add: t)
  ultimately show ?thesis using w(2) idx by blast
qed

section \<open>Reading through the new handle\<close>

lemma committed_lookup:
  assumes "rr_commit r = Some c" and "tree_of_map E bs fuel (cm_nodes c) f"
  shows "lookup_node E bs fuel r n = (case f n of
      None \<Rightarrow> Inr None
    | Some cid \<Rightarrow> (case decode_from_store E de_node bs cid of Inl e \<Rightarrow> Inl e | Inr node \<Rightarrow> Inr (Some node)))"
proof -
  obtain es where "map_of es = f" "tree_holds E bs fuel (cm_nodes c) es" using assms(2) by (auto simp: tree_of_map_def)
  then show ?thesis
    using assms(1) trees.look_holds [of E bs fuel "cm_nodes c" es n]
    by (auto simp: lookup_node_def split: option.split sum.split)
qed

text \<open>What a reader of the new handle sees of a node: the staged one, nothing for a removed one, otherwise what the base
  handle showed.\<close>

lemma base_lookup_eq:
  assumes "base_holds E s fuel base nes ees" and "grows E s t" and "trusted E s"
    and "lookup_node E s fuel base n = Inr x"
  shows "(case map_of nes n of
      None \<Rightarrow> Inr None
    | Some cid \<Rightarrow> (case decode_from_store E de_node t cid of Inl e \<Rightarrow> Inl e | Inr node \<Rightarrow> Inr (Some node))) = Inr x"
proof (cases "rr_commit base")
  case None
  with assms(1,4) show ?thesis by (auto simp: base_holds_def lookup_node_def)
next
  case (Some c)
  with assms(1) have "tree_holds E s fuel (cm_nodes c) nes" by (simp add: base_holds_def)
  then have "prolly_lookup E s fuel (cm_nodes c) n = Inr (map_of nes n)" by (rule trees.look_holds)
  with assms(4) Some show ?thesis
    using decode_from_store_mono [OF _ assms(2,3), of de_node]
    by (fastforce simp: lookup_node_def monad_simps split: option.splits)
qed

lemma committed_node_lookup:
  assumes "commits E fuel now change opts tx nes ees s t r cc c" and "base_holds E (rs_blocks s) fuel (tx_base tx) nes ees"
    and "trusted E (rs_blocks s)" and "staged_blocks E (rs_blocks s) tx"
  shows "lookup_node E (rs_blocks t) fuel r n = Inr x \<longleftrightarrow>
    (case fmlookup (tx_new_nodes tx) n of
       Some cid \<Rightarrow> \<exists>node. x = Some node \<and> nd_id node = n \<and> decode_from_store E de_node (rs_blocks s) cid = Inr node
     | None \<Rightarrow> if n |\<in>| tx_removed_nodes tx then x = None
         else (case map_of nes n of
           None \<Rightarrow> x = None
         | Some cid \<Rightarrow> \<exists>node. x = Some node \<and> decode_from_store E de_node (rs_blocks t) cid = Inr node))"
proof -
  have g: "grows E (rs_blocks s) (rs_blocks t)" using assms(1) by (simp add: commits_def)
  have "rr_commit r = Some c" "tree_of_map E (rs_blocks t) fuel (cm_nodes c) (overlay nes (tx_new_nodes tx) (tx_removed_nodes tx))"
    using assms(1) by (simp_all add: commits_def commit_shows_def)
  note look = committed_lookup [OF this, of n]
  show ?thesis
  proof (cases "fmlookup (tx_new_nodes tx) n")
    case None
    then show ?thesis by (auto simp: look overlay_def split: option.split sum.split)
  next
    case (Some cid)
    then obtain node where d: "decode_from_store E de_node (rs_blocks s) cid = Inr node" "nd_id node = n"
      using assms(4) by (auto simp: staged_blocks_def)
    have "decode_from_store E de_node (rs_blocks t) cid = Inr node" by (rule decode_from_store_mono [OF d(1) g assms(3)])
    with Some d show ?thesis by (auto simp: look overlay_def)
  qed
qed

section \<open>Sidecars\<close>

lemma stage_bucket_Inr:
  "stage_bucket E ser (n, b) acc s = (Inr adds, t) \<longleftrightarrow>
     (\<exists>c k. put_object E (ser b) s = (Inr c, t) \<and> sidecar_key E n = Inr k \<and> adds = fmupd k c acc)"
  by (auto simp: stage_bucket_def monad_simps)

lemma stage_buckets_run:
  fixes es :: "('c \<times> 'a) list"
  assumes "sfold (stage_bucket E ser) es acc s = (Inr adds, t)"
    and "crypto_ok E" and "trusted E s" and "inj_on (sidecar_key E) (fst ` set es)" and "distinct (map fst es)"
    and "\<forall>(n, b) \<in> set es. de (ser b) = Inr (norm b)"
  shows "grows E s t \<and>
    (\<forall>(n, b) \<in> set es. \<exists>k c. sidecar_key E n = Inr k \<and> fmlookup adds k = Some c \<and> decode_from_store E de t c = Inr (norm b)) \<and>
    (\<forall>k. Inr k \<notin> sidecar_key E ` fst ` set es \<longrightarrow> fmlookup adds k = fmlookup acc k)"
  using assms(1,3-6)
proof (induction es arbitrary: acc s)
  case Nil
  then show ?case by (simp add: monad_simps)
next
  case (Cons e es)
  obtain n b where e: "e = (n, b)" by (cases e)
  from Cons.prems(1) obtain c u k where p: "put_object E (ser b) s = (Inr c, u)" and k: "sidecar_key E n = Inr k"
    and rest: "sfold (stage_bucket E ser) es (fmupd k c acc) u = (Inr adds, t)"
    by (auto simp: e sfold.simps sbind_Inr_iff stage_bucket_Inr)
  have g: "grows E s u" using put_grows [OF assms(2)] p by (rule preservesD)
  have tu: "trusted E u" using g Cons.prems(2) by (rule grows_trusted)
  have IH: "grows E u t \<and>
    (\<forall>(n, b) \<in> set es. \<exists>k c. sidecar_key E n = Inr k \<and> fmlookup adds k = Some c \<and> decode_from_store E de t c = Inr (norm b)) \<and>
    (\<forall>k'. Inr k' \<notin> sidecar_key E ` fst ` set es \<longrightarrow> fmlookup adds k' = fmlookup (fmupd k c acc) k')"
    using Cons.prems(3-5) by (intro Cons.IH [OF rest tu]) auto
  have "de (ser b) = Inr (norm b)" using Cons.prems(5) by (simp add: e)
  then have d: "decode_from_store E de u c = Inr (norm b)"
    using decode_put_object [OF p] assms(2) by (simp add: crypto_ok_def)
  have "Inr k \<notin> sidecar_key E ` fst ` set es"
  proof
    assume "Inr k \<in> sidecar_key E ` fst ` set es"
    then obtain m where m: "m \<in> fst ` set es" "Inr k = sidecar_key E m" by (rule imageE) blast
    then have "sidecar_key E m = sidecar_key E n" using k by simp
    then have "m = n" using Cons.prems(3) m(1) by (auto simp: e inj_on_def)
    with m(1) Cons.prems(4) show False by (auto simp: e)
  qed
  then have "fmlookup adds k = Some c" using IH by simp
  moreover have "decode_from_store E de t c = Inr (norm b)"
    using decode_from_store_mono [OF d _ tu] IH by blast
  ultimately show ?case using IH k grows_trans [OF g] by (auto simp: e)
qed

lemma rebuild_sidecar_run:
  assumes "rebuild_sidecar E fuel ser base_cid staged removals s = (Inr root, t)" and "crypto_ok E" and "trusted E s"
    and "case base_cid of None \<Rightarrow> bes = [] | Some c \<Rightarrow> tree_holds E s fuel c bes"
    and "inj_on (sidecar_key E) (fset (fmdom staged))" and "\<forall>n b. fmlookup staged n = Some b \<longrightarrow> de (ser b) = Inr (norm b)"
    and "fmlookup staged n = Some b" and "length bes + length (bt_iter staged) + 2 \<le> fuel"
  shows "\<exists>r k c. root = Some r \<and> sidecar_key E n = Inr k \<and> prolly_lookup E t fuel r k = Inr (Some c) \<and>
    decode_from_store E de t c = Inr (norm b)"
proof -
  have ne: "fmdom staged \<noteq> {||}" using assms(7) by (auto dest: fmdomI)
  then obtain br s1 adds s2 r where br: "(case base_cid of Some c \<Rightarrow> sret c | None \<Rightarrow> build_tree E []) s = (Inr br, s1)"
    and st: "sfold (stage_bucket E ser) (bt_iter staged) fmempty s1 = (Inr adds, s2)"
    and rb: "rebuild_tree E fuel br adds removals s2 = (Inr r, t)" and root: "root = Some r"
    using assms(1) by (auto simp: rebuild_sidecar_def sbind_Inr_iff sret_apply)
  have B: "grows E s s1 \<and> tree_holds E s1 fuel br bes"
  proof (cases base_cid)
    case None
    then have b: "build_tree E [] s = (Inr br, s1)" and "bes = []" using br assms(4) by simp_all
    moreover have "tree_holds E s1 fuel br []"
      using assms(8) by (intro trees.build_holds [OF assms(2,3) _ _ b]) (simp_all add: strict_keys_def)
    ultimately show ?thesis using trees.build_ext [OF assms(2) b] by simp
  qed (use br assms(4) in \<open>auto simp: sret_apply\<close>)
  have t1: "trusted E s1" using B assms(3) grows_trusted by blast
  have keys: "fst ` set (bt_iter staged) = fset (fmdom staged)"
    by (simp add: bt_iter_keys fmdom'_alt_def)
  have S: "grows E s1 s2 \<and>
    (\<forall>(n, b) \<in> set (bt_iter staged). \<exists>k c. sidecar_key E n = Inr k \<and> fmlookup adds k = Some c \<and> decode_from_store E de s2 c = Inr (norm b)) \<and>
    (\<forall>k. Inr k \<notin> sidecar_key E ` fst ` set (bt_iter staged) \<longrightarrow> fmlookup adds k = fmlookup fmempty k)"
    using assms(5,6) strict_keys_distinct [OF strict_keys_bt_iter [of staged]]
    by (intro stage_buckets_run [OF st assms(2) t1]) (auto simp: keys set_bt_iter)
  then have gS: "grows E s1 s2"
    and out: "\<And>k. Inr k \<notin> sidecar_key E ` fst ` set (bt_iter staged) \<Longrightarrow> fmlookup adds k = None" by auto
  have "(n, b) \<in> set (bt_iter staged)" using assms(7) by (simp add: set_bt_iter)
  with S obtain k c where k: "sidecar_key E n = Inr k" "fmlookup adds k = Some c" "decode_from_store E de s2 c = Inr (norm b)"
    by blast
  have t2: "trusted E s2" using gS t1 by (rule grows_trusted)
  have "fset (fmdom adds) \<subseteq> fst ` set (map (\<lambda>(n, b). (projr (sidecar_key E n), b)) (bt_iter staged))"
  proof
    fix j assume "j \<in> fset (fmdom adds)"
    then have "Inr j \<in> sidecar_key E ` fst ` set (bt_iter staged)" using out by (metis fmdom_notI)
    then obtain e where e: "e \<in> set (bt_iter staged)" "sidecar_key E (fst e) = Inr j" by auto
    then have "j = fst ((\<lambda>(n, b). (projr (sidecar_key E n), b)) e)" by (simp add: case_prod_unfold)
    with e(1) show "j \<in> fst ` set (map (\<lambda>(n, b). (projr (sidecar_key E n), b)) (bt_iter staged))" by force
  qed
  from length_bt_iter_le [OF this] have "length bes + length (bt_iter adds) + 2 \<le> fuel" using assms(8) by simp
  from rebuild_tree_run [OF rb assms(2) t2 tree_holds_mono [OF conjunct2 [OF B] gS t1] this]
  obtain m where m: "grows E s2 t" "fmlookup m = overlay bes adds removals" "tree_holds E t fuel r (bt_iter m)" by blast
  have "prolly_lookup E t fuel r k = Inr (Some c)"
    using trees.look_holds [OF m(3), of k] k(2) by (simp add: m(2) overlay_def)
  moreover have "decode_from_store E de t c = Inr (norm b)" by (rule decode_from_store_mono [OF k(3) m(1) t2])
  ultimately show ?thesis using root k(1) by blast
qed

text \<open>What the readers of the sidecars find for a node whose bucket was staged: that bucket, and nothing else.\<close>

definition sidecar_base ::
    "('c, 'h, 'b) external \<Rightarrow> ('c, 'b) store \<Rightarrow> nat \<Rightarrow> 'c option \<Rightarrow> ('c::linorder, 'a) fmap \<Rightarrow> bool" where
  "sidecar_base E s fuel base_cid staged \<longleftrightarrow>
     (\<exists>bes. (case base_cid of None \<Rightarrow> bes = [] | Some c \<Rightarrow> tree_holds E s fuel c bes) \<and>
       length bes + length (bt_iter staged) + 2 \<le> fuel)"

lemma sidecar_written_reads:
  assumes "sidecar_written E s t fuel ser base_cid staged root" and "crypto_ok E" and "trusted E s"
    and "sidecar_base E s fuel base_cid staged"
    and "inj_on (sidecar_key E) (fset (fmdom staged))" and "\<forall>n b. fmlookup staged n = Some b \<longrightarrow> de (ser b) = Inr (norm b)"
    and "fmlookup staged n = Some b"
  shows "sidecar_bucket E t fuel de root n = Inr (Some (norm b))"
proof -
  obtain removals u v where g: "grows E s u" "grows E v t" and r: "rebuild_sidecar E fuel ser base_cid staged removals u = (Inr root, v)"
    using assms(1) by (auto simp: sidecar_written_def)
  obtain bes where b: "case base_cid of None \<Rightarrow> bes = [] | Some c \<Rightarrow> tree_holds E s fuel c bes"
    and len: "length bes + length (bt_iter staged) + 2 \<le> fuel" using assms(4) by (auto simp: sidecar_base_def)
  have tu: "trusted E u" using g(1) assms(3) by (rule grows_trusted)
  have "case base_cid of None \<Rightarrow> bes = [] | Some c \<Rightarrow> tree_holds E u fuel c bes"
    using b tree_holds_mono [OF _ g(1) assms(3)] by (cases base_cid) auto
  from rebuild_sidecar_run [OF r assms(2) tu this assms(5,6,7) len]
  obtain r' k c where k: "root = Some r'" "sidecar_key E n = Inr k" "prolly_lookup E v fuel r' k = Inr (Some c)"
    "decode_from_store E de v c = Inr (norm b)" by blast
  have gv: "grows E u v" using preservesD [OF rebuild_sidecar_grows [OF assms(2)] r] .
  have tv: "trusted E v" using gv tu by (rule grows_trusted)
  have "prolly_lookup E t fuel r' k = Inr (Some c)"
    by (rule stable_readD [OF stable_lookup k(3) grows_store_le [OF g(2) tv]])
  moreover have "decode_from_store E de t c = Inr (norm b)" by (rule decode_from_store_mono [OF k(4) g(2) tv])
  ultimately show ?thesis using k(1,2) by (simp add: sidecar_bucket_def rbind_def)
qed

definition sidecars_based ::
    "('c, 'h, 'b) external \<Rightarrow> ('c, 'b) store \<Rightarrow> nat \<Rightarrow> ('c::linorder) transaction \<Rightarrow> bool" where
  "sidecars_based E s fuel tx \<longleftrightarrow>
     sidecar_base E s fuel (embeddings_root (tx_base tx)) (tx_pending_embeddings tx) \<and>
     sidecar_base E s fuel (sparse_root (tx_base tx)) (tx_pending_sparse tx) \<and>
     inj_on (sidecar_key E) (fset (fmdom (tx_pending_embeddings tx) |\<union>| fmdom (tx_pending_sparse tx)))"

lemma staged_bucket_ok: "staged_bucket b \<Longrightarrow> bucket_ok b"
  by (simp add: staged_bucket_def bucket_ok_def extra_ok_def list_all_iff)

lemma committed_embedding:
  assumes "commits E fuel now change opts tx nes ees s t r cc c" and "crypto_ok E" and "trusted E (rs_blocks s)"
    and "tx_ok tx" and "sidecars_based E (rs_blocks s) fuel tx" and "fmlookup (tx_pending_embeddings tx) n = Some b"
  shows "embedding_for E (rs_blocks t) fuel r n model = Inr (bucket_get b model)"
proof -
  have rd: "de_embedding_bucket (ser_embedding_bucket b') = Inr (b'\<lparr>bk_entries := sort_key fst (bk_entries b')\<rparr>)"
    if "fmlookup (tx_pending_embeddings tx) n' = Some b'" for n' b'
    using that assms(4) de_ser_bucket [OF de_ser_embedding_entry staged_bucket_ok, of b' EMBEDDING_BUCKET_KIND]
    by (simp add: tx_ok_def de_embedding_bucket_def ser_embedding_bucket_def)
  have w: "sidecar_written E (rs_blocks s) (rs_blocks t) fuel ser_embedding_bucket (embeddings_root (tx_base tx))
      (tx_pending_embeddings tx) (cm_embeddings c)" and c: "rr_commit r = Some c"
    using assms(1) by (simp_all add: commits_def sidecars_written_def)
  have b: "sidecar_base E (rs_blocks s) fuel (embeddings_root (tx_base tx)) (tx_pending_embeddings tx)"
    "inj_on (sidecar_key E) (fset (fmdom (tx_pending_embeddings tx)))"
    using assms(5) by (auto simp: sidecars_based_def inj_on_Un)
  have "sidecar_bucket E (rs_blocks t) fuel de_embedding_bucket (cm_embeddings c) n
      = Inr (Some (b\<lparr>bk_entries := sort_key fst (bk_entries b)\<rparr>))"
    by (rule sidecar_written_reads [OF w assms(2,3) b _ assms(6)]) (use rd in blast)
  moreover have "distinct_names b" using assms(4,6) by (auto simp: tx_ok_def staged_bucket_def)
  ultimately show ?thesis by (simp add: embedding_for_def embeddings_root_def c bucket_sort_get)
qed

lemma committed_sparse:
  assumes "commits E fuel now change opts tx nes ees s t r cc c" and "crypto_ok E" and "trusted E (rs_blocks s)"
    and "tx_ok tx" and "sidecars_based E (rs_blocks s) fuel tx" and "fmlookup (tx_pending_sparse tx) n = Some b"
    and "f32_roundtrip E"
  shows "sparse_for E (rs_blocks t) fuel r n vocab = Inr (bucket_get b vocab)"
proof -
  have rd: "de_sparse_bucket E (ser_sparse_bucket E b') = Inr (b'\<lparr>bk_entries := sort_key fst (bk_entries b')\<rparr>)"
    if "fmlookup (tx_pending_sparse tx) n' = Some b'" for n' b'
    using that assms(4) de_ser_bucket [OF de_ser_sparse_entry [OF assms(7)] staged_bucket_ok, of b' SPARSE_BUCKET_KIND]
    by (simp add: tx_ok_def de_sparse_bucket_def ser_sparse_bucket_def)
  have w: "sidecar_written E (rs_blocks s) (rs_blocks t) fuel (ser_sparse_bucket E) (sparse_root (tx_base tx))
      (tx_pending_sparse tx) (cm_sparse c)" and c: "rr_commit r = Some c"
    using assms(1) by (simp_all add: commits_def sidecars_written_def)
  have b: "sidecar_base E (rs_blocks s) fuel (sparse_root (tx_base tx)) (tx_pending_sparse tx)"
    "inj_on (sidecar_key E) (fset (fmdom (tx_pending_sparse tx)))"
    using assms(5) by (auto simp: sidecars_based_def inj_on_Un)
  have "sidecar_bucket E (rs_blocks t) fuel (de_sparse_bucket E) (cm_sparse c) n
      = Inr (Some (b\<lparr>bk_entries := sort_key fst (bk_entries b)\<rparr>))"
    by (rule sidecar_written_reads [OF w assms(2,3) b _ assms(6)]) (use rd in blast)
  moreover have "distinct_names b" using assms(4,6) by (auto simp: tx_ok_def staged_bucket_def)
  ultimately show ?thesis by (simp add: sparse_for_def sparse_root_def c bucket_sort_get)
qed

section \<open>Failing commits\<close>

definition node_visible ::
    "('c, 'h, 'b) external \<Rightarrow> ('c, 'b) store \<Rightarrow> nat \<Rightarrow> 'c transaction \<Rightarrow> node_id \<Rightarrow> bool" where
  "node_visible E s fuel tx n \<longleftrightarrow> n |\<notin>| tx_removed_nodes tx \<and>
     (n |\<in>| fmdom (tx_new_nodes tx) \<or> (\<exists>node. lookup_node E s fuel (tx_base tx) n = Inr (Some node)))"

lemma check_endpoint_total:
  assumes "\<exists>x. lookup_node E s fuel (tx_base tx) n = Inr x"
  shows "check_endpoint E s fuel tx (n, role) =
    (if node_visible E s fuel tx n then Inr () else Inl (Repo (DanglingEdge n role)))"
  using assms by (auto simp: check_endpoint_def node_visible_def Let_def)

lemma rfold_unit_Inl: "rfold f xs () = Inl e \<Longrightarrow> \<exists>x \<in> set xs. f x () = Inl e"
  by (induction xs) (auto simp: rbind_def split: sum.splits)

lemma check_edges_total:
  assumes "staged_blocks E s tx" and "\<And>n. \<exists>x. lookup_node E s fuel (tx_base tx) n = Inr x"
  shows "check_edges E s fuel tx = Inr () \<and>
      (\<forall>e cid edge. fmlookup (tx_new_edges tx) e = Some cid \<longrightarrow> decode_from_store E de_edge s cid = Inr edge
        \<longrightarrow> node_visible E s fuel tx (ed_src edge) \<and> node_visible E s fuel tx (ed_dst edge)) \<or>
    (\<exists>e cid edge n role. fmlookup (tx_new_edges tx) e = Some cid \<and> decode_from_store E de_edge s cid = Inr edge \<and>
      (n, role) \<in> {(ed_src edge, ''src''), (ed_dst edge, ''dst'')} \<and> \<not> node_visible E s fuel tx n \<and>
      check_edges E s fuel tx = Inl (Repo (DanglingEdge n role)))"
proof (cases "check_edges E s fuel tx")
  case (Inr u)
  then show ?thesis using check_edges_Inr [OF Inr] by (fastforce simp: node_visible_def)
next
  case (Inl err)
  from rfold_unit_Inl [OF Inl [unfolded check_edges_def, simplified case_prod_unfold]]
  obtain e cid where e: "fmlookup (tx_new_edges tx) e = Some cid"
    and f: "rbind (decode_from_store E de_edge s cid) (\<lambda>edge.
       rfold (\<lambda>e _. check_endpoint E s fuel tx e) [(ed_src edge, ''src''), (ed_dst edge, ''dst'')] ()) = Inl err"
    by (auto simp: set_bt_iter case_prod_unfold)
  obtain edge where d: "decode_from_store E de_edge s cid = Inr edge" using assms(1) e unfolding staged_blocks_def by blast
  with f have "\<exists>n role. (n, role) \<in> {(ed_src edge, ''src''), (ed_dst edge, ''dst'')} \<and> \<not> node_visible E s fuel tx n \<and>
      err = Repo (DanglingEdge n role)"
    by (auto simp: check_endpoint_total [OF assms(2)] rbind_def split: if_splits)
  with e d Inl show ?thesis by blast
qed

lemma commit_failed:
  assumes "commit_opts E fuel clock fresh opts tx s = (Inl e, t)" and cr: "crypto_ok E" and tr: "trusted E (rs_blocks s)"
    and ok: "tx_ok tx" and base: "base_holds E (rs_blocks s) fuel (tx_base tx) nes ees" and room: "room_for fuel tx nes ees"
  shows "rs_heads t = rs_heads s \<and> grows E (rs_blocks s) (rs_blocks t)"
proof (cases "commit_blocks E fuel (opts_time opts clock) (opts_change opts fresh) opts tx (rs_blocks s)")
  case (Pair res bs)
  have g: "grows E (rs_blocks s) bs" using preservesD [OF commit_blocks_grows [OF cr] Pair] .
  show ?thesis
  proof (cases res)
    case (Inl x)
    with assms(1) Pair g show ?thesis by (auto simp: commit_opts_cases)
  next
    case (Inr oc)
    from commit_blocks_spec [OF Pair [unfolded Inr] cr tr ok base room]
    obtain cc c vc where dc: "decode_from_store E de_commit bs cc = Inr c"
      and dop: "decode_from_store E de_operation bs oc = Inr (commit_op opts (opts_time opts clock) (tx_base tx) vc)"
      and dv: "decode_from_store E de_view bs vc = Inr (new_view_of tx (opts_time opts clock) cc)" by blast
    from commit_handle [OF dop dv dc] assms(1) Pair Inr g show ?thesis by (auto simp: commit_opts_cases split: if_splits)
  qed
qed

text \<open>A transaction that was staged step by step is ready to be committed.\<close>

lemma steps_ready:
  assumes "(tx_step E fuel)\<^sup>*\<^sup>* (s0, transaction_new base) (rs_blocks s, tx)"
    and "view_ok (rr_view base)" and "crypto_ok E" and "trusted E s0"
  shows "tx_ok tx" "staged_blocks E (rs_blocks s) tx" "tx_base tx = base" "trusted E (rs_blocks s)"
  using tx_steps_inv [OF assms] assms(4) grows_trusted by (auto simp: tx_inv_def)

end
