(* ===== verification/Transaction_Instance.thy ===== *)
theory Transaction_Instance imports Commit_Spec Table_Instance begin

text \<open>
  A concrete first commit: a repository at its initial operation 16, a transaction that stages node 9, an edge 8 from it
  to itself and an embedding, and the blocks its commit writes.
\<close>

definition xemb :: embedding where
  "xemb = \<lparr>eb_model = ''m'', eb_dtype = I8, eb_dim = 2, eb_vector = [1, 2]\<rparr>"

definition xtable :: "nat ipld list" where
  "xtable = [ser_node (node_new 9 ''T''), ser_edge (edge_new 8 ''e'' 9 9),
     ser_tree (Leaf (leaf_new [])), ser_tree (Leaf (leaf_new [(9, 0)])), ser_tree (Leaf (leaf_new [(8, 1)])),
     ser_adjacency_bucket (outgoing_bucket [\<lparr>ae_label = ''e'', ae_edge = 1\<rparr>]), ser_tree (Leaf (leaf_new [(9, 5)])),
     ser_incoming_bucket (incoming_bucket_of [\<lparr>ie_label = ''e'', ie_src = 9, ie_edge = 1\<rparr>]), ser_tree (Leaf (leaf_new [(9, 7)])),
     ser_index_set \<lparr>is_nodes_by_label = fmupd ''T'' 3 fmempty, is_nodes_by_prop = fmempty, is_outgoing = Some 6,
       is_incoming = Some 8, is_extra = fmempty\<rparr>,
     ser_embedding_bucket (bucket_upsert ''m'' xemb bucket_default), ser_tree (Leaf (leaf_new [(0, 10)])),
     ser_commit ((commit_new 7 3 4 2 ''me'' 5 ''msg'')\<lparr>cm_indexes := Some 9, cm_embeddings := Some 11\<rparr>),
     ser_view (with_active_branch (view_new\<lparr>vw_heads := [12], vw_refs := fmupd MAIN_REF (Normal 12) fmempty\<rparr>) MAIN_REF),
     ser_operation (op_with_parent (operation_new 13 ''me'' 5 ''commit: msg'') 16),
     ser_view view_new, ser_operation (operation_new 15 ''me'' 4 ''init''), ser_edge (edge_new 6 ''e'' 9 77)]"

abbreviation "xE \<equiv> tE xtable"

definition xrepo :: "nat readonly_repo" where
  "xrepo = \<lparr>rr_op_id = 16, rr_op = operation_new 15 ''me'' 4 ''init'', rr_view = view_new, rr_commit = None\<rparr>"

definition xstage :: "((nat, nat) store, nat error, nat transaction) prog" where
  "xstage = sbind (add_node xE (node_new 9 ''T'') (transaction_new xrepo)) (\<lambda>(cid, tx).
     sbind (add_edge xE (edge_new 8 ''e'' 9 9) tx) (\<lambda>(_, tx).
     slift (set_embedding cid ''m'' xemb tx)))"

definition xcommit :: "nat transaction \<Rightarrow> ((nat, nat) repo_state, nat error, nat readonly_repo) prog" where
  "xcommit = commit_opts xE 10 5 7 (commit_options_new ''me'' ''msg'')"

definition xstart :: "(nat, nat) repo_state" where
  "xstart = \<lparr>rs_blocks = fmempty, rs_heads = {|16|}\<rparr>"

lemma xrun_returns: "(case fst (sbind (on_blocks xstage) xcommit xstart) of Inr r \<Rightarrow> rr_op_id r = 14 | Inl _ \<Rightarrow> False)"
  by code_simp

lemma xblocks: "enc xE (ser_node (node_new 9 ''T'')) = Some 0" "enc xE (ser_edge (edge_new 8 ''e'' 9 9)) = Some 1"
  by code_simp+

lemma bt_iter_fmempty [simp]: "bt_iter fmempty = []"
  by (simp add: length_bt_iter flip: length_0_conv)

lemma xput: "put_object xE v s = (Inr c, t) \<Longrightarrow> enc xE v = Some b \<Longrightarrow> c = b"
  by (auto dest: put_object_Inr)

lemma xnode_ok: "node_ok (node_new 9 ''T'')" "edge_ok (edge_new 8 ''e'' 9 9)"
  by (simp_all add: node_ok_def node_new_def edge_ok_def edge_new_def extra_ok_def list_all_iff)

definition xstaged :: "nat transaction \<Rightarrow> bool" where
  "xstaged tx \<longleftrightarrow> tx_base tx = xrepo \<and>
     tx_new_nodes tx = fmupd 9 0 fmempty \<and> tx_removed_nodes tx = {||} \<and> tx_new_edges tx = fmupd 8 1 fmempty \<and>
     tx_removed_edges tx = {||} \<and> tx_ref_updates tx = fmempty \<and> tx_new_tombstones tx = fmempty \<and>
     tx_removed_tombstones tx = {||} \<and> tx_pending_sparse tx = fmempty \<and> tx_active_branch_override tx = None \<and>
     tx_pending_embeddings tx = fmupd 0 (bucket_upsert ''m'' xemb bucket_default) fmempty"

lemma xstage_run:
  assumes "xstage fmempty = (Inr tx, s)"
  shows "(tx_step xE 10)\<^sup>*\<^sup>* (fmempty, transaction_new xrepo) (s, tx) \<and> xstaged tx"
proof -
  from assms obtain cid tx1 s1 cid2 tx2 where 1: "add_node xE (node_new 9 ''T'') (transaction_new xrepo) fmempty = (Inr (cid, tx1), s1)"
    and 2: "add_edge xE (edge_new 8 ''e'' 9 9) tx1 s1 = (Inr (cid2, tx2), s)" and 3: "set_embedding cid ''m'' xemb tx2 = Inr tx"
    by (auto simp: xstage_def monad_simps split: prod.splits)
  have "(tx_step xE 10)\<^sup>*\<^sup>* (fmempty, transaction_new xrepo) (s, tx)"
    using tx_step.add_node [OF 1 xnode_ok(1), of 10] tx_step.add_edge [OF 2 xnode_ok(2), of 10]
      tx_step.set_embedding [OF 3, of xE 10 s] by (meson rtranclp.intros)
  moreover have "cid = 0" using add_node_run [OF 1] xput xblocks(1) by blast
  moreover have "cid2 = 1" using 2 xput xblocks(2) by (auto simp: add_edge_def monad_simps)
  ultimately show ?thesis
    using add_node_run [OF 1] 2 3
    by (auto simp: xstaged_def add_edge_def monad_simps set_embedding_def transaction_new_def node_new_def edge_new_def
        note_props_def bucket_or_default_def split: if_splits)
qed

lemma xcommitted:
  obtains tx s r t where "(tx_step xE 10)\<^sup>*\<^sup>* (fmempty, transaction_new xrepo) (rs_blocks s, tx)" and "xstaged tx"
    and "rs_heads s = {|16|}" and "xcommit tx s = (Inr r, t)" and "rr_op_id r = 14"
proof -
  from xrun_returns obtain r t where "sbind (on_blocks xstage) xcommit xstart = (Inr r, t)" and 3: "rr_op_id r = 14"
    by (cases "sbind (on_blocks xstage) xcommit xstart") (auto split: sum.splits)
  then obtain tx s where 1: "on_blocks xstage xstart = (Inr tx, s)" and 2: "xcommit tx s = (Inr r, t)"
    by (auto simp: sbind_Inr_iff)
  from 1 have "xstage fmempty = (Inr tx, rs_blocks s)" and "rs_heads s = {|16|}"
    by (auto simp: on_blocks_def xstart_def split: prod.splits)
  with xstage_run 2 3 that show thesis by blast
qed

lemma xbase: "view_ok (rr_view xrepo)" "trusted xE fmempty" "base_holds xE bs 10 xrepo [] []"
  by (simp_all add: xrepo_def view_new_def view_ok_def extra_ok_def list_all_iff trusted_def bs_get_def base_holds_def set_bt_iter)

lemma xroom: "xstaged tx \<Longrightarrow> room_for 10 tx [] []"
  by (simp add: xstaged_def room_for_def length_bt_iter)

end
