(* ===== verification/Transaction_Props.thy ===== *)
theory Transaction_Props imports Transaction_Instance begin

text \<open>
  The properties of transactions: what stays true while mutations are collected, what a successful commit publishes and
  what its readers find, and what a failed one leaves behind.
\<close>

section \<open>Collecting mutations\<close>

text \<open>C20 (\<open>repo/transaction.rs\<close>). Whatever mutations a transaction collects, in whatever order, and whatever other writers add
  to the block store meanwhile: it stays pinned to its base; the block store only grows; a node or an edge is never both staged
  and removed; every staged CID is in the store and decodes to a node or an edge with the id it is staged under; the
  cache of pending properties only names staged nodes; and a staged sidecar bucket has one entry per name.\<close>

theorem transaction_stays_valid:
  assumes "(tx_step E fuel)\<^sup>*\<^sup>* (s, transaction_new base) (t, tx)"
    and "view_ok (rr_view base)" and "crypto_ok E" and "trusted E s"
  shows "tx_base tx = base \<and> grows E s t \<and>
    fmdom (tx_new_nodes tx) |\<inter>| tx_removed_nodes tx = {||} \<and> fmdom (tx_new_edges tx) |\<inter>| tx_removed_edges tx = {||} \<and>
    (\<forall>n c. fmlookup (tx_new_nodes tx) n = Some c \<longrightarrow> (\<exists>node. decode_from_store E de_node t c = Inr node \<and> nd_id node = n)) \<and>
    (\<forall>e c. fmlookup (tx_new_edges tx) e = Some c \<longrightarrow> (\<exists>edge. decode_from_store E de_edge t c = Inr edge \<and> ed_id edge = e)) \<and>
    (\<forall>k n. fmlookup (tx_pending_by_prop tx) k = Some n \<longrightarrow> n |\<in>| fmdom (tx_new_nodes tx)) \<and>
    (\<forall>c b. fmlookup (tx_pending_embeddings tx) c = Some b \<longrightarrow> distinct (map fst (bk_entries b))) \<and>
    (\<forall>c b. fmlookup (tx_pending_sparse tx) c = Some b \<longrightarrow> distinct (map fst (bk_entries b)))"
proof -
  have inv: "tx_ok tx" "staged_blocks E t tx" "tx_base tx = base" "grows E s t"
    using tx_steps_inv [OF assms] by (simp_all add: tx_inv_def)
  show ?thesis
    by (intro conjI)
       (use inv in \<open>auto simp: tx_ok_def staged_blocks_def staged_bucket_def distinct_names_def\<close>)
qed

theorem transaction_stays_valid_witness:
  "\<exists>s tx. (tx_step xE 10)\<^sup>*\<^sup>* (fmempty, transaction_new xrepo) (s, tx) \<and> fmlookup (tx_new_nodes tx) 9 = Some 0 \<and>
    (\<exists>node. decode_from_store xE de_node s 0 = Inr node \<and> nd_id node = 9)"
proof -
  obtain tx s r t where st: "(tx_step xE 10)\<^sup>*\<^sup>* (fmempty, transaction_new xrepo) (rs_blocks s, tx)" and x: "xstaged tx"
    and "rs_heads s = {|16|}" and "xcommit tx s = (Inr r, t)" and "rr_op_id r = 14"
    by (rule xcommitted)
  note v = transaction_stays_valid [OF st xbase(1) crypto_table xbase(2)]
  have n: "fmlookup (tx_new_nodes tx) 9 = Some 0" using x by (simp add: xstaged_def)
  have "\<exists>node. decode_from_store xE de_node (rs_blocks s) 0 = Inr node \<and> nd_id node = 9" using v n by blast
  with st n show ?thesis by blast
qed

section \<open>What a commit publishes\<close>

text \<open>C21 (\<open>commit_opts\<close>). A transaction is committed on a base whose node and edge trees hold \<open>nes\<close> and \<open>ees\<close>. If it
  succeeds, the heads have the new operation in place of the base's; the handle is what the operation loads as, and the
  operation's only parent is the base's; the commit's node and edge trees are the base's entries without the removed
  ones, overwritten by the staged ones; its parent is the first head of the base view, and its author, message, time and
  change id are the caller's, or the clock and the fresh id where the caller gave none; its indexes are those of its two
  trees, unless the append-only path updated the base's; and every staged edge has both its endpoints in the node tree.\<close>

theorem commit_publishes:
  assumes "(tx_step E fuel)\<^sup>*\<^sup>* (s0, transaction_new base) (rs_blocks s, tx)"
    and "view_ok (rr_view base)" and "crypto_ok E" and "trusted E s0"
    and "base_holds E (rs_blocks s) fuel base nes ees" and "room_for fuel tx nes ees"
    and "commit_opts E fuel clock fresh opts tx s = (Inr r, t)"
  shows "rs_heads t = oh_update (rr_op_id r) [rr_op_id base] (rs_heads s) \<and>
    load_at E (rs_blocks t) (rr_op_id r) = Inr r \<and> op_parents (rr_op r) = [rr_op_id base] \<and>
    (\<exists>c nodes. rr_commit r = Some c \<and> nodes = overlay nes (tx_new_nodes tx) (tx_removed_nodes tx) \<and>
      tree_of_map E (rs_blocks t) fuel (cm_nodes c) nodes \<and>
      tree_of_map E (rs_blocks t) fuel (cm_edges c) (overlay ees (tx_new_edges tx) (tx_removed_edges tx)) \<and>
      cm_parents c = take 1 (vw_heads (rr_view base)) \<and> cm_author c = co_author opts \<and> cm_message c = co_message opts \<and>
      cm_time c = (case co_time_micros opts of Some t \<Rightarrow> t | None \<Rightarrow> clock) \<and>
      cm_change_id c = (case co_change_id opts of Some i \<Rightarrow> i | None \<Rightarrow> fresh) \<and>
      (\<not> appends_index E (rs_blocks s) fuel tx \<longrightarrow>
        (\<exists>ix. cm_indexes c = Some ix \<and> indexes_match E (rs_blocks t) fuel [] (cm_nodes c) (cm_edges c) ix)) \<and>
      (\<forall>e cid. fmlookup (tx_new_edges tx) e = Some cid \<longrightarrow>
        (\<exists>edge. decode_from_store E de_edge (rs_blocks s) cid = Inr edge \<and> nodes (ed_src edge) \<noteq> None \<and> nodes (ed_dst edge) \<noteq> None)))"
proof -
  note ready = steps_ready [OF assms(1-4)]
  note base = assms(5) [folded ready(3)]
  obtain cc c where e: "endpoints_shown E (rs_blocks s) tx nes"
    and k: "commits E fuel (opts_time opts clock) (opts_change opts fresh) opts tx nes ees s t r cc c"
    and i: "\<not> appends_index E (rs_blocks s) fuel tx \<longrightarrow>
       (\<exists>ix. cm_indexes c = Some ix \<and> indexes_match E (rs_blocks t) fuel [] (cm_nodes c) (cm_edges c) ix)"
    using commit_opts_spec [OF assms(7,3) ready(4,1) base assms(6)] by blast
  show ?thesis
    using k e
    by (intro conjI exI [of _ c] exI [of _ "overlay nes (tx_new_nodes tx) (tx_removed_nodes tx)"] i)
       (simp_all add: commits_def commit_shows_def endpoints_shown_def ready(3) opts_time_def opts_change_def)
qed

theorem commit_publishes_witness:
  "\<exists>tx s r t c. xcommit tx s = (Inr r, t) \<and> rr_op_id r = 14 \<and> oh_current (rs_heads t) = [14] \<and> rr_commit r = Some c \<and>
    tree_of_map xE (rs_blocks t) 10 (cm_nodes c) [9 \<mapsto> 0] \<and> tree_of_map xE (rs_blocks t) 10 (cm_edges c) [8 \<mapsto> 1]"
proof -
  obtain tx s r t where st: "(tx_step xE 10)\<^sup>*\<^sup>* (fmempty, transaction_new xrepo) (rs_blocks s, tx)" and x: "xstaged tx"
    and h: "rs_heads s = {|16|}" and run: "xcommit tx s = (Inr r, t)" and op: "rr_op_id r = 14"
    by (rule xcommitted)
  have o: "overlay [] (tx_new_nodes tx) (tx_removed_nodes tx) = [9 \<mapsto> 0]" "overlay [] (tx_new_edges tx) (tx_removed_edges tx) = [8 \<mapsto> 1]"
    using x by (auto simp: xstaged_def overlay_def)
  have u: "oh_current (oh_update 14 [16] {|16 :: nat|}) = [14]" by code_simp
  note P = commit_publishes [OF st xbase(1) crypto_table xbase(2) xbase(3) xroom [OF x] run [unfolded xcommit_def], unfolded o]
  from P obtain c where c: "rr_commit r = Some c" "tree_of_map xE (rs_blocks t) 10 (cm_nodes c) [9 \<mapsto> 0]"
    "tree_of_map xE (rs_blocks t) 10 (cm_edges c) [8 \<mapsto> 1]" by blast
  from P have "rs_heads t = oh_update (rr_op_id r) [rr_op_id xrepo] (rs_heads s)" by blast
  then have "oh_current (rs_heads t) = [14]" by (simp only: op h u xrepo_def readonly_repo.simps)
  with run op c show ?thesis by blast
qed

lemma bucket_get_default: "bucket_get bucket_default name = None"
  by (simp add: bucket_get_def bucket_default_def)

text \<open>C22 (\<open>commit_opts\<close>, \<open>lookup_node\<close>). After a successful commit a reader of the new handle finds a staged node under its id,
  none for an id that was removed, and for every other id what the base handle showed; the embedding of a staged node
  under a model is the one the transaction staged for its CID, and a model the transaction did not stage for that CID
  has none, even where the base had one.\<close>

theorem commit_reads_back:
  assumes "(tx_step E fuel)\<^sup>*\<^sup>* (s0, transaction_new base) (rs_blocks s, tx)"
    and "view_ok (rr_view base)" and "crypto_ok E" and "trusted E s0"
    and "base_holds E (rs_blocks s) fuel base nes ees" and "room_for fuel tx nes ees" and "sidecars_based E (rs_blocks s) fuel tx"
    and "commit_opts E fuel clock fresh opts tx s = (Inr r, t)"
    and "lookup_node E (rs_blocks s) fuel base n = Inr x"
  shows "(case fmlookup (tx_new_nodes tx) n of
      Some cid \<Rightarrow> \<exists>node. lookup_node E (rs_blocks t) fuel r n = Inr (Some node) \<and> nd_id node = n \<and>
        decode_from_store E de_node (rs_blocks s) cid = Inr node
    | None \<Rightarrow> lookup_node E (rs_blocks t) fuel r n = Inr (if n |\<in>| tx_removed_nodes tx then None else x)) \<and>
    (\<forall>cid b model. fmlookup (tx_pending_embeddings tx) cid = Some b \<longrightarrow>
      embedding_for E (rs_blocks t) fuel r cid model = Inr (bucket_get b model))"
proof -
  note ready = steps_ready [OF assms(1-4)]
  note base = assms(5) [folded ready(3)]
  obtain cc c where k: "commits E fuel (opts_time opts clock) (opts_change opts fresh) opts tx nes ees s t r cc c"
    using commit_opts_spec [OF assms(8,3) ready(4,1) base assms(6)] by blast
  then have g: "grows E (rs_blocks s) (rs_blocks t)" by (simp add: commits_def)
  note look = committed_node_lookup [OF k base ready(4,2), of n]
  note old = base_lookup_eq [OF assms(5) g ready(4) assms(9)]
  have emb: "embedding_for E (rs_blocks t) fuel r cid model = Inr (bucket_get b model)"
    if "fmlookup (tx_pending_embeddings tx) cid = Some b" for cid b model
    by (rule committed_embedding [OF k assms(3) ready(4,1) assms(7) that])
  have "case fmlookup (tx_new_nodes tx) n of
      Some cid \<Rightarrow> \<exists>node. lookup_node E (rs_blocks t) fuel r n = Inr (Some node) \<and> nd_id node = n \<and>
        decode_from_store E de_node (rs_blocks s) cid = Inr node
    | None \<Rightarrow> lookup_node E (rs_blocks t) fuel r n = Inr (if n |\<in>| tx_removed_nodes tx then None else x)"
  proof (cases "fmlookup (tx_new_nodes tx) n")
    case (Some cid)
    then obtain node where "decode_from_store E de_node (rs_blocks s) cid = Inr node" "nd_id node = n"
      using ready(2) unfolding staged_blocks_def by blast
    with Some look [of "Some node"] show ?thesis by simp
  next
    case None
    show ?thesis
    proof (cases "n |\<in>| tx_removed_nodes tx")
      case True
      with None look [of None] show ?thesis by simp
    next
      case False
      have "lookup_node E (rs_blocks t) fuel r n = Inr x"
        using None False old look [of x] by (auto split: option.splits sum.splits)
      with None False show ?thesis by simp
    qed
  qed
  with emb show ?thesis by blast
qed

theorem commit_reads_back_witness:
  "\<exists>tx s r t. xcommit tx s = (Inr r, t) \<and> rr_op_id r = 14 \<and>
    (\<exists>node. lookup_node xE (rs_blocks t) 10 r 9 = Inr (Some node) \<and> nd_id node = 9) \<and>
    lookup_node xE (rs_blocks t) 10 r 77 = Inr None \<and>
    embedding_for xE (rs_blocks t) 10 r 0 ''m'' = Inr (Some xemb) \<and> embedding_for xE (rs_blocks t) 10 r 0 ''n'' = Inr None"
proof -
  obtain tx s r t where st: "(tx_step xE 10)\<^sup>*\<^sup>* (fmempty, transaction_new xrepo) (rs_blocks s, tx)" and x: "xstaged tx"
    and h: "rs_heads s = {|16|}" and run: "xcommit tx s = (Inr r, t)" and op: "rr_op_id r = 14"
    by (rule xcommitted)
  have b: "sidecars_based xE (rs_blocks s) 10 tx"
    using x by (simp add: sidecars_based_def sidecar_base_def xstaged_def embeddings_root_def sparse_root_def xrepo_def length_bt_iter)
  have l: "lookup_node xE (rs_blocks s) 10 xrepo n = Inr None" for n by (simp add: lookup_node_def xrepo_def)
  note R = commit_reads_back [OF st xbase(1) crypto_table xbase(2) xbase(3) xroom [OF x] b run [unfolded xcommit_def] l]
  have "\<exists>node. lookup_node xE (rs_blocks t) 10 r 9 = Inr (Some node) \<and> nd_id node = 9"
    using R [of 9] x by (auto simp: xstaged_def)
  moreover have "lookup_node xE (rs_blocks t) 10 r 77 = Inr None"
    using R [of 77] x by (auto simp: xstaged_def)
  moreover have "fmlookup (tx_pending_embeddings tx) 0 = Some (bucket_upsert ''m'' xemb bucket_default)"
    using x by (simp add: xstaged_def)
  then have e: "embedding_for xE (rs_blocks t) 10 r 0 model = Inr (if model = ''m'' then Some xemb else None)" for model
    using R by (simp add: bucket_upsert_get bucket_get_default)
  have "embedding_for xE (rs_blocks t) 10 r 0 ''m'' = Inr (Some xemb)" "embedding_for xE (rs_blocks t) 10 r 0 ''n'' = Inr None"
    by (simp_all add: e)
  ultimately show ?thesis using run op by blast
qed

text \<open>C23 (\<open>commit_opts\<close>). The view a successful commit publishes: one head, the new commit; a ref has the target the
  transaction asked for and is gone if it asked for that, and otherwise the active branch (the transaction's choice before the base's) moves to the new commit, the first
  commit creates \<open>refs/heads/main\<close>, even where the transaction asked to remove it, and every other ref is as it was; a
  node is tombstoned at the time of the commit when the transaction tombstoned it and never revoked a tombstone of it,
  whichever came last; the comments on \<open>untombstone_node\<close> and on the first commit describe the second and the first of these
  differently.\<close>

theorem commit_view:
  assumes "(tx_step E fuel)\<^sup>*\<^sup>* (s0, transaction_new base) (rs_blocks s, tx)"
    and "view_ok (rr_view base)" and "crypto_ok E" and "trusted E s0"
    and "base_holds E (rs_blocks s) fuel base nes ees" and "room_for fuel tx nes ees"
    and "commit_opts E fuel clock fresh opts tx s = (Inr r, t)"
  shows "\<exists>c. vw_heads (rr_view r) = [c] \<and> decode_from_store E de_commit (rs_blocks t) c = Inr (the (rr_commit r)) \<and>
    (\<forall>name. fmlookup (vw_refs (rr_view r)) name =
      (let first = (vw_heads (rr_view base) = [] \<and> fmdom (vw_refs (rr_view base)) = {||} \<and> name = MAIN_REF) in
       case fmlookup (tx_ref_updates tx) name of
         Some (Some target) \<Rightarrow> Some target
       | Some None \<Rightarrow> if first then Some (Normal c) else None
       | None \<Rightarrow> if effective_branch tx = Some name \<or> first then Some (Normal c) else fmlookup (vw_refs (rr_view base)) name)) \<and>
    (\<forall>n. fmlookup (vw_tombstones (rr_view r)) n =
      (if n |\<in>| tx_removed_tombstones tx then None
       else case fmlookup (tx_new_tombstones tx) n of
         Some ts \<Rightarrow> Some (ts\<lparr>ts_tombstoned_at := cm_time (the (rr_commit r))\<rparr>)
       | None \<Rightarrow> fmlookup (vw_tombstones (rr_view base)) n))"
proof -
  note ready = steps_ready [OF assms(1-4)]
  note base = assms(5) [folded ready(3)]
  obtain cc c where k: "commits E fuel (opts_time opts clock) (opts_change opts fresh) opts tx nes ees s t r cc c"
    using commit_opts_spec [OF assms(7,3) ready(4,1) base assms(6)] by blast
  then have v: "rr_view r = new_view_of tx (opts_time opts clock) cc" and c: "rr_commit r = Some c" "cm_time c = opts_time opts clock"
    and l: "load_at E (rs_blocks t) (rr_op_id r) = Inr r" by (simp_all add: commits_def)
  from l obtain hc where "head_commit_of E (rs_blocks t) (rr_view r) = Inr hc" "rr_commit r = map_option snd hc"
    by (auto simp: load_at_Inr)
  then have "decode_from_store E de_commit (rs_blocks t) cc = Inr c"
    using c(1) by (auto simp: v head_commit_of_def monad_simps)
  then show ?thesis
    by (intro exI [of _ cc]) (auto simp: v c new_view_refs new_view_tombstones fresh_repo_def Let_def ready(3) split: option.split)
qed

theorem commit_view_witness:
  "\<exists>tx s r t. xcommit tx s = (Inr r, t) \<and> rr_op_id r = 14 \<and>
    (\<exists>c. vw_heads (rr_view r) = [c] \<and> fmlookup (vw_refs (rr_view r)) MAIN_REF = Some (Normal c))"
proof -
  obtain tx s r t where st: "(tx_step xE 10)\<^sup>*\<^sup>* (fmempty, transaction_new xrepo) (rs_blocks s, tx)" and x: "xstaged tx"
    and h: "rs_heads s = {|16|}" and run: "xcommit tx s = (Inr r, t)" and op: "rr_op_id r = 14"
    by (rule xcommitted)
  from commit_view [OF st xbase(1) crypto_table xbase(2) xbase(3) xroom [OF x] run [unfolded xcommit_def]] x
  have "\<exists>c. vw_heads (rr_view r) = [c] \<and> fmlookup (vw_refs (rr_view r)) MAIN_REF = Some (Normal c)"
    by (auto simp: xstaged_def xrepo_def view_new_def Let_def)
  with run op show ?thesis by blast
qed

section \<open>Commits that fail\<close>

text \<open>C24 (\<open>commit_opts\<close>). However a commit ends, the block store has only grown. If it fails, the heads are as they were. With
  \<open>linearize\<close>, a commit whose base is no longer the only head fails, and with \<open>Stale\<close> if its blocks were written; without
  it, writing the blocks is all there is to succeed, whatever the heads are by then.\<close>

theorem commit_all_or_nothing:
  assumes "(tx_step E fuel)\<^sup>*\<^sup>* (s0, transaction_new base) (rs_blocks s, tx)"
    and "view_ok (rr_view base)" and "crypto_ok E" and "trusted E s0"
    and "base_holds E (rs_blocks s) fuel base nes ees" and "room_for fuel tx nes ees"
    and "commit_opts E fuel clock fresh opts tx s = (res, t)"
  shows "grows E (rs_blocks s) (rs_blocks t) \<and>
    (\<forall>e. res = Inl e \<longrightarrow> rs_heads t = rs_heads s) \<and>
    (case fst (commit_blocks E fuel (opts_time opts clock) (opts_change opts fresh) opts tx (rs_blocks s)) of
       Inl e \<Rightarrow> res = Inl e
     | Inr op \<Rightarrow>
         if co_linearize opts \<and> oh_current (rs_heads s) \<noteq> [rr_op_id base] then res = Inl (Repo Stale)
         else rs_heads t = oh_update op [rr_op_id base] (rs_heads s) \<and>
           (\<exists>r. load_at E (rs_blocks t) op = Inr r \<and> res = Inr r))"
proof -
  note ready = steps_ready [OF assms(1-4)]
  note base = assms(5) [folded ready(3)]
  obtain out bs where b: "commit_blocks E fuel (opts_time opts clock) (opts_change opts fresh) opts tx (rs_blocks s) = (out, bs)"
    by (cases "commit_blocks E fuel (opts_time opts clock) (opts_change opts fresh) opts tx (rs_blocks s)")
  have g: "grows E (rs_blocks s) bs" using preservesD [OF commit_blocks_grows [OF assms(3)] b] .
  have t: "rs_blocks t = bs" using assms(7) b by (auto simp: commit_opts_cases split: sum.splits if_splits)
  have fail: "rs_heads t = rs_heads s" if "res = Inl e" for e
    using commit_failed [OF assms(7) [unfolded that] assms(3) ready(4,1) base assms(6)] by blast
  have "\<exists>r. load_at E bs op = Inr r" if "out = Inr op" for op
    using commit_blocks_spec [OF b [unfolded that] assms(3) ready(4,1) base assms(6)] commit_handle [where tx = tx] by blast
  moreover have rt: "res = fst (commit_opts E fuel clock fresh opts tx s)" "t = snd (commit_opts E fuel clock fresh opts tx s)"
    using assms(7) by simp_all
  ultimately have ends: "case out of Inl e \<Rightarrow> res = Inl e
     | Inr op \<Rightarrow>
         if co_linearize opts \<and> oh_current (rs_heads s) \<noteq> [rr_op_id base] then res = Inl (Repo Stale)
         else rs_heads t = oh_update op [rr_op_id base] (rs_heads s) \<and> (\<exists>r. load_at E (rs_blocks t) op = Inr r \<and> res = Inr r)"
    unfolding rt by (cases out) (auto simp: commit_opts_cases b ready(3))
  show ?thesis
    by (intro conjI) (use g fail t ends in \<open>auto simp: b split: sum.splits if_splits\<close>)
qed

definition xlinear :: commit_options where
  "xlinear = (commit_options_new ''me'' ''msg'')\<lparr>co_linearize := True\<rparr>"

lemma xblocks_lin:
  "commit_blocks xE 10 now i xlinear tx bs = commit_blocks xE 10 now i (commit_options_new ''me'' ''msg'') tx bs"
  by (simp add: xlinear_def commit_options_new_def commit_blocks_def commit_of_def commit_op_def cong: list.case_cong)

theorem commit_all_or_nothing_witness:
  "\<exists>tx s t. fst (commit_opts xE 10 5 7 xlinear tx (s\<lparr>rs_heads := {|15, 16|}\<rparr>)) = Inl (Repo Stale) \<and>
    (\<exists>r. xcommit tx s = (Inr r, t))"
proof -
  obtain tx s r t where st: "(tx_step xE 10)\<^sup>*\<^sup>* (fmempty, transaction_new xrepo) (rs_blocks s, tx)" and x: "xstaged tx"
    and h: "rs_heads s = {|16|}" and run: "xcommit tx s = (Inr r, t)" and op: "rr_op_id r = 14"
    by (rule xcommitted)
  let ?s = "s\<lparr>rs_heads := {|15, 16|}\<rparr>"
  obtain res u where lin: "commit_opts xE 10 5 7 xlinear tx ?s = (res, u)" by (cases "commit_opts xE 10 5 7 xlinear tx ?s")
  have st': "(tx_step xE 10)\<^sup>*\<^sup>* (fmempty, transaction_new xrepo) (rs_blocks ?s, tx)" using st by simp
  have o: "opts_time xlinear 5 = opts_time (commit_options_new ''me'' ''msg'') 5"
    "opts_change xlinear 7 = opts_change (commit_options_new ''me'' ''msg'') 7" "co_linearize xlinear"
    by (simp_all add: xlinear_def opts_time_def opts_change_def commit_options_new_def)
  have heads: "oh_current (rs_heads ?s) \<noteq> [rr_op_id xrepo]"
    by (simp add: oh_current_def sorted_list_of_fset.rep_eq xrepo_def)
  obtain oc bs where "commit_blocks xE 10 (opts_time (commit_options_new ''me'' ''msg'') 5) (opts_change (commit_options_new ''me'' ''msg'') 7)
      (commit_options_new ''me'' ''msg'') tx (rs_blocks s) = (Inr oc, bs)"
    using commit_opts_run [OF run [unfolded xcommit_def]] by blast
  then have "fst (commit_blocks xE 10 (opts_time xlinear 5) (opts_change xlinear 7) xlinear tx (rs_blocks ?s)) = Inr oc"
    by (simp add: o xblocks_lin)
  with commit_all_or_nothing [OF st' xbase(1) crypto_table xbase(2) xbase(3) xroom [OF x] lin] o(3) heads
  have "res = Inl (Repo Stale)" by simp
  then have "fst (commit_opts xE 10 5 7 xlinear tx ?s) = Inl (Repo Stale)" using lin by simp
  with run show ?thesis by blast
qed

text \<open>Also (\<open>commit_opts\<close>, referential integrity). A staged edge with an endpoint that the commit would not show, because the
  transaction removed the node or because neither the transaction nor the base has it, makes the commit fail with
  \<open>DanglingEdge\<close>, naming such an endpoint and its role, before it touches either store.\<close>

theorem dangling_edge_refused:
  assumes "(tx_step E fuel)\<^sup>*\<^sup>* (s0, transaction_new base) (rs_blocks s, tx)"
    and "view_ok (rr_view base)" and "crypto_ok E" and "trusted E s0"
    and "\<forall>n. \<exists>x. lookup_node E (rs_blocks s) fuel base n = Inr x"
    and "fmlookup (tx_new_edges tx) e = Some cid" and "decode_from_store E de_edge (rs_blocks s) cid = Inr edge"
    and "n \<in> {ed_src edge, ed_dst edge}"
    and "n |\<in>| tx_removed_nodes tx \<or> fmlookup (tx_new_nodes tx) n = None \<and> lookup_node E (rs_blocks s) fuel base n = Inr None"
  shows "\<exists>e' cid' edge' m role. commit_opts E fuel clock fresh opts tx s = (Inl (Repo (DanglingEdge m role)), s) \<and>
    fmlookup (tx_new_edges tx) e' = Some cid' \<and> decode_from_store E de_edge (rs_blocks s) cid' = Inr edge' \<and>
    (m, role) \<in> {(ed_src edge', ''src''), (ed_dst edge', ''dst'')} \<and>
    (m |\<in>| tx_removed_nodes tx \<or> fmlookup (tx_new_nodes tx) m = None \<and> lookup_node E (rs_blocks s) fuel base m = Inr None)"
proof -
  note ready = steps_ready [OF assms(1-4)]
  have hidden: "\<not> node_visible E (rs_blocks s) fuel tx m \<longleftrightarrow>
    m |\<in>| tx_removed_nodes tx \<or> fmlookup (tx_new_nodes tx) m = None \<and> lookup_node E (rs_blocks s) fuel base m = Inr None" for m
    using assms(5) [rule_format, of m] by (auto simp: node_visible_def ready(3) fmlookup_dom_iff)
  have "\<not> node_visible E (rs_blocks s) fuel tx n" using assms(9) hidden by blast
  then obtain e' cid' edge' m role where f: "fmlookup (tx_new_edges tx) e' = Some cid'"
      "decode_from_store E de_edge (rs_blocks s) cid' = Inr edge'"
      "(m, role) \<in> {(ed_src edge', ''src''), (ed_dst edge', ''dst'')}" "\<not> node_visible E (rs_blocks s) fuel tx m"
    and chk: "check_edges E (rs_blocks s) fuel tx = Inl (Repo (DanglingEdge m role))"
    using check_edges_total [OF ready(2), of fuel] assms(5-8) ready(3) by blast
  have "commit_opts E fuel clock fresh opts tx s = (Inl (Repo (DanglingEdge m role)), s)"
    unfolding commit_opts_cases by (simp add: commit_blocks_def sbind_sread chk Let_def)
  with f hidden show ?thesis by blast
qed

theorem dangling_edge_refused_witness:
  "\<exists>tx s m role. (tx_step xE 10)\<^sup>*\<^sup>* (fmempty, transaction_new xrepo) (rs_blocks s, tx) \<and>
    commit_opts xE 10 5 7 xlinear tx s = (Inl (Repo (DanglingEdge m role)), s)"
proof -
  have ok: "edge_ok (edge_new 6 ''e'' 9 77)" by (simp add: edge_ok_def edge_new_def extra_ok_def list_all_iff)
  have e: "enc xE (ser_edge (edge_new 6 ''e'' 9 77)) = Some 17" by code_simp
  obtain tx bs where r: "add_edge xE (edge_new 6 ''e'' 9 77) (transaction_new xrepo) fmempty = (Inr (17, tx), bs)"
    and tx: "fmlookup (tx_new_edges tx) 6 = Some 17" "tx_new_nodes tx = fmempty"
  proof -
    have "put_object xE (ser_edge (edge_new 6 ''e'' 9 77)) fmempty = (Inr 17, fmupd 17 17 fmempty)" by (simp add: put_object_run e)
    then show ?thesis using that by (simp add: add_edge_def sbind_def sret_def transaction_new_def) (simp add: edge_new_def)
  qed
  let ?s = "xstart\<lparr>rs_blocks := bs\<rparr>"
  have st: "(tx_step xE 10)\<^sup>*\<^sup>* (fmempty, transaction_new xrepo) (rs_blocks ?s, tx)"
    using tx_step.add_edge [OF r ok, of 10] by simp
  have l: "\<forall>n. \<exists>x. lookup_node xE (rs_blocks ?s) 10 xrepo n = Inr x" "lookup_node xE (rs_blocks ?s) 10 xrepo 77 = Inr None"
    by (simp_all add: lookup_node_def xrepo_def)
  have d: "decode_from_store xE de_edge (rs_blocks ?s) 17 = Inr (edge_new 6 ''e'' 9 77)"
    using edge_wire.put_reads_back [OF _ _ ok, of xE fmempty 17 bs] r by (auto simp: add_edge_def monad_simps)
  have n: "77 \<in> {ed_src (edge_new 6 ''e'' 9 77), ed_dst (edge_new 6 ''e'' 9 77)}" by (simp add: edge_new_def)
  have h: "77 |\<in>| tx_removed_nodes tx \<or> fmlookup (tx_new_nodes tx) 77 = None \<and> lookup_node xE (rs_blocks ?s) 10 xrepo 77 = Inr None"
    using tx(2) l(2) by simp
  from dangling_edge_refused [OF st xbase(1) crypto_table xbase(2) l(1) tx(1) d n h, of 5 7 xlinear] st
  show ?thesis by blast
qed

end
