(* ===== verification/Query.thy ===== *)
theory Query imports Readonly Index_Readers begin

text \<open>
  \<open>crates/mnem-core/src/index/query.rs\<close>: the declarative query over a pinned repository, and the test for the system
  anchor of \<open>anchor.rs\<close>. The repository a query borrows is an argument of its execution. \<open>cursor_scan\<close> is the loop
  over a cursor whose body may \<open>break\<close>.
\<close>

section \<open>The system anchor\<close>

definition ANCHOR_NODE_ID :: node_id where
  "ANCHOR_NODE_ID = 0x000000000000700080006d6e656d0001"

definition is_anchor_node_id :: "node_id \<Rightarrow> bool" where
  "is_anchor_node_id n \<longleftrightarrow> n = ANCHOR_NODE_ID"

definition is_system_node :: "'c node \<Rightarrow> bool" where
  "is_system_node node \<longleftrightarrow> is_anchor_node_id (nd_id node)"

section \<open>The query\<close>

datatype 'c prop_predicate = PEq "'c ipld"

record 'c query_hit =
  qh_node :: "'c node"
  qh_edges :: "'c edge list"
  qh_incoming_edges :: "'c edge list"
  qh_edges_truncated :: bool

definition edges_by_label :: "'c query_hit \<Rightarrow> string \<Rightarrow> 'c edge list" where
  "edges_by_label hit label = filter (\<lambda>e. ed_etype e = label) (qh_edges hit)"

definition incoming_by_label :: "'c query_hit \<Rightarrow> string \<Rightarrow> 'c edge list" where
  "incoming_by_label hit label = filter (\<lambda>e. ed_etype e = label) (qh_incoming_edges hit)"

record 'c query =
  qu_label :: "string option"
  qu_prop_filter :: "(string \<times> 'c prop_predicate) option"
  qu_with_outgoing :: "string list"
  qu_with_incoming :: "string list"
  qu_limit :: "nat option"
  qu_adjacency_cap :: nat
  qu_include_tombstoned :: bool
  qu_include_system :: bool

definition query_new :: "'c query" where
  "query_new = \<lparr>qu_label = None, qu_prop_filter = None, qu_with_outgoing = [], qu_with_incoming = [], qu_limit = None,
     qu_adjacency_cap = DEFAULT_ADJACENCY_CAP, qu_include_tombstoned = False, qu_include_system = False\<rparr>"

definition query_label :: "string \<Rightarrow> 'c query \<Rightarrow> 'c query" where
  "query_label label q = q\<lparr>qu_label := Some label\<rparr>"

definition where_prop :: "string \<Rightarrow> 'c prop_predicate \<Rightarrow> 'c query \<Rightarrow> 'c query" where
  "where_prop name pred q = q\<lparr>qu_prop_filter := Some (name, pred)\<rparr>"

definition where_eq :: "string \<Rightarrow> 'c ipld \<Rightarrow> 'c query \<Rightarrow> 'c query" where
  "where_eq name value = where_prop name (PEq value)"

definition with_outgoing :: "string \<Rightarrow> 'c query \<Rightarrow> 'c query" where
  "with_outgoing edge_label q = q\<lparr>qu_with_outgoing := qu_with_outgoing q @ [edge_label]\<rparr>"

definition with_incoming :: "string \<Rightarrow> 'c query \<Rightarrow> 'c query" where
  "with_incoming edge_label q = q\<lparr>qu_with_incoming := qu_with_incoming q @ [edge_label]\<rparr>"

definition with_any_direction :: "string \<Rightarrow> 'c query \<Rightarrow> 'c query" where
  "with_any_direction edge_label q =
     q\<lparr>qu_with_outgoing := qu_with_outgoing q @ [edge_label], qu_with_incoming := qu_with_incoming q @ [edge_label]\<rparr>"

definition adjacency_cap :: "nat \<Rightarrow> 'c query \<Rightarrow> 'c query" where
  "adjacency_cap cap q = q\<lparr>qu_adjacency_cap := cap\<rparr>"

definition include_tombstoned :: "bool \<Rightarrow> 'c query \<Rightarrow> 'c query" where
  "include_tombstoned include q = q\<lparr>qu_include_tombstoned := include\<rparr>"

definition include_system :: "bool \<Rightarrow> 'c query \<Rightarrow> 'c query" where
  "include_system include q = q\<lparr>qu_include_system := include\<rparr>"

definition query_limit :: "nat \<Rightarrow> 'c query \<Rightarrow> 'c query" where
  "query_limit n q = q\<lparr>qu_limit := Some n\<rparr>"

section \<open>Execution\<close>

text \<open>\<open>for item in cursor\<close> with a body that answers whether to \<open>break\<close>.\<close>

fun cursor_scan ::
    "('c, 'h, 'b) external \<Rightarrow> ('c, 'b) store \<Rightarrow> nat \<Rightarrow> nat
       \<Rightarrow> (prolly_key \<times> 'c \<Rightarrow> 'acc \<Rightarrow> 'c error + 'acc \<times> bool) \<Rightarrow> 'c cursor \<Rightarrow> 'acc \<Rightarrow> 'c error + 'acc" where
  "cursor_scan E bs fuel 0 body cu acc = Inl Diverge"
| "cursor_scan E bs fuel (Suc n) body cu acc =
     (case cursor_next E bs fuel fuel cu of
        (None, _) \<Rightarrow> Inr acc
      | (Some (Inl e), _) \<Rightarrow> Inl e
      | (Some (Inr item), cu) \<Rightarrow>
          rbind (body item acc) (\<lambda>(acc, stop). if stop then Inr acc else cursor_scan E bs fuel n body cu acc))"

definition scan_entries ::
    "('c, 'h, 'b) external \<Rightarrow> ('c, 'b) store \<Rightarrow> nat \<Rightarrow> 'c
       \<Rightarrow> (prolly_key \<times> 'c \<Rightarrow> 'acc \<Rightarrow> 'c error + 'acc \<times> bool) \<Rightarrow> 'acc \<Rightarrow> 'c error + 'acc" where
  "scan_entries E bs fuel root body acc =
     rbind (cursor_new E bs fuel root) (\<lambda>cu. cursor_scan E bs fuel fuel body cu acc)"

text \<open>\<open>in_edges.retain(..)\<close> in \<open>build_hit\<close>.\<close>

definition drop_self_loops :: "'c edge list \<Rightarrow> 'c edge list \<Rightarrow> 'c edge list" where
  "drop_self_loops out_edges in_edges =
     (if in_edges \<noteq> [] \<and> out_edges \<noteq> []
      then filter (\<lambda>e. \<not> (ed_src e = ed_dst e \<and> ed_id e \<in> set (map ed_id out_edges))) in_edges
      else in_edges)"

definition build_hit ::
    "('c, 'h, 'b) external \<Rightarrow> ('c, 'b) store \<Rightarrow> nat \<Rightarrow> 'c query \<Rightarrow> 'c index_set option \<Rightarrow> 'c node \<Rightarrow> 'c error + 'c query_hit" where
  "build_hit E bs fuel q indexes node =
     rbind (load_outgoing E bs fuel indexes (nd_id node) (set (qu_with_outgoing q)) (qu_adjacency_cap q)) (\<lambda>(out_edges, out_trunc).
     rbind (load_incoming E bs fuel indexes (nd_id node) (set (qu_with_incoming q)) (qu_adjacency_cap q)) (\<lambda>(in_edges, in_trunc).
     Inr \<lparr>qh_node = node, qh_edges = out_edges, qh_incoming_edges = drop_self_loops out_edges in_edges,
          qh_edges_truncated = (out_trunc \<or> in_trunc)\<rparr>))"

definition visible :: "'c readonly_repo \<Rightarrow> 'c query \<Rightarrow> 'c node \<Rightarrow> bool" where
  "visible repo q node \<longleftrightarrow>
     (qu_include_tombstoned q \<or> \<not> is_tombstoned repo (nd_id node)) \<and> (qu_include_system q \<or> \<not> is_system_node node)"

definition USIZE_MAX :: nat where "USIZE_MAX = 2 ^ 64 - 1"

definition hit_cap :: "'c query \<Rightarrow> nat" where
  "hit_cap q = (case qu_limit q of None \<Rightarrow> USIZE_MAX | Some n \<Rightarrow> n)"

definition by_prop_index ::
    "('c, 'h, 'b) external \<Rightarrow> ('c, 'b) store \<Rightarrow> nat \<Rightarrow> 'c readonly_repo \<Rightarrow> 'c query \<Rightarrow> string \<Rightarrow> string \<Rightarrow> 'c ipld \<Rightarrow> 'c index_set
       \<Rightarrow> 'c error + 'c query_hit list" where
  "by_prop_index E bs fuel repo q label prop_name value idx =
     (case Option.bind (fmlookup (is_nodes_by_prop idx) label) (\<lambda>m. fmlookup m prop_name) of
        None \<Rightarrow> Inr []
      | Some tree_root \<Rightarrow>
          rbind (prop_value_hash E value) (\<lambda>key.
          rbind (prolly_lookup E bs fuel tree_root key) (\<lambda>found.
          case found of
            None \<Rightarrow> Inr []
          | Some node_cid \<Rightarrow>
              rbind (decode_from_store E de_node bs node_cid) (\<lambda>node.
              if nd_ntype node = label \<and> fmlookup (nd_props node) prop_name = Some value \<and> visible repo q node
              then rbind (build_hit E bs fuel q (Some idx) node) (\<lambda>hit. Inr [hit])
              else Inr []))))"

definition by_label_index ::
    "('c, 'h, 'b) external \<Rightarrow> ('c, 'b) store \<Rightarrow> nat \<Rightarrow> 'c readonly_repo \<Rightarrow> 'c query \<Rightarrow> string \<Rightarrow> 'c index_set
       \<Rightarrow> 'c error + 'c query_hit list" where
  "by_label_index E bs fuel repo q label idx =
     (case fmlookup (is_nodes_by_label idx) label of
        None \<Rightarrow> Inr []
      | Some tree_root \<Rightarrow>
          scan_entries E bs fuel tree_root (\<lambda>(_, node_cid) hits.
            rbind (decode_from_store E de_node bs node_cid) (\<lambda>node.
            if \<not> visible repo q node then Inr (hits, False)
            else rbind (build_hit E bs fuel q (Some idx) node) (\<lambda>hit.
              let hits = hits @ [hit] in Inr (hits, hit_cap q \<le> length hits)))) [])"

definition prop_matches :: "'c query \<Rightarrow> 'c node \<Rightarrow> bool" where
  "prop_matches q node \<longleftrightarrow>
     (case qu_prop_filter q of None \<Rightarrow> True | Some (prop_name, PEq value) \<Rightarrow> fmlookup (nd_props node) prop_name = Some value)"

definition label_matches :: "'c query \<Rightarrow> 'c node \<Rightarrow> bool" where
  "label_matches q node \<longleftrightarrow> (case qu_label q of None \<Rightarrow> True | Some lbl \<Rightarrow> nd_ntype node = lbl)"

definition by_node_scan ::
    "('c, 'h, 'b) external \<Rightarrow> ('c, 'b) store \<Rightarrow> nat \<Rightarrow> 'c readonly_repo \<Rightarrow> 'c query \<Rightarrow> 'c index_set option \<Rightarrow> 'c
       \<Rightarrow> 'c error + 'c query_hit list" where
  "by_node_scan E bs fuel repo q indexes nodes_root =
     scan_entries E bs fuel nodes_root (\<lambda>(_, node_cid) hits.
       rbind (decode_from_store E de_node bs node_cid) (\<lambda>node.
       if \<not> visible repo q node then Inr (hits, False)
       else if \<not> label_matches q node then Inr (hits, False)
       else if \<not> prop_matches q node then Inr (hits, False)
       else rbind (build_hit E bs fuel q indexes node) (\<lambda>hit.
         let hits = hits @ [hit] in Inr (hits, hit_cap q \<le> length hits)))) []"

definition execute ::
    "('c, 'h, 'b) external \<Rightarrow> ('c, 'b) store \<Rightarrow> nat \<Rightarrow> 'c readonly_repo \<Rightarrow> 'c query \<Rightarrow> 'c error + 'c query_hit list" where
  "execute E bs fuel repo q =
     (case rr_commit repo of
        None \<Rightarrow> Inl (Repo Uninitialized)
      | Some commit \<Rightarrow>
          rbind (case cm_indexes commit of
              None \<Rightarrow> Inr None
            | Some idx_cid \<Rightarrow> rbind (decode_from_store E de_index_set bs idx_cid) (\<lambda>idx. Inr (Some idx))) (\<lambda>indexes.
          case (qu_label q, qu_prop_filter q, indexes) of
            (Some label, Some (prop_name, PEq value), Some idx) \<Rightarrow> by_prop_index E bs fuel repo q label prop_name value idx
          | (Some label, None, Some idx) \<Rightarrow> by_label_index E bs fuel repo q label idx
          | _ \<Rightarrow> by_node_scan E bs fuel repo q indexes (cm_nodes commit)))"

definition query_first ::
    "('c, 'h, 'b) external \<Rightarrow> ('c, 'b) store \<Rightarrow> nat \<Rightarrow> 'c readonly_repo \<Rightarrow> 'c query \<Rightarrow> 'c error + 'c query_hit option" where
  "query_first E bs fuel repo q =
     rbind (execute E bs fuel repo (q\<lparr>qu_limit := Some 1\<rparr>)) (\<lambda>hits.
     Inr (if hits = [] then None else Some (last hits)))"

definition query_one ::
    "('c, 'h, 'b) external \<Rightarrow> ('c, 'b) store \<Rightarrow> nat \<Rightarrow> 'c readonly_repo \<Rightarrow> 'c query \<Rightarrow> 'c error + 'c query_hit" where
  "query_one E bs fuel repo q =
     rbind (execute E bs fuel repo (q\<lparr>qu_limit := Some 2\<rparr>)) (\<lambda>hits.
     case hits of
       [] \<Rightarrow> Inl (Repo NotFoundMatch)
     | [hit] \<Rightarrow> Inr hit
     | _ \<Rightarrow> Inl (Repo AmbiguousMatch))"

end
