(* ===== verification/Query_Spec.thy ===== *)
theory Query_Spec imports Query begin

text \<open>
  What \<open>execute\<close> returns over a commit whose trees and indexes hold given nodes and edges: the hits of a scan of the nodes
  in the order of their ids for every query but a property lookup, and at most one hit for that.
\<close>

section \<open>Loops with \<open>break\<close>\<close>

fun scan_list :: "('x \<Rightarrow> 'acc \<Rightarrow> 'e + 'acc \<times> bool) \<Rightarrow> 'x list \<Rightarrow> 'acc \<Rightarrow> 'e + 'acc" where
  "scan_list body [] acc = Inr acc"
| "scan_list body (x # xs) acc = rbind (body x acc) (\<lambda>(acc, stop). if stop then Inr acc else scan_list body xs acc)"

lemma cursor_scan_collect:
  "cursor_collect E bs fuel n cu out = Inr (out @ es) \<Longrightarrow> cursor_scan E bs fuel n body cu acc = scan_list body es acc"
proof (induction n arbitrary: cu out es acc)
  case (Suc n)
  obtain r cu' where nx: "cursor_next E bs fuel fuel cu = (r, cu')" by fastforce
  show ?case
  proof (cases r)
    case None
    with Suc.prems nx show ?thesis by simp
  next
    case (Some q)
    with Suc.prems nx obtain item where q: "q = Inr item"
      and c: "cursor_collect E bs fuel n cu' (out @ [item]) = Inr (out @ es)"
      by (cases q) auto
    from cursor_collect_prefix [OF c] obtain es' where es: "es = item # es'" by auto
    with c have "cursor_collect E bs fuel n cu' (out @ [item]) = Inr ((out @ [item]) @ es')" by simp
    then have "cursor_scan E bs fuel n body cu' acc' = scan_list body es' acc'" for acc'
      by (rule Suc.IH)
    with nx Some q es show ?thesis by (cases "body item acc") (simp_all split: prod.split)
  qed
qed simp

lemma scan_entries_list:
  assumes "tree_holds E bs fuel root es"
  shows "scan_entries E bs fuel root body acc = scan_list body es acc"
proof -
  have "read_tree E bs fuel root = Inr es" using assms by (rule trees.read_holds)
  then obtain cu where cu: "cursor_new E bs fuel root = Inr cu" and c: "cursor_collect E bs fuel fuel cu [] = Inr ([] @ es)"
    by (auto simp: read_tree_def monad_simps)
  from cursor_scan_collect [OF c] cu show ?thesis by (simp add: scan_entries_def)
qed

text \<open>A body that appends the image of the items it keeps and breaks at \<open>cap\<close> hits.\<close>

lemma scan_list_take:
  assumes "\<And>x hits. x \<in> set xs \<Longrightarrow>
      body (f x) hits = (if P x then Inr (hits @ [h x], cap \<le> length (hits @ [h x])) else Inr (hits, False))"
    and "hits = [] \<or> length hits < cap"
  shows "scan_list body (map f xs) hits = Inr (hits @ map h (take (max 1 cap - length hits) (filter P xs)))"
  using assms
proof (induction xs arbitrary: hits)
  case (Cons x xs)
  have IH: "scan_list body (map f xs) hits' = Inr (hits' @ map h (take (max 1 cap - length hits') (filter P xs)))"
    if "hits' = [] \<or> length hits' < cap" for hits'
    using that Cons.prems(1) by (intro Cons.IH) auto
  show ?case
  proof (cases "P x")
    case False
    then show ?thesis using Cons.prems IH by simp
  next
    case True
    then have b: "body (f x) hits = Inr (hits @ [h x], cap \<le> length (hits @ [h x]))" using Cons.prems(1) by simp
    obtain m where m: "max 1 cap - length hits = Suc m" using Cons.prems(2) by (cases "max 1 cap - length hits") auto
    show ?thesis
    proof (cases "cap \<le> Suc (length hits)")
      case True
      then have "m = 0" using m Cons.prems(2) by auto
      then show ?thesis using b m \<open>P x\<close> True by simp
    next
      case False
      then have "m = max 1 cap - Suc (length hits)" using m by simp
      then show ?thesis using b m \<open>P x\<close> False IH [of "hits @ [h x]"] by simp
    qed
  qed
qed simp

section \<open>Hits\<close>

definition hit_of :: "'c::linorder query \<Rightarrow> ('c \<times> 'c edge) list \<Rightarrow> 'c node \<Rightarrow> 'c query_hit" where
  "hit_of q es node =
     (let out = edges_from es (nd_id node) (set (qu_with_outgoing q));
          inc = edges_to es (nd_id node) (set (qu_with_incoming q));
          cap = qu_adjacency_cap q in
      \<lparr>qh_node = node, qh_edges = take cap out, qh_incoming_edges = drop_self_loops (take cap out) (take cap inc),
       qh_edges_truncated = (cap < length out \<or> cap < length inc)\<rparr>)"

lemma no_edges_wanted [simp]: "edges_from es n {} = []" "edges_to es n {} = []" "edges_from [] n w = []" "edges_to [] n w = []"
  by (simp_all add: edges_from_def edges_to_def case_prod_unfold)

text \<open>What a commit shows: the entries of its node tree decode to \<open>ns\<close>, and when it has indexes, they are those of \<open>ns\<close>
  and of the edges \<open>es\<close>; without indexes no edges are shown.\<close>

definition commit_indexed ::
    "('c::linorder, 'h, 'b) external \<Rightarrow> ('c, 'b) store \<Rightarrow> nat \<Rightarrow> 'c commit \<Rightarrow> (prolly_key \<times> 'c \<times> 'c node) list \<Rightarrow> ('c \<times> 'c edge) list \<Rightarrow> bool" where
  "commit_indexed E bs fuel c ns es \<longleftrightarrow>
     (\<exists>nes ees. tree_holds E bs fuel (cm_nodes c) nes \<and> nodes_at E bs nes ns \<and> edges_at E bs ees es) \<and>
     (case cm_indexes c of
        None \<Rightarrow> es = []
      | Some ic \<Rightarrow> \<exists>ix. decode_from_store E de_index_set bs ic = Inr ix \<and> index_holds E bs fuel ix ns es)"

lemma build_hit_indexed:
  assumes "index_holds E bs fuel ix ns es" and "edges_at E bs ees es"
  shows "build_hit E bs fuel q (Some ix) node = Inr (hit_of q es node)"
proof -
  have "load_outgoing E bs fuel (Some ix) n want cap = Inr (take cap (edges_from es n want), cap < length (edges_from es n want))"
    for n want cap
    using load_outgoing_correct [OF assms(1) _ assms(2)] by (cases "want = {}") (simp_all add: load_outgoing_def)
  moreover have "load_incoming E bs fuel (Some ix) n want cap = Inr (take cap (edges_to es n want), cap < length (edges_to es n want))"
    for n want cap
    using load_incoming_correct [OF assms(1) _ assms(2)] by (cases "want = {}") (simp_all add: load_incoming_def)
  ultimately show ?thesis by (simp add: build_hit_def hit_of_def Let_def)
qed

lemma build_hit_plain: "build_hit E bs fuel q None node = Inr (hit_of q [] node)"
  by (simp add: build_hit_def hit_of_def load_outgoing_def load_incoming_def Let_def)

section \<open>The scan and the label index\<close>

definition matches :: "'c readonly_repo \<Rightarrow> 'c query \<Rightarrow> 'c node \<Rightarrow> bool" where
  "matches repo q node \<longleftrightarrow> visible repo q node \<and> label_matches q node \<and> prop_matches q node"

definition matching :: "'c::linorder readonly_repo \<Rightarrow> 'c query \<Rightarrow> (prolly_key \<times> 'c \<times> 'c node) list \<Rightarrow> ('c \<times> 'c edge) list \<Rightarrow> 'c query_hit list" where
  "matching repo q ns es = map (hit_of q es) (filter (matches repo q) (map (\<lambda>(k, c, n). n) ns))"

lemma by_node_scan_run:
  assumes tree: "tree_holds E bs fuel root nes" and ns: "nodes_at E bs nes ns"
    and hit: "\<And>node. build_hit E bs fuel q indexes node = Inr (hit_of q es node)"
  shows "by_node_scan E bs fuel repo q indexes root = Inr (take (max 1 (hit_cap q)) (matching repo q ns es))"
proof -
  have nes: "nes = map (\<lambda>(k, c, n). (k, c)) ns" using nodes_at_entries [OF ns] by simp
  show ?thesis
    unfolding by_node_scan_def scan_entries_list [OF tree] nes
    by (subst scan_list_take [where P = "\<lambda>(k, c, n). matches repo q n" and h = "\<lambda>(k, c, n). hit_of q es n" and cap = "hit_cap q"])
       (auto simp: nodes_at_decode [OF ns] hit matches_def Let_def matching_def filter_map o_def take_map case_prod_unfold)
qed

lemma map_of_labels:
  assumes "distinct (map fst ns)"
  shows "map_of (map (\<lambda>(k, c, n). (k, c)) (filter (\<lambda>(k, c, n). nd_ntype n = l) ns)) k = row_of (label_rows ns) l k"
  using assms
proof (induction ns)
  case Nil
  then show ?case by (simp add: label_rows_def)
next
  case (Cons x ns)
  obtain k' c n where x: "x = (k', c, n)" by (cases x)
  have rows: "label_rows (x # ns) = [(nd_ntype n, k', c)] @ label_rows ns" by (simp add: label_rows_def x)
  have none: "row_of (label_rows ns) g k' = None" for g
    unfolding row_of_None using Cons.prems by (auto simp: label_rows_def x image_iff)
  show ?case
    unfolding rows row_of_append
    using Cons.IH Cons.prems none row_of_snoc [of "[]" "nd_ntype n" k' c l k] by (auto simp: x split: option.split)
qed

lemma label_tree:
  assumes strict: "strict_keys (map (\<lambda>(k, c, n). (k, c)) ns)" and m: "tree_holds E bs fuel root m"
    and look: "\<forall>k. map_of m k = row_of (label_rows ns) l k"
  shows "m = map (\<lambda>(k, c, n). (k, c)) (filter (\<lambda>(k, c, n). nd_ntype n = l) ns)"
proof (rule strict_keys_map_of_eq)
  have d: "distinct (map fst ns)" using strict_keys_distinct [OF strict] by (simp add: o_def case_prod_unfold)
  show "strict_keys m" using m by (rule trees.holds_strict)
  show "strict_keys (map (\<lambda>(k, c, n). (k, c)) (filter (\<lambda>(k, c, n). nd_ntype n = l) ns))"
    using strict by (simp add: strict_keys_def sorted_wrt_map sorted_wrt_filter)
  show "map_of m = map_of (map (\<lambda>(k, c, n). (k, c)) (filter (\<lambda>(k, c, n). nd_ntype n = l) ns))"
    using look map_of_labels [OF d] by auto
qed

lemma by_label_index_run:
  assumes ix: "index_holds E bs fuel ix ns es" and tree: "tree_holds E bs fuel root nes" and ns: "nodes_at E bs nes ns"
    and at: "edges_at E bs ees es" and q: "qu_label q = Some l" "qu_prop_filter q = None"
  shows "by_label_index E bs fuel repo q l ix = Inr (take (max 1 (hit_cap q)) (matching repo q ns es))"
proof -
  have ti: "tree_index E bs fuel (fmlookup (is_nodes_by_label ix)) (label_rows ns)" using ix by (simp add: index_holds_def)
  have nes: "nes = map (\<lambda>(k, c, n). (k, c)) ns" using nodes_at_entries [OF ns] by simp
  have strict: "strict_keys (map (\<lambda>(k, c, n). (k, c)) ns)" using trees.holds_strict [OF tree] by (simp add: nes)
  have all: "matching repo q ns es = map (\<lambda>(k, c, n). hit_of q es n) (filter (\<lambda>(k, c, n). visible repo q n) (filter (\<lambda>(k, c, n). nd_ntype n = l) ns))"
    by (simp add: matching_def matches_def label_matches_def prop_matches_def q filter_map o_def case_prod_unfold conj_commute)
  have idx: "case fmlookup (is_nodes_by_label ix) l of None \<Rightarrow> \<forall>k c. (l, k, c) \<notin> set (label_rows ns)
      | Some root \<Rightarrow> \<exists>m. tree_holds E bs fuel root m \<and> (\<forall>k. map_of m k = row_of (label_rows ns) l k)"
    using ti unfolding tree_index_def by (rule spec)
  show ?thesis
  proof (cases "fmlookup (is_nodes_by_label ix) l")
    case None
    with idx have "\<forall>k c. (l, k, c) \<notin> set (label_rows ns)" by simp
    then have "filter (\<lambda>(k, c, n). nd_ntype n = l) ns = []"
      by (intro filter_False) (auto simp: label_rows_def image_iff split: prod.splits)
    with None all show ?thesis by (simp add: by_label_index_def)
  next
    case (Some r)
    from idx Some obtain m where m: "tree_holds E bs fuel r m" "\<forall>k. map_of m k = row_of (label_rows ns) l k" by auto
    note eq = label_tree [OF strict m]
    show ?thesis
      unfolding by_label_index_def Some option.case scan_entries_list [OF m(1)] eq all
      by (subst scan_list_take [where P = "\<lambda>(k, c, n). visible repo q n" and h = "\<lambda>(k, c, n). hit_of q es n" and cap = "hit_cap q"])
         (auto simp: nodes_at_decode [OF ns] build_hit_indexed [OF ix at] Let_def take_map)
  qed
qed

section \<open>The property index\<close>

text \<open>The nodes whose value of the property has the hash that is looked up; the index holds the last of them.\<close>

definition keyed :: "('c, 'h, 'b) external \<Rightarrow> string \<Rightarrow> string \<Rightarrow> prolly_key \<Rightarrow> 'c node \<Rightarrow> bool" where
  "keyed E l p h n \<longleftrightarrow> nd_ntype n = l \<and> (case fmlookup (nd_props n) p of None \<Rightarrow> False | Some v \<Rightarrow> prop_value_hash E v = Inr h)"

definition candidates :: "('c, 'h, 'b) external \<Rightarrow> string \<Rightarrow> string \<Rightarrow> prolly_key \<Rightarrow> (prolly_key \<times> 'c \<times> 'c node) list \<Rightarrow> (prolly_key \<times> 'c \<times> 'c node) list" where
  "candidates E l p h ns = filter (\<lambda>(k, c, n). keyed E l p h n) ns"

lemma node_rows_row:
  assumes "node_prop_rows E (k, c, n) = Inr rs"
  shows "row_of rs (l, p) h = (if keyed E l p h n then Some c else None)"
proof -
  have mem: "((l, p), h, d) \<in> set rs \<longleftrightarrow> d = c \<and> keyed E l p h n" for d
    using node_prop_rows_set [OF assms, of "(l, p)" h d] by (auto simp: keyed_def split: option.splits)
  show ?thesis
  proof (cases "row_of rs (l, p) h")
    case None
    then show ?thesis using mem by (auto simp: row_of_None)
  next
    case (Some d)
    then show ?thesis using row_of_Some [OF Some] mem by auto
  qed
qed

lemma row_of_candidates:
  assumes "prop_rows E ns = Inr rows"
  shows "row_of rows (l, p) h = (case candidates E l p h ns of [] \<Rightarrow> None | x # xs \<Rightarrow> Some (fst (snd (last (x # xs)))))"
  using assms
proof (induction ns arbitrary: rows)
  case Nil
  then show ?case by (simp add: prop_rows_def candidates_def)
next
  case (Cons x ns)
  obtain k c n where x: "x = (k, c, n)" by (cases x)
  from Cons.prems obtain rs rest where r: "node_prop_rows E (k, c, n) = Inr rs" "prop_rows E ns = Inr rest" "rows = rs @ rest"
    by (auto simp: prop_rows_Cons x)
  have cand: "candidates E l p h (x # ns) = (if keyed E l p h n then [x] else []) @ candidates E l p h ns"
    by (simp add: candidates_def x)
  show ?case
    unfolding r(3) row_of_append Cons.IH [OF r(2)] node_rows_row [OF r(1)] cand
    by (cases "candidates E l p h ns") (simp_all add: x)
qed

definition point_hits ::
    "('c::linorder, 'h, 'b) external \<Rightarrow> 'c readonly_repo \<Rightarrow> 'c query \<Rightarrow> string \<Rightarrow> string \<Rightarrow> 'c ipld \<Rightarrow> prolly_key
       \<Rightarrow> (prolly_key \<times> 'c \<times> 'c node) list \<Rightarrow> ('c \<times> 'c edge) list \<Rightarrow> 'c query_hit list" where
  "point_hits E repo q l p v h ns es =
     (case candidates E l p h ns of
        [] \<Rightarrow> []
      | x # xs \<Rightarrow> (case last (x # xs) of (k, c, n) \<Rightarrow>
          if fmlookup (nd_props n) p = Some v \<and> visible repo q n then [hit_of q es n] else []))"

lemma by_prop_index_run:
  assumes ix: "index_holds E bs fuel ix ns es" and ns: "nodes_at E bs nes ns" and at: "edges_at E bs ees es"
    and h: "prop_value_hash E v = Inr h"
  shows "by_prop_index E bs fuel repo q l p v ix = Inr (point_hits E repo q l p v h ns es)"
proof -
  obtain rows where rows: "prop_rows E ns = Inr rows" using ix by (auto simp: index_holds_def)
  have ti: "tree_index E bs fuel (\<lambda>(l, p). group_get (is_nodes_by_prop ix) l p) rows"
    using ix rows by (auto simp: index_holds_def)
  note lk = tree_index_lookup [OF ti, of "(l, p)" h, unfolded row_of_candidates [OF rows]]
  show ?thesis
  proof (cases "candidates E l p h ns")
    case Nil
    with lk h show ?thesis
      by (cases "group_get (is_nodes_by_prop ix) l p") (simp_all add: by_prop_index_def group_get_def point_hits_def)
  next
    case (Cons x xs)
    obtain k c n where last: "last (x # xs) = (k, c, n)" by (cases "last (x # xs)")
    have "(k, c, n) \<in> set (candidates E l p h ns)" using last_in_set [of "x # xs"] by (simp add: Cons last del: last.simps)
    then have n: "(k, c, n) \<in> set ns" "nd_ntype n = l" by (auto simp: candidates_def keyed_def)
    from lk Cons obtain r where "group_get (is_nodes_by_prop ix) l p = Some r" "prolly_lookup E bs fuel r h = Inr (Some c)"
      by (cases "group_get (is_nodes_by_prop ix) l p") (simp_all add: last del: last.simps)
    then show ?thesis
      using h n nodes_at_decode [OF ns n(1)] build_hit_indexed [OF ix at]
      by (simp add: by_prop_index_def group_get_def point_hits_def Cons last del: last.simps)
  qed
qed

section \<open>The whole query\<close>

definition point_lookup :: "'c commit \<Rightarrow> 'c query \<Rightarrow> bool" where
  "point_lookup c q \<longleftrightarrow> cm_indexes c \<noteq> None \<and> qu_label q \<noteq> None \<and> qu_prop_filter q \<noteq> None"

lemma execute_scan:
  assumes c: "rr_commit repo = Some c" and holds: "commit_indexed E bs fuel c ns es" and path: "\<not> point_lookup c q"
  shows "execute E bs fuel repo q = Inr (take (max 1 (hit_cap q)) (matching repo q ns es))"
proof -
  from holds obtain nes ees where tree: "tree_holds E bs fuel (cm_nodes c) nes" and ns: "nodes_at E bs nes ns" and at: "edges_at E bs ees es"
    by (auto simp: commit_indexed_def)
  show ?thesis
  proof (cases "cm_indexes c")
    case None
    with holds have "es = []" by (simp add: commit_indexed_def)
    then have "by_node_scan E bs fuel repo q None (cm_nodes c) = Inr (take (max 1 (hit_cap q)) (matching repo q ns es))"
      using by_node_scan_run [OF tree ns, of q None es] by (simp add: build_hit_plain)
    with None c show ?thesis by (simp add: execute_def split: option.split prop_predicate.split)
  next
    case (Some ic)
    with holds obtain ix where ix: "decode_from_store E de_index_set bs ic = Inr ix" "index_holds E bs fuel ix ns es"
      by (auto simp: commit_indexed_def)
    have scan: "by_node_scan E bs fuel repo q (Some ix) (cm_nodes c) = Inr (take (max 1 (hit_cap q)) (matching repo q ns es))"
      using by_node_scan_run [OF tree ns, of q "Some ix" es] by (simp add: build_hit_indexed [OF ix(2) at])
    show ?thesis
    proof (cases "qu_label q")
      case None
      with c Some ix scan show ?thesis by (simp add: execute_def split: option.split prod.split prop_predicate.split)
    next
      case (Some l)
      then have "qu_prop_filter q = None" using path \<open>cm_indexes c = Some ic\<close> by (cases "qu_prop_filter q") (simp_all add: point_lookup_def)
      with by_label_index_run [OF ix(2) tree ns at Some] c Some ix \<open>cm_indexes c = Some ic\<close> show ?thesis
        by (simp add: execute_def)
    qed
  qed
qed

lemma execute_point:
  assumes c: "rr_commit repo = Some c" "cm_indexes c \<noteq> None" and holds: "commit_indexed E bs fuel c ns es"
    and q: "qu_label q = Some l" "qu_prop_filter q = Some (p, PEq v)" and h: "prop_value_hash E v = Inr h"
  shows "execute E bs fuel repo q = Inr (point_hits E repo q l p v h ns es)"
proof -
  from holds obtain nes ees where ns: "nodes_at E bs nes ns" and at: "edges_at E bs ees es"
    by (auto simp: commit_indexed_def)
  from c(2) holds obtain ic ix where ix: "cm_indexes c = Some ic" "decode_from_store E de_index_set bs ic = Inr ix" "index_holds E bs fuel ix ns es"
    by (auto simp: commit_indexed_def)
  show ?thesis using c(1) q by (simp add: execute_def ix by_prop_index_run [OF ix(3) ns at h])
qed

end
