(* ===== verification/Query_Props.thy ===== *)
theory Query_Props imports Query_Spec Transaction_Instance begin

text \<open>
  The properties of queries, and the repository they are applied to: two people of the same name, with their indexes.
\<close>

section \<open>An instance\<close>

definition qnode :: "node_id \<Rightarrow> nat node" where
  "qnode i = node_with_prop (node_new i ''P'') ''name'' (IString ''a'')"

definition qleaf :: "(prolly_key \<times> nat) list \<Rightarrow> nat ipld" where
  "qleaf es = ser_tree (Leaf (leaf_new es))"

definition qindex :: "nat index_set" where
  "qindex = \<lparr>is_nodes_by_label = fmap_of_list [(''P'', 2)], is_nodes_by_prop = fmap_of_list [(''P'', fmap_of_list [(''name'', 5)])],
     is_outgoing = None, is_incoming = None, is_extra = fmempty\<rparr>"

definition qkey :: prolly_key where "qkey = 97 * 2 ^ 120"

definition qtable :: "nat ipld list" where
  "qtable = [ser_node (qnode 1), ser_node (qnode 2), qleaf [(1, 0), (2, 1)], qleaf [], IString ''a'', qleaf [(qkey, 1)], ser_index_set qindex]"

abbreviation "qE \<equiv> tE qtable"

definition qcommit :: "nat commit" where
  "qcommit = (commit_new 7 2 3 6 ''me'' 5 ''msg'')\<lparr>cm_indexes := Some 6\<rparr>"

definition qrepo :: "nat readonly_repo" where
  "qrepo = \<lparr>rr_op_id = 16, rr_op = operation_new 15 ''me'' 4 ''init'', rr_view = view_new, rr_commit = Some qcommit\<rparr>"

lemma qrun: "fst (build_index_set qE 10 2 3 (table_store [0, 1, 2, 3])) = Inr 6"
  by code_simp

lemma qhash: "prop_value_hash qE (IString ''a'') = Inr qkey"
  by code_simp

lemma qrows:
  obtains t where "commit_indexed qE t 10 qcommit [(1, 0, qnode 1), (2, 1, qnode 2)] []"
proof -
  obtain t where b: "build_index_set qE 10 2 3 (table_store [0, 1, 2, 3]) = (Inr 6, t)"
    using qrun by (cases "build_index_set qE 10 2 3 (table_store [0, 1, 2, 3])") auto
  have trees: "tree_holds qE (table_store [0, 1, 2, 3]) 10 2 [(1, 0), (2, 1)]" "tree_holds qE (table_store [0, 1, 2, 3]) 10 3 []"
    by (rule table_leaf_holds; simp add: qtable_def qleaf_def strict_keys_def)+
  have holds: "grows qE (table_store [0, 1, 2, 3]) t \<and> (\<exists>ix ns es. decode_from_store qE de_index_set t 6 = Inr ix \<and>
      nodes_at qE t [(1, 0), (2, 1)] ns \<and> edges_at qE t [] es \<and> index_holds qE t 10 ix ns es \<and> index_canonical qE ix ns es \<and>
      outcome (put_object qE (ser_index_set ix)) = Inr 6)"
    by (rule build_index_set_holds [OF b crypto_table table_store_trusted trees]) simp_all
  then obtain ix ns es where g: "grows qE (table_store [0, 1, 2, 3]) t" and ix: "decode_from_store qE de_index_set t 6 = Inr ix"
    and ns: "nodes_at qE t [(1, 0), (2, 1)] ns" and es: "edges_at qE t [] es" and h: "index_holds qE t 10 ix ns es" by blast
  have ok: "node_ok (qnode i)" for i
    by (simp add: node_ok_def qnode_def node_new_def node_with_prop_def extra_ok_def list_all_iff)
  note mono = decode_from_store_mono [OF _ g table_store_trusted]
  have "decode_from_store qE de_node t 0 = Inr (qnode 1)" "decode_from_store qE de_node t 1 = Inr (qnode 2)"
    by (rule mono, simp add: table_decode qtable_def de_ser_node ok)+
  then have "nodes_at qE t [(1, 0), (2, 1)] [(1, 0, qnode 1), (2, 1, qnode 2)]" by (simp add: nodes_at_def)
  with ns have ns': "ns = [(1, 0, qnode 1), (2, 1, qnode 2)]" by (rule nodes_at_unique)
  have es': "es = []" using es by (simp add: edges_at_def)
  have "tree_holds qE t 10 2 [(1, 0), (2, 1)]" by (rule tree_holds_mono [OF trees(1) g table_store_trusted])
  with ns es h ix show thesis
    by (intro that) (auto simp: commit_indexed_def qcommit_def commit_new_def ns' es')
qed

section \<open>Properties\<close>

text \<open>C29 (\<open>Query::execute\<close>, \<open>first\<close>, \<open>one\<close>). On a repository whose commit shows the nodes \<open>ns\<close>, in the order of their ids,
  and the edges \<open>es\<close>, every query that does not look up a property in the index returns the nodes that are visible, have
  the label and the property, in that order, each with its wanted edges; the limit cuts the list, but never below one
  hit. \<open>first\<close> is the first of them, \<open>one\<close> the only one, and fails with \<open>NotFound\<close> without one and with \<open>AmbiguousMatch\<close> when
  there are several.\<close>

theorem query_scan_exact:
  assumes "rr_commit repo = Some c" and "commit_indexed E bs fuel c ns es" and "\<not> point_lookup c q"
  shows "execute E bs fuel repo q = Inr (take (max 1 (hit_cap q)) (matching repo q ns es)) \<and>
    query_first E bs fuel repo q = Inr (case matching repo q ns es of [] \<Rightarrow> None | hit # hits \<Rightarrow> Some hit) \<and>
    query_one E bs fuel repo q = (case matching repo q ns es of
      [] \<Rightarrow> Inl (Repo NotFoundMatch) | [hit] \<Rightarrow> Inr hit | _ \<Rightarrow> Inl (Repo AmbiguousMatch))"
proof -
  have hit: "hit_of (q\<lparr>qu_limit := l\<rparr>) es = hit_of q es" "matches repo (q\<lparr>qu_limit := l\<rparr>) = matches repo q" for l
    by (simp_all add: fun_eq_iff hit_of_def matches_def visible_def label_matches_def prop_matches_def)
  have limit: "matching repo (q\<lparr>qu_limit := l\<rparr>) ns es = matching repo q ns es" "\<not> point_lookup c (q\<lparr>qu_limit := l\<rparr>)" for l
    using assms(3)
    by (simp_all add: matching_def hit point_lookup_def)
  have "execute E bs fuel repo (q\<lparr>qu_limit := Some n\<rparr>) = Inr (take (max 1 n) (matching repo q ns es))" for n
    using execute_scan [OF assms(1,2) limit(2), of "Some n"] by (simp add: limit hit_cap_def)
  then show ?thesis
    using execute_scan [OF assms]
    by (auto simp: query_first_def query_one_def numeral_2_eq_2 split: list.splits)
qed

theorem query_scan_exact_witness:
  "\<exists>t. execute qE t 10 qrepo (query_limit 0 (query_label ''P'' query_new)) = Inr [hit_of query_new [] (qnode 1)] \<and>
    query_one qE t 10 qrepo (query_limit 0 (query_label ''P'' query_new)) = Inl (Repo AmbiguousMatch)"
proof -
  let ?q = "query_limit 0 (query_label ''P'' query_new)"
  obtain t where t: "commit_indexed qE t 10 qcommit [(1, 0, qnode 1), (2, 1, qnode 2)] []" by (rule qrows)
  have c: "rr_commit qrepo = Some qcommit" by (simp add: qrepo_def)
  have p: "\<not> point_lookup qcommit ?q" by (simp add: point_lookup_def query_limit_def query_label_def query_new_def)
  have m: "matching qrepo ?q [(1, 0, qnode 1), (2, 1, qnode 2)] [] = [hit_of query_new [] (qnode 1), hit_of query_new [] (qnode 2)]"
    by code_simp
  show ?thesis
    using query_scan_exact [OF c t p] unfolding m by (intro exI [of _ t]) (simp add: hit_cap_def query_limit_def)
qed

text \<open>C30 (\<open>Query::execute\<close>). A query for a label and a property value on an indexed commit looks at one node only: the last
  one, by id, whose value has the looked-up hash. It is the only hit if it has the value and is visible; otherwise there
  is none. This agrees with the scan of the nodes when no other node has the value; when two have it, the first is never
  found, so \<open>one\<close> cannot report that the match is ambiguous, and a tombstone on the last hides the live one.\<close>

theorem query_point_exact:
  assumes "rr_commit repo = Some c" and "cm_indexes c \<noteq> None" and "commit_indexed E bs fuel c ns es"
    and "qu_label q = Some l" and "qu_prop_filter q = Some (p, PEq v)" and "prop_value_hash E v = Inr h"
  shows "execute E bs fuel repo q = Inr (case candidates E l p h ns of
      [] \<Rightarrow> []
    | x # xs \<Rightarrow> (case last (x # xs) of (k, cid, n) \<Rightarrow>
        if fmlookup (nd_props n) p = Some v \<and> visible repo q n then [hit_of q es n] else [])) \<and>
    (length (candidates E l p h ns) \<le> 1 \<longrightarrow> execute E bs fuel repo q = Inr (matching repo q ns es))"
proof -
  have run: "execute E bs fuel repo q = Inr (point_hits E repo q l p v h ns es)" by (rule execute_point [OF assms])
  have "filter (\<lambda>x. matches repo q (snd (snd x))) ns = filter (\<lambda>x. matches repo q (snd (snd x))) (candidates E l p h ns)"
    using assms(4-6)
    by (auto simp: candidates_def keyed_def matches_def label_matches_def prop_matches_def intro!: filter_cong split: option.splits)
  then have m: "matching repo q ns es = map (\<lambda>x. hit_of q es (snd (snd x))) (filter (\<lambda>x. matches repo q (snd (snd x))) (candidates E l p h ns))"
    by (simp add: matching_def filter_map o_def case_prod_unfold)
  have "point_hits E repo q l p v h ns es = matching repo q ns es" if one: "length (candidates E l p h ns) \<le> 1"
  proof (cases "candidates E l p h ns")
    case Nil
    then show ?thesis by (simp add: m point_hits_def)
  next
    case (Cons x xs)
    then have "candidates E l p h ns = [x]" using one by simp
    moreover have "keyed E l p h (snd (snd x))" using Cons by (auto simp: candidates_def filter_eq_Cons_iff)
    ultimately show ?thesis
      using assms(4,5) by (auto simp: m point_hits_def matches_def label_matches_def prop_matches_def keyed_def split: prod.splits)
  qed
  with run show ?thesis unfolding point_hits_def by simp
qed

theorem query_point_exact_witness:
  "\<exists>t. execute qE t 10 qrepo (query_label ''P'' (where_eq ''name'' (IString ''a'') query_new)) =
    Inr [hit_of (query_label ''P'' (where_eq ''name'' (IString ''a'') query_new)) [] (qnode 2)]"
proof -
  let ?q = "query_label ''P'' (where_eq ''name'' (IString ''a'') query_new)"
  obtain t where t: "commit_indexed qE t 10 qcommit [(1, 0, qnode 1), (2, 1, qnode 2)] []" by (rule qrows)
  have c: "rr_commit qrepo = Some qcommit" "cm_indexes qcommit \<noteq> None" by (simp_all add: qrepo_def qcommit_def)
  have q: "qu_label ?q = Some ''P''" "qu_prop_filter ?q = Some (''name'', PEq (IString ''a''))"
    by (simp_all add: query_label_def where_eq_def where_prop_def)
  have m: "candidates qE ''P'' ''name'' qkey [(1, 0, qnode 1), (2, 1, qnode 2)] = [(1, 0, qnode 1), (2, 1, qnode 2)]"
    "visible qrepo ?q (qnode 2)" "fmlookup (nd_props (qnode 2)) ''name'' = Some (IString ''a'')" by code_simp+
  show ?thesis
    using query_point_exact [OF c t q qhash] unfolding m(1) by (intro exI [of _ t]) (simp add: m(2,3))
qed

lemma query_new_label: "qu_label query_new = None"
  by (simp add: query_new_def)

text \<open>C28 (\<open>commit_opts\<close>, \<open>Query::execute\<close>). After a transaction is committed and has built its indexes afresh (it did not take the
  append-only path on an indexed base), the queries on the new handle that are not lookups by label and property value see exactly the base overlaid with the staged nodes and edges.\<close>

theorem query_after_commit:
  assumes "(tx_step E fuel)\<^sup>*\<^sup>* (s0, transaction_new base) (rs_blocks s, tx)"
    and "view_ok (rr_view base)" and "crypto_ok E" and "trusted E s0"
    and "base_holds E (rs_blocks s) fuel base nes ees" and "room_for fuel tx nes ees"
    and "commit_opts E fuel clock fresh opts tx s = (Inr r, t)" and "\<not> appends_index E (rs_blocks s) fuel tx"
  shows "\<exists>ns es. strict_keys (map (\<lambda>(k, c, n). (k, c)) ns) \<and>
    map_of (map (\<lambda>(k, c, n). (k, c)) ns) = overlay nes (tx_new_nodes tx) (tx_removed_nodes tx) \<and>
    (\<forall>(k, c, n) \<in> set ns. decode_from_store E de_node (rs_blocks t) c = Inr n) \<and>
    fst ` set es = ran (overlay ees (tx_new_edges tx) (tx_removed_edges tx)) \<and>
    (\<forall>(c, e) \<in> set es. decode_from_store E de_edge (rs_blocks t) c = Inr e) \<and>
    (\<forall>q. qu_label q = None \<or> qu_prop_filter q = None \<longrightarrow>
      execute E (rs_blocks t) fuel r q = Inr (take (max 1 (hit_cap q)) (matching r q ns es)))"
proof -
  note ready = steps_ready [OF assms(1-4)]
  obtain cc c where k: "commits E fuel (opts_time opts clock) (opts_change opts fresh) opts tx nes ees s t r cc c"
    and i: "\<exists>ix. cm_indexes c = Some ix \<and> indexes_match E (rs_blocks t) fuel [] (cm_nodes c) (cm_edges c) ix"
    using commit_opts_spec [OF assms(7,3) ready(4,1) assms(5) [folded ready(3)] assms(6)] assms(8) by blast
  then obtain ic ne ee ix ns es where ix: "cm_indexes c = Some ic" "decode_from_store E de_index_set (rs_blocks t) ic = Inr ix"
      "index_holds E (rs_blocks t) fuel ix ns es"
    and n: "tree_holds E (rs_blocks t) fuel (cm_nodes c) ne" "nodes_at E (rs_blocks t) ne ns"
    and e: "tree_holds E (rs_blocks t) fuel (cm_edges c) ee" "edges_at E (rs_blocks t) ee es"
    by (auto simp: indexes_match_def)
  have published: "tree_of_map E (rs_blocks t) fuel (cm_nodes c) (overlay nes (tx_new_nodes tx) (tx_removed_nodes tx))"
    "tree_of_map E (rs_blocks t) fuel (cm_edges c) (overlay ees (tx_new_edges tx) (tx_removed_edges tx))"
    using k by (simp_all add: commits_def commit_shows_def)
  have maps: "map_of ne = overlay nes (tx_new_nodes tx) (tx_removed_nodes tx)"
    "map_of ee = overlay ees (tx_new_edges tx) (tx_removed_edges tx)"
    using published trees.holds_unique [OF n(1)] trees.holds_unique [OF e(1)] by (auto simp: tree_of_map_def)
  have ents: "map (\<lambda>(k, c, n). (k, c)) ns = ne" by (rule nodes_at_entries [OF n(2)])
  have "fst ` set es = snd ` set ee"
    using e(2) unfolding edges_at_def by (induction rule: list_all2_induct) auto
  then have es: "fst ` set es = ran (map_of ee)"
    using strict_keys_distinct [OF trees.holds_strict [OF e(1)]] by (simp add: ran_distinct)
  have "rr_commit r = Some c" using k by (simp add: commits_def)
  moreover have "commit_indexed E (rs_blocks t) fuel c ns es" using ix n e by (auto simp: commit_indexed_def)
  ultimately have "execute E (rs_blocks t) fuel r q = Inr (take (max 1 (hit_cap q)) (matching r q ns es))"
    if "qu_label q = None \<or> qu_prop_filter q = None" for q
    using that by (intro execute_scan) (auto simp: point_lookup_def)
  then show ?thesis
    using trees.holds_strict [OF n(1)] maps ents es nodes_at_decode [OF n(2)] edges_at_decode [OF e(2)]
    by (intro exI [of _ ns] exI [of _ es]) auto
qed

theorem query_after_commit_witness:
  "\<exists>r (t :: (nat, nat) repo_state) ns es. map_of (map (\<lambda>(k, c, n). (k, c)) ns) = [9 \<mapsto> 0] \<and> fst ` set es = {1} \<and>
    execute xE (rs_blocks t) 10 r query_new = Inr (take (max 1 USIZE_MAX) (matching r query_new ns es))"
proof -
  obtain tx s r t where st: "(tx_step xE 10)\<^sup>*\<^sup>* (fmempty, transaction_new xrepo) (rs_blocks s, tx)" and x: "xstaged tx"
    and run: "xcommit tx s = (Inr r, t)" by (rule xcommitted)
  have o: "overlay [] (tx_new_nodes tx) (tx_removed_nodes tx) = [9 \<mapsto> 0]" "overlay [] (tx_new_edges tx) (tx_removed_edges tx) = [8 \<mapsto> 1]"
    using x by (auto simp: xstaged_def overlay_def)
  have na: "\<not> appends_index xE (rs_blocks s) 10 tx" using x by (auto simp: xstaged_def appends_index_def xrepo_def)
  obtain ns es where m: "map_of (map (\<lambda>(k, c, n). (k, c)) ns) = [9 \<mapsto> 0]" "fst ` set es = ran [(8 :: prolly_key) \<mapsto> 1 :: nat]"
    and q: "\<forall>q. qu_label q = None \<or> qu_prop_filter q = None \<longrightarrow>
      execute xE (rs_blocks t) 10 r q = Inr (take (max 1 (hit_cap q)) (matching r q ns es))"
    using query_after_commit [OF st xbase(1) crypto_table xbase(2) xbase(3) xroom [OF x] run [unfolded xcommit_def] na]
    unfolding o by blast
  have "execute xE (rs_blocks t) 10 r query_new = Inr (take (max 1 (hit_cap (query_new :: nat query))) (matching r query_new ns es))"
    using q by (simp add: query_new_label)
  moreover have "hit_cap (query_new :: nat query) = USIZE_MAX" by (simp add: hit_cap_def query_new_def)
  moreover have "ran [(8 :: prolly_key) \<mapsto> 1 :: nat] = {1}" by simp
  ultimately have "map_of (map (\<lambda>(k, c, n). (k, c)) ns) = [9 \<mapsto> 0] \<and> fst ` set es = {1} \<and>
      execute xE (rs_blocks t) 10 r query_new = Inr (take (max 1 USIZE_MAX) (matching r query_new ns es))"
    using m by (simp only: simp_thms)
  then show ?thesis by blast
qed

end
