(* ===== verification/Car.thy ===== *)
theory Car imports Store begin

text \<open>
  \<open>crates/mnem-transport/src/car.rs\<close>, \<open>export.rs\<close> and \<open>import.rs\<close>: CAR v1 archives. A reader is a program on the bytes that
  are left, a writer a function to bytes; failures of the stream itself other than its end are not modelled.

  \<open>car_wire\<close> is what the code takes from other crates here: the encoder of varints, \<open>Cid::from_bytes\<close> and the
  conversion of a byte vector into a block. \<open>leb128\<close> is the encoding the multiformats specification prescribes.
\<close>

unbundle bit_operations_syntax

section \<open>Varints\<close>

fun leb128 :: "nat \<Rightarrow> bytes" where
  "leb128 n = (if n < 128 then [word_of_nat n] else word_of_nat (n mod 128 + 128) # leb128 (n div 128))"

declare leb128.simps [simp del]

record ('c, 'b) car_wire =
  varint_encode :: "u64 \<Rightarrow> bytes"
  cid_from_bytes :: "bytes \<Rightarrow> 'c option"
  block_of :: "bytes \<Rightarrow> 'b"

datatype 'c transport_error =
    TCar
  | TCidMismatch 'c 'c
  | UnsupportedHash u64
  | MissingRoot 'c
  | SizeLimit u64 u64
  | TCodec codec_error
  | TStore "'c store_error"
  | TIo
  | TPanic

text \<open>The \<open>From\<close> impls behind \<open>?\<close> on a codec or a store error.\<close>

fun transport_of :: "'c error \<Rightarrow> 'c transport_error" where
  "transport_of (Codec e) = TCodec e"
| "transport_of (Store e) = TStore e"
| "transport_of _ = TPanic"

definition checked_shl :: "u64 \<Rightarrow> nat \<Rightarrow> u64 option" where
  "checked_shl v n = (if n < 64 then Some (push_bit n v) else None)"

definition low7 :: "u8 \<Rightarrow> u64" where
  "low7 byte = ucast (byte AND 0x7F)"

definition more_bytes :: "u8 \<Rightarrow> bool" where
  "more_bytes byte \<longleftrightarrow> byte AND 0x80 \<noteq> 0"

definition read_byte :: "(bytes, 'c transport_error, u8 option) prog" where
  "read_byte = (\<lambda>s. case s of [] \<Rightarrow> (Inr None, []) | b # rest \<Rightarrow> (Inr (Some b), rest))"

definition read_exact :: "nat \<Rightarrow> (bytes, 'c transport_error, bytes) prog" where
  "read_exact n = (\<lambda>s. if length s < n then (Inl TIo, []) else (Inr (take n s), drop n s))"

fun varint_loop :: "nat \<Rightarrow> nat \<Rightarrow> nat \<Rightarrow> u64 \<Rightarrow> (bytes, 'c transport_error, u64) prog" where
  "varint_loop 0 i shift result = slift (Inl TCar)"
| "varint_loop (Suc k) i shift result =
     sbind read_byte (\<lambda>b.
     case b of
       None \<Rightarrow> slift (Inl TCar)
     | Some byte \<Rightarrow>
         (case checked_shl (low7 byte) shift of
            None \<Rightarrow> slift (Inl TCar)
          | Some shifted \<Rightarrow>
              let result = result OR shifted in
              if \<not> more_bytes byte then
                (if i > 0 \<and> byte = 0 then slift (Inl TCar) else sret result)
              else varint_loop k (i + 1) (shift + 7) result))"

definition read_varint_u64 :: "(bytes, 'c transport_error, u64) prog" where
  "read_varint_u64 = varint_loop 10 0 0 0"

text \<open>The decoder for the varints inside a CID, on a slice: value and bytes read.\<close>

fun inline_varint :: "nat \<Rightarrow> nat \<Rightarrow> u64 \<Rightarrow> bytes \<Rightarrow> (u64 \<times> nat) option" where
  "inline_varint i shift result [] = None"
| "inline_varint i shift result (byte # bs) =
     (if 10 \<le> i then None
      else (case checked_shl (low7 byte) shift of
              None \<Rightarrow> None
            | Some shifted \<Rightarrow>
                let result = result OR shifted in
                if \<not> more_bytes byte then Some (result, i + 1)
                else inline_varint (i + 1) (shift + 7) result bs))"

definition decode_inline_varint :: "bytes \<Rightarrow> (u64 \<times> nat) option" where
  "decode_inline_varint = inline_varint 0 0 0"

definition cid_binary_length :: "bytes \<Rightarrow> nat option" where
  "cid_binary_length buf =
     (case decode_inline_varint buf of
        None \<Rightarrow> None
      | Some (version, n1) \<Rightarrow>
          if version \<noteq> 1 then None
          else (case decode_inline_varint (drop n1 buf) of
             None \<Rightarrow> None
           | Some (_, n2) \<Rightarrow>
               (case decode_inline_varint (drop (n1 + n2) buf) of
                  None \<Rightarrow> None
                | Some (_, n3) \<Rightarrow>
                    (case decode_inline_varint (drop (n1 + n2 + n3) buf) of
                       None \<Rightarrow> None
                     | Some (digest_size, n4) \<Rightarrow>
                         let cursor = n1 + n2 + n3 + n4 in
                         if cursor + unat digest_size < 2 ^ 64 then Some (cursor + unat digest_size) else None))))"

section \<open>Header\<close>

record 'c car_header =
  ch_version :: u64
  ch_roots :: "'c list"

definition single_root :: "'c \<Rightarrow> 'c car_header" where
  "single_root root = \<lparr>ch_version = 1, ch_roots = [root]\<rparr>"

definition header_ipld :: "('c, 'h, 'b) external \<Rightarrow> ('c, 'b) car_wire \<Rightarrow> 'c car_header \<Rightarrow> 'c transport_error + 'c ipld" where
  "header_ipld E W h =
     rbind (rmap (\<lambda>c. case cid_from_bytes W (cid_bytes E c) of Some inner \<Rightarrow> Inr (ILink inner) | None \<Rightarrow> Inl TPanic) (ch_roots h))
       (\<lambda>roots. Inr (IMap (fmap_of_list [(''version'', IInteger (uint (ch_version h))), (''roots'', IList roots)])))"

definition to_dagcbor :: "('c, 'h, 'b) external \<Rightarrow> ('c, 'b) car_wire \<Rightarrow> 'c car_header \<Rightarrow> 'c transport_error + bytes" where
  "to_dagcbor E W h =
     rbind (header_ipld E W h) (\<lambda>v.
     rbind (map_err transport_of (to_canonical_bytes E v)) (\<lambda>b. Inr (block_bytes E b)))"

definition header_root :: "('c, 'h, 'b) external \<Rightarrow> ('c, 'b) car_wire \<Rightarrow> 'c ipld \<Rightarrow> 'c transport_error + 'c" where
  "header_root E W x = (case x of ILink c \<Rightarrow> ok_or (cid_from_bytes W (cid_bytes E c)) TCar | _ \<Rightarrow> Inl TCar)"

definition from_dagcbor :: "('c, 'h, 'b) external \<Rightarrow> ('c, 'b) car_wire \<Rightarrow> bytes \<Rightarrow> 'c transport_error + 'c car_header" where
  "from_dagcbor E W bs =
     rbind (map_err transport_of (from_canonical_bytes E Inr (block_of W bs))) (\<lambda>value.
     case value of
       IMap m \<Rightarrow>
         rbind (case fmlookup m ''version'' of
             Some (IInteger n) \<Rightarrow> if 0 \<le> n \<and> n < 2 ^ 64 then Inr (word_of_int n) else Inl TCar
           | _ \<Rightarrow> Inl TCar) (\<lambda>version.
         if version \<noteq> 1 then Inl TCar
         else rbind (case fmlookup m ''roots'' of
             Some (IList xs) \<Rightarrow> rmap (header_root E W) xs
           | _ \<Rightarrow> Inl TCar) (\<lambda>roots. Inr \<lparr>ch_version = version, ch_roots = roots\<rparr>))
     | _ \<Rightarrow> Inl TCar)"

definition MAX_HEADER_BYTES :: nat where "MAX_HEADER_BYTES = 8 * 1024 * 1024"
definition MAX_BLOCK_BYTES :: nat where "MAX_BLOCK_BYTES = 32 * 1024 * 1024"

definition write_header :: "('c, 'h, 'b) external \<Rightarrow> ('c, 'b) car_wire \<Rightarrow> 'c car_header \<Rightarrow> 'c transport_error + bytes" where
  "write_header E W h = rbind (to_dagcbor E W h) (\<lambda>body. Inr (varint_encode W (word_of_nat (length body)) @ body))"

definition read_header :: "('c, 'h, 'b) external \<Rightarrow> ('c, 'b) car_wire \<Rightarrow> (bytes, 'c transport_error, 'c car_header) prog" where
  "read_header E W =
     sbind read_varint_u64 (\<lambda>len.
     if MAX_HEADER_BYTES < unat len then slift (Inl TCar)
     else sbind (read_exact (unat len)) (\<lambda>buf. slift (from_dagcbor E W buf)))"

section \<open>Blocks\<close>

definition write_block :: "('c, 'h, 'b) external \<Rightarrow> ('c, 'b) car_wire \<Rightarrow> 'c \<Rightarrow> bytes \<Rightarrow> bytes" where
  "write_block E W cid data =
     (let cid_bs = cid_bytes E cid; total = length cid_bs + length data in
      varint_encode W (word_of_nat total) @ cid_bs @ data)"

text \<open>The length prefix of a section, whose first byte has been read.\<close>

function block_len :: "u8 \<Rightarrow> nat \<Rightarrow> nat \<Rightarrow> u64 \<Rightarrow> (bytes, 'c transport_error, u64) prog" where
  "block_len byte i shift len =
     (case checked_shl (low7 byte) shift of
        None \<Rightarrow> slift (Inl TCar)
      | Some shifted \<Rightarrow>
          let len = len OR shifted in
          if \<not> more_bytes byte then (if i > 0 \<and> byte = 0 then slift (Inl TCar) else sret len)
          else if 64 \<le> shift + 7 then slift (Inl TCar)
          else sbind read_byte (\<lambda>next_byte.
            case next_byte of
              None \<Rightarrow> slift (Inl TCar)
            | Some next_byte \<Rightarrow> block_len next_byte (i + 1) (shift + 7) len))"
  by pat_completeness auto
termination by (relation "measure (\<lambda>(byte, i, shift, len). 64 - shift)") auto

declare block_len.simps [simp del]

definition split_block :: "('c, 'b) car_wire \<Rightarrow> bytes \<Rightarrow> 'c transport_error + 'c \<times> bytes" where
  "split_block W buf =
     (case cid_binary_length buf of
        None \<Rightarrow> Inl TCar
      | Some cid_len \<Rightarrow>
          if length buf < cid_len then Inl TCar
          else rbind (ok_or (cid_from_bytes W (take cid_len buf)) TCar) (\<lambda>cid. Inr (cid, drop cid_len buf)))"

definition next_block :: "('c, 'b) car_wire \<Rightarrow> (bytes, 'c transport_error, ('c \<times> bytes) option) prog" where
  "next_block W =
     sbind read_byte (\<lambda>first.
     case first of
       None \<Rightarrow> sret None
     | Some byte \<Rightarrow>
         sbind (block_len byte 0 0 0) (\<lambda>len.
         if MAX_BLOCK_BYTES < unat len then slift (Inl TCar)
         else if len = 0 then slift (Inl TCar)
         else sbind (read_exact (unat len)) (\<lambda>buf.
           sbind (slift (split_block W buf)) (\<lambda>block. sret (Some block)))))"

section \<open>Export\<close>

record export_stats =
  ex_blocks :: u64
  ex_bytes :: u64

text \<open>The loop over the walk of the store; the counting writer counts what the blocks added.\<close>

function export_blocks ::
    "('c, 'h, 'b) external \<Rightarrow> ('c, 'b) car_wire \<Rightarrow> ('c, 'b) store \<Rightarrow> 'c reachable_iter \<Rightarrow> u64 \<Rightarrow> u64 \<Rightarrow> bytes
       \<Rightarrow> ('c transport_error + u64 \<times> u64) \<times> bytes" where
  "export_blocks E W bs it blocks count w =
     (case reachable_next E bs it of
        (None, _) \<Rightarrow> (Inr (blocks, count), w)
      | (Some (Inl e), _) \<Rightarrow> (Inl (transport_of e), w)
      | (Some (Inr (cid, data)), it') \<Rightarrow>
          let out = write_block E W cid (block_bytes E data) in
          export_blocks E W bs it' (blocks + 1) (count + word_of_nat (length out)) (w @ out))"
  by pat_completeness auto
termination
  by (relation "measure (\<lambda>(E, W, bs, it, blocks, count, w). pending bs it)") (auto, metis pending_decreases)

declare export_blocks.simps [simp del]

definition export_car ::
    "('c, 'h, 'b) external \<Rightarrow> ('c, 'b) car_wire \<Rightarrow> ('c, 'b) store \<Rightarrow> 'c \<Rightarrow> (bytes, 'c transport_error, export_stats) prog" where
  "export_car E W bs root =
     sbind (slift (write_header E W (single_root root))) (\<lambda>header_buf.
     sbind (\<lambda>w. export_blocks E W bs (reachable_new root) 0 0 (w @ header_buf)) (\<lambda>(blocks, block_bytes).
     sret \<lparr>ex_blocks = blocks, ex_bytes = word_of_nat (length header_buf) + block_bytes\<rparr>))"

section \<open>Import\<close>

record 'c import_stats =
  im_blocks :: u64
  im_bytes :: u64
  im_roots :: "'c list"

definition DEFAULT_MAX_IMPORT_BYTES :: u64 where "DEFAULT_MAX_IMPORT_BYTES = 4 * 1024 * 1024 * 1024"

definition checked_add :: "u64 \<Rightarrow> u64 \<Rightarrow> u64 option" where
  "checked_add a b = (if unat a + unat b < 2 ^ 64 then Some (a + b) else None)"

text \<open>The checks on one block before it is written: the new total of payload bytes, or the error.\<close>

definition check_block ::
    "('c, 'h, 'b) external \<Rightarrow> ('c, 'b) car_wire \<Rightarrow> u64 \<Rightarrow> u64 \<Rightarrow> 'c \<Rightarrow> bytes \<Rightarrow> 'c transport_error + u64" where
  "check_block E W max_total_bytes bytes claimed_cid data =
     rbind (ok_or (recompute_cid E claimed_cid (block_of W data)) (UnsupportedHash (mh_code E (cid_hash E claimed_cid)))) (\<lambda>computed.
     if computed \<noteq> claimed_cid then Inl (TCidMismatch claimed_cid computed)
     else rbind (ok_or (checked_add bytes (word_of_nat (length data))) (SizeLimit max_total_bytes (- 1))) (\<lambda>next_total.
       if max_total_bytes < next_total then Inl (SizeLimit max_total_bytes next_total) else Inr next_total))"

lemma read_byte_Some: "read_byte s = (Inr (Some b), t) \<longleftrightarrow> s = b # t"
  by (auto simp: read_byte_def split: list.splits)

lemma block_len_shrinks:
  "(block_len byte i shift len :: (bytes, 'c transport_error, u64) prog) s = (Inr x, t) \<Longrightarrow> length t \<le> length s"
proof (induction byte i shift len arbitrary: s rule: block_len.induct)
  case (1 byte i shift len)
  note run = "1.prems" [unfolded block_len.simps [of byte i shift len]]
  then obtain shifted where sh: "checked_shl (low7 byte) shift = Some shifted"
    by (auto simp: monad_simps split: option.splits)
  show ?case
  proof (cases "more_bytes byte \<and> \<not> 64 \<le> shift + 7")
    case True
    with run sh obtain b s' where s: "s = b # s'"
      and rec: "(block_len b (i + 1) (shift + 7) (len OR shifted) :: (bytes, 'c transport_error, u64) prog) s' = (Inr x, t)"
      by (auto simp: monad_simps Let_def read_byte_Some split: option.splits)
    have "length t \<le> length s'" using True by (intro "1.IH" [OF sh refl _ _ rec]) auto
    with s show ?thesis by simp
  next
    case False
    with run sh show ?thesis by (auto simp: monad_simps Let_def split: if_splits)
  qed
qed

lemma next_block_shrinks: "next_block W s = (Inr (Some x), t) \<Longrightarrow> length t < length s"
  by (auto simp: next_block_def monad_simps read_byte_Some read_exact_def split: option.splits if_splits
      dest!: block_len_shrinks)

function import_blocks ::
    "('c, 'h, 'b) external \<Rightarrow> ('c, 'b) car_wire \<Rightarrow> u64 \<Rightarrow> u64 \<Rightarrow> u64 \<Rightarrow> 'c fset \<Rightarrow> bytes \<Rightarrow> ('c, 'b) store
       \<Rightarrow> ('c transport_error + u64 \<times> u64 \<times> 'c fset) \<times> ('c, 'b) store" where
  "import_blocks E W max_total_bytes blocks bytes imported r bs =
     (case next_block W r of
        (Inl e, _) \<Rightarrow> (Inl e, bs)
      | (Inr None, _) \<Rightarrow> (Inr (blocks, bytes, imported), bs)
      | (Inr (Some (claimed_cid, data)), r') \<Rightarrow>
          (case check_block E W max_total_bytes bytes claimed_cid data of
             Inl e \<Rightarrow> (Inl e, bs)
           | Inr next_total \<Rightarrow>
               (case bs_put_trusted claimed_cid (block_of W data) bs of
                  (Inl e, bs') \<Rightarrow> (Inl (transport_of e), bs')
                | (Inr _, bs') \<Rightarrow>
                    import_blocks E W max_total_bytes (blocks + 1) next_total (finsert claimed_cid imported) r' bs')))"
  by pat_completeness auto
termination
  by (relation "measure (\<lambda>(E, W, max_total_bytes, blocks, bytes, imported, r, bs). length r)")
     (auto dest: next_block_shrinks [OF sym])

declare import_blocks.simps [simp del]

definition import_with_limit ::
    "('c, 'h, 'b) external \<Rightarrow> ('c, 'b) car_wire \<Rightarrow> bytes \<Rightarrow> u64 \<Rightarrow> (('c, 'b) store, 'c transport_error, 'c import_stats) prog" where
  "import_with_limit E W r max_total_bytes = (\<lambda>bs.
     case read_header E W r of
       (Inl e, _) \<Rightarrow> (Inl e, bs)
     | (Inr header, r') \<Rightarrow>
         (case import_blocks E W max_total_bytes 0 0 {||} r' bs of
            (Inl e, bs') \<Rightarrow> (Inl e, bs')
          | (Inr (blocks, bytes, imported), bs') \<Rightarrow>
              (case find (\<lambda>root. root |\<notin>| imported) (ch_roots header) of
                 Some root \<Rightarrow> (Inl (MissingRoot root), bs')
               | None \<Rightarrow> (Inr \<lparr>im_blocks = blocks, im_bytes = bytes, im_roots = ch_roots header\<rparr>, bs'))))"

definition import_car ::
    "('c, 'h, 'b) external \<Rightarrow> ('c, 'b) car_wire \<Rightarrow> bytes \<Rightarrow> (('c, 'b) store, 'c transport_error, 'c import_stats) prog" where
  "import_car E W r = import_with_limit E W r DEFAULT_MAX_IMPORT_BYTES"

end
