(* ===== verification/Car_Spec.thy ===== *)
theory Car_Spec imports Car begin

text \<open>
  What the CAR reader accepts and what an import leaves behind, and that reading undoes writing: the varint readers
  on \<open>leb128\<close>, a block section, the loop over the sections.
\<close>

unbundle bit_operations_syntax

section \<open>Varints\<close>

lemma word_of_nat_split: "(word_of_nat n :: u64) = word_of_nat (n mod 128) OR push_bit 7 (word_of_nat (n div 128))"
proof -
  have "n mod 128 = take_bit 7 n" "n div 128 = drop_bit 7 n" by (simp_all add: take_bit_eq_mod drop_bit_eq_div)
  then show ?thesis by (intro bit_word_eqI) (auto simp: bit_simps)
qed

lemma push_word_of_nat_split:
  "push_bit k (word_of_nat n :: u64) = push_bit k (word_of_nat (n mod 128)) OR push_bit (k + 7) (word_of_nat (n div 128))"
  by (subst word_of_nat_split) (simp add: push_bit_or push_bit_push_bit)

lemma low7_unat: "low7 b = word_of_nat (unat b mod 128)"
proof -
  have "(0x7F :: u8) = mask 7" by (simp add: mask_eq_exp_minus_1)
  then have "low7 b = word_of_nat (unat (take_bit 7 b))" by (simp only: low7_def take_bit_eq_mask of_nat_unat)
  moreover have "unat (take_bit 7 b) = unat b mod 128" by (simp add: unsigned_take_bit_eq take_bit_eq_mod [of 7 "unat b"])
  ultimately show ?thesis by simp
qed

lemma more_bytes_unat: "more_bytes b \<longleftrightarrow> 128 \<le> unat b"
proof -
  have "(0x80 :: u8) = 2 ^ 7" by simp
  then have "more_bytes b \<longleftrightarrow> bit b 7" unfolding more_bytes_def by (simp only: and_exp_eq_0_iff_not_bit not_not)
  also have "\<dots> \<longleftrightarrow> bit (unat b) 7" by (simp add: bit_unsigned_iff)
  also have "\<dots> \<longleftrightarrow> odd (unat b div 128)" by (simp add: bit_iff_odd)
  also have "\<dots> \<longleftrightarrow> 128 \<le> unat b"
  proof -
    have "unat b < 256" using unsigned_less [of b, where 'a = nat] by simp
    then have "unat b div 128 \<in> {0, 1}" by auto
    then show ?thesis by auto
  qed
  finally show ?thesis .
qed

lemma leb128_Cons: "leb128 n \<noteq> []"
  by (subst leb128.simps) simp

lemma unat_septet: "n < 128 \<Longrightarrow> unat (word_of_nat n :: u8) = n" "n < 128 \<Longrightarrow> unat (word_of_nat (n + 128) :: u8) = n + 128"
  by (simp_all add: unat_of_nat del: of_nat_add)

lemma varint_loop_Cons:
  assumes "shift < 64"
  shows "varint_loop (Suc k) i shift result (b # s) =
    (if more_bytes b then varint_loop k (Suc i) (shift + 7) (result OR push_bit shift (low7 b)) s
     else if i > 0 \<and> b = 0 then (Inl TCar, s) else (Inr (result OR push_bit shift (low7 b)), s))"
  using assms by (simp add: sbind_def read_byte_def checked_shl_def slift_def sret_def Let_def)

lemma varint_loop_Nil: "varint_loop k i shift result [] = (Inl TCar, [])"
  by (cases k) (simp_all add: sbind_def read_byte_def slift_def)

declare varint_loop.simps(2) [simp del]

lemma varint_loop_reads:
  assumes "length (leb128 n) \<le> k" and "shift + 7 * length (leb128 n) \<le> 70" and "i > 0 \<longrightarrow> n > 0"
  shows "(varint_loop k i shift result :: (bytes, 'c transport_error, u64) prog) (leb128 n @ rest) = (Inr (result OR push_bit shift (word_of_nat n)), rest)"
  using assms
proof (induction n arbitrary: k i shift result rule: leb128.induct)
  case (1 n)
  obtain k' where k: "k = Suc k'" using "1.prems"(1) leb128_Cons [of n] by (cases k) auto
  show ?case
  proof (cases "n < 128")
    case True
    then have l: "leb128 n = [word_of_nat n]" by (subst leb128.simps) simp
    have z: "(word_of_nat n :: u8) = 0 \<longleftrightarrow> n = 0" using unat_septet(1) [OF True] by (simp flip: unat_eq_zero)
    have b: "\<not> more_bytes (word_of_nat n)" "low7 (word_of_nat n) = word_of_nat n"
      using True by (simp_all add: more_bytes_unat low7_unat unat_septet)
    have "shift < 64" using "1.prems"(2) by (simp add: l)
    then show ?thesis using "1.prems"(3) by (auto simp: k l varint_loop_Cons b z)
  next
    case False
    let ?b = "word_of_nat (n mod 128 + 128) :: u8"
    have l: "leb128 n = ?b # leb128 (n div 128)" using False by (subst leb128.simps) simp
    have u: "unat ?b = n mod 128 + 128" by (rule unat_septet) simp
    have "0 < n div 128" using False by simp
    then have "(varint_loop k' (Suc i) (shift + 7) (result OR push_bit shift (low7 ?b)) :: (bytes, 'c transport_error, u64) prog)
        (leb128 (n div 128) @ rest) =
        (Inr ((result OR push_bit shift (low7 ?b)) OR push_bit (shift + 7) (word_of_nat (n div 128))), rest)"
      using "1.prems" by (intro "1.IH" [OF False]) (simp_all add: k l)
    moreover have "low7 ?b = word_of_nat (n mod 128)" by (simp add: low7_unat u del: of_nat_add)
    moreover have "length (leb128 (n div 128)) > 0" using leb128_Cons by simp
    then have "shift < 64" using "1.prems"(2) by (simp add: l)
    ultimately show ?thesis
      by (simp add: k l varint_loop_Cons more_bytes_unat u push_word_of_nat_split [of shift n] or.assoc del: of_nat_add)
  qed
qed

lemma leb128_of_bytes:
  assumes "(varint_loop k i shift result :: (bytes, 'c transport_error, u64) prog) s = (Inr v, rest)" and "shift + 7 * k \<le> 70"
  shows "\<exists>n. s = leb128 n @ rest \<and> length (leb128 n) \<le> k \<and> (i > 0 \<longrightarrow> n > 0)"
  using assms
proof (induction k arbitrary: i shift result s)
  case 0
  then show ?case by (simp add: slift_def)
next
  case (Suc k)
  from Suc.prems(1) obtain b s' where s: "s = b # s'"
    by (cases s) (auto simp: varint_loop_Nil)
  have sh: "shift < 64" using Suc.prems(2) by simp
  note run = Suc.prems(1) [unfolded s varint_loop_Cons [OF sh]]
  show ?case
  proof (cases "more_bytes b")
    case False
    then have b: "unat b < 128" by (simp add: more_bytes_unat)
    then have "leb128 (unat b) = [b]" by (subst leb128.simps) simp
    with run False show ?thesis by (intro exI [of _ "unat b"]) (auto simp: s unat_gt_0 split: if_splits)
  next
    case True
    with run have "(varint_loop k (Suc i) (shift + 7) (result OR push_bit shift (low7 b)) :: (bytes, 'c transport_error, u64) prog) s'
        = (Inr v, rest)" by simp
    from Suc.IH [OF this] Suc.prems(2) obtain n where n: "s' = leb128 n @ rest" "length (leb128 n) \<le> k" "n > 0" by auto
    have "128 \<le> unat b" "unat b < 256"
      using True unsigned_less [of b, where 'a = nat] by (simp_all add: more_bytes_unat)
    then obtain x where x: "unat b = x + 128" "x < 128" using le_Suc_ex by (metis add.commute add_less_cancel_right numeral_Bit0)
    let ?m = "x + 128 * n"
    have m: "?m mod 128 = x" "?m div 128 = n" "\<not> ?m < 128" using n(3) x(2) by simp_all
    have "word_of_nat (x + 128) = b" by (metis x(1) of_nat_unat ucast_id)
    then have "leb128 ?m = b # leb128 n" by (subst leb128.simps) (simp only: m if_False)
    with n show ?thesis by (intro exI [of _ ?m]) (simp add: s)
  qed
qed

lemma length_leb128: "length (leb128 n) \<le> Suc k \<longleftrightarrow> n < 128 ^ Suc k"
proof (induction k arbitrary: n)
  case 0
  show ?case by (subst leb128.simps) (simp add: leb128_Cons)
next
  case (Suc k)
  have "n div 128 < 128 ^ Suc k \<longleftrightarrow> n < 128 * 128 ^ Suc k" by (simp add: div_less_iff_less_mult mult.commute)
  then show ?case using Suc.IH [of "n div 128"] by (subst leb128.simps) auto
qed

text \<open>\<open>read_varint_u64\<close> accepts the encodings of the numbers below \<open>2 ^ 70\<close> and returns them modulo \<open>2 ^ 64\<close>.\<close>

lemma read_varint_iff:
  "(read_varint_u64 :: (bytes, 'c transport_error, u64) prog) s = (Inr v, rest) \<longleftrightarrow> (\<exists>n < 2 ^ 70. s = leb128 n @ rest \<and> v = word_of_nat n)"
proof
  assume run: "(read_varint_u64 :: (bytes, 'c transport_error, u64) prog) s = (Inr v, rest)"
  then obtain n where n: "s = leb128 n @ rest" "length (leb128 n) \<le> 10"
    using leb128_of_bytes [of 10 0 0 0 s v rest] by (auto simp: read_varint_u64_def)
  then have "(varint_loop 10 0 0 0 :: (bytes, 'c transport_error, u64) prog) s = (Inr (word_of_nat n), rest)" using varint_loop_reads [of n 10 0 0 0 rest] by simp
  then have "v = word_of_nat n" using run by (simp add: read_varint_u64_def)
  moreover have "n < 2 ^ 70" using n(2) length_leb128 [of n 9] by simp
  ultimately show "\<exists>n < 2 ^ 70. s = leb128 n @ rest \<and> v = word_of_nat n" using n(1) by blast
next
  assume "\<exists>n < 2 ^ 70. s = leb128 n @ rest \<and> v = word_of_nat n"
  then obtain n where n: "n < 2 ^ 70" "s = leb128 n @ rest" "v = word_of_nat n" by blast
  have "length (leb128 n) \<le> 10" using n(1) length_leb128 [of n 9] by simp
  then show "(read_varint_u64 :: (bytes, 'c transport_error, u64) prog) s = (Inr v, rest)"
    using varint_loop_reads [of n 10 0 0 0 rest] by (simp add: read_varint_u64_def n(2,3))
qed

lemma leb128_u64: "length (leb128 (unat (v :: u64))) \<le> 10"
  using unsigned_less [of v, where 'a = nat] length_leb128 [of "unat v" 9] by simp

lemma inline_varint_reads:
  assumes "i + length (leb128 n) \<le> 10" and "shift + 7 * length (leb128 n) \<le> 70"
  shows "inline_varint i shift result (leb128 n @ rest) = Some (result OR push_bit shift (word_of_nat n), i + length (leb128 n))"
  using assms
proof (induction n arbitrary: i shift result rule: leb128.induct)
  case (1 n)
  have "1 \<le> length (leb128 n)" by (simp add: Suc_le_eq leb128_Cons)
  then have sh: "shift < 64" "i < 10" using "1.prems" by linarith+
  show ?case
  proof (cases "n < 128")
    case True
    then have l: "leb128 n = [word_of_nat n]" by (subst leb128.simps) simp
    have "\<not> more_bytes (word_of_nat n)" "low7 (word_of_nat n) = word_of_nat n"
      using True by (simp_all add: more_bytes_unat low7_unat unat_septet)
    then show ?thesis using sh by (simp add: l checked_shl_def Let_def)
  next
    case False
    let ?b = "word_of_nat (n mod 128 + 128) :: u8"
    have l: "leb128 n = ?b # leb128 (n div 128)" using False by (subst leb128.simps) simp
    have u: "unat ?b = n mod 128 + 128" by (rule unat_septet) simp
    have b: "low7 ?b = word_of_nat (n mod 128)" "more_bytes ?b" by (simp_all add: low7_unat more_bytes_unat u del: of_nat_add)
    have "inline_varint (Suc i) (shift + 7) (result OR push_bit shift (low7 ?b)) (leb128 (n div 128) @ rest) =
        Some ((result OR push_bit shift (low7 ?b)) OR push_bit (shift + 7) (word_of_nat (n div 128)), Suc i + length (leb128 (n div 128)))"
      using "1.prems" by (intro "1.IH" [OF False]) (simp_all add: l)
    then show ?thesis
      using sh by (simp add: l b checked_shl_def Let_def push_word_of_nat_split [of shift n] or.assoc del: of_nat_add)
  qed
qed

lemma decode_inline_varint_leb128:
  "decode_inline_varint (leb128 (unat (v :: u64)) @ rest) = Some (v, length (leb128 (unat v)))"
  using inline_varint_reads [of 0 "unat v" 0 0 rest] leb128_u64 [of v]
  by (simp add: decode_inline_varint_def)

lemma block_len_eq:
  fixes s :: bytes
  assumes "i < 10"
  shows "(block_len b i (7 * i) len :: (bytes, 'c transport_error, u64) prog) s = varint_loop (10 - i) i (7 * i) len (b # s)"
  using assms
proof (induction "10 - i" arbitrary: i b len s)
  case 0
  then show ?case by simp
next
  case (Suc k)
  have d: "10 - i = Suc (9 - i)" and sh: "7 * i < 64" using Suc.prems by simp_all
  note L = varint_loop_Cons [OF sh, of "9 - i" i len b s, folded d]
  show ?case
  proof (cases "more_bytes b \<and> i < 9")
    case True
    have IH: "(block_len c (Suc i) (7 * i + 7) len' :: (bytes, 'c transport_error, u64) prog) s'
        = varint_loop (9 - i) (Suc i) (7 * i + 7) len' (c # s')" for c len' s'
      using Suc.hyps(1) [of "Suc i" c len' s'] Suc.hyps(2) True by (simp add: add.commute)
    show ?thesis
      unfolding L using True sh IH
      by (subst block_len.simps)
         (cases s; simp add: checked_shl_def Let_def sbind_def read_byte_def slift_def varint_loop_Nil)
  next
    case False
    show ?thesis
      unfolding L using False sh Suc.prems
      by (subst block_len.simps) (auto simp: checked_shl_def Let_def slift_def sret_def)
  qed
qed

lemma unat_u64: "n < 2 ^ 64 \<Longrightarrow> unat (word_of_nat n :: u64) = n"
  by (simp add: unat_of_nat)

section \<open>Block sections\<close>

text \<open>Documented behaviour of the crates behind \<open>car_wire\<close>: varints are LEB128, the binary form of a CID is that of CID
  version 1 and reads back, and converting the bytes of a block gives the block.\<close>

definition cid_layout :: "('c, 'h, 'b) external \<Rightarrow> 'c \<Rightarrow> bool" where
  "cid_layout E c \<longleftrightarrow>
     (\<exists>digest. length digest < 2 ^ 32 \<and>
       cid_bytes E c = leb128 1 @ leb128 (unat (cid_codec E c)) @ leb128 (unat (mh_code E (cid_hash E c)))
         @ leb128 (length digest) @ digest)"

definition car_laws :: "('c, 'h, 'b) external \<Rightarrow> ('c, 'b) car_wire \<Rightarrow> bool" where
  "car_laws E W \<longleftrightarrow>
     (\<forall>v. varint_encode W v = leb128 (unat v)) \<and>
     (\<forall>c. cid_layout E c \<and> cid_from_bytes W (cid_bytes E c) = Some c) \<and>
     (\<forall>b. block_of W (block_bytes E b) = b)"

lemma cid_binary_length_layout:
  assumes "cid_layout E c"
  shows "cid_binary_length (cid_bytes E c @ data) = Some (length (cid_bytes E c))"
proof -
  obtain d where d: "length d < 2 ^ 32"
    and c: "cid_bytes E c = leb128 1 @ leb128 (unat (cid_codec E c)) @ leb128 (unat (mh_code E (cid_hash E c))) @ leb128 (length d) @ d"
    using assms by (auto simp: cid_layout_def)
  have u: "unat (word_of_nat (length d) :: u64) = length d" by (rule unat_u64) (use d in simp)
  have one: "decode_inline_varint (leb128 (Suc 0) @ rest) = Some (1, length (leb128 (Suc 0)))" for rest
    using decode_inline_varint_leb128 [of 1 rest] by simp
  have len: "decode_inline_varint (leb128 (length d) @ rest) = Some (word_of_nat (length d), length (leb128 (length d)))" for rest
    using decode_inline_varint_leb128 [of "word_of_nat (length d)" rest] by (simp add: u)
  have "length (leb128 1) \<le> 10" "length (leb128 (length d)) \<le> 10"
    using leb128_u64 [of 1] leb128_u64 [of "word_of_nat (length d)"] by (simp_all add: u)
  then have small: "length (leb128 1) + length (leb128 (unat (cid_codec E c))) + length (leb128 (unat (mh_code E (cid_hash E c))))
      + length (leb128 (length d)) + length d < 2 ^ 64"
    using d leb128_u64 [of "cid_codec E c"] leb128_u64 [of "mh_code E (cid_hash E c)"] by simp
  show ?thesis
    using small by (simp add: cid_binary_length_def c one len decode_inline_varint_leb128 u Let_def add.assoc)
qed

lemma split_block_section:
  assumes "car_laws E W"
  shows "split_block W (cid_bytes E c @ data) = Inr (c, data)"
  using assms cid_binary_length_layout [of E c data] by (simp add: split_block_def car_laws_def ok_or_def)

definition section_size :: "('c, 'h, 'b) external \<Rightarrow> 'c \<times> 'b \<Rightarrow> nat" where
  "section_size E item = length (cid_bytes E (fst item)) + length (block_bytes E (snd item))"

lemma cid_bytes_nonempty: "cid_layout E c \<Longrightarrow> cid_bytes E c \<noteq> []"
  by (auto simp: cid_layout_def leb128_Cons)

lemma next_block_section:
  fixes c :: 'c
  assumes "car_laws E W" and "section_size E (c, b) \<le> MAX_BLOCK_BYTES"
  shows "next_block W (write_block E W c (block_bytes E b) @ rest) = (Inr (Some (c, block_bytes E b)), rest)"
proof -
  let ?n = "section_size E (c, b)"
  have pos: "0 < ?n" using assms(1) cid_bytes_nonempty [of E c] by (simp add: car_laws_def section_size_def)
  have n: "?n < 2 ^ 64" using assms(2) by (simp add: MAX_BLOCK_BYTES_def)
  have u: "unat (word_of_nat ?n :: u64) = ?n" by (rule unat_u64 [OF n])
  have w: "write_block E W c (block_bytes E b) = leb128 ?n @ cid_bytes E c @ block_bytes E b"
    using assms(1) u by (simp add: write_block_def car_laws_def section_size_def Let_def)
  obtain x xs where l: "leb128 ?n = x # xs" using leb128_Cons [of ?n] by (cases "leb128 ?n") auto
  have len: "length (leb128 ?n) \<le> 10" using leb128_u64 [of "word_of_nat ?n"] u by simp
  have "(block_len x 0 0 0 :: (bytes, 'c transport_error, u64) prog) (xs @ cid_bytes E c @ block_bytes E b @ rest) = (Inr (word_of_nat ?n), cid_bytes E c @ block_bytes E b @ rest)"
  proof -
    have "(varint_loop 10 0 0 0 :: (bytes, 'c transport_error, u64) prog) (leb128 ?n @ cid_bytes E c @ block_bytes E b @ rest) =
        (Inr (0 OR push_bit 0 (word_of_nat ?n)), cid_bytes E c @ block_bytes E b @ rest)"
      by (rule varint_loop_reads) (use len in simp_all)
    then show ?thesis using block_len_eq [where i = 0 and b = x and len = 0 and 'c = 'c] by (simp add: l)
  qed
  moreover have "take ?n (cid_bytes E c @ block_bytes E b @ rest) = cid_bytes E c @ block_bytes E b"
    "drop ?n (cid_bytes E c @ block_bytes E b @ rest) = rest" by (simp_all add: section_size_def)
  moreover have "?n \<le> length (cid_bytes E c @ block_bytes E b @ rest)" by (simp add: section_size_def)
  moreover have "(word_of_nat ?n :: u64) \<noteq> 0" using u pos by (metis unsigned_0 less_irrefl)
  ultimately show ?thesis
    using assms(2) u
    by (simp add: next_block_def w l sbind_def read_byte_def read_exact_def slift_def sret_def split_block_section [OF assms(1)])
qed

lemma next_block_end: "next_block W [] = (Inr None, [])"
  by (simp add: next_block_def sbind_def read_byte_def sret_def)

section \<open>Export\<close>

definition sections :: "('c, 'h, 'b) external \<Rightarrow> ('c, 'b) car_wire \<Rightarrow> ('c \<times> 'b) list \<Rightarrow> bytes" where
  "sections E W items = concat (map (\<lambda>(c, b). write_block E W c (block_bytes E b)) items)"

lemma iter_collect_extends: "iter_collect E bs it out = Inr all \<Longrightarrow> \<exists>items. all = out @ items"
proof (induction E bs it out rule: iter_collect.induct)
  case (1 E bs it out)
  obtain r it' where n: "reachable_next E bs it = (r, it')" by fastforce
  with "1.prems" "1.IH" [OF n [symmetric]] show ?case
    by (auto simp: iter_collect.simps [of E bs it] split: option.splits sum.splits)
qed

lemma export_blocks_run:
  assumes "iter_collect E bs it out = Inr (out @ items)"
  shows "export_blocks E W bs it blocks count w =
    (Inr (blocks + word_of_nat (length items), count + word_of_nat (length (sections E W items))), w @ sections E W items)"
  using assms
proof (induction E W bs it blocks count w arbitrary: out items rule: export_blocks.induct)
  case (1 E W bs it blocks count w)
  obtain r it' where n: "reachable_next E bs it = (r, it')" by fastforce
  show ?case
  proof (cases r)
    case None
    with "1.prems" n show ?thesis
      by (simp add: iter_collect.simps [of E bs it] export_blocks.simps [of E W bs it] sections_def)
  next
    case (Some y)
    with "1.prems" n obtain c b where y: "y = Inr (c, b)" and rec: "iter_collect E bs it' (out @ [(c, b)]) = Inr (out @ items)"
      by (cases y) (auto simp: iter_collect.simps [of E bs it])
    from iter_collect_extends [OF rec] obtain items' where items: "items = (c, b) # items'" by auto
    from rec have rec': "iter_collect E bs it' (out @ [(c, b)]) = Inr ((out @ [(c, b)]) @ items')" by (simp add: items)
    have "export_blocks E W bs it' (blocks + 1) (count + word_of_nat (length (write_block E W c (block_bytes E b))))
        (w @ write_block E W c (block_bytes E b)) =
      (Inr (blocks + 1 + word_of_nat (length items'),
        count + word_of_nat (length (write_block E W c (block_bytes E b))) + word_of_nat (length (sections E W items'))),
       (w @ write_block E W c (block_bytes E b)) @ sections E W items')"
      using n Some y by (intro "1.IH" [OF _ _ _ refl _ rec']) auto
    then show ?thesis
      using n Some y by (simp add: export_blocks.simps [of E W bs it] items sections_def Let_def add.assoc)
  qed
qed

lemma export_car_run:
  assumes "export_car E W src root w0 = (Inr st, w)"
  shows "\<exists>header items. write_header E W (single_root root) = Inr header \<and> iter_from_root E src root = Inr items
    \<and> w = w0 @ header @ sections E W items
    \<and> st = \<lparr>ex_blocks = word_of_nat (length items), ex_bytes = word_of_nat (length (header @ sections E W items))\<rparr>"
proof -
  obtain header where h: "write_header E W (single_root root) = Inr header"
    using assms by (auto simp: export_car_def monad_simps)
  have "\<exists>items. iter_collect E src it out = Inr (out @ items)"
    if "export_blocks E W src it blocks count u = (Inr x, u')" for it out blocks count u x u'
    using that
  proof (induction E W src it blocks count u arbitrary: out rule: export_blocks.induct)
    case (1 E W src it blocks count u)
    obtain r it' where n: "reachable_next E src it = (r, it')" by fastforce
    show ?case
    proof (cases r)
      case None
      with n show ?thesis by (simp add: iter_collect.simps [of E src it])
    next
      case (Some y)
      with "1.prems" n obtain c b where y: "y = Inr (c, b)"
        by (auto simp: export_blocks.simps [of E W src it] split: sum.splits)
      have "\<exists>items. iter_collect E src it' (out @ [(c, b)]) = Inr ((out @ [(c, b)]) @ items)"
        using "1.prems" n Some y
        by (intro "1.IH" [of r it' y "(c, b)" c b "write_block E W c (block_bytes E b)"])
           (simp_all add: export_blocks.simps [of E W src it] Let_def)
      then show ?thesis using n Some y by (auto simp: iter_collect.simps [of E src it])
    qed
  qed
  then obtain items where items: "iter_from_root E src root = Inr items"
    using assms h unfolding iter_from_root_def export_car_def by (auto simp: monad_simps) (metis append_Nil)
  then have "export_blocks E W src (reachable_new root) 0 0 (w0 @ header) =
      (Inr (word_of_nat (length items), word_of_nat (length (sections E W items))), (w0 @ header) @ sections E W items)"
    using export_blocks_run [of E src "reachable_new root" "[]" items] by (simp add: iter_from_root_def)
  with assms h items show ?thesis
    by (intro exI [of _ header] exI [of _ items]) (auto simp: export_car_def monad_simps)
qed

section \<open>Header\<close>

lemma header_ipld_roots:
  assumes "car_laws E W"
  shows "header_ipld E W h = Inr (IMap (fmap_of_list [(''version'', IInteger (uint (ch_version h))), (''roots'', IList (map ILink (ch_roots h)))]))"
proof -
  have c: "cid_from_bytes W (cid_bytes E c) = Some c" for c using assms by (simp add: car_laws_def)
  have "rmap (\<lambda>c. case cid_from_bytes W (cid_bytes E c) of Some inner \<Rightarrow> Inr (ILink inner) | None \<Rightarrow> Inl TPanic) cs =
      (Inr (map ILink cs) :: 'a transport_error + 'a ipld list)" for cs
    by (induction cs) (simp_all add: c)
  then show ?thesis by (simp add: header_ipld_def)
qed

lemma header_roots_read:
  assumes "car_laws E W"
  shows "rmap (header_root E W) (map ILink cs) = Inr cs"
proof -
  have "cid_from_bytes W (cid_bytes E c) = Some c" for c using assms by (simp add: car_laws_def)
  then show ?thesis by (induction cs) (simp_all add: header_root_def ok_or_def)
qed

lemma read_header_written:
  assumes laws: "car_laws E W" and rt: "codec_roundtrip E"
    and w: "write_header E W h = Inr header" and small: "length header \<le> MAX_HEADER_BYTES" and v1: "ch_version h = 1"
  shows "read_header E W (header @ rest) = (Inr h, rest)"
proof -
  have block: "block_of W (block_bytes E b) = b" for b
    using laws by (simp_all add: car_laws_def)
  let ?v = "IMap (fmap_of_list [(''version'', IInteger 1), (''roots'', IList (map ILink (ch_roots h)))]) :: 'a ipld"
  have v: "header_ipld E W h = Inr ?v"
    by (simp add: header_ipld_roots [OF laws] v1)
  from w obtain b where b: "enc E ?v = Some b" and h: "header = varint_encode W (word_of_nat (length (block_bytes E b))) @ block_bytes E b"
    by (auto simp: write_header_def to_dagcbor_def v to_canonical_bytes_def monad_simps)
  have d: "from_dagcbor E W (block_bytes E b) = Inr h"
    using b rt v1
    by (simp add: from_dagcbor_def block from_canonical_bytes_def codec_roundtrip_def header_roots_read [OF laws])
  have len: "length (block_bytes E b) < 2 ^ 64" "length (block_bytes E b) \<le> MAX_HEADER_BYTES"
    using small by (simp_all add: h MAX_HEADER_BYTES_def)
  have "(read_varint_u64 :: (bytes, 'a transport_error, u64) prog) (header @ rest) = (Inr (word_of_nat (length (block_bytes E b))), block_bytes E b @ rest)"
    unfolding read_varint_iff using laws len(1) by (intro exI [of _ "length (block_bytes E b)"]) (simp add: h car_laws_def unat_u64)
  then show ?thesis using len d by (simp add: read_header_def sbind_def slift_def read_exact_def unat_u64)
qed

section \<open>Import\<close>

definition payload :: "('c, 'h, 'b) external \<Rightarrow> ('c \<times> 'b) list \<Rightarrow> nat" where
  "payload E items = (\<Sum>(c, b) \<leftarrow> items. length (block_bytes E b))"

lemma check_block_ok:
  assumes "recompute_cid E c (block_of W data) = Some c" and "unat bytes + length data \<le> unat limit"
  shows "check_block E W limit bytes c data = Inr (bytes + word_of_nat (length data))"
    and "unat (bytes + word_of_nat (length data)) = unat bytes + length data"
proof -
  have lt: "unat bytes + length data < 2 ^ 64" using assms(2) unsigned_less [of limit, where 'a = nat] by simp
  then have u: "unat (word_of_nat (length data) :: u64) = length data" by (intro unat_u64) simp
  with lt show s: "unat (bytes + word_of_nat (length data)) = unat bytes + length data"
    by (simp add: unat_word_ariths)
  show "check_block E W limit bytes c data = Inr (bytes + word_of_nat (length data))"
    using assms lt u s by (simp add: check_block_def checked_add_def rbind_def word_less_nat_alt)
qed

lemma import_blocks_sections:
  assumes "car_laws E W"
    and "\<And>c b. (c, b) \<in> set items \<Longrightarrow> recompute_cid E c b = Some c \<and> section_size E (c, b) \<le> MAX_BLOCK_BYTES"
    and "unat bytes + payload E items \<le> unat limit"
  shows "import_blocks E W limit blocks bytes imported (sections E W items @ rest) bs =
    import_blocks E W limit (blocks + word_of_nat (length items)) (bytes + word_of_nat (payload E items))
      (imported |\<union>| fset_of_list (map fst items)) rest (fold (\<lambda>(c, b). fmupd c b) items bs)"
  using assms(2,3)
proof (induction items arbitrary: blocks bytes imported bs)
  case Nil
  then show ?case by (simp add: sections_def payload_def)
next
  case (Cons item items)
  obtain c b where item: "item = (c, b)" by fastforce
  have ok: "recompute_cid E c b = Some c" "section_size E (c, b) \<le> MAX_BLOCK_BYTES"
    using Cons.prems(1) item by auto
  have next1: "next_block W (sections E W (item # items) @ rest) = (Inr (Some (c, block_bytes E b)), sections E W items @ rest)"
    using next_block_section [OF assms(1) ok(2), of "sections E W items @ rest"] by (simp add: sections_def item)
  have blk: "block_of W (block_bytes E b) = b" using assms(1) by (simp add: car_laws_def)
  let ?bytes = "bytes + word_of_nat (length (block_bytes E b))"
  have "unat bytes + length (block_bytes E b) \<le> unat limit" using Cons.prems(2) by (simp add: payload_def item)
  note check = check_block_ok [where W = W and E = E and c = c and data = "block_bytes E b", unfolded blk, OF ok(1) this]
  have "import_blocks E W limit (blocks + 1) ?bytes (finsert c imported) (sections E W items @ rest) (fmupd c b bs) =
    import_blocks E W limit (blocks + 1 + word_of_nat (length items)) (?bytes + word_of_nat (payload E items))
      (finsert c imported |\<union>| fset_of_list (map fst items)) rest (fold (\<lambda>(c, b). fmupd c b) items (fmupd c b bs))"
    using Cons.prems check(2) by (intro Cons.IH) (simp_all add: payload_def item)
  then show ?case
    using next1 check(1)
    by (simp add: import_blocks.simps [of E W limit blocks] bs_put_trusted_def blk item payload_def add.assoc)
qed

lemma import_blocks_end: "import_blocks E W limit blocks bytes imported [] bs = (Inr (blocks, bytes, imported), bs)"
  by (simp add: import_blocks.simps next_block_end)

definition transferable :: "('c, 'h, 'b) external \<Rightarrow> ('c \<times> 'b) list \<Rightarrow> u64 \<Rightarrow> bool" where
  "transferable E items limit \<longleftrightarrow>
     (\<forall>(c, b) \<in> set items. recompute_cid E c b = Some c \<and> section_size E (c, b) \<le> MAX_BLOCK_BYTES) \<and>
     payload E items \<le> unat limit"

lemma import_sections:
  assumes laws: "car_laws E W" and rt: "codec_roundtrip E"
    and w: "write_header E W h = Inr header" and small: "length header \<le> MAX_HEADER_BYTES" and v1: "ch_version h = 1"
    and roots: "set (ch_roots h) \<subseteq> set (map fst items)" and ok: "transferable E items limit"
  shows "import_with_limit E W (header @ sections E W items) limit dst =
    (Inr \<lparr>im_blocks = word_of_nat (length items), im_bytes = word_of_nat (payload E items), im_roots = ch_roots h\<rparr>,
     fold (\<lambda>(c, b). fmupd c b) items dst)"
proof -
  have run: "import_blocks E W limit 0 0 {||} (sections E W items @ rest) dst =
    import_blocks E W limit (0 + word_of_nat (length items)) (0 + word_of_nat (payload E items)) ({||} |\<union>| fset_of_list (map fst items))
      rest (fold (\<lambda>(c, b). fmupd c b) items dst)" for rest
    using ok by (intro import_blocks_sections [OF laws]) (auto simp: transferable_def)
  have "root |\<in>| fset_of_list (map fst items)" if "root \<in> set (ch_roots h)" for root
    using roots that by (simp only: fset_of_list_elem) blast
  then have "find (\<lambda>root. root |\<notin>| fset_of_list (map fst items)) (ch_roots h) = None"
    by (auto simp: find_None_iff)
  then show ?thesis using run [of "[]"]
    by (simp add: import_blocks_end import_with_limit_def read_header_written [OF laws rt w small v1])
qed

lemma import_exported:
  assumes laws: "car_laws E W" and rt: "codec_roundtrip E"
    and w: "write_header E W (single_root root) = Inr header" and small: "length header \<le> MAX_HEADER_BYTES"
    and walk: "iter_from_root E src root = Inr items" and ok: "transferable E items limit"
  shows "import_with_limit E W (header @ sections E W items) limit dst =
    (Inr \<lparr>im_blocks = word_of_nat (length items), im_bytes = word_of_nat (payload E items), im_roots = [root]\<rparr>,
     fold (\<lambda>(c, b). fmupd c b) items dst)"
proof -
  have "root \<in> set (map fst items)" using iter_from_root_yields(2) [OF walk] by simp
  then show ?thesis
    using import_sections [OF laws rt w small _ _ ok] by (simp add: single_root_def)
qed

text \<open>A block whose bytes do not hash to its CID stops the import; what came before it has been stored.\<close>

lemma import_tampered:
  assumes laws: "car_laws E W" and rt: "codec_roundtrip E"
    and w: "write_header E W (single_root root) = Inr header" and small: "length header \<le> MAX_HEADER_BYTES"
    and ok: "transferable E items limit" and bad: "recompute_cid E c b = Some d" "d \<noteq> c" "section_size E (c, b) \<le> MAX_BLOCK_BYTES"
  shows "import_with_limit E W (header @ sections E W items @ write_block E W c (block_bytes E b) @ rest) limit dst =
    (Inl (TCidMismatch c d), fold (\<lambda>(c, b). fmupd c b) items dst)"
proof -
  have blk: "block_of W (block_bytes E b) = b" using laws by (simp add: car_laws_def)
  have "import_blocks E W limit 0 0 {||} (sections E W items @ write_block E W c (block_bytes E b) @ rest) dst =
    import_blocks E W limit (0 + word_of_nat (length items)) (0 + word_of_nat (payload E items)) ({||} |\<union>| fset_of_list (map fst items))
      (write_block E W c (block_bytes E b) @ rest) (fold (\<lambda>(c, b). fmupd c b) items dst)"
    using ok by (intro import_blocks_sections [OF laws]) (auto simp: transferable_def)
  also have "\<dots> = (Inl (TCidMismatch c d), fold (\<lambda>(c, b). fmupd c b) items dst)"
    using bad by (subst import_blocks.simps) (simp add: next_block_section [OF laws bad(3)] check_block_def blk rbind_def)
  finally show ?thesis by (simp add: import_with_limit_def read_header_written [OF laws rt w small] single_root_def)
qed

lemma bs_get_imported:
  assumes walk: "iter_from_root E src root = Inr items"
  shows "bs_get (fold (\<lambda>(c, b). fmupd c b) items dst) c =
    (if (links_to E src)\<^sup>*\<^sup>* root c then bs_get src c else bs_get dst c)"
proof (cases "(links_to E src)\<^sup>*\<^sup>* root c")
  case True
  then have "c \<in> set (map fst items)" using iter_from_root_yields(2) [OF walk] by simp
  then obtain b where b: "(c, b) \<in> set items" by auto
  then have "map_of (rev items) c = Some b"
    using iter_from_root_yields(1) [OF walk] by (intro map_of_is_SomeI) (simp_all add: rev_map [symmetric])
  then show ?thesis using True iter_from_root_yields(3) [OF walk b] by (simp add: mem.look_writes)
next
  case False
  then have "c \<notin> set (map fst items)" using iter_from_root_yields(2) [OF walk] by simp
  then have "map_of (rev items) c = None" by (auto simp: map_of_eq_None_iff)
  then show ?thesis using False by (simp add: mem.look_writes)
qed

subsection \<open>Whatever the archive holds\<close>

definition verified_growth :: "('c, 'h, 'b) external \<Rightarrow> ('c, 'b) store \<Rightarrow> ('c, 'b) store \<Rightarrow> bool" where
  "verified_growth E bs bs' \<longleftrightarrow>
     (\<forall>c b. bs_get bs' c = Some b \<longrightarrow> bs_get bs c = Some b \<or> recompute_cid E c b = Some c) \<and>
     (\<forall>c. bs_get bs c \<noteq> None \<longrightarrow> bs_get bs' c \<noteq> None)"

lemma verified_growth_refl: "verified_growth E bs bs"
  by (simp add: verified_growth_def)

lemma verified_growth_upd:
  "recompute_cid E c b = Some c \<Longrightarrow> verified_growth E (fmupd c b bs) bs' \<Longrightarrow> verified_growth E bs bs'"
  by (auto simp: verified_growth_def bs_get_def split: if_splits)

lemma verified_growth_content_addressed:
  "verified_growth E bs bs' \<Longrightarrow> content_addressed E bs \<Longrightarrow> content_addressed E bs'"
  unfolding verified_growth_def content_addressed_def by (metis option.inject)

lemma check_block_Inr:
  assumes "check_block E W limit bytes c data = Inr tot"
  shows "recompute_cid E c (block_of W data) = Some c" and "unat tot \<le> unat limit"
  using assms by (auto simp: check_block_def monad_simps rbind_def ok_or_def not_less word_le_nat_alt split: if_splits option.splits)

lemma import_blocks_verified:
  assumes "import_blocks E W limit blocks bytes imported r bs = (res, bs')"
  shows "verified_growth E bs bs' \<and>
    (\<forall>blocks' bytes' imported'. res = Inr (blocks', bytes', imported') \<longrightarrow> bytes \<le> limit \<longrightarrow>
       bytes' \<le> limit \<and> (\<forall>c. c |\<in>| imported' \<longrightarrow> c |\<in>| imported \<or> (\<exists>b. bs_get bs' c = Some b \<and> recompute_cid E c b = Some c)))"
  using assms
proof (induction E W limit blocks bytes imported r bs rule: import_blocks.induct)
  case (1 E W limit blocks bytes imported r bs)
  note run = "1.prems" [unfolded import_blocks.simps [of E W limit blocks bytes imported r bs]]
  obtain n r' where nb: "next_block W r = (n, r')" by fastforce
  show ?case
  proof (cases "\<exists>c data tot. n = Inr (Some (c, data)) \<and> check_block E W limit bytes c data = Inr tot")
    case False
    with run nb show ?thesis by (auto simp: verified_growth_refl split: sum.splits option.splits)
  next
    case True
    then obtain c data tot where n: "n = Inr (Some (c, data))" and ck: "check_block E W limit bytes c data = Inr tot" by blast
    let ?bs = "fmupd c (block_of W data) bs"
    have rec: "import_blocks E W limit (blocks + 1) tot (finsert c imported) r' ?bs = (res, bs')"
      using run nb n ck by (simp add: bs_put_trusted_def)
    note v = check_block_Inr [OF ck]
    have IH: "verified_growth E ?bs bs' \<and>
      (\<forall>blocks' bytes' imported'. res = Inr (blocks', bytes', imported') \<longrightarrow> tot \<le> limit \<longrightarrow>
         bytes' \<le> limit \<and> (\<forall>d. d |\<in>| imported' \<longrightarrow> d |\<in>| finsert c imported \<or> (\<exists>b. bs_get bs' d = Some b \<and> recompute_cid E d b = Some d)))"
      using nb n ck rec by (intro "1.IH") (auto simp: bs_put_trusted_def)
    have c: "\<exists>b. bs_get bs' c = Some b \<and> recompute_cid E c b = Some c"
      using IH v(1) unfolding verified_growth_def by (metis (no_types, lifting) bs_get_def fmupd_lookup option.distinct(1) option.exhaust option.inject)
    have "tot \<le> limit" using v(2) by (simp add: word_le_nat_alt)
    moreover have "verified_growth E bs bs'" using IH verified_growth_upd [OF v(1)] by blast
    moreover have "d |\<in>| finsert c imported \<longleftrightarrow> d = c \<or> d |\<in>| imported" for d by simp
    ultimately show ?thesis using IH c by metis
  qed
qed

lemma import_verified:
  assumes "import_with_limit E W r limit bs = (res, bs')"
  shows "verified_growth E bs bs'"
    and "res = Inr st \<Longrightarrow> im_bytes st \<le> limit \<and> (\<forall>c \<in> set (im_roots st). \<exists>b. bs_get bs' c = Some b \<and> recompute_cid E c b = Some c)"
proof -
  obtain h r' where rh: "read_header E W r = (h, r')" by fastforce
  obtain ib bs1 where ib: "import_blocks E W limit 0 0 {||} r' bs = (ib, bs1)" by fastforce
  have v: "verified_growth E bs bs1" using import_blocks_verified [OF ib] by simp
  from assms rh ib show "verified_growth E bs bs'"
    using v by (auto simp: import_with_limit_def verified_growth_refl split: sum.splits option.splits)
  assume "res = Inr st"
  with assms rh ib obtain header n tot imported where ok: "h = Inr header" "ib = Inr (n, tot, imported)" "bs1 = bs'"
      "find (\<lambda>root. root |\<notin>| imported) (ch_roots header) = None" "im_bytes st = tot" "im_roots st = ch_roots header"
    by (auto simp: import_with_limit_def split: sum.splits option.splits)
  with import_blocks_verified [OF ib] show "im_bytes st \<le> limit \<and> (\<forall>c \<in> set (im_roots st). \<exists>b. bs_get bs' c = Some b \<and> recompute_cid E c b = Some c)"
    by (auto simp: find_None_iff)
qed

end
