(* ===== verification/Car_Instance.thy ===== *)
theory Car_Instance imports Car_Spec Instance begin

text \<open>
  An instance of the external code with byte forms, for the archives and the replication protocol: CIDs, digests and
  blocks are 64-bit numbers, a block is its number in a table of values, and its CID is that number again. The text of a
  CID is that many letters.
\<close>

fun unleb :: "bytes \<Rightarrow> nat" where
  "unleb [] = 0"
| "unleb (b # bs) = unat b mod 128 + 128 * unleb bs"

lemma unleb_leb128: "unleb (leb128 n) = n"
proof (induction n rule: leb128.induct)
  case (1 n)
  show ?case
  proof (cases "n < 128")
    case True
    then show ?thesis by (subst leb128.simps) (simp add: unat_of_nat)
  next
    case False
    have "unat (word_of_nat (n mod 128 + 128) :: u8) = n mod 128 + 128" by (rule unat_septet) simp
    then show ?thesis using "1.IH" [OF False] False by (subst leb128.simps) (simp del: of_nat_add)
  qed
qed

definition uE :: "u64 ipld list \<Rightarrow> (u64, u64, u64) external" where
  "uE table = \<lparr>enc = (\<lambda>v. map_option word_of_nat (position v table)), dec = (\<lambda>b. if unat b < length table then Some (table ! unat b) else None),
     sha2_256 = id, blake3_256 = id, mh_code = (\<lambda>h. HASH_SHA2_256), cid_new = (\<lambda>codec h. h),
     cid_codec = (\<lambda>c. CODEC_DAG_CBOR), cid_hash = id,
     keyed_hash = (\<lambda>k bs. replicate 32 0), blake3 = (\<lambda>bs. take 32 (bs @ replicate 32 0)),
     block_bytes = (\<lambda>b. leb128 (unat b)),
     cid_bytes = (\<lambda>c. leb128 1 @ leb128 0x71 @ leb128 0x12 @ leb128 (length (leb128 (unat c))) @ leb128 (unat c)),
     cid_string = (\<lambda>c. replicate (unat c) CHR ''a''), uuid_string = (\<lambda>n. []), props_json = (\<lambda>m. JNull), f32_ipld = ucast, ipld_f32 = ucast\<rparr>"

definition uW :: "(u64, u64) car_wire" where
  "uW = \<lparr>varint_encode = (\<lambda>v. leb128 (unat v)), cid_from_bytes = (\<lambda>bs. Some (word_of_nat (unleb (drop 4 bs)))),
     block_of = (\<lambda>bs. word_of_nat (unleb bs))\<rparr>"

lemma uE_laws: "length table < 2 ^ 64 \<Longrightarrow> codec_roundtrip (uE table)"
  by (auto simp: codec_roundtrip_def uE_def dest!: position_Some) (simp add: unat_of_nat)+

lemma leb128_1: "n < 128 \<Longrightarrow> leb128 n = [word_of_nat n]"
  by (subst leb128.simps) simp

lemma uW_laws: "car_laws (uE table) uW"
proof -
  have short: "length (leb128 (unat (c :: u64))) < 128" for c using leb128_u64 [of c] by simp
  have "cid_layout (uE table) c" for c
    unfolding cid_layout_def
  proof (intro exI conjI)
    show "length (leb128 (unat c)) < 2 ^ 32" using short [of c] by simp
    show "cid_bytes (uE table) c = leb128 1 @ leb128 (unat (cid_codec (uE table) c)) @ leb128 (unat (mh_code (uE table) (cid_hash (uE table) c)))
        @ leb128 (length (leb128 (unat c))) @ leb128 (unat c)"
      by (simp add: uE_def CODEC_DAG_CBOR_def HASH_SHA2_256_def)
  qed
  moreover have "cid_from_bytes uW (cid_bytes (uE table) c) = Some c" for c
    by (simp add: uW_def uE_def leb128_1 short unleb_leb128)
  ultimately show ?thesis by (simp add: car_laws_def) (simp add: uW_def uE_def unleb_leb128)
qed

lemma uhash: "recompute_cid (uE table) c b = Some b"
  by (simp add: recompute_cid_def uE_def)

lemma usize: "section_size (uE table) (c, b) \<le> MAX_BLOCK_BYTES"
  using leb128_u64 [of c] leb128_u64 [of b] by (simp add: section_size_def uE_def leb128_1 MAX_BLOCK_BYTES_def)

definition ublocks :: "u64 list \<Rightarrow> (u64, u64) store" where
  "ublocks ns = fmap_of_list (map (\<lambda>n. (n, n)) ns)"

lemma ublocks_get [simp]: "bs_get (ublocks ns) c = (if c \<in> set ns then Some c else None)"
proof -
  have "map_of (map (\<lambda>n. (n, n)) ns) c = (if c \<in> set ns then Some c else None)" by (induction ns) auto
  then show ?thesis by (simp add: bs_get_def ublocks_def fmlookup_of_list)
qed

end
