(* ===== verification/Car_Props.thy ===== *)
theory Car_Props imports Car_Instance begin

text \<open>
  The properties of the transfer format, with an archive of two blocks they are applied to.
\<close>

section \<open>An archive of two blocks\<close>

text \<open>Block 0 links to block 1; 2 is the header of an archive with root 0; 3 is apart.\<close>

definition utable :: "u64 ipld list" where
  "utable = [IList [ILink 1, ILink 1], IInteger 7, IMap (fmap_of_list [(''version'', IInteger 1), (''roots'', IList [ILink 0])]), INull]"

definition usrc :: "(u64, u64) store" where "usrc = fmap_of_list [(0, 0), (1, 1), (3, 3)]"

lemma utable_codec: "codec_roundtrip (uE utable)"
  by (rule uE_laws) (simp add: utable_def)

lemma uheader: "write_header (uE utable) uW (single_root 0) = Inr [1, 2]"
  by code_simp

lemma uwalk: "iter_from_root (uE utable) usrc 0 = Inr [(0, 0), (1, 1)]"
  by code_simp

lemma upayload: "payload (uE utable) [(0, 0), (1, 1)] = 2"
  by code_simp

lemma uheader_small: "length [1, 2 :: u8] \<le> MAX_HEADER_BYTES"
  by (simp add: MAX_HEADER_BYTES_def)

lemma usections: "sections (uE utable) uW [(0, 0), (1, 1)] = [6, 1, 0x71, 0x12, 1, 0, 0, 6, 1, 0x71, 0x12, 1, 1, 1]"
  by code_simp

lemma usrc_imports: "import_with_limit (uE utable) uW [1, 2, 6, 1, 0x71, 0x12, 1, 0, 0, 6, 1, 0x71, 0x12, 1, 1, 1] 100 fmempty =
  (Inr \<lparr>im_blocks = 2, im_bytes = 2, im_roots = [0]\<rparr>, fmupd 1 1 (fmupd 0 0 fmempty))"
  using import_exported [OF uW_laws utable_codec uheader uheader_small uwalk, of 100 fmempty]
  by (simp add: transferable_def uhash usize upayload usections)

lemma usrc_exports: "export_car (uE utable) uW usrc 0 [] =
  (Inr \<lparr>ex_blocks = 2, ex_bytes = 16\<rparr>, [1, 2, 6, 1, 0x71, 0x12, 1, 0, 0, 6, 1, 0x71, 0x12, 1, 1, 1])"
  by code_simp

section \<open>Properties\<close>

text \<open>C27 (bounds): the varint reader of the archive accepts exactly the minimal LEB128 encodings of the numbers below
  \<open>2 ^ 70\<close>, leaves the rest, and returns the number modulo \<open>2 ^ 64\<close>; the reader of a section's length prefix is the same
  function. So ten-byte encodings of numbers that do not fit are taken for smaller ones: the test for overflow is on
  the shift, which never reaches 64.\<close>

theorem varint_reader_exact:
  "((read_varint_u64 :: (bytes, 'c transport_error, u64) prog) s = (Inr v, rest) \<longleftrightarrow>
      (\<exists>n. n < 2 ^ 70 \<and> s = leb128 n @ rest \<and> v = word_of_nat n)) \<and>
   (block_len byte 0 0 0 :: (bytes, 'c transport_error, u64) prog) s = read_varint_u64 (byte # s)"
  using read_varint_iff block_len_eq [of 0 byte 0 s] unfolding read_varint_u64_def by auto

text \<open>C25 (roundtrip): an archive that \<open>export\<close> wrote imports again, as long as every exported block hashes to its CID
  and the sizes are within the limits of the importer: the import counts what the export counted, reports the root, and
  leaves in the target exactly the blocks reachable from the root beside what was there.\<close>

theorem export_import:
  assumes "car_laws E W" and "codec_roundtrip E"
    and exported: "export_car E W src root [] = (Inr st, w)"
    and header: "\<And>header. write_header E W (single_root root) = Inr header \<Longrightarrow> length header \<le> MAX_HEADER_BYTES"
    and blocks: "\<And>c b. (links_to E src)\<^sup>*\<^sup>* root c \<Longrightarrow> bs_get src c = Some b \<Longrightarrow>
          recompute_cid E c b = Some c \<and> section_size E (c, b) \<le> MAX_BLOCK_BYTES"
    and limit: "\<And>items. iter_from_root E src root = Inr items \<Longrightarrow> payload E items \<le> unat limit"
  shows "ex_bytes st = word_of_nat (length w) \<and> ex_blocks st = word_of_nat (card {c. (links_to E src)\<^sup>*\<^sup>* root c}) \<and>
    (\<exists>total dst'. import_with_limit E W w limit dst = (Inr \<lparr>im_blocks = ex_blocks st, im_bytes = total, im_roots = [root]\<rparr>, dst') \<and>
       (\<forall>c. bs_get dst' c = (if (links_to E src)\<^sup>*\<^sup>* root c then bs_get src c else bs_get dst c)))"
proof -
  obtain h items where run: "write_header E W (single_root root) = Inr h" "iter_from_root E src root = Inr items"
      "w = h @ sections E W items" "st = \<lparr>ex_blocks = word_of_nat (length items), ex_bytes = word_of_nat (length w)\<rparr>"
    using export_car_run [OF exported] by auto
  note walk = iter_from_root_yields [OF run(2)]
  have "(links_to E src)\<^sup>*\<^sup>* root c" if "(c, b) \<in> set items" for c b
    using that walk(2) by (metis (mono_tags, lifting) fst_conv image_eqI image_set mem_Collect_eq)
  then have "transferable E items limit"
    using blocks limit [OF run(2)] walk(3) by (fastforce simp: transferable_def)
  note import = import_exported [OF assms(1,2) run(1) header [OF run(1)] run(2) this]
  have "length items = card {c. (links_to E src)\<^sup>*\<^sup>* root c}"
    using walk(1,2) by (metis distinct_card length_map)
  then show ?thesis
    using import [of dst] run(4) bs_get_imported [OF run(2), of dst] by (auto simp: run(3))
qed

theorem export_import_witness:
  "ex_bytes \<lparr>ex_blocks = 2, ex_bytes = 16\<rparr> = word_of_nat (length [1, 2, 6, 1, 0x71, 0x12, 1, 0, 0, 6, 1, 0x71, 0x12, 1, 1, 1 :: u8]) \<and>
   (\<exists>total dst'. import_with_limit (uE utable) uW [1, 2, 6, 1, 0x71, 0x12, 1, 0, 0, 6, 1, 0x71, 0x12, 1, 1, 1] 100 fmempty =
     (Inr \<lparr>im_blocks = 2, im_bytes = total, im_roots = [0]\<rparr>, dst'))"
proof -
  have reach: "{c. (links_to (uE utable) usrc)\<^sup>*\<^sup>* 0 c} = {0, 1}"
    using iter_from_root_yields(2) [OF uwalk] by auto
  have store: "bs_get usrc c = Some b \<Longrightarrow> b = c" for c b
    by (auto simp: usrc_def bs_get_def fmlookup_of_list split: if_splits)
  have "ex_bytes \<lparr>ex_blocks = 2, ex_bytes = 16\<rparr> = word_of_nat (length [1, 2, 6, 1, 0x71, 0x12, 1, 0, 0, 6, 1, 0x71, 0x12, 1, 1, 1 :: u8]) \<and>
    ex_blocks \<lparr>ex_blocks = 2, ex_bytes = 16\<rparr> = word_of_nat (card {c. (links_to (uE utable) usrc)\<^sup>*\<^sup>* 0 c}) \<and>
    (\<exists>total dst'. import_with_limit (uE utable) uW [1, 2, 6, 1, 0x71, 0x12, 1, 0, 0, 6, 1, 0x71, 0x12, 1, 1, 1] 100 fmempty =
       (Inr \<lparr>im_blocks = ex_blocks \<lparr>ex_blocks = 2, ex_bytes = 16\<rparr>, im_bytes = total, im_roots = [0]\<rparr>, dst') \<and>
     (\<forall>c. bs_get dst' c = (if (links_to (uE utable) usrc)\<^sup>*\<^sup>* 0 c then bs_get usrc c else bs_get fmempty c)))"
  proof (rule export_import [OF uW_laws utable_codec usrc_exports])
    fix c b assume "(links_to (uE utable) usrc)\<^sup>*\<^sup>* 0 c" and "bs_get usrc c = Some b"
    then have "c \<in> {0, 1}" "b = c" using reach store by auto
    then show "recompute_cid (uE utable) c b = Some c \<and> section_size (uE utable) (c, b) \<le> MAX_BLOCK_BYTES"
      by (auto simp: uhash usize)
  qed (use uwalk upayload uheader uheader_small in auto)
  then show ?thesis by auto
qed

text \<open>C26 (safety): whatever bytes an archive holds and however the import ends, every block of the store afterwards was
  there before or hashes to the CID it stands under, no block is gone, and a content-addressed store stays one. When it
  succeeds, the payload is within the limit and every declared root is in the store with a block that hashes to it.\<close>

theorem import_safety:
  assumes "import_with_limit E W r limit bs = (res, bs')"
  shows "(\<forall>c b. bs_get bs' c = Some b \<longrightarrow> bs_get bs c = Some b \<or> recompute_cid E c b = Some c) \<and>
    (\<forall>c. bs_get bs c \<noteq> None \<longrightarrow> bs_get bs' c \<noteq> None) \<and>
    (content_addressed E bs \<longrightarrow> content_addressed E bs') \<and>
    (\<forall>st. res = Inr st \<longrightarrow> im_bytes st \<le> limit \<and>
       (\<forall>c \<in> set (im_roots st). \<exists>b. bs_get bs' c = Some b \<and> recompute_cid E c b = Some c))"
  using import_verified [OF assms] verified_growth_content_addressed unfolding verified_growth_def by blast

theorem import_safety_witness:
  "content_addressed (uE utable) (fmupd 1 1 (fmupd 0 0 fmempty)) \<and> (\<exists>b. bs_get (fmupd 1 1 (fmupd 0 0 fmempty) :: (u64, u64) store) 0 = Some b)"
proof -
  have "content_addressed (uE utable) fmempty" by (simp add: content_addressed_def bs_get_def)
  with import_safety [OF usrc_imports] show ?thesis by auto
qed

text \<open>Also (error): a block whose bytes hash to another CID makes the import fail with \<open>CidMismatch\<close>, and neither it nor
  anything after it reaches the store; the blocks before it do.\<close>

theorem import_rejects_tampered:
  assumes "car_laws E W" and "codec_roundtrip E"
    and "write_header E W (single_root root) = Inr header" and "length header \<le> MAX_HEADER_BYTES"
    and "\<And>c b. (c, b) \<in> set items \<Longrightarrow> recompute_cid E c b = Some c \<and> section_size E (c, b) \<le> MAX_BLOCK_BYTES"
    and "payload E items \<le> unat limit"
    and "recompute_cid E c b = Some d" and "d \<noteq> c" and "section_size E (c, b) \<le> MAX_BLOCK_BYTES"
  shows "import_with_limit E W (header @ sections E W items @ write_block E W c (block_bytes E b) @ rest) limit dst =
    (Inl (TCidMismatch c d), fold (\<lambda>(c, b). fmupd c b) items dst)"
  by (rule import_tampered [OF assms(1-4) _ assms(7-9)]) (use assms(5,6) in \<open>auto simp: transferable_def\<close>)

theorem import_rejects_tampered_witness:
  "import_with_limit (uE utable) uW ([1, 2] @ sections (uE utable) uW [(0, 0)] @ write_block (uE utable) uW 1 (block_bytes (uE utable) 3) @ []) 100 fmempty =
    (Inl (TCidMismatch 1 3), fold (\<lambda>(c, b). fmupd c b) [(0, 0)] fmempty)"
proof (rule import_rejects_tampered [OF uW_laws utable_codec])
  show "write_header (uE utable) uW (single_root 0) = Inr [1, 2]" by (rule uheader)
  show "length [1, 2 :: u8] \<le> MAX_HEADER_BYTES" by (rule uheader_small)
  show "payload (uE utable) [(0, 0)] \<le> unat (100 :: u64)" by code_simp
qed (auto simp: uhash usize)

end
