(* ===== verification/Text.thy ===== *)
theory Text imports Prelude begin

text \<open>
  The operations of Rust's \<open>str\<close> that the ingest crate uses, on text as a list of Unicode scalar values: white space is
  the Unicode property \<open>White_Space\<close>, as \<open>char::is_whitespace\<close> has it.
\<close>

type_synonym ustr = "nat list"

definition lit :: "string \<Rightarrow> ustr" where
  "lit s = map of_char s"

definition is_whitespace :: "nat \<Rightarrow> bool" where
  "is_whitespace c \<longleftrightarrow> 9 \<le> c \<and> c \<le> 13 \<or> c = 0x20 \<or> c = 0x85 \<or> c = 0xA0 \<or> c = 0x1680 \<or> 0x2000 \<le> c \<and> c \<le> 0x200A \<or>
     c = 0x2028 \<or> c = 0x2029 \<or> c = 0x202F \<or> c = 0x205F \<or> c = 0x3000"

definition trim :: "ustr \<Rightarrow> ustr" where
  "trim t = rev (dropWhile is_whitespace (rev (dropWhile is_whitespace t)))"

text \<open>\<open>split_whitespace\<close>: the maximal runs of other characters.\<close>

function split_whitespace :: "ustr \<Rightarrow> ustr list" where
  "split_whitespace t =
     (case dropWhile is_whitespace t of
        [] \<Rightarrow> []
      | c # cs \<Rightarrow> takeWhile (\<lambda>c. \<not> is_whitespace c) (c # cs) # split_whitespace (dropWhile (\<lambda>c. \<not> is_whitespace c) (c # cs)))"
  by pat_completeness auto
termination
proof (relation "measure length", simp)
  fix t c and cs :: ustr assume t: "dropWhile is_whitespace t = c # cs"
  then have "\<not> is_whitespace c" by (metis hd_dropWhile list.discI list.sel(1))
  moreover have "length (c # cs) \<le> length t" unfolding t [symmetric] by (rule length_dropWhile_le)
  moreover have "length (dropWhile (\<lambda>c. \<not> is_whitespace c) cs) \<le> length cs" by (rule length_dropWhile_le)
  ultimately show "(dropWhile (\<lambda>c. \<not> is_whitespace c) (c # cs), t) \<in> measure length" by simp
qed

declare split_whitespace.simps [simp del]

text \<open>\<open>split("\n\n")\<close>.\<close>

fun split_blank_line :: "ustr \<Rightarrow> ustr list" where
  "split_blank_line [] = [[]]"
| "split_blank_line [c] = [[c]]"
| "split_blank_line (c # d # t) =
     (if c = 10 \<and> d = 10 then [] # split_blank_line t
      else (case split_blank_line (d # t) of [] \<Rightarrow> [[c]] | p # ps \<Rightarrow> (c # p) # ps))"

fun join :: "ustr \<Rightarrow> ustr list \<Rightarrow> ustr" where
  "join sep [] = []"
| "join sep [w] = w"
| "join sep (w # ws) = w @ sep @ join sep ws"

text \<open>\<open>u32::try_from(n).unwrap_or(u32::MAX)\<close>\<close>

definition saturate32 :: "nat \<Rightarrow> u32" where
  "saturate32 n = (if n < 2 ^ 32 then word_of_nat n else - 1)"

definition to_ascii_lowercase :: "ustr \<Rightarrow> ustr" where
  "to_ascii_lowercase t = map (\<lambda>c. if 65 \<le> c \<and> c \<le> 90 then c + 32 else c) t"

section \<open>Words\<close>

definition is_word :: "ustr \<Rightarrow> bool" where
  "is_word w \<longleftrightarrow> w \<noteq> [] \<and> list_all (\<lambda>c. \<not> is_whitespace c) w"

lemma space [simp]: "is_whitespace 32"
  by (simp add: is_whitespace_def)

lemma takeWhile_word: "list_all (\<lambda>c. \<not> is_whitespace c) w \<Longrightarrow> takeWhile (\<lambda>c. \<not> is_whitespace c) (w @ 32 # t) = w"
  by (induction w) simp_all

lemma dropWhile_word: "list_all (\<lambda>c. \<not> is_whitespace c) w \<Longrightarrow> dropWhile (\<lambda>c. \<not> is_whitespace c) (w @ 32 # t) = 32 # t"
  by (induction w) simp_all

lemma split_ws_Nil [simp]: "split_whitespace [] = []"
  by (simp add: split_whitespace.simps)

lemma split_ws_space: "is_whitespace c \<Longrightarrow> split_whitespace (c # t) = split_whitespace t"
  by (subst (1 2) split_whitespace.simps) simp

lemma split_ws_blank: "list_all is_whitespace t \<Longrightarrow> split_whitespace t = []"
  by (induction t) (simp_all add: split_ws_space)

lemma split_ws_word: "is_word w \<Longrightarrow> split_whitespace w = [w]"
proof -
  assume w: "is_word w"
  then obtain c cs where c: "w = c # cs" by (auto simp: is_word_def neq_Nil_conv)
  have "takeWhile (\<lambda>c. \<not> is_whitespace c) w = w" "dropWhile (\<lambda>c. \<not> is_whitespace c) w = []"
    using w by (simp_all add: is_word_def takeWhile_eq_all_conv dropWhile_eq_Nil_conv list_all_iff)
  moreover have "dropWhile is_whitespace w = c # cs" using w by (simp add: c is_word_def)
  ultimately show ?thesis by (subst split_whitespace.simps) (simp add: c)
qed

lemma split_ws_word_space: "is_word w \<Longrightarrow> split_whitespace (w @ 32 # t) = w # split_whitespace t"
proof -
  assume w: "is_word w"
  then obtain c cs where c: "w = c # cs" by (auto simp: is_word_def neq_Nil_conv)
  have d: "dropWhile is_whitespace (w @ 32 # t) = c # (cs @ 32 # t)" using w by (simp add: c is_word_def)
  have e: "takeWhile (\<lambda>c. \<not> is_whitespace c) (c # (cs @ 32 # t)) = w" "dropWhile (\<lambda>c. \<not> is_whitespace c) (c # (cs @ 32 # t)) = 32 # t"
    using w takeWhile_word [of w t] dropWhile_word [of w t] by (simp_all add: c is_word_def)
  have "split_whitespace (w @ 32 # t) = w # split_whitespace (32 # t)"
    by (subst split_whitespace.simps) (simp only: d e list.case)
  then show ?thesis by (simp add: split_ws_space)
qed

lemma split_ws_join: "list_all is_word ws \<Longrightarrow> split_whitespace (join [32] ws) = ws"
  by (induction ws rule: induct_list012) (auto simp: split_ws_word split_ws_word_space)

lemma split_ws_unfold:
  assumes "dropWhile is_whitespace t = c # cs"
  shows "split_whitespace t = takeWhile (\<lambda>c. \<not> is_whitespace c) (c # cs) # split_whitespace (dropWhile (\<lambda>c. \<not> is_whitespace c) (c # cs))"
  by (subst split_whitespace.simps) (simp only: assms list.case)

lemma split_ws_words: "w \<in> set (split_whitespace t) \<Longrightarrow> is_word w"
proof (induction t rule: split_whitespace.induct)
  case (1 t)
  show ?case
  proof (cases "dropWhile is_whitespace t")
    case Nil
    with "1.prems" show ?thesis by (simp add: split_whitespace.simps [of t])
  next
    case (Cons c cs)
    then have "\<not> is_whitespace c" by (metis hd_dropWhile list.discI list.sel(1))
    then have "is_word (takeWhile (\<lambda>c. \<not> is_whitespace c) (c # cs))"
      by (auto simp: is_word_def list_all_iff dest: set_takeWhileD)
    moreover have "w = takeWhile (\<lambda>c. \<not> is_whitespace c) (c # cs) \<or> w \<in> set (split_whitespace (dropWhile (\<lambda>c. \<not> is_whitespace c) (c # cs)))"
      using "1.prems" unfolding split_ws_unfold [OF Cons] set_simps insert_iff .
    ultimately show ?thesis using "1.IH" [OF Cons] by blast
  qed
qed

text \<open>White space between two pieces separates words.\<close>

lemma split_ws_append: "split_whitespace (s @ 32 # t) = split_whitespace s @ split_whitespace t"
proof (induction s rule: split_whitespace.induct)
  case (1 s)
  show ?case
  proof (cases "dropWhile is_whitespace s")
    case Nil
    then have "list_all is_whitespace s" by (simp add: dropWhile_eq_Nil_conv list_all_iff)
    then have "split_whitespace (s @ 32 # t) = split_whitespace t"
      by (induction s) (simp_all add: split_ws_space)
    then show ?thesis using \<open>list_all is_whitespace s\<close> by (simp add: split_ws_blank)
  next
    case (Cons c cs)
    then have nc: "\<not> is_whitespace c" by (metis hd_dropWhile list.discI list.sel(1))
    have d: "dropWhile is_whitespace (s @ 32 # t) = c # (cs @ 32 # t)"
      using Cons by (simp add: dropWhile_append dropWhile_eq_Nil_conv [symmetric])
    let ?w = "takeWhile (\<lambda>c. \<not> is_whitespace c) (c # cs)" and ?r = "dropWhile (\<lambda>c. \<not> is_whitespace c) (c # cs)"
    have tw: "takeWhile (\<lambda>c. \<not> is_whitespace c) (c # (cs @ 32 # t)) = ?w"
      by (simp add: nc takeWhile_tail)
    have dw: "dropWhile (\<lambda>c. \<not> is_whitespace c) (c # (cs @ 32 # t)) = ?r @ 32 # t"
      by (simp add: nc) (induction cs; simp)
    have "split_whitespace (s @ 32 # t) = ?w # split_whitespace (?r @ 32 # t)"
      unfolding split_ws_unfold [OF d] tw dw ..
    also have "\<dots> = ?w # (split_whitespace ?r @ split_whitespace t)" using "1.IH" [OF Cons] by simp
    finally show ?thesis unfolding split_ws_unfold [OF Cons] by simp
  qed
qed

lemma split_ws_join_pieces: "split_whitespace (join [32] ps) = concat (map split_whitespace ps)"
  by (induction ps rule: induct_list012) (simp_all add: split_ws_append)

end
