(* ===== verification/Ingest_Chunk.thy ===== *)
theory Ingest_Chunk imports Text begin

text \<open>
  \<open>crates/mnem-ingest/src/chunk.rs\<close> and the types it cuts: the strategies that turn the sections of a document into
  chunks. The Unicode sentence boundaries come from another crate, so \<open>split_sentence_bounds\<close> is an argument.
  A chunker that walks an index over a vector is a function that returns the slices it visits.
\<close>

section \<open>Types\<close>

record ingest_section =
  sc_heading :: "ustr option"
  sc_depth :: u8
  sc_text :: ustr
  sc_byte_range :: "nat \<times> nat"

record ingest_chunk =
  ck_section_path :: "ustr list"
  ck_text :: ustr
  ck_tokens_estimate :: u32

datatype code_language = Rust | Python | JavaScript | TypeScript | Go | Java | LangC | Cpp | Ruby | CSharp

datatype source_kind = Markdown | PlainText | Pdf | Conversation | Code code_language

record chunker_auto =
  ca_max_tokens :: "u32 option"
  ca_overlap :: "u32 option"
  ca_max_messages :: "nat option"

datatype chunker_kind =
    Paragraph
  | Recursive u32 u32
  | SentenceRecursive u32 u32
  | Session nat
  | Structural

definition from_extension :: "ustr \<Rightarrow> code_language option" where
  "from_extension ext =
     (if ext = lit ''rs'' then Some Rust
      else if ext \<in> {lit ''py'', lit ''pyi''} then Some Python
      else if ext \<in> {lit ''js'', lit ''mjs'', lit ''cjs''} then Some JavaScript
      else if ext \<in> {lit ''ts'', lit ''tsx'', lit ''mts'', lit ''cts''} then Some TypeScript
      else if ext = lit ''go'' then Some Go
      else if ext = lit ''java'' then Some Java
      else if ext \<in> {lit ''c'', lit ''h''} then Some LangC
      else if ext \<in> {lit ''cpp'', lit ''cc'', lit ''cxx'', lit ''c++'', lit ''hpp'', lit ''hxx''} then Some Cpp
      else if ext \<in> {lit ''rb'', lit ''gemspec'', lit ''rake'', lit ''erb''} then Some Ruby
      else if ext \<in> {lit ''cs'', lit ''csx''} then Some CSharp
      else None)"

fun auto_chunker :: "source_kind \<Rightarrow> chunker_auto \<Rightarrow> chunker_kind" where
  "auto_chunker Markdown heuristics = Paragraph"
| "auto_chunker PlainText heuristics =
     SentenceRecursive (case ca_max_tokens heuristics of Some n \<Rightarrow> n | None \<Rightarrow> 256) (case ca_overlap heuristics of Some n \<Rightarrow> n | None \<Rightarrow> 32)"
| "auto_chunker Pdf heuristics =
     SentenceRecursive (case ca_max_tokens heuristics of Some n \<Rightarrow> n | None \<Rightarrow> 512) (case ca_overlap heuristics of Some n \<Rightarrow> n | None \<Rightarrow> 64)"
| "auto_chunker Conversation heuristics = Session (case ca_max_messages heuristics of Some n \<Rightarrow> n | None \<Rightarrow> 10)"
| "auto_chunker (Code l) heuristics = Structural"

definition resolve_chunker :: "ustr \<Rightarrow> source_kind \<Rightarrow> u32 \<Rightarrow> u32 \<Rightarrow> ustr + chunker_kind" where
  "resolve_chunker choice kind max_tokens overlap =
     (let choice = to_ascii_lowercase choice in
      if choice = lit ''auto'' then Inr (auto_chunker kind \<lparr>ca_max_tokens = Some max_tokens, ca_overlap = Some overlap, ca_max_messages = None\<rparr>)
      else if choice = lit ''paragraph'' then Inr Paragraph
      else if choice = lit ''recursive'' then Inr (Recursive max_tokens overlap)
      else if choice = lit ''sentence_recursive'' \<or> choice = lit ''sentence-recursive'' then Inr (SentenceRecursive max_tokens overlap)
      else if choice = lit ''session'' then Inr (Session 10)
      else if choice = lit ''structural'' then Inr Structural
      else Inl choice)"

section \<open>Section paths\<close>

text \<open>The walk backwards from a section to the nearest heading of each smaller depth.\<close>

fun path_loop :: "ingest_section list \<Rightarrow> u8 \<Rightarrow> ustr list \<Rightarrow> ustr list" where
  "path_loop [] last_depth path = path"
| "path_loop (s # ss) last_depth path =
     (case sc_heading s of
        Some h \<Rightarrow>
          if sc_depth s > 0 \<and> sc_depth s \<le> last_depth then
            let path = path @ [h]; last_depth = sc_depth s - 1 in
            if last_depth = 0 then path else path_loop ss last_depth path
          else path_loop ss last_depth path
      | None \<Rightarrow> path_loop ss last_depth path)"

definition section_path_for :: "ingest_section list \<Rightarrow> nat \<Rightarrow> ustr list" where
  "section_path_for sections idx = rev (path_loop (rev (take (Suc idx) sections)) (sc_depth (sections ! idx)) [])"

definition token_count :: "ustr \<Rightarrow> u32" where
  "token_count t = saturate32 (length (split_whitespace t))"

text \<open>The loop the chunkers share: sections without text are skipped.\<close>

definition for_sections :: "ingest_section list \<Rightarrow> (nat \<Rightarrow> ingest_section \<Rightarrow> 'a list) \<Rightarrow> 'a list" where
  "for_sections sections f = concat (map (\<lambda>(i, s). if trim (sc_text s) = [] then [] else f i s) (enumerate 0 sections))"

section \<open>Paragraphs and structure\<close>

definition paragraph_chunks :: "ustr list \<Rightarrow> ustr \<Rightarrow> ingest_chunk list" where
  "paragraph_chunks path t =
     map (\<lambda>trimmed. \<lparr>ck_section_path = path, ck_text = trimmed, ck_tokens_estimate = token_count trimmed\<rparr>)
       (filter (\<lambda>p. p \<noteq> []) (map trim (split_blank_line t)))"

definition chunk_paragraph :: "ingest_section list \<Rightarrow> ingest_chunk list" where
  "chunk_paragraph sections = for_sections sections (\<lambda>i s. paragraph_chunks (section_path_for sections i) (sc_text s))"

definition chunk_structural :: "ingest_section list \<Rightarrow> ingest_chunk list" where
  "chunk_structural sections =
     for_sections sections (\<lambda>i s. [\<lparr>ck_section_path = section_path_for sections i, ck_text = trim (sc_text s),
       ck_tokens_estimate = token_count (trim (sc_text s))\<rparr>])"

section \<open>Windows of words\<close>

text \<open>The slices the loop of \<open>chunk_recursive\<close> visits from \<open>start\<close>.\<close>

function word_windows :: "nat \<Rightarrow> nat \<Rightarrow> ustr list \<Rightarrow> nat \<Rightarrow> ustr list list" where
  "word_windows mx ov tokens start =
     (if start < length tokens then
        let e = min (start + mx) (length tokens); slice = take (e - start) (drop start tokens) in
        if e = length tokens then [slice]
        else slice # word_windows mx ov tokens (start + max (mx - ov) 1)
      else [])"
  by pat_completeness auto
termination by (relation "measure (\<lambda>(mx, ov, tokens, start). length tokens - start)") auto

declare word_windows.simps [simp del]

definition budget :: "u32 \<Rightarrow> nat" where "budget max_tokens = unat (max max_tokens 1)"
definition overlap_budget :: "u32 \<Rightarrow> u32 \<Rightarrow> nat" where "overlap_budget max_tokens overlap = min (unat overlap) (budget max_tokens - 1)"

definition chunk_recursive :: "ingest_section list \<Rightarrow> u32 \<Rightarrow> u32 \<Rightarrow> ingest_chunk list" where
  "chunk_recursive sections max_tokens overlap =
     for_sections sections (\<lambda>i s.
       map (\<lambda>slice. \<lparr>ck_section_path = section_path_for sections i, ck_text = join (lit '' '') slice,
           ck_tokens_estimate = saturate32 (length slice)\<rparr>)
         (word_windows (budget max_tokens) (overlap_budget max_tokens overlap) (split_whitespace (sc_text s)) 0))"

section \<open>Sentences\<close>

text \<open>The inner loop that fills a window from \<open>start\<close>: where it ends, and its tokens.\<close>

function fill_window :: "nat \<Rightarrow> nat list \<Rightarrow> nat \<Rightarrow> nat \<Rightarrow> nat \<Rightarrow> nat \<times> nat" where
  "fill_window mx sent_tokens start e tok =
     (if e < length sent_tokens then
        let t = sent_tokens ! e in
        if mx < tok + t \<and> start < e then (e, tok)
        else if mx \<le> tok + t then (e + 1, tok + t)
        else fill_window mx sent_tokens start (e + 1) (tok + t)
      else (e, tok))"
  by pat_completeness auto
termination by (relation "measure (\<lambda>(mx, sent_tokens, start, e, tok). length sent_tokens - e)") auto

declare fill_window.simps [simp del]

text \<open>The walk backwards from the end of a window over the sentences that fit the overlap.\<close>

function reclaim :: "nat \<Rightarrow> nat list \<Rightarrow> nat \<Rightarrow> nat \<Rightarrow> nat \<Rightarrow> nat" where
  "reclaim ov sent_tokens start next_start overlap_tok =
     (if start + 1 < next_start then
        let t = sent_tokens ! (next_start - 1) in
        if ov < overlap_tok + t then next_start
        else reclaim ov sent_tokens start (next_start - 1) (overlap_tok + t)
      else next_start)"
  by pat_completeness auto
termination by (relation "measure (\<lambda>(ov, sent_tokens, start, next_start, overlap_tok). next_start)") auto

declare reclaim.simps [simp del]

text \<open>The windows \<open>start..end\<close> with their tokens; \<open>end\<close> is past \<open>start\<close> already, but the code makes sure.\<close>

definition window_at :: "nat \<Rightarrow> nat list \<Rightarrow> nat \<Rightarrow> nat \<times> nat" where
  "window_at mx sent_tokens start =
     (case fill_window mx sent_tokens start start 0 of
        (e, tok) \<Rightarrow> if e = start then (start + 1, sent_tokens ! start) else (e, tok))"

function sentence_windows :: "nat \<Rightarrow> nat \<Rightarrow> nat list \<Rightarrow> nat \<Rightarrow> (nat \<times> nat \<times> nat) list" where
  "sentence_windows mx ov sent_tokens start =
     (if length sent_tokens \<le> start then []
      else case window_at mx sent_tokens start of
        (e, tok) \<Rightarrow>
          if length sent_tokens \<le> e then [(start, e, tok)]
          else (start, e, tok) # sentence_windows mx ov sent_tokens (max (reclaim ov sent_tokens start e 0) (start + 1)))"
  by pat_completeness auto
termination by (relation "measure (\<lambda>(mx, ov, sent_tokens, start). length sent_tokens - start)") auto

declare sentence_windows.simps [simp del]

definition sentences_of :: "(ustr \<Rightarrow> ustr list) \<Rightarrow> ustr \<Rightarrow> ustr list" where
  "sentences_of split_sentence_bounds t = filter (\<lambda>s. s \<noteq> []) (map trim (split_sentence_bounds t))"

definition chunk_sentence_recursive :: "(ustr \<Rightarrow> ustr list) \<Rightarrow> ingest_section list \<Rightarrow> u32 \<Rightarrow> u32 \<Rightarrow> ingest_chunk list" where
  "chunk_sentence_recursive split_sentence_bounds sections max_tokens overlap =
     for_sections sections (\<lambda>i s.
       let sentences = sentences_of split_sentence_bounds (trim (sc_text s));
           sent_tokens = map (\<lambda>s. length (split_whitespace s)) sentences in
       map (\<lambda>(start, e, tok). \<lparr>ck_section_path = section_path_for sections i,
           ck_text = join (lit '' '') (take (e - start) (drop start sentences)), ck_tokens_estimate = saturate32 tok\<rparr>)
         (sentence_windows (budget max_tokens) (overlap_budget max_tokens overlap) sent_tokens 0))"

section \<open>Sessions\<close>

text \<open>\<open>strip_prefix('[')\<close> and \<open>strip_suffix(']')\<close>\<close>

definition section_role :: "ingest_section \<Rightarrow> ustr option" where
  "section_role s =
     (case sc_heading s of
        Some (c # h) \<Rightarrow> if c = 91 \<and> h \<noteq> [] \<and> last h = 93 then Some (butlast h) else None
      | _ \<Rightarrow> None)"

definition is_user :: "ingest_section \<Rightarrow> bool" where
  "is_user s \<longleftrightarrow> section_role s = Some (lit ''user'')"

fun session_text :: "nat \<Rightarrow> ingest_section list \<Rightarrow> ustr" where
  "session_text idx [] = []"
| "session_text idx (s # ss) =
     (if idx > 0 then [10, 10] else []) @ (case sc_heading s of Some h \<Rightarrow> h @ [10] | None \<Rightarrow> []) @ sc_text s @ session_text (idx + 1) ss"

text \<open>\<open>flush\<close>: the buffer holds references into the vector, modelled with their index.\<close>

definition session_chunk :: "ingest_section list \<Rightarrow> (nat \<times> ingest_section) list \<Rightarrow> ingest_chunk" where
  "session_chunk sections buffer =
     (let t = session_text 0 (map snd buffer) in
      \<lparr>ck_section_path = (case buffer of [] \<Rightarrow> [] | (i, _) # _ \<Rightarrow> section_path_for sections i), ck_text = t, ck_tokens_estimate = token_count t\<rparr>)"

definition flush :: "ingest_section list \<Rightarrow> (nat \<times> ingest_section) list \<Rightarrow> ingest_chunk list \<Rightarrow> ingest_chunk list" where
  "flush sections buffer out = (if buffer = [] then out else out @ [session_chunk sections buffer])"

fun session_loop ::
    "ingest_section list \<Rightarrow> nat \<Rightarrow> (nat \<times> ingest_section) list \<Rightarrow> (nat \<times> ingest_section) list \<Rightarrow> bool \<Rightarrow> ingest_chunk list \<Rightarrow> ingest_chunk list" where
  "session_loop sections cap [] buffer saw_non_user out = flush sections buffer out"
| "session_loop sections cap ((i, s) # rest) buffer saw_non_user out =
     (if trim (sc_text s) = [] then session_loop sections cap rest buffer saw_non_user out
      else
        let boundary = is_user s \<and> saw_non_user \<and> buffer \<noteq> [];
            out = (if boundary then flush sections buffer out else out);
            saw_non_user = (if boundary then False else saw_non_user);
            buffer = (if boundary then [] else buffer) @ [(i, s)];
            saw_non_user = (if \<not> is_user s then True else saw_non_user) in
        if cap \<le> length buffer then session_loop sections cap rest [] False (flush sections buffer out)
        else session_loop sections cap rest buffer saw_non_user out)"

definition chunk_session :: "ingest_section list \<Rightarrow> nat \<Rightarrow> ingest_chunk list" where
  "chunk_session sections max_messages = session_loop sections (max max_messages 1) (enumerate 0 sections) [] False []"

section \<open>The chunker\<close>

fun chunk :: "(ustr \<Rightarrow> ustr list) \<Rightarrow> ingest_section list \<Rightarrow> chunker_kind \<Rightarrow> ingest_chunk list" where
  "chunk split_sentence_bounds sections Paragraph = chunk_paragraph sections"
| "chunk split_sentence_bounds sections (Recursive max_tokens overlap) = chunk_recursive sections max_tokens overlap"
| "chunk split_sentence_bounds sections (SentenceRecursive max_tokens overlap) =
     chunk_sentence_recursive split_sentence_bounds sections max_tokens overlap"
| "chunk split_sentence_bounds sections (Session max_messages) = chunk_session sections max_messages"
| "chunk split_sentence_bounds sections Structural = chunk_structural sections"

end
