(* ===== verification/Ingest_Spec.thy ===== *)
theory Ingest_Spec imports Ingest_Chunk begin

text \<open>
  What the chunkers cut: the windows of words cover the words of a section with exactly the overlap asked for, the windows
  of sentences cover the sentences within the budget, and the session chunks partition the messages.
\<close>

section \<open>Windows of words\<close>

text \<open>The windows put together again: each after the first without its overlap.\<close>

definition reassemble :: "nat \<Rightarrow> 'a list list \<Rightarrow> 'a list" where
  "reassemble ov ws = (case ws of [] \<Rightarrow> [] | w # ws \<Rightarrow> w @ concat (map (drop ov) ws))"

definition overlapping :: "nat \<Rightarrow> 'a list list \<Rightarrow> bool" where
  "overlapping ov ws \<longleftrightarrow> successively (\<lambda>v w. ov \<le> length v \<and> take ov w = drop (length v - ov) v) ws"

lemma word_windows_step:
  assumes "ov < mx" and "start < length tokens"
  shows "word_windows mx ov tokens start =
    take mx (drop start tokens) # (if start + mx < length tokens then word_windows mx ov tokens (start + (mx - ov)) else [])"
proof -
  have "max (mx - ov) 1 = mx - ov" using assms(1) by simp
  moreover have "take (min (start + mx) (length tokens) - start) (drop start tokens) = take mx (drop start tokens)"
    by (cases "start + mx \<le> length tokens") simp_all
  ultimately show ?thesis using assms by (subst word_windows.simps) (auto simp: Let_def min_def)
qed

lemma word_windows_Nil: "length tokens \<le> start \<Longrightarrow> word_windows mx ov tokens start = []"
  by (simp add: word_windows.simps)

lemma word_windows_cover:
  assumes "ov < mx" and "start < length tokens"
  shows "reassemble ov (word_windows mx ov tokens start) = drop start tokens \<and>
    overlapping ov (word_windows mx ov tokens start) \<and>
    (\<forall>w \<in> set (word_windows mx ov tokens start). 0 < length w \<and> length w \<le> mx \<and> set w \<subseteq> set tokens)"
  using assms
proof (induction "length tokens - start" arbitrary: start rule: less_induct)
  case less
  let ?w = "take mx (drop start tokens)" and ?next = "start + (mx - ov)"
  have w: "0 < length ?w" "length ?w \<le> mx" "set ?w \<subseteq> set tokens"
    using less.prems by (auto dest!: in_set_takeD in_set_dropD)
  note step = word_windows_step [OF less.prems]
  show ?case
  proof (cases "start + mx < length tokens")
    case False
    then show ?thesis using w by (simp add: step reassemble_def overlapping_def)
  next
    case True
    then have nl: "?next < length tokens" using less.prems(1) by simp
    have "length tokens - ?next < length tokens - start" using less.prems nl by simp
    note IH = less.hyps [OF this less.prems(1) nl]
    note step' = word_windows_step [OF less.prems(1) nl]
    let ?w' = "take mx (drop ?next tokens)"
    obtain ws where ws: "word_windows mx ov tokens ?next = ?w' # ws" using step' by blast
    have len: "length ?w = mx" "ov \<le> length ?w'" using True less.prems(1) by simp_all
    have eq: "?w' @ concat (map (drop ov) ws) = drop ?next tokens" using IH ws by (simp add: reassemble_def)
    have "drop ov ?w' @ concat (map (drop ov) ws) = drop ov (?w' @ concat (map (drop ov) ws))"
      by (simp only: drop_append diff_is_0_eq [THEN iffD2, OF len(2)] drop_0)
    also have "\<dots> = drop ov (drop ?next tokens)" by (simp only: eq)
    also have "drop ov (drop ?next tokens) = drop mx (drop start tokens)" using less.prems(1) by (simp add: add.commute)
    finally have rest: "drop ov ?w' @ concat (map (drop ov) ws) = drop mx (drop start tokens)" .
    have "?w @ concat (map (drop ov) (?w' # ws)) = ?w @ drop mx (drop start tokens)"
      by (simp only: list.map concat.simps rest)
    then have "?w @ concat (map (drop ov) (?w' # ws)) = drop start tokens" by (simp only: append_take_drop_id)
    moreover have "take ov ?w' = drop (length ?w - ov) ?w"
      using less.prems(1) len(1) by (simp add: take_drop add.commute)
    moreover have all: "word_windows mx ov tokens start = ?w # ?w' # ws" using True by (simp only: step ws if_True)
    moreover have "overlapping ov (?w' # ws)" "\<forall>w \<in> set (?w' # ws). 0 < length w \<and> length w \<le> mx \<and> set w \<subseteq> set tokens"
      using IH unfolding ws by blast+
    moreover have "ov \<le> length ?w" using len(1) less.prems(1) by simp
    ultimately show ?thesis
      using w unfolding all reassemble_def overlapping_def list.case successively.simps by simp
  qed
qed

section \<open>Windows of sentences\<close>

definition span :: "nat list \<Rightarrow> nat \<Rightarrow> nat \<Rightarrow> nat" where
  "span ts a b = sum_list (take (b - a) (drop a ts))"

lemma span_Suc: "a \<le> b \<Longrightarrow> b < length ts \<Longrightarrow> span ts a (Suc b) = span ts a b + ts ! b"
  by (simp add: span_def Suc_diff_le take_Suc_conv_app_nth)

lemma span_same [simp]: "span ts a a = 0"
  by (simp add: span_def)

lemma span_split: "a \<le> b \<Longrightarrow> b \<le> c \<Longrightarrow> span ts a c = span ts a b + span ts b c"
proof -
  assume le: "a \<le> b" "b \<le> c"
  then have c: "c - a = (b - a) + (c - b)" by simp
  have "take (c - a) (drop a ts) = take (b - a) (drop a ts) @ take (c - b) (drop b ts)"
    unfolding c take_add using le by simp
  then show ?thesis by (simp add: span_def)
qed

lemma span_mono: "a \<le> b \<Longrightarrow> b \<le> c \<Longrightarrow> span ts a b \<le> span ts a c"
  using span_split [of a b c ts] by simp

lemma fill_window_spec:
  assumes "fill_window mx ts start e tok = (e', tok')" and "start \<le> e" and "e \<le> length ts" and "tok = span ts start e"
    and "e = start \<or> tok < mx" and "0 < mx"
  shows "e \<le> e' \<and> e' \<le> length ts \<and> tok' = span ts start e' \<and> (start < length ts \<longrightarrow> start < e') \<and>
    (tok' \<le> mx \<or> e' = start + 1) \<and> (\<forall>b. e \<le> b \<longrightarrow> b \<le> length ts \<longrightarrow> span ts start b < mx \<longrightarrow> b \<le> e')"
  using assms
proof (induction mx ts start e tok arbitrary: e' tok' rule: fill_window.induct)
  case (1 mx ts start e tok)
  note run = "1.prems"(1) [unfolded fill_window.simps [of mx ts start e tok]]
  show ?case
  proof (cases "e < length ts")
    case False
    with run "1.prems" show ?thesis by auto
  next
    case True
    let ?t = "ts ! e"
    have s: "span ts start (Suc e) = tok + ?t" using True "1.prems" by (simp add: span_Suc)
    have stop: "b \<le> e" if "e \<le> b" "b \<le> length ts" "span ts start b < mx" "mx \<le> tok + ?t" for b
    proof (rule ccontr)
      assume "\<not> b \<le> e"
      then have "span ts start (Suc e) \<le> span ts start b" using "1.prems"(2) that(1) by (intro span_mono) auto
      then show False using that s by simp
    qed
    consider (full) "mx < tok + ?t" "start < e" | (reached) "\<not> (mx < tok + ?t \<and> start < e)" "mx \<le> tok + ?t" | (more) "tok + ?t < mx" by linarith
    then show ?thesis
    proof cases
      case full
      then have "e' = e" "tok' = tok" using run True by (auto simp: Let_def)
      then show ?thesis using "1.prems" full stop by auto
    next
      case reached
      then have r: "e' = Suc e" "tok' = tok + ?t" using run True by (auto simp: Let_def)
      have "b \<le> Suc e" if "e \<le> b" "b \<le> length ts" "span ts start b < mx" for b
        using stop [OF that reached(2)] by simp
      then show ?thesis using r s True "1.prems" reached by auto
    next
      case more
      then have rec: "fill_window mx ts start (e + 1) (tok + ?t) = (e', tok')" using run True by (auto simp: Let_def)
      have "e + 1 \<le> e' \<and> e' \<le> length ts \<and> tok' = span ts start e' \<and> (start < length ts \<longrightarrow> start < e') \<and>
          (tok' \<le> mx \<or> e' = start + 1) \<and> (\<forall>b. e + 1 \<le> b \<longrightarrow> b \<le> length ts \<longrightarrow> span ts start b < mx \<longrightarrow> b \<le> e')"
        using True more "1.prems" s by (intro "1.IH" [OF True refl _ _ rec]) auto
      then show ?thesis by (auto simp: le_Suc_eq dest: Suc_leI le_neq_implies_less)
    qed
  qed
qed

lemma reclaim_step:
  "reclaim ov ts start n tok =
     (if start + 1 < n \<and> tok + ts ! (n - 1) \<le> ov then reclaim ov ts start (n - 1) (tok + ts ! (n - 1)) else n)"
  by (subst reclaim.simps) (auto simp: Let_def)

lemma reclaim_spec:
  assumes "start < n" and "n \<le> e" and "e \<le> length ts" and "tok = span ts n e" and "tok \<le> ov"
  shows "start < reclaim ov ts start n tok \<and> reclaim ov ts start n tok \<le> n \<and> span ts (reclaim ov ts start n tok) e \<le> ov"
  using assms
proof (induction ov ts start n tok rule: reclaim.induct)
  case (1 ov ts start n tok)
  show ?case
  proof (cases "start + 1 < n \<and> tok + ts ! (n - 1) \<le> ov")
    case False
    then have "reclaim ov ts start n tok = n" using False by (simp only: reclaim_step [of ov ts start n tok] if_False)
    then show ?thesis using "1.prems" by simp
  next
    case True
    have "span ts (n - 1) e = ts ! (n - 1) + span ts n e"
    proof -
      have n: "n - 1 < length ts" "n - 1 \<le> n" "Suc (n - 1) = n" using True "1.prems" by auto
      have "span ts (n - 1) e = span ts (n - 1) n + span ts n e" using n "1.prems"(2) by (intro span_split)
      moreover have "span ts (n - 1) n = ts ! (n - 1)" using span_Suc [of "n - 1" "n - 1" ts] n by simp
      ultimately show ?thesis by simp
    qed
    then have eq: "tok + ts ! (n - 1) = span ts (n - 1) e" using "1.prems"(4) by simp
    have "reclaim ov ts start n tok = reclaim ov ts start (n - 1) (tok + ts ! (n - 1))" using True by (subst reclaim_step) simp
    moreover have "start < reclaim ov ts start (n - 1) (tok + ts ! (n - 1)) \<and> reclaim ov ts start (n - 1) (tok + ts ! (n - 1)) \<le> n - 1 \<and>
        span ts (reclaim ov ts start (n - 1) (tok + ts ! (n - 1))) e \<le> ov"
      by (rule "1.IH" [OF _ refl]) (use True "1.prems"(1-3) eq in \<open>auto simp only: not_less less_diff_conv\<close>)
    moreover have "n - 1 \<le> n" by simp
    ultimately show ?thesis by (metis order_trans)
  qed
qed

text \<open>The windows over sentences with the token counts \<open>ts\<close>: they start at \<open>a\<close>, end at the last sentence, and each next one
  starts inside the one before, overlapping it by \<open>ov\<close> tokens at most, and does not end before it.\<close>

definition window_ok :: "nat \<Rightarrow> nat list \<Rightarrow> nat \<times> nat \<times> nat \<Rightarrow> bool" where
  "window_ok mx ts = (\<lambda>(a, b, tok). a < b \<and> b \<le> length ts \<and> tok = span ts a b \<and> (tok \<le> mx \<or> b = a + 1))"

definition window_next :: "nat \<Rightarrow> nat list \<Rightarrow> nat \<times> nat \<times> nat \<Rightarrow> nat \<times> nat \<times> nat \<Rightarrow> bool" where
  "window_next ov ts = (\<lambda>(a, b, _) (a', b', _). a < a' \<and> a' \<le> b \<and> b \<le> b' \<and> span ts a' b \<le> ov)"

lemma window_at_spec:
  assumes "window_at mx ts a = (b, tok)" and "a < length ts" and "0 < mx"
  shows "window_ok mx ts (a, b, tok) \<and> (\<forall>c. a \<le> c \<longrightarrow> c \<le> length ts \<longrightarrow> span ts a c < mx \<longrightarrow> c \<le> b)"
proof -
  obtain e t where f: "fill_window mx ts a a 0 = (e, t)" by fastforce
  have "a \<le> e \<and> e \<le> length ts \<and> t = span ts a e \<and> (a < length ts \<longrightarrow> a < e) \<and> (t \<le> mx \<or> e = a + 1) \<and>
      (\<forall>b. a \<le> b \<longrightarrow> b \<le> length ts \<longrightarrow> span ts a b < mx \<longrightarrow> b \<le> e)"
    using assms(2,3) by (intro fill_window_spec [OF f]) auto
  with assms(1,2) f show ?thesis by (auto simp: window_at_def window_ok_def split: if_splits)
qed

lemma sentence_windows_spec:
  assumes "ov < mx" and "a < length ts"
  shows "\<exists>b tok ws. sentence_windows mx ov ts a = (a, b, tok) # ws \<and> window_at mx ts a = (b, tok) \<and>
    list_all (window_ok mx ts) ((a, b, tok) # ws) \<and> successively (window_next ov ts) ((a, b, tok) # ws) \<and>
    fst (snd (last ((a, b, tok) # ws))) = length ts"
  using assms
proof (induction "length ts - a" arbitrary: a rule: less_induct)
  case less
  obtain b tok where w: "window_at mx ts a = (b, tok)" by fastforce
  have ok: "window_ok mx ts (a, b, tok)" using window_at_spec [OF w less.prems(2)] less.prems(1) by simp
  then have b: "a < b" "b \<le> length ts" by (simp_all add: window_ok_def)
  show ?case
  proof (cases "b = length ts")
    case True
    then have "sentence_windows mx ov ts a = [(a, b, tok)]"
      using less.prems w by (subst sentence_windows.simps) simp
    then show ?thesis using w ok True by simp
  next
    case False
    let ?a = "max (reclaim ov ts a b 0) (a + 1)"
    have r: "a < reclaim ov ts a b 0" "reclaim ov ts a b 0 \<le> b" "span ts (reclaim ov ts a b 0) b \<le> ov"
      using reclaim_spec [of a b b ts 0 ov] b by simp_all
    then have a': "?a = reclaim ov ts a b 0" by simp
    have lt: "?a < length ts" using r(2) b(2) False a' by simp
    have "length ts - ?a < length ts - a" using less.prems(2) r(1) lt a' by simp
    from less.hyps [OF this less.prems(1) lt] obtain b' tok' ws where IH: "sentence_windows mx ov ts ?a = (?a, b', tok') # ws"
        "window_at mx ts ?a = (b', tok')" "list_all (window_ok mx ts) ((?a, b', tok') # ws)"
        "successively (window_next ov ts) ((?a, b', tok') # ws)" "fst (snd (last ((?a, b', tok') # ws))) = length ts" by blast
    have "b \<le> b'"
      using window_at_spec [OF IH(2) lt] r b(2) less.prems(1) a' by (metis gr_implies_not0 le_less_trans not_gr_zero)
    then have n: "window_next ov ts (a, b, tok) (?a, b', tok')" using r a' by (simp add: window_next_def)
    have "sentence_windows mx ov ts a = (a, b, tok) # sentence_windows mx ov ts ?a"
      using less.prems(2) w b False by (subst sentence_windows.simps) simp
    then have "sentence_windows mx ov ts a = (a, b, tok) # (?a, b', tok') # ws" by (simp only: IH(1))
    then show ?thesis using w ok n IH(3-5) by (intro exI [of _ b] exI [of _ tok] exI [of _ "(?a, b', tok') # ws"]) simp
  qed
qed

section \<open>Chunks of a section\<close>

lemma trim_Nil: "trim t = [] \<longleftrightarrow> list_all is_whitespace t"
proof (cases "dropWhile is_whitespace t")
  case Nil
  then show ?thesis using dropWhile_eq_Nil_conv [of is_whitespace t] by (simp only: trim_def Nil rev.simps dropWhile.simps list_all_iff)
next
  case (Cons c cs)
  then have "\<not> is_whitespace c" by (metis hd_dropWhile list.discI list.sel(1))
  moreover have "\<not> list_all is_whitespace t" using Cons by (metis dropWhile_eq_Nil_conv list.discI list_all_iff)
  ultimately show ?thesis by (simp add: trim_def Cons dropWhile_eq_Nil_conv)
qed

lemma for_sections_all2:
  assumes "\<And>i s. trim (sc_text s) \<noteq> [] \<Longrightarrow> P i s (f i s)" and "\<And>i s. trim (sc_text s) = [] \<Longrightarrow> P i s []"
  shows "\<exists>css. for_sections sections f = concat css \<and> list_all2 (\<lambda>(i, s) cs. P i s cs) (enumerate 0 sections) css"
  unfolding for_sections_def
  by (intro exI conjI, rule refl) (auto simp: list_all2_map2 assms intro!: list_all2_refl)

text \<open>The chunks \<open>cs\<close> that \<open>chunk_recursive\<close> cuts from a section.\<close>

definition word_chunks :: "ustr list \<Rightarrow> nat \<Rightarrow> nat \<Rightarrow> ustr list \<Rightarrow> ingest_chunk list \<Rightarrow> bool" where
  "word_chunks path mx ov tokens cs \<longleftrightarrow>
     (let ws = map (\<lambda>c. split_whitespace (ck_text c)) cs in
      reassemble ov ws = tokens \<and> overlapping ov ws \<and>
      list_all (\<lambda>w. 0 < length w \<and> length w \<le> mx) ws \<and>
      list_all (\<lambda>c. ck_section_path c = path \<and> ck_tokens_estimate c = saturate32 (length (split_whitespace (ck_text c)))) cs)"

lemma lit_space: "lit '' '' = [32]"
  by (simp add: lit_def)

lemma budget_pos: "0 < budget max_tokens" and overlap_budget_less: "overlap_budget max_tokens overlap < budget max_tokens"
proof -
  have "(1 :: u32) \<le> max max_tokens 1" by simp
  then show pos: "0 < budget max_tokens" by (simp add: budget_def word_le_nat_alt)
  then show "overlap_budget max_tokens overlap < budget max_tokens" by (simp add: overlap_budget_def min_less_iff_disj)
qed

lemma word_windows_chunks:
  fixes mk :: "ustr list \<Rightarrow> ingest_chunk"
  assumes "ov < mx" and "tokens = split_whitespace t"
    and mk: "\<And>slice. mk slice = \<lparr>ck_section_path = path, ck_text = join (lit '' '') slice, ck_tokens_estimate = saturate32 (length slice)\<rparr>"
  shows "word_chunks path mx ov tokens (map mk (word_windows mx ov tokens 0))"
proof (cases "tokens = []")
  case True
  then show ?thesis by (simp add: word_windows_Nil word_chunks_def reassemble_def overlapping_def)
next
  case False
  let ?ws = "word_windows mx ov tokens 0"
  have cover: "reassemble ov ?ws = tokens" "overlapping ov ?ws" "\<forall>w \<in> set ?ws. 0 < length w \<and> length w \<le> mx \<and> set w \<subseteq> set tokens"
    using word_windows_cover [OF assms(1), of 0 tokens] False by auto
  have words: "list_all is_word tokens" using split_ws_words by (auto simp: assms(2) list_all_iff)
  have split: "split_whitespace (join [32] w) = w" if "w \<in> set ?ws" for w
    using cover(3) words that by (intro split_ws_join) (auto simp: list_all_iff)
  then have "map (\<lambda>c. split_whitespace (ck_text c)) (map mk ?ws) = ?ws" by (simp add: mk lit_space map_idI)
  then show ?thesis using cover split by (simp add: word_chunks_def Let_def list_all_iff mk lit_space)
qed

lemma chunk_recursive_sections:
  "\<exists>css. chunk_recursive sections max_tokens overlap = concat css \<and>
    list_all2 (\<lambda>(i, s) cs. word_chunks (section_path_for sections i) (budget max_tokens) (overlap_budget max_tokens overlap)
      (split_whitespace (sc_text s)) cs) (enumerate 0 sections) css"
  unfolding chunk_recursive_def
proof (rule for_sections_all2)
  fix i :: nat and s :: ingest_section assume "trim (sc_text s) = []"
  then have "split_whitespace (sc_text s) = []" by (simp add: trim_Nil split_ws_blank)
  then show "word_chunks (section_path_for sections i) (budget max_tokens) (overlap_budget max_tokens overlap) (split_whitespace (sc_text s)) []"
    by (simp add: word_chunks_def reassemble_def overlapping_def)
qed (rule word_windows_chunks [OF overlap_budget_less refl refl])

text \<open>The chunks that \<open>chunk_sentence_recursive\<close> cuts from a section with the given sentences, and the windows they come from.\<close>

definition sentence_chunks :: "ustr list \<Rightarrow> nat \<Rightarrow> nat \<Rightarrow> ustr list \<Rightarrow> ingest_chunk list \<Rightarrow> bool" where
  "sentence_chunks path mx ov sentences cs \<longleftrightarrow>
     (let ts = map (\<lambda>s. length (split_whitespace s)) sentences in
      \<exists>ws. list_all2 (\<lambda>(a, b, tok) c. ck_section_path c = path \<and> ck_text c = join [32] (take (b - a) (drop a sentences)) \<and>
            ck_tokens_estimate c = saturate32 tok \<and> tok = length (split_whitespace (ck_text c))) ws cs \<and>
          list_all (window_ok mx ts) ws \<and> successively (window_next ov ts) ws \<and>
          (ws = [] \<longleftrightarrow> sentences = []) \<and> (ws \<noteq> [] \<longrightarrow> fst (hd ws) = 0 \<and> fst (snd (last ws)) = length sentences))"

lemma length_concat_split: "length (split_whitespace (join [32] ps)) = sum_list (map (\<lambda>s. length (split_whitespace s)) ps)"
  by (simp add: split_ws_join_pieces length_concat o_def)

lemma sentence_windows_chunks:
  assumes "ov < mx"
  shows "sentence_chunks path mx ov sentences
    (map (\<lambda>(start, e, tok). \<lparr>ck_section_path = path, ck_text = join (lit '' '') (take (e - start) (drop start sentences)),
      ck_tokens_estimate = saturate32 tok\<rparr>) (sentence_windows mx ov (map (\<lambda>s. length (split_whitespace s)) sentences) 0))"
proof -
  let ?ts = "map (\<lambda>s. length (split_whitespace s)) sentences"
  let ?ws = "sentence_windows mx ov ?ts 0"
  have all: "list_all (window_ok mx ?ts) ?ws \<and> successively (window_next ov ?ts) ?ws \<and> (?ws = [] \<longleftrightarrow> sentences = []) \<and>
      (?ws \<noteq> [] \<longrightarrow> fst (hd ?ws) = 0 \<and> fst (snd (last ?ws)) = length sentences)"
  proof (cases "sentences = []")
    case True
    then show ?thesis by (simp add: sentence_windows.simps)
  next
    case False
    then obtain b tok ws where w: "?ws = (0, b, tok) # ws" "list_all (window_ok mx ?ts) ((0, b, tok) # ws)"
        "successively (window_next ov ?ts) ((0, b, tok) # ws)" "fst (snd (last ((0, b, tok) # ws))) = length ?ts"
      using sentence_windows_spec [OF assms, of 0 ?ts] by auto
    show ?thesis using w False unfolding w(1) by simp
  qed
  have "length (split_whitespace (join [32] (take (b - a) (drop a sentences)))) = tok" if "(a, b, tok) \<in> set ?ws" for a b tok
  proof -
    have "window_ok mx ?ts (a, b, tok)" using all that by (auto simp: list_all_iff)
    then show ?thesis by (simp add: window_ok_def span_def length_concat_split take_map drop_map)
  qed
  then have "list_all2 (\<lambda>(a, b, tok) c. ck_section_path c = path \<and> ck_text c = join [32] (take (b - a) (drop a sentences)) \<and>
            ck_tokens_estimate c = saturate32 tok \<and> tok = length (split_whitespace (ck_text c))) ?ws
    (map (\<lambda>(start, e, tok). \<lparr>ck_section_path = path, ck_text = join (lit '' '') (take (e - start) (drop start sentences)),
      ck_tokens_estimate = saturate32 tok\<rparr>) ?ws)"
    unfolding list_all2_map2 by (intro list.rel_refl_strong) (auto simp: lit_space)
  with all show ?thesis unfolding sentence_chunks_def Let_def by blast
qed

lemma chunk_sentence_sections:
  "\<exists>css. chunk_sentence_recursive split_sentence_bounds sections max_tokens overlap = concat css \<and>
    list_all2 (\<lambda>(i, s) cs. if trim (sc_text s) = [] then cs = [] else
      sentence_chunks (section_path_for sections i) (budget max_tokens) (overlap_budget max_tokens overlap)
        (sentences_of split_sentence_bounds (trim (sc_text s))) cs) (enumerate 0 sections) css"
  unfolding chunk_sentence_recursive_def Let_def
  by (rule for_sections_all2) (simp_all add: sentence_windows_chunks [OF overlap_budget_less])

section \<open>Sessions\<close>

text \<open>The buffers that \<open>session_loop\<close> flushes.\<close>

fun session_groups :: "nat \<Rightarrow> (nat \<times> ingest_section) list \<Rightarrow> (nat \<times> ingest_section) list \<Rightarrow> bool \<Rightarrow> (nat \<times> ingest_section) list list" where
  "session_groups cap [] buffer saw = (if buffer = [] then [] else [buffer])"
| "session_groups cap (x # rest) buffer saw =
     (if trim (sc_text (snd x)) = [] then session_groups cap rest buffer saw
      else if is_user (snd x) \<and> saw \<and> buffer \<noteq> [] then
        buffer # (if cap \<le> 1 then [x] # session_groups cap rest [] False else session_groups cap rest [x] False)
      else if cap \<le> Suc (length buffer) then (buffer @ [x]) # session_groups cap rest [] False
      else session_groups cap rest (buffer @ [x]) (saw \<or> \<not> is_user (snd x)))"

lemma session_loop_groups:
  "session_loop sections cap items buffer saw out = out @ map (session_chunk sections) (session_groups cap items buffer saw)"
  by (induction cap items buffer saw arbitrary: out rule: session_groups.induct) (auto simp: flush_def Let_def)

text \<open>A group is user messages followed by others, at most \<open>cap\<close> of them; it ends because it is full or because a user
  speaks after somebody else.\<close>

definition session_group :: "nat \<Rightarrow> (nat \<times> ingest_section) list \<Rightarrow> bool" where
  "session_group cap g \<longleftrightarrow> g \<noteq> [] \<and> length g \<le> cap \<and>
     list_all (\<lambda>x. \<not> is_user (snd x)) (dropWhile (\<lambda>x. is_user (snd x)) g)"

definition session_boundary :: "nat \<Rightarrow> (nat \<times> ingest_section) list \<Rightarrow> (nat \<times> ingest_section) list \<Rightarrow> bool" where
  "session_boundary cap g h \<longleftrightarrow> length g = cap \<or> \<not> is_user (snd (last g)) \<and> is_user (snd (hd h))"

definition session_buffer :: "nat \<Rightarrow> (nat \<times> ingest_section) list \<Rightarrow> bool \<Rightarrow> bool" where
  "session_buffer cap b saw \<longleftrightarrow> length b < cap \<and> list_all (\<lambda>x. \<not> is_user (snd x)) (dropWhile (\<lambda>x. is_user (snd x)) b) \<and>
     (saw \<longleftrightarrow> (dropWhile (\<lambda>x. is_user (snd x)) b \<noteq> []))"

lemma dropWhile_snoc: "dropWhile P (xs @ [x]) = (if dropWhile P xs = [] then (if P x then [] else [x]) else dropWhile P xs @ [x])"
  by (induction xs) simp_all

lemma last_not_user:
  assumes "session_buffer cap b True"
  shows "\<not> is_user (snd (last b))"
proof -
  have "last b = last (dropWhile (\<lambda>x. is_user (snd x)) b)" "dropWhile (\<lambda>x. is_user (snd x)) b \<noteq> []"
    using assms by (auto simp: session_buffer_def dropWhile_last)
  then show ?thesis using assms by (metis last_in_set list_all_iff session_buffer_def)
qed

lemma session_groups_props:
  assumes "session_buffer cap b saw"
  shows "concat (session_groups cap items b saw) = b @ filter (\<lambda>x. trim (sc_text (snd x)) \<noteq> []) items \<and>
    list_all (session_group cap) (session_groups cap items b saw) \<and>
    successively (session_boundary cap) (session_groups cap items b saw) \<and>
    (b \<noteq> [] \<longrightarrow> session_groups cap items b saw \<noteq> [] \<and> hd (hd (session_groups cap items b saw)) = hd b)"
  using assms
proof (induction cap items b saw rule: session_groups.induct)
  case (1 cap b saw)
  then show ?case by (simp add: session_buffer_def session_group_def)
next
  case (2 cap x rest b saw)
  have cap: "0 < cap" "session_buffer cap [] False" using "2.prems" by (auto simp: session_buffer_def)
  have cons: "successively (session_boundary cap) (g # gs) \<longleftrightarrow> successively (session_boundary cap) gs \<and> (gs = [] \<or> session_boundary cap g (hd gs))" for g gs
    by (cases gs) auto
  consider (blank) "trim (sc_text (snd x)) = []"
    | (boundary) "trim (sc_text (snd x)) \<noteq> []" "is_user (snd x) \<and> saw \<and> b \<noteq> []"
    | (full) "trim (sc_text (snd x)) \<noteq> []" "\<not> (is_user (snd x) \<and> saw \<and> b \<noteq> [])" "cap \<le> Suc (length b)"
    | (more) "trim (sc_text (snd x)) \<noteq> []" "\<not> (is_user (snd x) \<and> saw \<and> b \<noteq> [])" "\<not> cap \<le> Suc (length b)" by blast
  then show ?case
  proof cases
    case blank
    then show ?thesis using "2.IH"(1) [OF _ "2.prems"] by simp
  next
    case boundary
    have g: "session_group cap b" using "2.prems" boundary by (simp add: session_buffer_def session_group_def)
    have nu: "\<not> is_user (snd (last b))" using "2.prems" boundary by (intro last_not_user) auto
    show ?thesis
    proof (cases "cap \<le> 1")
      case True
      then have "cap = 1" using cap by simp
      then have "b = []" using "2.prems" by (simp add: session_buffer_def)
      then show ?thesis using boundary by simp
    next
      case False
      have b: "session_buffer cap [x] False" using False boundary by (simp add: session_buffer_def)
      note IH = "2.IH"(3) [OF _ _ False b]
      have "session_boundary cap b h" if "hd h = x" for h using nu boundary that by (simp add: session_boundary_def)
      then show ?thesis using IH boundary g False by (auto simp: cons)
    qed
  next
    case full
    then have len: "length (b @ [x]) = cap" using "2.prems" by (simp add: session_buffer_def)
    have g: "session_group cap (b @ [x])"
      using "2.prems" full len by (auto simp: session_group_def session_buffer_def dropWhile_snoc)
    note IH = "2.IH"(4) [OF _ _ full(3) cap(2)]
    have "session_boundary cap (b @ [x]) h" for h using len by (simp add: session_boundary_def)
    then show ?thesis using IH full g by (auto simp: cons)
  next
    case more
    have b: "session_buffer cap (b @ [x]) (saw \<or> \<not> is_user (snd x))"
      using "2.prems" more by (auto simp: session_buffer_def dropWhile_snoc)
    note IH = "2.IH"(5) [OF _ _ more(3) b]
    show ?thesis using IH more by (auto simp: hd_append)
  qed
qed

lemma chunk_session_groups:
  "\<exists>groups. chunk_session sections max_messages = map (session_chunk sections) groups \<and>
    concat groups = filter (\<lambda>x. trim (sc_text (snd x)) \<noteq> []) (enumerate 0 sections) \<and>
    list_all (session_group (max max_messages 1)) groups \<and> successively (session_boundary (max max_messages 1)) groups"
proof -
  have "session_buffer (max max_messages 1) [] False" by (simp add: session_buffer_def)
  from session_groups_props [OF this, of "enumerate 0 sections"] show ?thesis
    by (auto simp: chunk_session_def session_loop_groups)
qed

end
