(* ===== verification/Ingest_Props.thy ===== *)
theory Ingest_Props imports Ingest_Spec begin

text \<open>
  The properties of the chunkers of \<open>crates/mnem-ingest\<close>. The chunks come section by section, in order; \<open>css\<close> are the chunks of
  each section.
\<close>

text \<open>C31 (\<open>chunk_recursive\<close>). The chunks of a section put together, each after the first without the overlap, are its words; two
  neighbours share exactly the overlap (at most one word less than the budget); no chunk is empty or has more words than
  the budget; and the estimate of a chunk is the number of its words.\<close>

theorem recursive_chunks_cover:
  "\<exists>css. chunk split_sentence_bounds sections (Recursive max_tokens overlap) = concat css \<and>
    list_all2 (\<lambda>(i, s) cs.
        let ws = map (\<lambda>c. split_whitespace (ck_text c)) cs; ov = overlap_budget max_tokens overlap in
        reassemble ov ws = split_whitespace (sc_text s) \<and>
        successively (\<lambda>v w. ov \<le> length v \<and> take ov w = drop (length v - ov) v) ws \<and>
        list_all (\<lambda>w. 0 < length w \<and> length w \<le> budget max_tokens) ws \<and>
        list_all (\<lambda>c. ck_section_path c = section_path_for sections i \<and>
          ck_tokens_estimate c = saturate32 (length (split_whitespace (ck_text c)))) cs)
      (enumerate 0 sections) css"
  using chunk_recursive_sections [of sections max_tokens overlap] by (simp add: word_chunks_def overlapping_def Let_def)

text \<open>C32 (\<open>chunk_sentence_recursive\<close>). The chunks of a section are windows of its sentences: the first starts at the first
  sentence and the last ends at the last one; a window has at most the budget of words or is a single sentence; the next
  one starts after the start of the one before and not past its end, does not end before it, and shares at most the
  overlap with it. The estimate is the number of words. A window may lie within the one before, when the overlap leaves
  no room for the next sentence.\<close>

theorem sentence_chunks_cover:
  "(\<exists>css. chunk split_sentence_bounds sections (SentenceRecursive max_tokens overlap) = concat css \<and>
    list_all2 (\<lambda>(i, s) cs. if trim (sc_text s) = [] then cs = [] else
      sentence_chunks (section_path_for sections i) (budget max_tokens) (overlap_budget max_tokens overlap)
        (sentences_of split_sentence_bounds (trim (sc_text s))) cs) (enumerate 0 sections) css) \<and>
   sentence_windows 10 9 [1, 5, 10] 0 = [(0, 2, 6), (1, 2, 5), (2, 3, 10)]"
proof -
  have "sentence_windows 10 9 [1, 5, 10] 0 = [(0, 2, 6), (1, 2, 5), (2, 3, 10)]" by code_simp
  then show ?thesis using chunk_sentence_sections [of split_sentence_bounds sections max_tokens overlap] by simp
qed

text \<open>Also (\<open>chunk_session\<close>). The session chunks are the texts of consecutive groups of the messages that are not blank, none lost
  or repeated. A group has at most \<open>max_messages\<close> messages (at least one) and no user message after one of somebody else; it
  ends before the next group only because it is full or because a user speaks after somebody else.\<close>

theorem session_chunks_partition:
  "\<exists>groups. chunk split_sentence_bounds sections (Session max_messages) = map (session_chunk sections) groups \<and>
    concat groups = filter (\<lambda>x. trim (sc_text (snd x)) \<noteq> []) (enumerate 0 sections) \<and>
    list_all (\<lambda>g. g \<noteq> [] \<and> length g \<le> max max_messages 1 \<and>
      list_all (\<lambda>x. \<not> is_user (snd x)) (dropWhile (\<lambda>x. is_user (snd x)) g)) groups \<and>
    successively (\<lambda>g h. length g = max max_messages 1 \<or> \<not> is_user (snd (last g)) \<and> is_user (snd (hd h))) groups"
  using chunk_session_groups [of sections max_messages]
  unfolding session_group_def session_boundary_def by simp

end
