(* ===== verification/Auth.thy ===== *)
theory Auth imports Prelude begin

text \<open>
  \<open>crates/mnem-http/src/auth.rs\<close>: the bearer token of the requests that write. A header value is the bytes the client
  sent; \<open>header_str\<close> is the test of the \<open>http\<close> crate behind \<open>HeaderValue::to_str\<close>, after which the text is its bytes.
\<close>

unbundle bit_operations_syntax

datatype auth_rejection = Missing | Mismatch | Unconfigured

definition ascii :: "string \<Rightarrow> bytes" where
  "ascii s = map (\<lambda>c. of_char c) s"

definition header_str :: "bytes \<Rightarrow> bytes option" where
  "header_str v = (if list_all (\<lambda>b. 32 \<le> b \<and> b < 127 \<or> b = 9) v then Some v else None)"

fun split_once :: "u8 \<Rightarrow> bytes \<Rightarrow> (bytes \<times> bytes) option" where
  "split_once d [] = None"
| "split_once d (b # bs) =
     (if b = d then Some ([], bs) else map_option (\<lambda>(x, y). (b # x, y)) (split_once d bs))"

definition ascii_lower :: "u8 \<Rightarrow> u8" where
  "ascii_lower b = (if 65 \<le> b \<and> b \<le> 90 then b + 32 else b)"

definition eq_ignore_ascii_case :: "bytes \<Rightarrow> bytes \<Rightarrow> bool" where
  "eq_ignore_ascii_case a b \<longleftrightarrow> map ascii_lower a = map ascii_lower b"

definition ascii_space :: "u8 \<Rightarrow> bool" where
  "ascii_space b \<longleftrightarrow> 9 \<le> b \<and> b \<le> 13 \<or> b = 32"

definition trim_ascii :: "bytes \<Rightarrow> bytes" where
  "trim_ascii t = rev (dropWhile ascii_space (rev (dropWhile ascii_space t)))"

definition extract_bearer :: "bytes option \<Rightarrow> bytes option" where
  "extract_bearer header =
     (case Option.bind header header_str of
        None \<Rightarrow> None
      | Some raw \<Rightarrow>
          (case split_once 32 raw of
             None \<Rightarrow> None
           | Some (scheme, token) \<Rightarrow>
               if \<not> eq_ignore_ascii_case scheme (ascii ''Bearer'') then None
               else let token = trim_ascii token in if token = [] then None else Some token))"

definition constant_time_eq :: "bytes \<Rightarrow> bytes \<Rightarrow> bool" where
  "constant_time_eq a b =
     (if length a \<noteq> length b then False
      else foldl (\<lambda>diff (x, y). diff OR (x XOR y)) 0 (zip a b) = 0)"

definition require_bearer :: "bytes option \<Rightarrow> bytes option \<Rightarrow> auth_rejection + unit" where
  "require_bearer push_token header =
     (case push_token of
        None \<Rightarrow> Inl Unconfigured
      | Some expected \<Rightarrow>
          rbind (ok_or (extract_bearer header) Missing) (\<lambda>presented.
          if constant_time_eq presented expected then Inr () else Inl Mismatch))"

text \<open>The status of the response to a rejected request.\<close>

definition auth_status :: "auth_rejection \<Rightarrow> nat" where
  "auth_status r = (case r of Missing \<Rightarrow> 401 | Mismatch \<Rightarrow> 401 | Unconfigured \<Rightarrow> 503)"

section \<open>The comparison\<close>

lemma foldl_diff_zero:
  "foldl (\<lambda>diff (x, y). diff OR (x XOR y)) d ps = 0 \<longleftrightarrow> d = 0 \<and> list_all (\<lambda>(x, y :: u8). x = y) ps"
proof (induction ps arbitrary: d)
  case (Cons p ps)
  have "d OR (x XOR y) = 0 \<longleftrightarrow> d = 0 \<and> x = y" for x y :: u8
    by (metis or_eq_0_iff xor_self_eq xor.left_neutral xor.assoc)
  with Cons show ?case by (cases p) simp
qed simp

lemma constant_time_eq_iff [simp]: "constant_time_eq a b \<longleftrightarrow> a = b"
  by (auto simp: constant_time_eq_def foldl_diff_zero list_all_length intro: nth_equalityI)

lemma require_bearer_ok: "require_bearer tok header = Inr () \<longleftrightarrow> (\<exists>t. tok = Some t \<and> extract_bearer header = Some t)"
  by (auto simp: require_bearer_def rbind_def ok_or_def split: option.splits)

lemma split_once_Some: "split_once d bs = Some (x, y) \<longleftrightarrow> bs = x @ d # y \<and> d \<notin> set x"
proof (induction bs arbitrary: x)
  case (Cons b bs)
  then show ?case by (cases x) auto
qed simp

lemma trim_ascii_ends: "trim_ascii t \<noteq> [] \<Longrightarrow> \<not> ascii_space (hd (trim_ascii t)) \<and> \<not> ascii_space (last (trim_ascii t))"
proof -
  let ?u = "dropWhile ascii_space t"
  let ?v = "dropWhile ascii_space (rev ?u)"
  assume "trim_ascii t \<noteq> []"
  then have v: "?v \<noteq> []" by (simp add: trim_ascii_def)
  then have l: "\<not> ascii_space (hd ?v)" by (rule hd_dropWhile)
  have "rev ?u = takeWhile ascii_space (rev ?u) @ ?v" by simp
  then have "?u = rev ?v @ rev (takeWhile ascii_space (rev ?u))" by (metis rev_append rev_rev_ident)
  with v have "hd ?u = hd (rev ?v)" "?u \<noteq> []" by (metis hd_append2 rev_is_Nil_conv, metis append_is_Nil_conv rev_is_Nil_conv)
  with hd_dropWhile [of ascii_space t] have "\<not> ascii_space (hd (rev ?v))" by simp
  with l v show ?thesis by (simp add: trim_ascii_def last_rev)
qed

end
