(* ===== verification/Protocol.thy ===== *)
theory Protocol imports Text begin

text \<open>
  \<open>crates/mnem-transport/src/protocol.rs\<close>: the capabilities two peers advertise in a header, as text and back. A
  \<open>BTreeSet\<close> of capabilities is a finite set, listed in the order of the enum.
\<close>

datatype capability = HaveSetBloom | HaveSetRbsr | PushNegotiate | FilterSpec | AtomicPush | SignedPush | SelfCertifyingRepoId

definition PROTOCOL_VERSION :: u32 where "PROTOCOL_VERSION = 1"

fun as_wire_str :: "capability \<Rightarrow> ustr" where
  "as_wire_str HaveSetBloom = lit ''have-set-bloom''"
| "as_wire_str HaveSetRbsr = lit ''have-set-rbsr''"
| "as_wire_str PushNegotiate = lit ''push-negotiate''"
| "as_wire_str FilterSpec = lit ''filter-spec''"
| "as_wire_str AtomicPush = lit ''atomic-push''"
| "as_wire_str SignedPush = lit ''signed-push''"
| "as_wire_str SelfCertifyingRepoId = lit ''self-certifying-repo-id''"

definition capability_all :: "capability list" where
  "capability_all = [AtomicPush, FilterSpec, HaveSetBloom, HaveSetRbsr, PushNegotiate, SelfCertifyingRepoId, SignedPush]"

definition capability_from_str :: "ustr \<Rightarrow> capability option" where
  "capability_from_str s =
     (if s = lit ''have-set-bloom'' then Some HaveSetBloom
      else if s = lit ''have-set-rbsr'' then Some HaveSetRbsr
      else if s = lit ''push-negotiate'' then Some PushNegotiate
      else if s = lit ''filter-spec'' then Some FilterSpec
      else if s = lit ''atomic-push'' then Some AtomicPush
      else if s = lit ''signed-push'' then Some SignedPush
      else if s = lit ''self-certifying-repo-id'' then Some SelfCertifyingRepoId
      else None)"

text \<open>\<open>str::split(',')\<close>: the pieces between commas, one more than there are commas.\<close>

fun split_comma :: "ustr \<Rightarrow> ustr list" where
  "split_comma [] = [[]]"
| "split_comma (c # t) =
     (if c = 44 then [] # split_comma t
      else (case split_comma t of [] \<Rightarrow> [[c]] | p # ps \<Rightarrow> (c # p) # ps))"

definition parse_capabilities :: "ustr \<Rightarrow> capability fset" where
  "parse_capabilities s =
     fset_of_list (List.map_filter capability_from_str (filter (\<lambda>tok. tok \<noteq> []) (map trim (split_comma s))))"

definition cap_iter :: "capability fset \<Rightarrow> capability list" where
  "cap_iter s = filter (\<lambda>c. c |\<in>| s)
     [HaveSetBloom, HaveSetRbsr, PushNegotiate, FilterSpec, AtomicPush, SignedPush, SelfCertifyingRepoId]"

definition serialize_capabilities :: "capability list \<Rightarrow> ustr" where
  "serialize_capabilities caps =
     (let sorted = sort_key as_wire_str (cap_iter (fset_of_list caps)) in
      fst (fold (\<lambda>c (out, first). ((if first then out else out @ [44]) @ as_wire_str c, False)) sorted ([], True)))"

section \<open>\<open>CapabilitySet\<close>\<close>

definition capset_all_known :: "capability fset" where
  "capset_all_known = fset_of_list capability_all"

definition capset_serialize :: "capability fset \<Rightarrow> ustr" where
  "capset_serialize s = serialize_capabilities (cap_iter s)"

definition capset_intersect :: "capability fset \<Rightarrow> capability fset \<Rightarrow> capability fset" where
  "capset_intersect s t = s |\<inter>| t"

text \<open>\<open>parse_wire_capabilities\<close> and \<open>negotiate_capabilities\<close> of \<open>client.rs\<close>.\<close>

definition parse_wire_capabilities :: "ustr list \<Rightarrow> capability list" where
  "parse_wire_capabilities raw = remdups_adj (sort_key as_wire_str (List.map_filter capability_from_str raw))"

definition negotiate_capabilities :: "capability fset \<Rightarrow> ustr list \<Rightarrow> capability fset" where
  "negotiate_capabilities own server = capset_intersect own (fset_of_list (parse_wire_capabilities server))"

section \<open>Writing and reading\<close>

lemma all_capabilities: "c \<in> set capability_all"
  by (cases c) (simp_all add: capability_all_def)

lemma capability_round [simp]: "capability_from_str (as_wire_str c) = Some c"
proof -
  have "list_all (\<lambda>c. capability_from_str (as_wire_str c) = Some c) capability_all" by code_simp
  with all_capabilities [of c] show ?thesis by (simp add: list_all_iff)
qed

lemma capability_from_str_Some: "capability_from_str s = Some c \<longleftrightarrow> s = as_wire_str c"
proof
  assume "capability_from_str s = Some c"
  then show "s = as_wire_str c"
    unfolding capability_from_str_def
    by (simp only: as_wire_str.simps option.inject option.distinct False_implies_equals split: if_split_asm)
qed simp

lemma cap_iter_set [simp]: "set (cap_iter s) = fset s"
proof -
  have "set [HaveSetBloom, HaveSetRbsr, PushNegotiate, FilterSpec, AtomicPush, SignedPush, SelfCertifyingRepoId] = set capability_all"
    by (auto simp: capability_all_def)
  also have "\<dots> = UNIV" using all_capabilities by blast
  finally show ?thesis unfolding cap_iter_def set_filter by simp
qed

lemma serialize_join:
  "fst (fold (\<lambda>c (out, first). ((if first then out else out @ [44]) @ as_wire_str c, False)) cs ([], True)) =
   join [44] (map as_wire_str cs)"
proof -
  have later: "fst (fold (\<lambda>c (out, first). ((if first then out else out @ [44]) @ as_wire_str c, False)) cs (out, False)) =
      out @ concat (map (\<lambda>c. 44 # as_wire_str c) cs)" for out cs
    by (induction cs arbitrary: out) simp_all
  have "join [44] (map as_wire_str (c # cs)) = as_wire_str c @ concat (map (\<lambda>c. 44 # as_wire_str c) cs)" for c cs
    by (induction cs arbitrary: c) simp_all
  with later show ?thesis by (cases cs) (simp_all del: join.simps(3))
qed

lemma split_comma_word: "list_all (\<lambda>c. c \<noteq> 44) w \<Longrightarrow> split_comma w = [w]"
  by (induction w) simp_all

lemma split_comma_words: "list_all (\<lambda>c. c \<noteq> 44) w \<Longrightarrow> split_comma (w @ 44 # t) = w # split_comma t"
  by (induction w) simp_all

lemma split_comma_join:
  "list_all (list_all (\<lambda>c. c \<noteq> 44)) ws \<Longrightarrow> ws \<noteq> [] \<Longrightarrow> split_comma (join [44] ws) = ws"
  by (induction ws rule: induct_list012) (auto simp: split_comma_word split_comma_words)

lemma wire_str_plain: "list_all (\<lambda>c. c \<noteq> 44) (as_wire_str c)" "trim (as_wire_str c) = as_wire_str c" "as_wire_str c \<noteq> []"
proof -
  have "list_all (\<lambda>c. list_all (\<lambda>c. 44 < c \<and> c < 127) (as_wire_str c) \<and> as_wire_str c \<noteq> []) capability_all"
    by code_simp
  with all_capabilities [of c] have w: "list_all (\<lambda>c. 44 < c \<and> c < 127) (as_wire_str c)" "as_wire_str c \<noteq> []"
    by (simp_all add: list_all_iff)
  then show "as_wire_str c \<noteq> []" "list_all (\<lambda>c. c \<noteq> 44) (as_wire_str c)" by (auto simp: list_all_iff)
  have "list_all (\<lambda>c. \<not> is_whitespace c) (as_wire_str c)" using w(1) by (auto simp: list_all_iff is_whitespace_def)
  then have "dropWhile is_whitespace w = w" if "set w = set (as_wire_str c)" for w
    using that by (cases w) (auto simp: list_all_iff)
  then show "trim (as_wire_str c) = as_wire_str c" by (simp add: trim_def)
qed

lemma parse_join: "parse_capabilities (join [44] (map as_wire_str cs)) = fset_of_list cs"
proof (cases "cs = []")
  case True
  then show ?thesis by (simp add: parse_capabilities_def trim_def)
next
  case False
  have "split_comma (join [44] (map as_wire_str cs)) = map as_wire_str cs"
    using False by (intro split_comma_join) (simp_all add: list_all_iff wire_str_plain(1) [unfolded list_all_iff])
  moreover have "filter (\<lambda>tok. tok \<noteq> []) (map as_wire_str cs) = map as_wire_str cs"
    by (simp add: filter_id_conv wire_str_plain(3))
  moreover have "List.map_filter capability_from_str (map as_wire_str cs) = cs"
    by (induction cs) (simp_all add: List.map_filter_def)
  ultimately show ?thesis by (simp add: parse_capabilities_def comp_def wire_str_plain(2))
qed

lemma parse_serialize: "parse_capabilities (capset_serialize s) = s"
proof -
  have "fset (fset_of_list (sort_key as_wire_str (cap_iter (fset_of_list (cap_iter s))))) = fset s"
    by (simp add: fset_of_list.rep_eq)
  then show ?thesis
    by (simp add: capset_serialize_def serialize_capabilities_def Let_def serialize_join parse_join fset_inject)
qed

lemma negotiate_set: "c |\<in>| negotiate_capabilities own server \<longleftrightarrow> c |\<in>| own \<and> as_wire_str c \<in> set server"
proof -
  have "c \<in> set (parse_wire_capabilities server) \<longleftrightarrow> as_wire_str c \<in> set server" for c
    by (auto simp: parse_wire_capabilities_def List.map_filter_def capability_from_str_Some intro!: rev_image_eqI)
  then show ?thesis by (simp add: negotiate_capabilities_def capset_intersect_def fset_of_list_elem)
qed

end
