(* ===== verification/Remote.thy ===== *)
theory Remote imports Car Auth Protocol Readonly Merge_Commit begin

text \<open>
  \<open>crates/mnem-http/src/routes/remote.rs\<close>: the four requests of the replication protocol on the state they share, the two
  stores behind the repository lock and the configured token. A body is the deserialised JSON; CIDs are text in it, read
  by \<open>Cid::parse_str\<close>, the parameter \<open>parse\<close>. A handler is a program on the server. Error texts, headers and the counters
  of the metrics are left out, and so is a poisoned lock.
\<close>

record ('c, 'b) server =
  sv_push_token :: "bytes option"
  sv_stores :: "('c, 'b) repo_state"

datatype 'c remote_error = RBadRequest | RNotFound 'c | RCasMismatch 'c | RInternal

datatype 'c reply_error = Rejected auth_rejection | Failed "'c remote_error"

definition remote_status :: "'c remote_error \<Rightarrow> nat" where
  "remote_status e = (case e of RBadRequest \<Rightarrow> 400 | RNotFound _ \<Rightarrow> 404 | RCasMismatch _ \<Rightarrow> 409 | RInternal \<Rightarrow> 500)"

definition DEFAULT_REF :: string where "DEFAULT_REF = ''main''"

definition on_stores ::
    "('e \<Rightarrow> 'c reply_error) \<Rightarrow> (('c, 'b) repo_state, 'e, 'a) prog \<Rightarrow> (('c, 'b) server, 'c reply_error, 'a) prog" where
  "on_stores f m = (\<lambda>s. let (r, t) = m (sv_stores s) in (map_err f r, s\<lparr>sv_stores := t\<rparr>))"

definition authorized :: "bytes option \<Rightarrow> (('c, 'b) server, 'c reply_error, unit) prog" where
  "authorized header = sread (\<lambda>s. map_err Rejected (require_bearer (sv_push_token s) header))"

section \<open>\<open>GET refs\<close>\<close>

record refs_response =
  rf_head :: "string option"
  rf_refs :: "(string, string) fmap"
  rf_capabilities :: "ustr list"

definition get_refs :: "('c::linorder, 'h, 'b) external \<Rightarrow> ('c, 'b) server \<Rightarrow> refs_response" where
  "get_refs E s =
     (let head = (case oh_current (rs_heads (sv_stores s)) of [] \<Rightarrow> None | h # _ \<Rightarrow> Some h);
          head_str = map_option (cid_string E) head;
          refs = (case head_str of
              None \<Rightarrow> fmempty
            | Some h \<Rightarrow> fmupd DEFAULT_REF h (fmupd ''HEAD'' h fmempty)) in
      \<lparr>rf_head = head_str, rf_refs = refs, rf_capabilities = map as_wire_str capability_all\<rparr>)"

section \<open>\<open>POST fetch-blocks\<close>\<close>

record fetch_blocks_request =
  fb_wants :: "string list"
  fb_have_set :: bytes

definition parse_or_bad :: "(string \<Rightarrow> 'c option) \<Rightarrow> string \<Rightarrow> 'c remote_error + 'c" where
  "parse_or_bad parse s = ok_or (parse s) RBadRequest"

fun walk_error :: "'c error \<Rightarrow> 'c remote_error" where
  "walk_error (Store (NotFound c)) = RNotFound c"
| "walk_error _ = RInternal"

text \<open>One block of the walk: written unless an earlier root has reached it.\<close>

definition emit_block ::
    "('c, 'h, 'b) external \<Rightarrow> ('c, 'b) car_wire \<Rightarrow> 'c \<times> 'b \<Rightarrow> 'c fset \<times> bytes \<Rightarrow> 'c fset \<times> bytes" where
  "emit_block E W = (\<lambda>(cid, data) (visited, buf).
     if cid |\<in>| visited then (visited, buf)
     else (finsert cid visited, buf @ write_block E W cid (block_bytes E data)))"

definition post_fetch_blocks ::
    "('c, 'h, 'b) external \<Rightarrow> ('c, 'b) car_wire \<Rightarrow> (string \<Rightarrow> 'c option) \<Rightarrow> fetch_blocks_request \<Rightarrow> ('c, 'b) server
       \<Rightarrow> 'c remote_error + bytes" where
  "post_fetch_blocks E W parse request s =
     (if fb_wants request = [] then Inl RBadRequest
      else
        rbind (rmap (parse_or_bad parse) (fb_wants request)) (\<lambda>wants.
        rbind (map_err (\<lambda>_. RInternal) (write_header E W \<lparr>ch_version = 1, ch_roots = wants\<rparr>)) (\<lambda>buf.
        rbind (rfold (\<lambda>want acc.
            rbind (map_err walk_error (iter_from_root E (rs_blocks (sv_stores s)) want)) (\<lambda>items.
            Inr (fold (emit_block E W) items acc))) wants ({||}, buf)) (\<lambda>(visited, buf).
        Inr buf))))"

section \<open>\<open>POST push-blocks\<close>\<close>

record push_blocks_response =
  pb_staged :: "string option"
  pb_blocks_accepted :: u64

fun remote_error_from_transport :: "'c transport_error \<Rightarrow> 'c remote_error" where
  "remote_error_from_transport TCar = RBadRequest"
| "remote_error_from_transport (TCidMismatch claimed computed) = RBadRequest"
| "remote_error_from_transport (MissingRoot root) = RBadRequest"
| "remote_error_from_transport (UnsupportedHash code) = RBadRequest"
| "remote_error_from_transport (SizeLimit limit observed) = RBadRequest"
| "remote_error_from_transport (TCodec e) = RBadRequest"
| "remote_error_from_transport _ = RInternal"

definition post_push_blocks ::
    "('c, 'h, 'b) external \<Rightarrow> ('c, 'b) car_wire \<Rightarrow> bytes option \<Rightarrow> bytes
       \<Rightarrow> (('c, 'b) server, 'c reply_error, push_blocks_response) prog" where
  "post_push_blocks E W header body =
     sbind (authorized header) (\<lambda>_.
     sbind (on_stores (\<lambda>e. Failed (remote_error_from_transport e))
        (on_blocks (import_with_limit E W body DEFAULT_MAX_IMPORT_BYTES))) (\<lambda>stats.
     sret \<lparr>pb_staged = (case im_roots stats of [] \<Rightarrow> None | c # _ \<Rightarrow> Some (cid_string E c)),
           pb_blocks_accepted = im_blocks stats\<rparr>))"

section \<open>\<open>POST advance-head\<close>\<close>

record advance_head_request =
  ah_old :: "string option"
  ah_new :: string
  ah_ref :: string

text \<open>The compare step: \<open>old\<close> must be a current head, and no \<open>old\<close> means no heads.\<close>

definition cas_check :: "'c list \<Rightarrow> 'c option \<Rightarrow> 'c remote_error + unit" where
  "cas_check current old =
     (case old of
        None \<Rightarrow> (case current of [] \<Rightarrow> Inr () | c # _ \<Rightarrow> Inl (RCasMismatch c))
      | Some expected_old \<Rightarrow>
          if \<not> list_ex (\<lambda>c. c = expected_old) current
          then Inl (RCasMismatch (case current of [] \<Rightarrow> expected_old | c # _ \<Rightarrow> c))
          else Inr ())"

text \<open>The queue of \<open>is_ancestor_of\<close>. A block that is missing or is no commit is passed over.\<close>

function ancestor_loop ::
    "('c, 'h, 'b) external \<Rightarrow> ('c, 'b) store \<Rightarrow> 'c \<Rightarrow> 'c fset \<Rightarrow> 'c list \<Rightarrow> 'c store_error + bool" where
  "ancestor_loop E bs needle seen [] = Inr False"
| "ancestor_loop E bs needle seen (cur # q) =
     (if cur |\<in>| seen then ancestor_loop E bs needle seen q
      else if cur = needle then Inr True
      else case bs_get bs cur of
        None \<Rightarrow> ancestor_loop E bs needle (finsert cur seen) q
      | Some b \<Rightarrow>
          (case from_canonical_bytes E de_commit b of
             Inl _ \<Rightarrow> ancestor_loop E bs needle (finsert cur seen) q
           | Inr commit \<Rightarrow> ancestor_loop E bs needle (finsert cur seen) (q @ cm_parents commit)))"
  by pat_completeness auto
termination
proof (relation "inv_image (less_than <*lex*> less_than)
    (\<lambda>(E, bs, needle, seen, q). (card (fset (fmdom bs) - fset seen), length q))", goal_cases)
  case (3 E bs needle seen cur q)
  then have "cur |\<notin>| fmdom bs" by (simp add: bs_get_def fmdom_notI)
  then have "fset (fmdom bs) - fset (finsert cur seen) = fset (fmdom bs) - fset seen" by auto
  then show ?case by simp
next
  case (4 E bs needle seen cur q b e)
  then have "cur \<in> fset (fmdom bs) - fset seen" by (auto simp: bs_get_def dest: fmdomI)
  then have "card (fset (fmdom bs) - fset (finsert cur seen)) < card (fset (fmdom bs) - fset seen)"
    by (intro psubset_card_mono) auto
  then show ?case by simp
next
  case (5 E bs needle seen cur q b commit)
  then have "cur \<in> fset (fmdom bs) - fset seen" by (auto simp: bs_get_def dest: fmdomI)
  then have "card (fset (fmdom bs) - fset (finsert cur seen)) < card (fset (fmdom bs) - fset seen)"
    by (intro psubset_card_mono) auto
  then show ?case by simp
qed (auto simp: wf_lex_prod)

definition is_ancestor_of :: "('c, 'h, 'b) external \<Rightarrow> ('c, 'b) store \<Rightarrow> 'c \<Rightarrow> 'c \<Rightarrow> 'c store_error + bool" where
  "is_ancestor_of E bs needle tip = (if needle = tip then Inr True else ancestor_loop E bs needle {||} [tip])"

text \<open>The descent step: skipped when \<open>old\<close> is no commit, open when the walk fails.\<close>

definition descent_check :: "('c, 'h, 'b) external \<Rightarrow> ('c, 'b) store \<Rightarrow> 'c option \<Rightarrow> 'c \<Rightarrow> 'c remote_error + unit" where
  "descent_check E bs old new =
     (case old of
        None \<Rightarrow> Inr ()
      | Some expected_old \<Rightarrow>
          let old_is_commit = (case bs_get bs expected_old of
                None \<Rightarrow> False
              | Some b \<Rightarrow> \<not> isl (from_canonical_bytes E de_commit b)) in
          if \<not> old_is_commit then Inr ()
          else (case is_ancestor_of E bs expected_old new of
                  Inr True \<Rightarrow> Inr ()
                | Inr False \<Rightarrow> Inl (RCasMismatch expected_old)
                | Inl _ \<Rightarrow> Inr ()))"

definition post_advance_head ::
    "('c::linorder, 'h, 'b) external \<Rightarrow> (string \<Rightarrow> 'c option) \<Rightarrow> bytes option \<Rightarrow> advance_head_request
       \<Rightarrow> (('c, 'b) server, 'c reply_error, string) prog" where
  "post_advance_head E parse header request =
     sbind (authorized header) (\<lambda>_.
     if ah_ref request \<noteq> DEFAULT_REF then slift (Inl (Failed RBadRequest))
     else
       sbind (slift (case ah_old request of
           Some s \<Rightarrow> rbind (map_err Failed (parse_or_bad parse s)) (\<lambda>c. Inr (Some c))
         | None \<Rightarrow> Inr None)) (\<lambda>old.
       sbind (slift (map_err Failed (parse_or_bad parse (ah_new request)))) (\<lambda>new.
       sbind (sread (\<lambda>s. map_err Failed (cas_check (oh_current (rs_heads (sv_stores s))) old))) (\<lambda>_.
       sbind (sread (\<lambda>s. map_err Failed (descent_check E (rs_blocks (sv_stores s)) old new))) (\<lambda>_.
       let remove_tips = (case old of Some o1 \<Rightarrow> [o1] | None \<Rightarrow> []) in
       sbind (on_stores (\<lambda>e :: unit. Failed RInternal) (heads_update new remove_tips)) (\<lambda>_.
       sret (cid_string E new)))))))"

section \<open>Sequences of requests\<close>

text \<open>Each handler holds the lock of the repository while it runs, so concurrent clients are some sequence of requests.\<close>

datatype request =
    PushBlocks "bytes option" bytes
  | AdvanceHead "bytes option" advance_head_request

fun serve ::
    "('c::linorder, 'h, 'b) external \<Rightarrow> ('c, 'b) car_wire \<Rightarrow> (string \<Rightarrow> 'c option) \<Rightarrow> request \<Rightarrow> ('c, 'b) server \<Rightarrow> ('c, 'b) server" where
  "serve E W parse (PushBlocks header body) s = snd (post_push_blocks E W header body s)"
| "serve E W parse (AdvanceHead header request) s = snd (post_advance_head E parse header request s)"

end
