(* ===== verification/Remote_Spec.thy ===== *)
theory Remote_Spec imports Remote Car_Spec Readonly_Spec begin

text \<open>
  What the handlers of the replication server do: the descent walk decides ancestry of commits, a reply that is not an
  error of \<open>advance-head\<close> says exactly which head moved, and a commit that is reachable from a head stays so.
\<close>

section \<open>Ancestry of commits\<close>

abbreviation commit_parent :: "('c, 'h, 'b) external \<Rightarrow> ('c, 'b) store \<Rightarrow> 'c \<Rightarrow> 'c \<Rightarrow> bool" where
  "commit_parent E bs \<equiv> parent_of (commit_parents_of E) bs"

definition is_commit :: "('c, 'h, 'b) external \<Rightarrow> ('c, 'b) store \<Rightarrow> 'c \<Rightarrow> bool" where
  "is_commit E bs c \<longleftrightarrow> (\<exists>k. decode_from_store E de_commit bs c = Inr k)"

lemma is_commit_iff:
  "is_commit E bs c \<longleftrightarrow> (\<exists>b k. bs_get bs c = Some b \<and> from_canonical_bytes E de_commit b = Inr k)"
  by (auto simp: is_commit_def decode_from_store_def split: option.splits)

lemma commit_parent_iff:
  "commit_parent E bs c p \<longleftrightarrow> (\<exists>b k. bs_get bs c = Some b \<and> from_canonical_bytes E de_commit b = Inr k \<and> p \<in> set (cm_parents k))"
  by (auto simp: parent_of_def commit_parents_of_def monad_simps)

lemma commit_parent_commit: "commit_parent E bs c p \<Longrightarrow> is_commit E bs c"
  by (auto simp: commit_parent_iff is_commit_iff)

lemma ancestor_loop_iff:
  assumes "needle |\<notin>| seen"
    and "\<And>c p. c |\<in>| seen \<Longrightarrow> commit_parent E bs c p \<Longrightarrow> p \<in> fset seen \<union> set q"
  shows "ancestor_loop E bs needle seen q = Inr (\<exists>c \<in> fset seen \<union> set q. (commit_parent E bs)\<^sup>*\<^sup>* c needle)"
  using assms
proof (induction E bs needle seen q rule: ancestor_loop.induct)
  case (1 E bs needle seen)
  have "d |\<in>| seen" if "(commit_parent E bs)\<^sup>*\<^sup>* c d" "c |\<in>| seen" for c d
    using that by (induction rule: rtranclp_induct) (use "1.prems"(2) in auto)
  then show ?case using "1.prems"(1) by auto
next
  case (2 E bs needle seen cur q)
  let ?R = "commit_parent E bs"
  note IH = "2.IH"
  show ?case
  proof (cases "cur |\<in>| seen")
    case True
    have "ancestor_loop E bs needle seen q = Inr (\<exists>c \<in> fset seen \<union> set q. ?R\<^sup>*\<^sup>* c needle)"
      using "2.prems" True by (intro IH(1)) auto
    moreover have "fset seen \<union> set (cur # q) = fset seen \<union> set q" using True by auto
    ultimately show ?thesis using True by simp
  next
    case False
    show ?thesis
    proof (cases "cur = needle")
      case True
      then show ?thesis using False by auto
    next
      case neq: False
      show ?thesis
      proof (cases "is_commit E bs cur")
        case True
        then obtain b k where b: "bs_get bs cur = Some b" "from_canonical_bytes E de_commit b = Inr k"
          by (auto simp: is_commit_iff)
        have par: "?R cur p \<longleftrightarrow> p \<in> set (cm_parents k)" for p using b by (auto simp: commit_parent_iff)
        have "ancestor_loop E bs needle (finsert cur seen) (q @ cm_parents k) =
            Inr (\<exists>c \<in> fset (finsert cur seen) \<union> set (q @ cm_parents k). ?R\<^sup>*\<^sup>* c needle)"
          using "2.prems" neq par by (intro IH(4) [OF False neq b]) auto
        moreover have "(\<exists>c \<in> fset (finsert cur seen) \<union> set (q @ cm_parents k). ?R\<^sup>*\<^sup>* c needle) \<longleftrightarrow>
            (\<exists>c \<in> fset seen \<union> set (cur # q). ?R\<^sup>*\<^sup>* c needle)"
          using par by (auto intro: converse_rtranclp_into_rtranclp)
        ultimately show ?thesis using False neq b by simp
      next
        case nc: False
        then have none: "\<not> ?R cur p" for p using commit_parent_commit by metis
        have "ancestor_loop E bs needle (finsert cur seen) q =
            Inr (\<exists>c \<in> fset (finsert cur seen) \<union> set q. ?R\<^sup>*\<^sup>* c needle)"
        proof (cases "bs_get bs cur")
          case None
          show ?thesis using "2.prems" neq none by (intro IH(2) [OF False neq None]) auto
        next
          case (Some b)
          with nc obtain e where e: "from_canonical_bytes E de_commit b = Inl e"
            by (cases "from_canonical_bytes E de_commit b") (auto simp: is_commit_iff)
          show ?thesis using "2.prems" neq none by (intro IH(3) [OF False neq Some e]) auto
        qed
        moreover have "ancestor_loop E bs needle seen (cur # q) = ancestor_loop E bs needle (finsert cur seen) q"
          using False neq nc by (auto simp: is_commit_iff split: option.splits sum.splits)
        moreover have "fset (finsert cur seen) \<union> set q = fset seen \<union> set (cur # q)" by auto
        ultimately show ?thesis by simp
      qed
    qed
  qed
qed

lemma is_ancestor_of_iff: "is_ancestor_of E bs needle tip = Inr ((commit_parent E bs)\<^sup>*\<^sup>* tip needle)"
  using ancestor_loop_iff [of needle "{||}" E bs "[tip]"] by (simp add: is_ancestor_of_def del: ancestor_loop.simps)

section \<open>\<open>advance-head\<close>\<close>

definition names_heads :: "(string \<Rightarrow> 'c option) \<Rightarrow> advance_head_request \<Rightarrow> 'c option \<Rightarrow> 'c \<Rightarrow> bool" where
  "names_heads parse q old new \<longleftrightarrow> ah_ref q = DEFAULT_REF \<and> parse (ah_new q) = Some new \<and>
     (case ah_old q of None \<Rightarrow> old = None | Some s \<Rightarrow> \<exists>c. parse s = Some c \<and> old = Some c)"

definition may_advance :: "('c, 'h, 'b) external \<Rightarrow> ('c, 'b) repo_state \<Rightarrow> 'c option \<Rightarrow> 'c \<Rightarrow> bool" where
  "may_advance E rs old new \<longleftrightarrow>
     (case old of
        None \<Rightarrow> rs_heads rs = {||}
      | Some o1 \<Rightarrow> o1 |\<in>| rs_heads rs \<and> (is_commit E (rs_blocks rs) o1 \<longrightarrow> (commit_parent E (rs_blocks rs))\<^sup>*\<^sup>* new o1))"

definition moved :: "'c option \<Rightarrow> 'c \<Rightarrow> ('c, 'b) server \<Rightarrow> ('c, 'b) server" where
  "moved old new s = s\<lparr>sv_stores := (sv_stores s)\<lparr>rs_heads :=
     finsert new (rs_heads (sv_stores s)) |-| (case old of None \<Rightarrow> {||} | Some o1 \<Rightarrow> {|o1|})\<rparr>\<rparr>"

lemma oh_current_Nil: "oh_current h = [] \<longleftrightarrow> h = {||}"
  using oh_current_set(1) [of h] by (metis bot_fset.rep_eq fset_inject set_empty)

lemma cas_check_Inr: "cas_check (oh_current h) old = Inr () \<longleftrightarrow> (case old of None \<Rightarrow> h = {||} | Some o1 \<Rightarrow> o1 |\<in>| h)"
proof (cases old)
  case None
  then show ?thesis using oh_current_Nil [of h] by (cases "oh_current h") (simp_all add: cas_check_def)
next
  case (Some o1)
  then show ?thesis by (simp add: cas_check_def list_ex_iff oh_current_set)
qed

lemma descent_check_Inr:
  "descent_check E bs old new = Inr () \<longleftrightarrow>
     (case old of None \<Rightarrow> True | Some o1 \<Rightarrow> is_commit E bs o1 \<longrightarrow> (commit_parent E bs)\<^sup>*\<^sup>* new o1)"
proof (cases old)
  case (Some o1)
  have "(case bs_get bs o1 of None \<Rightarrow> False | Some b \<Rightarrow> \<not> isl (from_canonical_bytes E de_commit b)) \<longleftrightarrow> is_commit E bs o1"
    by (auto simp: is_commit_iff isl_def split: option.splits) (metis sum.exhaust)
  then show ?thesis by (simp add: descent_check_def Some is_ancestor_of_iff Let_def split: bool.split)
qed (simp add: descent_check_def)

lemma oh_update_moved:
  "oh_update new (case old of Some o1 \<Rightarrow> [o1] | None \<Rightarrow> []) h = finsert new h |-| (case old of None \<Rightarrow> {||} | Some o1 \<Rightarrow> {|o1|})"
  by (simp add: oh_update_def oh_insert_def split: option.split)

lemma map_err_Inl: "map_err f r = Inl e \<longleftrightarrow> (\<exists>e'. r = Inl e' \<and> e = f e')"
  by (cases r) (auto simp: map_err_def)

lemma authorized_Inr: "authorized header s = (Inr (), t) \<longleftrightarrow> t = s \<and> require_bearer (sv_push_token s) header = Inr ()"
  by (auto simp: authorized_def monad_simps map_err_Inr)

lemma map_err_simps [simp]: "map_err f (Inl e) = Inl (f e)" "map_err f (Inr x) = Inr x"
  by (simp_all add: map_err_def)

lemma advance_head_run:
  assumes "names_heads parse q old new" and "require_bearer (sv_push_token s) header = Inr ()"
  shows "post_advance_head E parse header q s =
    (case cas_check (oh_current (rs_heads (sv_stores s))) old of
       Inl e \<Rightarrow> (Inl (Failed e), s)
     | Inr _ \<Rightarrow> (case descent_check E (rs_blocks (sv_stores s)) old new of
         Inl e \<Rightarrow> (Inl (Failed e), s)
       | Inr _ \<Rightarrow> (Inr (cid_string E new), moved old new s)))"
proof -
  have new: "parse_or_bad parse (ah_new q) = Inr new" and ref: "ah_ref q = DEFAULT_REF"
    using assms(1) by (simp_all add: names_heads_def parse_or_bad_def ok_or_def)
  have old: "(case ah_old q of Some s \<Rightarrow> rbind (map_err Failed (parse_or_bad parse s)) (\<lambda>c. Inr (Some c)) | None \<Rightarrow> Inr None) = Inr old"
    using assms(1) by (auto simp: names_heads_def parse_or_bad_def ok_or_def split: option.splits)
  have upd: "on_stores f (heads_update new (case old of Some o1 \<Rightarrow> [o1] | None \<Rightarrow> [])) s = (Inr (), moved old new s)"
    for f :: "unit \<Rightarrow> 'a reply_error"
    by (simp add: on_stores_def heads_update_def moved_def oh_update_moved)
  have auth: "authorized header s = (Inr (), s)" by (simp add: authorized_Inr assms(2))
  show ?thesis
    unfolding post_advance_head_def sbind_def [of "authorized header"] auth ref old new
    by (simp add: sbind_def slift_def sread_def sret_def upd split: sum.split)
qed

lemma advance_head_names: "post_advance_head E parse header q s = (Inr h, t) \<Longrightarrow> \<exists>old new. names_heads parse q old new"
  by (auto simp: post_advance_head_def monad_simps map_err_Inr parse_or_bad_def ok_or_Inr_iff rbind_Inr_iff names_heads_def Let_def
      split: if_splits option.splits)

lemma advance_head_Inr:
  "post_advance_head E parse header q s = (Inr h, t) \<longleftrightarrow>
     require_bearer (sv_push_token s) header = Inr () \<and>
     (\<exists>old new. names_heads parse q old new \<and> may_advance E (sv_stores s) old new \<and> h = cid_string E new \<and> t = moved old new s)"
  (is "?L \<longleftrightarrow> ?R")
proof -
  have run: "post_advance_head E parse header q s = (Inr h, t) \<longleftrightarrow> may_advance E (sv_stores s) old new \<and> h = cid_string E new \<and> t = moved old new s"
    if "names_heads parse q old new" "require_bearer (sv_push_token s) header = Inr ()" for old new
    unfolding advance_head_run [OF that] may_advance_def
    using cas_check_Inr [of "rs_heads (sv_stores s)" old] descent_check_Inr [of E "rs_blocks (sv_stores s)" old new]
    by (auto split: sum.splits option.splits)
  show ?thesis
  proof
    assume ?L
    then have "require_bearer (sv_push_token s) header = Inr ()"
      by (auto simp: post_advance_head_def sbind_Inr_iff authorized_def sread_def map_err_Inr)
    moreover obtain old new where "names_heads parse q old new" using advance_head_names [OF \<open>?L\<close>] by blast
    ultimately show ?R using run \<open>?L\<close> by blast
  next
    assume ?R
    then show ?L using run by blast
  qed
qed

lemma advance_head_Inl: "post_advance_head E parse header q s = (Inl e, t) \<Longrightarrow> t = s"
  by (auto simp: post_advance_head_def authorized_def monad_simps Let_def on_stores_def heads_update_def map_err_def
      split: if_splits)

lemma names_heads_unique: "names_heads parse q old new \<Longrightarrow> names_heads parse q old' new' \<Longrightarrow> old' = old \<and> new' = new"
  by (auto simp: names_heads_def split: option.splits)

section \<open>\<open>push-blocks\<close>\<close>

lemma push_blocks_effect:
  assumes "post_push_blocks E W header body s = (r, t)"
  shows "sv_push_token t = sv_push_token s" and "rs_heads (sv_stores t) = rs_heads (sv_stores s)"
    and "verified_growth E (rs_blocks (sv_stores s)) (rs_blocks (sv_stores t))"
proof -
  obtain ir bs where run: "import_with_limit E W body DEFAULT_MAX_IMPORT_BYTES (rs_blocks (sv_stores s)) = (ir, bs)" by fastforce
  have "t = s \<or> t = s\<lparr>sv_stores := (sv_stores s)\<lparr>rs_blocks := bs\<rparr>\<rparr>"
    using assms by (auto simp: post_push_blocks_def authorized_def on_stores_def on_blocks_def run sbind_def sread_def sret_def
        map_err_def split: sum.splits)
  then show "sv_push_token t = sv_push_token s" "rs_heads (sv_stores t) = rs_heads (sv_stores s)"
    "verified_growth E (rs_blocks (sv_stores s)) (rs_blocks (sv_stores t))"
    using import_verified(1) [OF run] verified_growth_refl by auto
qed

lemma push_blocks_unauthorized:
  "require_bearer (sv_push_token s) header = Inl e \<Longrightarrow> post_push_blocks E W header body s = (Inl (Rejected e), s)"
  by (simp add: post_push_blocks_def authorized_def sbind_def sread_def)

lemma advance_head_unauthorized:
  "require_bearer (sv_push_token s) header = Inl e \<Longrightarrow> post_advance_head E parse header q s = (Inl (Rejected e), s)"
  by (simp add: post_advance_head_def authorized_def sbind_def sread_def)

text \<open>No two blocks have the same hash: what a content-addressed store holds under a CID never changes.\<close>

definition rehash_unique :: "('c, 'h, 'b) external \<Rightarrow> bool" where
  "rehash_unique E \<longleftrightarrow> (\<forall>c b b' d. recompute_cid E c b = Some d \<longrightarrow> recompute_cid E c b' = Some d \<longrightarrow> b = b')"

lemma verified_growth_keeps:
  assumes "verified_growth E bs bs'" and "content_addressed E bs" and "rehash_unique E" and b: "bs_get bs c = Some b"
  shows "bs_get bs' c = Some b"
proof -
  from assms(1) b obtain b' where b': "bs_get bs' c = Some b'" "bs_get bs c = Some b' \<or> recompute_cid E c b' = Some c"
    unfolding verified_growth_def by blast
  show ?thesis
  proof (cases "bs_get bs c = Some b'")
    case False
    then have "recompute_cid E c b' = Some c" using b' by simp
    moreover from this have "recompute_cid E c b \<noteq> None" by (auto simp: recompute_cid_def Let_def split: if_splits)
    ultimately have "recompute_cid E c b = Some c" using assms(2) b by (auto simp: content_addressed_def)
    with \<open>recompute_cid E c b' = Some c\<close> assms(3) b' show ?thesis unfolding rehash_unique_def by blast
  qed (use b b' in simp)
qed

section \<open>Sequences of requests\<close>

definition self_move :: "(string \<Rightarrow> 'c option) \<Rightarrow> request \<Rightarrow> bool" where
  "self_move parse r \<longleftrightarrow> (\<exists>header q c. r = AdvanceHead header q \<and> names_heads parse q (Some c) c)"

definition published_commit :: "('c, 'h, 'b) external \<Rightarrow> ('c, 'b) server \<Rightarrow> 'c \<Rightarrow> bool" where
  "published_commit E s c \<longleftrightarrow> is_commit E (rs_blocks (sv_stores s)) c \<and>
     (\<exists>h. h |\<in>| rs_heads (sv_stores s) \<and> (commit_parent E (rs_blocks (sv_stores s)))\<^sup>*\<^sup>* h c)"

lemma serve_cases:
  obtains (grow) "sv_push_token (serve E W parse r s) = sv_push_token s"
      and "rs_heads (sv_stores (serve E W parse r s)) = rs_heads (sv_stores s)"
      and "verified_growth E (rs_blocks (sv_stores s)) (rs_blocks (sv_stores (serve E W parse r s)))"
  | (move) header q old new where "r = AdvanceHead header q" and "names_heads parse q old new" and "may_advance E (sv_stores s) old new"
      and "serve E W parse r s = moved old new s"
proof (cases r)
  case (PushBlocks header body)
  obtain r' t where "post_push_blocks E W header body s = (r', t)" by fastforce
  from push_blocks_effect [OF this] this show ?thesis by (intro grow) (simp_all add: PushBlocks)
next
  case (AdvanceHead header q)
  obtain r' t where run: "post_advance_head E parse header q s = (r', t)" by fastforce
  show ?thesis
  proof (cases r')
    case (Inl e)
    then have "serve E W parse r s = s" using advance_head_Inl run by (simp add: AdvanceHead)
    then show ?thesis by (intro grow) (simp_all add: verified_growth_refl)
  next
    case (Inr h)
    with run obtain old new where "names_heads parse q old new" "may_advance E (sv_stores s) old new" "t = moved old new s"
      by (auto simp: advance_head_Inr)
    then show ?thesis using run by (intro move [OF AdvanceHead]) (simp_all add: AdvanceHead)
  qed
qed

lemma moved_simps [simp]:
  "sv_push_token (moved old new s) = sv_push_token s"
  "rs_blocks (sv_stores (moved old new s)) = rs_blocks (sv_stores s)"
  "h |\<in>| rs_heads (sv_stores (moved old new s)) \<longleftrightarrow> (h = new \<or> h |\<in>| rs_heads (sv_stores s)) \<and> old \<noteq> Some h"
  by (auto simp: moved_def split: option.split)

lemma published_grows:
  assumes pub: "published_commit E s c" and heads: "rs_heads (sv_stores t) = rs_heads (sv_stores s)"
    and g: "verified_growth E (rs_blocks (sv_stores s)) (rs_blocks (sv_stores t))"
    and ca: "content_addressed E (rs_blocks (sv_stores s))" and u: "rehash_unique E"
  shows "published_commit E t c"
proof -
  have keep: "bs_get (rs_blocks (sv_stores s)) d = Some b \<Longrightarrow> bs_get (rs_blocks (sv_stores t)) d = Some b" for d b
    using verified_growth_keeps [OF g ca u] .
  have "commit_parent E (rs_blocks (sv_stores t)) d p" if "commit_parent E (rs_blocks (sv_stores s)) d p" for d p
    using that keep by (auto simp: commit_parent_iff)
  then have "(commit_parent E (rs_blocks (sv_stores t)))\<^sup>*\<^sup>* h d" if "(commit_parent E (rs_blocks (sv_stores s)))\<^sup>*\<^sup>* h d" for h d
    using that by (metis (mono_tags, lifting) mono_rtranclp)
  moreover have "is_commit E (rs_blocks (sv_stores t)) c" using pub keep by (auto simp: published_commit_def is_commit_iff)
  ultimately show ?thesis using pub heads by (auto simp: published_commit_def)
qed

lemma published_moved:
  assumes pub: "published_commit E s c" and may: "may_advance E (sv_stores s) old new" and neq: "old \<noteq> Some new"
  shows "published_commit E (moved old new s) c"
proof -
  let ?bs = "rs_blocks (sv_stores s)"
  from pub obtain h where h: "h |\<in>| rs_heads (sv_stores s)" and path: "(commit_parent E ?bs)\<^sup>*\<^sup>* h c" and c: "is_commit E ?bs c"
    by (auto simp: published_commit_def)
  show ?thesis
  proof (cases "old = Some h")
    case True
    have "is_commit E ?bs h" using path c by (metis commit_parent_commit converse_rtranclpE)
    with True may have "(commit_parent E ?bs)\<^sup>*\<^sup>* new h" by (simp add: may_advance_def)
    from this path have "(commit_parent E ?bs)\<^sup>*\<^sup>* new c" by (rule rtranclp_trans)
    with c neq show ?thesis by (auto simp: published_commit_def)
  next
    case False
    with h path c show ?thesis by (auto simp: published_commit_def)
  qed
qed

lemma serve_keeps:
  assumes "\<not> self_move parse r" and "content_addressed E (rs_blocks (sv_stores s))" and "rehash_unique E"
  shows "content_addressed E (rs_blocks (sv_stores (serve E W parse r s)))"
    and "published_commit E s c \<Longrightarrow> published_commit E (serve E W parse r s) c"
    and "rs_heads (sv_stores s) \<noteq> {||} \<Longrightarrow> rs_heads (sv_stores (serve E W parse r s)) \<noteq> {||}"
proof (atomize (full), cases rule: serve_cases [of E W parse r s])
  case grow
  then show "content_addressed E (rs_blocks (sv_stores (serve E W parse r s))) \<and>
    (published_commit E s c \<longrightarrow> published_commit E (serve E W parse r s) c) \<and>
    (rs_heads (sv_stores s) \<noteq> {||} \<longrightarrow> rs_heads (sv_stores (serve E W parse r s)) \<noteq> {||})"
    using published_grows [OF _ grow(2,3) assms(2,3)] verified_growth_content_addressed [OF grow(3) assms(2)] by simp
next
  case (move header q old new)
  have neq: "old \<noteq> Some new" using assms(1) move(1,2) by (auto simp: self_move_def)
  then have "new |\<in>| rs_heads (sv_stores (moved old new s))" by simp
  then show "content_addressed E (rs_blocks (sv_stores (serve E W parse r s))) \<and>
    (published_commit E s c \<longrightarrow> published_commit E (serve E W parse r s) c) \<and>
    (rs_heads (sv_stores s) \<noteq> {||} \<longrightarrow> rs_heads (sv_stores (serve E W parse r s)) \<noteq> {||})"
    using published_moved [OF _ move(3) neq] assms(2) unfolding move(4) by auto
qed

lemma serve_all_keeps:
  assumes "\<forall>r \<in> set rs. \<not> self_move parse r" and "content_addressed E (rs_blocks (sv_stores s))" and "rehash_unique E"
  shows "content_addressed E (rs_blocks (sv_stores (fold (serve E W parse) rs s))) \<and>
    (published_commit E s c \<longrightarrow> published_commit E (fold (serve E W parse) rs s) c) \<and>
    (rs_heads (sv_stores s) \<noteq> {||} \<longrightarrow> rs_heads (sv_stores (fold (serve E W parse) rs s)) \<noteq> {||})"
  using assms(1,2)
proof (induction rs arbitrary: s)
  case (Cons r rs)
  then show ?case using serve_keeps [where W = W and parse = parse and r = r and s = s and E = E] assms(3) by simp
qed simp

subsection \<open>Compare and swap\<close>

text \<open>A head that is gone stays gone until a request names it as the new one.\<close>

definition moves_to :: "(string \<Rightarrow> 'c option) \<Rightarrow> 'c \<Rightarrow> request \<Rightarrow> bool" where
  "moves_to parse c r \<longleftrightarrow> (\<exists>header q old. r = AdvanceHead header q \<and> names_heads parse q old c)"

lemma gone_stays_gone:
  assumes "c |\<notin>| rs_heads (sv_stores s)" and "\<forall>r \<in> set rs. \<not> moves_to parse c r"
  shows "c |\<notin>| rs_heads (sv_stores (fold (serve E W parse) rs s))"
  using assms
proof (induction rs arbitrary: s)
  case (Cons r rs)
  have "c |\<notin>| rs_heads (sv_stores (serve E W parse r s))"
  proof (cases rule: serve_cases [of E W parse r s])
    case grow
    then show ?thesis using Cons.prems(1) by simp
  next
    case (move header q old new)
    then have "new \<noteq> c" using Cons.prems(2) by (auto simp: moves_to_def)
    then show ?thesis using Cons.prems(1) unfolding move(4) by simp
  qed
  then show ?case using Cons by simp
qed simp

lemma stale_old_refused:
  assumes "names_heads parse q (Some c) new" and "c |\<notin>| rs_heads (sv_stores s)"
  shows "\<exists>e. post_advance_head E parse header q s = (Inl e, s)"
proof -
  obtain r t where run: "post_advance_head E parse header q s = (r, t)" by fastforce
  have "False" if "r = Inr h" for h
  proof -
    from run that obtain old new' where "names_heads parse q old new'" "may_advance E (sv_stores s) old new'"
      by (auto simp: advance_head_Inr)
    then show False using names_heads_unique [OF assms(1)] assms(2) by (fastforce simp: may_advance_def)
  qed
  then have "\<exists>e. r = Inl e" by (cases r) auto
  with run advance_head_Inl show ?thesis by blast
qed

section \<open>\<open>fetch-blocks\<close>\<close>

lemma sections_append: "sections E W (xs @ ys) = sections E W xs @ sections E W ys"
  by (simp add: sections_def)

lemma emit_blocks:
  "distinct (map fst items) \<Longrightarrow> fold (emit_block E W) items (v, buf) =
     (v |\<union>| fset_of_list (map fst items), buf @ sections E W (filter (\<lambda>item. fst item |\<notin>| v) items))"
proof (induction items arbitrary: v buf)
  case (Cons item items)
  obtain c b where item: "item = (c, b)" by fastforce
  have "filter (\<lambda>i. fst i |\<notin>| finsert c v) items = filter (\<lambda>i. fst i |\<notin>| v) items"
    using Cons.prems item by (intro filter_cong) auto
  then show ?case using Cons item by (auto simp: emit_block_def sections_def)
qed (simp add: sections_def)

definition reachable_from :: "('c, 'h, 'b) external \<Rightarrow> ('c, 'b) store \<Rightarrow> 'c list \<Rightarrow> 'c set" where
  "reachable_from E bs wants = {c. \<exists>w \<in> set wants. (links_to E bs)\<^sup>*\<^sup>* w c}"

lemma fetch_walks:
  assumes "rfold (\<lambda>want acc. rbind (map_err walk_error (iter_from_root E bs want)) (\<lambda>items. Inr (fold (emit_block E W) items acc)))
      wants (v, buf) = Inr (v', buf')"
  shows "\<exists>items. buf' = buf @ sections E W items \<and> distinct (map fst items) \<and> fset v \<inter> set (map fst items) = {} \<and>
    fset v' = fset v \<union> set (map fst items) \<and> fset v' = fset v \<union> reachable_from E bs wants \<and>
    (\<forall>(c, b) \<in> set items. bs_get bs c = Some b)"
  using assms
proof (induction wants arbitrary: v buf)
  case Nil
  then show ?case by (intro exI [of _ "[]"]) (simp add: sections_def reachable_from_def)
next
  case (Cons want wants)
  from Cons.prems obtain its where its: "iter_from_root E bs want = Inr its"
    and rest: "rfold (\<lambda>want acc. rbind (map_err walk_error (iter_from_root E bs want)) (\<lambda>items. Inr (fold (emit_block E W) items acc)))
      wants (fold (emit_block E W) its (v, buf)) = Inr (v', buf')"
    by (auto simp: rbind_Inr_iff map_err_Inr)
  note walk = iter_from_root_yields [OF its]
  let ?new = "filter (\<lambda>item. fst item |\<notin>| v) its"
  let ?v = "v |\<union>| fset_of_list (map fst its)"
  have v: "fset ?v = fset v \<union> set (map fst ?new)" "fset ?v = fset v \<union> {c. (links_to E bs)\<^sup>*\<^sup>* want c}"
    using walk(2) by (auto simp: fset_of_list.rep_eq)
  from Cons.IH [OF rest [unfolded emit_blocks [OF walk(1)]]] obtain items where
    i: "buf' = (buf @ sections E W ?new) @ sections E W items" "distinct (map fst items)" "fset ?v \<inter> set (map fst items) = {}"
      "fset v' = fset ?v \<union> set (map fst items)" "fset v' = fset ?v \<union> reachable_from E bs wants"
      "\<forall>(c, b) \<in> set items. bs_get bs c = Some b" by blast
  show ?case
  proof (intro exI [of _ "?new @ items"] conjI)
    show "buf' = buf @ sections E W (?new @ items)" using i(1) by (simp add: sections_append)
    have "distinct (map fst ?new)" using walk(1) by (rule distinct_map_filter)
    moreover have "set (map fst ?new) \<inter> set (map fst items) = {}" using i(3) v(1) by blast
    ultimately show "distinct (map fst (?new @ items))" using i(2) by simp
    show "fset v \<inter> set (map fst (?new @ items)) = {}" using i(3) v(1) by auto
    show "fset v' = fset v \<union> set (map fst (?new @ items))" using i(4) v(1) by auto
    show "fset v' = fset v \<union> reachable_from E bs (want # wants)"
      using i(5) v(2) by (auto simp: reachable_from_def)
    show "\<forall>(c, b) \<in> set (?new @ items). bs_get bs c = Some b" using i(6) walk(3) by auto
  qed
qed

lemma fetch_blocks_run:
  assumes "post_fetch_blocks E W parse request s = Inr body"
  obtains wants header items where "map parse (fb_wants request) = map Some wants" and "wants \<noteq> []"
    and "write_header E W \<lparr>ch_version = 1, ch_roots = wants\<rparr> = Inr header" and "body = header @ sections E W items"
    and "distinct (map fst items)" and "set (map fst items) = reachable_from E (rs_blocks (sv_stores s)) wants"
    and "\<And>c b. (c, b) \<in> set items \<Longrightarrow> bs_get (rs_blocks (sv_stores s)) c = Some b"
proof -
  from assms obtain wants header v where w: "rmap (parse_or_bad parse) (fb_wants request) = Inr wants" "fb_wants request \<noteq> []"
    and h: "write_header E W \<lparr>ch_version = 1, ch_roots = wants\<rparr> = Inr header"
    and run: "rfold (\<lambda>want acc. rbind (map_err walk_error (iter_from_root E (rs_blocks (sv_stores s)) want))
        (\<lambda>items. Inr (fold (emit_block E W) items acc))) wants ({||}, header) = Inr (v, body)"
    by (auto simp: post_fetch_blocks_def rbind_Inr_iff map_err_Inr split: if_splits)
  have p: "map parse ss = map Some ws" if "rmap (parse_or_bad parse) ss = Inr ws" for ss ws
    using that by (induction ss arbitrary: ws) (auto simp: rbind_Inr_iff parse_or_bad_def ok_or_Inr_iff)
  from p [OF w(1)] w(2) have "wants \<noteq> []" by auto
  obtain items where "body = header @ sections E W items" "distinct (map fst items)"
      "set (map fst items) = reachable_from E (rs_blocks (sv_stores s)) wants"
      "\<forall>(c, b) \<in> set items. bs_get (rs_blocks (sv_stores s)) c = Some b"
    using fetch_walks [OF run] by auto
  then show thesis by (intro that [OF p [OF w(1)] \<open>wants \<noteq> []\<close> h]) auto
qed

lemma bs_get_writes:
  assumes "distinct (map fst items)" and "\<And>c b. (c, b) \<in> set items \<Longrightarrow> bs_get src c = Some b"
  shows "bs_get (fold (\<lambda>(c, b). fmupd c b) items dst) c = (if c \<in> set (map fst items) then bs_get src c else bs_get dst c)"
proof (cases "c \<in> set (map fst items)")
  case True
  then obtain b where b: "(c, b) \<in> set items" by auto
  then have "map_of (rev items) c = Some b"
    using assms(1) by (intro map_of_is_SomeI) (simp_all add: rev_map [symmetric])
  then show ?thesis using True assms(2) [OF b] by (simp add: mem.look_writes)
next
  case False
  then have "map_of (rev items) c = None" by (auto simp: map_of_eq_None_iff)
  then show ?thesis using False by (simp add: mem.look_writes)
qed

lemma fetch_then_push:
  assumes "car_laws E W" and "codec_roundtrip E"
    and fetched: "post_fetch_blocks E W parse request s = Inr body"
    and header: "\<And>wants header. write_header E W \<lparr>ch_version = 1, ch_roots = wants\<rparr> = Inr header \<Longrightarrow> map parse (fb_wants request) = map Some wants
        \<Longrightarrow> length header \<le> MAX_HEADER_BYTES"
    and blocks: "\<And>c b. bs_get (rs_blocks (sv_stores s)) c = Some b \<Longrightarrow> recompute_cid E c b = Some c \<and> section_size E (c, b) \<le> MAX_BLOCK_BYTES"
    and size: "length body \<le> unat DEFAULT_MAX_IMPORT_BYTES"
    and auth: "require_bearer (sv_push_token t) tok = Inr ()"
  shows "\<exists>wants n t'. map parse (fb_wants request) = map Some wants \<and>
    post_push_blocks E W tok body t = (Inr \<lparr>pb_staged = Some (cid_string E (hd wants)), pb_blocks_accepted = n\<rparr>, t') \<and>
    n = word_of_nat (card (reachable_from E (rs_blocks (sv_stores s)) wants)) \<and>
    sv_push_token t' = sv_push_token t \<and> rs_heads (sv_stores t') = rs_heads (sv_stores t) \<and>
    (\<forall>c. bs_get (rs_blocks (sv_stores t')) c =
      (if c \<in> reachable_from E (rs_blocks (sv_stores s)) wants then bs_get (rs_blocks (sv_stores s)) c
       else bs_get (rs_blocks (sv_stores t)) c))"
proof -
  from fetched obtain wants hd' items where w: "map parse (fb_wants request) = map Some wants" "wants \<noteq> []"
    and h: "write_header E W \<lparr>ch_version = 1, ch_roots = wants\<rparr> = Inr hd'" and body: "body = hd' @ sections E W items"
    and items: "distinct (map fst items)" "set (map fst items) = reachable_from E (rs_blocks (sv_stores s)) wants"
      "\<And>c b. (c, b) \<in> set items \<Longrightarrow> bs_get (rs_blocks (sv_stores s)) c = Some b"
    by (rule fetch_blocks_run) blast
  have "payload E items \<le> length (sections E W items)"
  proof (induction items)
    case (Cons i items)
    then show ?case by (cases i) (simp add: payload_def sections_def write_block_def Let_def)
  qed (simp add: payload_def)
  with size body have ok: "transferable E items DEFAULT_MAX_IMPORT_BYTES"
    using blocks items(3) by (auto simp: transferable_def)
  have roots: "set (ch_roots \<lparr>ch_version = 1, ch_roots = wants\<rparr>) \<subseteq> set (map fst items)"
    unfolding items(2) by (auto simp: reachable_from_def)
  let ?dst = "fold (\<lambda>(c, b). fmupd c b) items (rs_blocks (sv_stores t))"
  have imp: "import_with_limit E W body DEFAULT_MAX_IMPORT_BYTES (rs_blocks (sv_stores t)) =
      (Inr \<lparr>im_blocks = word_of_nat (length items), im_bytes = word_of_nat (payload E items), im_roots = wants\<rparr>, ?dst)"
    using import_sections [OF assms(1,2) h header [OF h w(1)] _ roots ok] by (simp add: body)
  have "post_push_blocks E W tok body t =
      (Inr \<lparr>pb_staged = Some (cid_string E (hd wants)), pb_blocks_accepted = word_of_nat (length items)\<rparr>,
       t\<lparr>sv_stores := (sv_stores t)\<lparr>rs_blocks := ?dst\<rparr>\<rparr>)"
    using w(2) by (cases wants) (simp_all add: post_push_blocks_def sbind_def authorized_def sread_def auth on_stores_def on_blocks_def imp sret_def)
  moreover have "length items = card (reachable_from E (rs_blocks (sv_stores s)) wants)"
    using items(1,2) by (metis distinct_card length_map)
  ultimately show ?thesis
    using w(1) bs_get_writes [OF items(1,3), of "rs_blocks (sv_stores t)"] items(2)
    by (intro exI [of _ wants] exI [of _ "word_of_nat (length items)"] exI conjI) (assumption | simp)+
qed

section \<open>What a pushed commit does to the repository\<close>

lemma commit_is_no_operation: "is_commit E bs c \<Longrightarrow> \<exists>e. decode_from_store E de_operation bs c = Inl (Codec e)"
proof -
  assume "is_commit E bs c"
  then obtain b k where bk: "bs_get bs c = Some b" "from_canonical_bytes E de_commit b = Inr k" by (auto simp: is_commit_iff)
  then obtain v where b: "bs_get bs c = Some b" "dec E b = Some v" "de_commit v = Inr k"
    by (auto simp: from_canonical_bytes_def split: option.splits sum.splits)
  have "de_operation v \<noteq> Inr op" for op
  proof
    assume "de_operation v = Inr op"
    then obtain m where m: "v = IMap m" "req m ''_kind'' de_string = Inr OPERATION_KIND"
      by (cases v) (auto simp: de_operation_def rbind_Inr_iff split: if_splits)
    with b(3) have "req m ''_kind'' de_string = Inr COMMIT_KIND"
      by (auto simp: de_commit_def rbind_Inr_iff split: if_splits)
    with m show False by (simp add: OPERATION_KIND_def COMMIT_KIND_def)
  qed
  then show ?thesis
    using b by (cases "de_operation v") (auto simp: decode_from_store_def from_canonical_bytes_def)
qed

lemma open_at_commit_fails:
  assumes "rs_heads rs = {|c|}" and "is_commit E (rs_blocks rs) c"
  shows "\<exists>e. repo_open E fuel rs = (Inl (Codec e), rs)"
proof -
  have "oh_current (rs_heads rs) = [c]" using assms(1) by (simp add: oh_current_def sorted_list_of_fset.rep_eq)
  then show ?thesis using commit_is_no_operation [OF assms(2)]
    by (auto simp: repo_open_def sbind_def sread_def load_at_def)
qed

lemma open_without_heads: "rs_heads rs = {||} \<Longrightarrow> repo_open E fuel rs = (Inl (Repo Uninitialized), rs)"
  using oh_current_Nil [of "rs_heads rs"] by (simp add: repo_open_def sbind_def sread_def slift_def)

end
