(* ===== verification/Remote_Client.thy ===== *)
theory Remote_Client imports Remote begin

text \<open>
  The other end of the replication protocol: the HTTP client of \<open>crates/mnem-transport/src/client.rs\<close> and the command
  \<open>mnem push\<close> of \<open>crates/mnem-cli/src/commands/push.rs\<close>, run against a server. A request always reaches the server and its
  reply the client; of a reply that is an error the client sees the status, and of a conflict the head in its body.
\<close>

record ('c, 'b) peers =
  pr_local :: "('c, 'b) repo_state"
  pr_server :: "('c, 'b) server"

datatype 'c client_error = ClientAuth | ClientProtocol | ClientCasMismatch string 'c 'c

section \<open>The four requests\<close>

record 'c client_refs =
  cr_head :: "'c option"
  cr_refs :: "(string, 'c) fmap"
  cr_capabilities :: "capability list"

definition parse_reply :: "(string \<Rightarrow> 'c option) \<Rightarrow> string \<Rightarrow> 'c client_error + 'c" where
  "parse_reply parse s = ok_or (parse s) ClientProtocol"

definition list_refs ::
    "('c::linorder, 'h, 'b) external \<Rightarrow> (string \<Rightarrow> 'c option) \<Rightarrow> ('c, 'b) server \<Rightarrow> 'c client_error + 'c client_refs" where
  "list_refs E parse s =
     (let wire = get_refs E s in
      rbind (case rf_head wire of None \<Rightarrow> Inr None | Some h \<Rightarrow> rbind (parse_reply parse h) (\<lambda>c. Inr (Some c))) (\<lambda>head.
      rbind (rmap (\<lambda>(name, cid_str). rbind (parse_reply parse cid_str) (\<lambda>cid. Inr (name, cid))) (bt_iter (rf_refs wire))) (\<lambda>refs.
      Inr \<lparr>cr_head = head, cr_refs = fmap_of_list refs, cr_capabilities = parse_wire_capabilities (rf_capabilities wire)\<rparr>)))"

definition bearer_header :: "bytes option \<Rightarrow> bytes option" where
  "bearer_header token = map_option (\<lambda>t. ascii ''Bearer '' @ t) token"

text \<open>What the client makes of the status of a failed request; 409 is treated apart.\<close>

definition status_error :: "'c reply_error \<Rightarrow> 'c client_error" where
  "status_error e =
     (let status = (case e of Rejected r \<Rightarrow> auth_status r | Failed f \<Rightarrow> remote_status f) in
      if status = 401 \<or> status = 403 then ClientAuth else ClientProtocol)"

definition fetch_blocks ::
    "('c, 'h, 'b) external \<Rightarrow> ('c, 'b) car_wire \<Rightarrow> (string \<Rightarrow> 'c option) \<Rightarrow> 'c list \<Rightarrow> bytes \<Rightarrow> ('c, 'b) server
       \<Rightarrow> 'c client_error + bytes" where
  "fetch_blocks E W parse wants have_set s =
     map_err (\<lambda>e. status_error (Failed e))
       (post_fetch_blocks E W parse \<lparr>fb_wants = map (cid_string E) wants, fb_have_set = have_set\<rparr> s)"

record 'c push_response =
  pu_accepted :: u64
  pu_root :: 'c

definition on_server :: "(('c, 'b) server, 'e, 'a) prog \<Rightarrow> (('c, 'b) peers, 'f, 'e + 'a) prog" where
  "on_server m = (\<lambda>p. let (r, s) = m (pr_server p) in (Inr r, p\<lparr>pr_server := s\<rparr>))"

definition push_blocks ::
    "('c, 'h, 'b) external \<Rightarrow> ('c, 'b) car_wire \<Rightarrow> (string \<Rightarrow> 'c option) \<Rightarrow> bytes option \<Rightarrow> bytes
       \<Rightarrow> (('c, 'b) peers, 'c client_error, 'c push_response) prog" where
  "push_blocks E W parse token car_body =
     sbind (slift (ok_or (bearer_header token) ClientAuth)) (\<lambda>auth.
     sbind (on_server (post_push_blocks E W (Some auth) car_body)) (\<lambda>reply.
     sbind (slift (map_err status_error reply)) (\<lambda>wire.
     sbind (slift (ok_or (pb_staged wire) ClientProtocol)) (\<lambda>root_str.
     sbind (slift (parse_reply parse root_str)) (\<lambda>root.
     sret \<lparr>pu_accepted = pb_blocks_accepted wire, pu_root = root\<rparr>)))))"

definition advance_head ::
    "('c::linorder, 'h, 'b) external \<Rightarrow> (string \<Rightarrow> 'c option) \<Rightarrow> bytes option \<Rightarrow> 'c option \<Rightarrow> 'c \<Rightarrow> string
       \<Rightarrow> (('c, 'b) peers, 'c client_error, unit) prog" where
  "advance_head E parse token old new ref_name =
     sbind (slift (ok_or (bearer_header token) ClientAuth)) (\<lambda>auth.
     sbind (on_server (post_advance_head E parse (Some auth)
       \<lparr>ah_old = map_option (cid_string E) old, ah_new = cid_string E new, ah_ref = ref_name\<rparr>)) (\<lambda>reply.
     slift (case reply of
         Inl (Failed (RCasMismatch current)) \<Rightarrow>
           let actual = (case parse (cid_string E current) of
                 Some c \<Rightarrow> c
               | None \<Rightarrow> (case old of Some o1 \<Rightarrow> o1 | None \<Rightarrow> new)) in
           Inl (ClientCasMismatch ref_name (case old of Some o1 \<Rightarrow> o1 | None \<Rightarrow> new) actual)
       | Inl e \<Rightarrow> Inl (status_error e)
       | Inr _ \<Rightarrow> Inr ())))"

section \<open>\<open>mnem push\<close>\<close>

datatype 'c push_error =
    NoToken
  | NoCommits
  | ExportFailed "'c transport_error"
  | RemoteFailed "'c client_error"
  | ConfigFailed

datatype 'c push_outcome = UpToDate | Pushed 'c

definition on_local :: "(('c, 'b) repo_state, 'e, 'a) prog \<Rightarrow> (('c, 'b) peers, 'f, 'e + 'a) prog" where
  "on_local m = (\<lambda>p. let (r, l) = m (pr_local p) in (Inr r, p\<lparr>pr_local := l\<rparr>))"

definition remote_call :: "(('c, 'b) peers, 'c client_error, 'a) prog \<Rightarrow> (('c, 'b) peers, 'c push_error, 'a) prog" where
  "remote_call m = (\<lambda>p. let (r, q) = m p in (map_err RemoteFailed r, q))"

text \<open>
  The command from the point where the repository is open and the entry of the remote is read: \<open>token\<close> is what
  \<open>resolve_token\<close> found and \<open>author\<close> what \<open>config::load\<close> gives once the server has moved its head, if the file can
  be read. A failure to move the local tracking ref is only a warning.
\<close>

definition push_run ::
    "('c::linorder, 'h, 'b) external \<Rightarrow> ('c, 'b) car_wire \<Rightarrow> (string \<Rightarrow> 'c option) \<Rightarrow> bytes option \<Rightarrow> string \<Rightarrow> string \<Rightarrow> u64
       \<Rightarrow> string option \<Rightarrow> 'c readonly_repo \<Rightarrow> (('c, 'b) peers, 'c push_error, 'c push_outcome) prog" where
  "push_run E W parse token remote_name branch now author repo =
     sbind (slift (ok_or token NoToken)) (\<lambda>secret.
     sbind (slift (case vw_heads (rr_view repo) of [] \<Rightarrow> Inl NoCommits | h # _ \<Rightarrow> Inr h)) (\<lambda>local_head.
     sbind (remote_call (sread (\<lambda>p. list_refs E parse (pr_server p)))) (\<lambda>refs_resp.
     let remote_tip = (case fmlookup (cr_refs refs_resp) branch of Some c \<Rightarrow> Some c | None \<Rightarrow> cr_head refs_resp) in
     if remote_tip = Some local_head then sret UpToDate
     else
       sbind (sread (\<lambda>p. case export_car E W (rs_blocks (pr_local p)) local_head [] of
           (Inl e, _) \<Rightarrow> Inl (ExportFailed e)
         | (Inr _, car) \<Rightarrow> Inr car)) (\<lambda>car.
       sbind (remote_call (push_blocks E W parse (Some secret) car)) (\<lambda>pushed.
       sbind (remote_call (advance_head E parse (Some secret) remote_tip local_head branch)) (\<lambda>_.
       let tracking_key = ''refs/remotes/'' @ remote_name @ ''/'' @ branch;
           prev = fmlookup (vw_refs (rr_view repo)) tracking_key in
       sbind (slift (ok_or author ConfigFailed)) (\<lambda>author_string.
       sbind (on_local (update_ref E now repo tracking_key prev (Some (Normal local_head)) author_string)) (\<lambda>_.
       sret (Pushed (pu_root pushed))))))))))"

end
