(* ===== verification/Push_Spec.thy ===== *)
theory Push_Spec imports Remote_Spec Remote_Client begin

text \<open>
  The composition of the client of a push with the server: what the server holds, and which head it has, when the command
  reports success.
\<close>

section \<open>What a push does\<close>

lemma list_refs_run:
  assumes "\<And>c. parse (cid_string E c) = Some c"
  shows "list_refs E parse s = Inr
    \<lparr>cr_head = (case oh_current (rs_heads (sv_stores s)) of [] \<Rightarrow> None | h # _ \<Rightarrow> Some h),
     cr_refs = (case oh_current (rs_heads (sv_stores s)) of [] \<Rightarrow> fmempty | h # _ \<Rightarrow> fmupd DEFAULT_REF h (fmupd ''HEAD'' h fmempty)),
     cr_capabilities = parse_wire_capabilities (map as_wire_str capability_all)\<rparr>"
proof -
  have refs: "rmap (\<lambda>(name, cid_str). rbind (parse_reply parse cid_str) (\<lambda>cid. Inr (name, cid))) (map (\<lambda>(k, c). (k, cid_string E c)) es) =
      Inr es" for es :: "(string \<times> 'a) list"
    by (induction es) (auto simp: parse_reply_def assms ok_or_def)
  have reply: "parse_reply parse (cid_string E c) = Inr c" for c by (simp add: parse_reply_def assms)
  have iter: "bt_iter (fmmap (cid_string E) m) = map (\<lambda>(k, c). (k, cid_string E c)) (bt_iter m)" for m :: "(string, 'a) fmap"
    by (rule bt_iter_fmmap)
  show ?thesis
  proof (cases "oh_current (rs_heads (sv_stores s))")
    case Nil
    have "fmap_of_list ([] :: (string \<times> 'a) list) = fmempty" by simp
    moreover have "bt_iter (fmempty :: (string, string) fmap) = []" using bt_iter_fmap_of_list [of "[] :: (string \<times> string) list"] by (simp add: strict_keys_def)
    ultimately show ?thesis using Nil by (simp add: list_refs_def get_refs_def Let_def)
  next
    case (Cons h hs)
    let ?m = "fmupd DEFAULT_REF h (fmupd ''HEAD'' h fmempty)"
    have "fmupd DEFAULT_REF (cid_string E h) (fmupd ''HEAD'' (cid_string E h) fmempty) = fmmap (cid_string E) ?m"
      by (intro fmap_ext) simp
    then show ?thesis
      by (simp add: list_refs_def get_refs_def Let_def Cons reply iter refs)
  qed
qed


text \<open>\<open>Cid::parse_str\<close> reads back what \<open>Display\<close> wrote.\<close>

definition cid_text :: "('c, 'h, 'b) external \<Rightarrow> (string \<Rightarrow> 'c option) \<Rightarrow> bool" where
  "cid_text E parse \<longleftrightarrow> (\<forall>c. parse (cid_string E c) = Some c)"

definition server_head :: "('c::linorder, 'b) server \<Rightarrow> 'c option" where
  "server_head s = (case oh_current (rs_heads (sv_stores s)) of [] \<Rightarrow> None | h # _ \<Rightarrow> Some h)"

lemma remote_tip:
  assumes "cid_text E parse" and "list_refs E parse s = Inr r"
  shows "(case fmlookup (cr_refs r) branch of Some c \<Rightarrow> Some c | None \<Rightarrow> cr_head r) = server_head s"
  using assms list_refs_run [of parse E s] by (auto simp: cid_text_def server_head_def split: list.splits)

lemma names_heads_sent:
  "cid_text E parse \<Longrightarrow>
   names_heads parse \<lparr>ah_old = map_option (cid_string E) old, ah_new = cid_string E new, ah_ref = branch\<rparr> old' new' \<longleftrightarrow>
     branch = DEFAULT_REF \<and> old' = old \<and> new' = new"
  by (auto simp: names_heads_def cid_text_def split: option.splits)

lemma push_blocks_Inr:
  assumes "push_blocks E W parse (Some t) car p = (Inr u, q)"
  shows "\<exists>r s. post_push_blocks E W (bearer_header (Some t)) car (pr_server p) = (Inr r, s) \<and> pr_server q = s \<and>
    Option.bind (pb_staged r) parse = Some (pu_root u)"
proof -
  obtain rp s where post: "post_push_blocks E W (Some (ascii ''Bearer '' @ t)) car (pr_server p) = (rp, s)" by fastforce
  show ?thesis
  proof (cases rp)
    case (Inl e)
    then show ?thesis using assms
      by (simp add: push_blocks_def bearer_header_def on_server_def post sbind_def slift_def)
  next
    case (Inr r)
    then show ?thesis using assms
      by (auto simp: push_blocks_def bearer_header_def on_server_def post sbind_def slift_def sret_def parse_reply_def ok_or_def
          split: option.splits)
  qed
qed

lemma client_advance_Inr:
  assumes "advance_head E parse (Some t) old new branch p = (Inr u, q)"
  shows "\<exists>h. post_advance_head E parse (bearer_header (Some t))
      \<lparr>ah_old = map_option (cid_string E) old, ah_new = cid_string E new, ah_ref = branch\<rparr> (pr_server p) = (Inr h, pr_server q)"
proof -
  obtain rp s where post: "post_advance_head E parse (Some (ascii ''Bearer '' @ t))
      \<lparr>ah_old = map_option (cid_string E) old, ah_new = cid_string E new, ah_ref = branch\<rparr> (pr_server p) = (rp, s)" by fastforce
  have "\<not> isl rp"
    using assms by (auto simp: advance_head_def bearer_header_def on_server_def post sbind_def slift_def Let_def isl_def
        split: reply_error.splits remote_error.splits)
  then obtain h where "rp = Inr h" by (cases rp) auto
  then show ?thesis using assms
    by (auto simp: advance_head_def bearer_header_def on_server_def post sbind_def slift_def)
qed

lemma push_run_effect:
  assumes cidt: "cid_text E parse" and run: "push_run E W parse token remote branch now author repo p = (Inr (Pushed root), q)"
  obtains h hs st car secret r m where "vw_heads (rr_view repo) = h # hs" and "token = Some secret" and "branch = DEFAULT_REF"
    and "export_car E W (rs_blocks (pr_local p)) h [] = (Inr st, car)"
    and "post_push_blocks E W (bearer_header token) car (pr_server p) = (Inr r, m)" and "Option.bind (pb_staged r) parse = Some root"
    and "may_advance E (sv_stores m) (server_head (pr_server p)) h" and "server_head (pr_server p) \<noteq> Some h"
    and "pr_server q = moved (server_head (pr_server p)) h m"
proof -
  from run obtain secret where tok: "token = Some secret" by (auto simp: push_run_def monad_simps ok_or_Inr_iff)
  from run obtain h hs where h: "vw_heads (rr_view repo) = h # hs"
    by (auto simp: push_run_def monad_simps split: list.splits)
  from run tok h obtain refs where refs: "list_refs E parse (pr_server p) = Inr refs"
    by (auto simp: push_run_def monad_simps remote_call_def map_err_Inr Let_def)
  note tip = remote_tip [OF cidt refs]
  have ne: "server_head (pr_server p) \<noteq> Some h"
    using run tok h refs tip by (auto simp: push_run_def monad_simps remote_call_def map_err_Inr Let_def ok_or_def)
  obtain ex car where ex: "export_car E W (rs_blocks (pr_local p)) h [] = (ex, car)" by fastforce
  have "isl ex \<Longrightarrow> False"
    using run tok h refs tip ne by (auto simp: push_run_def monad_simps remote_call_def map_err_Inr Let_def ok_or_def ex split: sum.splits)
  then obtain st where car: "export_car E W (rs_blocks (pr_local p)) h [] = (Inr st, car)" using ex by (cases ex) auto
  from run tok h refs tip ne car obtain pushed p1 p2 where
    push: "push_blocks E W parse (Some secret) car p = (Inr pushed, p1)" and
    adv: "advance_head E parse (Some secret) (server_head (pr_server p)) h branch p1 = (Inr (), p2)" and
    loc: "pr_server q = pr_server p2" and root: "root = pu_root pushed"
    by (cases author)
      (auto simp: push_run_def monad_simps remote_call_def map_err_Inr Let_def ok_or_def on_local_def split: prod.splits)
  from push_blocks_Inr [OF push] obtain r m where post: "post_push_blocks E W (bearer_header token) car (pr_server p) = (Inr r, m)"
    and p1: "pr_server p1 = m" and staged: "Option.bind (pb_staged r) parse = Some root"
    unfolding tok root by blast
  from client_advance_Inr [OF adv] obtain rep where "post_advance_head E parse (bearer_header token)
      \<lparr>ah_old = map_option (cid_string E) (server_head (pr_server p)), ah_new = cid_string E h, ah_ref = branch\<rparr> m = (Inr rep, pr_server p2)"
    unfolding tok p1 by blast
  then have "branch = DEFAULT_REF" "may_advance E (sv_stores m) (server_head (pr_server p)) h"
      "pr_server p2 = moved (server_head (pr_server p)) h m"
    unfolding advance_head_Inr names_heads_sent [OF cidt] by auto
  with that [OF h tok _ car post staged _ ne] loc show thesis by simp
qed


text \<open>The history of a root is within the limits of the importer, and every block of it hashes to its CID.\<close>

definition sendable :: "('c, 'h, 'b) external \<Rightarrow> ('c, 'b) car_wire \<Rightarrow> ('c, 'b) store \<Rightarrow> 'c \<Rightarrow> bool" where
  "sendable E W bs root \<longleftrightarrow>
     (\<forall>header. write_header E W (single_root root) = Inr header \<longrightarrow> length header \<le> MAX_HEADER_BYTES) \<and>
     (\<forall>c b. (links_to E bs)\<^sup>*\<^sup>* root c \<longrightarrow> bs_get bs c = Some b \<longrightarrow> recompute_cid E c b = Some c \<and> section_size E (c, b) \<le> MAX_BLOCK_BYTES) \<and>
     (\<forall>st car. export_car E W bs root [] = (Inr st, car) \<longrightarrow> length car \<le> unat DEFAULT_MAX_IMPORT_BYTES)"

text \<open>A push that reports success: the server has the local history and its head is the local one.\<close>

lemma push_publishes_spec:
  assumes laws: "car_laws E W" and rt: "codec_roundtrip E" and cidt: "cid_text E parse"
    and run: "push_run E W parse token remote branch now author repo p = (Inr (Pushed root), q)"
    and send: "sendable E W (rs_blocks (pr_local p)) (hd (vw_heads (rr_view repo)))"
  shows "vw_heads (rr_view repo) = root # tl (vw_heads (rr_view repo)) \<and>
    rs_heads (sv_stores (pr_server q)) =
      finsert root (rs_heads (sv_stores (pr_server p))) |-| (case server_head (pr_server p) of None \<Rightarrow> {||} | Some o1 \<Rightarrow> {|o1|}) \<and>
    root |\<in>| rs_heads (sv_stores (pr_server q)) \<and>
    (\<forall>c. bs_get (rs_blocks (sv_stores (pr_server q))) c =
       (if (links_to E (rs_blocks (pr_local p)))\<^sup>*\<^sup>* root c then bs_get (rs_blocks (pr_local p)) c
        else bs_get (rs_blocks (sv_stores (pr_server p))) c))"
proof -
  let ?src = "rs_blocks (pr_local p)"
  from push_run_effect [OF cidt run] obtain h hs st car r m where h: "vw_heads (rr_view repo) = h # hs"
    and ex: "export_car E W ?src h [] = (Inr st, car)"
    and post: "post_push_blocks E W (bearer_header token) car (pr_server p) = (Inr r, m)"
    and staged: "Option.bind (pb_staged r) parse = Some root"
    and neq: "server_head (pr_server p) \<noteq> Some h" and q: "pr_server q = moved (server_head (pr_server p)) h m" by metis
  have header: "\<And>hd'. write_header E W (single_root h) = Inr hd' \<Longrightarrow> length hd' \<le> MAX_HEADER_BYTES"
    and blocks: "\<And>c b. (links_to E ?src)\<^sup>*\<^sup>* h c \<Longrightarrow> bs_get ?src c = Some b \<Longrightarrow> recompute_cid E c b = Some c \<and> section_size E (c, b) \<le> MAX_BLOCK_BYTES"
    and limit: "length car \<le> unat DEFAULT_MAX_IMPORT_BYTES"
    using send ex unfolding sendable_def h list.sel by blast+
  obtain hd' items where items: "write_header E W (single_root h) = Inr hd'" "iter_from_root E ?src h = Inr items"
      "car = hd' @ sections E W items"
    using export_car_run [OF ex] by auto
  note walk = iter_from_root_yields [OF items(2)]
  have "payload E is \<le> length (sections E W is)" for "is"
    by (induction "is") (auto simp: payload_def sections_def write_block_def Let_def)
  with limit items(3) have "payload E items \<le> unat DEFAULT_MAX_IMPORT_BYTES"
    by (metis le_trans le_add2 length_append)
  moreover have "(links_to E ?src)\<^sup>*\<^sup>* h c" if "(c, b) \<in> set items" for c b
    using that walk(2) by (metis (mono_tags, lifting) fst_conv image_eqI image_set mem_Collect_eq)
  ultimately have ok: "transferable E items DEFAULT_MAX_IMPORT_BYTES"
    using blocks walk(3) by (auto simp: transferable_def)
  let ?dst = "fold (\<lambda>(c, b). fmupd c b) items (rs_blocks (sv_stores (pr_server p)))"
  have imp: "import_with_limit E W car DEFAULT_MAX_IMPORT_BYTES (rs_blocks (sv_stores (pr_server p))) =
      (Inr \<lparr>im_blocks = word_of_nat (length items), im_bytes = word_of_nat (payload E items), im_roots = [h]\<rparr>, ?dst)"
    using import_exported [OF laws rt items(1) header [OF items(1)] items(2) ok] by (simp add: items(3))
  from post have m: "m = (pr_server p)\<lparr>sv_stores := (sv_stores (pr_server p))\<lparr>rs_blocks := ?dst\<rparr>\<rparr>" "pb_staged r = Some (cid_string E h)"
    by (auto simp: post_push_blocks_def monad_simps authorized_def on_stores_def on_blocks_def imp)
  have root: "root = h" using staged m(2) cidt by (simp add: cid_text_def)
  show ?thesis
    using bs_get_imported [OF items(2), of "rs_blocks (sv_stores (pr_server p))"] h neq
    by (simp add: q root) (simp add: moved_def m)
qed


lemma push_then_open_spec:
  assumes "car_laws E W" and "codec_roundtrip E" and "cid_text E parse"
    and "push_run E W parse token remote branch now author repo p = (Inr (Pushed root), q)"
    and "sendable E W (rs_blocks (pr_local p)) (hd (vw_heads (rr_view repo)))"
    and "rs_heads (sv_stores (pr_server p)) = {|o1|}" and "is_commit E (rs_blocks (pr_local p)) root"
  shows "\<exists>e. repo_open E fuel (sv_stores (pr_server q)) = (Inl (Codec e), sv_stores (pr_server q))"
proof (rule open_at_commit_fails)
  note push = push_publishes_spec [OF assms(1-5)]
  have "server_head (pr_server p) = Some o1"
    using assms(6) by (simp add: server_head_def oh_current_def sorted_list_of_fset.rep_eq)
  with push assms(6) show "rs_heads (sv_stores (pr_server q)) = {|root|}"
    by (auto simp: fset_eq_iff)
  have "bs_get (rs_blocks (sv_stores (pr_server q))) root = bs_get (rs_blocks (pr_local p)) root" using push by simp
  with assms(7) show "is_commit E (rs_blocks (sv_stores (pr_server q))) root" by (simp add: is_commit_iff)
qed

end
