(* ===== verification/Gc.thy ===== *)
theory Gc imports Remote begin

text \<open>
  Garbage collection, \<open>post_gc\<close> of \<open>crates/mnem-http/src/handlers.rs\<close>: everything reachable from the operation the server
  is pinned to, from its refs and its working copy is kept, every other block of the store is deleted. The store
  modelled lists its CIDs, so the branch for stores that cannot is left out; a deletion does not fail.
\<close>

record gc_report =
  gc_reachable :: nat
  gc_total :: nat
  gc_unreachable :: nat
  gc_deleted :: nat
  gc_errors :: nat
  gc_force :: bool

fun target_roots :: "'c ref_target \<Rightarrow> 'c list" where
  "target_roots (Normal target) = [target]"
| "target_roots (Conflicted adds removes) = adds"

definition gc_roots :: "'c::linorder readonly_repo \<Rightarrow> 'c list" where
  "gc_roots repo =
     (let view = rr_view repo;
          roots = [rr_op_id repo] @ concat (map (target_roots \<circ> snd) (bt_iter (vw_refs view)));
          roots = roots @ (case vw_remote_refs view of
              Some remote_map \<Rightarrow> concat (map (\<lambda>(_, inner). concat (map (target_roots \<circ> snd) (bt_iter inner))) (bt_iter remote_map))
            | None \<Rightarrow> []);
          roots = roots @ (case vw_wc_commit view of Some wc \<Rightarrow> [wc] | None \<Rightarrow> []) in
      remdups_adj (sort roots))"

definition walk_all :: "('c, 'h, 'b) external \<Rightarrow> ('c, 'b) store \<Rightarrow> 'c list \<Rightarrow> 'c error + 'c fset" where
  "walk_all E bs roots =
     rfold (\<lambda>root reachable.
       rbind (iter_from_root E bs root) (\<lambda>items. Inr (fold (\<lambda>(cid, _) reachable. finsert cid reachable) items reachable)))
     roots {||}"

definition post_gc ::
    "('c::linorder, 'h, 'b) external \<Rightarrow> 'c readonly_repo \<Rightarrow> bytes option \<Rightarrow> bool \<Rightarrow> (('c, 'b) server, 'c reply_error, gc_report) prog" where
  "post_gc E repo header force =
     sbind (authorized header) (\<lambda>_.
     sbind (sread (\<lambda>s. map_err (\<lambda>_. Failed RInternal) (walk_all E (rs_blocks (sv_stores s)) (gc_roots repo)))) (\<lambda>reachable.
     sbind (sread (\<lambda>s. Inr (sorted_list_of_fset (bs_all_cids (rs_blocks (sv_stores s)))))) (\<lambda>all.
     let unreachable = filter (\<lambda>cid. cid |\<notin>| reachable) all in
     if \<not> force then
       sret \<lparr>gc_reachable = fcard reachable, gc_total = length all, gc_unreachable = length unreachable,
             gc_deleted = 0, gc_errors = 0, gc_force = False\<rparr>
     else
       sbind (on_stores (\<lambda>e :: unit. Failed RInternal) (on_blocks (\<lambda>bs. (Inr (), fold bs_delete unreachable bs)))) (\<lambda>_.
       sret \<lparr>gc_reachable = fcard reachable, gc_total = length all, gc_unreachable = length unreachable,
             gc_deleted = length unreachable, gc_errors = 0, gc_force = True\<rparr>))))"

section \<open>What is kept\<close>

definition gc_live :: "('c::linorder, 'h, 'b) external \<Rightarrow> ('c, 'b) store \<Rightarrow> 'c readonly_repo \<Rightarrow> 'c \<Rightarrow> bool" where
  "gc_live E bs repo c \<longleftrightarrow> (\<exists>r \<in> set (gc_roots repo). (links_to E bs)\<^sup>*\<^sup>* r c)"

lemma fold_finsert: "fold (\<lambda>(c, _) s. finsert c s) items s = s |\<union>| fset_of_list (map fst items)"
  by (induction items arbitrary: s) auto

lemma walk_all_Inr:
  assumes "walk_all E bs roots = Inr reachable"
  shows "fset reachable = {c. \<exists>r \<in> set roots. (links_to E bs)\<^sup>*\<^sup>* r c}"
proof -
  have "fset s' = fset s \<union> {c. \<exists>r \<in> set roots. (links_to E bs)\<^sup>*\<^sup>* r c}"
    if "rfold (\<lambda>root reachable.
       rbind (iter_from_root E bs root) (\<lambda>items. Inr (fold (\<lambda>(cid, _) reachable. finsert cid reachable) items reachable))) roots s = Inr s'" for s s'
    using that
  proof (induction roots arbitrary: s)
    case (Cons root roots)
    from Cons.prems obtain items where "iter_from_root E bs root = Inr items"
      and rest: "rfold (\<lambda>root reachable.
        rbind (iter_from_root E bs root) (\<lambda>items. Inr (fold (\<lambda>(cid, _) reachable. finsert cid reachable) items reachable))) roots
          (s |\<union>| fset_of_list (map fst items)) = Inr s'"
      by (auto simp: rbind_Inr_iff fold_finsert)
    with Cons.IH [OF rest] iter_from_root_yields(2) [of E bs root items] show ?case by (auto simp: fset_of_list.rep_eq)
  qed simp
  from this [OF assms [unfolded walk_all_def]] show ?thesis by simp
qed

lemma fold_delete: "bs_get (fold bs_delete cs bs) c = (if c \<in> set cs then None else bs_get bs c)"
  by (induction cs arbitrary: bs) (auto simp: mem.look_del)

lemma gc_run:
  assumes "post_gc E repo header force s = (res, t)"
  shows "sv_push_token t = sv_push_token s \<and> rs_heads (sv_stores t) = rs_heads (sv_stores s) \<and>
    (case res of
       Inl e \<Rightarrow> t = s
     | Inr rep \<Rightarrow>
         if force then
           (\<forall>c. bs_get (rs_blocks (sv_stores t)) c =
              (if gc_live E (rs_blocks (sv_stores s)) repo c then bs_get (rs_blocks (sv_stores s)) c else None)) \<and>
           gc_deleted rep = card {c. bs_has (rs_blocks (sv_stores s)) c \<and> \<not> gc_live E (rs_blocks (sv_stores s)) repo c}
         else t = s \<and> gc_deleted rep = 0)"
proof -
  let ?bs = "rs_blocks (sv_stores s)"
  let ?all = "sorted_list_of_fset (bs_all_cids ?bs)"
  show ?thesis
  proof (cases "require_bearer (sv_push_token s) header")
    case (Inl e)
    then have "res = Inl (Rejected e)" "t = s" using assms by (simp_all add: post_gc_def authorized_def sbind_def sread_def map_err_def)
    then show ?thesis by simp
  next
    case (Inr u)
    have auth: "authorized header s = (Inr (), s)" by (simp add: authorized_def sread_def Inr map_err_def)
    show ?thesis
    proof (cases "walk_all E ?bs (gc_roots repo)")
      case (Inl e)
      then have "res = Inl (Failed RInternal)" "t = s" using assms auth by (simp_all add: post_gc_def sbind_def sread_def map_err_def)
      then show ?thesis by simp
    next
      case (Inr reachable)
      have live: "c |\<in>| reachable \<longleftrightarrow> gc_live E ?bs repo c" for c
        using walk_all_Inr [OF Inr] by (auto simp: gc_live_def)
      let ?un = "filter (\<lambda>c. c |\<notin>| reachable) ?all"
      have un: "set ?un = {c. bs_has ?bs c \<and> \<not> gc_live E ?bs repo c}"
        by (auto simp: live bs_all_cids_def bs_has_def)
      have "distinct ?un" by (simp add: sorted_list_of_fset.rep_eq)
      then have len: "length ?un = card {c. bs_has ?bs c \<and> \<not> gc_live E ?bs repo c}"
        using distinct_card un by metis
      have keep: "bs_get (fold bs_delete ?un ?bs) c = (if gc_live E ?bs repo c then bs_get ?bs c else None)" for c
        unfolding fold_delete un by (auto simp: bs_has_def bs_get_def fmdom_notD)
      show ?thesis
      proof (cases force)
        case True
        then have "t = s\<lparr>sv_stores := (sv_stores s)\<lparr>rs_blocks := fold bs_delete ?un ?bs\<rparr>\<rparr>"
          and "\<exists>rep. res = Inr rep \<and> gc_deleted rep = length ?un"
          using assms auth Inr by (auto simp: post_gc_def sbind_def sread_def map_err_def sret_def on_stores_def on_blocks_def Let_def)
        with True keep len show ?thesis by auto
      next
        case False
        then have "t = s" and "\<exists>rep. res = Inr rep \<and> gc_deleted rep = 0"
          using assms auth Inr by (auto simp: post_gc_def sbind_def sread_def map_err_def sret_def Let_def)
        with False show ?thesis by auto
      qed
    qed
  qed
qed

section \<open>What the pinned operation shows stays\<close>

definition all_dagcbor :: "('c, 'h, 'b) external \<Rightarrow> ('c, 'b) store \<Rightarrow> bool" where
  "all_dagcbor E bs \<longleftrightarrow> (\<forall>c. bs_get bs c \<noteq> None \<longrightarrow> cid_codec E c = CODEC_DAG_CBOR)"

lemma links_of_field: "fmlookup m k = Some w \<Longrightarrow> set (links_of w) \<subseteq> set (links_of (IMap m))"
proof -
  assume "fmlookup m k = Some w"
  then have "(k, w) \<in> set (bt_iter m)" by (simp add: set_bt_iter)
  then have "set (links_of w) \<subseteq> (\<Union>(k, v) \<in> set (bt_iter m). set (links_of v))" by blast
  also have "\<dots> = set (links_of (IMap m))" by (auto simp: bt_iter_fmmap)
  finally show ?thesis .
qed

lemma de_list_cid: "de_list de_cid w = Inr cs \<Longrightarrow> w = IList (map ILink cs)"
proof (cases w)
  case (IList xs)
  assume "de_list de_cid w = Inr cs"
  then have "rmap de_cid xs = Inr cs" using IList by simp
  then have "xs = map ILink cs"
  proof (induction xs arbitrary: cs)
    case (Cons x xs)
    then show ?case by (cases x) (auto simp: rbind_Inr_iff)
  qed simp
  with IList show ?thesis by simp
qed auto

lemma opt_Some: "opt m k de = Inr (Some x) \<Longrightarrow> \<exists>w. fmlookup m k = Some w \<and> de w = Inr x"
  by (auto simp: opt_def rbind_Inr_iff split: option.splits if_splits)

lemma req_Some: "req m k de = Inr x \<Longrightarrow> \<exists>w. fmlookup m k = Some w \<and> de w = Inr x"
  by (auto simp: req_def split: option.splits)

lemma links_ILinks [simp]: "set (links_of (IList (map ILink cs))) = set cs"
  by auto

lemma de_cid_link: "de_cid w = Inr c \<Longrightarrow> w = ILink c"
  by (cases w) auto

lemma req_cid_link: "req m k de_cid = Inr c \<Longrightarrow> c \<in> set (links_of (IMap m))"
  using req_Some [of m k de_cid c] links_of_field [of m k] by (auto dest!: de_cid_link)

lemma req_cids_link: "req m k (de_list de_cid) = Inr cs \<Longrightarrow> set cs \<subseteq> set (links_of (IMap m))"
  using req_Some [of m k "de_list de_cid" cs] links_of_field [of m k] by (fastforce dest!: de_list_cid)

lemma opt_cids_link: "opt m k (de_list de_cid) = Inr (Some cs) \<Longrightarrow> set cs \<subseteq> set (links_of (IMap m))"
  using opt_Some [of m k "de_list de_cid" cs] links_of_field [of m k] by (fastforce dest!: de_list_cid)

lemma view_heads_link: "de_view v = Inr w \<Longrightarrow> set (vw_heads w) \<subseteq> set (links_of v)"
  by (cases v) (auto simp: de_view_def rbind_Inr_iff Let_def split: if_splits dest!: req_cids_link)

lemma operation_view_link: "de_operation v = Inr w \<Longrightarrow> op_view w \<in> set (links_of v)"
  by (cases v) (auto simp: de_operation_def rbind_Inr_iff split: if_splits dest!: req_cid_link)

lemma commit_trees_link: "de_commit v = Inr w \<Longrightarrow> cm_nodes w \<in> set (links_of v) \<and> cm_edges w \<in> set (links_of v)"
  by (cases v) (auto simp: de_commit_def rbind_Inr_iff split: if_splits dest!: req_cid_link)

lemma tree_children_link: "de_tree v = Inr (Internal i) \<Longrightarrow> set (in_children i) \<subseteq> set (links_of v)"
  by (cases v) (auto simp: de_tree_def rbind_Inr_iff Let_def ok_or_Inr_iff split: if_splits dest!: opt_cids_link)

lemma next_item_readable:
  assumes "reachable_next E bs it = (Some (Inr (c, d)), it')"
  shows "readable E bs c"
proof -
  from assms obtain cid rest where st: "ri_stack it = cid # rest"
    by (auto simp: reachable_next_def split: if_splits list.splits)
  with assms obtain data where b: "bs_get bs cid = Some data"
    by (auto simp: reachable_next_def Let_def split: if_splits option.splits)
  show ?thesis
  proof (cases "cid_codec E cid = CODEC_DAG_CBOR")
    case True
    with assms st b have "c = cid \<and> (\<exists>links. extract_links E data = Inr links)"
      by (auto simp: reachable_next_def Let_def split: if_splits sum.splits prod.splits)
    with b show ?thesis by (simp add: readable_def)
  next
    case False
    with assms st b have "c = cid" by (auto simp: reachable_next_def Let_def split: if_splits)
    with b False show ?thesis by (simp add: readable_def)
  qed
qed

lemma iter_collect_readable:
  assumes "iter_collect E bs it out = Inr items" and "\<forall>(c, d) \<in> set out. readable E bs c"
  shows "\<forall>(c, d) \<in> set items. readable E bs c"
  using assms
proof (induction E bs it out rule: iter_collect.induct)
  case (1 E bs it out)
  obtain r it' where n: "reachable_next E bs it = (r, it')" by fastforce
  show ?case
  proof (cases r)
    case None
    with 1 n show ?thesis by (simp add: iter_collect.simps [of E bs it])
  next
    case (Some y)
    with "1.prems" n obtain c d where y: "y = Inr (c, d)" and rec: "iter_collect E bs it' (out @ [(c, d)]) = Inr items"
      by (cases y) (auto simp: iter_collect.simps [of E bs it])
    have "readable E bs c" using n by (intro next_item_readable) (simp add: Some y)
    with "1.prems"(2) show ?thesis using "1.IH" [OF n [symmetric] Some y rec] by simp
  qed
qed

lemma walk_readable:
  assumes "iter_from_root E bs root = Inr items" and "(links_to E bs)\<^sup>*\<^sup>* root c"
  shows "readable E bs c"
proof -
  have "\<forall>(c, d) \<in> set items. readable E bs c"
    using assms(1) iter_collect_readable [of E bs "reachable_new root" "[]" items] by (simp add: iter_from_root_def)
  moreover have "c \<in> set (map fst items)" using iter_from_root_yields(2) [OF assms(1)] assms(2) by simp
  ultimately show ?thesis by auto
qed

lemma walk_all_readable:
  assumes "walk_all E bs roots = Inr reachable" and "r \<in> set roots" and "(links_to E bs)\<^sup>*\<^sup>* r c"
  shows "readable E bs c"
proof -
  have "\<exists>items. iter_from_root E bs r = Inr items"
    if "rfold (\<lambda>root reachable.
       rbind (iter_from_root E bs root) (\<lambda>items. Inr (fold (\<lambda>(cid, _) reachable. finsert cid reachable) items reachable))) roots s = Inr s'" for s s'
    using that assms(2) by (induction roots arbitrary: s) (auto simp: rbind_Inr_iff)
  with assms(1) show ?thesis using walk_readable [OF _ assms(3)] unfolding walk_all_def by blast
qed

lemma walk_ipld_links: "walk_ipld v [] 0 = Inr links \<Longrightarrow> links = links_of v"
  using walk_ipld_ok [of 0 v "[]"] walk_ipld_too_deep [of 0 v "[]"] by (cases "nesting v \<le> WALK_IPLD_MAX_DEPTH") auto

lemma decoded_links:
  assumes "readable E bs c" and "all_dagcbor E bs" and "decode_from_store E de bs c = Inr x"
  obtains v where "de v = Inr x" and "\<And>d. d \<in> set (links_of v) \<Longrightarrow> links_to E bs c d"
proof -
  from assms(3) obtain b v where b: "bs_get bs c = Some b" "dec E b = Some v" "de v = Inr x"
    by (auto simp: decode_from_store_def from_canonical_bytes_def split: option.splits sum.splits)
  have codec: "cid_codec E c = CODEC_DAG_CBOR" using assms(2) b(1) by (simp add: all_dagcbor_def)
  with assms(1) b(1) obtain links where l: "extract_links E b = Inr links" by (auto simp: readable_def)
  then have "walk_ipld v [] 0 = Inr links"
    using b(2) by (auto simp: extract_links_def from_canonical_bytes_def split: sum.splits)
  then have "links = links_of v" by (rule walk_ipld_links)
  with b l codec that show thesis by (auto simp: links_to_def)
qed

text \<open>A store that agrees on the live blocks decodes them alike; so the operation, its view, the commit and its trees stay.\<close>

lemma represents_agrees:
  assumes "represents E bs c t" and "all_dagcbor E bs"
    and "\<And>d. (links_to E bs)\<^sup>*\<^sup>* c d \<Longrightarrow> readable E bs d \<and> bs_get bs' d = bs_get bs d"
  shows "represents E bs' c t"
  using assms(1,3)
proof (induction c t rule: represents.induct)
  case (rep_leaf cid l es)
  have "load_tree_chunk E bs' cid = load_tree_chunk E bs cid"
    using rep_leaf.prems [of cid] by (simp add: load_tree_chunk_def)
  with rep_leaf show ?case by (intro represents.rep_leaf) simp_all
next
  case (rep_node cid i ks ts)
  have self: "readable E bs cid" "bs_get bs' cid = bs_get bs cid" using rep_node.prems [of cid] by simp_all
  have load: "load_tree_chunk E bs' cid = Inr (Internal i)" using self(2) rep_node.hyps(1) by (simp add: load_tree_chunk_def)
  have "decode_from_store E de_tree bs cid = Inr (Internal i)"
    using rep_node.hyps(1) by (simp add: load_tree_chunk_decode)
  then obtain v where v: "de_tree v = Inr (Internal i)" "\<And>d. d \<in> set (links_of v) \<Longrightarrow> links_to E bs cid d"
    by (rule decoded_links [OF self(1) assms(2)]) blast
  have child: "readable E bs d \<and> bs_get bs' d = bs_get bs d" if "k \<in> set (in_children i)" "(links_to E bs)\<^sup>*\<^sup>* k d" for k d
    using that v tree_children_link [OF v(1)] by (intro rep_node.prems) (meson converse_rtranclp_into_rtranclp subsetD)
  have "list_all2 (represents E bs') (in_children i) ts"
    by (rule list.rel_mono_strong [OF rep_node.IH]) (use child in blast)
  with load rep_node.hyps(2) show ?case by (intro represents.rep_node)
qed

lemma gc_keeps_reads:
  assumes run: "post_gc E repo header force s = (Inr rep, t)" and dag: "all_dagcbor E (rs_blocks (sv_stores s))"
    and load: "load_at E (rs_blocks (sv_stores s)) (rr_op_id repo) = Inr repo"
  shows "load_at E (rs_blocks (sv_stores t)) (rr_op_id repo) = Inr repo \<and>
    (\<forall>k fuel es. rr_commit repo = Some k \<longrightarrow>
       (tree_holds E (rs_blocks (sv_stores s)) fuel (cm_nodes k) es \<longrightarrow> tree_holds E (rs_blocks (sv_stores t)) fuel (cm_nodes k) es) \<and>
       (tree_holds E (rs_blocks (sv_stores s)) fuel (cm_edges k) es \<longrightarrow> tree_holds E (rs_blocks (sv_stores t)) fuel (cm_edges k) es))"
proof (cases force)
  case False
  with gc_run [OF run] load show ?thesis by simp
next
  case True
  let ?bs = "rs_blocks (sv_stores s)" and ?bs' = "rs_blocks (sv_stores t)"
  let ?op = "rr_op_id repo"
  have root: "?op \<in> set (gc_roots repo)" by (simp add: gc_roots_def Let_def set_insort_key)
  from run obtain reachable where walk: "walk_all E ?bs (gc_roots repo) = Inr reachable"
    by (auto simp: post_gc_def monad_simps authorized_def map_err_Inr)
  have live: "readable E ?bs d \<and> bs_get ?bs' d = bs_get ?bs d" if "(links_to E ?bs)\<^sup>*\<^sup>* ?op d" for d
    using gc_run [OF run] True walk_all_readable [OF walk root that] that root by (auto simp: gc_live_def)
  from load obtain op view hc where op: "decode_from_store E de_operation ?bs ?op = Inr op"
    and view: "decode_from_store E de_view ?bs (op_view op) = Inr view"
    and head: "head_commit_of E ?bs view = Inr hc"
    and repo: "\<lparr>rr_op_id = ?op, rr_op = op, rr_view = view, rr_commit = map_option snd hc\<rparr> = repo"
    by (auto simp: load_at_def rbind_Inr_iff)
  from arg_cong [OF repo, of rr_commit] have commit: "rr_commit repo = map_option snd hc" by simp
  obtain v where v: "de_operation v = Inr op" "\<And>d. d \<in> set (links_of v) \<Longrightarrow> links_to E ?bs ?op d"
    using live [of ?op] by (auto intro: decoded_links [OF _ dag op])
  then have r1: "(links_to E ?bs)\<^sup>*\<^sup>* ?op (op_view op)" using operation_view_link by blast
  obtain w where w: "de_view w = Inr view" "\<And>d. d \<in> set (links_of w) \<Longrightarrow> links_to E ?bs (op_view op) d"
    using live [OF r1] by (auto intro: decoded_links [OF _ dag view])
  have r2: "(links_to E ?bs)\<^sup>*\<^sup>* ?op h" if "h \<in> set (vw_heads view)" for h
    using r1 w view_heads_link [OF w(1)] that by (meson rtranclp.rtrancl_into_rtrancl subsetD)
  have same: "decode_from_store E de ?bs' d = decode_from_store E de ?bs d" if "(links_to E ?bs)\<^sup>*\<^sup>* ?op d" for de d
    using live [OF that] by (simp add: decode_from_store_def)
  have "load_at E ?bs' ?op = load_at E ?bs ?op"
    using r1 r2 op view by (auto simp: load_at_def same rbind_def head_commit_of_def split: list.split sum.split)
  moreover have trees: "tree_holds E ?bs' fuel c es" if "tree_holds E ?bs fuel c es" "(links_to E ?bs)\<^sup>*\<^sup>* ?op c" for fuel c es
  proof -
    have "represents E ?bs' c tr" if "represents E ?bs c tr" for tr
      by (rule represents_agrees [OF that dag]) (rule live, rule rtranclp_trans [OF \<open>(links_to E ?bs)\<^sup>*\<^sup>* ?op c\<close>])
    with that(1) show ?thesis unfolding tree_holds_def by blast
  qed
  moreover have "(links_to E ?bs)\<^sup>*\<^sup>* ?op (cm_nodes k) \<and> (links_to E ?bs)\<^sup>*\<^sup>* ?op (cm_edges k)" if "rr_commit repo = Some k" for k
  proof -
    from head commit that obtain h where h: "h \<in> set (vw_heads view)" and k: "decode_from_store E de_commit ?bs h = Inr k"
      by (cases "vw_heads view") (force simp: head_commit_of_def rbind_Inr_iff)+
    from live [OF r2 [OF h]] obtain u where u: "de_commit u = Inr k" "\<And>d. d \<in> set (links_of u) \<Longrightarrow> links_to E ?bs h d"
      by (auto intro: decoded_links [OF _ dag k])
    then show ?thesis using r2 [OF h] commit_trees_link [OF u(1)] by (meson rtranclp.rtrancl_into_rtrancl)
  qed
  ultimately show ?thesis using load by auto
qed

end
