(* ===== verification/Remote_Instance.thy ===== *)
theory Remote_Instance imports Push_Spec Gc Car_Instance begin

text \<open>
  A small history for the replication protocol: block 0 is an empty tree chunk, 1 a commit without parents, 2 and 3 commits
  on top of it, 4 the header of an archive with root 2, 5 a view with head 2, 6 an operation with this view, 7 a block
  that nothing links to.
\<close>

definition htable :: "u64 ipld list" where
  "htable = [ser_tree (Leaf (leaf_new [])), ser_commit (commit_new 7 0 0 0 ''me'' 5 ''a''),
     ser_commit (cm_with_parent (commit_new 8 0 0 0 ''me'' 6 ''b'') 1), ser_commit (cm_with_parent (commit_new 9 0 0 0 ''me'' 7 ''c'') 1),
     IMap (fmap_of_list [(''version'', IInteger 1), (''roots'', IList [ILink 2])]),
     ser_view (view_new\<lparr>vw_heads := [2]\<rparr>), ser_operation (operation_new 5 ''me'' 8 ''d''), INull]"

abbreviation "hE \<equiv> uE htable"

definition hparse :: "string \<Rightarrow> u64 option" where "hparse s = Some (word_of_nat (length s))"

definition hserver :: "u64 list \<Rightarrow> u64 list \<Rightarrow> (u64, u64) server" where
  "hserver heads ns = \<lparr>sv_push_token = Some (ascii ''k''), sv_stores = \<lparr>rs_blocks = ublocks ns, rs_heads = fset_of_list heads\<rparr>\<rparr>"

definition hauth :: "bytes option" where "hauth = bearer_header (Some (ascii ''k''))"

definition hadvance :: "string \<Rightarrow> string \<Rightarrow> advance_head_request" where
  "hadvance old new = \<lparr>ah_old = Some old, ah_new = new, ah_ref = ''main''\<rparr>"

lemma hserver_simps [simp]:
  "rs_blocks (sv_stores (hserver heads ns)) = ublocks ns" "rs_heads (sv_stores (hserver heads ns)) = fset_of_list heads"
  "sv_push_token (hserver heads ns) = Some (ascii ''k'')"
  by (simp_all add: hserver_def)

lemma htable_codec: "codec_roundtrip hE"
  by (rule uE_laws) (simp add: htable_def)

lemma hparse_text [simp]: "hparse (cid_string (uE table) c) = Some c"
  by (simp add: hparse_def uE_def)

lemma htext: "cid_text hE hparse"
  by (simp add: cid_text_def)

lemma hbearer: "require_bearer (Some (ascii ''k'')) hauth = Inr ()"
  by code_simp

lemma hrehash: "rehash_unique hE"
  by (simp add: rehash_unique_def uhash)

lemma hcontent: "content_addressed hE (ublocks ns)"
  by (simp add: content_addressed_def uhash)

lemma hnames: "names_heads hparse (hadvance old new) (Some (word_of_nat (length old))) (word_of_nat (length new))"
  by (simp add: names_heads_def hadvance_def DEFAULT_REF_def hparse_def)

lemma hcommit:
  "is_commit hE (ublocks ns) 1 \<longleftrightarrow> 1 \<in> set ns" "is_commit hE (ublocks ns) 2 \<longleftrightarrow> 2 \<in> set ns"
proof -
  have "\<not> isl (from_canonical_bytes hE de_commit 1)" "\<not> isl (from_canonical_bytes hE de_commit 2)" by code_simp+
  then show "is_commit hE (ublocks ns) 1 \<longleftrightarrow> 1 \<in> set ns" "is_commit hE (ublocks ns) 2 \<longleftrightarrow> 2 \<in> set ns"
    by (auto simp: is_commit_iff isl_def) (metis sum.exhaust)+
qed

text \<open>The archive of commit 2 and what it links to, as a fetch returns it.\<close>

definition hwants :: fetch_blocks_request where
  "hwants = \<lparr>fb_wants = [''aa''], fb_have_set = []\<rparr>"

definition hbody :: bytes where
  "hbody = [1, 4, 6, 1, 0x71, 0x12, 1, 2, 2, 6, 1, 0x71, 0x12, 1, 1, 1, 6, 1, 0x71, 0x12, 1, 0, 0]"

lemma hheader: "write_header hE uW \<lparr>ch_version = 1, ch_roots = [2]\<rparr> = Inr [1, 4]"
  by code_simp

lemma hfetch: "post_fetch_blocks hE uW hparse hwants (hserver [2] [0, 1, 2]) = Inr hbody"
  by code_simp

lemma hsizes: "recompute_cid hE c b = Some b" "section_size hE (c, b) \<le> MAX_BLOCK_BYTES"
  "length hbody \<le> unat DEFAULT_MAX_IMPORT_BYTES" "Suc (Suc 0) \<le> MAX_HEADER_BYTES"
  by (simp_all add: uhash usize hbody_def DEFAULT_MAX_IMPORT_BYTES_def) (simp add: MAX_HEADER_BYTES_def)

lemma hwants_roots: "map hparse (fb_wants hwants) = map Some wants \<longleftrightarrow> wants = [2]"
  by (auto simp: hwants_def hparse_def)

lemma hreach: "reachable_from hE (ublocks [0, 1, 2]) [2] = {0, 1, 2}"
proof -
  have "map_err (\<lambda>e. ()) (iter_from_root hE (ublocks [0, 1, 2]) 2) = Inr [(2, 2), (1, 1), (0, 0)]" by code_simp
  then have "iter_from_root hE (ublocks [0, 1, 2]) 2 = Inr [(2, 2), (1, 1), (0, 0)]" by (simp add: map_err_Inr)
  from iter_from_root_yields(2) [OF this] show ?thesis by (auto simp: reachable_from_def)
qed

lemma hpushed: "\<exists>n. post_push_blocks hE uW hauth hbody (hserver [1] [0, 1]) =
  (Inr \<lparr>pb_staged = Some (cid_string hE 2), pb_blocks_accepted = n\<rparr>, hserver [1] [0, 1, 2])"
proof -
  have "\<exists>wants n t'. map hparse (fb_wants hwants) = map Some wants \<and>
    post_push_blocks hE uW hauth hbody (hserver [1] [0, 1]) = (Inr \<lparr>pb_staged = Some (cid_string hE (hd wants)), pb_blocks_accepted = n\<rparr>, t') \<and>
    n = word_of_nat (card (reachable_from hE (rs_blocks (sv_stores (hserver [2] [0, 1, 2]))) wants)) \<and>
    sv_push_token t' = sv_push_token (hserver [1] [0, 1]) \<and> rs_heads (sv_stores t') = rs_heads (sv_stores (hserver [1] [0, 1])) \<and>
    (\<forall>c. bs_get (rs_blocks (sv_stores t')) c =
      (if c \<in> reachable_from hE (rs_blocks (sv_stores (hserver [2] [0, 1, 2]))) wants then bs_get (rs_blocks (sv_stores (hserver [2] [0, 1, 2]))) c
       else bs_get (rs_blocks (sv_stores (hserver [1] [0, 1]))) c))"
    by (rule fetch_then_push [OF uW_laws htable_codec hfetch]) (auto simp: hwants_roots hheader hsizes hbearer split: if_splits)
  then obtain n t' where run: "post_push_blocks hE uW hauth hbody (hserver [1] [0, 1]) = (Inr \<lparr>pb_staged = Some (cid_string hE 2), pb_blocks_accepted = n\<rparr>, t')"
    and t': "sv_push_token t' = Some (ascii ''k'')" "rs_heads (sv_stores t') = {|1|}"
      "\<And>c. bs_get (rs_blocks (sv_stores t')) c = (if c \<in> reachable_from hE (ublocks [0, 1, 2]) [2] then bs_get (ublocks [0, 1, 2]) c else bs_get (ublocks [0, 1]) c)"
    unfolding hwants_roots by auto
  have "bs_get (rs_blocks (sv_stores t')) c = bs_get (ublocks [0, 1, 2]) c" for c unfolding t'(3) hreach by simp
  then have "rs_blocks (sv_stores t') = ublocks [0, 1, 2]" by (intro fmap_ext) (simp add: bs_get_def)
  with t' have "t' = hserver [1] [0, 1, 2]" by (simp add: hserver_def)
  with run show ?thesis by blast
qed

lemma hdescends: "may_advance hE (sv_stores (hserver [1] (0 # 1 # 2 # ns))) (Some 1) 2"
proof -
  have "commit_parent hE (ublocks (0 # 1 # 2 # ns)) 2 1"
  proof -
    have "map_err (\<lambda>e. ()) (rbind (from_canonical_bytes hE de_commit 2) (\<lambda>k. Inr (cm_parents k))) = Inr [1]" by code_simp
    then obtain k where "from_canonical_bytes hE de_commit 2 = Inr k" "cm_parents k = [1]" by (auto simp: map_err_Inr rbind_Inr_iff)
    then show ?thesis by (simp add: commit_parent_iff)
  qed
  then show ?thesis by (auto simp: may_advance_def)
qed

definition hrepo :: "u64 readonly_repo" where
  "hrepo = \<lparr>rr_op_id = 6, rr_op = operation_new 5 ''me'' 8 ''d'', rr_view = view_new\<lparr>vw_heads := [2]\<rparr>, rr_commit = None\<rparr>"

definition hpeers :: "(u64, u64) peers" where
  "hpeers = \<lparr>pr_local = \<lparr>rs_blocks = ublocks [0, 1, 2], rs_heads = {|6|}\<rparr>, pr_server = hserver [1] [0, 1]\<rparr>"

lemma hexport: "export_car hE uW (ublocks [0, 1, 2]) 2 [] = (Inr \<lparr>ex_blocks = 3, ex_bytes = 23\<rparr>, hbody)"
  by code_simp

lemma hpush: "\<exists>q. push_run hE uW hparse (Some (ascii ''k'')) ''origin'' ''main'' now (Some ''me'') hrepo hpeers = (Inr (Pushed 2), q)"
proof -
  obtain n where push: "post_push_blocks hE uW (Some (ascii ''Bearer '' @ ascii ''k'')) hbody (hserver [1] [0, 1]) =
      (Inr \<lparr>pb_staged = Some (cid_string hE 2), pb_blocks_accepted = n\<rparr>, hserver [1] [0, 1, 2])"
    using hpushed by (auto simp: hauth_def bearer_header_def)
  obtain refs where refs: "list_refs hE hparse (hserver [1] [0, 1]) = Inr refs" using list_refs_run [of hparse hE "hserver [1] [0, 1]"] by simp
  have head: "server_head (hserver [1] [0, 1]) = Some 1" by (simp add: server_head_def oh_current_def sorted_list_of_fset.rep_eq)
  note tip = remote_tip [OF htext refs, unfolded head]
  have adv: "post_advance_head hE hparse (Some (ascii ''Bearer '' @ ascii ''k''))
      \<lparr>ah_old = Some (cid_string hE 1), ah_new = cid_string hE 2, ah_ref = ''main''\<rparr> (hserver [1] [0, 1, 2]) =
      (Inr (cid_string hE 2), moved (Some 1) 2 (hserver [1] [0, 1, 2]))"
    using names_heads_sent [OF htext, of "Some 1" 2 "''main''" "Some 1" 2] hdescends [of "[]"] hbearer
    unfolding advance_head_Inr by (intro conjI exI [of _ "Some 1"] exI [of _ 2]) (simp_all add: hauth_def bearer_header_def DEFAULT_REF_def)
  show ?thesis
    by (simp add: push_run_def sbind_def slift_def sread_def sret_def remote_call_def hpeers_def hrepo_def refs tip hexport push_blocks_def
        bearer_header_def on_server_def push parse_reply_def ok_or_def advance_head_def adv Let_def on_local_def on_blocks_def split: prod.split)
qed

lemma hsendable: "sendable hE uW (rs_blocks (pr_local hpeers)) (hd (vw_heads (rr_view hrepo)))"
  using hheader hexport by (simp add: sendable_def hpeers_def hrepo_def single_root_def hsizes)

section \<open>A collection\<close>

lemma hdagcbor: "all_dagcbor hE bs"
  by (simp add: all_dagcbor_def uE_def)

lemma hload_runs: "(case load_at hE (ublocks [0, 1, 2, 5, 6, 7]) 6 of Inl _ \<Rightarrow> False
  | Inr r \<Rightarrow> rr_op_id r = 6 \<and> (case walk_all hE (ublocks [0, 1, 2, 5, 6, 7]) (gc_roots r) of Inl _ \<Rightarrow> False | Inr s \<Rightarrow> True))"
  by code_simp

lemma hload:
  obtains repo where "load_at hE (ublocks [0, 1, 2, 5, 6, 7]) 6 = Inr repo" and "rr_op_id repo = 6"
  using hload_runs by (auto split: sum.splits)

lemma hgc:
  assumes "load_at hE (ublocks [0, 1, 2, 5, 6, 7]) 6 = Inr repo"
  shows "\<exists>rep t. post_gc hE repo hauth True (hserver [6] [0, 1, 2, 5, 6, 7]) = (Inr rep, t)"
proof -
  from hload_runs assms obtain s where "walk_all hE (ublocks [0, 1, 2, 5, 6, 7]) (gc_roots repo) = Inr s"
    by (auto split: sum.splits)
  then show ?thesis using hbearer
    by (simp add: post_gc_def sbind_def sread_def sret_def authorized_def on_stores_def on_blocks_def Let_def)
qed

end
