(* ===== verification/Remote_Props.thy ===== *)
theory Remote_Props imports Remote_Instance begin

text \<open>
  The properties of the replication protocol and of the garbage collection of a server.
\<close>

section \<open>The head of a server\<close>

text \<open>C33 (functional, \<open>post_advance_head\<close>): a request to move the head succeeds exactly when its token is the configured one,
  its CIDs parse, it names \<open>main\<close>, and \<open>old\<close> is a current head that the new one descends from, should \<open>old\<close> be a commit
  (without an \<open>old\<close>: when there are no heads). Then only the heads change, \<open>old\<close> against the new one; otherwise nothing does.\<close>

theorem advance_head_exact:
  "(case post_advance_head E parse header q s of
      (Inr h, t) \<Rightarrow> require_bearer (sv_push_token s) header = Inr () \<and>
        (\<exists>old new. names_heads parse q old new \<and> may_advance E (sv_stores s) old new \<and> h = cid_string E new \<and> t = moved old new s)
    | (Inl e, t) \<Rightarrow> t = s \<and> \<not> (require_bearer (sv_push_token s) header = Inr () \<and>
        (\<exists>old new. names_heads parse q old new \<and> may_advance E (sv_stores s) old new)))"
proof -
  obtain r t where run: "post_advance_head E parse header q s = (r, t)" by fastforce
  show ?thesis
  proof (cases r)
    case (Inl e)
    have "post_advance_head E parse header q s \<noteq> (Inr h, t')" for h t' using run Inl by simp
    then show ?thesis using advance_head_Inl run Inl unfolding advance_head_Inr by fastforce
  next
    case (Inr h)
    with run show ?thesis by (simp add: advance_head_Inr [symmetric])
  qed
qed

text \<open>C34 (invariant, the write requests of \<open>remote.rs\<close>): under any sequence of pushes and moves of the head, none of which moves a head
  to itself, the store of a server stays content-addressed, a commit that was reachable from a head is so still, and a
  server with a head keeps one.\<close>

theorem published_history_kept:
  assumes "\<forall>r \<in> set rs. \<not> self_move parse r" and "content_addressed E (rs_blocks (sv_stores s))" and "rehash_unique E"
  shows "content_addressed E (rs_blocks (sv_stores (fold (serve E W parse) rs s))) \<and>
    (published_commit E s c \<longrightarrow> published_commit E (fold (serve E W parse) rs s) c) \<and>
    (rs_heads (sv_stores s) \<noteq> {||} \<longrightarrow> rs_heads (sv_stores (fold (serve E W parse) rs s)) \<noteq> {||})"
  using assms by (rule serve_all_keeps)

theorem published_history_kept_witness:
  "published_commit hE (fold (serve hE uW hparse) [AdvanceHead hauth (hadvance ''a'' ''aa''), PushBlocks hauth []] (hserver [1] [0, 1, 2])) 1"
proof -
  have "published_commit hE (hserver [1] [0, 1, 2]) 1" by (simp add: published_commit_def hcommit)
  moreover have "\<not> self_move hparse r" if "r \<in> set [AdvanceHead hauth (hadvance ''a'' ''aa''), PushBlocks hauth []]" for r
    using that names_heads_unique [OF hnames] by (fastforce simp: self_move_def)
  ultimately show ?thesis
    using published_history_kept [of "[AdvanceHead hauth (hadvance ''a'' ''aa''), PushBlocks hauth []]" hparse hE "hserver [1] [0, 1, 2]" uW 1] hrehash hcontent by simp
qed

text \<open>C35 (safety, compare and swap): of two clients that saw the same head, the second to move it is refused and changes
  nothing, whatever requests the server took in between, unless one of them made it a head again.\<close>

theorem second_push_loses:
  assumes "post_advance_head E parse header q s = (Inr h, s')" and "names_heads parse q (Some old) new" and "new \<noteq> old"
    and "\<forall>r \<in> set rs. \<not> moves_to parse old r" and "names_heads parse q' (Some old) new'"
  shows "\<exists>e. post_advance_head E parse header' q' (fold (serve E W parse) rs s') = (Inl e, fold (serve E W parse) rs s')"
proof -
  from assms(1) obtain old' new'' where n: "names_heads parse q old' new''" and s': "s' = moved old' new'' s"
    by (auto simp: advance_head_Inr)
  with names_heads_unique [OF assms(2) n] assms(3) have "old |\<notin>| rs_heads (sv_stores s')" by simp
  then show ?thesis by (intro stale_old_refused [OF assms(5)] gone_stays_gone assms(4))
qed

theorem second_push_loses_witness:
  "\<exists>e. post_advance_head hE hparse hauth (hadvance ''a'' ''aaa'') (moved (Some 1) 2 (hserver [1] [0, 1, 2, 3])) =
     (Inl e, moved (Some 1) 2 (hserver [1] [0, 1, 2, 3]))"
proof -
  have "is_ancestor_of hE (ublocks [0, 1, 2, 3]) 1 2 = Inr True" by code_simp
  then have "may_advance hE (sv_stores (hserver [1] [0, 1, 2, 3])) (Some 1) 2"
    by (simp add: may_advance_def is_ancestor_of_iff)
  then have run: "post_advance_head hE hparse hauth (hadvance ''a'' ''aa'') (hserver [1] [0, 1, 2, 3]) =
      (Inr (cid_string hE 2), moved (Some 1) 2 (hserver [1] [0, 1, 2, 3]))"
    using hnames [of "''a''" "''aa''"] hbearer unfolding advance_head_Inr by auto
  show ?thesis
    using second_push_loses [OF run, of 1 2 "[]" "hadvance ''a'' ''aaa''" 3 hauth uW] hnames [of "''a''" "''aa''"] hnames [of "''a''" "''aaa''"]
    by simp
qed

text \<open>Also (error, \<open>post_advance_head\<close> and \<open>OpHeadsStore::update\<close>): a request to move the only head to itself succeeds, with the
  right token; but the update inserts the new head before it removes the old one, so no head is left and the repository
  does not open again.\<close>

theorem self_move_drops_the_head:
  assumes "names_heads parse q (Some c) c" and "require_bearer (sv_push_token s) header = Inr ()" and "rs_heads (sv_stores s) = {|c|}"
  shows "\<exists>t. post_advance_head E parse header q s = (Inr (cid_string E c), t) \<and> rs_heads (sv_stores t) = {||} \<and>
    repo_open E fuel (sv_stores t) = (Inl (Repo Uninitialized), sv_stores t)"
proof -
  have "may_advance E (sv_stores s) (Some c) c" using assms(3) by (simp add: may_advance_def)
  then have "post_advance_head E parse header q s = (Inr (cid_string E c), moved (Some c) c s)"
    using assms(1,2) unfolding advance_head_Inr by blast
  moreover have none: "rs_heads (sv_stores (moved (Some c) c s)) = {||}" using assms(3) by (simp add: moved_def)
  ultimately show ?thesis using open_without_heads [OF none, of E fuel] by blast
qed

theorem self_move_drops_the_head_witness:
  "\<exists>t. post_advance_head hE hparse hauth (hadvance ''a'' ''a'') (hserver [1] [0, 1]) = (Inr ''a'', t) \<and> rs_heads (sv_stores t) = {||}"
proof -
  have "cid_string hE 1 = ''a''" by code_simp
  then show ?thesis
    using self_move_drops_the_head [of hparse "hadvance ''a'' ''a''" 1 "hserver [1] [0, 1]" hauth hE 5] hnames [of "''a''" "''a''"] hbearer by auto
qed

section \<open>The transfer of blocks\<close>

text \<open>C36 (roundtrip, \<open>post_fetch_blocks\<close> and \<open>post_push_blocks\<close>): the archive one server returns for a list of wanted CIDs is accepted by
  another, as long as the sizes are within its limits and the blocks hash to their CIDs. It then holds exactly the blocks
  reachable from the wanted ones beside its own, reports their number and the first root, and keeps its heads.\<close>

theorem fetch_blocks_roundtrip:
  assumes "car_laws E W" and "codec_roundtrip E"
    and "post_fetch_blocks E W parse request s = Inr body"
    and "\<And>wants header. write_header E W \<lparr>ch_version = 1, ch_roots = wants\<rparr> = Inr header \<Longrightarrow> map parse (fb_wants request) = map Some wants
        \<Longrightarrow> length header \<le> MAX_HEADER_BYTES"
    and "\<And>c b. bs_get (rs_blocks (sv_stores s)) c = Some b \<Longrightarrow> recompute_cid E c b = Some c \<and> section_size E (c, b) \<le> MAX_BLOCK_BYTES"
    and "length body \<le> unat DEFAULT_MAX_IMPORT_BYTES"
    and "require_bearer (sv_push_token t) tok = Inr ()"
  shows "\<exists>wants n t'. map parse (fb_wants request) = map Some wants \<and>
    post_push_blocks E W tok body t = (Inr \<lparr>pb_staged = Some (cid_string E (hd wants)), pb_blocks_accepted = n\<rparr>, t') \<and>
    n = word_of_nat (card (reachable_from E (rs_blocks (sv_stores s)) wants)) \<and>
    sv_push_token t' = sv_push_token t \<and> rs_heads (sv_stores t') = rs_heads (sv_stores t) \<and>
    (\<forall>c. bs_get (rs_blocks (sv_stores t')) c =
      (if c \<in> reachable_from E (rs_blocks (sv_stores s)) wants then bs_get (rs_blocks (sv_stores s)) c
       else bs_get (rs_blocks (sv_stores t)) c))"
  by (rule fetch_then_push [OF assms])

theorem fetch_blocks_roundtrip_witness:
  "\<exists>n t'. post_push_blocks hE uW hauth hbody (hserver [] []) = (Inr \<lparr>pb_staged = Some ''aa'', pb_blocks_accepted = n\<rparr>, t')"
proof -
  have w: "wants = [2]" if "map hparse [''aa''] = map Some wants" for wants
    using that by (auto simp: hparse_def)
  have "\<exists>wants n t'. map hparse (fb_wants hwants) = map Some wants \<and>
    post_push_blocks hE uW hauth hbody (hserver [] []) = (Inr \<lparr>pb_staged = Some (cid_string hE (hd wants)), pb_blocks_accepted = n\<rparr>, t') \<and>
    n = word_of_nat (card (reachable_from hE (rs_blocks (sv_stores (hserver [2] [0, 1, 2]))) wants)) \<and>
    sv_push_token t' = sv_push_token (hserver [] []) \<and> rs_heads (sv_stores t') = rs_heads (sv_stores (hserver [] [])) \<and>
    (\<forall>c. bs_get (rs_blocks (sv_stores t')) c =
      (if c \<in> reachable_from hE (rs_blocks (sv_stores (hserver [2] [0, 1, 2]))) wants then bs_get (rs_blocks (sv_stores (hserver [2] [0, 1, 2]))) c
       else bs_get (rs_blocks (sv_stores (hserver [] []))) c))"
  proof (rule fetch_blocks_roundtrip [OF uW_laws htable_codec hfetch])
    fix wants header assume h: "write_header hE uW \<lparr>ch_version = 1, ch_roots = wants\<rparr> = Inr header" and "map hparse (fb_wants hwants) = map Some wants"
    then have "header = [1, 4]" using w [of wants] hheader by (simp add: hwants_def)
    then show "length header \<le> MAX_HEADER_BYTES" by (simp add: MAX_HEADER_BYTES_def)
  next
    show "length hbody \<le> unat DEFAULT_MAX_IMPORT_BYTES" by (simp add: hbody_def DEFAULT_MAX_IMPORT_BYTES_def)
  qed (auto simp: uhash usize hbearer split: if_splits)
  moreover have "cid_string hE 2 = ''aa''" by code_simp
  ultimately show ?thesis using w by (fastforce simp: hwants_def)
qed

section \<open>\<open>mnem push\<close>\<close>

text \<open>C37 (functional, \<open>push_run\<close> against the handlers): a push that reports a new tip pushed the first head of the pinned view. Its
  history being within the limits of an archive and of the importer, and its blocks hashing to their CIDs, the server then
  holds what the client can reach from the tip, and beside it what it held; the tip has replaced the head the client saw.\<close>

theorem push_publishes:
  assumes "car_laws E W" and "codec_roundtrip E" and "cid_text E parse"
    and "push_run E W parse token remote branch now author repo p = (Inr (Pushed root), q)"
    and "sendable E W (rs_blocks (pr_local p)) (hd (vw_heads (rr_view repo)))"
  shows "vw_heads (rr_view repo) = root # tl (vw_heads (rr_view repo)) \<and>
    rs_heads (sv_stores (pr_server q)) =
      finsert root (rs_heads (sv_stores (pr_server p))) |-| (case server_head (pr_server p) of None \<Rightarrow> {||} | Some o1 \<Rightarrow> {|o1|}) \<and>
    root |\<in>| rs_heads (sv_stores (pr_server q)) \<and>
    (\<forall>c. bs_get (rs_blocks (sv_stores (pr_server q))) c =
       (if (links_to E (rs_blocks (pr_local p)))\<^sup>*\<^sup>* root c then bs_get (rs_blocks (pr_local p)) c
        else bs_get (rs_blocks (sv_stores (pr_server p))) c))"
  by (rule push_publishes_spec [OF assms])

theorem push_publishes_witness:
  "\<exists>q. push_run hE uW hparse (Some (ascii ''k'')) ''origin'' ''main'' 5 (Some ''me'') hrepo hpeers = (Inr (Pushed 2), q) \<and>
    rs_heads (sv_stores (pr_server q)) = {|2|} \<and> bs_get (rs_blocks (sv_stores (pr_server q))) 2 = Some 2"
proof -
  obtain q where run: "push_run hE uW hparse (Some (ascii ''k'')) ''origin'' ''main'' 5 (Some ''me'') hrepo hpeers = (Inr (Pushed 2), q)"
    using hpush by blast
  have "server_head (pr_server hpeers) = Some 1" by (simp add: hpeers_def server_head_def oh_current_def sorted_list_of_fset.rep_eq)
  with push_publishes [OF uW_laws htable_codec htext run hsendable] show ?thesis
    by (intro exI [of _ q] conjI run) (auto simp: hpeers_def fset_eq_iff)
qed

text \<open>C38 (error, \<open>push_run\<close> against \<open>post_advance_head\<close>): after a successful push of a commit to a server with one head, that head
  is the commit; but the heads of a repository are operations, so the next process to open the server's repository
  fails with a decoding error.\<close>

theorem push_makes_server_unopenable:
  assumes "car_laws E W" and "codec_roundtrip E" and "cid_text E parse"
    and "push_run E W parse token remote branch now author repo p = (Inr (Pushed root), q)"
    and "sendable E W (rs_blocks (pr_local p)) (hd (vw_heads (rr_view repo)))"
    and "rs_heads (sv_stores (pr_server p)) = {|o1|}" and "is_commit E (rs_blocks (pr_local p)) root"
  shows "\<exists>e. repo_open E fuel (sv_stores (pr_server q)) = (Inl (Codec e), sv_stores (pr_server q))"
  by (rule push_then_open_spec [OF assms])

theorem push_makes_server_unopenable_witness:
  "\<exists>q e. push_run hE uW hparse (Some (ascii ''k'')) ''origin'' ''main'' 5 (Some ''me'') hrepo hpeers = (Inr (Pushed 2), q) \<and>
    repo_open hE 10 (sv_stores (pr_server q)) = (Inl (Codec e), sv_stores (pr_server q))"
proof -
  obtain q where run: "push_run hE uW hparse (Some (ascii ''k'')) ''origin'' ''main'' 5 (Some ''me'') hrepo hpeers = (Inr (Pushed 2), q)"
    using hpush by blast
  show ?thesis
    using push_makes_server_unopenable [OF uW_laws htable_codec htext run hsendable, of 1 10] run hcommit(2) [of "[0, 1, 2]"] by (auto simp: hpeers_def)
qed

section \<open>Garbage collection\<close>

text \<open>C39 (safety, \<open>post_gc\<close>): a collection that succeeds with \<open>force\<close> deletes exactly the blocks that the pinned operation, its refs
  and its working copy do not reach, and counts them; without \<open>force\<close>, or on an error, nothing changes. The heads are kept,
  but not what only they reach.\<close>

theorem gc_exact:
  "(case post_gc E repo header force s of
      (Inl e, t) \<Rightarrow> t = s
    | (Inr rep, t) \<Rightarrow>
        sv_push_token t = sv_push_token s \<and> rs_heads (sv_stores t) = rs_heads (sv_stores s) \<and>
        (if force then
           (\<forall>c. bs_get (rs_blocks (sv_stores t)) c =
              (if gc_live E (rs_blocks (sv_stores s)) repo c then bs_get (rs_blocks (sv_stores s)) c else None)) \<and>
           gc_deleted rep = card {c. bs_has (rs_blocks (sv_stores s)) c \<and> \<not> gc_live E (rs_blocks (sv_stores s)) repo c}
         else t = s \<and> gc_deleted rep = 0))"
proof -
  obtain r t where run: "post_gc E repo header force s = (r, t)" by fastforce
  show ?thesis using gc_run [OF run] run by (cases r) auto
qed

text \<open>C40 (safety, \<open>post_gc\<close>): in a store of canonical blocks, a collection keeps all the pinned handle shows: the operation loads as
  before, with its view and head commit, and the node and edge trees of the commit hold the same entries.\<close>

theorem gc_keeps_handle:
  assumes "post_gc E repo header force s = (Inr rep, t)" and "all_dagcbor E (rs_blocks (sv_stores s))"
    and "load_at E (rs_blocks (sv_stores s)) (rr_op_id repo) = Inr repo"
  shows "load_at E (rs_blocks (sv_stores t)) (rr_op_id repo) = Inr repo \<and>
    (\<forall>k fuel es. rr_commit repo = Some k \<longrightarrow>
       (tree_holds E (rs_blocks (sv_stores s)) fuel (cm_nodes k) es \<longrightarrow> tree_holds E (rs_blocks (sv_stores t)) fuel (cm_nodes k) es) \<and>
       (tree_holds E (rs_blocks (sv_stores s)) fuel (cm_edges k) es \<longrightarrow> tree_holds E (rs_blocks (sv_stores t)) fuel (cm_edges k) es))"
  by (rule gc_keeps_reads [OF assms])

theorem gc_keeps_handle_witness:
  "\<exists>repo rep t. post_gc hE repo hauth True (hserver [6] [0, 1, 2, 5, 6, 7]) = (Inr rep, t) \<and>
     load_at hE (rs_blocks (sv_stores t)) 6 = Inr repo"
proof -
  obtain repo where repo: "load_at hE (ublocks [0, 1, 2, 5, 6, 7]) 6 = Inr repo" "rr_op_id repo = 6" by (rule hload)
  then obtain rep t where "post_gc hE repo hauth True (hserver [6] [0, 1, 2, 5, 6, 7]) = (Inr rep, t)" using hgc by blast
  then show ?thesis using gc_keeps_handle [of hE repo hauth True "hserver [6] [0, 1, 2, 5, 6, 7]" rep t] repo hdagcbor by auto
qed

end
