(* ===== verification/Fsck.thy ===== *)
theory Fsck imports Objects Prolly_Tree begin

text \<open>
  The integrity check \<open>mnem fsck\<close>, \<open>crates/mnem-cli/src/commands/fsck.rs\<close>: the walk along the first parents of the pinned
  operation, and of every operation its view, the head commits and their trees. The walk of a tree keeps no set of
  seen blocks, so it is a partial function; an \<open>expect\<close> after a check is the check returning the block.
\<close>

datatype 'c block_problem = BlockMissing | BlockMismatch 'c

datatype 'c fsck_kind =
    BadBlock string "'c block_problem"
  | BadDecode string
  | MissingChunk string

record 'c fsck_error =
  fe_op :: 'c
  fe_kind :: "'c fsck_kind"
  fe_cid :: "'c option"

record 'c fsck_report =
  fr_ops_checked :: nat
  fr_blocks_verified :: nat
  fr_errors :: "'c fsck_error list"

definition fsck_ok :: "'c fsck_report \<Rightarrow> bool" where
  "fsck_ok rep \<longleftrightarrow> fr_errors rep = []"

definition fsck_check_block :: "('c, 'h, 'b) external \<Rightarrow> ('c, 'b) store \<Rightarrow> 'c \<Rightarrow> 'c block_problem + 'b" where
  "fsck_check_block E bs cid =
     (case bs_get bs cid of
        None \<Rightarrow> Inl BlockMissing
      | Some bytes \<Rightarrow>
          (case recompute_cid E cid bytes of
             Some computed \<Rightarrow> if computed \<noteq> cid then Inl (BlockMismatch computed) else Inr bytes
           | None \<Rightarrow> Inr bytes))"

definition add_error :: "'c \<Rightarrow> 'c fsck_kind \<Rightarrow> 'c \<Rightarrow> 'c fsck_report \<Rightarrow> 'c fsck_report" where
  "add_error op kind cid rep = rep\<lparr>fr_errors := fr_errors rep @ [\<lparr>fe_op = op, fe_kind = kind, fe_cid = Some cid\<rparr>]\<rparr>"

definition verified_more :: "nat \<Rightarrow> 'c fsck_report \<Rightarrow> 'c fsck_report" where
  "verified_more n rep = rep\<lparr>fr_blocks_verified := fr_blocks_verified rep + n\<rparr>"

section \<open>Trees\<close>

partial_function (option) tree_loop ::
    "('c, 'h, 'b) external \<Rightarrow> ('c, 'b) store \<Rightarrow> string \<Rightarrow> 'c \<Rightarrow> 'c list \<Rightarrow> nat \<Rightarrow> 'c fsck_report \<Rightarrow> (nat \<times> 'c fsck_report) option" where
  "tree_loop E bs tree_name op stack blocks_ok rep =
     (case stack of
        [] \<Rightarrow> Some (blocks_ok, rep)
      | cid # stack \<Rightarrow>
          (case load_tree_chunk E bs cid of
             Inl _ \<Rightarrow> tree_loop E bs tree_name op stack blocks_ok (add_error op (MissingChunk tree_name) cid rep)
           | Inr (Internal internal) \<Rightarrow> tree_loop E bs tree_name op (rev (in_children internal) @ stack) (blocks_ok + 1) rep
           | Inr (Leaf l) \<Rightarrow> tree_loop E bs tree_name op stack (blocks_ok + 1) rep))"

declare tree_loop.simps [code]

definition walk_prolly_tree ::
    "('c, 'h, 'b) external \<Rightarrow> ('c, 'b) store \<Rightarrow> 'c \<Rightarrow> 'c \<Rightarrow> string \<Rightarrow> 'c fsck_report \<Rightarrow> 'c fsck_report option" where
  "walk_prolly_tree E bs op root tree_name rep =
     map_option (\<lambda>(blocks_ok, rep). verified_more blocks_ok rep) (tree_loop E bs tree_name op [root] 0 rep)"

section \<open>Operations\<close>

text \<open>A block that is checked and decoded: the operation, its view, a head commit.\<close>

definition fsck_object ::
    "('c, 'h, 'b) external \<Rightarrow> ('c, 'b) store \<Rightarrow> ('c ipld \<Rightarrow> codec_error + 'a) \<Rightarrow> 'c \<Rightarrow> string \<Rightarrow> 'c \<Rightarrow> 'c fsck_report
       \<Rightarrow> 'a option \<times> 'c fsck_report" where
  "fsck_object E bs de op name cid rep =
     (case fsck_check_block E bs cid of
        Inl reason \<Rightarrow> (None, add_error op (BadBlock name reason) cid rep)
      | Inr bytes \<Rightarrow>
          let rep = verified_more 1 rep in
          (case from_canonical_bytes E de bytes of
             Inr x \<Rightarrow> (Some x, rep)
           | Inl _ \<Rightarrow> (None, add_error op (BadDecode name) cid rep)))"

fun fsck_trees ::
    "('c, 'h, 'b) external \<Rightarrow> ('c, 'b) store \<Rightarrow> 'c \<Rightarrow> (string \<times> 'c) list \<Rightarrow> 'c fsck_report \<Rightarrow> 'c fsck_report option" where
  "fsck_trees E bs op [] rep = Some rep"
| "fsck_trees E bs op ((tree_name, cid) # trees) rep =
     Option.bind (walk_prolly_tree E bs op cid tree_name rep) (fsck_trees E bs op trees)"

definition fsck_root :: "('c, 'h, 'b) external \<Rightarrow> ('c, 'b) store \<Rightarrow> 'c \<Rightarrow> string \<times> 'c \<Rightarrow> 'c fsck_report \<Rightarrow> 'c fsck_report" where
  "fsck_root E bs op = (\<lambda>(label, cid) rep.
     (case fsck_check_block E bs cid of
        Inr _ \<Rightarrow> verified_more 1 rep
      | Inl reason \<Rightarrow> add_error op (BadBlock label reason) cid rep))"

definition present_roots :: "(string \<times> 'c option) list \<Rightarrow> (string \<times> 'c) list" where
  "present_roots = List.map_filter (\<lambda>(name, maybe_cid). map_option (Pair name) maybe_cid)"

definition fsck_commit ::
    "('c, 'h, 'b) external \<Rightarrow> ('c, 'b) store \<Rightarrow> 'c \<Rightarrow> 'c commit \<Rightarrow> 'c fsck_report \<Rightarrow> 'c fsck_report option" where
  "fsck_commit E bs op commit rep =
     Option.bind (fsck_trees E bs op [(''nodes'', cm_nodes commit), (''edges'', cm_edges commit), (''schema'', cm_schema commit)] rep) (\<lambda>rep.
     Option.bind (fsck_trees E bs op (present_roots [(''embeddings'', cm_embeddings commit), (''sparse'', cm_sparse commit)]) rep) (\<lambda>rep.
     Some (fold (fsck_root E bs op) (present_roots [(''indexes root'', cm_indexes commit), (''delta root'', cm_delta commit)]) rep)))"

fun fsck_heads ::
    "('c, 'h, 'b) external \<Rightarrow> ('c, 'b) store \<Rightarrow> 'c \<Rightarrow> 'c list \<Rightarrow> 'c fsck_report \<Rightarrow> 'c fsck_report option" where
  "fsck_heads E bs op [] rep = Some rep"
| "fsck_heads E bs op (head_cid # heads) rep =
     (case fsck_object E bs de_commit op ''commit'' head_cid rep of
        (None, rep) \<Rightarrow> fsck_heads E bs op heads rep
      | (Some commit, rep) \<Rightarrow> Option.bind (fsck_commit E bs op commit rep) (fsck_heads E bs op heads))"

definition fsck_view ::
    "('c, 'h, 'b) external \<Rightarrow> ('c, 'b) store \<Rightarrow> 'c \<Rightarrow> 'c \<Rightarrow> 'c fsck_report \<Rightarrow> 'c fsck_report option" where
  "fsck_view E bs op view_cid rep =
     (case fsck_object E bs de_view op ''view'' view_cid rep of
        (None, rep) \<Rightarrow> Some rep
      | (Some view, rep) \<Rightarrow> fsck_heads E bs op (vw_heads view) rep)"

function fsck_loop ::
    "('c, 'h, 'b) external \<Rightarrow> ('c, 'b) store \<Rightarrow> nat \<Rightarrow> nat \<Rightarrow> 'c fset \<Rightarrow> 'c \<Rightarrow> 'c fsck_report \<Rightarrow> 'c fsck_report option" where
  "fsck_loop E bs limit ops_checked visited cur rep =
     (if limit \<le> ops_checked then Some (rep\<lparr>fr_ops_checked := ops_checked\<rparr>)
      else if cur |\<in>| visited then Some (rep\<lparr>fr_ops_checked := ops_checked\<rparr>)
      else
        (case fsck_object E bs de_operation cur ''op'' cur rep of
           (None, rep) \<Rightarrow> Some (rep\<lparr>fr_ops_checked := ops_checked\<rparr>)
         | (Some op, rep) \<Rightarrow>
             (case fsck_view E bs cur (op_view op) rep of
                None \<Rightarrow> None
              | Some rep \<Rightarrow>
                  (case op_parents op of
                     parent_cid # _ \<Rightarrow> fsck_loop E bs limit (ops_checked + 1) (finsert cur visited) parent_cid rep
                   | [] \<Rightarrow> Some (rep\<lparr>fr_ops_checked := ops_checked + 1\<rparr>)))))"
  by pat_completeness auto
termination by (relation "measure (\<lambda>(E, bs, limit, ops_checked, visited, cur, rep). limit - ops_checked)") auto

definition FSCK_LIMIT :: nat where "FSCK_LIMIT = 50000"

definition fsck_run ::
    "('c, 'h, 'b) external \<Rightarrow> ('c, 'b) store \<Rightarrow> nat option \<Rightarrow> 'c \<Rightarrow> 'c fsck_report option" where
  "fsck_run E bs limit head_op_cid =
     fsck_loop E bs (case limit of Some n \<Rightarrow> n | None \<Rightarrow> FSCK_LIMIT) 0 {||} head_op_cid
       \<lparr>fr_ops_checked = 0, fr_blocks_verified = 0, fr_errors = []\<rparr>"

end
