(* ===== verification/Fsck_Spec.thy ===== *)
theory Fsck_Spec imports Fsck begin

text \<open>
  What the integrity check reports: exactly the CIDs on its way whose block is missing, hashes to another CID or does not
  decode. For the chunks of a tree only that they load is asked.
\<close>

declare fsck_loop.simps [simp del]

section \<open>Sound blocks\<close>

definition verified :: "('c, 'h, 'b) external \<Rightarrow> ('c, 'b) store \<Rightarrow> 'c \<Rightarrow> bool" where
  "verified E bs c \<longleftrightarrow> (\<exists>b. bs_get bs c = Some b \<and> (\<forall>d. recompute_cid E c b = Some d \<longrightarrow> d = c))"

definition sound_object :: "('c, 'h, 'b) external \<Rightarrow> ('c, 'b) store \<Rightarrow> ('c ipld \<Rightarrow> codec_error + 'a) \<Rightarrow> 'c \<Rightarrow> 'a \<Rightarrow> bool" where
  "sound_object E bs de c x \<longleftrightarrow> verified E bs c \<and> decode_from_store E de bs c = Inr x"

definition tree_child :: "('c, 'h, 'b) external \<Rightarrow> ('c, 'b) store \<Rightarrow> 'c \<Rightarrow> 'c \<Rightarrow> bool" where
  "tree_child E bs c d \<longleftrightarrow> (\<exists>i. load_tree_chunk E bs c = Inr (Internal i) \<and> d \<in> set (in_children i))"

text \<open>The CIDs to be reported below a tree root, a root block, a commit, a head, a view and an operation.\<close>

definition bad_tree :: "('c, 'h, 'b) external \<Rightarrow> ('c, 'b) store \<Rightarrow> 'c \<Rightarrow> 'c set" where
  "bad_tree E bs root = {c. (tree_child E bs)\<^sup>*\<^sup>* root c \<and> isl (load_tree_chunk E bs c)}"

definition bad_commit :: "('c, 'h, 'b) external \<Rightarrow> ('c, 'b) store \<Rightarrow> 'c commit \<Rightarrow> 'c set" where
  "bad_commit E bs k =
     \<Union> (bad_tree E bs ` ({cm_nodes k, cm_edges k, cm_schema k} \<union> set_option (cm_embeddings k) \<union> set_option (cm_sparse k))) \<union>
     {c \<in> set_option (cm_indexes k) \<union> set_option (cm_delta k). \<not> verified E bs c}"

definition bad_below :: "('c, 'h, 'b) external \<Rightarrow> ('c, 'b) store \<Rightarrow> ('c ipld \<Rightarrow> codec_error + 'a) \<Rightarrow> ('a \<Rightarrow> 'c set) \<Rightarrow> 'c \<Rightarrow> 'c set" where
  "bad_below E bs de below c = {d. (\<nexists>x. sound_object E bs de c x) \<and> d = c \<or> (\<exists>x. sound_object E bs de c x \<and> d \<in> below x)}"

definition bad_operation :: "('c, 'h, 'b) external \<Rightarrow> ('c, 'b) store \<Rightarrow> 'c \<Rightarrow> 'c set" where
  "bad_operation E bs =
     bad_below E bs de_operation (\<lambda>op.
       bad_below E bs de_view (\<lambda>view. \<Union> (bad_below E bs de_commit (bad_commit E bs) ` set (vw_heads view))) (op_view op))"

definition first_parent :: "('c, 'h, 'b) external \<Rightarrow> ('c, 'b) store \<Rightarrow> 'c \<Rightarrow> 'c \<Rightarrow> bool" where
  "first_parent E bs c d \<longleftrightarrow> (\<exists>op ps. sound_object E bs de_operation c op \<and> op_parents op = d # ps)"

lemma fsck_check_block_Inr: "fsck_check_block E bs c = Inr b \<longleftrightarrow> verified E bs c \<and> bs_get bs c = Some b"
  by (auto simp: fsck_check_block_def verified_def split: option.splits)

section \<open>Reports\<close>

definition reports :: "('c fsck_report \<Rightarrow> 'c fsck_report option) \<Rightarrow> 'c set \<Rightarrow> bool" where
  "reports f bad \<longleftrightarrow>
     (\<forall>rep. \<exists>rep' es. f rep = Some rep' \<and> fr_errors rep' = fr_errors rep @ es \<and> fe_cid ` set es = Some ` bad)"

lemma reports_Some: "reports Some {}"
  by (simp add: reports_def)

lemma reportsI:
  "(\<And>rep. \<exists>rep' es. f rep = Some rep' \<and> fr_errors rep' = fr_errors rep @ es \<and> fe_cid ` set es = Some ` bad) \<Longrightarrow> reports f bad"
  by (simp add: reports_def)

lemma reportsE:
  assumes "reports f bad"
  obtains rep' es where "f rep = Some rep'" and "fr_errors rep' = fr_errors rep @ es" and "fe_cid ` set es = Some ` bad"
proof -
  from assms [unfolded reports_def, rule_format, of rep] that show thesis by (elim exE conjE)
qed

lemma reports_bind:
  assumes "reports f p" and "reports g q"
  shows "reports (\<lambda>rep. Option.bind (f rep) g) (p \<union> q)"
proof (rule reportsI)
  fix rep
  obtain r1 e1 where 1: "f rep = Some r1" "fr_errors r1 = fr_errors rep @ e1" "fe_cid ` set e1 = Some ` p"
    by (rule reportsE [OF assms(1), of rep])
  obtain r2 e2 where 2: "g r1 = Some r2" "fr_errors r2 = fr_errors r1 @ e2" "fe_cid ` set e2 = Some ` q"
    by (rule reportsE [OF assms(2), of r1])
  have "fe_cid ` set (e1 @ e2) = Some ` (p \<union> q)" using 1(3) 2(3) by (simp add: image_Un)
  with 1 2 show "\<exists>rep' es. Option.bind (f rep) g = Some rep' \<and> fr_errors rep' = fr_errors rep @ es \<and> fe_cid ` set es = Some ` (p \<union> q)"
    by (intro exI [of _ r2] exI [of _ "e1 @ e2"]) simp
qed

lemma fr_errors_simps [simp]:
  "fr_errors (verified_more n rep) = fr_errors rep"
  "fr_errors (add_error op kind cid rep) = fr_errors rep @ [\<lparr>fe_op = op, fe_kind = kind, fe_cid = Some cid\<rparr>]"
  by (simp_all add: verified_more_def add_error_def)

lemma object_sound: "sound_object E bs de c x \<Longrightarrow> fsck_object E bs de op name c rep = (Some x, verified_more 1 rep)"
  by (auto simp: sound_object_def decode_from_store_def fsck_object_def verified_def fsck_check_block_def split: option.splits)

lemma object_unsound:
  assumes "\<nexists>x. sound_object E bs de c x"
  shows "\<exists>kind rep'. fsck_object E bs de op name c rep = (None, add_error op kind c rep') \<and> fr_errors rep' = fr_errors rep"
proof (cases "fsck_check_block E bs c")
  case (Inl reason)
  then show ?thesis by (auto simp: fsck_object_def)
next
  case (Inr b)
  then have "\<not> (\<exists>x. from_canonical_bytes E de b = Inr x)"
    using assms by (auto simp: sound_object_def decode_from_store_def fsck_check_block_Inr)
  then show ?thesis
    using Inr by (cases "from_canonical_bytes E de b") (auto simp: fsck_object_def Let_def intro!: exI [of _ "verified_more _ rep"])
qed

lemma bad_below_sound: "sound_object E bs de c x \<Longrightarrow> bad_below E bs de below c = below x"
proof -
  assume x: "sound_object E bs de c x"
  then have "sound_object E bs de c y \<longleftrightarrow> y = x" for y by (auto simp: sound_object_def)
  then show ?thesis by (auto simp: bad_below_def)
qed

lemma bad_below_unsound: "\<nexists>x. sound_object E bs de c x \<Longrightarrow> bad_below E bs de below c = {c}"
  by (auto simp: bad_below_def)

lemma object_reports:
  assumes "\<And>x. sound_object E bs de c x \<Longrightarrow> reports (f x) (below x)"
  shows "reports (\<lambda>rep. case fsck_object E bs de op name c rep of (None, rep) \<Rightarrow> Some rep | (Some x, rep) \<Rightarrow> f x rep) (bad_below E bs de below c)"
proof (rule reportsI)
  fix rep
  show "\<exists>rep' es. (case fsck_object E bs de op name c rep of (None, rep) \<Rightarrow> Some rep | (Some x, rep) \<Rightarrow> f x rep) = Some rep' \<and>
    fr_errors rep' = fr_errors rep @ es \<and> fe_cid ` set es = Some ` bad_below E bs de below c"
  proof (cases "\<exists>x. sound_object E bs de c x")
    case True
    then obtain x where x: "sound_object E bs de c x" by blast
    show ?thesis
      by (rule reportsE [OF assms [OF x], of "verified_more 1 rep"]) (simp add: object_sound [OF x] bad_below_sound [OF x])
  next
    case False
    then obtain kind rep' where "fsck_object E bs de op name c rep = (None, add_error op kind c rep')" "fr_errors rep' = fr_errors rep"
      using object_unsound by metis
    then show ?thesis by (simp add: bad_below_unsound [OF False])
  qed
qed

section \<open>Trees\<close>

definition no_tree_cycles :: "('c, 'h, 'b) external \<Rightarrow> ('c, 'b) store \<Rightarrow> bool" where
  "no_tree_cycles E bs \<longleftrightarrow> acyclic {(c, d). tree_child E bs c d}"

lemma tree_child_wf: "no_tree_cycles E bs \<Longrightarrow> wf {(d, c). tree_child E bs c d}"
proof -
  assume acyc: "no_tree_cycles E bs"
  let ?r = "{(c, d). tree_child E bs c d}"
  have "c |\<in>| fmdom bs" if "tree_child E bs c d" for c d
    using that by (auto simp: tree_child_def load_tree_chunk_def bs_get_def intro: fmdomI split: option.splits)
  moreover have "finite {d. tree_child E bs c d}" for c
  proof (cases "load_tree_chunk E bs c")
    case (Inr ch)
    then show ?thesis by (cases ch) (auto simp: tree_child_def)
  qed (simp add: tree_child_def)
  ultimately have "finite (SIGMA c:fset (fmdom bs). {d. tree_child E bs c d})" and "?r \<subseteq> (SIGMA c:fset (fmdom bs). {d. tree_child E bs c d})"
    by auto
  then have "finite ?r" using finite_subset by blast
  from finite_acyclic_wf_converse [OF this] acyc have "wf (?r\<inverse>)" by (simp add: no_tree_cycles_def)
  moreover have "?r\<inverse> = {(d, c). tree_child E bs c d}" by auto
  ultimately show ?thesis by simp
qed

lemma bad_tree_step:
  "load_tree_chunk E bs c = Inr (Internal i) \<Longrightarrow> bad_tree E bs c = \<Union> (bad_tree E bs ` set (in_children i))"
proof -
  assume c: "load_tree_chunk E bs c = Inr (Internal i)"
  have "tree_child E bs c d \<longleftrightarrow> d \<in> set (in_children i)" for d using c by (auto simp: tree_child_def)
  then have "(tree_child E bs)\<^sup>*\<^sup>* c e \<longleftrightarrow> e = c \<or> (\<exists>d \<in> set (in_children i). (tree_child E bs)\<^sup>*\<^sup>* d e)" for e
    by (metis (no_types, lifting) converse_rtranclpE converse_rtranclp_into_rtranclp rtranclp.rtrancl_refl)
  then show ?thesis using c by (auto simp: bad_tree_def)
qed

lemma bad_tree_end: "(\<And>d. \<not> tree_child E bs c d) \<Longrightarrow> bad_tree E bs c = (if isl (load_tree_chunk E bs c) then {c} else {})"
  unfolding bad_tree_def by (auto elim: converse_rtranclpE)

text \<open>The walk takes a root off the stack together with all that is below it.\<close>

definition walks :: "('c, 'h, 'b) external \<Rightarrow> ('c, 'b) store \<Rightarrow> string \<Rightarrow> 'c \<Rightarrow> 'c list \<Rightarrow> 'c set \<Rightarrow> bool" where
  "walks E bs name op cs bad \<longleftrightarrow>
     (\<forall>rest ok rep. \<exists>n rep' es. tree_loop E bs name op (cs @ rest) ok rep = tree_loop E bs name op rest n rep' \<and>
        fr_errors rep' = fr_errors rep @ es \<and> fe_cid ` set es = Some ` bad)"

lemma walks_Nil: "walks E bs name op [] {}"
  unfolding walks_def by (intro allI exI conjI) (simp, rule append_Nil2 [symmetric], simp)

lemma walksE:
  assumes "walks E bs name op cs bad"
  obtains n rep' es where "tree_loop E bs name op (cs @ rest) ok rep = tree_loop E bs name op rest n rep'"
    and "fr_errors rep' = fr_errors rep @ es" and "fe_cid ` set es = Some ` bad"
proof -
  from assms [unfolded walks_def, rule_format, of rest ok rep] that show thesis by (elim exE conjE)
qed

lemma walks_append:
  assumes "walks E bs name op cs p" and "walks E bs name op ds q"
  shows "walks E bs name op (cs @ ds) (p \<union> q)"
  unfolding walks_def
proof (intro allI)
  fix rest ok rep
  obtain n1 r1 e1 where 1: "tree_loop E bs name op (cs @ (ds @ rest)) ok rep = tree_loop E bs name op (ds @ rest) n1 r1"
    "fr_errors r1 = fr_errors rep @ e1" "fe_cid ` set e1 = Some ` p" by (rule walksE [OF assms(1)])
  obtain n2 r2 e2 where 2: "tree_loop E bs name op (ds @ rest) n1 r1 = tree_loop E bs name op rest n2 r2"
    "fr_errors r2 = fr_errors r1 @ e2" "fe_cid ` set e2 = Some ` q" by (rule walksE [OF assms(2)])
  have "fe_cid ` set (e1 @ e2) = Some ` (p \<union> q)" using 1(3) 2(3) by (simp add: image_Un)
  with 1 2 show "\<exists>n rep' es. tree_loop E bs name op ((cs @ ds) @ rest) ok rep = tree_loop E bs name op rest n rep' \<and>
        fr_errors rep' = fr_errors rep @ es \<and> fe_cid ` set es = Some ` (p \<union> q)"
    by (intro exI [of _ n2] exI [of _ r2] exI [of _ "e1 @ e2"]) simp
qed

lemma walks_all:
  "(\<And>c. c \<in> set cs \<Longrightarrow> walks E bs name op [c] (bad c)) \<Longrightarrow> walks E bs name op cs (\<Union> (bad ` set cs))"
proof (induction cs)
  case Nil
  show ?case by (simp add: walks_Nil)
next
  case (Cons c cs)
  from walks_append [OF Cons.prems [of c] Cons.IH [OF Cons.prems]] show ?case by simp
qed

lemma tree_loop_steps:
  "load_tree_chunk E bs c = Inl e \<Longrightarrow> tree_loop E bs name op (c # rest) ok rep = tree_loop E bs name op rest ok (add_error op (MissingChunk name) c rep)"
  "load_tree_chunk E bs c = Inr (Leaf l) \<Longrightarrow> tree_loop E bs name op (c # rest) ok rep = tree_loop E bs name op rest (ok + 1) rep"
  "load_tree_chunk E bs c = Inr (Internal i) \<Longrightarrow>
     tree_loop E bs name op (c # rest) ok rep = tree_loop E bs name op (rev (in_children i) @ rest) (ok + 1) rep"
  by (subst tree_loop.simps, simp)+

lemma walks_root:
  assumes "no_tree_cycles E bs"
  shows "walks E bs name op [c] (bad_tree E bs c)"
  using tree_child_wf [OF assms]
proof (induction c rule: wf_induct_rule)
  case (less c)
  consider (missing) e where "load_tree_chunk E bs c = Inl e" | (leaf) l where "load_tree_chunk E bs c = Inr (Leaf l)"
    | (node) i where "load_tree_chunk E bs c = Inr (Internal i)"
    by (metis sum.exhaust tree_chunk.exhaust)
  then show ?case
  proof cases
    case missing
    then have "bad_tree E bs c = {c}" by (subst bad_tree_end) (auto simp: tree_child_def)
    then show ?thesis
      unfolding walks_def append_Cons append_Nil tree_loop_steps(1) [OF missing]
      by (intro allI exI conjI) (rule refl, rule fr_errors_simps(2), simp)
  next
    case leaf
    then have "bad_tree E bs c = {}" by (subst bad_tree_end) (auto simp: tree_child_def)
    then show ?thesis
      unfolding walks_def append_Cons append_Nil tree_loop_steps(2) [OF leaf]
      by (intro allI exI conjI) (rule refl, rule append_Nil2 [symmetric], simp)
  next
    case node
    have "walks E bs name op (rev (in_children i)) (\<Union> (bad_tree E bs ` set (rev (in_children i))))"
      using less.IH node by (intro walks_all) (auto simp: tree_child_def)
    then have "walks E bs name op (rev (in_children i)) (bad_tree E bs c)" using node by (simp add: bad_tree_step)
    then show ?thesis unfolding walks_def append_Cons append_Nil tree_loop_steps(3) [OF node] by blast
  qed
qed

lemma walk_reports:
  assumes "no_tree_cycles E bs"
  shows "reports (walk_prolly_tree E bs op root name) (bad_tree E bs root)"
proof (rule reportsI)
  fix rep
  obtain n rep' es where "tree_loop E bs name op ([root] @ []) 0 rep = tree_loop E bs name op [] n rep'"
    "fr_errors rep' = fr_errors rep @ es" "fe_cid ` set es = Some ` bad_tree E bs root" by (rule walksE [OF walks_root [OF assms]])
  moreover have "tree_loop E bs name op [] n rep' = Some (n, rep')" by (subst tree_loop.simps) simp
  ultimately show "\<exists>rep' es. walk_prolly_tree E bs op root name rep = Some rep' \<and> fr_errors rep' = fr_errors rep @ es \<and>
      fe_cid ` set es = Some ` bad_tree E bs root"
    by (auto simp: walk_prolly_tree_def)
qed

lemma trees_report:
  "no_tree_cycles E bs \<Longrightarrow> reports (fsck_trees E bs op trees) (\<Union> (bad_tree E bs ` set (map snd trees)))"
proof (induction trees)
  case Nil
  then show ?case using reports_Some by (simp add: reports_def)
next
  case (Cons t trees)
  obtain name c where t: "t = (name, c)" by fastforce
  from reports_bind [OF walk_reports [OF Cons.prems] Cons.IH [OF Cons.prems]] show ?case by (simp add: t)
qed

section \<open>Commits, views and operations\<close>

lemma roots_report: "reports (\<lambda>rep. Some (fold (fsck_root E bs op) roots rep)) {c \<in> snd ` set roots. \<not> verified E bs c}"
proof (induction roots)
  case Nil
  then show ?case using reports_Some by (simp add: reports_def)
next
  case (Cons r roots)
  obtain label c where r: "r = (label, c)" by fastforce
  have "reports (\<lambda>rep. Some (fsck_root E bs op r rep)) {d. d = c \<and> \<not> verified E bs c}"
  proof (cases "fsck_check_block E bs c")
    case (Inr b)
    then have "verified E bs c" by (simp add: fsck_check_block_Inr)
    with Inr show ?thesis by (intro reportsI) (auto simp: fsck_root_def r)
  next
    case (Inl reason)
    then have nv: "\<not> verified E bs c" using fsck_check_block_Inr [of E bs c] by (auto simp: verified_def)
    show ?thesis
      by (intro reportsI exI conjI) (rule refl, simp add: fsck_root_def r Inl, simp add: nv)
  qed
  from reports_bind [OF this Cons.IH]
  have "reports (\<lambda>rep. Some (fold (fsck_root E bs op) (r # roots) rep))
      ({d. d = c \<and> \<not> verified E bs c} \<union> {c \<in> snd ` set roots. \<not> verified E bs c})" by simp
  moreover have "{d. d = c \<and> \<not> verified E bs c} \<union> {c \<in> snd ` set roots. \<not> verified E bs c} = {c \<in> snd ` set (r # roots). \<not> verified E bs c}"
    by (auto simp: r)
  ultimately show ?case by simp
qed

lemma set_present_roots [simp]: "snd ` set (present_roots [(m, x), (n, y)]) = set_option x \<union> set_option y"
  by (cases x; cases y) (auto simp: present_roots_def List.map_filter_def)

lemma commit_reports:
  assumes "no_tree_cycles E bs"
  shows "reports (fsck_commit E bs op k) (bad_commit E bs k)"
proof -
  note t = trees_report [OF assms, of op]
  let ?t1 = "[(''nodes'', cm_nodes k), (''edges'', cm_edges k), (''schema'', cm_schema k)]"
  let ?t2 = "present_roots [(''embeddings'', cm_embeddings k), (''sparse'', cm_sparse k)]"
  let ?r = "present_roots [(''indexes root'', cm_indexes k), (''delta root'', cm_delta k)]"
  have "fsck_commit E bs op k = (\<lambda>rep. Option.bind (fsck_trees E bs op ?t1 rep) (\<lambda>rep. Option.bind (fsck_trees E bs op ?t2 rep) (\<lambda>rep.
      Some (fold (fsck_root E bs op) ?r rep))))"
    by (rule ext) (simp add: fsck_commit_def)
  moreover have "bad_commit E bs k = \<Union> (bad_tree E bs ` set (map snd ?t1)) \<union>
      (\<Union> (bad_tree E bs ` set (map snd ?t2)) \<union> {c \<in> snd ` set ?r. \<not> verified E bs c})"
    by (auto simp: bad_commit_def)
  ultimately show ?thesis by (simp only:) (intro reports_bind t roots_report)
qed

lemma heads_report:
  assumes "no_tree_cycles E bs"
  shows "reports (fsck_heads E bs op heads) (\<Union> (bad_below E bs de_commit (bad_commit E bs) ` set heads))"
proof (induction heads)
  case Nil
  then show ?case using reports_Some by (simp add: reports_def)
next
  case (Cons h heads)
  have "fsck_heads E bs op (h # heads) = (\<lambda>rep. Option.bind
      (case fsck_object E bs de_commit op ''commit'' h rep of (None, rep) \<Rightarrow> Some rep | (Some k, rep) \<Rightarrow> fsck_commit E bs op k rep)
      (fsck_heads E bs op heads))"
    by (rule ext) (simp split: prod.split option.split)
  with reports_bind [OF object_reports [of E bs de_commit h "fsck_commit E bs op" "bad_commit E bs", OF commit_reports [OF assms]] Cons.IH]
  show ?case by simp
qed

lemma view_reports:
  assumes "no_tree_cycles E bs"
  shows "reports (fsck_view E bs op v) (bad_below E bs de_view (\<lambda>view. \<Union> (bad_below E bs de_commit (bad_commit E bs) ` set (vw_heads view))) v)"
  unfolding fsck_view_def by (rule object_reports) (rule heads_report [OF assms])

lemma chain_first:
  assumes "\<And>d. first_parent E bs c d \<longleftrightarrow> p = Some d"
  shows "{d. \<exists>k < Suc n. (first_parent E bs ^^ k) c d} =
    insert c (case p of None \<Rightarrow> {} | Some q \<Rightarrow> {d. \<exists>k < n. (first_parent E bs ^^ k) q d})"
proof -
  have "(first_parent E bs ^^ Suc k) c d \<longleftrightarrow> (case p of None \<Rightarrow> False | Some q \<Rightarrow> (first_parent E bs ^^ k) q d)" for k d
    using assms by (auto simp: relpowp_Suc_left simp del: relpowp.simps split: option.split)
  then have "(\<exists>k < Suc n. (first_parent E bs ^^ k) c d) \<longleftrightarrow>
      d = c \<or> (\<exists>k < n. case p of None \<Rightarrow> False | Some q \<Rightarrow> (first_parent E bs ^^ k) q d)" for d
    unfolding Ex_less_Suc2 by auto
  then show ?thesis by (auto split: option.split)
qed

lemma loop_reports:
  assumes acyc: "no_tree_cycles E bs" and closed: "\<And>v d. v |\<in>| visited \<Longrightarrow> first_parent E bs v d \<Longrightarrow> d |\<in>| visited \<or> d = cur"
  shows "\<exists>rep' es. fsck_loop E bs limit n visited cur rep = Some rep' \<and> fr_errors rep' = fr_errors rep @ es \<and>
    fe_cid ` set es = Some ` \<Union> (bad_operation E bs ` ({d. \<exists>k < limit - n. (first_parent E bs ^^ k) cur d} - fset visited))"
  using closed
proof (induction "limit - n" arbitrary: n visited cur rep)
  case 0
  then show ?case by (subst fsck_loop.simps) simp
next
  case (Suc m)
  let ?fp = "first_parent E bs"
  from Suc.hyps(2) have lim: "\<not> limit \<le> n" "limit - n = Suc m" "limit - (n + 1) = m" by auto
  show ?case
  proof (cases "cur |\<in>| visited")
    case True
    have "d |\<in>| visited" if "(?fp ^^ k) cur d" for k d
      using that by (induction k arbitrary: d) (use True Suc.prems in auto)
    then have "{d. \<exists>k < limit - n. (?fp ^^ k) cur d} - fset visited = {}" by auto
    with True show ?thesis by (subst fsck_loop.simps) (auto simp: lim)
  next
    case False
    show ?thesis
    proof (cases "\<exists>op. sound_object E bs de_operation cur op")
      case unsound: False
      then obtain kind rep' where o: "fsck_object E bs de_operation cur ''op'' cur rep = (None, add_error cur kind cur rep')"
        "fr_errors rep' = fr_errors rep" using object_unsound by metis
      have "{d. \<exists>k < limit - n. (?fp ^^ k) cur d} = {cur}"
        using chain_first [of E bs cur None m] unsound by (simp add: lim first_parent_def)
      then have "\<Union> (bad_operation E bs ` ({d. \<exists>k < limit - n. (?fp ^^ k) cur d} - fset visited)) = {cur}"
        using False by (auto simp: bad_operation_def bad_below_unsound [OF unsound])
      then show ?thesis by (subst fsck_loop.simps) (simp add: lim False o)
    next
      case True
      then obtain op where op: "sound_object E bs de_operation cur op" by blast
      then have fp: "?fp cur d \<longleftrightarrow> (case op_parents op of [] \<Rightarrow> None | p # _ \<Rightarrow> Some p) = Some d" for d
        by (auto simp: first_parent_def sound_object_def split: list.split)
      obtain r1 e1 where v: "fsck_view E bs cur (op_view op) (verified_more (Suc 0) rep) = Some r1" "fr_errors r1 = fr_errors rep @ e1"
        "fe_cid ` set e1 = Some ` bad_operation E bs cur"
        by (rule reportsE [OF view_reports [OF acyc, of cur "op_view op"], of "verified_more (Suc 0) rep"]) (simp add: bad_operation_def bad_below_sound [OF op])
      note chain = chain_first [OF fp, of m]
      show ?thesis
      proof (cases "op_parents op")
        case Nil
        then have "{d. \<exists>k < limit - n. (?fp ^^ k) cur d} - fset visited = {cur}" using chain False Nil by (auto simp: lim)
        then show ?thesis
          by (subst fsck_loop.simps) (simp add: lim False object_sound [OF op, simplified] v Nil)
      next
        case (Cons p ps)
        have "\<exists>rep' es. fsck_loop E bs limit (n + 1) (finsert cur visited) p r1 = Some rep' \<and> fr_errors rep' = fr_errors r1 @ es \<and>
            fe_cid ` set es = Some ` \<Union> (bad_operation E bs ` ({d. \<exists>k < limit - (n + 1). (?fp ^^ k) p d} - fset (finsert cur visited)))"
        proof (rule Suc.hyps(1))
          show "m = limit - (n + 1)" using lim(3) by simp
          show "d |\<in>| finsert cur visited \<or> d = p" if "v |\<in>| finsert cur visited" "?fp v d" for v d
            using that Suc.prems [of v d] fp [of d] Cons by auto
        qed
        then obtain r2 e2 where
          2: "fsck_loop E bs limit (n + 1) (finsert cur visited) p r1 = Some r2" "fr_errors r2 = fr_errors r1 @ e2"
            "fe_cid ` set e2 = Some ` \<Union> (bad_operation E bs ` ({d. \<exists>k < m. (?fp ^^ k) p d} - fset (finsert cur visited)))"
          unfolding lim(3) by (elim exE conjE)
        have "{d. \<exists>k < limit - n. (?fp ^^ k) cur d} - fset visited = insert cur ({d. \<exists>k < m. (?fp ^^ k) p d} - fset (finsert cur visited))"
          using chain False Cons by (auto simp: lim)
        then have "fe_cid ` set (e1 @ e2) = Some ` \<Union> (bad_operation E bs ` ({d. \<exists>k < limit - n. (?fp ^^ k) cur d} - fset visited))"
          using v(3) 2(3) by (simp add: image_Un)
        moreover have "fsck_loop E bs limit n visited cur rep = Some r2"
          using 2(1) by (subst fsck_loop.simps) (simp add: lim False object_sound [OF op, simplified] v(1) Cons)
        ultimately show ?thesis using v(2) 2(2) by (intro exI [of _ r2] exI [of _ "e1 @ e2"]) simp
      qed
    qed
  qed
qed

lemma fsck_run_reports:
  assumes "no_tree_cycles E bs"
  shows "\<exists>rep. fsck_run E bs (Some limit) head = Some rep \<and>
    fe_cid ` set (fr_errors rep) = Some ` \<Union> (bad_operation E bs ` {d. \<exists>k < limit. (first_parent E bs ^^ k) head d})"
  using loop_reports [OF assms, of "{||}" head limit 0 "\<lparr>fr_ops_checked = 0, fr_blocks_verified = 0, fr_errors = []\<rparr>"]
  by (auto simp: fsck_run_def)

end
