(* ===== verification/Fsck_Props.thy ===== *)
theory Fsck_Props imports Fsck_Spec Transaction_Instance begin

text \<open>
  The property of the integrity check, and the repository of the first commit it is applied to.
\<close>

lemma xno_cycles: "no_tree_cycles xE (table_store ns)"
proof -
  have "list_all (\<lambda>b. case load_chunk xE b of Inr (Internal _) \<Rightarrow> False | _ \<Rightarrow> True) [0..<length xtable]" by code_simp
  then have "load_chunk xE b \<noteq> Inr (Internal i)" if "b < length xtable" for b i
    using that unfolding list_all_iff by (auto dest!: bspec [of _ _ b])
  moreover have "load_chunk xE b = Inr (Internal i) \<Longrightarrow> b < length xtable" for b i
    by (auto simp: load_chunk_def from_canonical_bytes_def tE_def split: if_splits)
  ultimately have "\<not> tree_child xE (table_store ns) c d" for c d
    by (auto simp: tree_child_def load_tree_chunk_def table_store_get split: if_splits)
  then show ?thesis by (simp add: no_tree_cycles_def acyclic_def)
qed

lemma xfsck: "(case fsck_run xE (table_store [0, 1, 2, 3, 5, 6, 7, 8, 9, 10, 11, 12, 13, 14, 15, 16]) (Some 2) 14 of
  None \<Rightarrow> False | Some rep \<Rightarrow> map fe_cid (fr_errors rep) = [Some 4])"
  by code_simp

text \<open>C16 (functional, \<open>mnem fsck\<close>): in a store without cycles of tree chunks the
  check ends. Along the first parents of the operation, as far as the limit allows, it reports exactly these CIDs: operations,
  views, head commits and roots of indexes and deltas whose block is missing or hashes to another CID, the first three also
  if they do not decode, and in the trees of the commits the chunks that do not load. It is clean exactly when there are none.\<close>

theorem fsck_exact:
  assumes "no_tree_cycles E bs"
  shows "\<exists>rep. fsck_run E bs (Some limit) head = Some rep \<and>
    fe_cid ` set (fr_errors rep) = Some ` \<Union> (bad_operation E bs ` {d. \<exists>k < limit. (first_parent E bs ^^ k) head d}) \<and>
    (fsck_ok rep \<longleftrightarrow> (\<forall>d k. (first_parent E bs ^^ k) head d \<longrightarrow> k < limit \<longrightarrow> bad_operation E bs d = {}))"
proof -
  let ?ops = "{d. \<exists>k < limit. (first_parent E bs ^^ k) head d}"
  obtain rep where run: "fsck_run E bs (Some limit) head = Some rep"
    and errs: "fe_cid ` set (fr_errors rep) = Some ` \<Union> (bad_operation E bs ` ?ops)"
    using fsck_run_reports [OF assms, of limit head] by (elim exE conjE)
  have "fsck_ok rep \<longleftrightarrow> \<Union> (bad_operation E bs ` ?ops) = {}"
    unfolding fsck_ok_def using arg_cong [OF errs, of "\<lambda>A. A = {}"] by simp
  also have "\<dots> \<longleftrightarrow> (\<forall>d k. (first_parent E bs ^^ k) head d \<longrightarrow> k < limit \<longrightarrow> bad_operation E bs d = {})"
    by blast
  finally show ?thesis using run errs by (intro exI [of _ rep] conjI)
qed

text \<open>Without block 4, the tree of the edges, exactly this block is reported.\<close>

theorem fsck_exact_witness:
  "\<Union> (bad_operation xE (table_store [0, 1, 2, 3, 5, 6, 7, 8, 9, 10, 11, 12, 13, 14, 15, 16]) `
     {d. \<exists>k < 2. (first_parent xE (table_store [0, 1, 2, 3, 5, 6, 7, 8, 9, 10, 11, 12, 13, 14, 15, 16]) ^^ k) 14 d}) = {4}"
    (is "?bad = _")
proof -
  obtain rep where "fsck_run xE (table_store [0, 1, 2, 3, 5, 6, 7, 8, 9, 10, 11, 12, 13, 14, 15, 16]) (Some 2) 14 = Some rep"
    and errs: "fe_cid ` set (fr_errors rep) = Some ` ?bad"
    using fsck_exact [OF xno_cycles, of "[0, 1, 2, 3, 5, 6, 7, 8, 9, 10, 11, 12, 13, 14, 15, 16]" 2 14] by (elim exE conjE)
  with xfsck have "map fe_cid (fr_errors rep) = [Some 4]" by simp
  then have "fe_cid ` set (fr_errors rep) = Some ` {4}" by (metis image_insert image_empty list.set(1) list.set_map list.simps(15))
  with errs have "Some ` ?bad = Some ` {4}" by simp
  then show ?thesis by (simp only: inj_image_eq_iff [OF inj_Some])
qed

end
