(* ===== verification/Spec2Isabelle.thy ===== *)
theory Spec2Isabelle imports Prolly_Props Core_Props History_Props Index_Props Merge_Props Repo_Props Transaction_Props Query_Props Car_Props Ingest_Props Remote_Props
  Fsck_Props begin

text \<open>
  \<^bold>\<open>mnem\<close> is a versioned graph store for agents. Nodes and edges are content-addressed blocks; two Prolly trees hold
  the nodes and the edges of a commit, further trees hold its secondary indexes and embeddings; a view names the commit
  heads, the refs and the tombstones; an operation points at a view and at its parent operations; the op-heads store
  holds the current operations. A reader is pinned to one operation, a transaction collects changes against it and its
  commit writes new blocks and advances the heads; concurrent writers leave several heads, which the next reader merges.
  This development models \<open>crates/mnem-core\<close>, the crate that holds this logic, from the bytes of a key up to the
  commit of a transaction, the transfer format of \<open>crates/mnem-transport\<close>, the replication protocol that
  \<open>crates/mnem-http\<close> serves and \<open>mnem push\<close> speaks, and the chunkers with which \<open>crates/mnem-ingest\<close> cuts documents.

  \<^bold>\<open>How the model is built.\<close> A Rust function is a HOL function over the same data: a struct is a record, an enum a
  datatype, \<open>[u8; 16]\<close> a 128-bit word and the other integers words of their width, a \<open>BTreeMap\<close> a finite map iterated in
  key order. \<open>Result\<close> is a sum with the error left, and every \<open>?\<close>, early return, \<open>expect\<close> and \<open>assert\<close> is a branch. Code
  that writes is a store program \<open>'s \<Rightarrow> ('e + 'a) \<times> 's\<close> (theory Prelude), so that what was written before an error
  stays. What comes from other crates is the parameter \<open>E\<close> of type \<open>external\<close> (theory Codec): encoder and decoder, digests,
  accessors of CIDs and hashes. The laws the proofs ask of it are named predicates that state documented behaviour:
  \<open>codec_roundtrip\<close>, \<open>collision_free\<close> (SHA2-256 has no collision on the blocks at hand), \<open>cid_accessors\<close>, \<open>rehashes\<close>,
  \<open>f32_roundtrip\<close>, and \<open>encodes_plain\<close>: the encoder, which rejects floats that are not finite, accepts every value that has no
  float and no integer beyond 64 bits; \<open>crypto_ok\<close> is the first two together. A float of a property is its 64 bits, and values are
  equal when their bits are; the \<open>==\<close> of \<open>f64\<close> would also identify the two zeros, so what is said of equal property values is not
  about a zero compared with its negative. \<open>trusted E s\<close> says that the store holds under a block's
  CID only that block, \<open>grows E s t\<close> that \<open>t\<close> keeps all that is readable in \<open>s\<close>. The witnesses of the properties run the
  definitions on concrete instances (theories Instance, Table_Instance and Car_Instance) that satisfy these laws.

  \<^bold>\<open>The parts, bottom up\<close> (file names under \<open>crates/mnem-core/src\<close>):

  \<^item> Ids, Codec, Serde: \<open>id/\<close>, \<open>codec/dagcbor.rs\<close>, \<open>error.rs\<close>, and what the serde attributes of the wire structs mean.
  \<^item> Store, Op_Heads: \<open>store/blockstore.rs\<close> with the walk over everything reachable, and \<open>store/op_heads.rs\<close>. The locales
    \<open>block_store\<close> and \<open>op_heads_store\<close> are their interfaces.
  \<^item> Chunker, Prolly_Tree, Prolly_Build, Prolly_Read, Prolly_Diff: \<open>prolly/\<close>. \<open>ptree_of\<close> specifies the builder, \<open>represents\<close>
    relates a root CID to a tree; the locale \<open>tree_map\<close> of Prolly_Map is what every user of the trees relies on: build, read,
    look up, and that later writes do not disturb.
  \<^item> Objects, Index_Objects, Sidecar, Object_Store: \<open>objects/\<close>, each object with its writer and reader; the locale \<open>wire_object\<close>
    states that they are inverse.
  \<^item> Index, Index_Groups, Index_Spec, Index_Readers, Index_Append: \<open>index/build.rs\<close>, \<open>resolve.rs\<close>, \<open>adjacency.rs\<close>. \<open>index_holds\<close>
    specifies an index set by rows of the decoded nodes and edges.
  \<^item> Lca, Merge_Refs, Tree_Merge, Merge_Commit, Merge_Spec, Conflict, Conflict_Spec, Merge_Heads, Merge_Heads_Spec, Merge_Branches:
    \<open>repo/lca.rs\<close>, \<open>repo/merge.rs\<close>, \<open>repo/conflict.rs\<close>. The locale \<open>ancestry\<close> is shared by the operation and the commit graph.
    Stable shows that a store program that succeeds gives the same result on a store with more blocks.
  \<^item> Repo_State, Readonly, Readonly_Spec: \<open>repo/readonly.rs\<close>, on a state of block store and op-heads.
  \<^item> Transaction, Transaction_Spec, Commit_Spec: \<open>repo/transaction.rs\<close>. The mutations are the step relation \<open>tx_step\<close>, with an
    invariant of all reachable transactions; \<open>commit_shows\<close> and \<open>new_view_of\<close> describe what a commit publishes.
  \<^item> Query, Query_Spec: \<open>index/query.rs\<close> and \<open>anchor.rs\<close>, on the indexes and trees of a commit; \<open>matching\<close> is the query as a
    filter of the decoded nodes.
  \<^item> Car, Car_Spec: \<open>crates/mnem-transport\<close>, \<open>car.rs\<close>, \<open>export.rs\<close>, \<open>import.rs\<close>. Readers are programs on the bytes that are left;
    \<open>car_laws\<close> states what the varint and CID crates document.
  \<^item> Auth, Protocol, Remote, Remote_Spec: the replication server, \<open>auth.rs\<close> and \<open>routes/remote.rs\<close> of \<open>crates/mnem-http\<close>, with the
    capabilities of \<open>crates/mnem-transport/src/protocol.rs\<close>. A handler is a program on the stores behind the repository lock;
    \<open>serve\<close> runs one write request, so that concurrent clients are some list of requests.
  \<^item> Remote_Client, Push_Spec: the other end, \<open>crates/mnem-transport/src/client.rs\<close> and \<open>crates/mnem-cli/src/commands/push.rs\<close>, run
    against the handlers; \<open>sendable\<close> collects the limits a pushed history has to respect, \<open>cid_text\<close> says that a CID parses back.
  \<^item> Gc: \<open>post_gc\<close> of \<open>crates/mnem-http/src/handlers.rs\<close>; \<open>gc_live\<close> is reachability from its roots.
  \<^item> Fsck, Fsck_Spec: \<open>mnem fsck\<close>, \<open>crates/mnem-cli/src/commands/fsck.rs\<close>, up to its report. The walk of a tree, which remembers no
    block, is a partial function; \<open>bad_operation\<close> specifies what is to be reported for one operation.
  \<^item> Text, Ingest_Chunk, Ingest_Spec: \<open>crates/mnem-ingest\<close>, \<open>types.rs\<close> and \<open>chunk.rs\<close>, on texts as lists of Unicode scalars.

  \<^bold>\<open>What is proved\<close> stands in the theories with the suffix \<open>Props\<close>, one numbered property after the other: the Prolly tree
  refines a finite map and its root is canonical (Prolly_Props); integrity of the store, the walk, keys and objects
  (Core_Props); ancestors, op-heads and the merge of refs and views (History_Props); the indexes are sound and complete, and the
  append-only update equals a rebuild when no added node shares a property value with an old one (Index_Props); conflicts and branch merges (Merge_Props); convergence of concurrent
  heads and compare-and-swap (Repo_Props); transactions (Transaction_Props); queries, also on what a commit published
  (Query_Props); export and import of archives (Car_Props); the replication protocol never loses a published commit, a push
  publishes the local history, and a collection keeps what the pinned handle shows (Remote_Props); the integrity check ends and
  reports exactly the bad blocks on its way (Fsck_Props); the chunkers lose no text (Ingest_Props).

  \<^bold>\<open>Bounds and fuel.\<close> The readers of a Prolly tree follow CIDs in loops that a malformed store could make endless; they take fuel
  and answer \<open>Diverge\<close> without it. \<open>tree_holds E s fuel root es\<close> includes that the fuel suffices, and \<open>length es + 2\<close> always
  does for a tree the builder wrote. The walks over the DAG, the builder and the merges are total without fuel.
  \<open>max(times) + 1\<close> wraps at 64 bits, as a release build does. Counters of type \<open>usize\<close> that count entries in memory are
  natural numbers; the \<open>i32\<close> counters of the ref merge are integers.

  \<^bold>\<open>Not modelled.\<close> Locks (each operation on a store is atomic), logging and tracing spans, \<open>Display\<close> strings of errors; the redb
  backend (I/O on a database); ranking and retrieval scores, approximate nearest neighbours, PageRank, community detection
  (floating point throughout); the other HTTP handlers, the metrics and limits of the server, the MCP, command-line, Python
  and WebAssembly front ends; failures of the network between client and server; the clients of embedding,
  language-model and reranking services; the parsers and extractors of ingestion; signatures (Ed25519 is a library call).
\<close>

end
